(* ===== verification/Prelude.thy ===== *)
theory Prelude
  imports Complex_Main "HOL-Library.AList" "HOL-Library.Sublist"
begin

text \<open>
  Shared vocabulary of the development.

  \<^item> JSON-like values (\<open>jsval\<close>) with the JavaScript operations the modelled code applies to
    values of type \<open>unknown\<close>: truthiness, \<open>===\<close>, \<open>??\<close>, \<open>typeof x === "string"\<close>, own-property
    lookup, \<open>in\<close> and \<open>Object.assign\<close>.
  \<^item> JavaScript strings as lists of code units below 256, with \<open>trim\<close>, \<open>toLowerCase\<close> and
    \<open>includes\<close> on that range.
  \<^item> The loop "return the first non-null result" (\<open>first_some\<close>).
  \<^item> An interface used by several components: a choice between two values by a rank
    (\<open>rank_choice\<close>).
\<close>

named_theorems js_simps \<open>evaluation of the JavaScript operators on constructors\<close>

section \<open>JavaScript values\<close>

text \<open>Finite numbers are exact rationals; the modelled code only compares them or adds a few.\<close>

datatype jsnum = Fin rat | NaN | PosInf | NegInf

datatype jsval =
    JUndef
  | JNull
  | JBool bool
  | JNum jsnum
  | JStr string
  | JArr "jsval list"
  | JObj "(string \<times> jsval) list"

type_synonym jsobj = "(string \<times> jsval) list"

fun truthy :: "jsval \<Rightarrow> bool" where
  "truthy JUndef = False"
| "truthy JNull = False"
| "truthy (JBool b) = b"
| "truthy (JNum n) = (case n of Fin r \<Rightarrow> r \<noteq> 0 | NaN \<Rightarrow> False | _ \<Rightarrow> True)"
| "truthy (JStr s) = (s \<noteq> [])"
| "truthy (JArr _) = True"
| "truthy (JObj _) = True"

text \<open>
  \<open>===\<close>. Arrays and objects are compared by reference, and two positions of one parsed JSON
  document never hold the same reference, so they are never equal here.
\<close>

fun js_eq :: "jsval \<Rightarrow> jsval \<Rightarrow> bool" where
  "js_eq JUndef JUndef = True"
| "js_eq JNull JNull = True"
| "js_eq (JBool a) (JBool b) = (a = b)"
| "js_eq (JNum NaN) (JNum NaN) = False"
| "js_eq (JNum a) (JNum b) = (a = b)"
| "js_eq (JStr a) (JStr b) = (a = b)"
| "js_eq _ _ = False"

text \<open>The equality of \<open>Array.prototype.includes\<close>: as \<open>===\<close>, but \<open>NaN\<close> equals itself.\<close>

definition js_same :: "jsval \<Rightarrow> jsval \<Rightarrow> bool" where
  "js_same a b \<longleftrightarrow> js_eq a b \<or> (a = JNum NaN \<and> b = JNum NaN)"

definition nullish :: "jsval \<Rightarrow> bool" where
  "nullish v \<longleftrightarrow> v = JUndef \<or> v = JNull"

text \<open>\<open>a ?? b\<close>\<close>

definition coalesce :: "jsval \<Rightarrow> jsval \<Rightarrow> jsval" where
  "coalesce a b = (if nullish a then b else a)"

text \<open>\<open>typeof v === "string" ? v : ""\<close>\<close>

definition js_str :: "jsval \<Rightarrow> string" where
  "js_str v = (case v of JStr s \<Rightarrow> s | _ \<Rightarrow> [])"

text \<open>\<open>v === true\<close> and \<open>v === false\<close>\<close>

definition is_true :: "jsval \<Rightarrow> bool" where
  "is_true v \<longleftrightarrow> v = JBool True"

definition is_false :: "jsval \<Rightarrow> bool" where
  "is_false v \<longleftrightarrow> v = JBool False"

text \<open>A finite number, or nothing.\<close>

definition js_finite :: "jsval \<Rightarrow> rat option" where
  "js_finite v = (case v of JNum (Fin r) \<Rightarrow> Some r | _ \<Rightarrow> None)"

text \<open>A plain object (not null, not an array), or nothing.\<close>

definition as_record :: "jsval \<Rightarrow> jsobj option" where
  "as_record v = (case v of JObj kvs \<Rightarrow> Some kvs | _ \<Rightarrow> None)"

text \<open>Optional strings of a validated request, where \<open>undefined\<close> and \<open>null\<close> mean the same.\<close>

definition js_opt :: "string option \<Rightarrow> jsval" where
  "js_opt v = (case v of None \<Rightarrow> JNull | Some s \<Rightarrow> JStr s)"

definition js_opt_obj :: "jsobj option \<Rightarrow> jsval" where
  "js_opt_obj v = (case v of None \<Rightarrow> JNull | Some kvs \<Rightarrow> JObj kvs)"

lemmas [js_simps] = js_same_def nullish_def coalesce_def js_str_def is_true_def is_false_def
  js_finite_def as_record_def js_opt_def js_opt_obj_def

lemma js_eq_refl_str [simp]: "js_eq (JStr a) v \<longleftrightarrow> v = JStr a"
  by (cases v) auto

lemma js_eq_str_right [simp]: "js_eq v (JStr a) \<longleftrightarrow> v = JStr a"
  by (cases v) auto

lemma truthy_js_opt [simp]: "truthy (js_opt v) \<longleftrightarrow> (\<exists>s. v = Some s \<and> s \<noteq> [])"
  by (auto simp: js_opt_def split: option.splits)

lemma coalesce_simps [simp]:
  "coalesce JUndef b = b" "coalesce JNull b = b" "coalesce (JStr s) b = JStr s"
  "coalesce (JObj kvs) b = JObj kvs" "coalesce (JBool x) b = JBool x"
  by (simp_all add: coalesce_def nullish_def)

lemma js_str_simps [simp]:
  "js_str (JStr s) = s" "js_str JUndef = []" "js_str JNull = []" "js_str (JObj kvs) = []"
  by (simp_all add: js_str_def)

lemma js_str_nonempty: "js_str v = s \<Longrightarrow> s \<noteq> [] \<Longrightarrow> v = JStr s"
  by (auto simp: js_str_def split: jsval.splits)

lemma js_str_eq_lit: "s \<noteq> [] \<Longrightarrow> js_str v = s \<longleftrightarrow> v = JStr s"
  by (auto simp: js_str_def split: jsval.splits)

section \<open>Objects\<close>

text \<open>\<open>o.k\<close> for an own property; a missing property reads as \<open>undefined\<close>.\<close>

definition get_prop :: "jsobj \<Rightarrow> string \<Rightarrow> jsval" where
  "get_prop kvs k = (case map_of kvs k of None \<Rightarrow> JUndef | Some v \<Rightarrow> v)"

text \<open>\<open>k in o\<close>\<close>

definition has_prop :: "jsobj \<Rightarrow> string \<Rightarrow> bool" where
  "has_prop kvs k \<longleftrightarrow> map_of kvs k \<noteq> None"

text \<open>\<open>o.k = v\<close>: an existing property keeps its position, a new one goes last.\<close>

definition set_prop :: "string \<Rightarrow> jsval \<Rightarrow> jsobj \<Rightarrow> jsobj" where
  "set_prop k v kvs = AList.update k v kvs"

text \<open>\<open>Object.assign(target, source)\<close>\<close>

definition js_assign :: "jsobj \<Rightarrow> jsobj \<Rightarrow> jsobj" where
  "js_assign target source = fold (\<lambda>(k, v). set_prop k v) source target"

text \<open>\<open>if (v) o.k = v\<close>\<close>

definition set_if_truthy :: "string \<Rightarrow> jsval \<Rightarrow> jsobj \<Rightarrow> jsobj" where
  "set_if_truthy k v kvs = (if truthy v then set_prop k v kvs else kvs)"

lemma map_of_set_prop: "map_of (set_prop k v kvs) = (map_of kvs)(k \<mapsto> v)"
  by (simp add: set_prop_def update_conv')

lemma prop_Nil [simp]: "get_prop [] k = JUndef"
  by (simp add: get_prop_def)

lemma prop_Cons [simp]: "get_prop ((k', v) # kvs) k = (if k = k' then v else get_prop kvs k)"
  by (simp add: get_prop_def)

lemma has_prop_Nil [simp]: "\<not> has_prop [] k"
  by (simp add: has_prop_def)

lemma has_prop_Cons [simp]: "has_prop ((k', v) # kvs) k \<longleftrightarrow> k = k' \<or> has_prop kvs k"
  by (simp add: has_prop_def)

lemma prop_set_prop [simp]: "get_prop (set_prop k v kvs) k' = (if k' = k then v else get_prop kvs k')"
  by (simp add: get_prop_def map_of_set_prop)

lemma has_prop_set_prop [simp]: "has_prop (set_prop k v kvs) k' \<longleftrightarrow> k' = k \<or> has_prop kvs k'"
  by (auto simp: has_prop_def map_of_set_prop)

lemma prop_set_if_truthy [simp]:
  "get_prop (set_if_truthy k v kvs) k' = (if k' = k \<and> truthy v then v else get_prop kvs k')"
  by (simp add: set_if_truthy_def)

lemma set_update_subset: "e \<in> set (AList.update k v kvs) \<Longrightarrow> e = (k, v) \<or> e \<in> set kvs"
  by (induction kvs) (auto split: if_splits)

lemma map_of_js_assign:
  "distinct (map fst src) \<Longrightarrow> map_of (js_assign tgt src) = map_of tgt ++ map_of src"
proof (induction src arbitrary: tgt)
  case Nil
  then show ?case by (simp add: js_assign_def)
next
  case (Cons kv src)
  obtain k v where kv: "kv = (k, v)" by (cases kv)
  have "map_of (js_assign (set_prop k v tgt) src) = map_of (set_prop k v tgt) ++ map_of src"
    using Cons by simp
  moreover have "k \<notin> dom (map_of src)"
    using Cons.prems kv by (simp add: dom_map_of_conv_image_fst)
  ultimately show ?case
    by (auto simp: js_assign_def kv map_of_set_prop fun_eq_iff map_add_def split: option.splits)
qed

lemma prop_js_assign:
  "distinct (map fst src) \<Longrightarrow>
   get_prop (js_assign tgt src) k = (if has_prop src k then get_prop src k else get_prop tgt k)"
  by (auto simp: get_prop_def has_prop_def map_of_js_assign map_add_def split: option.splits)

lemma prop_js_assign_other:
  "\<not> has_prop src k \<Longrightarrow> get_prop (js_assign tgt src) k = get_prop tgt k"
proof (induction src arbitrary: tgt)
  case Nil
  then show ?case by (simp add: js_assign_def)
next
  case (Cons kv src)
  obtain k' v where kv: "kv = (k', v)" by (cases kv)
  then show ?case
    using Cons.IH [of "set_prop k' v tgt"] Cons.prems by (simp add: js_assign_def)
qed

section \<open>Strings\<close>

text \<open>
  The white space of \<open>trim\<close> and \<open>\s\<close> among code units below 256: tab to carriage return, space
  and the no-break space.
\<close>

definition js_space :: "char \<Rightarrow> bool" where
  "js_space c \<longleftrightarrow> (of_char c :: nat) \<in> {9, 10, 11, 12, 13, 32, 160}"

definition js_trim :: "string \<Rightarrow> string" where
  "js_trim s = rev (dropWhile js_space (rev (dropWhile js_space s)))"

definition js_lower_char :: "char \<Rightarrow> char" where
  "js_lower_char c =
     (let n = (of_char c :: nat)
      in if (65 \<le> n \<and> n \<le> 90) \<or> (192 \<le> n \<and> n \<le> 222 \<and> n \<noteq> 215) then char_of (n + 32) else c)"

definition js_lower :: "string \<Rightarrow> string" where
  "js_lower s = map js_lower_char s"

text \<open>\<open>s.startsWith(p)\<close> and \<open>s.includes(t)\<close>\<close>

definition starts_with :: "string \<Rightarrow> string \<Rightarrow> bool" where
  "starts_with p s \<longleftrightarrow> take (length p) s = p"

fun str_includes :: "string \<Rightarrow> string \<Rightarrow> bool" where
  "str_includes t [] \<longleftrightarrow> t = []"
| "str_includes t (c # s) \<longleftrightarrow> starts_with t (c # s) \<or> str_includes t s"

text \<open>\<open>s.split(c)\<close> for a single character\<close>

fun split_on :: "char \<Rightarrow> string \<Rightarrow> string list" where
  "split_on c [] = [[]]"
| "split_on c (d # s) =
     (if d = c then [] # split_on c s
      else (case split_on c s of p # ps \<Rightarrow> (d # p) # ps | [] \<Rightarrow> [[d]]))"

text \<open>\<open>parts.join(sep)\<close>\<close>

definition join :: "string \<Rightarrow> string list \<Rightarrow> string" where
  "join sep parts = concat (case parts of [] \<Rightarrow> [] | p # ps \<Rightarrow> p # map (\<lambda>q. sep @ q) ps)"

lemma join_Cons: "vs \<noteq> [] \<Longrightarrow> join sep (v # vs) = v @ sep @ join sep vs"
  by (cases vs) (simp_all add: join_def)

lemma join_Nil [simp]: "join sep [] = []" "join sep [v] = v"
  by (simp_all add: join_def)

lemma split_on_nonempty: "split_on c s \<noteq> []"
  by (induction s) (auto split: list.split)

lemma split_on_append:
  "c \<notin> set s \<Longrightarrow> split_on c (s @ c # t) = s # split_on c t"
  by (induction s) auto

lemma split_on_none: "c \<notin> set s \<Longrightarrow> split_on c s = [s]"
  by (induction s) auto

lemma split_on_join:
  "ws \<noteq> [] \<Longrightarrow> \<forall>w\<in>set ws. c \<notin> set w \<Longrightarrow> split_on c (join [c] ws) = ws"
proof (induction ws)
  case (Cons w ws)
  show ?case
  proof (cases "ws = []")
    case True
    with Cons.prems show ?thesis by (induction w) auto
  next
    case False
    have "c \<notin> set w" using Cons.prems by simp
    then have "split_on c (w @ c # join [c] ws) = w # split_on c (join [c] ws)" by (induction w) auto
    with False Cons show ?thesis by (simp add: join_Cons)
  qed
qed simp

lemma str_includes_iff_sublist: "str_includes t s \<longleftrightarrow> sublist t s"
proof (induction s)
  case Nil
  then show ?case by simp
next
  case (Cons c s)
  have "starts_with t (c # s) \<longleftrightarrow> Sublist.prefix t (c # s)"
    unfolding starts_with_def
    by (metis append_eq_conv_conj append_take_drop_id prefixI prefix_def)
  with Cons show ?case by (simp add: sublist_Cons_right)
qed

lemma length_js_lower [simp]: "length (js_lower s) = length s"
  by (simp add: js_lower_def)

text \<open>\<open>typeof v === "string" && v.trim() ? v.trim() : null\<close>\<close>

definition string_value :: "jsval \<Rightarrow> string option" where
  "string_value v =
     (case v of JStr s \<Rightarrow> (if js_trim s \<noteq> [] then Some (js_trim s) else None) | _ \<Rightarrow> None)"

section \<open>Digits\<close>

definition is_digit :: "char \<Rightarrow> bool" where
  "is_digit c \<longleftrightarrow> 48 \<le> (of_char c :: nat) \<and> (of_char c :: nat) \<le> 57"

definition digit_value :: "char \<Rightarrow> nat" where
  "digit_value c = of_char c - 48"

definition digit_char :: "nat \<Rightarrow> char" where
  "digit_char n = char_of (48 + n)"

text \<open>\<open>n.toString()\<close>\<close>

fun nat_text :: "nat \<Rightarrow> string" where
  "nat_text n = (if n < 10 then [digit_char n] else nat_text (n div 10) @ [digit_char (n mod 10)])"

declare nat_text.simps [simp del]

text \<open>\<open>BigInt(digits)\<close>\<close>

definition digits_value :: "string \<Rightarrow> nat" where
  "digits_value s = foldl (\<lambda>a c. 10 * a + digit_value c) 0 s"

lemma of_char_digit_char [simp]: "n < 10 \<Longrightarrow> of_char (digit_char n) = 48 + n"
  by (simp add: digit_char_def of_char_of)

lemma digit_char_props [simp]:
  "n < 10 \<Longrightarrow> is_digit (digit_char n)" "n < 10 \<Longrightarrow> digit_value (digit_char n) = n"
  by (simp_all add: is_digit_def digit_value_def)

lemma nat_text_digits: "list_all is_digit (nat_text n)"
  by (induction n rule: nat_text.induct) (subst nat_text.simps, simp)

lemma nat_text_nonempty [simp]: "nat_text n \<noteq> []"
  by (subst nat_text.simps) simp

lemma digits_value_snoc [simp]: "digits_value (s @ [c]) = 10 * digits_value s + digit_value c"
  by (simp add: digits_value_def)

lemma digits_value_nat_text [simp]: "digits_value (nat_text n) = n"
proof (induction n rule: nat_text.induct)
  case (1 n)
  show ?case
  proof (cases "n < 10")
    case True
    then show ?thesis by (subst nat_text.simps) (simp add: digits_value_def)
  next
    case False
    with 1 show ?thesis by (subst nat_text.simps) simp
  qed
qed

lemma nat_text_inj: "inj nat_text"
  by (rule inj_on_inverseI [where g = digits_value]) simp

text \<open>A nullable string as a condition: neither \<open>null\<close> nor empty\<close>

definition given :: "string option \<Rightarrow> bool" where
  "given v \<longleftrightarrow> v \<noteq> None \<and> v \<noteq> Some []"

section \<open>First result wins\<close>

text \<open>\<open>for (const f of fs) { const r = f(x); if (r !== null) return r; } return null;\<close>\<close>

fun first_some :: "('a \<Rightarrow> 'b option) list \<Rightarrow> 'a \<Rightarrow> 'b option" where
  "first_some [] x = None"
| "first_some (f # fs) x = (case f x of Some r \<Rightarrow> Some r | None \<Rightarrow> first_some fs x)"

lemma first_some_None: "first_some fs x = None \<longleftrightarrow> (\<forall>f\<in>set fs. f x = None)"
  by (induction fs) (auto split: option.splits)

lemma first_some_Some:
  "first_some fs x = Some r \<Longrightarrow> \<exists>f\<in>set fs. f x = Some r"
  by (induction fs) (auto split: option.splits)

lemma first_some_not_None:
  "f \<in> set fs \<Longrightarrow> f x = Some r \<Longrightarrow> first_some fs x \<noteq> None"
  by (auto simp: first_some_None)

lemma first_some_append:
  "first_some (fs @ gs) x = (case first_some fs x of Some r \<Rightarrow> Some r | None \<Rightarrow> first_some gs x)"
  by (induction fs) (auto split: option.splits)

text \<open>When every rule that speaks gives a result in \<open>P\<close>, so does the chain.\<close>

lemma first_some_invariant:
  assumes "first_some fs x = Some r" and "\<And>f. f \<in> set fs \<Longrightarrow> f x = Some r \<Longrightarrow> P r"
  shows "P r"
  using first_some_Some [OF assms(1)] assms(2) by blast

section \<open>Interfaces shared by components\<close>

text \<open>
  A choice between two values by rank: \<open>effectiveProposalRisk\<close>, \<open>stricterSandbox\<close>,
  \<open>stricterTrust\<close>, \<open>widestAccessDecision\<close> and the sensitivity ceiling all pick one of their
  arguments so that the result ranks at least as high as both.
\<close>

locale rank_choice =
  fixes rank :: "'a \<Rightarrow> nat" and pick :: "'a \<Rightarrow> 'a \<Rightarrow> 'a"
  assumes rank_inj: "rank x = rank y \<Longrightarrow> x = y"
    and pick_either: "pick x y = x \<or> pick x y = y"
    and pick_left: "rank x \<le> rank (pick x y)"
    and pick_right: "rank y \<le> rank (pick x y)"
begin

lemma pick_rank: "rank (pick x y) = max (rank x) (rank y)"
  using pick_either [of x y] pick_left [of x y] pick_right [of y x] by auto

lemma pick_idem: "pick x x = x"
  using pick_either [of x x] by auto

lemma pick_comm: "pick x y = pick y x"
  by (rule rank_inj) (simp add: pick_rank max.commute)

lemma pick_assoc: "pick (pick x y) z = pick x (pick y z)"
  by (rule rank_inj) (simp add: pick_rank max.assoc)

lemma pick_least: "rank x \<le> n \<Longrightarrow> rank y \<le> n \<Longrightarrow> rank (pick x y) \<le> n"
  by (simp add: pick_rank)

lemma pick_absorb: "rank x \<le> rank y \<Longrightarrow> pick x y = y"
  by (rule rank_inj) (simp add: pick_rank)

lemma pick_fold_rank: "rank (fold pick ys x) = fold max (map rank ys) (rank x)"
  by (induction ys arbitrary: x) (simp_all add: pick_rank)

lemma pick_fold_ge: "rank x \<le> rank (fold pick ys x)"
proof (induction ys arbitrary: x)
  case Nil
  then show ?case by simp
next
  case (Cons y ys)
  have "rank x \<le> rank (pick y x)" by (rule pick_right)
  also have "\<dots> \<le> rank (fold pick ys (pick y x))" by (rule Cons)
  finally show ?case by simp
qed

end

lemma find_SomeD: "find P xs = Some x \<Longrightarrow> x \<in> set xs \<and> P x"
  by (auto simp: find_Some_iff)

lemma list_all2_left: "list_all2 P xs ys \<Longrightarrow> x \<in> set xs \<Longrightarrow> \<exists>y\<in>set ys. P x y"
  by (induction rule: list_all2_induct) auto

end
