(* ===== verification/PolicyDecisions.thy ===== *)
theory PolicyDecisions
  imports Prelude
begin

text \<open>
  Policy decision values, risk ranks and the space roles:
  \<open>server/src/modules/policy/decisions.ts\<close> and the role part of
  \<open>server/src/modules/policy/decisionCore.ts\<close>.

  The human-readable \<open>message\<close> of a decision is left out of the record: it is built from the
  decision's other inputs and no modelled code reads it. Optional fields are JavaScript values,
  \<open>JUndef\<close> where the code leaves the field out, because some of them are copied unchecked from
  the decision context.
\<close>

section \<open>Enumerations\<close>

datatype decision_value = Allow | Deny | RequireApproval

datatype risk_level = Low | Medium | High | Critical

fun risk_rank :: "risk_level \<Rightarrow> nat" where
  "risk_rank Low = 0"
| "risk_rank Medium = 1"
| "risk_rank High = 2"
| "risk_rank Critical = 3"

instantiation risk_level :: linorder
begin

definition less_eq_risk_level :: "risk_level \<Rightarrow> risk_level \<Rightarrow> bool" where
  "less_eq_risk_level a b \<longleftrightarrow> risk_rank a \<le> risk_rank b"

definition less_risk_level :: "risk_level \<Rightarrow> risk_level \<Rightarrow> bool" where
  "less_risk_level a b \<longleftrightarrow> risk_rank a < risk_rank b"

lemma risk_rank_eq: "risk_rank a = risk_rank b \<Longrightarrow> a = b"
  by (cases a; cases b) auto

instance
  by standard (auto simp: less_eq_risk_level_def less_risk_level_def intro: risk_rank_eq)

end

lemma risk_rank_inj: "risk_rank a = risk_rank b \<Longrightarrow> a = b"
  by (cases a; cases b) auto

lemma risk_rank_le3: "risk_rank r \<le> 3"
  by (cases r) auto

text \<open>\<open>VALID_RISK_LEVELS\<close> and the reading of a risk string.\<close>

definition risk_of_string :: "string \<Rightarrow> risk_level option" where
  "risk_of_string s =
     (if s = ''low'' then Some Low else if s = ''medium'' then Some Medium
      else if s = ''high'' then Some High else if s = ''critical'' then Some Critical else None)"

section \<open>The decision record\<close>

record policy_decision =
  pd_decision :: decision_value
  pd_risk_level :: risk_level
  pd_reason_code :: jsval
  pd_required_approver_role :: jsval
  pd_policy_rule_id :: jsval
  pd_policy_source :: string
  pd_policy_id :: jsval
  pd_actor_type :: jsval
  pd_actor_id :: jsval
  pd_actor_ref :: jsval
  pd_space_id :: jsval
  pd_action :: jsval
  pd_resource_type :: jsval
  pd_resource_id :: jsval
  pd_audit_code :: jsval
  pd_approval_capability :: jsval
  pd_proposal_type :: jsval
  pd_metadata_json :: jsval

text \<open>\<open>makeDecision\<close>: risk \<open>low\<close> and source \<open>builtin\<close> unless the caller says otherwise.\<close>

definition make_decision :: "decision_value \<Rightarrow> policy_decision" where
  "make_decision d =
     \<lparr>pd_decision = d, pd_risk_level = Low, pd_reason_code = JUndef,
      pd_required_approver_role = JUndef, pd_policy_rule_id = JUndef,
      pd_policy_source = ''builtin'', pd_policy_id = JUndef, pd_actor_type = JUndef,
      pd_actor_id = JUndef, pd_actor_ref = JUndef, pd_space_id = JUndef, pd_action = JUndef,
      pd_resource_type = JUndef, pd_resource_id = JUndef, pd_audit_code = JUndef,
      pd_approval_capability = JUndef, pd_proposal_type = JUndef, pd_metadata_json = JUndef\<rparr>"

lemma make_decision_decision [simp]: "pd_decision (make_decision d) = d"
  by (simp add: make_decision_def)

lemma make_decision_fields [simp]:
  "pd_risk_level (make_decision d) = Low"
  "pd_policy_source (make_decision d) = ''builtin''"
  "pd_reason_code (make_decision d) = JUndef"
  "pd_space_id (make_decision d) = JUndef"
  "pd_actor_id (make_decision d) = JUndef"
  "pd_resource_id (make_decision d) = JUndef"
  "pd_required_approver_role (make_decision d) = JUndef"
  by (simp_all add: make_decision_def)

section \<open>Who may approve which risk\<close>

text \<open>\<open>POLICY_APPROVER_MAX_RISK\<close> and \<open>roleMayApproveRisk\<close>.\<close>

definition approver_max_risk :: "string \<Rightarrow> risk_level option" where
  "approver_max_risk role =
     (if role = ''owner'' then Some Critical
      else if role = ''admin'' then Some High
      else if role = ''reviewer'' then Some Medium else None)"

definition role_may_approve_risk :: "string option \<Rightarrow> risk_level \<Rightarrow> bool" where
  "role_may_approve_risk role risk =
     (case (case role of None \<Rightarrow> None | Some r \<Rightarrow> if r = [] then None else approver_max_risk r) of
        None \<Rightarrow> False
      | Some cap \<Rightarrow> risk_rank risk \<le> risk_rank cap)"

lemma role_may_approve_risk_mono:
  "role_may_approve_risk role r \<Longrightarrow> r' \<le> r \<Longrightarrow> role_may_approve_risk role r'"
  by (auto simp: role_may_approve_risk_def less_eq_risk_level_def split: option.splits if_splits)

section \<open>Canonical space roles\<close>

definition canonical_roles :: "string list" where
  "canonical_roles = [''guest'', ''member'', ''reviewer'', ''admin'', ''owner'']"

text \<open>\<open>ROLE_RANK\<close>: the position of a role in the list.\<close>

fun index_of :: "'a \<Rightarrow> 'a list \<Rightarrow> nat option" where
  "index_of x [] = None"
| "index_of x (y # ys) = (if x = y then Some 0 else map_option Suc (index_of x ys))"

definition role_rank_map :: "string \<Rightarrow> nat option" where
  "role_rank_map role = index_of role canonical_roles"

definition normalize_role :: "string \<Rightarrow> string" where
  "normalize_role raw =
     (if raw = [] then ''guest''
      else let lower = js_lower (js_trim raw)
           in if role_rank_map lower \<noteq> None then lower else ''guest'')"

definition role_rank :: "string \<Rightarrow> nat" where
  "role_rank role = (case role_rank_map (normalize_role role) of None \<Rightarrow> 0 | Some n \<Rightarrow> n)"

definition has_role_at_least :: "string \<Rightarrow> string \<Rightarrow> bool" where
  "has_role_at_least role required \<longleftrightarrow> role_rank role \<ge> role_rank required"

lemma role_rank_canonical:
  "role_rank ''guest'' = 0" "role_rank ''member'' = 1" "role_rank ''reviewer'' = 2"
  "role_rank ''admin'' = 3" "role_rank ''owner'' = 4"
  by code_simp+

text \<open>A string that does not read as a role gets the lowest rank.\<close>

lemma role_rank_unknown:
  "role_rank_map (js_lower (js_trim r)) = None \<Longrightarrow> role_rank r = 0"
  by (simp add: role_rank_def normalize_role_def Let_def) code_simp

lemma role_rank_empty: "role_rank [] = 0"
  by code_simp

lemma has_role_at_least_trans:
  "has_role_at_least a b \<Longrightarrow> has_role_at_least b c \<Longrightarrow> has_role_at_least a c"
  by (simp add: has_role_at_least_def)

end
