(* ===== verification/PolicyInvariants.thy ===== *)
theory PolicyInvariants
  imports PolicyDecisions
begin

text \<open>
  The hard invariants of \<open>server/src/modules/policy/decisionCore.ts\<close>: six guards over the
  guard context, evaluated before any rule, the first denial winning.
\<close>

section \<open>Action sets\<close>

definition persistence_actions :: "string list" where
  "persistence_actions =
     [''artifact.persist'', ''memory.create'', ''memory.update'', ''memory.archive'',
      ''project_folder.write_patch'', ''project_folder.apply_patch'', ''proposal.create'',
      ''proposal.apply'', ''capability.enable'', ''capability.update'', ''tool_binding.enable'',
      ''automation.create'', ''automation.fire'', ''automation.update'', ''deployment.propose'',
      ''deployment.execute'']"

definition approval_proof_flags :: "string list" where
  "approval_proof_flags =
     [''approved_by_user'', ''approved_by_granting_user'', ''approval_status'', ''is_approved'',
      ''auto_approved'', ''pre_approved'']"

definition egress_sensitive_actions :: "string list" where
  "egress_sensitive_actions =
     [''artifact.export'', ''artifact.persist'', ''proposal.apply'', ''context.use_personal_grant'']"

definition memory_read_actions :: "string list" where
  "memory_read_actions = [''context.inject_memory'', ''context.use_personal_grant'']"

section \<open>Guards\<close>

text \<open>The decision every guard makes, with its own rule id, audit code and context fields.\<close>

definition hard_denial :: "string \<Rightarrow> string \<Rightarrow> string \<Rightarrow> jsval \<Rightarrow> policy_decision" where
  "hard_denial rule_id audit_code action space_id =
     (make_decision Deny)
       \<lparr>pd_risk_level := Critical, pd_reason_code := JStr rule_id, pd_policy_rule_id := JStr rule_id,
        pd_policy_source := ''hard_invariant'', pd_audit_code := JStr audit_code,
        pd_action := JStr action, pd_space_id := space_id\<rparr>"

definition ctx_action :: "jsobj \<Rightarrow> string" where
  "ctx_action ctx = js_str (get_prop ctx ''action'')"

text \<open>\<open>asRecord(ctx.k) ?? {}\<close>\<close>

definition bag :: "jsobj \<Rightarrow> string \<Rightarrow> jsobj" where
  "bag ctx k = (case as_record (get_prop ctx k) of None \<Rightarrow> [] | Some kvs \<Rightarrow> kvs)"

definition cross_space_memory_read :: "jsobj \<Rightarrow> policy_decision option" where
  "cross_space_memory_read ctx =
     (let action = ctx_action ctx;
          space_id = get_prop ctx ''space_id'';
          resource_space_id = get_prop ctx ''resource_space_id''
      in if action \<notin> set memory_read_actions \<and> action \<noteq> ''context.render_for_runtime'' then None
         else if \<not> truthy space_id \<or> \<not> truthy resource_space_id then None
         else if js_eq space_id resource_space_id then None
         else if is_true (get_prop ctx ''has_personal_memory_grant'') then None
         else Some ((hard_denial ''hard_invariant_cross_space_memory'' ''cross_space_memory_denied''
                      action (if js_str space_id = [] then JNull else JStr (js_str space_id)))
                     \<lparr>pd_resource_type := coalesce (get_prop ctx ''resource_type'') JNull\<rparr>))"

definition personal_context_block_not_persisted :: "jsobj \<Rightarrow> policy_decision option" where
  "personal_context_block_not_persisted ctx =
     (let action = ctx_action ctx
      in if action \<notin> set persistence_actions then None
         else if has_prop (bag ctx ''metadata_json'') ''personal_context_block''
              \<or> has_prop (bag ctx ''context'') ''personal_context_block''
         then Some (hard_denial ''hard_invariant_personal_context_not_persisted''
                     ''personal_context_block_persist_attempt'' action
                     (coalesce (get_prop ctx ''space_id'') JNull))
         else None)"

definition raw_private_memory_blocks_egress :: "jsobj \<Rightarrow> policy_decision option" where
  "raw_private_memory_blocks_egress ctx =
     (let action = ctx_action ctx
      in if action \<notin> set egress_sensitive_actions then None
         else if is_true (get_prop ctx ''raw_private_memory_included'')
              \<or> is_true (get_prop (bag ctx ''context'') ''raw_private_memory_included'')
         then Some (hard_denial ''hard_invariant_raw_private_memory_egress''
                     ''raw_private_memory_egress_blocked'' action
                     (coalesce (get_prop ctx ''space_id'') JNull))
         else None)"

definition public_target_blocks_grant_derived :: "jsobj \<Rightarrow> policy_decision option" where
  "public_target_blocks_grant_derived ctx =
     (let action = ctx_action ctx
      in if action \<notin> set egress_sensitive_actions then None
         else if \<not> is_true (get_prop ctx ''derived_from_personal_memory_grant'') then None
         else if js_lower (js_str (get_prop ctx ''target_visibility'')) = ''public''
         then Some (hard_denial ''hard_invariant_public_visibility_grant_derived''
                     ''grant_derived_public_visibility_blocked'' action
                     (coalesce (get_prop ctx ''space_id'') JNull))
         else None)"

definition payload_flags_not_approval_proof :: "jsobj \<Rightarrow> policy_decision option" where
  "payload_flags_not_approval_proof ctx =
     (let action = ctx_action ctx
      in if action \<noteq> ''proposal.apply'' then None
         else if list_ex (\<lambda>b. list_ex (has_prop b) approval_proof_flags)
                [bag ctx ''payload'', bag ctx ''metadata_json'', bag ctx ''context'']
         then Some (hard_denial ''hard_invariant_payload_not_approval_proof''
                     ''payload_flag_as_approval_proof'' action
                     (coalesce (get_prop ctx ''space_id'') JNull))
         else None)"

definition unknown_target_space_egress_fails_closed :: "jsobj \<Rightarrow> policy_decision option" where
  "unknown_target_space_egress_fails_closed ctx =
     (let action = ctx_action ctx;
          target = get_prop ctx ''target_space_id''
      in if action \<notin> set egress_sensitive_actions then None
         else if nullish target then None
         else if (case target of JStr s \<Rightarrow> js_trim s = [] | _ \<Rightarrow> True)
         then Some (hard_denial ''hard_invariant_unknown_target_space''
                     ''unknown_target_space_egress'' action
                     (coalesce (get_prop ctx ''space_id'') JNull))
         else None)"

definition hard_invariants :: "(jsobj \<Rightarrow> policy_decision option) list" where
  "hard_invariants =
     [cross_space_memory_read, personal_context_block_not_persisted,
      raw_private_memory_blocks_egress, public_target_blocks_grant_derived,
      payload_flags_not_approval_proof, unknown_target_space_egress_fails_closed]"

definition check_hard_invariants :: "jsobj \<Rightarrow> policy_decision option" where
  "check_hard_invariants ctx = first_some hard_invariants ctx"

lemmas guard_defs =
  cross_space_memory_read_def personal_context_block_not_persisted_def
  raw_private_memory_blocks_egress_def public_target_blocks_grant_derived_def
  payload_flags_not_approval_proof_def unknown_target_space_egress_fails_closed_def

section \<open>What the guards promise\<close>

lemma hard_denial_fields [simp]:
  "pd_decision (hard_denial r c a s) = Deny"
  "pd_risk_level (hard_denial r c a s) = Critical"
  "pd_policy_source (hard_denial r c a s) = ''hard_invariant''"
  "pd_action (hard_denial r c a s) = JStr a"
  by (simp_all add: hard_denial_def)

text \<open>The shape shared by every guard's answer.\<close>

definition hard_denial_shape :: "policy_decision \<Rightarrow> bool" where
  "hard_denial_shape d \<longleftrightarrow>
     pd_decision d = Deny \<and> pd_risk_level d = Critical \<and> pd_policy_source d = ''hard_invariant''"

lemma guard_shape:
  "g \<in> set hard_invariants \<Longrightarrow> g ctx = Some d \<Longrightarrow> hard_denial_shape d"
  by (auto simp: hard_invariants_def guard_defs Let_def hard_denial_shape_def split: if_splits)

lemma check_hard_invariants_shape:
  "check_hard_invariants ctx = Some d \<Longrightarrow> hard_denial_shape d"
  unfolding check_hard_invariants_def
  by (erule first_some_invariant) (rule guard_shape)

text \<open>A guard that fires makes the whole check fire.\<close>

lemma check_hard_invariants_fires:
  "g \<in> set hard_invariants \<Longrightarrow> g ctx \<noteq> None \<Longrightarrow> check_hard_invariants ctx \<noteq> None"
  by (auto simp: check_hard_invariants_def dest: first_some_not_None)

lemma raw_private_memory_fires:
  assumes "ctx_action ctx \<in> set egress_sensitive_actions"
    and "is_true (get_prop ctx ''raw_private_memory_included'')"
  shows "check_hard_invariants ctx \<noteq> None"
proof (rule check_hard_invariants_fires)
  show "raw_private_memory_blocks_egress \<in> set hard_invariants"
    by (simp add: hard_invariants_def)
  show "raw_private_memory_blocks_egress ctx \<noteq> None"
    using assms by (simp add: raw_private_memory_blocks_egress_def)
qed

lemma personal_block_fires:
  assumes "ctx_action ctx \<in> set persistence_actions"
    and "has_prop (bag ctx ''metadata_json'') ''personal_context_block''"
  shows "check_hard_invariants ctx \<noteq> None"
proof (rule check_hard_invariants_fires)
  show "personal_context_block_not_persisted \<in> set hard_invariants"
    by (simp add: hard_invariants_def)
  show "personal_context_block_not_persisted ctx \<noteq> None"
    using assms by (simp add: personal_context_block_not_persisted_def)
qed

lemma approval_flag_fires:
  assumes "ctx_action ctx = ''proposal.apply''"
    and "flag \<in> set approval_proof_flags"
    and "has_prop (bag ctx ''payload'') flag"
  shows "check_hard_invariants ctx \<noteq> None"
proof (rule check_hard_invariants_fires)
  show "payload_flags_not_approval_proof \<in> set hard_invariants"
    by (simp add: hard_invariants_def)
  have "list_ex (has_prop (bag ctx ''payload'')) approval_proof_flags"
    using assms(2,3) by (auto simp: list_ex_iff)
  then show "payload_flags_not_approval_proof ctx \<noteq> None"
    using assms(1) by (simp add: payload_flags_not_approval_proof_def)
qed

text \<open>Actions outside the three sets are never stopped by a hard invariant.\<close>

lemma check_hard_invariants_other:
  assumes "ctx_action ctx \<notin> set memory_read_actions \<union> set persistence_actions
             \<union> set egress_sensitive_actions \<union> {''context.render_for_runtime''}"
  shows "check_hard_invariants ctx = None"
  using assms
  by (auto simp: check_hard_invariants_def hard_invariants_def guard_defs
      egress_sensitive_actions_def)

end
