(* ===== verification/PolicyManaged.thy ===== *)
theory PolicyManaged
  imports Prelude
begin

text \<open>
  Setup authorizations for work that runs with nobody present:
  \<open>server/src/modules/policy/managedExecutionPolicy.ts\<close>. Kinds and origins stay strings, as the
  code reads them from contract JSON.
\<close>

text \<open>\<open>ManagedExecutionKind\<close> and the kinds with an origin (\<open>PRE_AUTHORIZED_ORIGIN\<close>).\<close>

definition managed_execution_kinds :: "string list" where
  "managed_execution_kinds =
     [''source_deep_reading'', ''reading_method_generation'', ''reading_method_trial'',
      ''source_goal'', ''source_post_processing'', ''source_annotation'', ''project_research'',
      ''information_briefing'']"

definition pre_authorized_origin :: "(string \<times> string) list" where
  "pre_authorized_origin =
     [(''source_goal'', ''system''),
      (''source_post_processing'', ''job''),
      (''source_annotation'', ''job''),
      (''project_research'', ''system''),
      (''information_briefing'', ''job''),
      (''daily_report'', ''job''),
      (''imported_session_extraction'', ''job''),
      (''conversation_title'', ''job''),
      (''retrieval_embedding'', ''job''),
      (''research_pipeline'', ''job'')]"

definition is_managed_execution_kind :: "jsval \<Rightarrow> bool" where
  "is_managed_execution_kind v = (case v of JStr s \<Rightarrow> s \<in> set managed_execution_kinds | _ \<Rightarrow> False)"

record managed_execution_policy =
  me_managed_execution :: string
  me_credential_pre_authorized :: bool
  me_failure_policy :: string

definition create_managed_execution_policy :: "string \<Rightarrow> bool \<Rightarrow> managed_execution_policy" where
  "create_managed_execution_policy kind pre_authorized =
     \<lparr>me_managed_execution = kind, me_credential_pre_authorized = pre_authorized,
      me_failure_policy = ''fail_fast''\<rparr>"

definition read_managed_execution_policy :: "jsval \<Rightarrow> managed_execution_policy option" where
  "read_managed_execution_policy v =
     (case as_record v of
        None \<Rightarrow> None
      | Some o' \<Rightarrow>
          if is_managed_execution_kind (get_prop o' ''managed_execution'')
             \<and> get_prop o' ''failure_policy'' = JStr ''fail_fast''
          then Some (create_managed_execution_policy
                       (js_str (get_prop o' ''managed_execution''))
                       (is_true (get_prop o' ''credential_pre_authorized'')))
          else None)"

definition managed_execution_policy_from_contract :: "jsval \<Rightarrow> managed_execution_policy option" where
  "managed_execution_policy_from_contract snapshot =
     (case as_record snapshot of
        None \<Rightarrow> None
      | Some o' \<Rightarrow> read_managed_execution_policy (get_prop o' ''policy_context_json''))"

text \<open>
  \<open>allowsManagedCredentialUse\<close>: the context asserts the pre-authorization and names a kind
  whose registered origin is exactly the run's trigger origin.
\<close>

definition allows_managed_credential_use :: "string \<Rightarrow> jsobj \<Rightarrow> bool" where
  "allows_managed_credential_use trigger_origin context \<longleftrightarrow>
     is_true (get_prop context ''credential_pre_authorized'') \<and>
     (case get_prop context ''managed_execution'' of
        JStr kind \<Rightarrow> map_of pre_authorized_origin kind = Some trigger_origin
      | _ \<Rightarrow> False)"

definition credential_setup_context :: "string \<Rightarrow> bool \<Rightarrow> jsobj" where
  "credential_setup_context kind still_authorized =
     [(''managed_execution'', JStr kind), (''credential_pre_authorized'', JBool still_authorized)]"

definition credential_policy_metadata :: "managed_execution_policy option \<Rightarrow> jsobj" where
  "credential_policy_metadata context =
     (case context of
        None \<Rightarrow> []
      | Some p \<Rightarrow>
          [(''managed_execution'', JStr (me_managed_execution p)),
           (''credential_pre_authorized'', JBool (me_credential_pre_authorized p)),
           (''failure_policy'', JStr (me_failure_policy p))])"

text \<open>\<open>isManagedFailFastRun\<close>\<close>

definition is_managed_fail_fast_run :: "string \<Rightarrow> jsval \<Rightarrow> bool" where
  "is_managed_fail_fast_run trigger_origin contract_snapshot =
     (case managed_execution_policy_from_contract contract_snapshot of
        None \<Rightarrow> False
      | Some p \<Rightarrow>
          (trigger_origin = ''manual'' \<and>
             me_managed_execution p \<in> {''reading_method_trial'', ''reading_method_generation'',
                                       ''source_deep_reading''})
          \<or> (trigger_origin = ''job'' \<and> me_managed_execution p = ''source_post_processing'')
          \<or> ((trigger_origin = ''job'' \<or> trigger_origin = ''manual'') \<and>
             me_managed_execution p = ''information_briefing'')
          \<or> (trigger_origin = ''system'' \<and>
             me_managed_execution p \<in> {''project_research'', ''source_goal''}))"

section \<open>Properties\<close>

lemma pre_authorized_origin_distinct: "distinct (map fst pre_authorized_origin)"
  by (simp add: pre_authorized_origin_def)

lemma pre_authorized_origin_range:
  "map_of pre_authorized_origin kind = Some org \<Longrightarrow> org = ''job'' \<or> org = ''system''"
  by (auto simp: pre_authorized_origin_def split: if_splits)

text \<open>A kind claimed from an attended, automation or autonomous origin authorizes nothing.\<close>

lemma managed_use_origin:
  "allows_managed_credential_use origin context \<Longrightarrow> origin = ''job'' \<or> origin = ''system''"
  by (auto simp: allows_managed_credential_use_def split: jsval.splits
      dest: pre_authorized_origin_range)

text \<open>The metadata a contract's policy writes reads back as the same policy.\<close>

lemma managed_policy_roundtrip:
  assumes "kind \<in> set managed_execution_kinds"
  shows "managed_execution_policy_from_contract
           (JObj [(''policy_context_json'',
                   JObj (credential_policy_metadata
                           (Some (create_managed_execution_policy kind pre))))])
         = Some (create_managed_execution_policy kind pre)"
  using assms
  by (simp add: managed_execution_policy_from_contract_def read_managed_execution_policy_def
      credential_policy_metadata_def create_managed_execution_policy_def
      is_managed_execution_kind_def js_simps)

lemma setup_context_allows_iff:
  "allows_managed_credential_use origin (credential_setup_context kind ok) \<longleftrightarrow>
   ok \<and> map_of pre_authorized_origin kind = Some origin"
  by (auto simp: allows_managed_credential_use_def credential_setup_context_def is_true_def)

end
