(* ===== verification/PolicyRules.thy ===== *)
theory PolicyRules
  imports PolicyInvariants PolicyManaged
begin

text \<open>
  The built-in policy rules of \<open>server/src/modules/policy/decisionCore.ts\<close>, one definition per
  rule in source order. A rule answers \<open>None\<close> when it does not apply.
\<close>

text \<open>\<open>makeDecision\<close> with the four fields every rule sets.\<close>

definition rule_decision ::
    "decision_value \<Rightarrow> risk_level \<Rightarrow> string \<Rightarrow> string \<Rightarrow> string \<Rightarrow> policy_decision" where
  "rule_decision d risk reason rule_id audit_code =
     (make_decision d)
       \<lparr>pd_risk_level := risk, pd_reason_code := JStr reason, pd_policy_rule_id := JStr rule_id,
        pd_audit_code := JStr audit_code\<rparr>"

lemma rule_decision_fields [simp]:
  "pd_decision (rule_decision d k r i a) = d"
  "pd_risk_level (rule_decision d k r i a) = k"
  "pd_reason_code (rule_decision d k r i a) = JStr r"
  "pd_policy_rule_id (rule_decision d k r i a) = JStr i"
  "pd_audit_code (rule_decision d k r i a) = JStr a"
  by (simp_all add: rule_decision_def)

section \<open>Space, agent and memory scope\<close>

definition rule_space_boundary :: "jsobj \<Rightarrow> policy_decision option" where
  "rule_space_boundary ctx =
     (let requesting = get_prop ctx ''space_id''; resource = get_prop ctx ''resource_space_id''
      in if truthy resource \<and> truthy requesting \<and> \<not> js_eq requesting resource
         then Some (rule_decision Deny Critical ''space_boundary'' ''space_boundary''
                     ''cross_space_access_denied'')
         else None)"

definition rule_agent_status :: "jsobj \<Rightarrow> policy_decision option" where
  "rule_agent_status ctx =
     (let action = ctx_action ctx; agent_status = get_prop ctx ''agent_status''
      in if truthy agent_status \<and> \<not> js_eq agent_status (JStr ''active'')
            \<and> (starts_with ''memory.'' action \<or> action = ''runtime.execute'')
         then Some (rule_decision Deny High ''agent_status'' ''agent_status'' ''agent_not_active'')
         else None)"

definition protected_memory_scopes :: "string list" where
  "protected_memory_scopes = [''user'', ''project_folder'', ''space'', ''system'']"

definition rule_memory_scope :: "jsobj \<Rightarrow> policy_decision option" where
  "rule_memory_scope ctx =
     (let action = ctx_action ctx
      in if action \<notin> {''memory.create'', ''memory.update'', ''memory.archive''} then None
         else if js_str (get_prop ctx ''resource_id'') \<in> set protected_memory_scopes
         then Some ((rule_decision RequireApproval Medium ''memory_scope_requires_approval''
                      ''memory_scope'' ''memory_scope_requires_approval'')
                     \<lparr>pd_required_approver_role := JStr ''owner''\<rparr>)
         else None)"

section \<open>Credential use\<close>

definition attended_trigger_origins :: "string list" where
  "attended_trigger_origins = [''manual'']"

definition rule_use_credential :: "jsobj \<Rightarrow> policy_decision option" where
  "rule_use_credential ctx =
     (let action = ctx_action ctx;
          space_id = get_prop ctx ''space_id'';
          resource_space_id = get_prop ctx ''resource_space_id'';
          trigger_origin = js_str (get_prop ctx ''trigger_origin'')
      in if action \<noteq> ''runtime.use_credential'' then None
         else if truthy resource_space_id \<and> truthy space_id \<and> \<not> js_eq resource_space_id space_id
         then Some (rule_decision Deny Critical ''credential_cross_space''
                     ''credential_cross_space_deny'' ''credential_cross_space'')
         else if allows_managed_credential_use trigger_origin ctx
         then Some (rule_decision Allow High ''credential_managed_preauthorized''
                     ''credential_managed_preauthorized_allow'' ''credential_managed_preauthorized'')
         else if trigger_origin = ''automation'' \<or> trigger_origin = ''autonomous''
         then (if is_true (get_prop ctx ''automation_pre_authorized'')
               then Some (rule_decision Allow High ''credential_automation_preauthorized''
                           ''credential_automation_preauthorized_allow''
                           ''credential_automation_preauthorized'')
               else Some (rule_decision Deny High ''credential_automation_grant_missing''
                           ''credential_automation_grant_missing_deny''
                           ''credential_automation_grant_missing''))
         else if trigger_origin \<in> set attended_trigger_origins
         then Some (rule_decision Allow High ''credential_same_space_manual''
                     ''credential_same_space_manual_allow'' ''credential_same_space_manual'')
         else Some (rule_decision Deny High ''credential_unattended_unauthorized''
                     ''credential_unattended_deny'' ''credential_unattended_unauthorized''))"

section \<open>Tools and project folders\<close>

definition rule_tool_permission :: "jsobj \<Rightarrow> policy_decision option" where
  "rule_tool_permission ctx =
     (let action = ctx_action ctx; tool_name = get_prop ctx ''tool_name''
      in if action \<noteq> ''runtime.execute'' then None
         else (case get_prop ctx ''agent_tool_permissions'' of
                 JArr allowed_tools \<Rightarrow>
                   if truthy tool_name \<and> \<not> list_ex (\<lambda>t. js_same t tool_name) allowed_tools
                   then Some (rule_decision Deny High ''tool_not_permitted'' ''tool_permission''
                               ''tool_not_permitted'')
                   else None
               | _ \<Rightarrow> None))"

definition rule_project_folder_write_patch :: "jsobj \<Rightarrow> policy_decision option" where
  "rule_project_folder_write_patch ctx =
     (if ctx_action ctx \<noteq> ''project_folder.write_patch'' then None
      else if truthy (get_prop ctx ''proposal_id'')
              \<and> js_eq (get_prop ctx ''proposal_type'') (JStr ''code_patch'')
              \<and> is_true (get_prop ctx ''proposal_apply_allowed'')
      then Some (rule_decision Allow High ''project_folder_write_patch_via_proposal''
                  ''project_folder_write_patch_via_proposal'' ''project_folder_write_via_proposal'')
      else None)"

definition rule_project_folder_direct_apply :: "jsobj \<Rightarrow> policy_decision option" where
  "rule_project_folder_direct_apply ctx =
     (if ctx_action ctx \<noteq> ''project_folder.apply_patch'' then None
      else if js_eq (get_prop ctx ''actor_type'') (JStr ''user'')
              \<and> is_true (get_prop ctx ''direct_user_write'')
              \<and> js_eq (get_prop ctx ''file_operation'') (JStr ''write'')
      then Some (rule_decision Allow High ''project_folder_direct_user_write''
                  ''project_folder_direct_user_write'' ''project_folder_direct_user_write'')
      else None)"

section \<open>Automations\<close>

definition automation_actions :: "string list" where
  "automation_actions = [''automation.create'', ''automation.update'', ''automation.fire'']"

definition rule_automation :: "jsobj \<Rightarrow> policy_decision option" where
  "rule_automation ctx =
     (let action = ctx_action ctx;
          membership = js_str (get_prop ctx ''membership_role'');
          role = (if membership = [] then ''guest'' else membership);
          target_type = get_prop ctx ''target_type'';
          project_id = js_str (get_prop ctx ''project_id'')
      in if action \<notin> set automation_actions then None
         else if has_role_at_least role ''admin''
         then Some (rule_decision Allow High ''automation_admin_allow'' ''automation_admin_allow''
                     ''automation_allowed'')
         else if js_eq target_type (JStr ''agent_run'')
                 \<and> is_true (get_prop ctx ''project_writer'') \<and> project_id \<noteq> []
         then Some (rule_decision Allow High ''automation_project_writer_allow''
                     ''automation_project_writer_allow'' ''automation_project_writer_allowed'')
         else if js_eq target_type (JStr ''autonomous_tick'')
                 \<and> is_true (get_prop ctx ''actor_is_owner'') \<and> has_role_at_least role ''member''
         then Some (rule_decision Allow High ''automation_autonomy_self_service_allow''
                     ''automation_autonomy_self_service_allow''
                     ''automation_autonomy_self_service_allowed'')
         else if js_eq target_type (JStr ''information_digest'')
                 \<and> is_true (get_prop ctx ''actor_is_owner'') \<and> has_role_at_least role ''member''
                 \<and> (project_id = [] \<or> is_true (get_prop ctx ''project_writer''))
         then Some (rule_decision Allow Low ''automation_information_digest_owner_allow''
                     ''automation_information_digest_owner_allow''
                     ''automation_information_digest_allowed'')
         else Some (rule_decision Deny High ''automation_insufficient_role''
                     ''automation_insufficient_role'' ''automation_denied''))"

section \<open>Runtime risk level\<close>

definition rule_runtime_execute_risk_level :: "jsobj \<Rightarrow> policy_decision option" where
  "rule_runtime_execute_risk_level ctx =
     (if ctx_action ctx \<noteq> ''runtime.execute'' then None
      else (case get_prop ctx ''risk_level'' of
              JStr raw \<Rightarrow>
                (case risk_of_string raw of
                   None \<Rightarrow> None
                 | Some risk \<Rightarrow>
                     Some (rule_decision Allow risk ''runtime_execute_risk_level''
                            ''runtime_execute_risk_level'' ''runtime_execute_risk_level''))
            | _ \<Rightarrow> None))"

section \<open>Child runs\<close>

definition run_spawn_child_required_context :: "string list" where
  "run_spawn_child_required_context =
     [''space_id'', ''resource_space_id'', ''group_id'', ''parent_run_id'', ''root_run_id'',
      ''requesting_agent_id'', ''target_agent_id'', ''manager_user_id'', ''group_status'',
      ''requesting_agent_status'', ''target_agent_status'', ''requesting_member_status'',
      ''target_member_status'']"

definition run_spawn_child_required_numeric_context :: "string list" where
  "run_spawn_child_required_numeric_context =
     [''depth'', ''max_depth'', ''fanout_count'', ''max_fanout'', ''concurrency_count'',
      ''max_concurrency'']"

definition spawn_status_checks :: "string list" where
  "spawn_status_checks =
     [''group_status'', ''requesting_agent_status'', ''target_agent_status'',
      ''requesting_member_status'', ''target_member_status'']"

definition spawn_widening_flags :: "string list" where
  "spawn_widening_flags =
     [''context_widens_authority'', ''credential_scope_widens'', ''workspace_scope_widens'',
      ''project_scope_widens'', ''memory_scope_widens'', ''durable_write_scope_widens'']"

definition num_of :: "jsobj \<Rightarrow> string \<Rightarrow> rat option" where
  "num_of ctx k = js_finite (get_prop ctx k)"

text \<open>\<open>a !== null && b !== null && a > b\<close>, and \<open>a ?? b\<close> on numbers.\<close>

definition exceeds :: "rat option \<Rightarrow> rat option \<Rightarrow> bool" where
  "exceeds a b = (case (a, b) of (Some x, Some y) \<Rightarrow> y < x | _ \<Rightarrow> False)"

definition or_else :: "'a option \<Rightarrow> 'a option \<Rightarrow> 'a option" where
  "or_else a b = (case a of None \<Rightarrow> b | Some x \<Rightarrow> Some x)"

definition rule_run_spawn_child :: "jsobj \<Rightarrow> policy_decision option" where
  "rule_run_spawn_child ctx =
     (let text = (\<lambda>k. js_str (get_prop ctx k));
          flag = (\<lambda>k. is_true (get_prop ctx k));
          missing = rule_decision Deny High ''run_spawn_child_missing_context''
                      ''run_spawn_child_missing_context'' ''run_spawn_child_missing_context'';
          max_fanout = or_else (num_of ctx ''hard_max_fanout'') (num_of ctx ''max_fanout'')
      in if ctx_action ctx \<noteq> ''run.spawn_child'' then None
         else if list_ex (\<lambda>k. text k = []) run_spawn_child_required_context then Some missing
         else if list_ex (\<lambda>k. num_of ctx k = None) run_spawn_child_required_numeric_context
         then Some missing
         else if text ''requesting_agent_id'' = text ''target_agent_id''
         then Some (rule_decision Deny Medium ''run_spawn_child_self_target''
                     ''run_spawn_child_self_target'' ''run_spawn_child_self_target'')
         else if list_ex (\<lambda>k. text k \<noteq> [] \<and> text k \<noteq> ''active'') spawn_status_checks
         then Some (rule_decision Deny High ''run_spawn_child_inactive_context''
                     ''run_spawn_child_inactive_context'' ''run_spawn_child_inactive_context'')
         else if list_ex flag spawn_widening_flags
         then Some (rule_decision Deny Critical ''run_spawn_child_authority_widening''
                     ''run_spawn_child_authority_widening'' ''run_spawn_child_authority_widening'')
         else if flag ''depth_limit_exceeded''
                 \<or> exceeds (num_of ctx ''depth'') (num_of ctx ''max_depth'')
         then Some (rule_decision Deny High ''run_spawn_child_depth_limit''
                     ''run_spawn_child_depth_limit'' ''run_spawn_child_depth_limit'')
         else if flag ''fanout_limit_exceeded'' \<or> flag ''concurrency_limit_exceeded''
                 \<or> exceeds (num_of ctx ''fanout_count'') max_fanout
                 \<or> exceeds (num_of ctx ''container_turns_count'') (num_of ctx ''hard_max_turns'')
                 \<or> exceeds (num_of ctx ''concurrency_count'') (num_of ctx ''max_concurrency'')
         then Some (rule_decision Deny High ''run_spawn_child_capacity_limit''
                     ''run_spawn_child_capacity_limit'' ''run_spawn_child_capacity_limit'')
         else Some (rule_decision Allow Medium ''run_spawn_child_allowed''
                     ''run_spawn_child_allowed'' ''run_spawn_child_allowed''))"

section \<open>Retrieval tools\<close>

definition retrieval_tool_actions :: "string list" where
  "retrieval_tool_actions =
     [''retrieval.search'', ''retrieval.brief'', ''memory.retrieval.search'',
      ''memory.retrieval.brief'', ''project.summary.search'', ''project.summary.brief'',
      ''source.retrieval.search'', ''source.retrieval.brief'']"

definition rule_retrieval_tool_call :: "jsobj \<Rightarrow> policy_decision option" where
  "rule_retrieval_tool_call ctx =
     (let action = ctx_action ctx;
          named = js_str (get_prop ctx ''tool_name'');
          tool_name = (if named = [] then action else named);
          about_tool = (\<lambda>d. d\<lparr>pd_action := JStr action, pd_resource_type := JStr ''retrieval_tool'',
                               pd_resource_id := JStr tool_name\<rparr>)
      in if action \<notin> set retrieval_tool_actions then None
         else if \<not> is_true (get_prop ctx ''domain_enabled'')
         then Some (about_tool (rule_decision Deny Low ''retrieval_tool_domain_not_enabled''
                     ''retrieval_tool_domain_enabled'' ''retrieval_tool_domain_not_enabled''))
         else if js_str (get_prop ctx ''instructed_by_user_id'') = []
         then Some (about_tool (rule_decision Deny Low ''retrieval_tool_missing_viewer''
                     ''retrieval_tool_viewer_required'' ''retrieval_tool_missing_viewer''))
         else if is_true (get_prop ctx ''source_policy_denied'')
         then Some (about_tool (rule_decision Deny Medium ''retrieval_tool_source_policy_denied''
                     ''retrieval_tool_source_policy'' ''retrieval_tool_source_policy_denied''))
         else if is_true (get_prop ctx ''egress_policy_denied'')
         then Some (about_tool (rule_decision Deny Medium ''retrieval_tool_egress_policy_denied''
                     ''retrieval_tool_egress_policy'' ''retrieval_tool_egress_policy_denied''))
         else Some (about_tool (rule_decision Allow Low ''retrieval_tool_call_allowed''
                     ''retrieval_tool_call_allowed'' ''retrieval_tool_call_allowed'')))"

section \<open>Managed system actions\<close>

definition requestable_system_actions :: "string list" where
  "requestable_system_actions =
     [''source.channel.propose_activation'', ''project.source.propose_bind'',
      ''source.backfill.propose_start'']"

definition rule_managed_system_action_grant :: "jsobj \<Rightarrow> policy_decision option" where
  "rule_managed_system_action_grant ctx =
     (let action_id = js_str (get_prop ctx ''action_id'')
      in if \<not> js_eq (get_prop ctx ''surface'') (JStr ''managed_run_system_action_gateway'') then None
         else if action_id \<notin> set requestable_system_actions then None
         else if action_id = ''source.channel.propose_activation''
                 \<and> is_true (get_prop ctx ''source_goal_setup_request'')
         then Some (rule_decision Allow Medium ''source_goal_setup_proposal_allowed''
                     ''source_goal_setup_proposal_allowed'' ''source_goal_setup_proposal_allowed'')
         else if is_true (get_prop ctx ''has_action_approval_grant'')
         then Some (rule_decision Allow Medium ''managed_system_action_granted''
                     ''managed_system_action_granted'' ''managed_system_action_granted'')
         else Some (rule_decision Deny Medium ''managed_system_action_grant_required''
                     ''managed_system_action_grant_required''
                     ''managed_system_action_grant_required''))"

section \<open>Unattended project writes\<close>

definition origin_gated_project_writes :: "string list" where
  "origin_gated_project_writes =
     [''research.result.adopt'', ''task.create'', ''task.status.set'', ''task.delete'',
      ''board.configure'', ''task.column.move'', ''task.complete'', ''proposal.decide'',
      ''inquiry.thread.create'', ''inquiry.iteration.record'', ''inquiry.work.record'',
      ''inquiry.round.close'', ''research.acquisition.start'', ''memory.write'']"

definition rule_unattended_project_write :: "jsobj \<Rightarrow> policy_decision option" where
  "rule_unattended_project_write ctx =
     (let action = ctx_action ctx;
          trigger_origin = js_str (get_prop ctx ''trigger_origin'');
          memory_action_id = get_prop ctx ''memory_action_id''
      in if action \<notin> set origin_gated_project_writes then None
         else if trigger_origin \<noteq> [] \<and> trigger_origin \<in> set attended_trigger_origins then None
         else if is_true (get_prop ctx ''memory_persona_write'') \<and> action = ''memory.write''
                 \<and> (js_eq memory_action_id (JStr ''memory.remember'')
                    \<or> js_eq memory_action_id (JStr ''memory.revise''))
         then None
         else Some (rule_decision RequireApproval Medium ''unattended_project_write''
                     ''unattended_project_write_require_approval'' ''unattended_project_write''))"

section \<open>What single rules promise\<close>

text \<open>
  The condition under which a child run may start, stated directly: every reference is present,
  two different agents, everybody active, no authority widened, no limit passed.
\<close>

definition spawn_child_ok :: "jsobj \<Rightarrow> bool" where
  "spawn_child_ok ctx \<longleftrightarrow>
     (\<forall>k\<in>set run_spawn_child_required_context. js_str (get_prop ctx k) \<noteq> []) \<and>
     js_str (get_prop ctx ''requesting_agent_id'') \<noteq> js_str (get_prop ctx ''target_agent_id'') \<and>
     (\<forall>k\<in>set spawn_status_checks. get_prop ctx k = JStr ''active'') \<and>
     (\<forall>k\<in>set spawn_widening_flags. get_prop ctx k \<noteq> JBool True) \<and>
     get_prop ctx ''depth_limit_exceeded'' \<noteq> JBool True \<and>
     get_prop ctx ''fanout_limit_exceeded'' \<noteq> JBool True \<and>
     get_prop ctx ''concurrency_limit_exceeded'' \<noteq> JBool True \<and>
     (\<exists>depth max_depth fanout max_fanout concurrency max_concurrency.
        num_of ctx ''depth'' = Some depth \<and> num_of ctx ''max_depth'' = Some max_depth \<and>
        depth \<le> max_depth \<and>
        num_of ctx ''fanout_count'' = Some fanout \<and> num_of ctx ''max_fanout'' \<noteq> None \<and>
        or_else (num_of ctx ''hard_max_fanout'') (num_of ctx ''max_fanout'') = Some max_fanout \<and>
        fanout \<le> max_fanout \<and>
        num_of ctx ''concurrency_count'' = Some concurrency \<and>
        num_of ctx ''max_concurrency'' = Some max_concurrency \<and> concurrency \<le> max_concurrency) \<and>
     \<not> exceeds (num_of ctx ''container_turns_count'') (num_of ctx ''hard_max_turns'')"

lemma exceeds_Some [simp]: "exceeds (Some x) (Some y) \<longleftrightarrow> y < x"
  by (simp add: exceeds_def)

lemma or_else_Some [simp]: "or_else (Some x) b = Some x" "or_else None b = b"
  by (simp_all add: or_else_def)

lemma or_else_not_None: "b \<noteq> None \<Longrightarrow> \<exists>x. or_else a b = Some x"
  by (cases a) auto

lemma rule_run_spawn_child_conds:
  assumes "ctx_action ctx = ''run.spawn_child''"
    and "rule_run_spawn_child ctx = Some d" and "pd_decision d = Allow"
  shows "\<not> list_ex (\<lambda>k. js_str (get_prop ctx k) = []) run_spawn_child_required_context \<and>
    \<not> list_ex (\<lambda>k. num_of ctx k = None) run_spawn_child_required_numeric_context \<and>
    js_str (get_prop ctx ''requesting_agent_id'') \<noteq> js_str (get_prop ctx ''target_agent_id'') \<and>
    \<not> list_ex (\<lambda>k. js_str (get_prop ctx k) \<noteq> [] \<and> js_str (get_prop ctx k) \<noteq> ''active'')
         spawn_status_checks \<and>
    \<not> list_ex (\<lambda>k. is_true (get_prop ctx k)) spawn_widening_flags \<and>
    \<not> (is_true (get_prop ctx ''depth_limit_exceeded'')
       \<or> exceeds (num_of ctx ''depth'') (num_of ctx ''max_depth'')) \<and>
    \<not> (is_true (get_prop ctx ''fanout_limit_exceeded'')
       \<or> is_true (get_prop ctx ''concurrency_limit_exceeded'')
       \<or> exceeds (num_of ctx ''fanout_count'')
           (or_else (num_of ctx ''hard_max_fanout'') (num_of ctx ''max_fanout''))
       \<or> exceeds (num_of ctx ''container_turns_count'') (num_of ctx ''hard_max_turns'')
       \<or> exceeds (num_of ctx ''concurrency_count'') (num_of ctx ''max_concurrency''))"
  using assms unfolding rule_run_spawn_child_def Let_def
  by (simp only: split: if_splits) (simp_all only: option.inject, auto)

lemma rule_run_spawn_child_allow:
  assumes "ctx_action ctx = ''run.spawn_child''"
  shows "(\<exists>d. rule_run_spawn_child ctx = Some d \<and> pd_decision d = Allow) \<longleftrightarrow> spawn_child_ok ctx"
proof
  assume "\<exists>d. rule_run_spawn_child ctx = Some d \<and> pd_decision d = Allow"
  then obtain d where d: "rule_run_spawn_child ctx = Some d" "pd_decision d = Allow" by blast
  note conds = rule_run_spawn_child_conds [OF assms d]
  have req: "\<forall>k\<in>set run_spawn_child_required_context. js_str (get_prop ctx k) \<noteq> []"
    using conds by (simp add: list_ex_iff)
  have nums: "\<forall>k\<in>set run_spawn_child_required_numeric_context. \<exists>n. num_of ctx k = Some n"
    using conds by (simp add: list_ex_iff)
  have stat: "\<forall>k\<in>set spawn_status_checks. get_prop ctx k = JStr ''active''"
  proof
    fix k assume k: "k \<in> set spawn_status_checks"
    then have "js_str (get_prop ctx k) \<noteq> []"
      using req by (auto simp: spawn_status_checks_def run_spawn_child_required_context_def)
    moreover have "js_str (get_prop ctx k) \<noteq> [] \<longrightarrow> js_str (get_prop ctx k) = ''active''"
      using conds k unfolding list_ex_iff by blast
    ultimately show "get_prop ctx k = JStr ''active''"
      by (auto intro: js_str_nonempty)
  qed
  obtain dp mdp fo mfo c mc where n:
    "num_of ctx ''depth'' = Some dp" "num_of ctx ''max_depth'' = Some mdp"
    "num_of ctx ''fanout_count'' = Some fo" "num_of ctx ''max_fanout'' = Some mfo"
    "num_of ctx ''concurrency_count'' = Some c" "num_of ctx ''max_concurrency'' = Some mc"
    using nums by (simp add: run_spawn_child_required_numeric_context_def) blast
  obtain mf where mf:
    "or_else (num_of ctx ''hard_max_fanout'') (num_of ctx ''max_fanout'') = Some mf"
    using or_else_not_None [of "num_of ctx ''max_fanout''" "num_of ctx ''hard_max_fanout''"] n
    by auto
  have limits: "dp \<le> mdp" "fo \<le> mf" "c \<le> mc"
    "\<not> exceeds (num_of ctx ''container_turns_count'') (num_of ctx ''hard_max_turns'')"
    using conds mf by (simp_all add: n not_less)
  have flags: "\<forall>k\<in>set spawn_widening_flags. get_prop ctx k \<noteq> JBool True"
    "get_prop ctx ''depth_limit_exceeded'' \<noteq> JBool True"
    "get_prop ctx ''fanout_limit_exceeded'' \<noteq> JBool True"
    "get_prop ctx ''concurrency_limit_exceeded'' \<noteq> JBool True"
    using conds by (simp_all add: list_ex_iff is_true_def)
  show "spawn_child_ok ctx"
    unfolding spawn_child_ok_def using req conds stat flags limits n mf by blast
next
  assume ok: "spawn_child_ok ctx"
  have missing: "\<not> list_ex (\<lambda>k. js_str (get_prop ctx k) = []) run_spawn_child_required_context"
    "\<not> list_ex (\<lambda>k. num_of ctx k = None) run_spawn_child_required_numeric_context"
    using ok by (auto simp: spawn_child_ok_def list_ex_iff
        run_spawn_child_required_numeric_context_def)
  have active: "\<not> list_ex (\<lambda>k. js_str (get_prop ctx k) \<noteq> [] \<and> js_str (get_prop ctx k) \<noteq> ''active'')
                    spawn_status_checks"
    using ok by (simp add: spawn_child_ok_def list_ex_iff)
  have narrow: "\<not> list_ex (\<lambda>k. get_prop ctx k = JBool True) spawn_widening_flags"
    using ok by (simp add: spawn_child_ok_def list_ex_iff)
  have limits: "\<not> exceeds (num_of ctx ''depth'') (num_of ctx ''max_depth'')"
    "\<not> exceeds (num_of ctx ''fanout_count'')
         (or_else (num_of ctx ''hard_max_fanout'') (num_of ctx ''max_fanout''))"
    "\<not> exceeds (num_of ctx ''concurrency_count'') (num_of ctx ''max_concurrency'')"
    using ok by (auto simp: spawn_child_ok_def)
  have "rule_run_spawn_child ctx =
        Some (rule_decision Allow Medium ''run_spawn_child_allowed''
                ''run_spawn_child_allowed'' ''run_spawn_child_allowed'')"
    using ok unfolding rule_run_spawn_child_def Let_def spawn_child_ok_def
    by (simp only: assms missing active narrow limits is_true_def if_False if_True simp_thms)
  then show "\<exists>d. rule_run_spawn_child ctx = Some d \<and> pd_decision d = Allow"
    by simp
qed

text \<open>When the credential rule allows a spend.\<close>

definition credential_spend_ok :: "jsobj \<Rightarrow> bool" where
  "credential_spend_ok ctx \<longleftrightarrow>
     (truthy (get_prop ctx ''resource_space_id'') \<and> truthy (get_prop ctx ''space_id'') \<longrightarrow>
        js_eq (get_prop ctx ''resource_space_id'') (get_prop ctx ''space_id'')) \<and>
     (allows_managed_credential_use (js_str (get_prop ctx ''trigger_origin'')) ctx
      \<or> js_str (get_prop ctx ''trigger_origin'') \<in> {''automation'', ''autonomous''} \<and>
        get_prop ctx ''automation_pre_authorized'' = JBool True
      \<or> get_prop ctx ''trigger_origin'' = JStr ''manual'')"

lemma rule_use_credential_allow:
  assumes "ctx_action ctx = ''runtime.use_credential''"
  shows "(\<exists>d. rule_use_credential ctx = Some d \<and> pd_decision d = Allow)
         \<longleftrightarrow> credential_spend_ok ctx"
  using assms
  by (auto simp: rule_use_credential_def credential_spend_ok_def Let_def is_true_def
      attended_trigger_origins_def js_str_eq_lit)

lemma rule_use_credential_decides:
  "ctx_action ctx = ''runtime.use_credential'' \<Longrightarrow> rule_use_credential ctx \<noteq> None"
  by (simp add: rule_use_credential_def Let_def)

text \<open>The persona write, the one origin-gated write that passes without a person's turn.\<close>

definition persona_write :: "jsobj \<Rightarrow> bool" where
  "persona_write ctx \<longleftrightarrow>
     ctx_action ctx = ''memory.write'' \<and> get_prop ctx ''memory_persona_write'' = JBool True \<and>
     (get_prop ctx ''memory_action_id'' = JStr ''memory.remember''
      \<or> get_prop ctx ''memory_action_id'' = JStr ''memory.revise'')"

lemma rule_unattended_project_write_iff:
  assumes "ctx_action ctx \<in> set origin_gated_project_writes"
  shows "rule_unattended_project_write ctx = None \<longleftrightarrow>
         get_prop ctx ''trigger_origin'' = JStr ''manual'' \<or> persona_write ctx"
  using assms
  by (auto simp: rule_unattended_project_write_def persona_write_def Let_def is_true_def
      attended_trigger_origins_def js_str_eq_lit)

lemma rule_unattended_project_write_decision:
  "rule_unattended_project_write ctx = Some d \<Longrightarrow> pd_decision d = RequireApproval"
  by (auto simp: rule_unattended_project_write_def Let_def split: if_splits)

end
