(* ===== verification/PolicyRegistry.thy ===== *)
theory PolicyRegistry
  imports PolicyDecisions
begin

text \<open>
  The canonical policy action registry: the data of \<open>POLICY_ACTION_REGISTRY\<close> in
  \<open>packages/protocol/src/policy.ts\<close>, entry by entry in source order, and its index in
  \<open>server/src/modules/policy/actionRegistry.ts\<close>. The \<open>description\<close> of an entry is human
  documentation that no code reads, and is left out.
\<close>

section \<open>Entries\<close>

datatype lifecycle_status = WiredDirect | WiredViaProposal | Reserved

datatype failure_mode = BestEffort | FailClosed

record action_definition =
  ad_action :: string
  ad_resource_type :: string
  ad_default_risk_level :: risk_level
  ad_default_decision :: decision_value
  ad_audit_required :: bool
  ad_approval_capability :: "string option"
  ad_default_required_approver_role :: "string option"
  ad_current_enforcement_point :: string
  ad_lifecycle_status :: lifecycle_status
  ad_record_failure_mode :: failure_mode

definition registry_part1 :: "action_definition list" where
  "registry_part1 =
    [\<lparr>ad_action = ''authorization.request.create'', ad_resource_type = ''authorization_request'',
       ad_default_risk_level = Medium, ad_default_decision = Allow, ad_audit_required = True,
       ad_approval_capability = None, ad_default_required_approver_role = None,
       ad_current_enforcement_point = ''server/src/modules/policy/authorizationRequestService.ts'',
       ad_lifecycle_status = WiredDirect, ad_record_failure_mode = FailClosed\<rparr>,
     \<lparr>ad_action = ''runtime.execute'', ad_resource_type = ''run'',
       ad_default_risk_level = Medium, ad_default_decision = Allow, ad_audit_required = True,
       ad_approval_capability = None, ad_default_required_approver_role = None,
       ad_current_enforcement_point = ''server/src/modules/runs/orchestrationService.ts'',
       ad_lifecycle_status = WiredDirect, ad_record_failure_mode = BestEffort\<rparr>,
     \<lparr>ad_action = ''run.spawn_child'', ad_resource_type = ''run'',
       ad_default_risk_level = Medium, ad_default_decision = RequireApproval, ad_audit_required = True,
       ad_approval_capability = None, ad_default_required_approver_role = None,
       ad_current_enforcement_point = ''server/src/modules/agentGroups/service.ts'',
       ad_lifecycle_status = WiredDirect, ad_record_failure_mode = FailClosed\<rparr>,
     \<lparr>ad_action = ''runtime.use_credential'', ad_resource_type = ''credential'',
       ad_default_risk_level = High, ad_default_decision = RequireApproval, ad_audit_required = True,
       ad_approval_capability = Some ''approve_credential_use'', ad_default_required_approver_role = Some ''owner'',
       ad_current_enforcement_point = ''server/src/modules/runs/orchestrationService.ts'',
       ad_lifecycle_status = WiredDirect, ad_record_failure_mode = FailClosed\<rparr>,
     \<lparr>ad_action = ''runtime_context_policy.change'', ad_resource_type = ''runtime_context_policy'',
       ad_default_risk_level = High, ad_default_decision = Deny, ad_audit_required = True,
       ad_approval_capability = None, ad_default_required_approver_role = None,
       ad_current_enforcement_point = ''server/src/modules/policy/runtimeContextPolicyRepository.ts'',
       ad_lifecycle_status = WiredDirect, ad_record_failure_mode = FailClosed\<rparr>,
     \<lparr>ad_action = ''work_context_setup.change'', ad_resource_type = ''work_context_setup'',
       ad_default_risk_level = Medium, ad_default_decision = Deny, ad_audit_required = True,
       ad_approval_capability = None, ad_default_required_approver_role = None,
       ad_current_enforcement_point = ''server/src/modules/runtimeContext/workContextService.ts'',
       ad_lifecycle_status = WiredDirect, ad_record_failure_mode = FailClosed\<rparr>,
     \<lparr>ad_action = ''context.inject_memory'', ad_resource_type = ''memory'',
       ad_default_risk_level = Low, ad_default_decision = Allow, ad_audit_required = False,
       ad_approval_capability = None, ad_default_required_approver_role = None,
       ad_current_enforcement_point = ''server/src/modules/runtimeContext/productionAcquisition.ts'',
       ad_lifecycle_status = WiredDirect, ad_record_failure_mode = BestEffort\<rparr>,
     \<lparr>ad_action = ''context.render_for_runtime'', ad_resource_type = ''context'',
       ad_default_risk_level = Low, ad_default_decision = Allow, ad_audit_required = False,
       ad_approval_capability = None, ad_default_required_approver_role = None,
       ad_current_enforcement_point = ''server/src/modules/runtimeContext/invocationSnapshotService.ts'',
       ad_lifecycle_status = WiredDirect, ad_record_failure_mode = BestEffort\<rparr>,
     \<lparr>ad_action = ''project_folder.write_patch'', ad_resource_type = ''project_folder'',
       ad_default_risk_level = High, ad_default_decision = RequireApproval, ad_audit_required = True,
       ad_approval_capability = Some ''approve_code_patch'', ad_default_required_approver_role = Some ''owner'',
       ad_current_enforcement_point = ''server/src/modules/projectFolders/codePatch.ts'',
       ad_lifecycle_status = WiredDirect, ad_record_failure_mode = FailClosed\<rparr>,
     \<lparr>ad_action = ''artifact.persist'', ad_resource_type = ''artifact'',
       ad_default_risk_level = Low, ad_default_decision = Allow, ad_audit_required = True,
       ad_approval_capability = None, ad_default_required_approver_role = None,
       ad_current_enforcement_point = ''server/src/modules/runs/materializationService.ts'',
       ad_lifecycle_status = WiredDirect, ad_record_failure_mode = FailClosed\<rparr>]"

definition registry_part2 :: "action_definition list" where
  "registry_part2 =
    [\<lparr>ad_action = ''proposal.create'', ad_resource_type = ''proposal'',
       ad_default_risk_level = Low, ad_default_decision = Allow, ad_audit_required = False,
       ad_approval_capability = None, ad_default_required_approver_role = None,
       ad_current_enforcement_point = ''server/src/modules/memory/proposalRepository.ts, server/src/modules/runs/materializationService.ts, server/src/modules/projectFolders/codePatch.ts'',
       ad_lifecycle_status = WiredDirect, ad_record_failure_mode = BestEffort\<rparr>,
     \<lparr>ad_action = ''proposal.apply'', ad_resource_type = ''proposal'',
       ad_default_risk_level = Medium, ad_default_decision = RequireApproval, ad_audit_required = True,
       ad_approval_capability = Some ''approve_proposal'', ad_default_required_approver_role = Some ''owner'',
       ad_current_enforcement_point = ''server/src/modules/proposals/applyService.ts'',
       ad_lifecycle_status = WiredDirect, ad_record_failure_mode = FailClosed\<rparr>,
     \<lparr>ad_action = ''agent.config_update'', ad_resource_type = ''agent'',
       ad_default_risk_level = High, ad_default_decision = Allow, ad_audit_required = True,
       ad_approval_capability = Some ''approve_agent_config_change'', ad_default_required_approver_role = Some ''owner'',
       ad_current_enforcement_point = ''server/src/modules/agents/routes.ts'',
       ad_lifecycle_status = WiredDirect, ad_record_failure_mode = BestEffort\<rparr>,
     \<lparr>ad_action = ''memory.create'', ad_resource_type = ''memory'',
       ad_default_risk_level = Medium, ad_default_decision = RequireApproval, ad_audit_required = True,
       ad_approval_capability = Some ''approve_memory_change'', ad_default_required_approver_role = Some ''owner'',
       ad_current_enforcement_point = ''server/src/modules/proposals/applyService.ts via proposal.apply'',
       ad_lifecycle_status = WiredViaProposal, ad_record_failure_mode = BestEffort\<rparr>,
     \<lparr>ad_action = ''memory.update'', ad_resource_type = ''memory'',
       ad_default_risk_level = Medium, ad_default_decision = RequireApproval, ad_audit_required = True,
       ad_approval_capability = Some ''approve_memory_change'', ad_default_required_approver_role = Some ''owner'',
       ad_current_enforcement_point = ''server/src/modules/proposals/applyService.ts via proposal.apply'',
       ad_lifecycle_status = WiredViaProposal, ad_record_failure_mode = BestEffort\<rparr>,
     \<lparr>ad_action = ''memory.archive'', ad_resource_type = ''memory'',
       ad_default_risk_level = Medium, ad_default_decision = RequireApproval, ad_audit_required = True,
       ad_approval_capability = Some ''approve_memory_change'', ad_default_required_approver_role = Some ''owner'',
       ad_current_enforcement_point = ''server/src/modules/proposals/applyService.ts via proposal.apply'',
       ad_lifecycle_status = WiredViaProposal, ad_record_failure_mode = BestEffort\<rparr>,
     \<lparr>ad_action = ''knowledge.create'', ad_resource_type = ''knowledge'',
       ad_default_risk_level = Medium, ad_default_decision = RequireApproval, ad_audit_required = True,
       ad_approval_capability = Some ''approve_knowledge_change'', ad_default_required_approver_role = Some ''owner'',
       ad_current_enforcement_point = ''server/src/modules/proposals/applyService.ts via proposal.apply'',
       ad_lifecycle_status = WiredViaProposal, ad_record_failure_mode = BestEffort\<rparr>,
     \<lparr>ad_action = ''knowledge.update'', ad_resource_type = ''knowledge'',
       ad_default_risk_level = Medium, ad_default_decision = RequireApproval, ad_audit_required = True,
       ad_approval_capability = Some ''approve_knowledge_change'', ad_default_required_approver_role = Some ''owner'',
       ad_current_enforcement_point = ''server/src/modules/proposals/applyService.ts via proposal.apply'',
       ad_lifecycle_status = WiredViaProposal, ad_record_failure_mode = BestEffort\<rparr>,
     \<lparr>ad_action = ''knowledge.archive'', ad_resource_type = ''knowledge'',
       ad_default_risk_level = Medium, ad_default_decision = RequireApproval, ad_audit_required = True,
       ad_approval_capability = Some ''approve_knowledge_change'', ad_default_required_approver_role = Some ''owner'',
       ad_current_enforcement_point = ''server/src/modules/proposals/applyService.ts via proposal.apply'',
       ad_lifecycle_status = WiredViaProposal, ad_record_failure_mode = BestEffort\<rparr>]"

definition registry_part3 :: "action_definition list" where
  "registry_part3 =
    [\<lparr>ad_action = ''claim.create'', ad_resource_type = ''claim'',
       ad_default_risk_level = Medium, ad_default_decision = RequireApproval, ad_audit_required = True,
       ad_approval_capability = Some ''approve_knowledge_change'', ad_default_required_approver_role = Some ''owner'',
       ad_current_enforcement_point = ''server/src/modules/proposals/applyService.ts via proposal.apply'',
       ad_lifecycle_status = WiredViaProposal, ad_record_failure_mode = BestEffort\<rparr>,
     \<lparr>ad_action = ''claim.update'', ad_resource_type = ''claim'',
       ad_default_risk_level = Medium, ad_default_decision = RequireApproval, ad_audit_required = True,
       ad_approval_capability = Some ''approve_knowledge_change'', ad_default_required_approver_role = Some ''owner'',
       ad_current_enforcement_point = ''server/src/modules/proposals/applyService.ts via proposal.apply'',
       ad_lifecycle_status = WiredViaProposal, ad_record_failure_mode = BestEffort\<rparr>,
     \<lparr>ad_action = ''claim.archive'', ad_resource_type = ''claim'',
       ad_default_risk_level = Medium, ad_default_decision = RequireApproval, ad_audit_required = True,
       ad_approval_capability = Some ''approve_knowledge_change'', ad_default_required_approver_role = Some ''owner'',
       ad_current_enforcement_point = ''server/src/modules/proposals/applyService.ts via proposal.apply'',
       ad_lifecycle_status = WiredViaProposal, ad_record_failure_mode = BestEffort\<rparr>,
     \<lparr>ad_action = ''object_relation.create'', ad_resource_type = ''object_relation'',
       ad_default_risk_level = Medium, ad_default_decision = RequireApproval, ad_audit_required = True,
       ad_approval_capability = Some ''approve_knowledge_change'', ad_default_required_approver_role = Some ''owner'',
       ad_current_enforcement_point = ''server/src/modules/proposals/applyService.ts via proposal.apply'',
       ad_lifecycle_status = WiredViaProposal, ad_record_failure_mode = BestEffort\<rparr>,
     \<lparr>ad_action = ''object_relation.delete'', ad_resource_type = ''object_relation'',
       ad_default_risk_level = Medium, ad_default_decision = RequireApproval, ad_audit_required = True,
       ad_approval_capability = Some ''approve_knowledge_change'', ad_default_required_approver_role = Some ''owner'',
       ad_current_enforcement_point = ''server/src/modules/proposals/applyService.ts via proposal.apply'',
       ad_lifecycle_status = WiredViaProposal, ad_record_failure_mode = BestEffort\<rparr>,
     \<lparr>ad_action = ''object_profile.create'', ad_resource_type = ''object_schema'',
       ad_default_risk_level = High, ad_default_decision = RequireApproval, ad_audit_required = True,
       ad_approval_capability = Some ''approve_knowledge_change'', ad_default_required_approver_role = Some ''admin'',
       ad_current_enforcement_point = ''server/src/modules/proposals/applyService.ts via proposal.apply'',
       ad_lifecycle_status = WiredViaProposal, ad_record_failure_mode = BestEffort\<rparr>,
     \<lparr>ad_action = ''object_profile.update'', ad_resource_type = ''object_schema'',
       ad_default_risk_level = High, ad_default_decision = RequireApproval, ad_audit_required = True,
       ad_approval_capability = Some ''approve_knowledge_change'', ad_default_required_approver_role = Some ''admin'',
       ad_current_enforcement_point = ''server/src/modules/proposals/applyService.ts via proposal.apply'',
       ad_lifecycle_status = WiredViaProposal, ad_record_failure_mode = BestEffort\<rparr>,
     \<lparr>ad_action = ''object_profile.deprecate'', ad_resource_type = ''object_schema'',
       ad_default_risk_level = High, ad_default_decision = RequireApproval, ad_audit_required = True,
       ad_approval_capability = Some ''approve_knowledge_change'', ad_default_required_approver_role = Some ''admin'',
       ad_current_enforcement_point = ''server/src/modules/proposals/applyService.ts via proposal.apply'',
       ad_lifecycle_status = WiredViaProposal, ad_record_failure_mode = BestEffort\<rparr>,
     \<lparr>ad_action = ''object_profile.archive'', ad_resource_type = ''object_schema'',
       ad_default_risk_level = High, ad_default_decision = RequireApproval, ad_audit_required = True,
       ad_approval_capability = Some ''approve_knowledge_change'', ad_default_required_approver_role = Some ''admin'',
       ad_current_enforcement_point = ''server/src/modules/proposals/applyService.ts via proposal.apply'',
       ad_lifecycle_status = WiredViaProposal, ad_record_failure_mode = BestEffort\<rparr>,
     \<lparr>ad_action = ''claim_candidate_packet'', ad_resource_type = ''proposal'',
       ad_default_risk_level = Medium, ad_default_decision = RequireApproval, ad_audit_required = True,
       ad_approval_capability = Some ''approve_proposal'', ad_default_required_approver_role = Some ''owner'',
       ad_current_enforcement_point = ''server/src/modules/proposals/applyService.ts via proposal.apply'',
       ad_lifecycle_status = WiredViaProposal, ad_record_failure_mode = BestEffort\<rparr>]"

definition registry_part4 :: "action_definition list" where
  "registry_part4 =
    [\<lparr>ad_action = ''retrieval_maintenance_packet'', ad_resource_type = ''proposal'',
       ad_default_risk_level = Medium, ad_default_decision = RequireApproval, ad_audit_required = True,
       ad_approval_capability = Some ''approve_proposal'', ad_default_required_approver_role = Some ''owner'',
       ad_current_enforcement_point = ''server/src/modules/proposals/applyService.ts via proposal.apply'',
       ad_lifecycle_status = WiredViaProposal, ad_record_failure_mode = BestEffort\<rparr>,
     \<lparr>ad_action = ''memory_maintenance_packet'', ad_resource_type = ''proposal'',
       ad_default_risk_level = Medium, ad_default_decision = RequireApproval, ad_audit_required = True,
       ad_approval_capability = Some ''approve_proposal'', ad_default_required_approver_role = Some ''owner'',
       ad_current_enforcement_point = ''server/src/modules/proposals/applyService.ts via proposal.apply'',
       ad_lifecycle_status = WiredViaProposal, ad_record_failure_mode = BestEffort\<rparr>,
     \<lparr>ad_action = ''retrieval_diagnostics_packet'', ad_resource_type = ''proposal'',
       ad_default_risk_level = Medium, ad_default_decision = RequireApproval, ad_audit_required = True,
       ad_approval_capability = Some ''approve_proposal'', ad_default_required_approver_role = Some ''owner'',
       ad_current_enforcement_point = ''server/src/modules/proposals/applyService.ts via proposal.apply'',
       ad_lifecycle_status = WiredViaProposal, ad_record_failure_mode = BestEffort\<rparr>,
     \<lparr>ad_action = ''relation_discovery_packet'', ad_resource_type = ''proposal'',
       ad_default_risk_level = Medium, ad_default_decision = RequireApproval, ad_audit_required = True,
       ad_approval_capability = Some ''approve_proposal'', ad_default_required_approver_role = Some ''owner'',
       ad_current_enforcement_point = ''server/src/modules/proposals/applyService.ts via proposal.apply'',
       ad_lifecycle_status = WiredViaProposal, ad_record_failure_mode = BestEffort\<rparr>,
     \<lparr>ad_action = ''skill.import'', ad_resource_type = ''skill_package'',
       ad_default_risk_level = Medium, ad_default_decision = RequireApproval, ad_audit_required = True,
       ad_approval_capability = Some ''approve_capability_change'', ad_default_required_approver_role = Some ''owner'',
       ad_current_enforcement_point = ''server/src/modules/proposals/applyService.ts via proposal.apply'',
       ad_lifecycle_status = WiredViaProposal, ad_record_failure_mode = FailClosed\<rparr>,
     \<lparr>ad_action = ''runtime_skill.binding_update'', ad_resource_type = ''skill_binding'',
       ad_default_risk_level = High, ad_default_decision = RequireApproval, ad_audit_required = True,
       ad_approval_capability = Some ''approve_capability_change'', ad_default_required_approver_role = Some ''owner'',
       ad_current_enforcement_point = ''server/src/modules/proposals/applyService.ts via proposal.apply'',
       ad_lifecycle_status = WiredViaProposal, ad_record_failure_mode = FailClosed\<rparr>,
     \<lparr>ad_action = ''context.use_personal_grant'', ad_resource_type = ''personal_memory_grant'',
       ad_default_risk_level = High, ad_default_decision = RequireApproval, ad_audit_required = True,
       ad_approval_capability = None, ad_default_required_approver_role = None,
       ad_current_enforcement_point = ''not_implemented'',
       ad_lifecycle_status = Reserved, ad_record_failure_mode = BestEffort\<rparr>,
     \<lparr>ad_action = ''project_folder.read'', ad_resource_type = ''project_folder'',
       ad_default_risk_level = Low, ad_default_decision = Allow, ad_audit_required = False,
       ad_approval_capability = None, ad_default_required_approver_role = None,
       ad_current_enforcement_point = ''server/src/modules/projectFolders/repository.ts'',
       ad_lifecycle_status = WiredDirect, ad_record_failure_mode = BestEffort\<rparr>,
     \<lparr>ad_action = ''input_resource.read'', ad_resource_type = ''conversation_input_resource'',
       ad_default_risk_level = Low, ad_default_decision = Allow, ad_audit_required = True,
       ad_approval_capability = None, ad_default_required_approver_role = None,
       ad_current_enforcement_point = ''server/src/modules/sessions/conversationInputResourceService.ts'',
       ad_lifecycle_status = WiredDirect, ad_record_failure_mode = FailClosed\<rparr>,
     \<lparr>ad_action = ''input_resource.search'', ad_resource_type = ''conversation_input_resource'',
       ad_default_risk_level = Low, ad_default_decision = Allow, ad_audit_required = True,
       ad_approval_capability = None, ad_default_required_approver_role = None,
       ad_current_enforcement_point = ''server/src/modules/sessions/conversationInputResourceService.ts'',
       ad_lifecycle_status = WiredDirect, ad_record_failure_mode = FailClosed\<rparr>]"

definition registry_part5 :: "action_definition list" where
  "registry_part5 =
    [\<lparr>ad_action = ''conversation.history.read'', ad_resource_type = ''session'',
       ad_default_risk_level = Low, ad_default_decision = Allow, ad_audit_required = True,
       ad_approval_capability = None, ad_default_required_approver_role = None,
       ad_current_enforcement_point = ''server/src/modules/sessions/conversationHistorySystemActionExecutors.ts'',
       ad_lifecycle_status = WiredDirect, ad_record_failure_mode = FailClosed\<rparr>,
     \<lparr>ad_action = ''project_folder.apply_patch'', ad_resource_type = ''project_folder'',
       ad_default_risk_level = High, ad_default_decision = RequireApproval, ad_audit_required = True,
       ad_approval_capability = Some ''approve_code_patch'', ad_default_required_approver_role = Some ''owner'',
       ad_current_enforcement_point = ''server/src/modules/projectFolders/repository.ts'',
       ad_lifecycle_status = WiredDirect, ad_record_failure_mode = FailClosed\<rparr>,
     \<lparr>ad_action = ''artifact.export'', ad_resource_type = ''artifact'',
       ad_default_risk_level = High, ad_default_decision = RequireApproval, ad_audit_required = True,
       ad_approval_capability = None, ad_default_required_approver_role = Some ''owner'',
       ad_current_enforcement_point = ''not_implemented'',
       ad_lifecycle_status = Reserved, ad_record_failure_mode = BestEffort\<rparr>,
     \<lparr>ad_action = ''proposal.approve'', ad_resource_type = ''proposal'',
       ad_default_risk_level = Medium, ad_default_decision = RequireApproval, ad_audit_required = True,
       ad_approval_capability = Some ''approve_proposal'', ad_default_required_approver_role = Some ''owner'',
       ad_current_enforcement_point = ''not_implemented'',
       ad_lifecycle_status = Reserved, ad_record_failure_mode = BestEffort\<rparr>,
     \<lparr>ad_action = ''memory.read_private'', ad_resource_type = ''memory'',
       ad_default_risk_level = High, ad_default_decision = RequireApproval, ad_audit_required = True,
       ad_approval_capability = None, ad_default_required_approver_role = Some ''owner'',
       ad_current_enforcement_point = ''not_implemented'',
       ad_lifecycle_status = Reserved, ad_record_failure_mode = BestEffort\<rparr>,
     \<lparr>ad_action = ''memory.promote_shared'', ad_resource_type = ''memory'',
       ad_default_risk_level = High, ad_default_decision = RequireApproval, ad_audit_required = True,
       ad_approval_capability = Some ''approve_memory_change'', ad_default_required_approver_role = Some ''owner'',
       ad_current_enforcement_point = ''not_implemented'',
       ad_lifecycle_status = Reserved, ad_record_failure_mode = BestEffort\<rparr>,
     \<lparr>ad_action = ''tool_binding.enable'', ad_resource_type = ''tool_binding'',
       ad_default_risk_level = High, ad_default_decision = RequireApproval, ad_audit_required = True,
       ad_approval_capability = Some ''approve_tool_binding_change'', ad_default_required_approver_role = Some ''owner'',
       ad_current_enforcement_point = ''not_implemented'',
       ad_lifecycle_status = Reserved, ad_record_failure_mode = BestEffort\<rparr>,
     \<lparr>ad_action = ''evidence.export'', ad_resource_type = ''evidence'',
       ad_default_risk_level = High, ad_default_decision = RequireApproval, ad_audit_required = True,
       ad_approval_capability = None, ad_default_required_approver_role = Some ''owner'',
       ad_current_enforcement_point = ''not_implemented'',
       ad_lifecycle_status = Reserved, ad_record_failure_mode = BestEffort\<rparr>,
     \<lparr>ad_action = ''automation.create'', ad_resource_type = ''automation'',
       ad_default_risk_level = High, ad_default_decision = RequireApproval, ad_audit_required = True,
       ad_approval_capability = Some ''approve_automation_change'', ad_default_required_approver_role = Some ''owner'',
       ad_current_enforcement_point = ''server/src/modules/automations/service.ts'',
       ad_lifecycle_status = WiredDirect, ad_record_failure_mode = FailClosed\<rparr>,
     \<lparr>ad_action = ''automation.fire'', ad_resource_type = ''automation'',
       ad_default_risk_level = Medium, ad_default_decision = RequireApproval, ad_audit_required = True,
       ad_approval_capability = None, ad_default_required_approver_role = Some ''owner'',
       ad_current_enforcement_point = ''server/src/modules/automations/service.ts'',
       ad_lifecycle_status = WiredDirect, ad_record_failure_mode = FailClosed\<rparr>]"

definition registry_part6 :: "action_definition list" where
  "registry_part6 =
    [\<lparr>ad_action = ''automation.update'', ad_resource_type = ''automation'',
       ad_default_risk_level = High, ad_default_decision = RequireApproval, ad_audit_required = True,
       ad_approval_capability = Some ''approve_automation_change'', ad_default_required_approver_role = Some ''owner'',
       ad_current_enforcement_point = ''server/src/modules/automations/service.ts'',
       ad_lifecycle_status = WiredDirect, ad_record_failure_mode = FailClosed\<rparr>,
     \<lparr>ad_action = ''source.goal.manage'', ad_resource_type = ''source_goal'',
       ad_default_risk_level = Medium, ad_default_decision = Allow, ad_audit_required = True,
       ad_approval_capability = None, ad_default_required_approver_role = None,
       ad_current_enforcement_point = ''server/src/modules/sources/goals/routes.ts'',
       ad_lifecycle_status = WiredDirect, ad_record_failure_mode = FailClosed\<rparr>,
     \<lparr>ad_action = ''source.connection.manage'', ad_resource_type = ''source_connection'',
       ad_default_risk_level = Medium, ad_default_decision = Allow, ad_audit_required = True,
       ad_approval_capability = None, ad_default_required_approver_role = None,
       ad_current_enforcement_point = ''server/src/modules/sources/routes.ts'',
       ad_lifecycle_status = WiredDirect, ad_record_failure_mode = BestEffort\<rparr>,
     \<lparr>ad_action = ''source.item_create'', ad_resource_type = ''source_item'',
       ad_default_risk_level = Low, ad_default_decision = Allow, ad_audit_required = True,
       ad_approval_capability = None, ad_default_required_approver_role = None,
       ad_current_enforcement_point = ''server/src/modules/sources/routes.ts'',
       ad_lifecycle_status = WiredDirect, ad_record_failure_mode = BestEffort\<rparr>,
     \<lparr>ad_action = ''source.item_update'', ad_resource_type = ''source_item'',
       ad_default_risk_level = Low, ad_default_decision = Allow, ad_audit_required = True,
       ad_approval_capability = None, ad_default_required_approver_role = None,
       ad_current_enforcement_point = ''server/src/modules/sources/routes.ts'',
       ad_lifecycle_status = WiredDirect, ad_record_failure_mode = BestEffort\<rparr>,
     \<lparr>ad_action = ''evidence.create'', ad_resource_type = ''evidence'',
       ad_default_risk_level = Low, ad_default_decision = Allow, ad_audit_required = True,
       ad_approval_capability = None, ad_default_required_approver_role = None,
       ad_current_enforcement_point = ''server/src/modules/sources/routes.ts'',
       ad_lifecycle_status = WiredDirect, ad_record_failure_mode = BestEffort\<rparr>,
     \<lparr>ad_action = ''evidence.update'', ad_resource_type = ''evidence'',
       ad_default_risk_level = Low, ad_default_decision = Allow, ad_audit_required = True,
       ad_approval_capability = None, ad_default_required_approver_role = None,
       ad_current_enforcement_point = ''server/src/modules/sources/routes.ts'',
       ad_lifecycle_status = WiredDirect, ad_record_failure_mode = BestEffort\<rparr>,
     \<lparr>ad_action = ''evidence.link'', ad_resource_type = ''evidence'',
       ad_default_risk_level = Low, ad_default_decision = Allow, ad_audit_required = True,
       ad_approval_capability = None, ad_default_required_approver_role = None,
       ad_current_enforcement_point = ''server/src/modules/sources/routes.ts'',
       ad_lifecycle_status = WiredDirect, ad_record_failure_mode = BestEffort\<rparr>,
     \<lparr>ad_action = ''source.custom.create'', ad_resource_type = ''source_connection'',
       ad_default_risk_level = Medium, ad_default_decision = Allow, ad_audit_required = True,
       ad_approval_capability = None, ad_default_required_approver_role = None,
       ad_current_enforcement_point = ''server/src/modules/sources/routes.ts'',
       ad_lifecycle_status = WiredDirect, ad_record_failure_mode = BestEffort\<rparr>,
     \<lparr>ad_action = ''source.custom.generate'', ad_resource_type = ''source_connection'',
       ad_default_risk_level = Medium, ad_default_decision = Allow, ad_audit_required = True,
       ad_approval_capability = None, ad_default_required_approver_role = None,
       ad_current_enforcement_point = ''server/src/modules/sources/routes.ts'',
       ad_lifecycle_status = WiredDirect, ad_record_failure_mode = BestEffort\<rparr>,
     \<lparr>ad_action = ''source.custom.test'', ad_resource_type = ''source_connection'',
       ad_default_risk_level = Low, ad_default_decision = Allow, ad_audit_required = True,
       ad_approval_capability = None, ad_default_required_approver_role = None,
       ad_current_enforcement_point = ''server/src/modules/sources/routes.ts'',
       ad_lifecycle_status = WiredDirect, ad_record_failure_mode = BestEffort\<rparr>]"

definition registry_part7 :: "action_definition list" where
  "registry_part7 =
    [\<lparr>ad_action = ''source.custom.activate'', ad_resource_type = ''source_connection'',
       ad_default_risk_level = Medium, ad_default_decision = Allow, ad_audit_required = True,
       ad_approval_capability = None, ad_default_required_approver_role = None,
       ad_current_enforcement_point = ''server/src/modules/sources/routes.ts'',
       ad_lifecycle_status = WiredDirect, ad_record_failure_mode = BestEffort\<rparr>,
     \<lparr>ad_action = ''source.custom.repair'', ad_resource_type = ''source_connection'',
       ad_default_risk_level = Medium, ad_default_decision = Allow, ad_audit_required = True,
       ad_approval_capability = None, ad_default_required_approver_role = None,
       ad_current_enforcement_point = ''server/src/modules/sources/customSources/customSourceRoutes.ts'',
       ad_lifecycle_status = WiredDirect, ad_record_failure_mode = BestEffort\<rparr>,
     \<lparr>ad_action = ''source.custom.rollback'', ad_resource_type = ''source_connection'',
       ad_default_risk_level = Medium, ad_default_decision = Allow, ad_audit_required = True,
       ad_approval_capability = None, ad_default_required_approver_role = None,
       ad_current_enforcement_point = ''server/src/modules/sources/customSources/customSourceRoutes.ts'',
       ad_lifecycle_status = WiredDirect, ad_record_failure_mode = BestEffort\<rparr>,
     \<lparr>ad_action = ''source.custom.credential_create'', ad_resource_type = ''custom_source_credential'',
       ad_default_risk_level = High, ad_default_decision = Allow, ad_audit_required = True,
       ad_approval_capability = None, ad_default_required_approver_role = None,
       ad_current_enforcement_point = ''server/src/modules/sources/customSources/customSourceRoutes.ts'',
       ad_lifecycle_status = WiredDirect, ad_record_failure_mode = BestEffort\<rparr>,
     \<lparr>ad_action = ''source.recipe.create'', ad_resource_type = ''source_connection'',
       ad_default_risk_level = Medium, ad_default_decision = Allow, ad_audit_required = True,
       ad_approval_capability = None, ad_default_required_approver_role = None,
       ad_current_enforcement_point = ''server/src/modules/sources/sourceRecipeRoutes.ts'',
       ad_lifecycle_status = WiredDirect, ad_record_failure_mode = BestEffort\<rparr>,
     \<lparr>ad_action = ''source.recipe.activate'', ad_resource_type = ''source_connection'',
       ad_default_risk_level = Medium, ad_default_decision = Allow, ad_audit_required = True,
       ad_approval_capability = None, ad_default_required_approver_role = None,
       ad_current_enforcement_point = ''server/src/modules/sources/sourceRecipeRoutes.ts'',
       ad_lifecycle_status = WiredDirect, ad_record_failure_mode = BestEffort\<rparr>,
     \<lparr>ad_action = ''source.recipe.dry_run'', ad_resource_type = ''source_connection'',
       ad_default_risk_level = Low, ad_default_decision = Allow, ad_audit_required = True,
       ad_approval_capability = None, ad_default_required_approver_role = None,
       ad_current_enforcement_point = ''server/src/modules/sources/sourceRecipeRoutes.ts'',
       ad_lifecycle_status = WiredDirect, ad_record_failure_mode = BestEffort\<rparr>,
     \<lparr>ad_action = ''source.custom.settings_update'', ad_resource_type = ''custom_source_settings'',
       ad_default_risk_level = Medium, ad_default_decision = Allow, ad_audit_required = True,
       ad_approval_capability = None, ad_default_required_approver_role = None,
       ad_current_enforcement_point = ''server/src/modules/sources/routes.ts'',
       ad_lifecycle_status = WiredDirect, ad_record_failure_mode = BestEffort\<rparr>,
     \<lparr>ad_action = ''project.source.bind'', ad_resource_type = ''project_source'',
       ad_default_risk_level = Medium, ad_default_decision = Allow, ad_audit_required = True,
       ad_approval_capability = None, ad_default_required_approver_role = None,
       ad_current_enforcement_point = ''server/src/modules/projects/routes.ts'',
       ad_lifecycle_status = WiredDirect, ad_record_failure_mode = BestEffort\<rparr>]"

definition registry_part8 :: "action_definition list" where
  "registry_part8 =
    [\<lparr>ad_action = ''inquiry.thread.create'', ad_resource_type = ''project'',
       ad_default_risk_level = Low, ad_default_decision = Allow, ad_audit_required = True,
       ad_approval_capability = None, ad_default_required_approver_role = None,
       ad_current_enforcement_point = ''server/src/modules/systemActions/systemActionDispatcher.ts'',
       ad_lifecycle_status = WiredDirect, ad_record_failure_mode = FailClosed\<rparr>,
     \<lparr>ad_action = ''note.link.create'', ad_resource_type = ''note'',
       ad_default_risk_level = Low, ad_default_decision = Deny, ad_audit_required = True,
       ad_approval_capability = None, ad_default_required_approver_role = None,
       ad_current_enforcement_point = ''not_implemented'',
       ad_lifecycle_status = Reserved, ad_record_failure_mode = BestEffort\<rparr>,
     \<lparr>ad_action = ''project.monitoring.configure'', ad_resource_type = ''project'',
       ad_default_risk_level = Medium, ad_default_decision = Allow, ad_audit_required = True,
       ad_approval_capability = None, ad_default_required_approver_role = None,
       ad_current_enforcement_point = ''server/src/modules/projects/monitoring/routes.ts'',
       ad_lifecycle_status = WiredDirect, ad_record_failure_mode = FailClosed\<rparr>,
     \<lparr>ad_action = ''project.operation.manage'', ad_resource_type = ''project_operation'',
       ad_default_risk_level = Low, ad_default_decision = Allow, ad_audit_required = True,
       ad_approval_capability = None, ad_default_required_approver_role = None,
       ad_current_enforcement_point = ''server/src/modules/projects/routes.ts'',
       ad_lifecycle_status = WiredDirect, ad_record_failure_mode = BestEffort\<rparr>,
     \<lparr>ad_action = ''project.reading.read'', ad_resource_type = ''project'',
       ad_default_risk_level = Low, ad_default_decision = Allow, ad_audit_required = True,
       ad_approval_capability = None, ad_default_required_approver_role = None,
       ad_current_enforcement_point = ''server/src/modules/systemActions/systemActionDispatcher.ts'',
       ad_lifecycle_status = WiredDirect, ad_record_failure_mode = BestEffort\<rparr>,
     \<lparr>ad_action = ''research.result.read'', ad_resource_type = ''project_operation'',
       ad_default_risk_level = Low, ad_default_decision = Allow, ad_audit_required = True,
       ad_approval_capability = None, ad_default_required_approver_role = None,
       ad_current_enforcement_point = ''server/src/modules/systemActions/systemActionDispatcher.ts'',
       ad_lifecycle_status = WiredDirect, ad_record_failure_mode = BestEffort\<rparr>,
     \<lparr>ad_action = ''research.result.adopt'', ad_resource_type = ''project_operation'',
       ad_default_risk_level = Medium, ad_default_decision = Allow, ad_audit_required = True,
       ad_approval_capability = None, ad_default_required_approver_role = None,
       ad_current_enforcement_point = ''server/src/modules/systemActions/systemActionDispatcher.ts'',
       ad_lifecycle_status = WiredDirect, ad_record_failure_mode = FailClosed\<rparr>,
     \<lparr>ad_action = ''research.acquisition.start'', ad_resource_type = ''inquiry_thread'',
       ad_default_risk_level = Medium, ad_default_decision = Allow, ad_audit_required = True,
       ad_approval_capability = None, ad_default_required_approver_role = None,
       ad_current_enforcement_point = ''server/src/modules/projectResearch/pipeline/researchAcquisitionService.ts'',
       ad_lifecycle_status = WiredDirect, ad_record_failure_mode = FailClosed\<rparr>,
     \<lparr>ad_action = ''research.acquisition.cancel'', ad_resource_type = ''project_operation'',
       ad_default_risk_level = Low, ad_default_decision = Allow, ad_audit_required = True,
       ad_approval_capability = None, ad_default_required_approver_role = None,
       ad_current_enforcement_point = ''server/src/modules/projectResearch/routes.ts + system-action policy gate'',
       ad_lifecycle_status = WiredDirect, ad_record_failure_mode = FailClosed\<rparr>,
     \<lparr>ad_action = ''retrieval.search'', ad_resource_type = ''retrieval_tool'',
       ad_default_risk_level = Low, ad_default_decision = Deny, ad_audit_required = True,
       ad_approval_capability = None, ad_default_required_approver_role = None,
       ad_current_enforcement_point = ''server/src/modules/retrieval/tool/service.ts, server/src/modules/runs/managedRetrievalTools.ts'',
       ad_lifecycle_status = WiredDirect, ad_record_failure_mode = FailClosed\<rparr>,
     \<lparr>ad_action = ''retrieval.brief'', ad_resource_type = ''retrieval_tool'',
       ad_default_risk_level = Low, ad_default_decision = Deny, ad_audit_required = True,
       ad_approval_capability = None, ad_default_required_approver_role = None,
       ad_current_enforcement_point = ''server/src/modules/retrieval/tool/service.ts, server/src/modules/runs/managedRetrievalTools.ts'',
       ad_lifecycle_status = WiredDirect, ad_record_failure_mode = FailClosed\<rparr>,
     \<lparr>ad_action = ''memory.retrieval.search'', ad_resource_type = ''retrieval_tool'',
       ad_default_risk_level = Low, ad_default_decision = Deny, ad_audit_required = True,
       ad_approval_capability = None, ad_default_required_approver_role = None,
       ad_current_enforcement_point = ''server/src/modules/retrieval/tool/service.ts, server/src/modules/runs/managedRetrievalTools.ts'',
       ad_lifecycle_status = WiredDirect, ad_record_failure_mode = FailClosed\<rparr>]"

definition registry_part9 :: "action_definition list" where
  "registry_part9 =
    [\<lparr>ad_action = ''memory.retrieval.brief'', ad_resource_type = ''retrieval_tool'',
       ad_default_risk_level = Low, ad_default_decision = Deny, ad_audit_required = True,
       ad_approval_capability = None, ad_default_required_approver_role = None,
       ad_current_enforcement_point = ''server/src/modules/retrieval/tool/service.ts, server/src/modules/runs/managedRetrievalTools.ts'',
       ad_lifecycle_status = WiredDirect, ad_record_failure_mode = FailClosed\<rparr>,
     \<lparr>ad_action = ''project.summary.search'', ad_resource_type = ''retrieval_tool'',
       ad_default_risk_level = Low, ad_default_decision = Deny, ad_audit_required = True,
       ad_approval_capability = None, ad_default_required_approver_role = None,
       ad_current_enforcement_point = ''server/src/modules/retrieval/tool/service.ts, server/src/modules/runs/managedRetrievalTools.ts'',
       ad_lifecycle_status = WiredDirect, ad_record_failure_mode = FailClosed\<rparr>,
     \<lparr>ad_action = ''project.summary.brief'', ad_resource_type = ''retrieval_tool'',
       ad_default_risk_level = Low, ad_default_decision = Deny, ad_audit_required = True,
       ad_approval_capability = None, ad_default_required_approver_role = None,
       ad_current_enforcement_point = ''server/src/modules/retrieval/tool/service.ts, server/src/modules/runs/managedRetrievalTools.ts'',
       ad_lifecycle_status = WiredDirect, ad_record_failure_mode = FailClosed\<rparr>,
     \<lparr>ad_action = ''source.retrieval.search'', ad_resource_type = ''retrieval_tool'',
       ad_default_risk_level = Low, ad_default_decision = Deny, ad_audit_required = True,
       ad_approval_capability = None, ad_default_required_approver_role = None,
       ad_current_enforcement_point = ''server/src/modules/retrieval/tool/service.ts, server/src/modules/runs/managedRetrievalTools.ts'',
       ad_lifecycle_status = WiredDirect, ad_record_failure_mode = FailClosed\<rparr>,
     \<lparr>ad_action = ''source.retrieval.brief'', ad_resource_type = ''retrieval_tool'',
       ad_default_risk_level = Low, ad_default_decision = Deny, ad_audit_required = True,
       ad_approval_capability = None, ad_default_required_approver_role = None,
       ad_current_enforcement_point = ''server/src/modules/retrieval/tool/service.ts, server/src/modules/runs/managedRetrievalTools.ts'',
       ad_lifecycle_status = WiredDirect, ad_record_failure_mode = FailClosed\<rparr>,
     \<lparr>ad_action = ''deployment.propose'', ad_resource_type = ''deployment'',
       ad_default_risk_level = High, ad_default_decision = RequireApproval, ad_audit_required = True,
       ad_approval_capability = Some ''approve_deployment'', ad_default_required_approver_role = Some ''owner'',
       ad_current_enforcement_point = ''not_implemented'',
       ad_lifecycle_status = Reserved, ad_record_failure_mode = BestEffort\<rparr>,
     \<lparr>ad_action = ''deployment.execute'', ad_resource_type = ''deployment'',
       ad_default_risk_level = Critical, ad_default_decision = RequireApproval, ad_audit_required = True,
       ad_approval_capability = Some ''approve_deployment'', ad_default_required_approver_role = Some ''owner'',
       ad_current_enforcement_point = ''not_implemented'',
       ad_lifecycle_status = Reserved, ad_record_failure_mode = BestEffort\<rparr>,
     \<lparr>ad_action = ''policy.action_grant.create'', ad_resource_type = ''action_approval_grant'',
       ad_default_risk_level = High, ad_default_decision = Allow, ad_audit_required = True,
       ad_approval_capability = Some ''manage_action_grants'', ad_default_required_approver_role = Some ''owner'',
       ad_current_enforcement_point = ''server/src/modules/policy/actionApprovalGrantService.ts'',
       ad_lifecycle_status = WiredDirect, ad_record_failure_mode = FailClosed\<rparr>,
     \<lparr>ad_action = ''source.connection.activate'', ad_resource_type = ''source_connection'',
       ad_default_risk_level = High, ad_default_decision = RequireApproval, ad_audit_required = True,
       ad_approval_capability = Some ''approve_source_connection'', ad_default_required_approver_role = Some ''owner'',
       ad_current_enforcement_point = ''server/src/modules/proposals/applyService.ts via source_channel_activation'',
       ad_lifecycle_status = WiredViaProposal, ad_record_failure_mode = FailClosed\<rparr>,
     \<lparr>ad_action = ''policy.action_grant.revoke'', ad_resource_type = ''action_approval_grant'',
       ad_default_risk_level = High, ad_default_decision = Allow, ad_audit_required = True,
       ad_approval_capability = Some ''manage_action_grants'', ad_default_required_approver_role = Some ''owner'',
       ad_current_enforcement_point = ''server/src/modules/policy/actionApprovalGrantService.ts'',
       ad_lifecycle_status = WiredDirect, ad_record_failure_mode = FailClosed\<rparr>,
     \<lparr>ad_action = ''source.backfill.plan'', ad_resource_type = ''source_backfill_plan'',
       ad_default_risk_level = Medium, ad_default_decision = Allow, ad_audit_required = True,
       ad_approval_capability = None, ad_default_required_approver_role = None,
       ad_current_enforcement_point = ''server/src/modules/sources/sourceBackfillService.ts'',
       ad_lifecycle_status = WiredDirect, ad_record_failure_mode = FailClosed\<rparr>,
     \<lparr>ad_action = ''source.backfill.start'', ad_resource_type = ''source_backfill_plan'',
       ad_default_risk_level = High, ad_default_decision = RequireApproval, ad_audit_required = True,
       ad_approval_capability = Some ''approve_source_backfill'', ad_default_required_approver_role = Some ''owner'',
       ad_current_enforcement_point = ''server/src/modules/sources/sourceBackfillProposalApplier.ts'',
       ad_lifecycle_status = WiredViaProposal, ad_record_failure_mode = FailClosed\<rparr>,
     \<lparr>ad_action = ''source.backfill.manage'', ad_resource_type = ''source_backfill_plan'',
       ad_default_risk_level = Medium, ad_default_decision = Allow, ad_audit_required = True,
       ad_approval_capability = None, ad_default_required_approver_role = None,
       ad_current_enforcement_point = ''server/src/modules/sources/routes.ts'',
       ad_lifecycle_status = WiredDirect, ad_record_failure_mode = FailClosed\<rparr>,
     \<lparr>ad_action = ''task.plan.propose'', ad_resource_type = ''plan'',
       ad_default_risk_level = Medium, ad_default_decision = Allow, ad_audit_required = True,
       ad_approval_capability = None, ad_default_required_approver_role = None,
       ad_current_enforcement_point = ''server/src/modules/systemActions/systemActionDispatcher.ts'',
       ad_lifecycle_status = WiredDirect, ad_record_failure_mode = FailClosed\<rparr>,
     \<lparr>ad_action = ''project.brief.propose'', ad_resource_type = ''project_brief_version'',
       ad_default_risk_level = Medium, ad_default_decision = Allow, ad_audit_required = True,
       ad_approval_capability = None, ad_default_required_approver_role = None,
       ad_current_enforcement_point = ''server/src/modules/systemActions/systemActionDispatcher.ts'',
       ad_lifecycle_status = WiredDirect, ad_record_failure_mode = FailClosed\<rparr>,
     \<lparr>ad_action = ''task.list'', ad_resource_type = ''project'',
       ad_default_risk_level = Low, ad_default_decision = Allow, ad_audit_required = True,
       ad_approval_capability = None, ad_default_required_approver_role = None,
       ad_current_enforcement_point = ''server/src/modules/systemActions/systemActionDispatcher.ts'',
       ad_lifecycle_status = WiredDirect, ad_record_failure_mode = BestEffort\<rparr>,
     \<lparr>ad_action = ''proposal.list'', ad_resource_type = ''project'',
       ad_default_risk_level = Low, ad_default_decision = Allow, ad_audit_required = True,
       ad_approval_capability = None, ad_default_required_approver_role = None,
       ad_current_enforcement_point = ''server/src/modules/systemActions/systemActionDispatcher.ts'',
       ad_lifecycle_status = WiredDirect, ad_record_failure_mode = BestEffort\<rparr>,
     \<lparr>ad_action = ''research.operation.list'', ad_resource_type = ''project'',
       ad_default_risk_level = Low, ad_default_decision = Allow, ad_audit_required = True,
       ad_approval_capability = None, ad_default_required_approver_role = None,
       ad_current_enforcement_point = ''server/src/modules/systemActions/systemActionDispatcher.ts'',
       ad_lifecycle_status = WiredDirect, ad_record_failure_mode = BestEffort\<rparr>]"

definition registry_part10 :: "action_definition list" where
  "registry_part10 =
    [\<lparr>ad_action = ''memory.write'', ad_resource_type = ''memory_entry'',
       ad_default_risk_level = Medium, ad_default_decision = Allow, ad_audit_required = True,
       ad_approval_capability = None, ad_default_required_approver_role = None,
       ad_current_enforcement_point = ''server/src/modules/systemActions/systemActionDispatcher.ts'',
       ad_lifecycle_status = WiredDirect, ad_record_failure_mode = FailClosed\<rparr>,
     \<lparr>ad_action = ''inquiry.thread.list'', ad_resource_type = ''project'',
       ad_default_risk_level = Low, ad_default_decision = Allow, ad_audit_required = True,
       ad_approval_capability = None, ad_default_required_approver_role = None,
       ad_current_enforcement_point = ''server/src/modules/systemActions/systemActionDispatcher.ts'',
       ad_lifecycle_status = WiredDirect, ad_record_failure_mode = BestEffort\<rparr>,
     \<lparr>ad_action = ''inquiry.problem.read'', ad_resource_type = ''inquiry_thread'',
       ad_default_risk_level = Low, ad_default_decision = Allow, ad_audit_required = True,
       ad_approval_capability = None, ad_default_required_approver_role = None,
       ad_current_enforcement_point = ''server/src/modules/systemActions/systemActionDispatcher.ts'',
       ad_lifecycle_status = WiredDirect, ad_record_failure_mode = BestEffort\<rparr>,
     \<lparr>ad_action = ''inquiry.work.record'', ad_resource_type = ''inquiry_thread'',
       ad_default_risk_level = Low, ad_default_decision = Allow, ad_audit_required = True,
       ad_approval_capability = None, ad_default_required_approver_role = None,
       ad_current_enforcement_point = ''server/src/modules/systemActions/systemActionDispatcher.ts'',
       ad_lifecycle_status = WiredDirect, ad_record_failure_mode = FailClosed\<rparr>,
     \<lparr>ad_action = ''inquiry.round.close'', ad_resource_type = ''inquiry_thread'',
       ad_default_risk_level = Low, ad_default_decision = Allow, ad_audit_required = True,
       ad_approval_capability = None, ad_default_required_approver_role = None,
       ad_current_enforcement_point = ''server/src/modules/systemActions/systemActionDispatcher.ts'',
       ad_lifecycle_status = WiredDirect, ad_record_failure_mode = FailClosed\<rparr>,
     \<lparr>ad_action = ''inquiry.iteration.record'', ad_resource_type = ''inquiry_thread'',
       ad_default_risk_level = Low, ad_default_decision = Allow, ad_audit_required = True,
       ad_approval_capability = None, ad_default_required_approver_role = None,
       ad_current_enforcement_point = ''server/src/modules/systemActions/systemActionDispatcher.ts'',
       ad_lifecycle_status = WiredDirect, ad_record_failure_mode = FailClosed\<rparr>,
     \<lparr>ad_action = ''inquiry.knowledge.promote'', ad_resource_type = ''knowledge_promotion_candidate'',
       ad_default_risk_level = Medium, ad_default_decision = Allow, ad_audit_required = True,
       ad_approval_capability = None, ad_default_required_approver_role = None,
       ad_current_enforcement_point = ''server/src/modules/systemActions/systemActionDispatcher.ts'',
       ad_lifecycle_status = WiredDirect, ad_record_failure_mode = FailClosed\<rparr>,
     \<lparr>ad_action = ''task.create'', ad_resource_type = ''project'',
       ad_default_risk_level = Medium, ad_default_decision = Allow, ad_audit_required = True,
       ad_approval_capability = None, ad_default_required_approver_role = None,
       ad_current_enforcement_point = ''server/src/modules/systemActions/systemActionDispatcher.ts'',
       ad_lifecycle_status = WiredDirect, ad_record_failure_mode = FailClosed\<rparr>,
     \<lparr>ad_action = ''proposal.decide'', ad_resource_type = ''proposal'',
       ad_default_risk_level = Medium, ad_default_decision = Allow, ad_audit_required = True,
       ad_approval_capability = None, ad_default_required_approver_role = None,
       ad_current_enforcement_point = ''server/src/modules/systemActions/systemActionDispatcher.ts'',
       ad_lifecycle_status = WiredDirect, ad_record_failure_mode = FailClosed\<rparr>,
     \<lparr>ad_action = ''task.report'', ad_resource_type = ''task'',
       ad_default_risk_level = Low, ad_default_decision = Allow, ad_audit_required = True,
       ad_approval_capability = None, ad_default_required_approver_role = None,
       ad_current_enforcement_point = ''server/src/modules/systemActions/systemActionDispatcher.ts'',
       ad_lifecycle_status = WiredDirect, ad_record_failure_mode = FailClosed\<rparr>,
     \<lparr>ad_action = ''task.handoff'', ad_resource_type = ''task'',
       ad_default_risk_level = Low, ad_default_decision = Allow, ad_audit_required = True,
       ad_approval_capability = None, ad_default_required_approver_role = None,
       ad_current_enforcement_point = ''server/src/modules/systemActions/systemActionDispatcher.ts'',
       ad_lifecycle_status = WiredDirect, ad_record_failure_mode = FailClosed\<rparr>,
     \<lparr>ad_action = ''board.read'', ad_resource_type = ''project'',
       ad_default_risk_level = Low, ad_default_decision = Allow, ad_audit_required = True,
       ad_approval_capability = None, ad_default_required_approver_role = None,
       ad_current_enforcement_point = ''server/src/modules/systemActions/systemActionDispatcher.ts'',
       ad_lifecycle_status = WiredDirect, ad_record_failure_mode = FailClosed\<rparr>,
     \<lparr>ad_action = ''board.configure'', ad_resource_type = ''project'',
       ad_default_risk_level = Medium, ad_default_decision = Allow, ad_audit_required = True,
       ad_approval_capability = None, ad_default_required_approver_role = None,
       ad_current_enforcement_point = ''server/src/modules/systemActions/systemActionDispatcher.ts'',
       ad_lifecycle_status = WiredDirect, ad_record_failure_mode = FailClosed\<rparr>,
     \<lparr>ad_action = ''task.column.move'', ad_resource_type = ''task'',
       ad_default_risk_level = Medium, ad_default_decision = Allow, ad_audit_required = True,
       ad_approval_capability = None, ad_default_required_approver_role = None,
       ad_current_enforcement_point = ''server/src/modules/systemActions/systemActionDispatcher.ts'',
       ad_lifecycle_status = WiredDirect, ad_record_failure_mode = FailClosed\<rparr>,
     \<lparr>ad_action = ''task.delete'', ad_resource_type = ''task'',
       ad_default_risk_level = Medium, ad_default_decision = Allow, ad_audit_required = True,
       ad_approval_capability = None, ad_default_required_approver_role = None,
       ad_current_enforcement_point = ''server/src/modules/systemActions/systemActionDispatcher.ts'',
       ad_lifecycle_status = WiredDirect, ad_record_failure_mode = FailClosed\<rparr>,
     \<lparr>ad_action = ''task.status.set'', ad_resource_type = ''task'',
       ad_default_risk_level = Medium, ad_default_decision = Allow, ad_audit_required = True,
       ad_approval_capability = None, ad_default_required_approver_role = None,
       ad_current_enforcement_point = ''server/src/modules/systemActions/systemActionDispatcher.ts'',
       ad_lifecycle_status = WiredDirect, ad_record_failure_mode = FailClosed\<rparr>,
     \<lparr>ad_action = ''artifact.declare'', ad_resource_type = ''task'',
       ad_default_risk_level = Low, ad_default_decision = Allow, ad_audit_required = True,
       ad_approval_capability = None, ad_default_required_approver_role = None,
       ad_current_enforcement_point = ''server/src/modules/systemActions/systemActionDispatcher.ts'',
       ad_lifecycle_status = WiredDirect, ad_record_failure_mode = FailClosed\<rparr>,
     \<lparr>ad_action = ''task.complete'', ad_resource_type = ''task'',
       ad_default_risk_level = Medium, ad_default_decision = Allow, ad_audit_required = True,
       ad_approval_capability = None, ad_default_required_approver_role = None,
       ad_current_enforcement_point = ''server/src/modules/systemActions/systemActionDispatcher.ts'',
       ad_lifecycle_status = WiredDirect, ad_record_failure_mode = FailClosed\<rparr>,
     \<lparr>ad_action = ''handoff.write'', ad_resource_type = ''host_thread'',
       ad_default_risk_level = Low, ad_default_decision = Allow, ad_audit_required = True,
       ad_approval_capability = None, ad_default_required_approver_role = None,
       ad_current_enforcement_point = ''server/src/modules/systemActions/systemActionDispatcher.ts'',
       ad_lifecycle_status = WiredDirect, ad_record_failure_mode = FailClosed\<rparr>,
     \<lparr>ad_action = ''task.request_review'', ad_resource_type = ''task'',
       ad_default_risk_level = Low, ad_default_decision = Allow, ad_audit_required = True,
       ad_approval_capability = None, ad_default_required_approver_role = None,
       ad_current_enforcement_point = ''server/src/modules/systemActions/systemActionDispatcher.ts'',
       ad_lifecycle_status = WiredDirect, ad_record_failure_mode = FailClosed\<rparr>]"

definition policy_action_registry :: "action_definition list" where
  "policy_action_registry =
     registry_part1 @ registry_part2 @ registry_part3 @ registry_part4 @ registry_part5 @
     registry_part6 @ registry_part7 @ registry_part8 @ registry_part9 @ registry_part10"

lemmas registry_parts =
  registry_part1_def registry_part2_def registry_part3_def registry_part4_def registry_part5_def registry_part6_def registry_part7_def registry_part8_def registry_part9_def registry_part10_def

section \<open>The index\<close>

type_synonym registry = "string \<rightharpoonup> action_definition"

text \<open>\<open>loadActionRegistry\<close>: a later entry with the same action would replace an earlier one.\<close>

definition load_action_registry :: registry where
  "load_action_registry = fold (\<lambda>d m. m(ad_action d \<mapsto> d)) policy_action_registry Map.empty"

definition get_action_definition :: "registry \<Rightarrow> string \<Rightarrow> action_definition option" where
  "get_action_definition reg action = reg action"

text \<open>\<open>requireActionDefinition\<close> throws \<open>UnknownPolicyActionError\<close> for an unregistered action.\<close>

datatype registry_error = UnknownPolicyAction string

definition require_action_definition ::
    "registry \<Rightarrow> string \<Rightarrow> registry_error + action_definition" where
  "require_action_definition reg action =
     (case reg action of None \<Rightarrow> Inl (UnknownPolicyAction action) | Some d \<Rightarrow> Inr d)"

section \<open>Facts about the data\<close>

lemma registry_actions_distinct: "distinct (map ad_action policy_action_registry)"
  unfolding policy_action_registry_def by code_simp

lemma fold_index_notin:
  "k \<notin> ad_action ` set ds \<Longrightarrow> fold (\<lambda>d m. m(ad_action d \<mapsto> d)) ds m k = m k"
  by (induction ds arbitrary: m) auto

lemma fold_index_lookup:
  "distinct (map ad_action ds) \<Longrightarrow> d \<in> set ds \<Longrightarrow>
   fold (\<lambda>d m. m(ad_action d \<mapsto> d)) ds m (ad_action d) = Some d"
  by (induction ds arbitrary: m) (auto simp: fold_index_notin)

lemma fold_index_Some:
  "fold (\<lambda>d m. m(ad_action d \<mapsto> d)) ds m k = Some d \<Longrightarrow>
   (d \<in> set ds \<and> ad_action d = k) \<or> m k = Some d"
  by (induction ds arbitrary: m) (fastforce split: if_splits)+

lemma registry_lookup_iff:
  "load_action_registry k = Some d \<longleftrightarrow> d \<in> set policy_action_registry \<and> ad_action d = k"
  using fold_index_lookup [OF registry_actions_distinct, of d Map.empty]
    fold_index_Some [of policy_action_registry Map.empty k d]
  by (auto simp: load_action_registry_def)

text \<open>Checks of the whole table, evaluated entry by entry.\<close>

definition registry_entry_ok :: "action_definition \<Rightarrow> bool" where
  "registry_entry_ok d \<longleftrightarrow>
     ad_action d \<noteq> [] \<and> ad_resource_type d \<noteq> [] \<and>
     (ad_record_failure_mode d = FailClosed \<longrightarrow> ad_audit_required d) \<and>
     (\<not> ad_audit_required d \<longrightarrow> ad_default_risk_level d = Low) \<and>
     (ad_default_risk_level d = Critical \<longrightarrow> ad_default_decision d \<noteq> Allow) \<and>
     (case ad_default_required_approver_role d of None \<Rightarrow> True
      | Some r \<Rightarrow> approver_max_risk r \<noteq> None \<and>
          role_may_approve_risk (Some r) (ad_default_risk_level d))"

lemma registry_entries_ok: "\<forall>d\<in>set policy_action_registry. registry_entry_ok d"
  unfolding policy_action_registry_def by code_simp

end
