(* ===== verification/PolicyEngine.thy ===== *)
theory PolicyEngine
  imports PolicyRules PolicyRegistry
begin

text \<open>
  The decision engine of \<open>server/src/modules/policy/decisionCore.ts\<close>: the rules of
  \<open>PolicyRules\<close> in order, first result wins, the registry default when none speaks, a denial for
  an action that is not registered.
\<close>

definition builtin_rules :: "(jsobj \<Rightarrow> policy_decision option) list" where
  "builtin_rules =
     [rule_space_boundary, rule_agent_status, rule_memory_scope, rule_use_credential,
      rule_tool_permission, rule_project_folder_write_patch, rule_project_folder_direct_apply,
      rule_automation, rule_runtime_execute_risk_level, rule_run_spawn_child,
      rule_retrieval_tool_call, rule_managed_system_action_grant, rule_unattended_project_write]"

definition unknown_action_denial :: "jsobj \<Rightarrow> policy_decision" where
  "unknown_action_denial ctx =
     (rule_decision Deny High ''unknown_policy_action'' ''unknown_action_deny''
        ''unknown_policy_action'')
       \<lparr>pd_action := coalesce (get_prop ctx ''action'') JNull,
        pd_space_id := coalesce (get_prop ctx ''space_id'') JNull\<rparr>"

definition registry_default :: "action_definition \<Rightarrow> jsobj \<Rightarrow> policy_decision" where
  "registry_default defn ctx =
     (make_decision (ad_default_decision defn))
       \<lparr>pd_risk_level := ad_default_risk_level defn, pd_reason_code := JStr ''registry_default'',
        pd_required_approver_role := js_opt (ad_default_required_approver_role defn),
        pd_approval_capability := js_opt (ad_approval_capability defn),
        pd_policy_rule_id := JStr ''registry_default'', pd_policy_source := ''registry'',
        pd_resource_type := JStr (ad_resource_type defn),
        pd_action := JStr (js_str (get_prop ctx ''action'')),
        pd_actor_id := coalesce (get_prop ctx ''actor_id'') JNull,
        pd_actor_ref := (case as_record (get_prop ctx ''actor_ref'') of
                           None \<Rightarrow> JNull | Some kvs \<Rightarrow> JObj kvs),
        pd_space_id := coalesce (get_prop ctx ''space_id'') JNull\<rparr>"

definition engine_check :: "registry \<Rightarrow> jsobj \<Rightarrow> policy_decision" where
  "engine_check reg ctx =
     (case require_action_definition reg (js_str (get_prop ctx ''action'')) of
        Inl (UnknownPolicyAction _) \<Rightarrow> unknown_action_denial ctx
      | Inr defn \<Rightarrow>
          (case first_some builtin_rules ctx of
             Some d \<Rightarrow> d
           | None \<Rightarrow> registry_default defn ctx))"

lemma registry_default_decision [simp]:
  "pd_decision (registry_default defn ctx) = ad_default_decision defn"
  by (simp add: registry_default_def)

section \<open>Which rule speaks for which action\<close>

lemma rule_memory_scope_scope:
  "ctx_action ctx \<notin> {''memory.create'', ''memory.update'', ''memory.archive''} \<Longrightarrow>
   rule_memory_scope ctx = None"
  by (simp add: rule_memory_scope_def Let_def)

lemma rule_use_credential_scope:
  "ctx_action ctx \<noteq> ''runtime.use_credential'' \<Longrightarrow> rule_use_credential ctx = None"
  by (simp add: rule_use_credential_def Let_def)

lemma rule_tool_permission_scope:
  "ctx_action ctx \<noteq> ''runtime.execute'' \<Longrightarrow> rule_tool_permission ctx = None"
  by (simp add: rule_tool_permission_def Let_def)

lemma rule_write_patch_scope:
  "ctx_action ctx \<noteq> ''project_folder.write_patch'' \<Longrightarrow> rule_project_folder_write_patch ctx = None"
  by (simp add: rule_project_folder_write_patch_def)

lemma rule_direct_apply_scope:
  "ctx_action ctx \<noteq> ''project_folder.apply_patch'' \<Longrightarrow> rule_project_folder_direct_apply ctx = None"
  by (simp add: rule_project_folder_direct_apply_def)

lemma rule_automation_scope:
  "ctx_action ctx \<notin> set automation_actions \<Longrightarrow> rule_automation ctx = None"
  by (simp add: rule_automation_def Let_def)

lemma rule_risk_level_scope:
  "ctx_action ctx \<noteq> ''runtime.execute'' \<Longrightarrow> rule_runtime_execute_risk_level ctx = None"
  by (simp add: rule_runtime_execute_risk_level_def)

lemma rule_spawn_scope:
  "ctx_action ctx \<noteq> ''run.spawn_child'' \<Longrightarrow> rule_run_spawn_child ctx = None"
  by (simp add: rule_run_spawn_child_def Let_def)

lemma rule_retrieval_scope:
  "ctx_action ctx \<notin> set retrieval_tool_actions \<Longrightarrow> rule_retrieval_tool_call ctx = None"
  by (simp add: rule_retrieval_tool_call_def Let_def)

lemma rule_agent_status_scope:
  "\<not> starts_with ''memory.'' (ctx_action ctx) \<Longrightarrow> ctx_action ctx \<noteq> ''runtime.execute'' \<Longrightarrow>
   rule_agent_status ctx = None"
  by (simp add: rule_agent_status_def Let_def)

lemmas rule_scopes =
  rule_memory_scope_scope rule_use_credential_scope rule_tool_permission_scope
  rule_write_patch_scope rule_direct_apply_scope rule_automation_scope rule_risk_level_scope
  rule_spawn_scope rule_retrieval_scope rule_agent_status_scope

lemma rule_space_boundary_deny:
  "rule_space_boundary ctx = Some d \<Longrightarrow> pd_decision d = Deny"
  by (auto simp: rule_space_boundary_def Let_def split: if_splits)

lemma rule_agent_status_deny:
  "rule_agent_status ctx = Some d \<Longrightarrow> pd_decision d = Deny"
  by (auto simp: rule_agent_status_def Let_def split: if_splits)

text \<open>The space boundary: both spaces are named and differ.\<close>

definition spaces_differ :: "jsobj \<Rightarrow> bool" where
  "spaces_differ ctx \<longleftrightarrow>
     truthy (get_prop ctx ''resource_space_id'') \<and> truthy (get_prop ctx ''space_id'') \<and>
     \<not> js_eq (get_prop ctx ''space_id'') (get_prop ctx ''resource_space_id'')"

lemma rule_space_boundary_None: "rule_space_boundary ctx = None \<longleftrightarrow> \<not> spaces_differ ctx"
  by (simp add: rule_space_boundary_def spaces_differ_def Let_def)

lemma js_eq_sym: "js_eq a b = js_eq b a"
  by (cases "(a, b)" rule: js_eq.cases) auto

section \<open>Engine results\<close>

lemma engine_check_unknown:
  "reg (ctx_action ctx) = None \<Longrightarrow> pd_decision (engine_check reg ctx) = Deny"
  by (simp add: engine_check_def require_action_definition_def unknown_action_denial_def
      ctx_action_def)

lemma engine_check_registered:
  "reg (ctx_action ctx) = Some defn \<Longrightarrow>
   engine_check reg ctx =
     (case first_some builtin_rules ctx of Some d \<Rightarrow> d | None \<Rightarrow> registry_default defn ctx)"
  by (simp add: engine_check_def require_action_definition_def ctx_action_def)

text \<open>A cross-space request is denied by the engine whatever its action.\<close>

lemma engine_check_cross_space:
  assumes "spaces_differ ctx"
  shows "pd_decision (engine_check reg ctx) = Deny"
proof (cases "reg (ctx_action ctx)")
  case None
  then show ?thesis by (rule engine_check_unknown)
next
  case (Some defn)
  obtain d where d: "rule_space_boundary ctx = Some d"
    using assms rule_space_boundary_None by blast
  then have "first_some builtin_rules ctx = Some d"
    by (simp add: builtin_rules_def)
  with Some d show ?thesis
    by (simp add: engine_check_registered rule_space_boundary_deny)
qed

lemma first_some_until:
  "f x = None \<Longrightarrow> first_some (f # fs) x = first_some fs x"
  by simp

lemma engine_credential:
  assumes act: "ctx_action ctx = ''runtime.use_credential''"
    and reg: "reg ''runtime.use_credential'' = Some defn"
  shows "pd_decision (engine_check reg ctx) = Allow \<longleftrightarrow> credential_spend_ok ctx"
proof (cases "spaces_differ ctx")
  case True
  then have "\<not> credential_spend_ok ctx"
    by (simp add: spaces_differ_def credential_spend_ok_def js_eq_sym)
  with True show ?thesis by (simp add: engine_check_cross_space)
next
  case False
  obtain d where d: "rule_use_credential ctx = Some d"
    using rule_use_credential_decides [OF act] by blast
  have "rule_agent_status ctx = None" "rule_memory_scope ctx = None"
    using act by (simp_all add: rule_agent_status_scope rule_memory_scope_scope starts_with_def)
  with False d have "first_some builtin_rules ctx = Some d"
    by (simp add: builtin_rules_def rule_space_boundary_None [symmetric])
  then have "engine_check reg ctx = d"
    using reg act by (simp add: engine_check_registered)
  then show ?thesis
    using rule_use_credential_allow [OF act] d by auto
qed

lemma spawn_scope_rules:
  assumes "ctx_action ctx = ''run.spawn_child''"
  shows "rule_agent_status ctx = None" "rule_memory_scope ctx = None"
    "rule_use_credential ctx = None" "rule_tool_permission ctx = None"
    "rule_project_folder_write_patch ctx = None" "rule_project_folder_direct_apply ctx = None"
    "rule_automation ctx = None" "rule_runtime_execute_risk_level ctx = None"
  using assms by (simp_all add: rule_scopes starts_with_def automation_actions_def)

lemma rule_run_spawn_child_decides:
  "ctx_action ctx = ''run.spawn_child'' \<Longrightarrow> rule_run_spawn_child ctx \<noteq> None"
  by (simp add: rule_run_spawn_child_def Let_def)

lemma engine_spawn_child:
  assumes act: "ctx_action ctx = ''run.spawn_child''"
    and reg: "reg ''run.spawn_child'' = Some defn"
  shows "pd_decision (engine_check reg ctx) = Allow \<longleftrightarrow> spawn_child_ok ctx \<and> \<not> spaces_differ ctx"
proof (cases "spaces_differ ctx")
  case True
  then show ?thesis by (simp add: engine_check_cross_space)
next
  case False
  obtain d where d: "rule_run_spawn_child ctx = Some d"
    using rule_run_spawn_child_decides [OF act] by blast
  have "first_some builtin_rules ctx = Some d"
    using False d spawn_scope_rules [OF act]
    by (simp add: builtin_rules_def rule_space_boundary_None [symmetric])
  then have "engine_check reg ctx = d"
    using reg act by (simp add: engine_check_registered)
  then show ?thesis
    using rule_run_spawn_child_allow [OF act] d False by auto
qed

text \<open>
  For an origin-gated write only the space boundary, the agent's status and the managed system
  action rule can speak before the origin rule.
\<close>

definition managed_action_request :: "jsobj \<Rightarrow> bool" where
  "managed_action_request ctx \<longleftrightarrow>
     get_prop ctx ''surface'' = JStr ''managed_run_system_action_gateway'' \<and>
     js_str (get_prop ctx ''action_id'') \<in> set requestable_system_actions"

lemma rule_managed_None: "\<not> managed_action_request ctx \<Longrightarrow> rule_managed_system_action_grant ctx = None"
  by (auto simp: rule_managed_system_action_grant_def managed_action_request_def Let_def)

lemma gated_scope_rules:
  assumes "ctx_action ctx \<in> set origin_gated_project_writes"
  shows "rule_memory_scope ctx = None"
    "rule_use_credential ctx = None" "rule_tool_permission ctx = None"
    "rule_project_folder_write_patch ctx = None" "rule_project_folder_direct_apply ctx = None"
    "rule_automation ctx = None" "rule_runtime_execute_risk_level ctx = None"
    "rule_run_spawn_child ctx = None" "rule_retrieval_tool_call ctx = None"
  using assms
  by (auto simp: origin_gated_project_writes_def automation_actions_def retrieval_tool_actions_def
      intro!: rule_scopes)

lemma engine_unattended_write:
  assumes gated: "ctx_action ctx \<in> set origin_gated_project_writes"
    and reg: "reg (ctx_action ctx) = Some defn"
    and origin: "get_prop ctx ''trigger_origin'' \<noteq> JStr ''manual''"
    and persona: "\<not> persona_write ctx"
    and managed: "\<not> managed_action_request ctx"
  shows "pd_decision (engine_check reg ctx) \<noteq> Allow"
proof -
  obtain d where d: "rule_unattended_project_write ctx = Some d"
    using rule_unattended_project_write_iff [OF gated] origin persona by blast
  then have dd: "pd_decision d = RequireApproval"
    by (rule rule_unattended_project_write_decision)
  have "\<exists>e. first_some builtin_rules ctx = Some e \<and> pd_decision e \<noteq> Allow"
    using gated_scope_rules [OF gated] rule_managed_None [OF managed] d dd
      rule_space_boundary_deny [of ctx] rule_agent_status_deny [of ctx]
    by (simp add: builtin_rules_def split: option.split)
  then show ?thesis
    using reg by (auto simp: engine_check_registered)
qed

text \<open>Automation administration: who may pass.\<close>

definition automation_ok :: "jsobj \<Rightarrow> bool" where
  "automation_ok ctx \<longleftrightarrow>
     (let role = (if js_str (get_prop ctx ''membership_role'') = [] then ''guest''
                  else js_str (get_prop ctx ''membership_role''));
          owner = (get_prop ctx ''actor_is_owner'' = JBool True);
          writer = (get_prop ctx ''project_writer'' = JBool True);
          project = (js_str (get_prop ctx ''project_id'') \<noteq> [])
      in role_rank role \<ge> 3
         \<or> (get_prop ctx ''target_type'' = JStr ''agent_run'' \<and> writer \<and> project)
         \<or> (get_prop ctx ''target_type'' = JStr ''autonomous_tick'' \<and> owner \<and> role_rank role \<ge> 1)
         \<or> (get_prop ctx ''target_type'' = JStr ''information_digest'' \<and> owner
            \<and> role_rank role \<ge> 1 \<and> (project \<longrightarrow> writer)))"

lemma rule_automation_allow:
  assumes "ctx_action ctx \<in> set automation_actions"
  shows "(\<exists>d. rule_automation ctx = Some d \<and> pd_decision d = Allow) \<longleftrightarrow> automation_ok ctx"
  using assms
  by (auto simp: rule_automation_def automation_ok_def Let_def has_role_at_least_def
      role_rank_canonical is_true_def)

lemma rule_automation_decides:
  "ctx_action ctx \<in> set automation_actions \<Longrightarrow> rule_automation ctx \<noteq> None"
  by (simp add: rule_automation_def Let_def)

lemma automation_scope_rules:
  assumes "ctx_action ctx \<in> set automation_actions"
  shows "rule_agent_status ctx = None" "rule_memory_scope ctx = None"
    "rule_use_credential ctx = None" "rule_tool_permission ctx = None"
    "rule_project_folder_write_patch ctx = None" "rule_project_folder_direct_apply ctx = None"
  using assms
  by (auto simp: automation_actions_def starts_with_def intro!: rule_scopes)

lemma engine_automation:
  assumes act: "ctx_action ctx \<in> set automation_actions"
    and reg: "reg (ctx_action ctx) = Some defn"
  shows "pd_decision (engine_check reg ctx) = Allow \<longleftrightarrow> automation_ok ctx \<and> \<not> spaces_differ ctx"
proof (cases "spaces_differ ctx")
  case True
  then show ?thesis by (simp add: engine_check_cross_space)
next
  case False
  obtain d where d: "rule_automation ctx = Some d"
    using rule_automation_decides [OF act] by blast
  have "first_some builtin_rules ctx = Some d"
    using False d automation_scope_rules [OF act]
    by (simp add: builtin_rules_def rule_space_boundary_None [symmetric])
  then have "engine_check reg ctx = d"
    using reg by (simp add: engine_check_registered)
  then show ?thesis
    using rule_automation_allow [OF act] d False by auto
qed

end
