(* ===== verification/PolicySanitizer.thy ===== *)
theory PolicySanitizer
  imports Prelude
begin

text \<open>
  The audit metadata sanitizer, \<open>server/src/modules/policy/sanitizer.ts\<close>. The mutable key
  budget is threaded through the traversal; the recursion follows the value, so it always ends.
  The \<open>catch\<close> branch of \<open>sanitizePolicyMetadata\<close> has no counterpart: on parsed JSON nothing in
  the traversal throws.
\<close>

definition dangerous_keys :: "string list" where
  "dangerous_keys =
     [''password'', ''token'', ''api_key'', ''api-key'', ''cookie'', ''secret'', ''credential'',
      ''personal_context_block'', ''raw_memory'', ''memory_content'', ''prompt'',
      ''rendered_context'', ''stdout'', ''stderr'', ''patch'', ''diff'', ''file_content'']"

definition max_depth :: nat where "max_depth = 4"
definition max_keys :: nat where "max_keys = 32"
definition max_str_len :: nat where "max_str_len = 512"
definition max_total_keys :: nat where "max_total_keys = 128"
definition redacted :: string where "redacted = ''[REDACTED]''"

definition is_dangerous_key :: "string \<Rightarrow> bool" where
  "is_dangerous_key key = list_ex (\<lambda>dk. str_includes dk (js_lower key)) dangerous_keys"

text \<open>
  The second component of each result is the remaining budget. \<open>sanitize_entries\<close> is the loop
  over \<open>Object.entries\<close>, \<open>sanitize_items\<close> the \<open>map\<close> over an array.
\<close>

fun sanitize_value :: "jsval \<Rightarrow> nat \<Rightarrow> nat \<Rightarrow> jsval \<times> nat"
and sanitize_entries :: "jsobj \<Rightarrow> nat \<Rightarrow> nat \<Rightarrow> jsobj \<times> nat"
and sanitize_items :: "jsval list \<Rightarrow> nat \<Rightarrow> nat \<Rightarrow> nat \<Rightarrow> jsval list \<times> nat" where
  "sanitize_value v depth remaining =
     (if depth > max_depth then (JStr redacted, remaining)
      else if remaining = 0 then (JStr redacted, remaining)
      else (case v of
              JObj kvs \<Rightarrow> (let (out, r) = sanitize_entries kvs depth remaining in (JObj out, r))
            | JArr xs \<Rightarrow> (let (out, r) = sanitize_items xs max_keys depth remaining in (JArr out, r))
            | JStr s \<Rightarrow> (JStr (if length s > max_str_len then take max_str_len s else s), remaining)
            | _ \<Rightarrow> (v, remaining)))"
| "sanitize_entries [] depth remaining = ([], remaining)"
| "sanitize_entries ((k, v) # kvs) depth remaining =
     (if remaining = 0 then ([], remaining)
      else let (w, r) = (if is_dangerous_key k then (JStr redacted, remaining - 1)
                         else sanitize_value v (Suc depth) (remaining - 1));
               (rest, r') = sanitize_entries kvs depth r
           in ((k, w) # rest, r'))"
| "sanitize_items [] n depth remaining = ([], remaining)"
| "sanitize_items (x # xs) 0 depth remaining = ([], remaining)"
| "sanitize_items (x # xs) (Suc n) depth remaining =
     (let (y, r) = sanitize_value x (Suc depth) remaining;
          (ys, r') = sanitize_items xs n depth r
      in (y # ys, r'))"

declare sanitize_value.simps [simp del]

definition sanitize_policy_metadata :: "jsobj option \<Rightarrow> jsval" where
  "sanitize_policy_metadata data =
     (case data of None \<Rightarrow> JNull | Some kvs \<Rightarrow> fst (sanitize_value (JObj kvs) 0 max_total_keys))"

lemma sanitize_value_cut:
  "max_depth < depth \<or> b = 0 \<Longrightarrow> sanitize_value v depth b = (JStr redacted, b)"
  by (auto simp: sanitize_value.simps)

lemma sanitize_value_open:
  assumes "\<not> (max_depth < depth \<or> b = 0)"
  shows "sanitize_value (JObj kvs) depth b = apfst JObj (sanitize_entries kvs depth b)"
    "sanitize_value (JArr xs) depth b = apfst JArr (sanitize_items xs max_keys depth b)"
    "sanitize_value (JStr s) depth b = (JStr (take max_str_len s), b)"
    "sanitize_value JUndef depth b = (JUndef, b)" "sanitize_value JNull depth b = (JNull, b)"
    "sanitize_value (JBool x) depth b = (JBool x, b)"
    "sanitize_value (JNum n) depth b = (JNum n, b)"
  using assms by (simp_all add: sanitize_value.simps apfst_def map_prod_def split: prod.split)

section \<open>Idempotence\<close>

lemma redacted_fixed: "take max_str_len redacted = redacted" "length redacted \<le> max_str_len"
  by (simp_all add: redacted_def max_str_len_def)

lemma sanitize_idempotent:
  "sanitize_value (fst (sanitize_value v depth b)) depth b = sanitize_value v depth b"
  "sanitize_entries (fst (sanitize_entries kvs depth b)) depth b = sanitize_entries kvs depth b"
  "sanitize_items (fst (sanitize_items xs n depth b)) n depth b = sanitize_items xs n depth b"
proof (induction v depth b and kvs depth b and xs n depth b
    rule: sanitize_value_sanitize_entries_sanitize_items.induct)
  case (1 v depth b)
  show ?case
  proof (cases "max_depth < depth \<or> b = 0")
    case True
    then show ?thesis by (simp add: sanitize_value_cut)
  next
    case False
    with "1.IH" show ?thesis
      by (cases v) (simp_all add: sanitize_value_open)
  qed
next
  case (3 k v kvs depth b)
  show ?case
  proof (cases "b = 0 \<or> is_dangerous_key k")
    case True
    with "3.IH"(2) show ?thesis by (cases "b = 0") (auto split: prod.splits)
  next
    case False
    obtain w r where w: "sanitize_value v (Suc depth) (b - 1) = (w, r)" by fastforce
    have "sanitize_value w (Suc depth) (b - 1) = (w, r)"
      using "3.IH"(1) False w by simp
    moreover have "sanitize_entries (fst (sanitize_entries kvs depth r)) depth r
                   = sanitize_entries kvs depth r"
      using "3.IH"(2) False w by simp
    ultimately show ?thesis using False w by (auto split: prod.splits)
  qed
next
  case (6 x xs n depth b)
  obtain y r where y: "sanitize_value x (Suc depth) b = (y, r)" by fastforce
  then have "sanitize_value y (Suc depth) b = (y, r)"
    using "6.IH"(1) by simp
  moreover have "sanitize_items (fst (sanitize_items xs n depth r)) n depth r
                 = sanitize_items xs n depth r"
    using "6.IH"(2) y by simp
  ultimately show ?case using y by (auto split: prod.splits)
qed simp_all

section \<open>Bounds on what is persisted\<close>

text \<open>Keys at any level, and nesting of arrays and objects.\<close>

fun key_count :: "jsval \<Rightarrow> nat" where
  "key_count (JObj kvs) = sum_list (map (\<lambda>kv. Suc (key_count (snd kv))) kvs)"
| "key_count (JArr xs) = sum_list (map key_count xs)"
| "key_count _ = 0"

fun nesting :: "jsval \<Rightarrow> nat" where
  "nesting (JObj kvs) = Suc (foldr (\<lambda>kv n. max (nesting (snd kv)) n) kvs 0)"
| "nesting (JArr xs) = Suc (foldr (\<lambda>x n. max (nesting x) n) xs 0)"
| "nesting _ = 0"

text \<open>Every dangerous key redacted, every string and array cut, at every level.\<close>

fun clean :: "jsval \<Rightarrow> bool" where
  "clean (JObj kvs) =
     (\<forall>kv\<in>set kvs. clean (snd kv) \<and> (is_dangerous_key (fst kv) \<longrightarrow> snd kv = JStr redacted))"
| "clean (JArr xs) = (length xs \<le> max_keys \<and> (\<forall>x\<in>set xs. clean x))"
| "clean (JStr s) = (length s \<le> max_str_len)"
| "clean _ = True"

lemma clean_redacted [simp]: "clean (JStr redacted)"
  using redacted_fixed by simp

lemma sanitize_key_count:
  "sanitize_value v depth b = (v', b') \<Longrightarrow> key_count v' + b' \<le> b"
  "sanitize_entries kvs depth b = (kvs', b') \<Longrightarrow> key_count (JObj kvs') + b' \<le> b"
  "sanitize_items xs n depth b = (xs', b') \<Longrightarrow> key_count (JArr xs') + b' \<le> b"
proof (induction v depth b and kvs depth b and xs n depth b
    arbitrary: v' b' and kvs' b' and xs' b'
    rule: sanitize_value_sanitize_entries_sanitize_items.induct)
  case (1 v depth b)
  show ?case
  proof (cases "max_depth < depth \<or> b = 0")
    case True
    with "1.prems" show ?thesis by (auto simp: sanitize_value_cut)
  next
    case False
    with "1.prems" "1.IH" show ?thesis
      by (cases v) (auto simp: sanitize_value_open apfst_def map_prod_def split: prod.splits)
  qed
next
  case (3 k v kvs depth b)
  then show ?case by (fastforce split: if_splits prod.splits)
next
  case (6 x xs n depth b)
  then show ?case by (fastforce split: prod.splits)
qed auto

lemma sanitize_clean:
  "clean (fst (sanitize_value v depth b))"
  "clean (JObj (fst (sanitize_entries kvs depth b)))"
  "(\<forall>x\<in>set (fst (sanitize_items xs n depth b)). clean x) \<and>
     length (fst (sanitize_items xs n depth b)) \<le> n"
proof (induction v depth b and kvs depth b and xs n depth b
    rule: sanitize_value_sanitize_entries_sanitize_items.induct)
  case (1 v depth b)
  show ?case
  proof (cases "max_depth < depth \<or> b = 0")
    case True
    then show ?thesis by (simp add: sanitize_value_cut redacted_fixed)
  next
    case False
    with "1.IH" show ?thesis
      by (cases v) (auto simp: sanitize_value_open apfst_def map_prod_def split: prod.splits)
  qed
next
  case (3 k v kvs depth b)
  then show ?case using redacted_fixed(2) by (auto split: if_splits prod.splits)
next
  case (6 x xs n depth b)
  then show ?case by (auto split: prod.splits)
qed auto

lemma sanitize_nesting:
  "nesting (fst (sanitize_value v depth b)) \<le> Suc max_depth - depth"
  "depth \<le> max_depth \<Longrightarrow>
     foldr (\<lambda>kv n. max (nesting (snd kv)) n) (fst (sanitize_entries kvs depth b)) 0 \<le> max_depth - depth"
  "depth \<le> max_depth \<Longrightarrow>
     foldr (\<lambda>x n. max (nesting x) n) (fst (sanitize_items xs n depth b)) 0 \<le> max_depth - depth"
proof (induction v depth b and kvs depth b and xs n depth b
    rule: sanitize_value_sanitize_entries_sanitize_items.induct)
  case (1 v depth b)
  show ?case
  proof (cases "max_depth < depth \<or> b = 0")
    case True
    then show ?thesis by (simp add: sanitize_value_cut)
  next
    case False
    with "1.IH" show ?thesis
      by (cases v) (auto simp: sanitize_value_open apfst_def map_prod_def Suc_diff_le
          split: prod.splits)
  qed
next
  case (3 k v kvs depth b)
  then show ?case by (auto split: if_splits prod.splits)
next
  case (6 x xs n depth b)
  then show ?case by (auto split: prod.splits)
qed auto

lemma sanitize_metadata_object:
  "\<exists>out. sanitize_policy_metadata (Some kvs) = JObj out"
  by (auto simp: sanitize_policy_metadata_def sanitize_value.simps max_depth_def
      max_total_keys_def split: prod.splits)

end
