(* ===== verification/PolicyGateway.thy ===== *)
theory PolicyGateway
  imports PolicyEngine PolicySanitizer
begin

text \<open>
  The policy gateway, \<open>server/src/modules/policy/gateway.ts\<close>: assembly of the guard and engine
  contexts from a request, the durable-audit requirement and its failure mode, the audit envelope,
  the decision for a request, and the proposal-apply gate.
\<close>

section \<open>Requests and their contexts\<close>

text \<open>\<open>PolicyCheckRequest\<close>, after validation: \<open>null\<close> and absent optional fields are \<open>None\<close>.\<close>

record policy_check_request =
  rq_action :: string
  rq_actor_type :: "string option"
  rq_actor_id :: "string option"
  rq_actor_ref :: "jsobj option"
  rq_space_id :: "string option"
  rq_resource_type :: "string option"
  rq_resource_id :: "string option"
  rq_resource_space_id :: "string option"
  rq_run_id :: "string option"
  rq_proposal_id :: "string option"
  rq_context :: "jsobj option"
  rq_payload :: "jsobj option"
  rq_metadata_json :: "jsobj option"
  rq_force_record :: bool

text \<open>Fields are added one after the other, so the context bag, assigned last, wins.\<close>

definition build_engine_ctx :: "policy_check_request \<Rightarrow> jsobj" where
  "build_engine_ctx req =
     (let ctx = [(''action'', JStr (rq_action req))];
          ctx = set_if_truthy ''space_id'' (js_opt (rq_space_id req)) ctx;
          ctx = set_if_truthy ''resource_space_id'' (js_opt (rq_resource_space_id req)) ctx;
          ctx = set_if_truthy ''actor_type'' (js_opt (rq_actor_type req)) ctx;
          ctx = set_if_truthy ''actor_id'' (js_opt (rq_actor_id req)) ctx;
          ctx = set_if_truthy ''actor_ref'' (js_opt_obj (rq_actor_ref req)) ctx;
          ctx = set_if_truthy ''resource_type'' (js_opt (rq_resource_type req)) ctx;
          ctx = set_if_truthy ''resource_id'' (js_opt (rq_resource_id req)) ctx;
          ctx = set_if_truthy ''proposal_id'' (js_opt (rq_proposal_id req)) ctx
      in (case rq_context req of None \<Rightarrow> ctx | Some c \<Rightarrow> js_assign ctx c))"

definition build_guard_ctx :: "policy_check_request \<Rightarrow> jsobj" where
  "build_guard_ctx req =
     (let ctx = [(''action'', JStr (rq_action req))];
          ctx = set_if_truthy ''space_id'' (js_opt (rq_space_id req)) ctx;
          ctx = set_if_truthy ''resource_space_id'' (js_opt (rq_resource_space_id req)) ctx;
          ctx = set_if_truthy ''metadata_json'' (js_opt_obj (rq_metadata_json req)) ctx;
          ctx = set_if_truthy ''payload'' (js_opt_obj (rq_payload req)) ctx
      in (case rq_context req of
            None \<Rightarrow> ctx
          | Some c \<Rightarrow> set_prop ''context'' (JObj c) (js_assign ctx c)))"

definition trigger_origin :: "policy_check_request \<Rightarrow> string" where
  "trigger_origin req =
     (case rq_context req of None \<Rightarrow> [] | Some c \<Rightarrow> js_str (get_prop c ''trigger_origin''))"

section \<open>Durable audit\<close>

definition unattended_origin :: "string \<Rightarrow> bool" where
  "unattended_origin org \<longleftrightarrow> org = ''automation'' \<or> org = ''autonomous''"

definition is_durable_audit_required ::
    "action_definition option \<Rightarrow> policy_decision \<Rightarrow> policy_check_request \<Rightarrow> bool" where
  "is_durable_audit_required defn d req =
     (if rq_force_record req then True
      else if (case defn of None \<Rightarrow> False | Some df \<Rightarrow> ad_audit_required df) then True
      else if (case defn of None \<Rightarrow> False | Some df \<Rightarrow> ad_record_failure_mode df = FailClosed) then True
      else if pd_decision d = Deny \<or> pd_decision d = RequireApproval then True
      else if pd_risk_level d = Critical then True
      else if unattended_origin (trigger_origin req) then True
      else False)"

definition resolve_failure_mode ::
    "action_definition option \<Rightarrow> policy_decision \<Rightarrow> policy_check_request \<Rightarrow> failure_mode" where
  "resolve_failure_mode defn d req =
     (let audit_required = (case defn of None \<Rightarrow> False | Some df \<Rightarrow> ad_audit_required df);
          org = trigger_origin req
      in if rq_force_record req then FailClosed
         else if (case defn of None \<Rightarrow> False | Some df \<Rightarrow> ad_record_failure_mode df = FailClosed)
         then FailClosed
         else if audit_required \<and> unattended_origin org then FailClosed
         else if audit_required \<and> pd_risk_level d = Critical then FailClosed
         else if pd_decision d \<noteq> Allow \<and> unattended_origin org then FailClosed
         else if pd_decision d \<noteq> Allow \<and> pd_risk_level d = Critical then FailClosed
         else BestEffort)"

record audit_envelope =
  ae_space_id :: jsval
  ae_actor_type :: jsval
  ae_actor_id :: jsval
  ae_actor_ref_json :: jsval
  ae_action :: string
  ae_resource_type :: jsval
  ae_resource_id :: jsval
  ae_decision :: decision_value
  ae_risk_level :: risk_level
  ae_required_approver_role :: jsval
  ae_approval_capability :: jsval
  ae_policy_rule_id :: jsval
  ae_policy_source :: string
  ae_policy_id :: jsval
  ae_audit_code :: jsval
  ae_run_id :: jsval
  ae_proposal_id :: jsval
  ae_metadata_json :: jsval
  ae_created_at :: string

text \<open>\<open>a ?? b ?? null\<close>, where \<open>a\<close> is an optional field of the request.\<close>

definition or_null :: "jsval \<Rightarrow> jsval" where
  "or_null v = coalesce v JNull"

definition build_audit_envelope ::
    "policy_check_request \<Rightarrow> policy_decision \<Rightarrow> action_definition option \<Rightarrow> string \<Rightarrow> audit_envelope"
where
  "build_audit_envelope req d defn now_iso =
     (let resource_type =
            coalesce (js_opt (rq_resource_type req))
              (coalesce (js_opt (map_option ad_resource_type defn)) (or_null (pd_resource_type d)));
          proposal_id =
            (if rq_proposal_id req = None \<and> js_eq resource_type (JStr ''proposal'')
             then coalesce (js_opt (rq_resource_id req)) (or_null (pd_resource_id d))
             else js_opt (rq_proposal_id req))
      in \<lparr>ae_space_id = coalesce (js_opt (rq_space_id req)) (or_null (pd_space_id d)),
          ae_actor_type = coalesce (js_opt (rq_actor_type req)) (or_null (pd_actor_type d)),
          ae_actor_id = coalesce (js_opt (rq_actor_id req)) (or_null (pd_actor_id d)),
          ae_actor_ref_json = coalesce (js_opt_obj (rq_actor_ref req)) (or_null (pd_actor_ref d)),
          ae_action = rq_action req,
          ae_resource_type = resource_type,
          ae_resource_id = coalesce (js_opt (rq_resource_id req)) (or_null (pd_resource_id d)),
          ae_decision = pd_decision d,
          ae_risk_level = pd_risk_level d,
          ae_required_approver_role = or_null (pd_required_approver_role d),
          ae_approval_capability = or_null (pd_approval_capability d),
          ae_policy_rule_id = or_null (pd_policy_rule_id d),
          ae_policy_source = pd_policy_source d,
          ae_policy_id = or_null (pd_policy_id d),
          ae_audit_code = or_null (pd_audit_code d),
          ae_run_id = js_opt (rq_run_id req),
          ae_proposal_id = proposal_id,
          ae_metadata_json = sanitize_policy_metadata (rq_metadata_json req),
          ae_created_at = now_iso\<rparr>)"

section \<open>The decision for a request\<close>

definition unknown_action_decision :: "policy_check_request \<Rightarrow> policy_decision" where
  "unknown_action_decision req =
     (rule_decision Deny High ''unknown_policy_action'' ''unknown_action_deny''
        ''unknown_policy_action'')
       \<lparr>pd_action := JStr (rq_action req), pd_space_id := js_opt (rq_space_id req),
        pd_actor_type := js_opt (rq_actor_type req), pd_actor_id := js_opt (rq_actor_id req),
        pd_actor_ref := js_opt_obj (rq_actor_ref req),
        pd_resource_type := js_opt (rq_resource_type req),
        pd_resource_id := js_opt (rq_resource_id req)\<rparr>"

text \<open>The two denials from the registry entry's lifecycle.\<close>

definition lifecycle_denial ::
    "string \<Rightarrow> string \<Rightarrow> action_definition \<Rightarrow> policy_check_request \<Rightarrow> policy_decision" where
  "lifecycle_denial reason rule_id defn req =
     (rule_decision Deny (ad_default_risk_level defn) reason rule_id reason)
       \<lparr>pd_policy_source := ''registry'', pd_action := JStr (rq_action req),
        pd_resource_type := JStr (ad_resource_type defn),
        pd_resource_id := js_opt (rq_resource_id req),
        pd_actor_type := js_opt (rq_actor_type req), pd_actor_id := js_opt (rq_actor_id req),
        pd_actor_ref := js_opt_obj (rq_actor_ref req), pd_space_id := js_opt (rq_space_id req),
        pd_required_approver_role := js_opt (ad_default_required_approver_role defn),
        pd_approval_capability := js_opt (ad_approval_capability defn)\<rparr>"

text \<open>Who asked, for a decision that does not say.\<close>

definition fill_requester :: "policy_check_request \<Rightarrow> policy_decision \<Rightarrow> policy_decision" where
  "fill_requester req d =
     d\<lparr>pd_actor_type := coalesce (pd_actor_type d) (js_opt (rq_actor_type req)),
       pd_actor_id := coalesce (pd_actor_id d) (js_opt (rq_actor_id req)),
       pd_actor_ref := coalesce (pd_actor_ref d) (js_opt_obj (rq_actor_ref req)),
       pd_space_id := coalesce (pd_space_id d) (js_opt (rq_space_id req)),
       pd_resource_id := coalesce (pd_resource_id d) (js_opt (rq_resource_id req))\<rparr>"

definition compute_decision ::
    "registry \<Rightarrow> policy_check_request \<Rightarrow> action_definition option \<times> policy_decision" where
  "compute_decision reg req =
     (case get_action_definition reg (rq_action req) of
        None \<Rightarrow> (None, unknown_action_decision req)
      | Some defn \<Rightarrow>
          (case ad_lifecycle_status defn of
             Reserved \<Rightarrow>
               (Some defn, lifecycle_denial ''policy_action_not_implemented''
                             ''action_not_implemented'' defn req)
           | WiredViaProposal \<Rightarrow>
               (Some defn, lifecycle_denial ''policy_action_via_proposal_only''
                             ''action_via_proposal_only'' defn req)
           | WiredDirect \<Rightarrow>
               (case check_hard_invariants (build_guard_ctx req) of
                  Some denial \<Rightarrow>
                    (Some defn,
                     (fill_requester req denial)
                       \<lparr>pd_resource_type :=
                          coalesce (pd_resource_type denial) (JStr (ad_resource_type defn))\<rparr>)
                | None \<Rightarrow>
                    (let d = engine_check reg (build_engine_ctx req)
                     in (Some defn,
                         (fill_requester req d)
                           \<lparr>pd_resource_type :=
                              coalesce (pd_resource_type d) (JStr (ad_resource_type defn))\<rparr>)))))"

lemma fill_requester_decision [simp]:
  "pd_decision (fill_requester req d) = pd_decision d"
  "pd_risk_level (fill_requester req d) = pd_risk_level d"
  "pd_policy_source (fill_requester req d) = pd_policy_source d"
  "pd_reason_code (fill_requester req d) = pd_reason_code d"
  by (simp_all add: fill_requester_def)

lemma lifecycle_denial_decision [simp]: "pd_decision (lifecycle_denial r i defn req) = Deny"
  by (simp add: lifecycle_denial_def)

lemma unknown_action_decision_decision [simp]: "pd_decision (unknown_action_decision req) = Deny"
  by (simp add: unknown_action_decision_def)

section \<open>The proposal-apply gate\<close>

definition proposal_type_risk :: "(string \<times> risk_level) list" where
  "proposal_type_risk =
     [(''project_information_monitoring_details'', Low),
      (''project_information_monitoring_activation'', Medium),
      (''memory_create'', Medium), (''memory_update'', Medium), (''memory_archive'', Medium),
      (''follow_up_task'', Medium), (''plan_review'', Medium), (''plan_checkpoint'', Medium),
      (''code_patch'', High), (''egress_review'', High), (''agent_config_update'', High),
      (''prompt_update'', Medium),
      (''knowledge_create'', Medium), (''knowledge_update'', Medium), (''knowledge_archive'', Medium),
      (''claim_create'', Medium), (''claim_update'', Medium), (''claim_archive'', Medium),
      (''object_relation_create'', Medium), (''object_relation_delete'', Medium),
      (''object_profile_create'', High), (''object_profile_update'', High),
      (''object_profile_deprecate'', High), (''object_profile_archive'', High),
      (''claim_candidate_packet'', Medium), (''imported_history_memory_packet'', Medium),
      (''memory_maintenance_packet'', Medium), (''retrieval_diagnostics_packet'', Medium),
      (''retrieval_maintenance_packet'', Medium), (''relation_discovery_packet'', Medium),
      (''skill_import_approve'', Medium), (''runtime_skill_binding_update'', High),
      (''custom_source_policy_delta'', Medium), (''custom_source_credentialed_source'', High),
      (''custom_source_repair_activation'', Medium), (''source_recipe_activation'', Medium),
      (''evolution_bundle_rollback'', High)]"

definition supported_proposal_types :: "string list" where
  "supported_proposal_types = map fst proposal_type_risk"

text \<open>\<open>ProposalRiskLevelError\<close>\<close>

datatype proposal_error = ProposalRiskLevelError string

definition parse_proposal_risk :: "string option \<Rightarrow> proposal_error + risk_level option" where
  "parse_proposal_risk risk_str =
     (case risk_str of
        None \<Rightarrow> Inr None
      | Some s \<Rightarrow>
          if s = [] then Inr None
          else (case risk_of_string s of Some r \<Rightarrow> Inr (Some r) | None \<Rightarrow> Inl (ProposalRiskLevelError s)))"

definition default_type_risk :: "string \<Rightarrow> risk_level" where
  "default_type_risk proposal_type =
     (case map_of proposal_type_risk proposal_type of None \<Rightarrow> High | Some r \<Rightarrow> r)"

definition higher_risk :: "risk_level \<Rightarrow> risk_level \<Rightarrow> risk_level" where
  "higher_risk type_default declared =
     (if risk_rank declared > risk_rank type_default then declared else type_default)"

definition effective_proposal_risk :: "string \<Rightarrow> string option \<Rightarrow> proposal_error + risk_level" where
  "effective_proposal_risk proposal_type declared_str =
     (case parse_proposal_risk declared_str of
        Inl e \<Rightarrow> Inl e
      | Inr None \<Rightarrow> Inr (default_type_risk proposal_type)
      | Inr (Some declared) \<Rightarrow> Inr (higher_risk (default_type_risk proposal_type) declared))"

record proposal_apply_input =
  pa_user_id :: string
  pa_space_id :: string
  pa_proposal_id :: string
  pa_proposal_type :: string
  pa_declared_risk :: "string option"
  pa_required_approver_role :: "string option"
  pa_proposal_payload :: "jsobj option"
  pa_metadata_json :: "jsobj option"

definition normalize_required_approver_role :: "string option \<Rightarrow> string option" where
  "normalize_required_approver_role role =
     (case role of
        None \<Rightarrow> None
      | Some r \<Rightarrow>
          if r = [] then None
          else if r = ''owner'' \<or> r = ''admin'' \<or> r = ''reviewer'' then Some r
          else Some ''owner'')"

text \<open>The gate's own \<open>roleRank\<close>: exact role names, no normalization.\<close>

definition approver_rank :: "string \<Rightarrow> nat" where
  "approver_rank role =
     (if role = ''owner'' then 3 else if role = ''admin'' then 2
      else if role = ''reviewer'' then 1 else 0)"

definition role_satisfies_required_approver :: "string \<Rightarrow> string \<Rightarrow> bool" where
  "role_satisfies_required_approver actor_role required \<longleftrightarrow>
     approver_rank actor_role \<ge> approver_rank required"

definition risk_string :: "risk_level \<Rightarrow> string" where
  "risk_string r = (case r of Low \<Rightarrow> ''low'' | Medium \<Rightarrow> ''medium'' | High \<Rightarrow> ''high''
                              | Critical \<Rightarrow> ''critical'')"

definition proposal_meta :: "proposal_apply_input \<Rightarrow> risk_level \<Rightarrow> string option \<Rightarrow> jsobj" where
  "proposal_meta inp risk membership_role =
     [(''proposal_type'', JStr (pa_proposal_type inp)),
      (''membership_role'', js_opt membership_role),
      (''effective_risk'', JStr (risk_string risk)),
      (''proposal_declared_risk'', js_opt (pa_declared_risk inp)),
      (''proposal_required_approver_role'', js_opt (pa_required_approver_role inp)),
      (''default_type_risk'', JStr (risk_string (default_type_risk (pa_proposal_type inp)))),
      (''supported_apply_type'', JBool True)]"

text \<open>The fields every answer of the gate carries.\<close>

definition proposal_decision ::
    "proposal_apply_input \<Rightarrow> decision_value \<Rightarrow> risk_level \<Rightarrow> string \<Rightarrow> string \<Rightarrow> policy_decision" where
  "proposal_decision inp d risk reason rule_id =
     (rule_decision d risk reason rule_id reason)
       \<lparr>pd_action := JStr ''proposal.apply'', pd_resource_type := JStr ''proposal'',
        pd_resource_id := JStr (pa_proposal_id inp), pd_proposal_type := JStr (pa_proposal_type inp),
        pd_approval_capability := JStr ''approve_proposal'', pd_space_id := JStr (pa_space_id inp),
        pd_actor_id := JStr (pa_user_id inp), pd_actor_type := JStr ''user''\<rparr>"

definition approve_proposal ::
    "proposal_apply_input \<Rightarrow> risk_level \<Rightarrow> string \<Rightarrow> string \<Rightarrow> string \<Rightarrow> string option \<Rightarrow> policy_decision"
where
  "approve_proposal inp risk role audit_code rule_id required =
     (proposal_decision inp Allow risk audit_code rule_id)
       \<lparr>pd_required_approver_role := js_opt required,
        pd_metadata_json := JObj (proposal_meta inp risk (Some role))\<rparr>"

definition check_proposal_apply_policy ::
    "proposal_apply_input \<Rightarrow> string option \<Rightarrow> (string \<Rightarrow> bool) \<Rightarrow> proposal_error + policy_decision" where
  "check_proposal_apply_policy inp role supported =
     (if \<not> supported (pa_proposal_type inp)
      then Inr ((proposal_decision inp Deny High ''unsupported_proposal_type''
                   ''proposal_type_not_supported'')
                  \<lparr>pd_metadata_json := JObj [(''proposal_type'', JStr (pa_proposal_type inp)),
                                            (''supported_apply_type'', JBool False)]\<rparr>)
      else (case effective_proposal_risk (pa_proposal_type inp) (pa_declared_risk inp) of
              Inl e \<Rightarrow> Inl e
            | Inr risk \<Rightarrow>
                (let required = normalize_required_approver_role (pa_required_approver_role inp);
                     blocked = (\<lambda>reason rule_id r.
                       Inr ((proposal_decision inp RequireApproval risk reason rule_id)
                              \<lparr>pd_required_approver_role := js_opt required,
                               pd_metadata_json := JObj (proposal_meta inp risk r)\<rparr>))
                 in (case role of
                       None \<Rightarrow> blocked ''no_membership'' ''proposal_apply_no_membership'' None
                     | Some r \<Rightarrow>
                         if (case required of None \<Rightarrow> False
                             | Some q \<Rightarrow> \<not> role_satisfies_required_approver r q)
                         then blocked ''insufficient_required_approver_role''
                                ''proposal_apply_required_role'' role
                         else if r = ''owner''
                         then Inr (approve_proposal inp risk ''owner'' ''approved_owner''
                                     ''proposal_apply_owner_allow'' required)
                         else if r = ''admin'' \<and> role_may_approve_risk role risk
                         then Inr (approve_proposal inp risk ''admin'' ''approved_admin''
                                     ''proposal_apply_admin_allow'' required)
                         else if r = ''reviewer'' \<and> role_may_approve_risk role risk
                         then Inr (approve_proposal inp risk ''reviewer'' ''approved_reviewer''
                                     ''proposal_apply_reviewer_allow'' required)
                         else blocked ''insufficient_role'' ''proposal_apply_insufficient_role'' role))))"

section \<open>What the proposal gate promises\<close>

interpretation raised: rank_choice risk_rank higher_risk
  by unfold_locales (auto simp: higher_risk_def intro: risk_rank_inj)

text \<open>The declared risk can raise the risk of a proposal's type, never lower it.\<close>

lemma effective_risk_ge:
  "effective_proposal_risk t declared = Inr r \<Longrightarrow> risk_rank (default_type_risk t) \<le> risk_rank r"
  by (auto simp: effective_proposal_risk_def raised.pick_left split: sum.splits option.splits)

lemma parse_proposal_risk_valid:
  "risk_of_string s = Some q \<Longrightarrow> parse_proposal_risk (Some s) = Inr (Some q)"
  by (cases s) (simp_all add: parse_proposal_risk_def risk_of_string_def)

lemma effective_risk_value:
  "risk_of_string s = Some q \<Longrightarrow>
   effective_proposal_risk t (Some s) = Inr (higher_risk (default_type_risk t) q)"
  by (simp add: effective_proposal_risk_def parse_proposal_risk_valid)

text \<open>The required approver of a proposal, when it names one.\<close>

definition required_role_met :: "string option \<Rightarrow> string \<Rightarrow> bool" where
  "required_role_met required r \<longleftrightarrow>
     (case normalize_required_approver_role required of
        None \<Rightarrow> True
      | Some q \<Rightarrow> approver_rank q \<le> approver_rank r)"

lemma approve_proposal_decision [simp]:
  "pd_decision (approve_proposal inp risk r c i q) = Allow"
  "pd_decision (proposal_decision inp dv risk c i) = dv"
  by (simp_all add: approve_proposal_def proposal_decision_def)

lemma owner_may_approve: "role_may_approve_risk (Some ''owner'') risk"
  using risk_rank_le3 [of risk] by (simp add: role_may_approve_risk_def approver_max_risk_def)

lemma role_may_approve_named:
  "role_may_approve_risk (Some r) risk \<Longrightarrow> r = ''owner'' \<or> r = ''admin'' \<or> r = ''reviewer''"
  by (auto simp: role_may_approve_risk_def approver_max_risk_def split: if_splits)

lemma proposal_gate_unsupported:
  "\<not> supported (pa_proposal_type inp) \<Longrightarrow>
   \<exists>d. check_proposal_apply_policy inp role supported = Inr d \<and> pd_decision d = Deny"
  by (simp add: check_proposal_apply_policy_def)

lemma proposal_gate_error:
  "supported (pa_proposal_type inp) \<Longrightarrow>
   effective_proposal_risk (pa_proposal_type inp) (pa_declared_risk inp) = Inl e \<Longrightarrow>
   check_proposal_apply_policy inp role supported = Inl e"
  by (simp add: check_proposal_apply_policy_def)

lemma proposal_gate_value:
  assumes "supported (pa_proposal_type inp)"
    and "effective_proposal_risk (pa_proposal_type inp) (pa_declared_risk inp) = Inr risk"
  shows "\<exists>d. check_proposal_apply_policy inp role supported = Inr d \<and>
    pd_decision d =
      (case role of
         None \<Rightarrow> RequireApproval
       | Some r \<Rightarrow>
           if required_role_met (pa_required_approver_role inp) r \<and> role_may_approve_risk (Some r) risk
           then Allow else RequireApproval)"
proof (cases role)
  case None
  with assms show ?thesis by (simp add: check_proposal_apply_policy_def Let_def)
next
  case (Some r)
  have met: "(case normalize_required_approver_role (pa_required_approver_role inp) of
         None \<Rightarrow> False | Some q \<Rightarrow> \<not> role_satisfies_required_approver r q)
      \<longleftrightarrow> \<not> required_role_met (pa_required_approver_role inp) r"
    by (simp add: required_role_met_def role_satisfies_required_approver_def split: option.split)
  show ?thesis
    using assms Some owner_may_approve [of risk] role_may_approve_named [of r risk]
    by (auto simp: check_proposal_apply_policy_def Let_def met)
qed

lemma proposal_gate_allow_iff:
  "(\<exists>d. check_proposal_apply_policy inp role supported = Inr d \<and> pd_decision d = Allow) \<longleftrightarrow>
     supported (pa_proposal_type inp) \<and>
     (\<exists>r risk. role = Some r \<and>
        effective_proposal_risk (pa_proposal_type inp) (pa_declared_risk inp) = Inr risk \<and>
        required_role_met (pa_required_approver_role inp) r \<and> role_may_approve_risk (Some r) risk)"
proof (cases "supported (pa_proposal_type inp)")
  case False
  then show ?thesis using proposal_gate_unsupported [of supported inp role] by auto
next
  case True
  show ?thesis
  proof (cases "effective_proposal_risk (pa_proposal_type inp) (pa_declared_risk inp)")
    case (Inl e)
    with True show ?thesis by (simp add: proposal_gate_error)
  next
    case (Inr risk)
    with True proposal_gate_value [of supported inp risk role] show ?thesis
      by (auto split: option.splits if_splits)
  qed
qed

end
