(* ===== verification/PolicyService.thy ===== *)
theory PolicyService
  imports PolicyGateway
begin

text \<open>
  Policy enforcement, \<open>server/src/modules/policy/service.ts\<close>: the decision of \<open>PolicyGateway\<close>
  together with its durable audit. The database is outside the repository: an insert operation
  on a database state is an argument of the definitions, \<open>None\<close> for a statement that failed.
  \<open>audit_sink\<close> is what the service relies on; \<open>audit_table\<close> is the table of
  \<open>auditWriter.ts\<close>, on which it is interpreted.
\<close>

section \<open>Writing one audit row\<close>

type_synonym 'db audit_insert = "'db \<Rightarrow> audit_envelope \<Rightarrow> string option \<times> 'db"

text \<open>\<open>persistAudit\<close>: without a configured database the write throws.\<close>

definition persist_audit ::
    "'db audit_insert \<Rightarrow> bool \<Rightarrow> 'db \<Rightarrow> audit_envelope \<Rightarrow> string option \<times> 'db" where
  "persist_audit ins configured db env = (if configured then ins db env else (None, db))"

section \<open>Enforcement\<close>

datatype enforce_status = SAllow | SBlocked | SError

datatype enforce_error = PolicyDenied | PolicyRequiresApproval | PolicyAuditPersistFailed

record enforce_result =
  er_status :: enforce_status
  er_decision :: "policy_decision option"
  er_record_id :: "string option"
  er_error_code :: "enforce_error option"

definition blocked_error_code :: "policy_decision \<Rightarrow> enforce_error" where
  "blocked_error_code d = (if pd_decision d = Deny then PolicyDenied else PolicyRequiresApproval)"

definition allow_result :: "policy_decision \<Rightarrow> string option \<Rightarrow> enforce_result" where
  "allow_result d rid =
     \<lparr>er_status = SAllow, er_decision = Some d, er_record_id = rid, er_error_code = None\<rparr>"

definition blocked_result :: "policy_decision \<Rightarrow> string option \<Rightarrow> enforce_result" where
  "blocked_result d rid =
     \<lparr>er_status = SBlocked, er_decision = Some d, er_record_id = rid,
      er_error_code = Some (blocked_error_code d)\<rparr>"

definition audit_failed_result :: enforce_result where
  "audit_failed_result =
     \<lparr>er_status = SError, er_decision = None, er_record_id = None,
      er_error_code = Some PolicyAuditPersistFailed\<rparr>"

definition enforce ::
    "'db audit_insert \<Rightarrow> bool \<Rightarrow> registry \<Rightarrow> string \<Rightarrow> policy_check_request \<Rightarrow> 'db
     \<Rightarrow> enforce_result \<times> 'db" where
  "enforce ins configured reg now_iso req db =
     (let (defn, d) = compute_decision reg req
      in if pd_decision d = Deny \<or> pd_decision d = RequireApproval
         then (let (rid, db') = persist_audit ins configured db
                                  (build_audit_envelope req d defn now_iso)
               in (blocked_result d rid, db'))
         else if is_durable_audit_required defn d req
         then (case persist_audit ins configured db (build_audit_envelope req d defn now_iso) of
                 (Some rid, db') \<Rightarrow> (allow_result d (Some rid), db')
               | (None, db') \<Rightarrow>
                   (if resolve_failure_mode defn d req = FailClosed then (audit_failed_result, db')
                    else (allow_result d None, db')))
         else (allow_result d None, db))"

section \<open>The proposal-apply gate with its audit\<close>

text \<open>\<open>writeProposalAudit\<close>\<close>

definition proposal_audit_envelope ::
    "policy_decision \<Rightarrow> proposal_apply_input \<Rightarrow> string \<Rightarrow> audit_envelope" where
  "proposal_audit_envelope d inp now_iso =
     \<lparr>ae_space_id = JStr (pa_space_id inp), ae_actor_type = JStr ''user'',
      ae_actor_id = JStr (pa_user_id inp), ae_actor_ref_json = JNull,
      ae_action = ''proposal.apply'', ae_resource_type = JStr ''proposal'',
      ae_resource_id = JStr (pa_proposal_id inp), ae_decision = pd_decision d,
      ae_risk_level = pd_risk_level d,
      ae_required_approver_role = or_null (pd_required_approver_role d),
      ae_approval_capability = or_null (pd_approval_capability d),
      ae_policy_rule_id = or_null (pd_policy_rule_id d),
      ae_policy_source = pd_policy_source d, ae_policy_id = or_null (pd_policy_id d),
      ae_audit_code = or_null (pd_audit_code d), ae_run_id = JNull,
      ae_proposal_id = JStr (pa_proposal_id inp),
      ae_metadata_json = or_null (pd_metadata_json d), ae_created_at = now_iso\<rparr>"

definition proposal_guard_ctx :: "proposal_apply_input \<Rightarrow> jsobj" where
  "proposal_guard_ctx inp =
     [(''action'', JStr ''proposal.apply''), (''space_id'', JStr (pa_space_id inp)),
      (''payload'', JObj (case pa_proposal_payload inp of None \<Rightarrow> [] | Some p \<Rightarrow> p))]"

text \<open>\<open>{ ...(metadata ?? {}), ...more }\<close>\<close>

definition spread_metadata :: "jsobj option \<Rightarrow> jsobj \<Rightarrow> jsobj" where
  "spread_metadata md extra = js_assign (js_assign [] (case md of None \<Rightarrow> [] | Some m \<Rightarrow> m)) extra"

definition fill_proposal_denial :: "proposal_apply_input \<Rightarrow> policy_decision \<Rightarrow> policy_decision" where
  "fill_proposal_denial inp d =
     d\<lparr>pd_actor_type := coalesce (pd_actor_type d) (JStr ''user''),
       pd_actor_id := coalesce (pd_actor_id d) (JStr (pa_user_id inp)),
       pd_space_id := coalesce (pd_space_id d) (JStr (pa_space_id inp)),
       pd_resource_type := coalesce (pd_resource_type d) (JStr ''proposal''),
       pd_resource_id := coalesce (pd_resource_id d) (JStr (pa_proposal_id inp)),
       pd_proposal_type := coalesce (pd_proposal_type d) (JStr (pa_proposal_type inp)),
       pd_metadata_json := sanitize_policy_metadata
         (Some (spread_metadata (pa_metadata_json inp)
                  [(''proposal_type'', JStr (pa_proposal_type inp)),
                   (''decision_source'', JStr ''hard_invariant_guard'')]))\<rparr>"

definition with_checked_metadata :: "proposal_apply_input \<Rightarrow> policy_decision \<Rightarrow> policy_decision" where
  "with_checked_metadata inp d =
     d\<lparr>pd_metadata_json := sanitize_policy_metadata
         (Some (set_prop ''decision_source'' (JStr ''check_proposal_apply_policy'')
                  (spread_metadata (pa_metadata_json inp)
                     (case pd_metadata_json d of JObj m \<Rightarrow> m | _ \<Rightarrow> []))))\<rparr>"

definition enforce_proposal_apply ::
    "'db audit_insert \<Rightarrow> bool \<Rightarrow> string \<Rightarrow> proposal_apply_input \<Rightarrow> string option
     \<Rightarrow> (string \<Rightarrow> bool) \<Rightarrow> 'db \<Rightarrow> proposal_error + (enforce_result \<times> 'db)" where
  "enforce_proposal_apply ins configured now_iso inp role supported db =
     (let write = (\<lambda>d. persist_audit ins configured db (proposal_audit_envelope d inp now_iso))
      in (case check_hard_invariants (proposal_guard_ctx inp) of
            Some denial \<Rightarrow>
              (let d = fill_proposal_denial inp denial
               in Inr (blocked_result d None, snd (write d)))
          | None \<Rightarrow>
              (case check_proposal_apply_policy inp role supported of
                 Inl e \<Rightarrow> Inl e
               | Inr checked \<Rightarrow>
                   (let d = with_checked_metadata inp checked
                    in if pd_decision d \<noteq> Allow then Inr (blocked_result d None, snd (write d))
                       else (case write d of
                               (Some rid, db') \<Rightarrow> Inr (allow_result d None, db')
                             | (None, db') \<Rightarrow> Inr (audit_failed_result, db'))))))"

lemma result_fields [simp]:
  "er_status (allow_result d r) = SAllow" "er_status (blocked_result d r) = SBlocked"
  "er_status audit_failed_result = SError" "er_decision (allow_result d r) = Some d"
  "er_decision (blocked_result d r) = Some d" "er_record_id (allow_result d r) = r"
  by (simp_all add: allow_result_def blocked_result_def audit_failed_result_def)

lemma with_checked_metadata_decision [simp]:
  "pd_decision (with_checked_metadata inp d) = pd_decision d"
  by (simp add: with_checked_metadata_def)

section \<open>What the service relies on\<close>

text \<open>
  One INSERT statement either adds exactly its row and returns an id, or fails and adds nothing.
\<close>

locale audit_sink =
  fixes ins :: "'db audit_insert" and rows :: "'db \<Rightarrow> audit_envelope list"
  assumes insert_ok: "ins db e = (Some rid, db') \<Longrightarrow> rows db' = rows db @ [e]"
    and insert_failed: "ins db e = (None, db') \<Longrightarrow> rows db' = rows db"
begin

lemma persist_ok:
  "persist_audit ins configured db e = (Some rid, db') \<Longrightarrow> configured \<and> rows db' = rows db @ [e]"
  by (auto simp: persist_audit_def insert_ok split: if_splits)

lemma persist_failed:
  "persist_audit ins configured db e = (None, db') \<Longrightarrow> rows db' = rows db"
  by (auto simp: persist_audit_def insert_failed split: if_splits)

lemma persist_rows:
  "rows (snd (persist_audit ins configured db e)) \<in> {rows db, rows db @ [e]}"
  using persist_ok [of configured db e] persist_failed [of configured db e]
  by (cases "persist_audit ins configured db e"; cases "fst (persist_audit ins configured db e)")
     auto

lemma enforce_allowed:
  assumes "enforce ins configured reg now req db = (res, db')" and "er_status res = SAllow"
    and "compute_decision reg req = (defn, d)"
  shows "pd_decision d = Allow \<and> er_decision res = Some d \<and>
    (is_durable_audit_required defn d req \<and> resolve_failure_mode defn d req = FailClosed \<longrightarrow>
       rows db' = rows db @ [build_audit_envelope req d defn now])"
  using assms
  by (cases "pd_decision d")
     (auto simp: enforce_def Let_def persist_ok split: if_splits prod.splits option.splits)

lemma enforce_rows:
  assumes "enforce ins configured reg now req db = (res, db')"
    and "compute_decision reg req = (defn, d)"
  shows "rows db' = rows db \<or> rows db' = rows db @ [build_audit_envelope req d defn now]"
  using assms persist_rows [of configured db "build_audit_envelope req d defn now"]
  by (auto simp: enforce_def Let_def split: if_splits prod.splits option.splits)

lemma enforce_blocking_audited:
  assumes "enforce ins True reg now req db = (res, db')"
    and "compute_decision reg req = (defn, d)" and "pd_decision d \<noteq> Allow"
    and "\<And>e. fst (ins db e) \<noteq> None"
  shows "er_status res = SBlocked \<and> rows db' = rows db @ [build_audit_envelope req d defn now]"
  using assms(1-3) assms(4) [of "build_audit_envelope req d defn now"]
  by (cases "pd_decision d")
     (auto simp: enforce_def Let_def persist_audit_def insert_ok split: prod.splits)

lemma proposal_allowed:
  assumes "enforce_proposal_apply ins configured now inp role supported db = Inr (res, db')"
    and "er_status res = SAllow"
  shows "\<exists>d. check_hard_invariants (proposal_guard_ctx inp) = None \<and>
    check_proposal_apply_policy inp role supported = Inr d \<and> pd_decision d = Allow \<and>
    rows db' = rows db @ [proposal_audit_envelope (with_checked_metadata inp d) inp now]"
  using assms
  by (auto simp: enforce_proposal_apply_def Let_def persist_ok
      split: if_splits prod.splits option.splits sum.splits)

lemma proposal_rows:
  assumes "enforce_proposal_apply ins configured now inp role supported db = Inr (res, db')"
  shows "length (rows db') \<le> Suc (length (rows db))"
proof -
  have step: "length (rows (snd (persist_audit ins configured db e))) \<le> Suc (length (rows db))" for e
    using persist_rows [of configured db e] by auto
  have "length (rows d2) \<le> Suc (length (rows db))"
    if "persist_audit ins configured db e = (r, d2)" for e r d2
    using step [of e] that by simp
  with assms step show ?thesis
    by (auto simp: enforce_proposal_apply_def Let_def
        split: if_splits prod.splits option.splits sum.splits)
qed

end

section \<open>The audit table\<close>

text \<open>
  \<open>policy_decision_records\<close> as \<open>writePolicyAudit\<close> uses it: the statement returns the new row's id
  when the database accepts it. \<open>at_accepts\<close> says which rows it accepts, \<open>at_uuid\<close> the ids
  \<open>gen_random_uuid()\<close> hands out.
\<close>

record audit_table =
  at_rows :: "audit_envelope list"
  at_accepts :: "audit_envelope \<Rightarrow> bool"
  at_uuid :: "nat \<Rightarrow> string"

definition write_policy_audit :: "audit_table audit_insert" where
  "write_policy_audit t env =
     (if at_accepts t env
      then (Some (at_uuid t (length (at_rows t))), t\<lparr>at_rows := at_rows t @ [env]\<rparr>)
      else (None, t))"

interpretation tbl: audit_sink write_policy_audit at_rows
  by unfold_locales (auto simp: write_policy_audit_def split: if_splits)

end
