(* ===== verification/PolicyProperties.thy ===== *)
theory PolicyProperties
  imports PolicyService
begin

text \<open>
  The properties of the policy components: the gate's decision for a request, the rules as seen
  through the gate, the registry, the proposal-apply gate, the durable audit and the sanitizer.
\<close>

section \<open>Requests whose context leaves the request's own fields alone\<close>

text \<open>
  The context bag is assigned last and can replace fields of the request. \<open>context_keeps req ks\<close>
  says that it does not name the fields \<open>ks\<close>.
\<close>

definition context_keeps :: "policy_check_request \<Rightarrow> string list \<Rightarrow> bool" where
  "context_keeps req ks \<longleftrightarrow>
     (case rq_context req of None \<Rightarrow> True | Some c \<Rightarrow> \<not> list_ex (has_prop c) ks)"

lemma context_keeps_not_has:
  "context_keeps req ks \<Longrightarrow> rq_context req = Some c \<Longrightarrow> k \<in> set ks \<Longrightarrow> \<not> has_prop c k"
  by (auto simp: context_keeps_def list_ex_iff)

lemma engine_ctx_action:
  "context_keeps req [''action''] \<Longrightarrow> ctx_action (build_engine_ctx req) = rq_action req"
  by (cases "rq_context req")
     (auto simp: ctx_action_def build_engine_ctx_def Let_def context_keeps_def
       prop_js_assign_other)

lemma guard_ctx_action:
  "context_keeps req [''action''] \<Longrightarrow> ctx_action (build_guard_ctx req) = rq_action req"
  by (cases "rq_context req")
     (auto simp: ctx_action_def build_guard_ctx_def Let_def context_keeps_def
       prop_js_assign_other)

lemma guard_ctx_context:
  "rq_context req = Some c \<Longrightarrow> bag (build_guard_ctx req) ''context'' = c"
  by (simp add: bag_def build_guard_ctx_def Let_def as_record_def)

lemma guard_ctx_bags:
  assumes "context_keeps req [''metadata_json'', ''payload'']"
  shows "bag (build_guard_ctx req) ''metadata_json''
           = (case rq_metadata_json req of None \<Rightarrow> [] | Some m \<Rightarrow> m)"
    "bag (build_guard_ctx req) ''payload''
           = (case rq_payload req of None \<Rightarrow> [] | Some p \<Rightarrow> p)"
  using assms
  by (cases "rq_context req"; cases "rq_metadata_json req"; cases "rq_payload req";
      simp add: bag_def build_guard_ctx_def Let_def as_record_def context_keeps_def
        prop_js_assign_other js_opt_obj_def)+

section \<open>The registry\<close>

lemma load_action_registry_map_of:
  "load_action_registry a = map_of (map (\<lambda>d. (ad_action d, d)) policy_action_registry) a"
proof (cases "load_action_registry a")
  case None
  then have "a \<notin> ad_action ` set policy_action_registry"
    using registry_lookup_iff by (metis imageE option.distinct(1))
  then have "map_of (map (\<lambda>d. (ad_action d, d)) policy_action_registry) a = None"
    by (simp add: map_of_eq_None_iff image_image)
  with None show ?thesis by simp
next
  case (Some d)
  then have "(a, d) \<in> set (map (\<lambda>d. (ad_action d, d)) policy_action_registry)"
    by (auto simp: registry_lookup_iff)
  moreover have "distinct (map fst (map (\<lambda>d. (ad_action d, d)) policy_action_registry))"
    using registry_actions_distinct by (simp add: comp_def)
  ultimately show ?thesis using Some by (simp add: map_of_eq_Some_iff)
qed

text \<open>The entry of one action, as lifecycle and default decision.\<close>

definition registry_facts ::
    "string \<Rightarrow> (lifecycle_status \<times> decision_value \<times> failure_mode) option" where
  "registry_facts a =
     map_option (\<lambda>d. (ad_lifecycle_status d, ad_default_decision d, ad_record_failure_mode d))
       (map_of (map (\<lambda>d. (ad_action d, d)) policy_action_registry) a)"

lemma registered_entries:
  "registry_facts ''runtime.use_credential'' = Some (WiredDirect, RequireApproval, FailClosed)"
  "registry_facts ''run.spawn_child'' = Some (WiredDirect, RequireApproval, FailClosed)"
  "registry_facts ''artifact.persist'' = Some (WiredDirect, Allow, FailClosed)"
  "registry_facts ''runtime.execute'' = Some (WiredDirect, Allow, BestEffort)"
  "registry_facts ''memory.write'' = Some (WiredDirect, Allow, FailClosed)"
  "registry_facts ''automation.create'' = Some (WiredDirect, RequireApproval, FailClosed)"
  "registry_facts ''automation.update'' = Some (WiredDirect, RequireApproval, FailClosed)"
  "registry_facts ''automation.fire'' = Some (WiredDirect, RequireApproval, FailClosed)"
  by code_simp+


lemma load_registered:
  assumes "registry_facts a = Some (l, dv, m)"
  shows "\<exists>defn. load_action_registry a = Some defn \<and> ad_lifecycle_status defn = l \<and>
    ad_default_decision defn = dv \<and> ad_record_failure_mode defn = m"
proof -
  obtain defn where "map_of (map (\<lambda>d. (ad_action d, d)) policy_action_registry) a = Some defn"
    and "(ad_lifecycle_status defn, ad_default_decision defn, ad_record_failure_mode defn) = (l, dv, m)"
    using assms unfolding registry_facts_def by blast
  then show ?thesis using load_action_registry_map_of [of a] by simp
qed

section \<open>The gate\<close>

lemma compute_decision_value:
  "pd_decision (snd (compute_decision reg req)) =
     (case reg (rq_action req) of
        None \<Rightarrow> Deny
      | Some defn \<Rightarrow>
          if ad_lifecycle_status defn \<noteq> WiredDirect then Deny
          else if check_hard_invariants (build_guard_ctx req) \<noteq> None then Deny
          else pd_decision (engine_check reg (build_engine_ctx req)))"
proof (cases "reg (rq_action req)")
  case None
  then show ?thesis by (simp add: compute_decision_def get_action_definition_def)
next
  case (Some defn)
  show ?thesis
  proof (cases "check_hard_invariants (build_guard_ctx req)")
    case None
    with Some show ?thesis
      by (cases "ad_lifecycle_status defn")
         (simp_all add: compute_decision_def get_action_definition_def Let_def)
  next
    case (Some d)
    have "pd_decision d = Deny"
      using check_hard_invariants_shape [OF Some] by (simp add: hard_denial_shape_def)
    with Some \<open>reg (rq_action req) = Some defn\<close> show ?thesis
      by (cases "ad_lifecycle_status defn")
         (simp_all add: compute_decision_def get_action_definition_def Let_def)
  qed
qed

lemma gate_allow_iff:
  "pd_decision (snd (compute_decision reg req)) = Allow \<longleftrightarrow>
     (\<exists>defn. reg (rq_action req) = Some defn \<and> ad_lifecycle_status defn = WiredDirect) \<and>
     check_hard_invariants (build_guard_ctx req) = None \<and>
     pd_decision (engine_check reg (build_engine_ctx req)) = Allow"
  by (simp add: compute_decision_value split: option.split)

lemma gate_denied_by_invariant:
  "check_hard_invariants (build_guard_ctx req) \<noteq> None \<Longrightarrow>
   pd_decision (snd (compute_decision reg req)) = Deny"
  by (simp add: compute_decision_value split: option.split)

text \<open>An action outside the guarded sets meets no hard invariant.\<close>

lemma gate_unguarded:
  assumes "context_keeps req [''action'']"
    and "rq_action req \<notin> set memory_read_actions \<union> set persistence_actions
           \<union> set egress_sensitive_actions \<union> {''context.render_for_runtime''}"
  shows "check_hard_invariants (build_guard_ctx req) = None"
  using assms by (intro check_hard_invariants_other) (simp add: guard_ctx_action)

text \<open>For a persistence action outside the other sets, only the personal-context guard can speak.\<close>

lemma persistence_only:
  assumes "ctx_action ctx \<notin> set memory_read_actions \<union> set egress_sensitive_actions
             \<union> {''context.render_for_runtime'', ''proposal.apply''}"
  shows "check_hard_invariants ctx = personal_context_block_not_persisted ctx"
proof -
  have "cross_space_memory_read ctx = None" "raw_private_memory_blocks_egress ctx = None"
    "public_target_blocks_grant_derived ctx = None" "payload_flags_not_approval_proof ctx = None"
    "unknown_target_space_egress_fails_closed ctx = None"
    using assms
    by (simp_all add: cross_space_memory_read_def raw_private_memory_blocks_egress_def
        public_target_blocks_grant_derived_def payload_flags_not_approval_proof_def
        unknown_target_space_egress_fails_closed_def)
  then show ?thesis
    by (simp add: check_hard_invariants_def hard_invariants_def split: option.split)
qed

text \<open>What a person reading the request sees that the hard invariants forbid.\<close>

definition forbidden_request :: "policy_check_request \<Rightarrow> bool" where
  "forbidden_request req \<longleftrightarrow>
     (let md = (case rq_metadata_json req of None \<Rightarrow> [] | Some m \<Rightarrow> m);
          pl = (case rq_payload req of None \<Rightarrow> [] | Some p \<Rightarrow> p);
          c = (case rq_context req of None \<Rightarrow> [] | Some c \<Rightarrow> c)
      in (rq_action req \<in> set egress_sensitive_actions \<and>
            get_prop c ''raw_private_memory_included'' = JBool True)
       \<or> (rq_action req \<in> set persistence_actions \<and>
            (has_prop md ''personal_context_block'' \<or> has_prop c ''personal_context_block''))
       \<or> (rq_action req = ''proposal.apply'' \<and>
            (\<exists>flag\<in>set approval_proof_flags. has_prop pl flag \<or> has_prop md flag \<or> has_prop c flag)))"

lemma guard_bag_context:
  "context_keeps req [''context''] \<Longrightarrow>
   bag (build_guard_ctx req) ''context'' = (case rq_context req of None \<Rightarrow> [] | Some c \<Rightarrow> c)"
  by (cases "rq_context req")
     (auto simp: bag_def build_guard_ctx_def Let_def as_record_def)

lemma context_keeps_weaken: "context_keeps req ks \<Longrightarrow> set ks' \<subseteq> set ks \<Longrightarrow> context_keeps req ks'"
  by (auto simp: context_keeps_def list_ex_iff split: option.splits)

lemma forbidden_fires:
  assumes keeps: "context_keeps req [''action'', ''metadata_json'', ''payload'', ''context'']"
    and forbidden: "forbidden_request req"
  shows "check_hard_invariants (build_guard_ctx req) \<noteq> None"
proof -
  note act = guard_ctx_action [OF context_keeps_weaken [OF keeps]]
  note bags = guard_ctx_bags [OF context_keeps_weaken [OF keeps]]
    guard_bag_context [OF context_keeps_weaken [OF keeps]]
  have "raw_private_memory_blocks_egress (build_guard_ctx req) \<noteq> None
      \<or> personal_context_block_not_persisted (build_guard_ctx req) \<noteq> None
      \<or> payload_flags_not_approval_proof (build_guard_ctx req) \<noteq> None"
    using forbidden unfolding forbidden_request_def Let_def
    by (elim disjE)
       (auto simp: raw_private_memory_blocks_egress_def personal_context_block_not_persisted_def
         payload_flags_not_approval_proof_def act bags is_true_def Let_def list_ex_iff)
  then show ?thesis
    using check_hard_invariants_fires [of _ "build_guard_ctx req"]
    by (auto simp: hard_invariants_def)
qed

section \<open>Properties of the gate\<close>

text \<open>
  C1. A request that would persist a personal context block, send raw private memory out, or prove
  approval by a flag in its own payload is denied by the gate, whatever the registry and the rules
  say, as long as its context bag does not rename the request's fields.
\<close>

theorem forbidden_request_denied:
  assumes "context_keeps req [''action'', ''metadata_json'', ''payload'', ''context'']"
    and "forbidden_request req"
  shows "pd_decision (snd (compute_decision reg req)) = Deny"
  using assms by (intro gate_denied_by_invariant forbidden_fires)

definition empty_request :: "string \<Rightarrow> policy_check_request" where
  "empty_request a =
     \<lparr>rq_action = a, rq_actor_type = None, rq_actor_id = None, rq_actor_ref = None,
      rq_space_id = None, rq_resource_type = None, rq_resource_id = None,
      rq_resource_space_id = None, rq_run_id = None, rq_proposal_id = None, rq_context = None,
      rq_payload = None, rq_metadata_json = None, rq_force_record = False\<rparr>"

lemma forbidden_request_denied_witness:
  "pd_decision (snd (compute_decision load_action_registry
     ((empty_request ''artifact.persist'')
        \<lparr>rq_context := Some [(''raw_private_memory_included'', JBool True)]\<rparr>))) = Deny"
  by (rule forbidden_request_denied)
     (simp_all add: empty_request_def context_keeps_def forbidden_request_def
       egress_sensitive_actions_def)

text \<open>
  The proviso is needed: the context bag is assigned over the assembled guard context, so a bag
  that names \<open>action\<close> makes the hard invariants look at that action. The request below would be
  denied without the \<open>action\<close> entry of its context, and is allowed with it.
\<close>

theorem context_action_overrides_invariants:
  "let bag = [(''raw_private_memory_included'', JBool True)];
       req = (empty_request ''artifact.persist'')\<lparr>rq_context := Some bag\<rparr>;
       renamed = req\<lparr>rq_context := Some ((''action'', JStr ''runtime.execute'') # bag)\<rparr>
   in pd_decision (snd (compute_decision load_action_registry req)) = Deny
      \<and> pd_decision (snd (compute_decision load_action_registry renamed)) = Allow"
proof -
  obtain d1 where d1: "load_action_registry ''artifact.persist'' = Some d1"
      "ad_lifecycle_status d1 = WiredDirect"
    using load_registered [OF registered_entries(3)] by blast
  obtain d2 where d2: "load_action_registry ''runtime.execute'' = Some d2"
      "ad_default_decision d2 = Allow"
    using load_registered [OF registered_entries(4)] by blast
  have "pd_decision (snd (compute_decision load_action_registry
          ((empty_request ''artifact.persist'')
             \<lparr>rq_context := Some [(''raw_private_memory_included'', JBool True)]\<rparr>))) = Deny"
    by (intro gate_denied_by_invariant forbidden_fires)
       (simp_all add: empty_request_def context_keeps_def forbidden_request_def
         egress_sensitive_actions_def)
  moreover
  let ?renamed = "(empty_request ''artifact.persist'')
        \<lparr>rq_context := Some [(''action'', JStr ''runtime.execute''),
                            (''raw_private_memory_included'', JBool True)]\<rparr>"
  have ectx: "build_engine_ctx ?renamed =
      [(''action'', JStr ''runtime.execute''), (''raw_private_memory_included'', JBool True)]"
    by code_simp
  have "first_some builtin_rules (build_engine_ctx ?renamed) = None"
    unfolding ectx by code_simp
  then have "pd_decision (engine_check load_action_registry (build_engine_ctx ?renamed)) = Allow"
    using d2 by (simp add: engine_check_def require_action_definition_def ectx)
  moreover have "check_hard_invariants (build_guard_ctx ?renamed) = None"
    by code_simp
  ultimately show ?thesis
    using d1 by (simp add: Let_def gate_allow_iff empty_request_def)
qed

lemma credential_gate:
  assumes "context_keeps req [''action'']" and "rq_action req = ''runtime.use_credential''"
  shows "pd_decision (snd (compute_decision load_action_registry req)) = Allow
         \<longleftrightarrow> credential_spend_ok (build_engine_ctx req)"
proof -
  obtain defn where "load_action_registry ''runtime.use_credential'' = Some defn"
      "ad_lifecycle_status defn = WiredDirect"
    using load_registered [OF registered_entries(1)] by blast
  moreover have "check_hard_invariants (build_guard_ctx req) = None"
    using assms by (intro gate_unguarded) (simp_all add: memory_read_actions_def
        persistence_actions_def egress_sensitive_actions_def)
  ultimately show ?thesis
    using assms by (simp add: gate_allow_iff engine_credential engine_ctx_action)
qed

text \<open>
  Against the shipped registry, a request to use a credential is allowed exactly when it stays in
  its space and carries a person's turn, an automation pre-authorization or a managed-execution
  authorization: the registry default (approval) and the other rules never widen it.
\<close>

theorem credential_use_gate:
  assumes "context_keeps req [''action'']" and "rq_action req = ''runtime.use_credential''"
  shows "pd_decision (snd (compute_decision load_action_registry req)) = Allow
         \<longleftrightarrow> credential_spend_ok (build_engine_ctx req)"
  by (rule credential_gate [OF assms])

lemma credential_use_gate_witness:
  "pd_decision (snd (compute_decision load_action_registry
     ((empty_request ''runtime.use_credential'')
        \<lparr>rq_context := Some [(''trigger_origin'', JStr ''manual'')]\<rparr>))) = Allow
   \<and> pd_decision (snd (compute_decision load_action_registry
     ((empty_request ''runtime.use_credential'')
        \<lparr>rq_context := Some [(''trigger_origin'', JStr ''automation'')]\<rparr>))) \<noteq> Allow"
  (is "?A \<and> ?B")
proof
  have spend: "credential_spend_ok (build_engine_ctx
      ((empty_request ''runtime.use_credential'')
        \<lparr>rq_context := Some [(''trigger_origin'', JStr ''manual'')]\<rparr>))"
    by code_simp
  show ?A
    by (rule credential_use_gate [THEN iffD2])
       (simp_all add: spend, simp_all add: empty_request_def context_keeps_def)
  have nospend: "\<not> credential_spend_ok (build_engine_ctx
      ((empty_request ''runtime.use_credential'')
        \<lparr>rq_context := Some [(''trigger_origin'', JStr ''automation'')]\<rparr>))"
    by code_simp
  show ?B
    by (subst credential_use_gate)
       (simp_all add: nospend, simp_all add: empty_request_def context_keeps_def)
qed

text \<open>
  Against the shipped registry, spawning a child run is allowed exactly when every required
  identifier is present, parent, target and grants are active, nothing is widened, the depth,
  fan-out, concurrency and turn limits hold, and both spaces agree.
\<close>

theorem spawn_child_gate:
  assumes "context_keeps req [''action'']" and "rq_action req = ''run.spawn_child''"
  shows "pd_decision (snd (compute_decision load_action_registry req)) = Allow
         \<longleftrightarrow> spawn_child_ok (build_engine_ctx req) \<and> \<not> spaces_differ (build_engine_ctx req)"
proof -
  obtain defn where "load_action_registry ''run.spawn_child'' = Some defn"
      "ad_lifecycle_status defn = WiredDirect"
    using load_registered [OF registered_entries(2)] by blast
  moreover have "check_hard_invariants (build_guard_ctx req) = None"
    using assms by (intro gate_unguarded) (simp_all add: memory_read_actions_def
        persistence_actions_def egress_sensitive_actions_def)
  ultimately show ?thesis
    using assms by (simp add: gate_allow_iff engine_spawn_child engine_ctx_action)
qed

lemma spawn_child_gate_witness:
  "pd_decision (snd (compute_decision load_action_registry (empty_request ''run.spawn_child'')))
     \<noteq> Allow"
proof -
  have "\<not> spawn_child_ok (build_engine_ctx (empty_request ''run.spawn_child''))"
    by (simp add: spawn_child_ok_def build_engine_ctx_def empty_request_def
        run_spawn_child_required_context_def num_of_def js_opt_def js_opt_obj_def
        set_if_truthy_def Let_def)
  then show ?thesis
    by (subst spawn_child_gate) (simp_all add: empty_request_def context_keeps_def)
qed



text \<open>
  Administering an automation is allowed exactly to an admin, the writer of the project an agent
  run belongs to, or the member who owns a tick or a digest, in one space and with no personal
  context block in the context or the metadata: no other rule and no registry default decides.
\<close>

theorem automation_gate:
  assumes "context_keeps req [''action'']" and "rq_action req \<in> set automation_actions"
  shows "pd_decision (snd (compute_decision load_action_registry req)) = Allow
         \<longleftrightarrow> automation_ok (build_engine_ctx req) \<and> \<not> spaces_differ (build_engine_ctx req)
           \<and> personal_context_block_not_persisted (build_guard_ctx req) = None"
proof -
  obtain defn where "load_action_registry (rq_action req) = Some defn"
      "ad_lifecycle_status defn = WiredDirect"
    using assms(2) load_registered [OF registered_entries(6)]
      load_registered [OF registered_entries(7)] load_registered [OF registered_entries(8)]
    by (auto simp: automation_actions_def)
  moreover have "check_hard_invariants (build_guard_ctx req)
      = personal_context_block_not_persisted (build_guard_ctx req)"
    using assms(2) guard_ctx_action [OF assms(1)]
    by (intro persistence_only)
       (auto simp: automation_actions_def memory_read_actions_def egress_sensitive_actions_def)
  ultimately show ?thesis
    using assms by (auto simp: gate_allow_iff engine_automation engine_ctx_action)
qed

lemma automation_gate_witness:
  "pd_decision (snd (compute_decision load_action_registry
     ((empty_request ''automation.fire'')
        \<lparr>rq_context := Some [(''membership_role'', JStr ''admin'')]\<rparr>))) = Allow"
proof (rule automation_gate [THEN iffD2])
  let ?r = "(empty_request ''automation.fire'')
        \<lparr>rq_context := Some [(''membership_role'', JStr ''admin'')]\<rparr>"
  show "context_keeps ?r [''action'']" by (simp add: context_keeps_def)
  show "rq_action ?r \<in> set automation_actions"
    by (simp add: empty_request_def automation_actions_def)
  show "automation_ok (build_engine_ctx ?r) \<and> \<not> spaces_differ (build_engine_ctx ?r)
      \<and> personal_context_block_not_persisted (build_guard_ctx ?r) = None"
    by code_simp
qed

section \<open>Properties of enforcement and the proposal gate\<close>

text \<open>
  C3. An enforced request never comes back allowed unless the gate allowed it; when the action's
  audit is required and fails closed, exactly one row describing the decision has been added; when
  the insert fails for such an action the caller gets an error instead. At most one row is added in
  every case.
\<close>

theorem enforce_fail_closed:
  assumes run: "enforce write_policy_audit configured reg now req tab = (res, tab')"
    and dec: "compute_decision reg req = (defn, d)"
  shows "(er_status res = SAllow \<longrightarrow> pd_decision d = Allow \<and>
            (is_durable_audit_required defn d req \<and> resolve_failure_mode defn d req = FailClosed
             \<longrightarrow> at_rows tab' = at_rows tab @ [build_audit_envelope req d defn now]))
         \<and> at_rows tab' \<in> {at_rows tab, at_rows tab @ [build_audit_envelope req d defn now]}"
  using tbl.enforce_allowed [OF run _ dec] tbl.enforce_rows [OF run dec] by auto

definition empty_table :: audit_table where
  "empty_table = \<lparr>at_rows = [], at_accepts = (\<lambda>_. True), at_uuid = (\<lambda>_. ''row'')\<rparr>"

lemma enforce_fail_closed_witness:
  "length (at_rows (snd (enforce write_policy_audit True Map.empty ''now'' (empty_request ''x'')
     empty_table))) \<le> 1"
proof -
  obtain res tab' where run: "enforce write_policy_audit True Map.empty ''now'' (empty_request ''x'')
      empty_table = (res, tab')" by fastforce
  have "compute_decision Map.empty (empty_request ''x'')
      = (None, unknown_action_decision (empty_request ''x''))"
    by (simp add: compute_decision_def get_action_definition_def)
  from enforce_fail_closed [OF run this] show ?thesis
    unfolding run by (auto simp: empty_table_def)
qed

text \<open>
  A proposal is approved exactly when its type can be applied and the member's role satisfies the
  approver the proposal asks for and covers the effective risk: the risk of the type, raised (never
  lowered) by the declared one. An unreadable declared risk is an error, never an approval.
\<close>

theorem proposal_gate:
  "(\<exists>d. check_proposal_apply_policy inp role supported = Inr d \<and> pd_decision d = Allow) \<longleftrightarrow>
     supported (pa_proposal_type inp) \<and>
     (\<exists>r risk. role = Some r \<and>
        effective_proposal_risk (pa_proposal_type inp) (pa_declared_risk inp) = Inr risk \<and>
        default_type_risk (pa_proposal_type inp) \<le> risk \<and>
        required_role_met (pa_required_approver_role inp) r \<and> role_may_approve_risk (Some r) risk)"
  unfolding proposal_gate_allow_iff less_eq_risk_level_def
  using effective_risk_ge [of "pa_proposal_type inp" "pa_declared_risk inp"] by blast

text \<open>
  Applying a proposal is reported as allowed only after the hard invariants let it through, the
  proposal gate approved it and one audit row for it has been written; a failed write gives an error.
\<close>

theorem proposal_apply_audited:
  assumes "enforce_proposal_apply write_policy_audit configured now inp role supported tab
             = Inr (res, tab')"
    and "er_status res = SAllow"
  shows "\<exists>d. check_hard_invariants (proposal_guard_ctx inp) = None \<and>
    check_proposal_apply_policy inp role supported = Inr d \<and> pd_decision d = Allow \<and>
    at_rows tab' = at_rows tab @ [proposal_audit_envelope (with_checked_metadata inp d) inp now]"
  using assms by (rule tbl.proposal_allowed)

definition sample_proposal :: proposal_apply_input where
  "sample_proposal =
     \<lparr>pa_user_id = ''u'', pa_space_id = ''s'', pa_proposal_id = ''p'',
      pa_proposal_type = ''code_patch'', pa_declared_risk = Some ''low'',
      pa_required_approver_role = None, pa_proposal_payload = None, pa_metadata_json = None\<rparr>"

lemma proposal_apply_audited_witness:
  "\<exists>res tab'. enforce_proposal_apply write_policy_audit True ''now'' sample_proposal
      (Some ''admin'') (\<lambda>_. True) empty_table = Inr (res, tab') \<and> length (at_rows tab') = 1"
proof -
  have inv: "check_hard_invariants (proposal_guard_ctx sample_proposal) = None"
    by code_simp
  have risk: "effective_proposal_risk (pa_proposal_type sample_proposal)
      (pa_declared_risk sample_proposal) = Inr High"
    by code_simp
  have role: "required_role_met (pa_required_approver_role sample_proposal) ''admin''"
    "role_may_approve_risk (Some ''admin'') High"
    by code_simp+
  from proposal_gate_allow_iff [of sample_proposal "Some ''admin''" "\<lambda>_. True"] risk role
  obtain d where d: "check_proposal_apply_policy sample_proposal (Some ''admin'') (\<lambda>_. True)
      = Inr d" "pd_decision d = Allow"
    by blast
  obtain res tab' where run: "enforce_proposal_apply write_policy_audit True ''now''
      sample_proposal (Some ''admin'') (\<lambda>_. True) empty_table = Inr (res, tab')"
      "er_status res = SAllow"
    using inv d by (simp add: enforce_proposal_apply_def Let_def persist_audit_def
        write_policy_audit_def empty_table_def)
  from proposal_apply_audited [OF run] have "length (at_rows tab') = 1"
    by (auto simp: empty_table_def)
  with run show ?thesis by blast
qed

section \<open>Properties of the metadata sanitizer\<close>

text \<open>
  The metadata stored with a decision is small and bounded whatever the caller sent: no string
  longer than the limit, no array longer than the limit, at most the total number of keys, nesting at
  most the depth limit plus one, and sanitizing it again changes nothing.
\<close>

theorem sanitized_metadata_bounded:
  "let out = fst (sanitize_value v 0 max_total_keys)
   in clean out \<and> key_count out \<le> max_total_keys \<and> nesting out \<le> Suc max_depth
      \<and> sanitize_value out 0 max_total_keys = sanitize_value v 0 max_total_keys"
proof -
  obtain out b where out: "sanitize_value v 0 max_total_keys = (out, b)" by fastforce
  show ?thesis
    using sanitize_clean(1) [of v 0 max_total_keys] sanitize_key_count(1) [OF out]
      sanitize_nesting(1) [of v 0 max_total_keys] sanitize_idempotent(1) [of v 0 max_total_keys] out
    by (simp add: Let_def)
qed

end
