(* ===== verification/RunLineage.thy ===== *)
theory RunLineage
  imports Prelude
begin

text \<open>
  Who set a run going: \<open>server/src/modules/systemActions/effectiveRunTrigger.ts\<close>. The recursive query
  walks from a run to its parent, or from a continuation to the run it reports on, until it reaches a
  run that nothing spawned, at most 32 hops and never through the same run twice. The runs of a space
  are a map from ids to rows.
\<close>

section \<open>The walk\<close>

record lineage_row =
  lr_trigger_origin :: string
  lr_instructed_by_user_id :: "string option"
  lr_parent_run_id :: "string option"
  lr_cause_run_id :: "string option"

type_synonym run_rows = "string \<Rightarrow> lineage_row option"

definition unverified_lineage_origin :: string where
  "unverified_lineage_origin = ''unverified''"

definition max_lineage_depth :: nat where
  "max_lineage_depth = 32"

text \<open>\<open>CASE WHEN chain.trigger_origin = 'continuation' THEN chain.cause_run_id ELSE chain.parent_run_id END\<close>\<close>

definition next_run :: "lineage_row \<Rightarrow> string option" where
  "next_run r = (if lr_trigger_origin r = ''continuation'' then lr_cause_run_id r else lr_parent_run_id r)"

text \<open>
  The rows the query adds after a row: the hops left, and the path of ids so far.
\<close>

fun chain_from :: "run_rows \<Rightarrow> nat \<Rightarrow> string list \<Rightarrow> lineage_row \<Rightarrow> (string \<times> lineage_row) list" where
  "chain_from rt 0 path r = []"
| "chain_from rt (Suc n) path r =
     (case next_run r of
        None \<Rightarrow> []
      | Some i \<Rightarrow>
          (case rt i of
             None \<Rightarrow> []
           | Some r' \<Rightarrow> if i \<in> set path then [] else (i, r') # chain_from rt n (path @ [i]) r'))"

definition lineage_chain :: "run_rows \<Rightarrow> string \<Rightarrow> (string \<times> lineage_row) list" where
  "lineage_chain rt start =
     (case rt start of
        None \<Rightarrow> []
      | Some r \<Rightarrow> (start, r) # chain_from rt max_lineage_depth [start] r)"

record effective_run_trigger =
  et_origin :: string
  et_instructed_by_user_id :: "string option"
  et_root_run_id :: "string option"
  et_continuation_hops :: nat

definition unverified :: "string \<Rightarrow> nat \<Rightarrow> effective_run_trigger" where
  "unverified origin hops =
     \<lparr>et_origin = origin, et_instructed_by_user_id = None, et_root_run_id = None,
      et_continuation_hops = hops\<rparr>"

definition chain_trigger :: "(string \<times> lineage_row) list \<Rightarrow> effective_run_trigger" where
  "chain_trigger rows =
     (let hops = length (filter (\<lambda>(_, r). lr_trigger_origin r = ''continuation'') rows)
      in if rows = [] then unverified unverified_lineage_origin hops
         else (let (i, top_row) = last rows
               in if lr_trigger_origin top_row = ''continuation'' \<and> \<not> given (lr_cause_run_id top_row)
                  then unverified ''continuation'' hops
                  else if lr_trigger_origin top_row = ''continuation'' \<or> given (lr_parent_run_id top_row)
                  then unverified unverified_lineage_origin hops
                  else \<lparr>et_origin = lr_trigger_origin top_row,
                        et_instructed_by_user_id = lr_instructed_by_user_id top_row,
                        et_root_run_id = Some i, et_continuation_hops = hops\<rparr>))"

text \<open>\<open>effectiveRunTrigger\<close> of a run the caller holds\<close>

definition effective_run_trigger :: "run_rows \<Rightarrow> string \<Rightarrow> lineage_row \<Rightarrow> effective_run_trigger" where
  "effective_run_trigger rt i r =
     (if lr_trigger_origin r = ''delegation'' \<and> \<not> given (lr_parent_run_id r)
      then unverified unverified_lineage_origin 0
      else if lr_trigger_origin r \<noteq> ''continuation'' \<and> \<not> given (lr_parent_run_id r)
      then \<lparr>et_origin = lr_trigger_origin r, et_instructed_by_user_id = lr_instructed_by_user_id r,
            et_root_run_id = Some i, et_continuation_hops = 0\<rparr>
      else chain_trigger
             (lineage_chain rt
                (if lr_trigger_origin r = ''continuation'' then i else the (lr_parent_run_id r))))"

section \<open>What the walk finds\<close>

text \<open>
  One hop of a lineage, and the runs that nothing spawned or caused. No run has the empty id, which
  the code reads like a missing one.
\<close>

definition hops_to :: "run_rows \<Rightarrow> string \<Rightarrow> string \<Rightarrow> bool" where
  "hops_to rt i j \<longleftrightarrow> (\<exists>r. rt i = Some r \<and> next_run r = Some j) \<and> rt j \<noteq> None"

definition is_root :: "run_rows \<Rightarrow> string \<Rightarrow> bool" where
  "is_root rt i \<longleftrightarrow>
     (\<exists>r. rt i = Some r \<and> lr_trigger_origin r \<noteq> ''continuation'' \<and> \<not> given (lr_parent_run_id r))"

lemma hops_functional: "hops_to rt i j \<Longrightarrow> hops_to rt i k \<Longrightarrow> j = k"
  by (auto simp: hops_to_def)

lemma hops_relpow_functional: "(hops_to rt ^^ n) i j \<Longrightarrow> (hops_to rt ^^ n) i k \<Longrightarrow> j = k"
proof (induction n arbitrary: j k)
  case (Suc n)
  then show ?case using hops_functional by (metis relpowp_Suc_E)
qed simp

lemma root_stuck: "rt [] = None \<Longrightarrow> is_root rt i \<Longrightarrow> \<not> hops_to rt i j"
  by (auto simp: is_root_def hops_to_def next_run_def given_def)

text \<open>A run that leads to a root is on no cycle, so the guard against cycles never stops its walk.\<close>

lemma rooted_acyclic:
  assumes "rt [] = None" and k: "(hops_to rt ^^ n) i k" "is_root rt k"
    and cyc: "(hops_to rt ^^ m) i i" "0 < m"
  shows False
proof -
  have "(hops_to rt ^^ (c * m)) i i" for c
  proof (induction c)
    case (Suc c)
    with cyc(1) show ?case by (auto simp: relpowp_add relcompp.simps)
  qed simp
  moreover have "n < Suc n * m" using cyc(2) by (cases m) simp_all
  then obtain d where "Suc n * m = n + Suc d" by (metis less_iff_Suc_add add_Suc_right)
  ultimately have "(hops_to rt ^^ (n + Suc d)) i i" by metis
  then obtain j where "(hops_to rt ^^ n) i j" "(hops_to rt ^^ Suc d) j i"
    by (auto simp: relpowp_add relcompp.simps)
  then have "(hops_to rt ^^ Suc d) k i" using hops_relpow_functional k(1) by metis
  then obtain x where "hops_to rt k x" by (metis relpowp_Suc_D2)
  with root_stuck assms(1) k(2) show False by metis
qed

lemma chain_end:
  "rt i = Some r \<Longrightarrow>
   \<exists>k rk m. last ((i, r) # chain_from rt n path r) = (k, rk) \<and> rt k = Some rk \<and> m \<le> n \<and> (hops_to rt ^^ m) i k"
proof (induction n arbitrary: i r path)
  case 0
  then show ?case by auto
next
  case (Suc n)
  show ?case
  proof (cases "\<exists>j r'. next_run r = Some j \<and> rt j = Some r' \<and> j \<notin> set path")
    case True
    then obtain j r' where j: "next_run r = Some j" "rt j = Some r'" "j \<notin> set path" by blast
    obtain k rk m where k: "last ((j, r') # chain_from rt n (path @ [j]) r') = (k, rk)" "rt k = Some rk"
      "m \<le> n" "(hops_to rt ^^ m) j k" using Suc.IH [OF j(2)] by blast
    have "hops_to rt i j" using Suc.prems j by (auto simp: hops_to_def)
    then have "(hops_to rt ^^ Suc m) i k" using k(4) by (metis relpowp_Suc_I2)
    with j k show ?thesis by (intro exI [of _ k] exI [of _ rk] exI [of _ "Suc m"]) simp
  next
    case False
    then have "chain_from rt (Suc n) path r = []" by (auto split: option.splits)
    with Suc.prems show ?thesis by (intro exI [of _ i] exI [of _ r] exI [of _ 0]) simp
  qed
qed

lemma chain_reaches_root:
  "rt [] = None \<Longrightarrow> rt i = Some r \<Longrightarrow> (hops_to rt ^^ m) i k \<Longrightarrow> is_root rt k \<Longrightarrow> m \<le> n \<Longrightarrow>
   \<forall>l>0. \<forall>j. (hops_to rt ^^ l) i j \<longrightarrow> j \<notin> set path \<Longrightarrow>
   last ((i, r) # chain_from rt n path r) = (k, the (rt k))"
proof (induction n arbitrary: i r m path)
  case 0
  then show ?case by simp
next
  case (Suc n)
  show ?case
  proof (cases m)
    case 0
    then have "k = i" using Suc.prems(3) by simp
    then have "\<not> hops_to rt i j" for j using root_stuck Suc.prems(1,4) by metis
    then have "next_run r = Some j \<Longrightarrow> rt j = None" for j using Suc.prems(2) by (auto simp: hops_to_def)
    then have "chain_from rt (Suc n) path r = []" by (auto split: option.split)
    with \<open>k = i\<close> Suc.prems(2) show ?thesis by simp
  next
    case m: (Suc m')
    then obtain j where j: "hops_to rt i j" "(hops_to rt ^^ m') j k" using Suc.prems(3) by (metis relpowp_Suc_D2)
    then obtain r' where r': "next_run r = Some j" "rt j = Some r'" using Suc.prems(2) by (auto simp: hops_to_def)
    have "(hops_to rt ^^ Suc 0) i j" using j(1) by (metis relpowp_Suc_I2 relpowp_0_I)
    then have new: "j \<notin> set path" using Suc.prems(6) by (metis zero_less_Suc)
    have "x \<notin> set (path @ [j])" if "0 < l" "(hops_to rt ^^ l) j x" for l x
    proof -
      have "(hops_to rt ^^ Suc l) i x" using j(1) that(2) by (metis relpowp_Suc_I2)
      then have "x \<notin> set path" using Suc.prems(6) by (metis zero_less_Suc)
      moreover have "x \<noteq> j" using rooted_acyclic [OF Suc.prems(1) j(2) Suc.prems(4)] that by blast
      ultimately show ?thesis by simp
    qed
    then have "last ((j, r') # chain_from rt n (path @ [j]) r') = (k, the (rt k))"
      using Suc.IH [OF Suc.prems(1) r'(2) j(2) Suc.prems(4)] Suc.prems(5) m by simp
    with r' new show ?thesis by simp
  qed
qed

lemma is_root_row: "rt k = Some rk \<Longrightarrow>
  is_root rt k \<longleftrightarrow> lr_trigger_origin rk \<noteq> ''continuation'' \<and> \<not> given (lr_parent_run_id rk)"
  by (simp add: is_root_def)

lemma chain_trigger_root:
  assumes "rt [] = None"
  shows "et_root_run_id (chain_trigger (lineage_chain rt start)) = Some k \<longleftrightarrow>
    (\<exists>m\<le>max_lineage_depth. (hops_to rt ^^ m) start k \<and> is_root rt k)"
proof (cases "rt start")
  case None
  have "\<not> is_root rt k" if "(hops_to rt ^^ m) start k" for m
  proof (cases m)
    case 0
    with that None show ?thesis by (simp add: is_root_def)
  next
    case (Suc m')
    with that obtain j where "hops_to rt start j" by (metis relpowp_Suc_D2)
    with None show ?thesis by (simp add: hops_to_def)
  qed
  moreover have "et_root_run_id (chain_trigger (lineage_chain rt start)) = None"
    using None by (simp add: lineage_chain_def chain_trigger_def unverified_def)
  ultimately show ?thesis by auto
next
  case (Some r)
  let ?rows = "(start, r) # chain_from rt max_lineage_depth [start] r"
  obtain e re m where e: "last ?rows = (e, re)" "rt e = Some re" "m \<le> max_lineage_depth" "(hops_to rt ^^ m) start e"
    using chain_end [of rt start r max_lineage_depth "[start]"] Some by blast
  have "lineage_chain rt start = ?rows" using Some by (simp add: lineage_chain_def)
  then have root: "et_root_run_id (chain_trigger (lineage_chain rt start)) = (if is_root rt e then Some e else None)"
    using e(1,2) is_root_row [of rt e re] by (auto simp: chain_trigger_def unverified_def Let_def simp del: last.simps)
  show ?thesis
  proof
    assume "et_root_run_id (chain_trigger (lineage_chain rt start)) = Some k"
    with root e(3,4) show "\<exists>m\<le>max_lineage_depth. (hops_to rt ^^ m) start k \<and> is_root rt k"
      by (auto split: if_splits)
  next
    assume "\<exists>m\<le>max_lineage_depth. (hops_to rt ^^ m) start k \<and> is_root rt k"
    then obtain l where l: "l \<le> max_lineage_depth" "(hops_to rt ^^ l) start k" "is_root rt k" by blast
    have "\<forall>l>0. \<forall>j. (hops_to rt ^^ l) start j \<longrightarrow> j \<notin> set [start]"
      using rooted_acyclic [of rt l start k] assms l(2,3) by auto
    with chain_reaches_root [of rt start r l k max_lineage_depth "[start]"] assms Some l e(1) have "k = e" by simp
    with root l(3) show "et_root_run_id (chain_trigger (lineage_chain rt start)) = Some k" by simp
  qed
qed

lemma chain_trigger_row:
  assumes "et_root_run_id (chain_trigger rows) = Some k"
  shows "\<exists>rk. (k, rk) \<in> set rows \<and> et_origin (chain_trigger rows) = lr_trigger_origin rk \<and>
    et_instructed_by_user_id (chain_trigger rows) = lr_instructed_by_user_id rk"
proof -
  have "rows \<noteq> []" using assms by (auto simp: chain_trigger_def unverified_def)
  then have "last rows \<in> set rows" by simp
  with assms \<open>rows \<noteq> []\<close> show ?thesis
    by (cases "last rows") (auto simp: chain_trigger_def unverified_def Let_def split: if_splits)
qed

lemma chain_trigger_none:
  "et_root_run_id (chain_trigger rows) = None \<Longrightarrow>
   et_origin (chain_trigger rows) \<in> {''unverified'', ''continuation''} \<and>
   et_instructed_by_user_id (chain_trigger rows) = None"
  by (auto simp: chain_trigger_def unverified_def unverified_lineage_origin_def Let_def split: prod.splits if_splits)

lemma chain_from_rows: "(j, q) \<in> set (chain_from rt n path r) \<Longrightarrow> rt j = Some q"
proof (induction n arbitrary: path r)
  case (Suc n)
  then show ?case by (auto split: option.splits if_splits)
qed simp

lemma lineage_chain_rows: "(j, q) \<in> set (lineage_chain rt start) \<Longrightarrow> rt j = Some q"
  by (auto simp: lineage_chain_def dest: chain_from_rows split: option.splits)

text \<open>
  C5. A run is somebody's only by a verified chain: its root is the run that nothing spawned or caused
  at the end of at most 32 hops, whatever else the table holds, cycles included, and origin and person
  are that root's own. Without one the origin is \<open>unverified\<close> or \<open>continuation\<close> and nobody stands
  behind the run: no broken, looping or overlong chain ever counts as a person's turn.
\<close>

theorem verified_root_iff:
  assumes "rt [] = None" and "lr_trigger_origin r = ''continuation'' \<or> given (lr_parent_run_id r)"
  shows "let t = effective_run_trigger rt i r;
             start = (if lr_trigger_origin r = ''continuation'' then i else the (lr_parent_run_id r))
         in (et_root_run_id t = Some k \<longleftrightarrow>
               (\<exists>m\<le>32. (hops_to rt ^^ m) start k \<and> is_root rt k)) \<and>
            (case et_root_run_id t of
               None \<Rightarrow> et_origin t \<in> {''unverified'', ''continuation''} \<and> et_instructed_by_user_id t = None
             | Some j \<Rightarrow>
                 map_option lr_trigger_origin (rt j) = Some (et_origin t) \<and>
                 map_option lr_instructed_by_user_id (rt j) = Some (et_instructed_by_user_id t))"
proof -
  let ?start = "if lr_trigger_origin r = ''continuation'' then i else the (lr_parent_run_id r)"
  have t: "effective_run_trigger rt i r = chain_trigger (lineage_chain rt ?start)"
    using assms(2) by (auto simp: effective_run_trigger_def)
  show ?thesis
  proof (cases "et_root_run_id (effective_run_trigger rt i r)")
    case None
    with chain_trigger_none chain_trigger_root [of rt ?start k] assms(1) t show ?thesis
      by (auto simp: Let_def max_lineage_depth_def)
  next
    case (Some j)
    then obtain rk where "(j, rk) \<in> set (lineage_chain rt ?start)"
      "et_origin (effective_run_trigger rt i r) = lr_trigger_origin rk"
      "et_instructed_by_user_id (effective_run_trigger rt i r) = lr_instructed_by_user_id rk"
      using chain_trigger_row t by metis
    with lineage_chain_rows [of j rk rt ?start] chain_trigger_root [of rt ?start k] assms(1) t Some show ?thesis
      by (auto simp: Let_def max_lineage_depth_def)
  qed
qed

text \<open>A continuation that reports on a delegated run, which a person's run started.\<close>

definition lineage_of :: "string \<Rightarrow> string option \<Rightarrow> string option \<Rightarrow> lineage_row" where
  "lineage_of origin parent cause =
     \<lparr>lr_trigger_origin = origin, lr_instructed_by_user_id = Some ''ann'', lr_parent_run_id = parent,
      lr_cause_run_id = cause\<rparr>"

definition three_run_rows :: run_rows where
  "three_run_rows =
     [''c'' \<mapsto> lineage_of ''continuation'' None (Some ''d''), ''d'' \<mapsto> lineage_of ''delegation'' (Some ''m'') None,
      ''m'' \<mapsto> lineage_of ''manual'' None None]"

lemma verified_root_iff_witness:
  "et_root_run_id (effective_run_trigger three_run_rows ''c'' (lineage_of ''continuation'' None (Some ''d''))) =
     Some ''m''"
proof -
  have "hops_to three_run_rows ''c'' ''d''" "hops_to three_run_rows ''d'' ''m''"
    by (simp_all add: hops_to_def three_run_rows_def lineage_of_def next_run_def)
  then have "(hops_to three_run_rows ^^ Suc (Suc 0)) ''c'' ''m''"
    by (metis relpowp_Suc_I2 relpowp_0_I)
  moreover have "is_root three_run_rows ''m''"
    by (simp add: is_root_def three_run_rows_def lineage_of_def given_def)
  moreover have "three_run_rows [] = None" by (simp add: three_run_rows_def)
  ultimately show ?thesis
    using verified_root_iff [of three_run_rows "lineage_of ''continuation'' None (Some ''d'')" "''c''" "''m''"]
    by (auto simp: Let_def lineage_of_def simp del: relpowp.simps intro!: exI [of _ "Suc (Suc 0)"])
qed

text \<open>Two runs that spawned each other lead nowhere.\<close>

lemma loop_is_unverified:
  "et_origin (effective_run_trigger
     [''a'' \<mapsto> lineage_of ''manual'' (Some ''b'') None, ''b'' \<mapsto> lineage_of ''manual'' (Some ''a'') None]
     ''a'' (lineage_of ''manual'' (Some ''b'') None)) = ''unverified''"
  by code_simp

end
