(* ===== verification/CredentialSpend.thy ===== *)
theory CredentialSpend
  imports PolicyProperties RunLineage
begin

text \<open>
  Spending a model provider's key: \<open>server/src/modules/policy/credentialSpend.ts\<close>. Every spend names
  its basis - a person's request, a run, a recorded setup - and is decided by the credential rule of
  the policy gate on the origin that stands behind it. The tables read are a record of lists and maps;
  the callback that re-reads a setup is its answer.
\<close>

section \<open>What is read\<close>

record run_row = lineage_row +
  rr_contract_snapshot_json :: jsval

text \<open>The rows of \<open>runs\<close> per space and id, and of the automation tables.\<close>

record spend_db =
  sd_runs :: "string \<Rightarrow> string \<Rightarrow> run_row option"
  sd_automation_runs :: "(string \<times> string) list"
  sd_automations :: "(string \<times> string) list"
  sd_credential_grants :: "(string \<times> string \<times> string) list"

record spend_run =
  sp_id :: string
  sp_space_id :: string
  sp_parent_run_id :: "string option"
  sp_trigger_origin :: string
  sp_contract_snapshot_json :: jsval

datatype spend_basis =
    ByPerson string
  | ByRun spend_run
  | BySetup (setup_kind: string) (setup_record: string) (setup_user: string) (setup_still_authorized: bool)

datatype spend_denial = OtherSpace | NoDatabase | RuleDenied enforce_result

record spend_facts_record =
  sf_trigger_origin :: string
  sf_actor_type :: string
  sf_actor_id :: string
  sf_actor_ref :: "jsobj option"
  sf_run_id :: "string option"
  sf_context :: jsobj
  sf_metadata :: jsobj

definition run_lineage :: "spend_run \<Rightarrow> lineage_row" where
  "run_lineage run =
     \<lparr>lr_trigger_origin = sp_trigger_origin run, lr_instructed_by_user_id = None,
      lr_parent_run_id = sp_parent_run_id run, lr_cause_run_id = None\<rparr>"

definition lineage_rows :: "(string \<Rightarrow> run_row option) \<Rightarrow> run_rows" where
  "lineage_rows rows = (\<lambda>i. map_option lineage_row.truncate (rows i))"

definition spend_trigger :: "spend_db \<Rightarrow> spend_run \<Rightarrow> effective_run_trigger" where
  "spend_trigger db run =
     effective_run_trigger (lineage_rows (sd_runs db (sp_space_id run))) (sp_id run) (run_lineage run)"

text \<open>The id and the contract of the root, or of the run itself when no root is verified or stored.\<close>

definition spend_root :: "spend_db \<Rightarrow> spend_run \<Rightarrow> string \<times> jsval" where
  "spend_root db run =
     (case et_root_run_id (spend_trigger db run) of
        None \<Rightarrow> (sp_id run, sp_contract_snapshot_json run)
      | Some i \<Rightarrow>
          if i = [] \<or> i = sp_id run then (sp_id run, sp_contract_snapshot_json run)
          else (case sd_runs db (sp_space_id run) i of
                  None \<Rightarrow> (sp_id run, sp_contract_snapshot_json run)
                | Some row \<Rightarrow> (i, rr_contract_snapshot_json row)))"

text \<open>The automation that fired a root run and whether it holds an active grant now\<close>

definition automation_grant :: "spend_db \<Rightarrow> string \<Rightarrow> string \<Rightarrow> string option \<times> bool" where
  "automation_grant db space root_id =
     (case find (\<lambda>(automation, run). run = root_id \<and> (automation, space) \<in> set (sd_automations db))
             (sd_automation_runs db) of
        None \<Rightarrow> (None, False)
      | Some (automation, _) \<Rightarrow>
          (Some automation, (space, automation, ''active'') \<in> set (sd_credential_grants db)))"

section \<open>The decision\<close>

definition run_spend_facts :: "spend_db \<Rightarrow> string \<Rightarrow> spend_run \<Rightarrow> spend_facts_record" where
  "run_spend_facts db space run =
     (let origin = et_origin (spend_trigger db run);
          (root_id, root_contract) = spend_root db run;
          context = credential_policy_metadata (managed_execution_policy_from_contract root_contract);
          metadata = [(''root_run_id'', JStr root_id)];
          (automation, granted) = automation_grant db space root_id;
          unattended = (origin = ''automation'' \<or> origin = ''autonomous'')
      in \<lparr>sf_trigger_origin = origin, sf_actor_type = ''run'', sf_actor_id = sp_id run,
          sf_actor_ref = Some [(''run_id'', JStr (sp_id run)), (''root_run_id'', JStr root_id),
                               (''trigger_origin'', JStr origin)],
          sf_run_id = Some (sp_id run),
          sf_context =
            (if unattended then set_prop ''automation_pre_authorized'' (JBool granted) context else context),
          sf_metadata =
            (if unattended then set_prop ''automation_id'' (js_opt automation) metadata else metadata)\<rparr>)"

fun spend_facts :: "spend_db option \<Rightarrow> string \<Rightarrow> spend_basis \<Rightarrow> spend_denial + spend_facts_record" where
  "spend_facts db space (ByPerson user) =
     Inr \<lparr>sf_trigger_origin = ''manual'', sf_actor_type = ''user'', sf_actor_id = user, sf_actor_ref = None,
          sf_run_id = None, sf_context = [], sf_metadata = []\<rparr>"
| "spend_facts db space (BySetup setup rid user still) =
     Inr \<lparr>sf_trigger_origin = ''job'', sf_actor_type = ''user'', sf_actor_id = user,
          sf_actor_ref = Some [(''setup'', JStr setup), (''record_id'', JStr rid)],
          sf_run_id = None, sf_context = credential_setup_context setup still,
          sf_metadata = [(''setup'', JStr setup), (''setup_record_id'', JStr rid),
                         (''setup_still_authorized'', JBool still)]\<rparr>"
| "spend_facts db space (ByRun run) =
     (if sp_space_id run \<noteq> space then Inl OtherSpace
      else (case db of None \<Rightarrow> Inl NoDatabase | Some d \<Rightarrow> Inr (run_spend_facts d space run)))"

fun basis_kind :: "spend_basis \<Rightarrow> string" where
  "basis_kind (ByPerson _) = ''person''"
| "basis_kind (ByRun _) = ''run''"
| "basis_kind (BySetup _ _ _ _) = ''setup''"

definition spend_request :: "string \<Rightarrow> string option \<Rightarrow> spend_basis \<Rightarrow> spend_facts_record \<Rightarrow> policy_check_request" where
  "spend_request space provider basis f =
     \<lparr>rq_action = ''runtime.use_credential'', rq_actor_type = Some (sf_actor_type f),
      rq_actor_id = Some (sf_actor_id f), rq_actor_ref = sf_actor_ref f, rq_space_id = Some space,
      rq_resource_type = Some ''model_provider'', rq_resource_id = provider,
      rq_resource_space_id = Some space, rq_run_id = sf_run_id f, rq_proposal_id = None,
      rq_context = Some (js_assign [(''trigger_origin'', JStr (sf_trigger_origin f))] (sf_context f)),
      rq_payload = None,
      rq_metadata_json = Some (js_assign
        [(''spend_basis'', JStr (basis_kind basis)), (''trigger_origin'', JStr (sf_trigger_origin f)),
         (''credential_kind'', JStr ''model_provider''), (''provider_id'', js_opt provider)] (sf_metadata f)),
      rq_force_record = False\<rparr>"

text \<open>\<open>CredentialSpendAuthorization\<close>\<close>

record spend_authorization =
  ca_space_id :: string
  ca_run_id :: "string option"
  ca_provider_id :: "string option"
  ca_trigger_origin :: string
  ca_policy_decision_record_id :: "string option"

definition authorize_credential_spend ::
    "'db audit_insert \<Rightarrow> bool \<Rightarrow> string \<Rightarrow> spend_db option \<Rightarrow> string \<Rightarrow> string option \<Rightarrow> spend_basis \<Rightarrow> 'db
     \<Rightarrow> (spend_denial + spend_authorization) \<times> 'db" where
  "authorize_credential_spend ins configured now_iso db space provider basis audit =
     (case spend_facts db space basis of
        Inl denial \<Rightarrow> (Inl denial, audit)
      | Inr f \<Rightarrow>
          (let (res, audit') =
             enforce ins configured load_action_registry now_iso (spend_request space provider basis f) audit
           in if er_status res \<noteq> SAllow then (Inl (RuleDenied res), audit')
              else (Inr \<lparr>ca_space_id = space, ca_run_id = sf_run_id f, ca_provider_id = provider,
                         ca_trigger_origin = sf_trigger_origin f,
                         ca_policy_decision_record_id = er_record_id res\<rparr>, audit')))"

section \<open>Who may spend\<close>

text \<open>
  A run may spend when a person's run stands at its root, when the automation behind its root holds
  an active grant, or when the root's contract carries a managed execution registered for its origin.
\<close>

definition run_may_spend :: "spend_db \<Rightarrow> string \<Rightarrow> spend_run \<Rightarrow> bool" where
  "run_may_spend db space run \<longleftrightarrow>
     (let origin = et_origin (spend_trigger db run); (root_id, root_contract) = spend_root db run
      in origin = ''manual''
         \<or> origin \<in> {''automation'', ''autonomous''} \<and> snd (automation_grant db space root_id)
         \<or> (case managed_execution_policy_from_contract root_contract of
              None \<Rightarrow> False
            | Some p \<Rightarrow>
                me_credential_pre_authorized p \<and>
                map_of pre_authorized_origin (me_managed_execution p) = Some origin))"

fun may_spend :: "spend_db option \<Rightarrow> string \<Rightarrow> spend_basis \<Rightarrow> bool" where
  "may_spend db space (ByPerson user) \<longleftrightarrow> True"
| "may_spend db space (BySetup setup rid user still) \<longleftrightarrow>
     still \<and> map_of pre_authorized_origin setup = Some ''job''"
| "may_spend db space (ByRun run) \<longleftrightarrow>
     sp_space_id run = space \<and> (case db of None \<Rightarrow> False | Some d \<Rightarrow> run_may_spend d space run)"

text \<open>The engine context of the request: only the origin and the facts' own context matter to the rule.\<close>

abbreviation spend_ctx :: "string \<Rightarrow> string option \<Rightarrow> spend_basis \<Rightarrow> spend_facts_record \<Rightarrow> jsobj" where
  "spend_ctx space provider basis f \<equiv> build_engine_ctx (spend_request space provider basis f)"

lemma distinct_js_assign: "distinct (map fst tgt) \<Longrightarrow> distinct (map fst (js_assign tgt src))"
proof (induction src arbitrary: tgt)
  case (Cons kv src)
  obtain k v where kv: "kv = (k, v)" by (cases kv)
  have "js_assign tgt (kv # src) = js_assign (set_prop k v tgt) src" by (simp add: js_assign_def kv)
  moreover have "distinct (map fst (set_prop k v tgt))" using Cons.prems by (simp add: set_prop_def distinct_update)
  ultimately show ?case using Cons.IH by simp
qed (simp add: js_assign_def)

lemma has_prop_js_assign: "distinct (map fst src) \<Longrightarrow> has_prop (js_assign tgt src) k \<longleftrightarrow> has_prop tgt k \<or> has_prop src k"
  by (auto simp: has_prop_def map_of_js_assign map_add_def split: option.splits)

lemma spend_ctx_props:
  assumes "distinct (map fst (sf_context f))"
    and "\<forall>k\<in>{''action'', ''trigger_origin'', ''space_id'', ''resource_space_id''}. \<not> has_prop (sf_context f) k"
  shows "get_prop (spend_ctx space provider basis f) ''trigger_origin'' = JStr (sf_trigger_origin f)"
    and "get_prop (spend_ctx space provider basis f) ''space_id'' = (if space = [] then JUndef else JStr space)"
    and "get_prop (spend_ctx space provider basis f) ''resource_space_id'' = (if space = [] then JUndef else JStr space)"
    and "k \<in> {''managed_execution'', ''credential_pre_authorized'', ''automation_pre_authorized''} \<Longrightarrow>
      get_prop (spend_ctx space provider basis f) k = get_prop (sf_context f) k"
    and "context_keeps (spend_request space provider basis f) [''action'']"
proof -
  let ?c = "js_assign [(''trigger_origin'', JStr (sf_trigger_origin f))] (sf_context f)"
  have c: "get_prop ?c k = (if has_prop (sf_context f) k then get_prop (sf_context f) k
      else if k = ''trigger_origin'' then JStr (sf_trigger_origin f) else JUndef)"
    "has_prop ?c k \<longleftrightarrow> k = ''trigger_origin'' \<or> has_prop (sf_context f) k" for k
    using prop_js_assign [OF assms(1)] has_prop_js_assign [OF assms(1)] by auto
  have absent: "\<not> has_prop (sf_context f) k \<Longrightarrow> get_prop (sf_context f) k = JUndef" for k
    by (auto simp: has_prop_def get_prop_def)
  have d: "distinct (map fst ?c)" by (intro distinct_js_assign) simp
  define base where "base = build_engine_ctx ((spend_request space provider basis f)\<lparr>rq_context := None\<rparr>)"
  have ctx: "spend_ctx space provider basis f = js_assign base ?c"
    unfolding base_def build_engine_ctx_def Let_def by (simp add: spend_request_def)
  have get: "get_prop (spend_ctx space provider basis f) k =
      (if has_prop (sf_context f) k then get_prop (sf_context f) k
       else if k = ''trigger_origin'' then JStr (sf_trigger_origin f) else get_prop base k)" for k
    unfolding ctx prop_js_assign [OF d] c by simp
  have base: "get_prop base ''space_id'' = (if space = [] then JUndef else JStr space)"
    "get_prop base ''resource_space_id'' = (if space = [] then JUndef else JStr space)"
    "get_prop base ''managed_execution'' = JUndef" "get_prop base ''credential_pre_authorized'' = JUndef"
    "get_prop base ''automation_pre_authorized'' = JUndef"
    unfolding base_def build_engine_ctx_def Let_def
    by (simp_all add: spend_request_def js_opt_def)
  show "get_prop (spend_ctx space provider basis f) ''trigger_origin'' = JStr (sf_trigger_origin f)"
    "get_prop (spend_ctx space provider basis f) ''space_id'' = (if space = [] then JUndef else JStr space)"
    "get_prop (spend_ctx space provider basis f) ''resource_space_id'' = (if space = [] then JUndef else JStr space)"
    unfolding get using assms(2) base(1,2) by simp_all
  show "get_prop (spend_ctx space provider basis f) k = get_prop (sf_context f) k"
    if "k \<in> {''managed_execution'', ''credential_pre_authorized'', ''automation_pre_authorized''}" for k
    unfolding get using that base(3-5) absent [of k] by auto
  show "context_keeps (spend_request space provider basis f) [''action'']"
    using assms(2) by (simp add: context_keeps_def spend_request_def c)
qed

lemma managed_use_metadata:
  "is_true (get_prop (credential_policy_metadata m) ''credential_pre_authorized'') \<and>
   (case get_prop (credential_policy_metadata m) ''managed_execution'' of
      JStr kind \<Rightarrow> map_of pre_authorized_origin kind = Some origin | _ \<Rightarrow> False) \<longleftrightarrow>
   (case m of
      None \<Rightarrow> False
    | Some p \<Rightarrow> me_credential_pre_authorized p \<and> map_of pre_authorized_origin (me_managed_execution p) = Some origin)"
  by (simp add: credential_policy_metadata_def is_true_def split: option.split)

lemma run_facts_simps:
  "sf_trigger_origin (run_spend_facts d space run) = et_origin (spend_trigger d run)"
  "sf_run_id (run_spend_facts d space run) = Some (sp_id run)"
  "sf_context (run_spend_facts d space run) =
     (let context = credential_policy_metadata (managed_execution_policy_from_contract (snd (spend_root d run)))
      in if et_origin (spend_trigger d run) \<in> {''automation'', ''autonomous''}
         then set_prop ''automation_pre_authorized''
                (JBool (snd (automation_grant d space (fst (spend_root d run))))) context
         else context)"
  by (simp_all add: run_spend_facts_def Let_def split: prod.split)

lemma metadata_keys: "set (map fst (credential_policy_metadata m)) \<subseteq>
    {''managed_execution'', ''credential_pre_authorized'', ''failure_policy''}"
  "distinct (map fst (credential_policy_metadata m))"
  by (auto simp: credential_policy_metadata_def split: option.split)

lemma facts_context:
  assumes "spend_facts db space basis = Inr f"
  shows "distinct (map fst (sf_context f)) \<and>
    (\<forall>k\<in>{''action'', ''trigger_origin'', ''space_id'', ''resource_space_id''}. \<not> has_prop (sf_context f) k)"
proof (cases basis)
  case (ByRun run)
  then obtain d where f: "f = run_spend_facts d space run" using assms by (auto split: if_splits option.splits)
  have keys: "has_prop (credential_policy_metadata m) k \<Longrightarrow>
      k \<in> {''managed_execution'', ''credential_pre_authorized'', ''failure_policy''}" for m k
    using metadata_keys(1) [of m] by (auto simp: has_prop_def dest!: map_of_SomeD)
  have "distinct (map fst (set_prop k v (credential_policy_metadata m)))" for k v m
    unfolding set_prop_def using metadata_keys(2) by (rule distinct_update)
  with f metadata_keys(2) show ?thesis
    using keys by (auto simp: run_facts_simps Let_def dest!: keys)
qed (use assms in \<open>auto simp: credential_setup_context_def\<close>)

lemma set_prop_metadata:
  "get_prop (set_prop ''automation_pre_authorized'' v (credential_policy_metadata m)) ''automation_pre_authorized'' = v"
  "get_prop (credential_policy_metadata m) ''automation_pre_authorized'' = JUndef"
  by (simp_all add: credential_policy_metadata_def split: option.split)

lemma spend_ok_iff:
  assumes f: "spend_facts db space basis = Inr f"
  shows "credential_spend_ok (spend_ctx space provider basis f) \<longleftrightarrow> may_spend db space basis"
proof -
  have wf: "distinct (map fst (sf_context f))"
    "\<forall>k\<in>{''action'', ''trigger_origin'', ''space_id'', ''resource_space_id''}. \<not> has_prop (sf_context f) k"
    using facts_context [OF f] by blast+
  note ctx = spend_ctx_props [where f = f and space = space and provider = provider and basis = basis, OF wf]
  have ok: "credential_spend_ok (spend_ctx space provider basis f) \<longleftrightarrow>
      allows_managed_credential_use (sf_trigger_origin f) (sf_context f)
      \<or> sf_trigger_origin f \<in> {''automation'', ''autonomous''} \<and>
        get_prop (sf_context f) ''automation_pre_authorized'' = JBool True
      \<or> sf_trigger_origin f = ''manual''"
    by (simp add: credential_spend_ok_def allows_managed_credential_use_def ctx(1-3) ctx(4))
  show ?thesis
  proof (cases basis)
    case (ByPerson user)
    with f ok show ?thesis by auto
  next
    case (BySetup kind rid user still)
    then have "sf_trigger_origin f = ''job''" "sf_context f = credential_setup_context kind still"
      using f by auto
    then show ?thesis unfolding ok by (simp add: BySetup setup_context_allows_iff)
  next
    case (ByRun run)
    then obtain d where d: "f = run_spend_facts d space run" "sp_space_id run = space" "db = Some d"
      using f by (auto split: if_splits option.splits)
    have managed: "allows_managed_credential_use origin (sf_context f) \<longleftrightarrow>
        (case managed_execution_policy_from_contract (snd (spend_root d run)) of
           None \<Rightarrow> False
         | Some p \<Rightarrow> me_credential_pre_authorized p \<and>
             map_of pre_authorized_origin (me_managed_execution p) = Some origin)" for origin
      unfolding managed_use_metadata [symmetric] allows_managed_credential_use_def d(1) run_facts_simps
      by (simp add: Let_def)
    show ?thesis
      unfolding ok managed unfolding d(1) run_facts_simps
      by (cases "spend_root d run")
        (auto simp: ByRun d(2,3) run_may_spend_def Let_def set_prop_metadata)
  qed
qed

lemma no_facts: "spend_facts db space basis = Inl e \<Longrightarrow> \<not> may_spend db space basis"
  by (cases basis) (auto split: if_splits option.splits)

text \<open>The credential rule fails closed: allowed means allowed and recorded.\<close>

lemma enforce_credential:
  assumes req: "rq_action req = ''runtime.use_credential''" "context_keeps req [''action'']"
    and run: "enforce ins configured load_action_registry now_iso req db = (res, db')"
  shows "er_status res = SAllow \<longleftrightarrow>
      credential_spend_ok (build_engine_ctx req) \<and> er_record_id res \<noteq> None"
    and "credential_spend_ok (build_engine_ctx req) \<Longrightarrow> er_record_id res = None \<Longrightarrow>
      \<not> configured \<or> (\<exists>env. ae_action env = ''runtime.use_credential'' \<and> fst (ins db env) = None)"
proof -
  obtain defn where defn: "load_action_registry ''runtime.use_credential'' = Some defn"
    "ad_record_failure_mode defn = FailClosed"
    using load_registered [OF registered_entries(1)] by blast
  obtain df d where c: "compute_decision load_action_registry req = (df, d)" by fastforce
  have df: "df = Some defn"
    using c defn(1) req(1) by (auto simp: compute_decision_def get_action_definition_def Let_def split: option.splits if_splits lifecycle_status.splits)
  have allow: "pd_decision d = Allow \<longleftrightarrow> credential_spend_ok (build_engine_ctx req)"
    using credential_gate [OF req(2,1)] c by simp
  have fc: "is_durable_audit_required df d req" "resolve_failure_mode df d req = FailClosed"
    using df defn(2) by (simp_all add: is_durable_audit_required_def resolve_failure_mode_def Let_def)
  let ?env = "build_audit_envelope req d df now_iso"
  have act: "ae_action ?env = ''runtime.use_credential''"
    using req(1) by (simp add: build_audit_envelope_def Let_def)
  have dec: "pd_decision d \<noteq> Allow \<longleftrightarrow> pd_decision d = Deny \<or> pd_decision d = RequireApproval"
    by (cases "pd_decision d") simp_all
  obtain rid db1 where p: "persist_audit ins configured db ?env = (rid, db1)" by fastforce
  show "er_status res = SAllow \<longleftrightarrow> credential_spend_ok (build_engine_ctx req) \<and> er_record_id res \<noteq> None"
    using run c p allow fc dec
    by (auto simp: enforce_def audit_failed_result_def split: option.splits if_splits)
  show "\<not> configured \<or> (\<exists>env. ae_action env = ''runtime.use_credential'' \<and> fst (ins db env) = None)"
    if "credential_spend_ok (build_engine_ctx req)" "er_record_id res = None"
  proof -
    have "rid = None"
      using that run c p allow fc dec by (auto simp: enforce_def split: option.splits if_splits)
    with p have "\<not> configured \<or> fst (ins db ?env) = None" by (auto simp: persist_audit_def split: if_splits)
    with act show ?thesis by blast
  qed
qed

lemma spend_authorization:
  assumes "authorize_credential_spend ins configured now_iso db space provider basis audit = (r, audit')"
  shows "case r of
      Inr a \<Rightarrow>
        may_spend db space basis \<and> ca_space_id a = space \<and> ca_provider_id a = provider \<and>
        ca_run_id a = (case basis of ByRun run \<Rightarrow> Some (sp_id run) | _ \<Rightarrow> None) \<and>
        ca_policy_decision_record_id a \<noteq> None
    | Inl _ \<Rightarrow>
        may_spend db space basis \<longrightarrow>
        \<not> configured \<or> (\<exists>env. ae_action env = ''runtime.use_credential'' \<and> fst (ins audit env) = None)"
proof (cases "spend_facts db space basis")
  case (Inl e)
  with assms no_facts [OF Inl] show ?thesis by (auto simp: authorize_credential_spend_def)
next
  case (Inr f)
  let ?req = "spend_request space provider basis f"
  obtain res au where run: "enforce ins configured load_action_registry now_iso ?req audit = (res, au)" by fastforce
  have wf: "distinct (map fst (sf_context f))"
    "\<forall>k\<in>{''action'', ''trigger_origin'', ''space_id'', ''resource_space_id''}. \<not> has_prop (sf_context f) k"
    using facts_context [OF Inr] by blast+
  have req: "rq_action ?req = ''runtime.use_credential''" by (simp add: spend_request_def)
  have who: "sf_run_id f = (case basis of ByRun run \<Rightarrow> Some (sp_id run) | _ \<Rightarrow> None)"
    using Inr by (cases basis) (auto simp: run_facts_simps split: if_splits option.splits)
  note e = enforce_credential [OF req spend_ctx_props(5) [OF wf] run]
  show ?thesis
  proof (cases "er_status res = SAllow")
    case True
    then show ?thesis
      using assms Inr run e(1) spend_ok_iff [OF Inr] who by (auto simp: authorize_credential_spend_def Let_def)
  next
    case False
    then have "r = Inl (RuleDenied res)" using assms Inr run by (simp add: authorize_credential_spend_def)
    with False e spend_ok_iff [OF Inr] show ?thesis by auto
  qed
qed

lemma spend_authorization_facts:
  "authorize_credential_spend ins configured now_iso db space provider basis audit = (Inr a, audit') \<Longrightarrow>
   may_spend db space basis \<and> ca_space_id a = space \<and> ca_provider_id a = provider \<and>
   ca_run_id a = (case basis of ByRun run \<Rightarrow> Some (sp_id run) | _ \<Rightarrow> None) \<and>
   ca_policy_decision_record_id a \<noteq> None"
  by (drule spend_authorization) simp

text \<open>
  C4. A provider key is spent only on an authorization: the proof that a spend was decided exists only
  for a person's request, for a setup that still stands and is registered for jobs, or for a run whose
  verified root is a person's, holds an active automation grant or carries a managed execution
  registered for its origin; it names exactly the space, run and provider decided on and its audit row.
  A spend that is allowed is refused only when that row could not be written.
\<close>

theorem credential_spend_authorized:
  assumes "authorize_credential_spend ins configured now_iso db space provider basis audit = (r, audit')"
  shows "case r of
      Inr a \<Rightarrow>
        may_spend db space basis \<and> ca_space_id a = space \<and> ca_provider_id a = provider \<and>
        ca_run_id a = (case basis of ByRun run \<Rightarrow> Some (sp_id run) | _ \<Rightarrow> None) \<and>
        ca_policy_decision_record_id a \<noteq> None
    | Inl _ \<Rightarrow>
        may_spend db space basis \<longrightarrow>
        \<not> configured \<or> (\<exists>env. ae_action env = ''runtime.use_credential'' \<and> fst (ins audit env) = None)"
  by (rule spend_authorization [OF assms])

text \<open>A continuation whose root is a person's run spends as that person's turn does.\<close>

definition sample_spend_db :: spend_db where
  "sample_spend_db =
     \<lparr>sd_runs = (\<lambda>space i. if space = ''s''
        then map_option (\<lambda>r. lineage_row.extend r (run_row.fields JNull)) (three_run_rows i) else None),
      sd_automation_runs = [], sd_automations = [], sd_credential_grants = []\<rparr>"

definition sample_spend_run :: spend_run where
  "sample_spend_run =
     \<lparr>sp_id = ''c'', sp_space_id = ''s'', sp_parent_run_id = None, sp_trigger_origin = ''continuation'',
      sp_contract_snapshot_json = JNull\<rparr>"

lemma sample_spend_allowed:
  "\<exists>a audit'. authorize_credential_spend write_policy_audit True ''now'' (Some sample_spend_db) ''s'' (Some ''p'')
     (ByRun sample_spend_run) empty_table = (Inr a, audit') \<and> ca_run_id a = Some ''c''"
proof -
  obtain r audit' where run: "authorize_credential_spend write_policy_audit True ''now'' (Some sample_spend_db) ''s''
      (Some ''p'') (ByRun sample_spend_run) empty_table = (r, audit')" by fastforce
  have "may_spend (Some sample_spend_db) ''s'' (ByRun sample_spend_run)" by code_simp
  moreover have "fst (write_policy_audit empty_table env) = Some ''row''" for env
    by (simp add: write_policy_audit_def empty_table_def Let_def)
  ultimately have "\<exists>a. r = Inr a \<and> ca_run_id a = Some ''c''"
    using spend_authorization [OF run] by (cases r) (auto simp: sample_spend_run_def)
  with run show ?thesis by blast
qed

lemma credential_spend_authorized_witness:
  "\<exists>a audit'. authorize_credential_spend write_policy_audit True ''now'' (Some sample_spend_db) ''s'' (Some ''p'')
     (ByRun sample_spend_run) empty_table = (Inr a, audit') \<and> ca_run_id a = Some ''c''"
proof -
  obtain r audit' where run: "authorize_credential_spend write_policy_audit True ''now'' (Some sample_spend_db) ''s''
      (Some ''p'') (ByRun sample_spend_run) empty_table = (r, audit')" by fastforce
  have "may_spend (Some sample_spend_db) ''s'' (ByRun sample_spend_run)" by code_simp
  moreover have "fst (write_policy_audit empty_table env) = Some ''row''" for env
    by (simp add: write_policy_audit_def empty_table_def Let_def)
  ultimately have "\<exists>a. r = Inr a \<and> ca_run_id a = Some ''c''"
    using credential_spend_authorized [OF run] by (cases r) (auto simp: sample_spend_run_def)
  with run show ?thesis by blast
qed

text \<open>The same run with an unknown cause is nobody's turn.\<close>

lemma unknown_cause_denied:
  "\<not> may_spend (Some (sample_spend_db\<lparr>sd_runs := (\<lambda>_ _. None)\<rparr>)) ''s'' (ByRun sample_spend_run)"
  by code_simp

end
