(* ===== verification/ProviderLeases.thy ===== *)
theory ProviderLeases
  imports CredentialSpend
begin

text \<open>
  Leases of the provider proxy: \<open>server/src/modules/providers/proxy/lease.ts\<close> and the admission of a
  request in \<open>proxy/server.ts\<close>. A lease lets its holder spend a provider's key through the proxy. The
  clock, the random ids and tokens and the SHA-256 of a token are arguments.
\<close>

section \<open>Leases\<close>

datatype proxy_route = AnthropicRoute | OpenaiRoute

record lease_input =
  li_run_id :: string
  li_space_id :: string
  li_provider_id :: string
  li_provider_type :: "string option"
  li_provider_name_snapshot :: "string option"
  li_network_profile_id :: "string option"
  li_route :: "proxy_route option"
  li_upstream_base_url :: string
  li_model :: "string option"
  li_pinned_model :: "string option"
  li_runtime_key :: "string option"
  li_session_id :: "string option"
  li_parent_run_id :: "string option"
  li_root_run_id :: "string option"
  li_run_group_id :: "string option"
  li_agent_id :: "string option"
  li_project_id :: "string option"
  li_project_folder_id :: "string option"
  li_trigger_origin :: "string option"
  li_host_id :: "string option"
  li_invocation_audit_refs :: "jsval option"
  li_ttl_ms :: int

record provider_lease =
  pl_id :: string
  pl_token_hash :: string
  pl_run_id :: string
  pl_space_id :: string
  pl_provider_id :: string
  pl_provider_type :: "string option"
  pl_host_id :: "string option"
  pl_provider_name_snapshot :: "string option"
  pl_network_profile_id :: "string option"
  pl_route :: proxy_route
  pl_upstream_base_url :: string
  pl_model :: "string option"
  pl_pinned_model :: "string option"
  pl_runtime_key :: "string option"
  pl_session_id :: "string option"
  pl_parent_run_id :: "string option"
  pl_root_run_id :: "string option"
  pl_run_group_id :: "string option"
  pl_agent_id :: "string option"
  pl_project_id :: "string option"
  pl_project_folder_id :: "string option"
  pl_trigger_origin :: "string option"
  pl_invocation_audit_refs :: "jsval option"
  pl_usage_sequence :: nat
  pl_expires_at_ms :: int

text \<open>\<open>value.trim().replace(/\/+$/, "")\<close>\<close>

definition normalize_base_url :: "string \<Rightarrow> string" where
  "normalize_base_url v = rev (dropWhile (\<lambda>c. c = CHR 0x2F) (rev (js_trim v)))"

type_synonym lease_table = "(string \<times> provider_lease) list"

definition prune_expired :: "int \<Rightarrow> lease_table \<Rightarrow> lease_table" where
  "prune_expired now leases = filter (\<lambda>(_, l). \<not> pl_expires_at_ms l \<le> now) leases"

definition lease_record :: "(string \<Rightarrow> string) \<Rightarrow> lease_input \<Rightarrow> string \<Rightarrow> string \<Rightarrow> int \<Rightarrow> provider_lease" where
  "lease_record sha inp i token expires =
     \<lparr>pl_id = i, pl_token_hash = sha token, pl_run_id = li_run_id inp, pl_space_id =
      li_space_id inp, pl_provider_id = li_provider_id inp, pl_provider_type = li_provider_type inp,
      pl_host_id = li_host_id inp, pl_provider_name_snapshot = li_provider_name_snapshot inp,
      pl_network_profile_id = li_network_profile_id inp, pl_route = (case li_route inp of None
      \<Rightarrow> AnthropicRoute | Some r \<Rightarrow> r), pl_upstream_base_url =
      normalize_base_url (li_upstream_base_url inp), pl_model = li_model inp, pl_pinned_model =
      li_pinned_model inp, pl_runtime_key = li_runtime_key inp, pl_session_id = li_session_id inp,
      pl_parent_run_id = li_parent_run_id inp, pl_root_run_id = li_root_run_id inp, pl_run_group_id
      = li_run_group_id inp, pl_agent_id = li_agent_id inp, pl_project_id = li_project_id inp,
      pl_project_folder_id = li_project_folder_id inp, pl_trigger_origin = li_trigger_origin inp,
      pl_invocation_audit_refs = li_invocation_audit_refs inp, pl_usage_sequence = 0,
      pl_expires_at_ms = expires\<rparr>"

text \<open>One authorization covers one run's spend on one provider.\<close>

definition covers :: "spend_authorization \<Rightarrow> lease_input \<Rightarrow> bool" where
  "covers a inp \<longleftrightarrow>
     ca_space_id a = li_space_id inp \<and> ca_run_id a = Some (li_run_id inp) \<and>
     ca_provider_id a = Some (li_provider_id inp)"

text \<open>
  \<open>create\<close> with its random id and token; nothing is returned for the exception. The lease handed out
  is the record without its hash, together with the token.
\<close>

definition create_lease ::
    "(string \<Rightarrow> string) \<Rightarrow> spend_authorization \<Rightarrow> lease_input \<Rightarrow> string \<Rightarrow> string \<Rightarrow> int \<Rightarrow> lease_table
     \<Rightarrow> (provider_lease \<times> string) option \<times> lease_table" where
  "create_lease sha a inp i token now leases =
     (if \<not> covers a inp then (None, leases)
      else (let l = lease_record sha inp i token (now + max (li_ttl_ms inp) 1000)
            in (Some (l, token), AList.update i l (prune_expired now leases))))"

definition resolve_lease ::
    "(string \<Rightarrow> string) \<Rightarrow> string \<Rightarrow> string \<Rightarrow> int \<Rightarrow> lease_table \<Rightarrow> provider_lease option \<times> lease_table" where
  "resolve_lease sha i token now leases =
     (case map_of leases i of
        None \<Rightarrow> (None, leases)
      | Some l \<Rightarrow>
          if pl_expires_at_ms l \<le> now then (None, AList.delete i leases)
          else if sha token \<noteq> pl_token_hash l then (None, leases)
          else (Some l, leases))"

definition renew_lease :: "string \<Rightarrow> int \<Rightarrow> int \<Rightarrow> lease_table \<Rightarrow> lease_table" where
  "renew_lease i ttl now leases =
     (case map_of leases i of
        None \<Rightarrow> leases
      | Some l \<Rightarrow>
          if pl_expires_at_ms l > now then AList.update i (l\<lparr>pl_expires_at_ms := now + max ttl 1000\<rparr>) leases
          else leases)"

definition revoke_lease :: "string \<Rightarrow> lease_table \<Rightarrow> lease_table" where
  "revoke_lease i leases = AList.delete i leases"

definition revoke_run :: "string \<Rightarrow> lease_table \<Rightarrow> lease_table" where
  "revoke_run run leases = filter (\<lambda>(_, l). pl_run_id l \<noteq> run) leases"

definition revoke_host :: "string \<Rightarrow> lease_table \<Rightarrow> nat \<times> lease_table" where
  "revoke_host host leases =
     (length (filter (\<lambda>(_, l). pl_host_id l = Some host) leases),
      filter (\<lambda>(_, l). pl_host_id l \<noteq> Some host) leases)"

definition lease_count :: "int \<Rightarrow> lease_table \<Rightarrow> nat \<times> lease_table" where
  "lease_count now leases = (length (prune_expired now leases), prune_expired now leases)"

section \<open>A request to the proxy\<close>

text \<open>
  What admission reads of a request: the first two parts of the path, the second one decoded, three
  headers, and the body when it is a JSON object. Whether the key can be resolved is the answer of the credential store.
\<close>

record proxy_request =
  pq_route :: "string option"
  pq_lease_id :: "string option"
  pq_authorization :: "string option"
  pq_anthropic_auth_token :: "string option"
  pq_x_api_key :: "string option"
  pq_body :: "jsobj option"

datatype proxy_answer =
    ProxyRouteNotFound | ProxyTokenRequired | ProxyTokenInvalid | ProxyCredentialUnavailable
  | ProxyModelNotLeased | Forwarded provider_lease nat

definition provider_proxy_route :: "string option \<Rightarrow> proxy_route option" where
  "provider_proxy_route v =
     (if v = Some ''anthropic'' then Some AnthropicRoute
      else if v = Some ''openai'' then Some OpenaiRoute else None)"

text \<open>\<open>/^Bearer\s+(.+)$/i.exec(auth.trim())\<close> and the trimmed token\<close>

definition bearer_token :: "string \<Rightarrow> string option" where
  "bearer_token auth =
     (let s = js_trim auth; rest = drop 6 s; token = dropWhile js_space rest
      in if js_lower (take 6 s) = ''bearer'' \<and> rest \<noteq> [] \<and> js_space (hd rest) \<and> token \<noteq> [] \<and>
            list_all (\<lambda>c. c \<noteq> CHR 0x0A \<and> c \<noteq> CHR 0x0D) token
         then Some (js_trim token) else None)"

definition request_lease_token :: "proxy_request \<Rightarrow> string option" where
  "request_lease_token req =
     (case (case pq_authorization req of None \<Rightarrow> None | Some auth \<Rightarrow> bearer_token auth) of
        Some token \<Rightarrow> Some token
      | None \<Rightarrow>
          (case pq_anthropic_auth_token req of Some token \<Rightarrow> Some token | None \<Rightarrow> pq_x_api_key req))"

definition requested_model :: "proxy_request \<Rightarrow> string option" where
  "requested_model req =
     (case pq_body req of
        None \<Rightarrow> None
      | Some b \<Rightarrow>
          (case get_prop b ''model'' of JStr s \<Rightarrow> (if js_trim s \<noteq> [] then Some s else None) | _ \<Rightarrow> None))"

definition admit_request ::
    "(string \<Rightarrow> string) \<Rightarrow> bool \<Rightarrow> int \<Rightarrow> proxy_request \<Rightarrow> lease_table \<Rightarrow> proxy_answer \<times> lease_table" where
  "admit_request sha key_available now req leases =
     (case provider_proxy_route (pq_route req) of
        None \<Rightarrow> (ProxyRouteNotFound, leases)
      | Some route \<Rightarrow>
     (case pq_lease_id req of
        None \<Rightarrow> (ProxyRouteNotFound, leases)
      | Some i \<Rightarrow>
     (if \<not> given (request_lease_token req) then (ProxyTokenRequired, leases)
      else (case resolve_lease sha i (the (request_lease_token req)) now leases of
              (None, leases') \<Rightarrow> (ProxyTokenInvalid, leases')
            | (Some l, leases') \<Rightarrow>
                if pl_route l \<noteq> route then (ProxyTokenInvalid, leases')
                else (let used = l\<lparr>pl_usage_sequence := pl_usage_sequence l + 1\<rparr>;
                          leases'' = AList.update i used leases'
                      in if \<not> key_available then (ProxyCredentialUnavailable, leases'')
                         else if given (pl_pinned_model l) \<and> given (requested_model req) \<and>
                                 requested_model req \<noteq> pl_pinned_model l
                         then (ProxyModelNotLeased, leases'')
                         else (Forwarded used (pl_usage_sequence used), leases''))))))"

section \<open>What is sent upstream\<close>

definition hop_by_hop_headers :: "string list" where
  "hop_by_hop_headers =
     [''connection'', ''keep-alive'', ''proxy-authenticate'', ''proxy-authorization'', ''te'', ''trailer'',
      ''transfer-encoding'', ''upgrade'']"

text \<open>The values of a header, one in the usual case.\<close>

definition first_header :: "string list \<Rightarrow> string option" where
  "first_header vs = (case vs of [] \<Rightarrow> None | v # _ \<Rightarrow> Some v)"

definition kept_header :: "string \<Rightarrow> bool" where
  "kept_header key \<longleftrightarrow>
     js_lower key \<notin> set hop_by_hop_headers \<and>
     js_lower key \<notin> {''host'', ''content-length'', ''authorization'', ''x-api-key'', ''anthropic-auth-token''}"

definition upstream_headers ::
    "proxy_route \<Rightarrow> (string \<times> string list) list \<Rightarrow> string \<Rightarrow> (string \<times> string) list" where
  "upstream_headers route headers api_key =
     (let kept = fold (\<lambda>(key, vs) hs.
                    if kept_header key
                    then (case first_header vs of None \<Rightarrow> hs | Some v \<Rightarrow> AList.update key v hs)
                    else hs) headers [];
          hs = AList.update ''accept-encoding'' ''identity''
                 (AList.update ''authorization'' (''Bearer '' @ api_key) kept)
      in if route = AnthropicRoute then AList.update ''x-api-key'' api_key hs else hs)"

definition upstream_request_url :: "string \<Rightarrow> string \<Rightarrow> string \<Rightarrow> string" where
  "upstream_request_url base_url path search =
     rev (dropWhile (\<lambda>c. c = CHR 0x2F) (rev base_url)) @ (if path = ''/'' then [] else path) @ search"

text \<open>The lease token of the client never goes upstream: the three headers that carry it hold the key, or are absent.\<close>

lemma kept_headers:
  "(k, v) \<in> set (fold (\<lambda>(key, vs) hs.
      if kept_header key then (case first_header vs of None \<Rightarrow> hs | Some v \<Rightarrow> AList.update key v hs) else hs) headers hs) \<Longrightarrow>
   \<forall>(k, v)\<in>set hs. kept_header k \<Longrightarrow> kept_header k"
proof (induction headers arbitrary: hs)
  case (Cons h headers)
  obtain key vs where h: "h = (key, vs)" by (cases h)
  have "\<forall>(k, v)\<in>set (AList.update key v hs). kept_header k" if "kept_header key" for v
    using that Cons.prems(2) set_update_subset by fastforce
  with Cons h show ?case by (auto split: option.splits if_splits)
qed auto

lemma token_stays_here:
  assumes "(k, v) \<in> set (upstream_headers route headers api_key)"
    and "js_lower k \<in> {''authorization'', ''x-api-key'', ''anthropic-auth-token''}"
  shows "v = api_key \<or> v = ''Bearer '' @ api_key"
proof -
  let ?kept = "fold (\<lambda>(key, vs) hs.
      if kept_header key then (case first_header vs of None \<Rightarrow> hs | Some v \<Rightarrow> AList.update key v hs) else hs) headers []"
  have lower: "js_lower ''accept-encoding'' = ''accept-encoding''" by code_simp
  have "(k, v) \<notin> set ?kept"
  proof
    assume "(k, v) \<in> set ?kept"
    then have "kept_header k" by (rule kept_headers) simp
    with assms(2) show False by (auto simp: kept_header_def)
  qed
  then show ?thesis
    using assms lower unfolding upstream_headers_def Let_def
    by (auto split: if_splits dest!: set_update_subset)
qed

section \<open>What happens to the table\<close>

datatype lease_op =
    Create spend_authorization lease_input string string
  | Resolve string string
  | Renew string int
  | Revoke string
  | RevokeRun string
  | RevokeHost string
  | Count
  | Serve bool proxy_request

type_synonym lease_history = "(int \<times> lease_op) list"

fun lease_op_step :: "(string \<Rightarrow> string) \<Rightarrow> int \<times> lease_op \<Rightarrow> lease_table \<Rightarrow> lease_table" where
  "lease_op_step sha (t, Create a inp i token) leases = snd (create_lease sha a inp i token t leases)"
| "lease_op_step sha (t, Resolve i token) leases = snd (resolve_lease sha i token t leases)"
| "lease_op_step sha (t, Renew i ttl) leases = renew_lease i ttl t leases"
| "lease_op_step sha (t, Revoke i) leases = revoke_lease i leases"
| "lease_op_step sha (t, RevokeRun run) leases = revoke_run run leases"
| "lease_op_step sha (t, RevokeHost host) leases = snd (revoke_host host leases)"
| "lease_op_step sha (t, Count) leases = snd (lease_count t leases)"
| "lease_op_step sha (t, Serve key req) leases = snd (admit_request sha key t req leases)"

definition leases_after :: "(string \<Rightarrow> string) \<Rightarrow> lease_history \<Rightarrow> lease_table" where
  "leases_after sha h = fold (lease_op_step sha) h []"

text \<open>
  The same from the history alone: when a lease ends, what takes it away, and which lease is out with
  which deadline.
\<close>

definition next_deadline :: "string \<Rightarrow> int \<Rightarrow> int \<times> lease_op \<Rightarrow> int" where
  "next_deadline i e x =
     (case x of (t, Renew j ttl) \<Rightarrow> if j = i \<and> t < e then t + max ttl 1000 else e | _ \<Rightarrow> e)"

definition deadline :: "string \<Rightarrow> int \<Rightarrow> lease_history \<Rightarrow> int" where
  "deadline i e h = fold (\<lambda>x e. next_deadline i e x) h e"

fun takes_away :: "string \<Rightarrow> lease_input \<Rightarrow> lease_op \<Rightarrow> bool" where
  "takes_away i inp (Revoke j) \<longleftrightarrow> j = i"
| "takes_away i inp (RevokeRun run) \<longleftrightarrow> run = li_run_id inp"
| "takes_away i inp (RevokeHost host) \<longleftrightarrow> li_host_id inp = Some host"
| "takes_away i inp _ \<longleftrightarrow> False"

definition lease_out :: "lease_history \<Rightarrow> string \<Rightarrow> spend_authorization \<Rightarrow> lease_input \<Rightarrow> string \<Rightarrow> int \<Rightarrow> bool" where
  "lease_out h i a inp token e \<longleftrightarrow>
     (\<exists>before t later. h = before @ (t, Create a inp i token) # later \<and> covers a inp \<and>
        (\<forall>x\<in>set later. \<not> takes_away i inp (snd x)) \<and> e = deadline i (t + max (li_ttl_ms inp) 1000) later)"

definition created_ids :: "lease_history \<Rightarrow> string list" where
  "created_ids h = concat (map (\<lambda>(_, op). case op of Create _ _ i _ \<Rightarrow> [i] | _ \<Rightarrow> []) h)"

text \<open>Time does not run backwards, and no id is drawn twice.\<close>

definition history_ok :: "lease_history \<Rightarrow> bool" where
  "history_ok h \<longleftrightarrow> sorted (map fst h) \<and> distinct (created_ids h)"

section \<open>The table is its history\<close>

text \<open>The lease of an id that is still running at a time, whatever its number of uses.\<close>

definition unused :: "provider_lease \<Rightarrow> provider_lease" where
  "unused l = l\<lparr>pl_usage_sequence := 0\<rparr>"

definition until :: "int \<Rightarrow> provider_lease option \<Rightarrow> provider_lease option" where
  "until now l = (case l of None \<Rightarrow> None | Some l \<Rightarrow> if now < pl_expires_at_ms l then Some l else None)"

definition running :: "lease_table \<Rightarrow> string \<Rightarrow> int \<Rightarrow> provider_lease option" where
  "running leases i now = until now (map_option unused (map_of leases i))"

lemma unused_simps [simp]:
  "pl_expires_at_ms (unused l) = pl_expires_at_ms l" "pl_run_id (unused l) = pl_run_id l"
  "pl_host_id (unused l) = pl_host_id l" "unused (unused l) = unused l"
  "unused (l\<lparr>pl_usage_sequence := n\<rparr>) = unused l"
  "unused (l\<lparr>pl_expires_at_ms := e\<rparr>) = (unused l)\<lparr>pl_expires_at_ms := e\<rparr>"
  "unused (lease_record sha inp i token e) = lease_record sha inp i token e"
  by (simp_all add: unused_def lease_record_def)

lemma until_simps [simp]: "until now None = None"
  "until now (Some l) = (if now < pl_expires_at_ms l then Some l else None)"
  by (simp_all add: until_def)

lemma map_of_filter_snd:
  "distinct (map fst xs) \<Longrightarrow>
   map_of (filter (\<lambda>(_, l). P l) xs) i = (case map_of xs i of None \<Rightarrow> None | Some l \<Rightarrow> if P l then Some l else None)"
proof (induction xs)
  case (Cons x xs)
  have "map_of xs (fst x) = None" using Cons.prems by (simp add: map_of_eq_None_iff)
  with Cons show ?case by (cases x) (auto split: option.splits)
qed simp

lemma distinct_leases:
  assumes d: "distinct (map fst leases)"
  shows "distinct (map fst (lease_op_step sha x leases))"
proof -
  have f: "distinct (map fst (filter P leases))" for P :: "string \<times> provider_lease \<Rightarrow> bool"
    using d by (rule distinct_map_filter)
  show ?thesis
  proof (cases "(sha, x, leases)" rule: lease_op_step.cases)
    case (1 sha' t a inp i token leases')
    then show ?thesis using d f by (simp add: create_lease_def prune_expired_def Let_def distinct_update)
  next
    case (8 sha' t key req leases')
    then show ?thesis
      using d distinct_update distinct_delete
      by (auto simp: admit_request_def resolve_lease_def Let_def split: option.splits)
  qed (use d f distinct_update distinct_delete in \<open>auto simp: prune_expired_def resolve_lease_def renew_lease_def
      revoke_lease_def revoke_run_def revoke_host_def lease_count_def split: option.splits\<close>)
qed

lemma resolve_running: "now \<ge> t \<Longrightarrow> running (snd (resolve_lease sha j token t leases)) i now = running leases i now"
  by (auto simp: running_def resolve_lease_def delete_conv' map_of_delete split: option.splits)

lemma admit_running: "now \<ge> t \<Longrightarrow> running (snd (admit_request sha key t req leases)) i now = running leases i now"
proof -
  assume t: "now \<ge> t"
  have used: "running (AList.update j (l\<lparr>pl_usage_sequence := n\<rparr>) ls) i now = running ls i now"
    if "map_of ls j = Some l" for j l n ls
    using that by (simp add: running_def update_conv')
  have res: "map_of ls' j = Some l" if "resolve_lease sha j token t leases = (Some l, ls')" for j token l ls'
    using that by (auto simp: resolve_lease_def split: option.splits if_splits)
  show ?thesis
  proof (cases "\<exists>route j. provider_proxy_route (pq_route req) = Some route \<and> pq_lease_id req = Some j \<and>
      given (request_lease_token req)")
    case False
    then have "snd (admit_request sha key t req leases) = leases"
      by (auto simp: admit_request_def split: option.splits)
    then show ?thesis by simp
  next
    case True
    then obtain route j where ok: "provider_proxy_route (pq_route req) = Some route" "pq_lease_id req = Some j"
      "given (request_lease_token req)" by blast
    obtain r ls where r: "resolve_lease sha j (the (request_lease_token req)) t leases = (r, ls)" by fastforce
    then have same: "running ls i now = running leases i now" using resolve_running [OF t] by (metis snd_conv)
    show ?thesis
    proof (cases r)
      case None
      with ok r same show ?thesis by (simp add: admit_request_def)
    next
      case (Some l)
      with res r have "map_of ls j = Some l" by simp
      with used [OF this] ok r Some same show ?thesis by (simp add: admit_request_def Let_def)
    qed
  qed
qed

lemma prune_running:
  "distinct (map fst leases) \<Longrightarrow> t \<le> now \<Longrightarrow> running (prune_expired t leases) i now = running leases i now"
  by (auto simp: running_def prune_expired_def map_of_filter_snd split: option.splits)

lemma running_later: "t \<le> now \<Longrightarrow> running leases i now = until now (running leases i t)"
  by (auto simp: running_def until_def split: option.splits)

text \<open>One operation, as a change of the running leases.\<close>

fun running_step :: "(string \<Rightarrow> string) \<Rightarrow> string \<Rightarrow> int \<times> lease_op \<Rightarrow> provider_lease option \<Rightarrow> provider_lease option" where
  "running_step sha i (t, Create a inp j token) l =
     (if covers a inp \<and> j = i then Some (lease_record sha inp i token (t + max (li_ttl_ms inp) 1000)) else l)"
| "running_step sha i (t, Renew j ttl) l =
     (if j = i then map_option (\<lambda>l. l\<lparr>pl_expires_at_ms := t + max ttl 1000\<rparr>) l else l)"
| "running_step sha i (t, Revoke j) l = (if j = i then None else l)"
| "running_step sha i (t, RevokeRun run) l =
     (case l of None \<Rightarrow> None | Some l \<Rightarrow> if pl_run_id l = run then None else Some l)"
| "running_step sha i (t, RevokeHost host) l =
     (case l of None \<Rightarrow> None | Some l \<Rightarrow> if pl_host_id l = Some host then None else Some l)"
| "running_step sha i x l = l"

lemma running_lease_op:
  assumes "distinct (map fst leases)" and "t \<le> now"
  shows "running (lease_op_step sha (t, op) leases) i now =
    until now (running_step sha i (t, op) (running leases i t))"
proof (cases op)
  case (Create a inp j token)
  then show ?thesis
    using assms prune_running [OF assms] running_later [OF assms(2)]
    by (simp add: create_lease_def Let_def running_def update_conv')
next
  case (Renew j ttl)
  then show ?thesis
    using running_later [OF assms(2), of leases i]
    by (auto simp: renew_lease_def running_def update_conv' split: option.splits)
next
  case (Revoke j)
  then show ?thesis
    using running_later [OF assms(2), of leases i] by (simp add: revoke_lease_def running_def delete_conv')
next
  case (RevokeRun run)
  then show ?thesis
    using assms by (auto simp: revoke_run_def running_def map_of_filter_snd split: option.splits)
next
  case (RevokeHost host)
  then show ?thesis
    using assms by (auto simp: revoke_host_def running_def map_of_filter_snd split: option.splits)
qed (use assms resolve_running admit_running prune_running running_later in \<open>simp_all add: lease_count_def\<close>)

text \<open>One more operation on the history.\<close>

lemma deadline_snoc: "deadline i e (h @ [x]) = next_deadline i (deadline i e h) x"
  by (simp add: deadline_def)

lemma lease_out_snoc:
  "lease_out (h @ [(t, op)]) i a inp token e \<longleftrightarrow>
     (op = Create a inp i token \<and> covers a inp \<and> e = t + max (li_ttl_ms inp) 1000) \<or>
     (\<exists>e'. lease_out h i a inp token e' \<and> \<not> takes_away i inp op \<and> e = next_deadline i e' (t, op))"
  (is "?L \<longleftrightarrow> ?new \<or> ?old")
proof
  assume ?L
  then obtain pre u later where h: "h @ [(t, op)] = pre @ (u, Create a inp i token) # later" "covers a inp"
    "\<forall>x\<in>set later. \<not> takes_away i inp (snd x)" "e = deadline i (u + max (li_ttl_ms inp) 1000) later"
    by (auto simp: lease_out_def)
  show "?new \<or> ?old"
  proof (cases later rule: rev_cases)
    case Nil
    with h show ?thesis by (simp add: deadline_def)
  next
    case (snoc later' x)
    with h(1) have "h = pre @ (u, Create a inp i token) # later'" "x = (t, op)"
      by (simp_all flip: append_assoc append_Cons)
    with h(2-4) snoc have ?old by (auto simp: lease_out_def deadline_snoc)
    then show ?thesis ..
  qed
next
  assume "?new \<or> ?old"
  then show ?L
  proof
    assume ?new
    then show ?L unfolding lease_out_def by (intro exI [of _ h] exI [of _ t] exI [of _ "[]"]) (simp add: deadline_def)
  next
    assume ?old
    then obtain pre u later where h: "h = pre @ (u, Create a inp i token) # later" "covers a inp"
      "\<forall>x\<in>set later. \<not> takes_away i inp (snd x)" "\<not> takes_away i inp op"
      "e = next_deadline i (deadline i (u + max (li_ttl_ms inp) 1000) later) (t, op)"
      by (auto simp: lease_out_def)
    then show ?L
      unfolding lease_out_def by (intro exI [of _ pre] exI [of _ u] exI [of _ "later @ [(t, op)]"]) (auto simp: deadline_snoc)
  qed
qed

lemma lease_out_created: "lease_out h i a inp token e \<Longrightarrow> i \<in> set (created_ids h)"
  by (auto simp: lease_out_def created_ids_def)

lemma next_deadline_mono: "next_deadline i e (t, op) > now \<Longrightarrow> t \<le> now \<Longrightarrow> t < e"
  by (auto simp: next_deadline_def split: lease_op.splits if_splits)

lemma history_ok_snoc:
  "history_ok (h @ [(t, op)]) \<longleftrightarrow>
     history_ok h \<and> (\<forall>x\<in>set h. fst x \<le> t) \<and>
     (case op of Create _ _ i _ \<Rightarrow> i \<notin> set (created_ids h) | _ \<Rightarrow> True)"
  by (auto simp: history_ok_def sorted_append created_ids_def split: lease_op.split)

lemma leases_after_snoc: "leases_after sha (h @ [x]) = lease_op_step sha x (leases_after sha h)"
  by (simp add: leases_after_def)

lemma distinct_leases_after: "distinct (map fst (leases_after sha h))"
  by (induction h rule: rev_induct) (simp add: leases_after_def, simp add: leases_after_snoc distinct_leases)

lemma lease_record_expires [simp]: "pl_expires_at_ms (lease_record sha inp i token e) = e"
  "(lease_record sha inp i token e)\<lparr>pl_expires_at_ms := e'\<rparr> = lease_record sha inp i token e'"
  "pl_run_id (lease_record sha inp i token e) = li_run_id inp"
  "pl_host_id (lease_record sha inp i token e) = li_host_id inp"
  "pl_token_hash (lease_record sha inp i token e) = sha token"
  by (simp_all add: lease_record_def)

lemma running_history:
  "history_ok h \<Longrightarrow> \<forall>x\<in>set h. fst x \<le> now \<Longrightarrow>
   running (leases_after sha h) i now = Some l \<longleftrightarrow>
   (\<exists>a inp token e. lease_out h i a inp token e \<and> now < e \<and> l = lease_record sha inp i token e)"
proof (induction h arbitrary: now l rule: rev_induct)
  case Nil
  then show ?case by (simp add: leases_after_def running_def lease_out_def)
next
  case (snoc x h)
  obtain t op where x: "x = (t, op)" by (cases x)
  have t: "t \<le> now" and h: "history_ok h" "\<forall>x\<in>set h. fst x \<le> t"
    and fresh: "case op of Create _ _ j _ \<Rightarrow> j \<notin> set (created_ids h) | _ \<Rightarrow> True"
    using snoc.prems x history_ok_snoc by auto
  have IH: "running (leases_after sha h) i t = Some k \<longleftrightarrow>
      (\<exists>a inp token e. lease_out h i a inp token e \<and> t < e \<and> k = lease_record sha inp i token e)" for k
    using snoc.IH [OF h] .
  have step: "running (leases_after sha (h @ [x])) i now =
      until now (running_step sha i (t, op) (running (leases_after sha h) i t))"
    unfolding x leases_after_snoc by (rule running_lease_op [OF distinct_leases_after t])
  have out: "(\<exists>a inp token e. lease_out (h @ [x]) i a inp token e \<and> now < e \<and> l = lease_record sha inp i token e) \<longleftrightarrow>
      (\<exists>a inp token. op = Create a inp i token \<and> covers a inp \<and> now < t + max (li_ttl_ms inp) 1000 \<and>
         l = lease_record sha inp i token (t + max (li_ttl_ms inp) 1000)) \<or>
      (\<exists>a inp token e. lease_out h i a inp token e \<and> t < e \<and> \<not> takes_away i inp op \<and>
         now < next_deadline i e (t, op) \<and> l = lease_record sha inp i token (next_deadline i e (t, op)))"
    unfolding x lease_out_snoc using next_deadline_mono t by blast
  show ?case unfolding step out
  proof (cases "running (leases_after sha h) i t")
    case None
    then have none: "\<not> (lease_out h i a inp token e \<and> t < e)" for a inp token e
      using IH [of "lease_record sha inp i token e"] by auto
    with None show "until now (running_step sha i (t, op) (running (leases_after sha h) i t)) = Some l \<longleftrightarrow>
      (\<exists>a inp token. op = Create a inp i token \<and> covers a inp \<and> now < t + max (li_ttl_ms inp) 1000 \<and>
         l = lease_record sha inp i token (t + max (li_ttl_ms inp) 1000)) \<or>
      (\<exists>a inp token e. lease_out h i a inp token e \<and> t < e \<and> \<not> takes_away i inp op \<and>
         now < next_deadline i e (t, op) \<and> l = lease_record sha inp i token (next_deadline i e (t, op)))"
      by (cases op) (auto split: if_splits)
  next
    case (Some k)
    then obtain a inp token e where k: "lease_out h i a inp token e" "t < e" "k = lease_record sha inp i token e"
      using IH by blast
    have same: "e' = e \<and> (\<forall>x. lease_record sha inp' i token' x = lease_record sha inp i token x) \<and>
        li_run_id inp' = li_run_id inp \<and> li_host_id inp' = li_host_id inp"
      if "lease_out h i a' inp' token' e'" "t < e'" for a' inp' token' e'
    proof -
      have "lease_record sha inp' i token' e' = lease_record sha inp i token e"
        using IH [of "lease_record sha inp' i token' e'"] that Some k(3) by auto
      then show ?thesis by (metis lease_record_expires)
    qed
    have taken: "takes_away i inp' op = takes_away i inp op"
      if "li_run_id inp' = li_run_id inp" "li_host_id inp' = li_host_id inp" for inp'
      using that by (cases op) simp_all
    have old: "(\<exists>a inp token e. lease_out h i a inp token e \<and> t < e \<and> \<not> takes_away i inp op \<and>
         now < next_deadline i e (t, op) \<and> l = lease_record sha inp i token (next_deadline i e (t, op))) \<longleftrightarrow>
       \<not> takes_away i inp op \<and> now < next_deadline i e (t, op) \<and>
         l = lease_record sha inp i token (next_deadline i e (t, op))"
      using k(1,2) same taken by metis
    have new: "op \<noteq> Create a' inp' i token'" for a' inp' token'
      using fresh lease_out_created [OF k(1)] by auto
    show "until now (running_step sha i (t, op) (running (leases_after sha h) i t)) = Some l \<longleftrightarrow>
      (\<exists>a inp token. op = Create a inp i token \<and> covers a inp \<and> now < t + max (li_ttl_ms inp) 1000 \<and>
         l = lease_record sha inp i token (t + max (li_ttl_ms inp) 1000)) \<or>
      (\<exists>a inp token e. lease_out h i a inp token e \<and> t < e \<and> \<not> takes_away i inp op \<and>
         now < next_deadline i e (t, op) \<and> l = lease_record sha inp i token (next_deadline i e (t, op)))"
      unfolding old Some k(3) using new by (cases op) (auto simp: next_deadline_def k(2))
  qed
qed

section \<open>Properties\<close>

lemma resolve_some:
  "fst (resolve_lease sha i presented now leases) = Some l \<longleftrightarrow>
     map_of leases i = Some l \<and> now < pl_expires_at_ms l \<and> sha presented = pl_token_hash l"
  by (auto simp: resolve_lease_def split: option.split)

lemma resolve_history:
  assumes "history_ok h" and "\<forall>x\<in>set h. fst x \<le> now"
  shows "(\<exists>l. fst (resolve_lease sha i presented now (leases_after sha h)) = Some l \<and> unused l = k) \<longleftrightarrow>
    (\<exists>a inp issued e. lease_out h i a inp issued e \<and> now < e \<and> sha presented = sha issued \<and>
       k = lease_record sha inp i issued e)"
proof -
  have "(\<exists>l. fst (resolve_lease sha i presented now (leases_after sha h)) = Some l \<and> unused l = k) \<longleftrightarrow>
      running (leases_after sha h) i now = Some k \<and> sha presented = pl_token_hash k"
  proof -
    have hash: "pl_token_hash (unused l) = pl_token_hash l" for l by (simp add: unused_def)
    show ?thesis unfolding resolve_some running_def
      by (cases "map_of (leases_after sha h) i") (auto simp: hash)
  qed
  then show ?thesis unfolding running_history [OF assms] using lease_record_expires(5) by metis
qed

text \<open>
  C6. A lease is good for exactly its history: an id and a token resolve at a time if and only if an
  authorization covering the same space, run and provider created a lease with that id and a token of
  the same hash, nothing since has revoked the lease, its run or its host, and its deadline - that of
  its creation, moved only by renewals that came before it had passed - has not. The record returned is
  the one created. Pruning, failed resolutions, other leases and requests served change nothing of it,
  and a lease that has run out never comes back.
\<close>

theorem lease_resolution_exact:
  assumes "history_ok h" and "\<forall>x\<in>set h. fst x \<le> now"
  shows "(\<exists>l. fst (resolve_lease sha i presented now (leases_after sha h)) = Some l \<and>
            l\<lparr>pl_usage_sequence := 0\<rparr> = k) \<longleftrightarrow>
    (\<exists>a inp issued e. lease_out h i a inp issued e \<and> now < e \<and> sha presented = sha issued \<and>
       k = lease_record sha inp i issued e)"
  using resolve_history [OF assms, of sha i presented k] by (simp add: unused_def)

text \<open>An authorization that was decided by the credential rule.\<close>

definition decided :: "spend_authorization \<Rightarrow> bool" where
  "decided a \<longleftrightarrow>
     (\<exists>configured now_iso db space provider basis (audit :: audit_table) audit'.
        authorize_credential_spend write_policy_audit configured now_iso db space provider basis audit = (Inr a, audit'))"

lemma spend_decided:
  assumes "decided a" and "ca_run_id a = Some run_id"
  shows "\<exists>db run. sp_id run = run_id \<and> may_spend db (ca_space_id a) (ByRun run)"
proof -
  obtain configured now_iso db space provider basis audit audit' where
    run: "authorize_credential_spend write_policy_audit configured now_iso db space provider basis (audit :: audit_table)
      = (Inr a, audit')"
    using assms(1) by (auto simp: decided_def)
  from spend_authorization_facts [OF run] assms(2) show ?thesis by (cases basis) auto
qed

lemma admit_forwarded:
  assumes "admit_request sha key now req leases = (Forwarded l n, leases')"
  shows "\<exists>i token k. pq_lease_id req = Some i \<and> request_lease_token req = Some token \<and>
    fst (resolve_lease sha i token now leases) = Some k \<and>
    provider_proxy_route (pq_route req) = Some (pl_route k) \<and>
    l = k\<lparr>pl_usage_sequence := pl_usage_sequence k + 1\<rparr> \<and>
    (given (pl_pinned_model k) \<and> given (requested_model req) \<longrightarrow> requested_model req = pl_pinned_model k)"
proof -
  obtain route i where 1: "provider_proxy_route (pq_route req) = Some route" "pq_lease_id req = Some i"
    "given (request_lease_token req)"
    using assms by (auto simp: admit_request_def split: option.splits if_splits)
  then obtain token where token: "request_lease_token req = Some token" by (auto simp: given_def)
  obtain r ls where r: "resolve_lease sha i token now leases = (r, ls)" by fastforce
  with assms 1 token obtain k where k: "r = Some k" by (cases r) (auto simp: admit_request_def)
  with assms 1 token r show ?thesis
    by (auto simp: admit_request_def Let_def split: if_splits)
qed

text \<open>
  C7. The proxy forwards a request with a server-held key only on a live lease: the request presents
  the token issued with the lease it names, on the lease's route, and for no other model than a pinned
  one; the lease has neither run out nor been revoked with its run or host; and for that very run,
  space and provider the credential rule decided that the run may spend.
\<close>

theorem proxied_request_authorized:
  assumes "history_ok h" and "\<forall>x\<in>set h. fst x \<le> now"
    and "\<forall>(t, op)\<in>set h. \<forall>a inp i token. op = Create a inp i token \<longrightarrow> decided a"
    and "admit_request sha key now req (leases_after sha h) = (Forwarded l n, leases')"
  shows "\<exists>a inp issued e token db run.
    pq_lease_id req = Some (pl_id l) \<and> lease_out h (pl_id l) a inp issued e \<and> now < e \<and>
    l\<lparr>pl_usage_sequence := 0\<rparr> = lease_record sha inp (pl_id l) issued e \<and>
    request_lease_token req = Some token \<and> sha token = sha issued \<and>
    provider_proxy_route (pq_route req) = Some (pl_route l) \<and>
    (given (pl_pinned_model l) \<and> given (requested_model req) \<longrightarrow> requested_model req = pl_pinned_model l) \<and>
    ca_provider_id a = Some (pl_provider_id l) \<and>
    sp_id run = pl_run_id l \<and> may_spend db (pl_space_id l) (ByRun run)"
proof -
  obtain i token k where k: "pq_lease_id req = Some i" "request_lease_token req = Some token"
    "fst (resolve_lease sha i token now (leases_after sha h)) = Some k"
    "provider_proxy_route (pq_route req) = Some (pl_route k)"
    "l = k\<lparr>pl_usage_sequence := pl_usage_sequence k + 1\<rparr>"
    "given (pl_pinned_model k) \<and> given (requested_model req) \<longrightarrow> requested_model req = pl_pinned_model k"
    using admit_forwarded [OF assms(4)] by blast
  obtain a inp issued e where out: "lease_out h i a inp issued e" "now < e" "sha token = sha issued"
    "unused k = lease_record sha inp i issued e"
    using resolve_history [OF assms(1,2), of sha i token "unused k"] k(3) by auto
  have l: "l\<lparr>pl_usage_sequence := 0\<rparr> = lease_record sha inp i issued e"
    using k(5) out(4) by (simp add: unused_def)
  have fields: "pl_id l = i" "pl_run_id l = li_run_id inp" "pl_space_id l = li_space_id inp"
    "pl_provider_id l = li_provider_id inp"
    using arg_cong [OF l, of pl_id] arg_cong [OF l, of pl_run_id] arg_cong [OF l, of pl_space_id]
      arg_cong [OF l, of pl_provider_id] by (simp_all add: lease_record_def)
  obtain t before later where "h = before @ (t, Create a inp i issued) # later" and cov: "covers a inp"
    using out(1) by (auto simp: lease_out_def)
  then have "decided a" using assms(3) by auto
  moreover have "ca_run_id a = Some (li_run_id inp)" using cov by (simp add: covers_def)
  ultimately obtain db run where "sp_id run = li_run_id inp" "may_spend db (ca_space_id a) (ByRun run)"
    using spend_decided by blast
  then have "pq_lease_id req = Some (pl_id l) \<and> lease_out h (pl_id l) a inp issued e \<and> now < e \<and>
    l\<lparr>pl_usage_sequence := 0\<rparr> = lease_record sha inp (pl_id l) issued e \<and>
    request_lease_token req = Some token \<and> sha token = sha issued \<and>
    provider_proxy_route (pq_route req) = Some (pl_route l) \<and>
    (given (pl_pinned_model l) \<and> given (requested_model req) \<longrightarrow> requested_model req = pl_pinned_model l) \<and>
    ca_provider_id a = Some (pl_provider_id l) \<and>
    sp_id run = pl_run_id l \<and> may_spend db (pl_space_id l) (ByRun run)"
    using k l out fields cov by (simp add: covers_def del: may_spend.simps)
  then show ?thesis by blast
qed

text \<open>A lease, renewed once, serving a request; then its host is revoked.\<close>

definition sample_lease_input :: lease_input where
  "sample_lease_input =
     \<lparr>li_run_id = ''c'', li_space_id = ''s'', li_provider_id = ''p'', li_provider_type = None,
      li_provider_name_snapshot = None, li_network_profile_id = None, li_route = None,
      li_upstream_base_url = ''https://api.example/'', li_model = None, li_pinned_model = None,
      li_runtime_key = None, li_session_id = None, li_parent_run_id = None, li_root_run_id = None,
      li_run_group_id = None, li_agent_id = None, li_project_id = None, li_project_folder_id = None,
      li_trigger_origin = None, li_host_id = Some ''laptop'', li_invocation_audit_refs = None,
      li_ttl_ms = 5000\<rparr>"

definition sample_proxy_request :: proxy_request where
  "sample_proxy_request =
     \<lparr>pq_route = Some ''anthropic'', pq_lease_id = Some ''l1'', pq_authorization = Some ''Bearer secret'',
      pq_anthropic_auth_token = None, pq_x_api_key = None, pq_body = None\<rparr>"

definition lease_history_of :: "spend_authorization \<Rightarrow> lease_history" where
  "lease_history_of a = [(0, Create a sample_lease_input ''l1'' ''secret''), (4000, Renew ''l1'' 5000)]"

definition sample_authorization :: spend_authorization where
  "sample_authorization =
     \<lparr>ca_space_id = ''s'', ca_run_id = Some ''c'', ca_provider_id = Some ''p'', ca_trigger_origin = ''manual'',
      ca_policy_decision_record_id = Some ''row''\<rparr>"

lemma history_of_ok: "history_ok (lease_history_of a)" "\<forall>x\<in>set (lease_history_of a). fst x \<le> 4000"
  by (simp_all add: history_ok_def lease_history_of_def created_ids_def)

lemma renewed_lease_out:
  "covers a sample_lease_input \<Longrightarrow> lease_out (lease_history_of a) ''l1'' a sample_lease_input ''secret'' 9000"
  unfolding lease_out_def lease_history_of_def
  by (intro exI [of _ "[]"] exI [of _ 0] exI [of _ "[(4000, Renew ''l1'' 5000)]"])
    (simp add: deadline_def next_deadline_def sample_lease_input_def)

lemma lease_resolution_exact_witness:
  "(\<exists>l. fst (resolve_lease id ''l1'' ''secret'' 8000 (leases_after id (lease_history_of sample_authorization))) =
      Some l) \<and>
   fst (resolve_lease id ''l1'' ''wrong'' 8000 (leases_after id (lease_history_of sample_authorization))) = None"
proof
  have ok: "history_ok (lease_history_of sample_authorization)"
    "\<forall>x\<in>set (lease_history_of sample_authorization). fst x \<le> 8000"
    using history_of_ok [of sample_authorization] by auto
  have "covers sample_authorization sample_lease_input"
    by (simp add: covers_def sample_authorization_def sample_lease_input_def)
  note out = renewed_lease_out [OF this]
  have "\<exists>l. fst (resolve_lease id ''l1'' ''secret'' 8000 (leases_after id (lease_history_of sample_authorization))) = Some l \<and>
      l\<lparr>pl_usage_sequence := 0\<rparr> = lease_record id sample_lease_input ''l1'' ''secret'' 9000"
    by (rule lease_resolution_exact [OF ok, THEN iffD2], intro exI conjI, rule out) simp_all
  then show "\<exists>l. fst (resolve_lease id ''l1'' ''secret'' 8000 (leases_after id (lease_history_of sample_authorization))) = Some l"
    by blast
  show "fst (resolve_lease id ''l1'' ''wrong'' 8000 (leases_after id (lease_history_of sample_authorization))) = None"
    by code_simp
qed

text \<open>The authorization of the continuation of \<open>CredentialSpend\<close>, spent.\<close>

lemma proxied_request_authorized_witness:
  "\<exists>a l n leases'.
     admit_request id True 8000 sample_proxy_request (leases_after id (lease_history_of a)) = (Forwarded l n, leases') \<and>
     (\<exists>db run. sp_id run = pl_run_id l \<and> may_spend db (pl_space_id l) (ByRun run))"
proof -
  obtain a audit' where spend: "authorize_credential_spend write_policy_audit True ''now'' (Some sample_spend_db) ''s''
      (Some ''p'') (ByRun sample_spend_run) empty_table = (Inr a, audit')"
    using sample_spend_allowed by blast
  then have d: "decided a" unfolding decided_def by blast
  have cov: "covers a sample_lease_input"
    using spend_authorization_facts [OF spend]
    by (simp add: covers_def sample_lease_input_def sample_spend_run_def del: may_spend.simps)
  have leases: "leases_after id (lease_history_of a) =
      [(''l1'', lease_record id sample_lease_input ''l1'' ''secret'' 9000)]"
    using cov by (simp add: leases_after_def lease_history_of_def create_lease_def prune_expired_def renew_lease_def
        sample_lease_input_def lease_record_def Let_def)
  have "\<exists>l n leases'. admit_request id True 8000 sample_proxy_request
      [(''l1'', lease_record id sample_lease_input ''l1'' ''secret'' 9000)] = (Forwarded l n, leases')"
  proof -
    have "request_lease_token sample_proxy_request = Some ''secret''" by code_simp
    then show ?thesis
      unfolding admit_request_def sample_proxy_request_def lease_record_def sample_lease_input_def
      by (simp add: resolve_lease_def provider_proxy_route_def given_def requested_model_def Let_def)
  qed
  then obtain l n leases' where admit:
    "admit_request id True 8000 sample_proxy_request (leases_after id (lease_history_of a)) = (Forwarded l n, leases')"
    unfolding leases by blast
  have times: "\<forall>x\<in>set (lease_history_of a). fst x \<le> 8000" using history_of_ok(2) [of a] by auto
  have "\<forall>(t, op)\<in>set (lease_history_of a). \<forall>b inp i token. op = Create b inp i token \<longrightarrow> decided b"
    using d by (simp add: lease_history_of_def)
  from proxied_request_authorized [OF history_of_ok(1) times this admit] admit show ?thesis by blast
qed

end
