(* ===== verification/AddressBlocks.thy ===== *)
theory AddressBlocks
  imports Prelude "HOL-Library.Word"
begin

text \<open>
  Which addresses an outbound request must never reach: \<open>packages/outbound-guard/src/blockList.ts\<close>.
  Addresses are words of 32 and 128 bits. \<open>isIP\<close> and \<open>BlockList\<close> of \<open>node:net\<close> are written out: an
  address is parsed, an IPv4 address is compared as its IPv4-mapped IPv6 address, and a rule is a
  prefix of one of the two.
\<close>

section \<open>Reading an address\<close>

datatype ip_address = V4 "32 word" | V6 "128 word"

definition hex_digit_value :: "char \<Rightarrow> nat" where
  "hex_digit_value c =
     (let n = of_char c
      in if 48 \<le> n \<and> n \<le> 57 then n - 48
         else if 97 \<le> n \<and> n \<le> 102 then n - 87
         else if 65 \<le> n \<and> n \<le> 70 then n - 55 else 16)"

definition number_of_digits :: "nat \<Rightarrow> string \<Rightarrow> nat" where
  "number_of_digits base s = fold (\<lambda>c n. n * base + hex_digit_value c) s 0"

text \<open>An octet in decimal without leading zeros\<close>

definition parse_octet :: "string \<Rightarrow> nat option" where
  "parse_octet s =
     (if s \<noteq> [] \<and> length s \<le> 3 \<and> list_all is_digit s \<and> (length s = 1 \<or> hd s \<noteq> CHR ''0'') \<and>
         number_of_digits 10 s \<le> 255
      then Some (number_of_digits 10 s) else None)"

fun collect :: "('a \<Rightarrow> 'b option) \<Rightarrow> 'a list \<Rightarrow> 'b list option" where
  "collect f [] = Some []"
| "collect f (x # xs) =
     (case f x of None \<Rightarrow> None | Some y \<Rightarrow> (case collect f xs of None \<Rightarrow> None | Some ys \<Rightarrow> Some (y # ys)))"

definition parse_octets :: "string \<Rightarrow> nat list option" where
  "parse_octets s =
     (case collect parse_octet (split_on CHR ''.'' s) of
        None \<Rightarrow> None | Some os \<Rightarrow> if length os = 4 then Some os else None)"

text \<open>One to four hexadecimal digits\<close>

definition parse_group :: "string \<Rightarrow> nat option" where
  "parse_group s =
     (if s \<noteq> [] \<and> length s \<le> 4 \<and> list_all (\<lambda>c. hex_digit_value c < 16) s
      then Some (number_of_digits 16 s) else None)"

text \<open>Groups between colons; the last may be an IPv4 address, which is two groups.\<close>

definition parse_groups :: "bool \<Rightarrow> string \<Rightarrow> nat list option" where
  "parse_groups last_v4 s =
     (let parts = split_on CHR '':'' s
      in if s = [] then Some []
         else case (if last_v4 then parse_octets (last parts) else None) of
                Some [a, b, c, d] \<Rightarrow>
                  (case collect parse_group (butlast parts) of
                     None \<Rightarrow> None | Some gs \<Rightarrow> Some (gs @ [a * 256 + b, c * 256 + d]))
              | _ \<Rightarrow> collect parse_group parts)"

text \<open>Where \<open>::\<close> stands first: the text before it and the text behind it\<close>

fun split_double :: "string \<Rightarrow> (string \<times> string) option" where
  "split_double (c # d # s) =
     (if c = CHR '':'' \<and> d = CHR '':'' then Some ([], s)
      else (case split_double (d # s) of None \<Rightarrow> None | Some (l, r) \<Rightarrow> Some (c # l, r)))"
| "split_double _ = None"

definition zone_ok :: "string \<Rightarrow> bool" where
  "zone_ok s \<longleftrightarrow>
     s = [] \<or>
     (tl s \<noteq> [] \<and> list_all (\<lambda>c. hex_digit_value c < 10 \<or> (let n = (of_char c :: nat) in
        (97 \<le> n \<and> n \<le> 122) \<or> (65 \<le> n \<and> n \<le> 90)) \<or> c \<in> {CHR ''-'', CHR ''.'', CHR '':''}) (tl s))"

definition parse_hextets :: "string \<Rightarrow> nat list option" where
  "parse_hextets s =
     (let addr = takeWhile (\<lambda>c. c \<noteq> CHR ''%'') s; zone = dropWhile (\<lambda>c. c \<noteq> CHR ''%'') s
      in if \<not> zone_ok zone then None
         else case split_double addr of
                None \<Rightarrow>
                  (case parse_groups True addr of
                     Some gs \<Rightarrow> if length gs = 8 then Some gs else None | None \<Rightarrow> None)
              | Some (l, r) \<Rightarrow>
                  (case parse_groups False l of
                     None \<Rightarrow> None
                   | Some ls \<Rightarrow>
                       (case parse_groups True r of
                          None \<Rightarrow> None
                        | Some rs \<Rightarrow>
                            if length ls + length rs \<le> 7
                            then Some (ls @ replicate (8 - length ls - length rs) 0 @ rs) else None)))"

definition word_of_groups :: "nat \<Rightarrow> nat list \<Rightarrow> 'a::len word" where
  "word_of_groups bits gs = fold (\<lambda>g w. w * 2 ^ bits + of_nat g) gs 0"

text \<open>\<open>isIP\<close> and the parsed address\<close>

definition parse_ip :: "string \<Rightarrow> ip_address option" where
  "parse_ip s =
     (case parse_octets s of
        Some os \<Rightarrow> Some (V4 (word_of_groups 8 os))
      | None \<Rightarrow> (case parse_hextets s of Some gs \<Rightarrow> Some (V6 (word_of_groups 16 gs)) | None \<Rightarrow> None))"

section \<open>Block lists\<close>

text \<open>\<open>::ffff:a.b.c.d\<close>\<close>

definition mapped :: "32 word \<Rightarrow> 128 word" where
  "mapped w = 0xFFFF * 2 ^ 32 + ucast w"

definition in_network :: "nat \<Rightarrow> 'a::len word \<Rightarrow> 'a word \<Rightarrow> bool" where
  "in_network bits net a \<longleftrightarrow>
     drop_bit (LENGTH('a) - bits) a = drop_bit (LENGTH('a) - bits) net"

text \<open>A subnet rule, or a single address with the whole length as its prefix\<close>

datatype block_rule = Rule4 "32 word" nat | Rule6 "128 word" nat

text \<open>\<open>BlockList.check\<close>: an address against a rule of the other family is compared as a mapped address.\<close>

definition is_mapped :: "128 word \<Rightarrow> bool" where
  "is_mapped w \<longleftrightarrow> drop_bit 32 w = 0xFFFF"

fun matches_rule :: "ip_address \<Rightarrow> block_rule \<Rightarrow> bool" where
  "matches_rule (V4 a) (Rule4 net bits) \<longleftrightarrow> in_network bits net a"
| "matches_rule (V4 a) (Rule6 net bits) \<longleftrightarrow> in_network bits net (mapped a)"
| "matches_rule (V6 a) (Rule6 net bits) \<longleftrightarrow> in_network bits net a"
| "matches_rule (V6 a) (Rule4 net bits) \<longleftrightarrow> is_mapped a \<and> in_network bits net (ucast a)"

definition check_list :: "block_rule list \<Rightarrow> ip_address \<Rightarrow> bool" where
  "check_list rules a \<longleftrightarrow> list_ex (matches_rule a) rules"

definition octets :: "nat \<Rightarrow> nat \<Rightarrow> nat \<Rightarrow> nat \<Rightarrow> 32 word" where
  "octets a b c d = word_of_groups 8 [a, b, c, d]"

definition hextets :: "nat list \<Rightarrow> 128 word" where
  "hextets gs = word_of_groups 16 (gs @ replicate (8 - length gs) 0)"

definition blocked_list :: "block_rule list" where
  "blocked_list =
     [Rule4 (octets 0 0 0 0) 8, Rule4 (octets 10 0 0 0) 8, Rule4 (octets 127 0 0 0) 8,
      Rule4 (octets 169 254 0 0) 16, Rule4 (octets 172 16 0 0) 12, Rule4 (octets 192 168 0 0) 16,
      Rule4 (octets 100 64 0 0) 10, Rule4 (octets 198 18 0 0) 15, Rule4 (octets 192 0 0 0) 24,
      Rule4 (octets 224 0 0 0) 4, Rule4 (octets 240 0 0 0) 4,
      Rule6 (hextets [0xfc00]) 7, Rule6 (hextets [0xfe80]) 10, Rule6 (hextets [0xfec0]) 10,
      Rule6 (hextets [0xff00]) 8, Rule6 (hextets [0xfd00, 0xec2]) 32,
      Rule6 (hextets []) 96, Rule6 (hextets [0x64, 0xff9b]) 96, Rule6 (hextets [0x64, 0xff9b, 1]) 48,
      Rule6 (hextets [0x2002]) 16, Rule6 (hextets [0x2001]) 32]"

definition synthetic_dns_list :: "block_rule list" where
  "synthetic_dns_list = [Rule4 (octets 198 18 0 0) 15]"

definition loopback_list :: "block_rule list" where
  "loopback_list =
     [Rule4 (octets 127 0 0 0) 8, Rule6 (hextets [0, 0, 0, 0, 0, 0, 0, 1]) 128,
      Rule6 (mapped (octets 127 0 0 0)) 104]"

text \<open>\<open>/^127(?:\.\d{1,3}){0,3}$/\<close>\<close>

definition is_short_loopback :: "string \<Rightarrow> bool" where
  "is_short_loopback s \<longleftrightarrow>
     (let parts = split_on CHR ''.'' s
      in hd parts = ''127'' \<and> length parts \<le> 4 \<and>
         list_all (\<lambda>p. p \<noteq> [] \<and> length p \<le> 3 \<and> list_all is_digit p) (tl parts))"

definition is_loopback_address :: "string option \<Rightarrow> bool" where
  "is_loopback_address address \<longleftrightarrow>
     (case address of
        None \<Rightarrow> False
      | Some s \<Rightarrow>
          s \<noteq> [] \<and> (case parse_ip s of Some a \<Rightarrow> check_list loopback_list a | None \<Rightarrow> is_short_loopback s))"

definition is_blocked_address :: "string option \<Rightarrow> bool" where
  "is_blocked_address address \<longleftrightarrow>
     (case address of
        None \<Rightarrow> True
      | Some s \<Rightarrow>
          s = [] \<or> (case parse_ip s of Some a \<Rightarrow> check_list blocked_list a | None \<Rightarrow> True))"

definition is_synthetic_dns_address :: "string option \<Rightarrow> bool" where
  "is_synthetic_dns_address address \<longleftrightarrow>
     (case address of
        None \<Rightarrow> False
      | Some s \<Rightarrow> (case parse_ip s of Some (V4 a) \<Rightarrow> check_list synthetic_dns_list (V4 a) | _ \<Rightarrow> False))"

section \<open>What is blocked\<close>

text \<open>A rule is an interval of addresses, from its first to its last.\<close>

lemma in_network_range:
  fixes a net :: "'a::len word"
  assumes "unat net mod 2 ^ (LENGTH('a) - bits) = 0"
  shows "in_network bits net a \<longleftrightarrow>
    unat net \<le> unat a \<and> unat a < unat net + 2 ^ (LENGTH('a) - bits)"
proof -
  let ?k = "2 ^ (LENGTH('a) - bits) :: nat"
  obtain m where m: "unat net = ?k * m" using assms by (metis mod_0_imp_dvd dvdE)
  have "in_network bits net a \<longleftrightarrow> unat a div ?k = unat net div ?k"
    by (simp add: in_network_def word_unat_eq_iff unat_drop_bit_eq drop_bit_eq_div [where 'a = nat])
  also have "\<dots> \<longleftrightarrow> unat a div ?k = m" unfolding m by simp
  also have "\<dots> \<longleftrightarrow> ?k * m \<le> unat a \<and> unat a < ?k * m + ?k"
  proof
    assume "unat a div ?k = m"
    then show "?k * m \<le> unat a \<and> unat a < ?k * m + ?k"
      using times_div_less_eq_dividend [of ?k "unat a"] dividend_less_times_div [of ?k "unat a"] by auto
  next
    assume "?k * m \<le> unat a \<and> unat a < ?k * m + ?k"
    then show "unat a div ?k = m" by (intro div_nat_eqI) simp_all
  qed
  finally show ?thesis unfolding m .
qed

definition at4 :: "nat \<Rightarrow> nat \<Rightarrow> nat \<Rightarrow> nat \<Rightarrow> nat" where
  "at4 a b c d = ((a * 256 + b) * 256 + c) * 256 + d"

definition between4 :: "nat \<times> nat \<times> nat \<times> nat \<Rightarrow> nat \<times> nat \<times> nat \<times> nat \<Rightarrow> nat \<Rightarrow> bool" where
  "between4 lo hi n \<longleftrightarrow>
     (case lo of (a, b, c, d) \<Rightarrow> at4 a b c d \<le> n) \<and> (case hi of (a, b, c, d) \<Rightarrow> n \<le> at4 a b c d)"

lemma zero_groups:
  "replicate 5 (0::nat) = [0, 0, 0, 0, 0]" "replicate 6 (0::nat) = [0, 0, 0, 0, 0, 0]"
  "replicate 7 (0::nat) = [0, 0, 0, 0, 0, 0, 0]" "replicate 8 (0::nat) = [0, 0, 0, 0, 0, 0, 0, 0]"
  by (simp_all add: numeral_eq_Suc)

lemmas address_values = octets_def hextets_def word_of_groups_def zero_groups mapped_def

lemma full_groups:
  "replicate 4 (k::nat) = [k, k, k, k]" "replicate 2 (k::nat) = [k, k]" "replicate 5 k = [k, k, k, k, k]"
  "replicate 6 k = [k, k, k, k, k, k]" "replicate 7 k = [k, k, k, k, k, k, k]"
  "replicate 8 k = [k, k, k, k, k, k, k, k]"
  by (simp_all add: numeral_eq_Suc)

definition at6 :: "nat list \<Rightarrow> nat" where
  "at6 gs = fold (\<lambda>g n. n * 65536 + g) gs 0"

text \<open>Between the first address that starts with these groups and the last that starts with those\<close>

definition between6 :: "nat list \<Rightarrow> nat list \<Rightarrow> nat \<Rightarrow> bool" where
  "between6 lo hi n \<longleftrightarrow>
     at6 (lo @ replicate (8 - length lo) 0) \<le> n \<and> n \<le> at6 (hi @ replicate (8 - length hi) 65535)"

lemma in_network4:
  fixes net a :: "32 word"
  assumes "unat net mod 2 ^ (32 - bits) = 0" and "between4 lo hi = (\<lambda>n. unat net \<le> n \<and> n \<le> unat net + (2 ^ (32 - bits) - 1))"
  shows "in_network bits net a \<longleftrightarrow> between4 lo hi (unat a)"
proof -
  have "(0::nat) < 2 ^ (32 - bits)" by simp
  then have "unat a < unat net + 2 ^ (32 - bits) \<longleftrightarrow> unat a \<le> unat net + (2 ^ (32 - bits) - 1)" by linarith
  with in_network_range [of net bits a] assms show ?thesis by simp
qed

lemma in_network6:
  fixes net a :: "128 word"
  assumes "unat net mod 2 ^ (128 - bits) = 0" and "between6 lo hi = (\<lambda>n. unat net \<le> n \<and> n \<le> unat net + (2 ^ (128 - bits) - 1))"
  shows "in_network bits net a \<longleftrightarrow> between6 lo hi (unat a)"
proof -
  have "(0::nat) < 2 ^ (128 - bits)" by simp
  then have "unat a < unat net + 2 ^ (128 - bits) \<longleftrightarrow> unat a \<le> unat net + (2 ^ (128 - bits) - 1)" by linarith
  with in_network_range [of net bits a] assms show ?thesis by simp
qed

lemma ranges4:
  "in_network 8 (octets 0 0 0 0) w \<longleftrightarrow> between4 (0, 0, 0, 0) (0, 255, 255, 255) (unat w)"
  "in_network 8 (octets 10 0 0 0) w \<longleftrightarrow> between4 (10, 0, 0, 0) (10, 255, 255, 255) (unat w)"
  "in_network 8 (octets 127 0 0 0) w \<longleftrightarrow> between4 (127, 0, 0, 0) (127, 255, 255, 255) (unat w)"
  "in_network 16 (octets 169 254 0 0) w \<longleftrightarrow> between4 (169, 254, 0, 0) (169, 254, 255, 255) (unat w)"
  "in_network 12 (octets 172 16 0 0) w \<longleftrightarrow> between4 (172, 16, 0, 0) (172, 31, 255, 255) (unat w)"
  "in_network 16 (octets 192 168 0 0) w \<longleftrightarrow> between4 (192, 168, 0, 0) (192, 168, 255, 255) (unat w)"
  "in_network 10 (octets 100 64 0 0) w \<longleftrightarrow> between4 (100, 64, 0, 0) (100, 127, 255, 255) (unat w)"
  "in_network 15 (octets 198 18 0 0) w \<longleftrightarrow> between4 (198, 18, 0, 0) (198, 19, 255, 255) (unat w)"
  "in_network 24 (octets 192 0 0 0) w \<longleftrightarrow> between4 (192, 0, 0, 0) (192, 0, 0, 255) (unat w)"
  "in_network 4 (octets 224 0 0 0) w \<longleftrightarrow> between4 (224, 0, 0, 0) (239, 255, 255, 255) (unat w)"
  "in_network 4 (octets 240 0 0 0) w \<longleftrightarrow> between4 (240, 0, 0, 0) (255, 255, 255, 255) (unat w)"
  by (rule in_network4; simp add: address_values between4_def at4_def fun_eq_iff)+

lemma ranges6:
  "in_network 7 (hextets [0xfc00]) w \<longleftrightarrow> between6 [0xfc00] [0xfdff] (unat w)"
  "in_network 10 (hextets [0xfe80]) w \<longleftrightarrow> between6 [0xfe80] [0xfebf] (unat w)"
  "in_network 10 (hextets [0xfec0]) w \<longleftrightarrow> between6 [0xfec0] [0xfeff] (unat w)"
  "in_network 8 (hextets [0xff00]) w \<longleftrightarrow> between6 [0xff00] [0xffff] (unat w)"
  "in_network 32 (hextets [0xfd00, 0xec2]) w \<longleftrightarrow> between6 [0xfd00, 0xec2] [0xfd00, 0xec2] (unat w)"
  "in_network 96 (hextets []) w \<longleftrightarrow> between6 [0, 0, 0, 0, 0, 0] [0, 0, 0, 0, 0, 0] (unat w)"
  "in_network 96 (hextets [0x64, 0xff9b]) w \<longleftrightarrow>
     between6 [0x64, 0xff9b, 0, 0, 0, 0] [0x64, 0xff9b, 0, 0, 0, 0] (unat w)"
  "in_network 48 (hextets [0x64, 0xff9b, 1]) w \<longleftrightarrow> between6 [0x64, 0xff9b, 1] [0x64, 0xff9b, 1] (unat w)"
  "in_network 16 (hextets [0x2002]) w \<longleftrightarrow> between6 [0x2002] [0x2002] (unat w)"
  "in_network 32 (hextets [0x2001]) w \<longleftrightarrow> between6 [0x2001, 0] [0x2001, 0] (unat w)"
  by (rule in_network6; simp add: address_values between6_def at6_def full_groups fun_eq_iff)+

text \<open>The reserved addresses, range by range: the first and the last of each.\<close>

definition reserved4 :: "nat \<Rightarrow> bool" where
  "reserved4 n \<longleftrightarrow>
     between4 (0, 0, 0, 0) (0, 255, 255, 255) n \<or> between4 (10, 0, 0, 0) (10, 255, 255, 255) n \<or>
     between4 (127, 0, 0, 0) (127, 255, 255, 255) n \<or> between4 (169, 254, 0, 0) (169, 254, 255, 255) n \<or>
     between4 (172, 16, 0, 0) (172, 31, 255, 255) n \<or> between4 (192, 168, 0, 0) (192, 168, 255, 255) n \<or>
     between4 (100, 64, 0, 0) (100, 127, 255, 255) n \<or> between4 (198, 18, 0, 0) (198, 19, 255, 255) n \<or>
     between4 (192, 0, 0, 0) (192, 0, 0, 255) n \<or> between4 (224, 0, 0, 0) (239, 255, 255, 255) n \<or>
     between4 (240, 0, 0, 0) (255, 255, 255, 255) n"

definition reserved6 :: "nat \<Rightarrow> bool" where
  "reserved6 n \<longleftrightarrow>
     between6 [0xfc00] [0xfdff] n \<or> between6 [0xfe80] [0xfebf] n \<or> between6 [0xfec0] [0xfeff] n \<or>
     between6 [0xff00] [0xffff] n \<or> between6 [0, 0, 0, 0, 0, 0] [0, 0, 0, 0, 0, 0] n \<or>
     between6 [0x64, 0xff9b, 0, 0, 0, 0] [0x64, 0xff9b, 0, 0, 0, 0] n \<or>
     between6 [0x64, 0xff9b, 1] [0x64, 0xff9b, 1] n \<or> between6 [0x2002] [0x2002] n \<or>
     between6 [0x2001, 0] [0x2001, 0] n"

text \<open>An IPv6 address that carries an IPv4 one as \<open>::ffff:a.b.c.d\<close> is that IPv4 address.\<close>

fun reserved :: "ip_address \<Rightarrow> bool" where
  "reserved (V4 w) \<longleftrightarrow> reserved4 (unat w)"
| "reserved (V6 w) \<longleftrightarrow>
     reserved6 (unat w) \<or>
     between6 [0, 0, 0, 0, 0, 0xffff] [0, 0, 0, 0, 0, 0xffff] (unat w) \<and> reserved4 (unat w mod 2 ^ 32)"

lemma is_mapped_range: "is_mapped w \<longleftrightarrow> between6 [0, 0, 0, 0, 0, 0xffff] [0, 0, 0, 0, 0, 0xffff] (unat w)"
proof -
  have "is_mapped w = in_network 96 (hextets [0, 0, 0, 0, 0, 0xffff]) w"
    unfolding is_mapped_def in_network_def by (simp add: address_values full_groups)
  also have "\<dots> \<longleftrightarrow> between6 [0, 0, 0, 0, 0, 0xffff] [0, 0, 0, 0, 0, 0xffff] (unat w)"
    by (rule in_network6; simp add: address_values between6_def at6_def full_groups fun_eq_iff)
  finally show ?thesis .
qed

lemma unat_low_word: "unat (ucast w :: 32 word) = unat (w :: 128 word) mod 2 ^ 32"
  by (simp add: unsigned_ucast_eq take_bit_eq_mod)

lemma unat_mapped: "unat (mapped w) = 281470681743360 + unat w"
proof -
  have "unat w < 4294967296" using unsigned_less [of w, where ?'a = nat] by simp
  then show ?thesis by (simp add: mapped_def unat_word_ariths unsigned_ucast_eq take_bit_eq_mod)
qed

lemma mapped_not_reserved6: "\<not> reserved6 (unat (mapped w))"
proof -
  have "unat w < 4294967296" using unsigned_less [of w, where ?'a = nat] by simp
  then show ?thesis by (simp add: reserved6_def between6_def at6_def full_groups unat_mapped)
qed

lemma range_list6: "in_network 7 (hextets [0xfc00]) w \<or> in_network 10 (hextets [0xfe80]) w \<or>
    in_network 10 (hextets [0xfec0]) w \<or> in_network 8 (hextets [0xff00]) w \<or>
    in_network 32 (hextets [0xfd00, 0xec2]) w \<or> in_network 96 (hextets []) w \<or>
    in_network 96 (hextets [0x64, 0xff9b]) w \<or> in_network 48 (hextets [0x64, 0xff9b, 1]) w \<or>
    in_network 16 (hextets [0x2002]) w \<or> in_network 32 (hextets [0x2001]) w \<longleftrightarrow> reserved6 (unat w)"
proof -
  have "between6 [0xfd00, 0xec2] [0xfd00, 0xec2] n \<Longrightarrow> between6 [0xfc00] [0xfdff] n" for n
    by (simp add: between6_def at6_def full_groups)
  then show ?thesis unfolding ranges6 reserved6_def by blast
qed

lemma check_blocked: "check_list blocked_list a \<longleftrightarrow> reserved a"
proof (cases a)
  case (V4 w)
  have "check_list blocked_list (V4 w) \<longleftrightarrow> reserved4 (unat w) \<or> reserved6 (unat (mapped w))"
    unfolding range_list6 [symmetric] reserved4_def ranges4 [symmetric]
    by (simp add: check_list_def blocked_list_def)
  with V4 mapped_not_reserved6 show ?thesis by simp
next
  case (V6 w)
  have "check_list blocked_list (V6 w) \<longleftrightarrow>
      is_mapped w \<and> reserved4 (unat (ucast w :: 32 word)) \<or> reserved6 (unat w)"
    unfolding range_list6 [symmetric] reserved4_def ranges4 [symmetric]
    by (auto simp: check_list_def blocked_list_def)
  with V6 show ?thesis by (auto simp: is_mapped_range unat_low_word)
qed

lemma loopback_range6:
  "in_network 128 (hextets [0, 0, 0, 0, 0, 0, 0, 1]) w \<longleftrightarrow>
     between6 [0, 0, 0, 0, 0, 0, 0, 1] [0, 0, 0, 0, 0, 0, 0, 1] (unat w)"
  by (rule in_network6; simp add: address_values between6_def at6_def full_groups fun_eq_iff)

lemma loopback_range_mapped:
  "in_network 104 (mapped (octets 127 0 0 0)) w \<longleftrightarrow>
     between6 [0, 0, 0, 0, 0, 0xffff, 0x7f00] [0, 0, 0, 0, 0, 0xffff, 0x7fff] (unat w)"
  by (rule in_network6; simp add: address_values between6_def at6_def full_groups fun_eq_iff)

lemma loopback_v4:
  assumes "check_list loopback_list (V4 w)"
  shows "between4 (127, 0, 0, 0) (127, 255, 255, 255) (unat w)"
proof -
  have "between4 (127, 0, 0, 0) (127, 255, 255, 255) (unat w) \<or>
      between6 [0, 0, 0, 0, 0, 0, 0, 1] [0, 0, 0, 0, 0, 0, 0, 1] (unat (mapped w)) \<or>
      between6 [0, 0, 0, 0, 0, 0xffff, 0x7f00] [0, 0, 0, 0, 0, 0xffff, 0x7fff] (unat (mapped w))"
    using assms loopback_range6 [of "mapped w"] loopback_range_mapped [of "mapped w"]
    by (auto simp: check_list_def loopback_list_def ranges4 simp del: One_nat_def)
  then show ?thesis
    by (auto simp: unat_mapped between4_def at4_def between6_def at6_def full_groups)
qed

lemma loopback_reserved: "check_list loopback_list a \<Longrightarrow> reserved a"
proof (cases a)
  case (V4 w)
  assume "check_list loopback_list a"
  with V4 show ?thesis using loopback_v4 by (simp add: reserved4_def)
next
  case (V6 w)
  assume "check_list loopback_list a"
  then consider "is_mapped w" "between4 (127, 0, 0, 0) (127, 255, 255, 255) (unat w mod 2 ^ 32)"
    | "between6 [0, 0, 0, 0, 0, 0, 0, 1] [0, 0, 0, 0, 0, 0, 0, 1] (unat w)"
    | "between6 [0, 0, 0, 0, 0, 0xffff, 0x7f00] [0, 0, 0, 0, 0, 0xffff, 0x7fff] (unat w)"
    using loopback_range6 [of w] loopback_range_mapped [of w]
    by (auto simp: V6 check_list_def loopback_list_def ranges4 unat_low_word simp del: One_nat_def)
  then show ?thesis
  proof cases
    case 1
    with V6 show ?thesis by (simp add: is_mapped_range reserved4_def)
  next
    case 2
    then have "between6 [0, 0, 0, 0, 0, 0] [0, 0, 0, 0, 0, 0] (unat w)" by (simp add: between6_def at6_def full_groups)
    with V6 show ?thesis by (simp add: reserved6_def)
  next
    case 3
    define n where "n = unat w - 281470681743360"
    have "281472812449792 \<le> unat w" "unat w \<le> 281472829227007"
      using 3 by (simp_all add: between6_def at6_def full_groups)
    then have n: "unat w = n + 65535 * 4294967296" "2130706432 \<le> n" "n < 2147483648"
      unfolding n_def by linarith+
    have "(n + 65535 * 4294967296) mod 4294967296 = n mod 4294967296" by (rule mod_mult_self1)
    then have "unat w mod 2 ^ 32 = n" using n by simp
    then have "reserved4 (unat w mod 2 ^ 32)" using n(2,3) by (simp add: reserved4_def between4_def at4_def)
    moreover have "between6 [0, 0, 0, 0, 0, 0xffff] [0, 0, 0, 0, 0, 0xffff] (unat w)"
      using 3 by (simp add: between6_def at6_def full_groups)
    ultimately show ?thesis using V6 by simp
  qed
qed

lemma synthetic_reserved: "check_list synthetic_dns_list (V4 w) \<Longrightarrow> reserved (V4 w)"
  by (auto simp: check_list_def synthetic_dns_list_def ranges4 reserved4_def)

lemma no_empty_ip: "parse_ip [] = None"
  by code_simp

lemma blocked_iff:
  "is_blocked_address address \<longleftrightarrow>
     (case address of None \<Rightarrow> True | Some s \<Rightarrow> (case parse_ip s of None \<Rightarrow> True | Some a \<Rightarrow> reserved a))"
  using no_empty_ip by (auto simp: is_blocked_address_def check_blocked split: option.split)

text \<open>
  C9. Exactly the reserved addresses are blocked, in every spelling: a text is refused when it is no
  address at all, when the IPv4 address it means - written with dots or carried as an IPv4-mapped
  IPv6 address - lies in one of the eleven reserved ranges, or when its IPv6 address lies in a reserved
  range; the ranges are given by their first and last address. Whatever is judged to be this machine
  or a synthetic DNS answer is also blocked.
\<close>

theorem blocked_address_iff:
  "(is_blocked_address address \<longleftrightarrow>
      (case address of None \<Rightarrow> True | Some s \<Rightarrow> (case parse_ip s of None \<Rightarrow> True | Some a \<Rightarrow> reserved a))) \<and>
   (is_loopback_address address \<or> is_synthetic_dns_address address \<longrightarrow> is_blocked_address address)"
  using blocked_iff loopback_reserved synthetic_reserved
  by (auto simp: is_loopback_address_def is_synthetic_dns_address_def split: option.splits ip_address.splits)

lemma sample_addresses:
  "parse_ip ''::ffff:127.0.0.1'' = Some (V6 (hextets [0, 0, 0, 0, 0, 0xffff, 0x7f00, 1]))"
  "parse_ip ''8.8.8.8'' = Some (V4 (octets 8 8 8 8))"
proof -
  have "parse_octets ''::ffff:127.0.0.1'' = None"
    "parse_hextets ''::ffff:127.0.0.1'' = Some [0, 0, 0, 0, 0, 0xffff, 0x7f00, 1]"
    "parse_octets ''8.8.8.8'' = Some [8, 8, 8, 8]"
    by (simp_all add: parse_octets_def parse_octet_def parse_hextets_def parse_groups_def parse_group_def zone_ok_def
        is_digit_def hex_digit_value_def number_of_digits_def Let_def zero_groups full_groups)
  then show "parse_ip ''::ffff:127.0.0.1'' = Some (V6 (hextets [0, 0, 0, 0, 0, 0xffff, 0x7f00, 1]))"
    "parse_ip ''8.8.8.8'' = Some (V4 (octets 8 8 8 8))"
    by (simp_all add: parse_ip_def hextets_def octets_def)
qed

lemma blocked_address_iff_witness:
  "is_blocked_address (Some ''::ffff:127.0.0.1'') \<and> \<not> is_blocked_address (Some ''8.8.8.8'')"
proof
  have "is_loopback_address (Some ''::ffff:127.0.0.1'')"
    by (simp add: is_loopback_address_def sample_addresses check_list_def loopback_list_def in_network_def address_values)
  with blocked_address_iff [of "Some ''::ffff:127.0.0.1''"] show "is_blocked_address (Some ''::ffff:127.0.0.1'')"
    by blast
  have "\<not> reserved (V4 (octets 8 8 8 8))"
    by (simp add: reserved4_def between4_def at4_def address_values)
  with blocked_address_iff [of "Some ''8.8.8.8''"] show "\<not> is_blocked_address (Some ''8.8.8.8'')"
    by (simp add: sample_addresses)
qed

end
