(* ===== verification/OutboundGuard.thy ===== *)
theory OutboundGuard
  imports AddressBlocks
begin

text \<open>
  Fetching a URL a user or a page names: \<open>packages/outbound-guard/src/guard.ts\<close>, \<open>pinnedLookup.ts\<close> and
  \<open>fetch.ts\<close>. Parsing of URLs, name resolution, the upstream's responses and the hooks of the caller
  are an environment, which may answer differently at every hop.
\<close>

section \<open>URLs\<close>

text \<open>What the code reads of a parsed \<open>URL\<close>.\<close>

record outbound_url =
  ou_href :: string
  ou_protocol :: string
  ou_hostname :: string
  ou_origin :: string
  ou_username :: string
  ou_password :: string

datatype outbound_error =
    InvalidHttpUrl | CredentialsInUrl | UrlNotHttps | RedirectNotHttps | RedirectDowngrade
  | OutboundRefused | TooManyRedirects | DeadlinePassed | NotAdmitted | InvalidLocation | TransportFailed

definition parse_outbound_http_url ::
    "(string \<Rightarrow> outbound_url option) \<Rightarrow> string \<Rightarrow> outbound_error + outbound_url" where
  "parse_outbound_http_url parse_url v =
     (case parse_url v of
        None \<Rightarrow> Inl InvalidHttpUrl
      | Some u \<Rightarrow>
          if ou_protocol u \<noteq> ''https:'' \<and> ou_protocol u \<noteq> ''http:'' then Inl InvalidHttpUrl
          else if ou_username u \<noteq> [] \<or> ou_password u \<noteq> [] then Inl CredentialsInUrl
          else if ou_hostname u = [] then Inl InvalidHttpUrl
          else Inr u)"

definition url_host_address :: "outbound_url \<Rightarrow> string" where
  "url_host_address u =
     (let host = ou_hostname u
      in if starts_with ''['' host \<and> host \<noteq> [] \<and> last host = CHR '']'' then butlast (tl host) else host)"

section \<open>Which addresses may be dialled\<close>

record pinned_address =
  pa_address :: string
  pa_family :: nat

datatype dns_answer = DnsAnswers "(string \<times> nat) list" | DnsFailed | DnsAborted

definition is_synthetic_dns_hostname_route :: "string \<Rightarrow> (string \<times> nat) list \<Rightarrow> bool \<Rightarrow> bool" where
  "is_synthetic_dns_hostname_route host answers enabled \<longleftrightarrow>
     enabled \<and> parse_ip host = None \<and> answers \<noteq> [] \<and>
     list_ex (\<lambda>(a, _). is_synthetic_dns_address (Some a)) answers \<and>
     list_all (\<lambda>(a, _). \<not> is_blocked_address (Some a) \<or> is_synthetic_dns_address (Some a)) answers"

text \<open>\<open>pin\<close> of the guard, with the policy on synthetic answers and the resolver\<close>

definition pin_address ::
    "(outbound_url \<Rightarrow> bool) \<Rightarrow> (string \<Rightarrow> dns_answer) \<Rightarrow> outbound_url \<Rightarrow> outbound_error + pinned_address list" where
  "pin_address allow_synthetic lookup u =
     (let host = url_host_address u
      in case parse_ip host of
           Some a \<Rightarrow>
             if is_blocked_address (Some host) then Inl OutboundRefused
             else Inr [\<lparr>pa_address = host, pa_family = (case a of V6 _ \<Rightarrow> 6 | V4 _ \<Rightarrow> 4)\<rparr>]
         | None \<Rightarrow>
             (case lookup host of
                DnsAborted \<Rightarrow> Inl DeadlinePassed
              | DnsFailed \<Rightarrow> Inl OutboundRefused
              | DnsAnswers answers \<Rightarrow>
                  if answers = [] then Inl OutboundRefused
                  else if list_ex (\<lambda>(a, _). is_blocked_address (Some a)) answers \<and>
                          \<not> is_synthetic_dns_hostname_route host answers (allow_synthetic u)
                  then Inl OutboundRefused
                  else Inr (map (\<lambda>(a, f). \<lparr>pa_address = a, pa_family = (if f = 6 then 6 else 4)\<rparr>) answers)))"

text \<open>
  \<open>pinnedAddressLookup\<close>: what the HTTP client gets for any name it asks, by the family it wants, and
  whether it asked for all addresses; nothing for ENOTFOUND.
\<close>

definition pinned_address_lookup :: "pinned_address list \<Rightarrow> nat option \<Rightarrow> bool \<Rightarrow> pinned_address list" where
  "pinned_address_lookup pinned family one =
     (let wanted = (if family = Some 4 \<or> family = Some 6
                    then filter (\<lambda>p. Some (pa_family p) = family) pinned else pinned)
      in if one then take 1 wanted else wanted)"

section \<open>A guarded fetch\<close>

type_synonym headers = "(string \<times> string) list"

definition always_credential_headers :: "string list" where
  "always_credential_headers = [''authorization'', ''cookie'', ''proxy-authorization'']"

text \<open>\<open>{ ...a, ...b }\<close>\<close>

definition merge_headers :: "headers \<Rightarrow> headers \<Rightarrow> headers" where
  "merge_headers a b = fold (\<lambda>(k, v). AList.update k v) b a"

definition lower_case_headers :: "headers \<Rightarrow> headers" where
  "lower_case_headers hs = fold (\<lambda>(k, v). AList.update (js_lower k) v) hs []"

record guarded_request =
  gr_url :: string
  gr_require_https :: bool
  gr_headers :: headers
  gr_credential_headers :: headers
  gr_max_redirects :: "nat option"

definition default_max_redirects :: nat where
  "default_max_redirects = 5"

record sent_request =
  sr_url :: outbound_url
  sr_headers :: headers
  sr_pinned :: "pinned_address list"

datatype upstream_response = NoResponse | Response nat "string option"

text \<open>
  The environment of a fetch, by hop: the platform's URL parser, resolution of a location against the
  current URL, the resolver, the per-hop headers of the caller, its admission of the send, and the
  upstream.
\<close>

record outbound_env =
  oe_parse_url :: "string \<Rightarrow> outbound_url option"
  oe_resolve :: "string \<Rightarrow> outbound_url \<Rightarrow> outbound_url option"
  oe_allow_synthetic :: "outbound_url \<Rightarrow> bool"
  oe_lookup :: "nat \<Rightarrow> string \<Rightarrow> dns_answer"
  oe_hop_headers :: "nat \<Rightarrow> outbound_url \<Rightarrow> (headers \<times> headers) option"
  oe_admits :: "nat \<Rightarrow> outbound_url \<Rightarrow> bool"
  oe_respond :: "nat \<Rightarrow> sent_request \<Rightarrow> upstream_response"

text \<open>The URL and the status a fetch ends with\<close>

type_synonym fetch_result = "outbound_error + string \<times> nat"

definition carries_credentials :: "guarded_request \<Rightarrow> bool" where
  "carries_credentials req \<longleftrightarrow>
     lower_case_headers (gr_credential_headers req) \<noteq> [] \<or>
     list_ex (\<lambda>(name, _). name \<in> set always_credential_headers) (lower_case_headers (gr_headers req))"

definition hop_base_headers :: "guarded_request \<Rightarrow> bool \<Rightarrow> headers" where
  "hop_base_headers req same_origin =
     (if same_origin
      then merge_headers (lower_case_headers (gr_headers req)) (lower_case_headers (gr_credential_headers req))
      else filter (\<lambda>(name, _). name \<notin> set always_credential_headers) (lower_case_headers (gr_headers req)))"

text \<open>The headers of a hop, with those the caller resolves for it\<close>

definition hop_headers :: "guarded_request \<Rightarrow> bool \<Rightarrow> (headers \<times> headers) option \<Rightarrow> headers" where
  "hop_headers req same_origin extra =
     (case extra of
        None \<Rightarrow> hop_base_headers req same_origin
      | Some (hs, cs) \<Rightarrow>
          merge_headers (merge_headers (hop_base_headers req same_origin) (lower_case_headers hs))
            (lower_case_headers cs))"

fun fetch_hops ::
    "outbound_env \<Rightarrow> guarded_request \<Rightarrow> outbound_url \<Rightarrow> nat \<Rightarrow> nat \<Rightarrow> outbound_url \<Rightarrow>
     fetch_result \<times> sent_request list" where
  "fetch_hops env req start 0 hop current = (Inl TooManyRedirects, [])"
| "fetch_hops env req start (Suc left) hop current =
     (let same_origin = (ou_origin current = ou_origin start)
      in if gr_require_https req \<and> ou_protocol current \<noteq> ''https:'' then (Inl RedirectNotHttps, [])
         else if carries_credentials req \<and> \<not> same_origin \<and> ou_protocol start = ''https:'' \<and>
                 ou_protocol current = ''http:'' then (Inl RedirectDowngrade, [])
         else case pin_address (oe_allow_synthetic env) (oe_lookup env hop) current of
                Inl e \<Rightarrow> (Inl e, [])
              | Inr pinned \<Rightarrow>
                  (let sent = \<lparr>sr_url = current,
                               sr_headers = hop_headers req same_origin (oe_hop_headers env hop current),
                               sr_pinned = pinned\<rparr>
                   in if \<not> oe_admits env hop current then (Inl NotAdmitted, [])
                      else case oe_respond env hop sent of
                             NoResponse \<Rightarrow> (Inl TransportFailed, [sent])
                           | Response status location \<Rightarrow>
                               if status = 304 \<or> status < 300 \<or> 400 \<le> status \<or>
                                  location = None \<or> location = Some []
                               then (Inr (ou_href current, status), [sent])
                               else (case oe_resolve env (the location) current of
                                       None \<Rightarrow> (Inl InvalidLocation, [sent])
                                     | Some u \<Rightarrow>
                                         (case parse_outbound_http_url (oe_parse_url env) (ou_href u) of
                                            Inl e \<Rightarrow> (Inl e, [sent])
                                          | Inr u' \<Rightarrow>
                                              (let (r, more) = fetch_hops env req start left (hop + 1) u'
                                               in (r, sent # more))))))"

definition guarded_fetch :: "outbound_env \<Rightarrow> guarded_request \<Rightarrow> fetch_result \<times> sent_request list" where
  "guarded_fetch env req =
     (case parse_outbound_http_url (oe_parse_url env) (gr_url req) of
        Inl e \<Rightarrow> (Inl e, [])
      | Inr start \<Rightarrow>
          if gr_require_https req \<and> ou_protocol start \<noteq> ''https:'' then (Inl UrlNotHttps, [])
          else fetch_hops env req start
                 ((case gr_max_redirects req of None \<Rightarrow> default_max_redirects | Some n \<Rightarrow> n) + 1) 0 start)"

section \<open>Where requests go, and with what\<close>

text \<open>An address that may be dialled for a URL: public, or synthetic for a name where the caller's policy says so.\<close>

definition may_dial :: "(outbound_url \<Rightarrow> bool) \<Rightarrow> outbound_url \<Rightarrow> string \<Rightarrow> bool" where
  "may_dial allow_synthetic u a \<longleftrightarrow>
     \<not> is_blocked_address (Some a) \<or>
     (allow_synthetic u \<and> parse_ip (url_host_address u) = None \<and> is_synthetic_dns_address (Some a))"

lemma pin_address_ok:
  "pin_address allow_synthetic lookup u = Inr pinned \<Longrightarrow>
   pinned \<noteq> [] \<and> (\<forall>p\<in>set pinned. may_dial allow_synthetic u (pa_address p))"
  by (fastforce simp: pin_address_def may_dial_def is_synthetic_dns_hostname_route_def list_ex_iff list_all_iff Let_def
      split: option.splits dns_answer.splits if_splits)

definition url_ok :: "outbound_url \<Rightarrow> bool" where
  "url_ok u \<longleftrightarrow> ou_protocol u \<in> {''https:'', ''http:''} \<and> ou_username u = [] \<and> ou_password u = []"

lemma parsed_url_ok: "parse_outbound_http_url parse_url v = Inr u \<Longrightarrow> url_ok u"
  by (auto simp: parse_outbound_http_url_def url_ok_def split: option.splits if_splits)

text \<open>
  What holds of every request sent. To another origin than the first, a header is one of the request's
  plain ones, or one the caller resolved for this very hop.
\<close>

definition hop_header :: "(headers \<times> headers) option \<Rightarrow> string \<times> string \<Rightarrow> bool" where
  "hop_header extra h \<longleftrightarrow>
     (case extra of None \<Rightarrow> False | Some (hs, cs) \<Rightarrow> h \<in> set (lower_case_headers hs @ lower_case_headers cs))"

definition plain_header :: "guarded_request \<Rightarrow> string \<times> string \<Rightarrow> bool" where
  "plain_header req h \<longleftrightarrow>
     fst h \<notin> set always_credential_headers \<and> h \<in> set (lower_case_headers (gr_headers req))"

definition send_ok :: "outbound_env \<Rightarrow> guarded_request \<Rightarrow> outbound_url \<Rightarrow> nat \<Rightarrow> sent_request \<Rightarrow> bool" where
  "send_ok env req start hop s \<longleftrightarrow>
     url_ok (sr_url s) \<and>
     sr_pinned s \<noteq> [] \<and> (\<forall>p\<in>set (sr_pinned s). may_dial (oe_allow_synthetic env) (sr_url s) (pa_address p)) \<and>
     (gr_require_https req \<longrightarrow> ou_protocol (sr_url s) = ''https:'') \<and>
     (ou_origin (sr_url s) \<noteq> ou_origin start \<longrightarrow>
        (carries_credentials req \<and> ou_protocol start = ''https:'' \<longrightarrow> ou_protocol (sr_url s) = ''https:'') \<and>
        (\<forall>h\<in>set (sr_headers s). plain_header req h \<or> hop_header (oe_hop_headers env hop (sr_url s)) h))"

lemma set_merge_headers: "set (merge_headers a b) \<subseteq> set a \<union> set b"
proof -
  have "set (fold (\<lambda>(k, v). AList.update k v) b a) \<subseteq> set a \<union> set b" for a :: headers
  proof (induction b arbitrary: a)
    case (Cons p b)
    then show ?case
      using Cons.IH [of "AList.update (fst p) (snd p) a"] set_update_subset [where k = "fst p" and v = "snd p" and kvs = a]
      by (auto simp: case_prod_beta)
  qed simp
  then show ?thesis
    by (simp add: merge_headers_def)
qed

lemma foreign_header:
  assumes "h \<in> set (hop_headers req False extra)"
  shows "plain_header req h \<or> hop_header extra h"
  using assms
  by (auto simp: hop_headers_def hop_base_headers_def plain_header_def hop_header_def
      split: option.splits dest!: subsetD [OF set_merge_headers])

lemma send_ok_hop:
  assumes "url_ok current"
    and "\<not> (gr_require_https req \<and> ou_protocol current \<noteq> ''https:'')"
    and "\<not> (carries_credentials req \<and> ou_origin current \<noteq> ou_origin start \<and> ou_protocol start = ''https:'' \<and>
            ou_protocol current = ''http:'')"
    and "pin_address (oe_allow_synthetic env) (oe_lookup env hop) current = Inr pinned"
  shows "send_ok env req start hop
           \<lparr>sr_url = current,
            sr_headers = hop_headers req (ou_origin current = ou_origin start) (oe_hop_headers env hop current),
            sr_pinned = pinned\<rparr>"
  using assms(1-3) pin_address_ok [OF assms(4)] foreign_header
  by (auto simp: send_ok_def url_ok_def)

text \<open>The requests of a hop: none, or one, after which the fetch ends or goes on to a parsed URL\<close>

lemma fetch_hops_step:
  assumes "fetch_hops env req start (Suc left) hop current = (r, sends)" and "url_ok current"
  shows "sends = [] \<or>
         (\<exists>sent tail. sends = sent # tail \<and> send_ok env req start hop sent \<and>
            (tail = [] \<or> (\<exists>u r'. url_ok u \<and> fetch_hops env req start left (hop + 1) u = (r', tail))))"
proof (cases "pin_address (oe_allow_synthetic env) (oe_lookup env hop) current")
  case (Inl e)
  then show ?thesis
    using assms(1) by (auto simp: Let_def split: if_splits)
next
  case (Inr pinned)
  define sent where
    "sent = \<lparr>sr_url = current,
             sr_headers = hop_headers req (ou_origin current = ou_origin start) (oe_hop_headers env hop current),
             sr_pinned = pinned\<rparr>"
  note run = assms(1) [simplified fetch_hops.simps Let_def Inr sum.case, folded sent_def]
  have ok: "send_ok env req start hop sent" if "sends \<noteq> []"
    unfolding sent_def using run that assms(2) Inr by (intro send_ok_hop) (auto split: if_splits)
  have "sends = [] \<or> (\<exists>tail. sends = sent # tail \<and>
          (tail = [] \<or> (\<exists>u r'. url_ok u \<and> fetch_hops env req start left (hop + 1) u = (r', tail))))"
    using run
    by (auto dest: parsed_url_ok split: if_splits upstream_response.splits option.splits sum.splits prod.splits)
  then show ?thesis
    using ok by auto
qed

lemma fetch_hops_ok:
  "fetch_hops env req start left hop current = (r, sends) \<Longrightarrow> url_ok current \<Longrightarrow>
   length sends \<le> left \<and> (\<forall>i<length sends. send_ok env req start (hop + i) (sends ! i))"
proof (induction left arbitrary: hop current r sends)
  case 0
  then show ?case by simp
next
  case (Suc left)
  show ?case
  proof (cases sends)
    case Nil
    then show ?thesis by simp
  next
    case (Cons sent tail)
    have "send_ok env req start hop sent"
      and tail: "tail = [] \<or> (\<exists>u r'. url_ok u \<and> fetch_hops env req start left (hop + 1) u = (r', tail))"
      using fetch_hops_step [OF Suc.prems] Cons by auto
    moreover have "length tail \<le> left \<and> (\<forall>i<length tail. send_ok env req start (hop + 1 + i) (tail ! i))"
      using tail Suc.IH by fastforce
    ultimately show ?thesis
      using Cons by (auto simp: nth_Cons split: nat.split)
  qed
qed

lemma pinned_lookup_subset: "set (pinned_address_lookup pinned family one) \<subseteq> set pinned"
  by (auto simp: pinned_address_lookup_def Let_def dest: in_set_takeD split: if_splits)


text \<open>A page that redirects to another origin\<close>

definition sample_url :: "string \<Rightarrow> outbound_url" where
  "sample_url host =
     \<lparr>ou_href = ''https://'' @ host, ou_protocol = ''https:'', ou_hostname = host, ou_origin = ''https://'' @ host,
      ou_username = [], ou_password = []\<rparr>"

definition sample_outbound_env :: outbound_env where
  "sample_outbound_env =
     \<lparr>oe_parse_url = (\<lambda>v. Some (sample_url (drop 8 v))),
      oe_resolve = (\<lambda>v _. Some (sample_url (drop 8 v))),
      oe_allow_synthetic = (\<lambda>_. False),
      oe_lookup = (\<lambda>_ host. DnsAnswers [(if host = ''a'' then ''9.9.9.9'' else ''10.1.1.1'', 4)]),
      oe_hop_headers = (\<lambda>_ _. None),
      oe_admits = (\<lambda>_ _. True),
      oe_respond = (\<lambda>hop s. if hop = 0 then Response 302 (Some ''https://8.8.8.8'')
                           else if hop = 1 then Response 302 (Some ''https://b'') else NoResponse)\<rparr>"

definition sample_guarded_request :: guarded_request where
  "sample_guarded_request =
     \<lparr>gr_url = ''https://a'', gr_require_https = True, gr_headers = [(''Accept'', ''x''), (''Cookie'', ''c'')],
      gr_credential_headers = [(''X-Key'', ''k'')], gr_max_redirects = None\<rparr>"

lemma sample_hosts:
  "parse_ip ''a'' = None" "parse_ip ''b'' = None"
  "parse_ip ''9.9.9.9'' = Some (V4 (octets 9 9 9 9))" "parse_ip ''8.8.8.8'' = Some (V4 (octets 8 8 8 8))"
  "parse_ip ''10.1.1.1'' = Some (V4 (octets 10 1 1 1))"
  by (simp_all add: parse_ip_def parse_octets_def parse_octet_def parse_hextets_def parse_groups_def
      parse_group_def zone_ok_def number_of_digits_def hex_digit_value_def is_digit_def octets_def)

lemma sample_pins:
  "is_blocked_address (Some ''9.9.9.9'') \<longleftrightarrow> False" "is_blocked_address (Some ''8.8.8.8'') \<longleftrightarrow> False"
  "is_blocked_address (Some ''10.1.1.1'') \<longleftrightarrow> True"
  by (simp_all add: is_blocked_address_def sample_hosts check_list_def blocked_list_def in_network_def address_values)

lemma sample_headers:
  "lower_case_headers [(''Accept'', ''x''), (''Cookie'', ''c'')] = [(''accept'', ''x''), (''cookie'', ''c'')]"
  "lower_case_headers [(''X-Key'', ''k'')] = [(''x-key'', ''k'')]"
  by (simp_all add: lower_case_headers_def js_lower_def js_lower_char_def char_of_def bit_0)

lemma sample_guarded_fetch:
  "guarded_fetch sample_outbound_env sample_guarded_request =
     (Inl OutboundRefused,
      [\<lparr>sr_url = sample_url ''a'',
        sr_headers = [(''accept'', ''x''), (''cookie'', ''c''), (''x-key'', ''k'')],
        sr_pinned = [\<lparr>pa_address = ''9.9.9.9'', pa_family = 4\<rparr>]\<rparr>,
       \<lparr>sr_url = sample_url ''8.8.8.8'', sr_headers = [(''accept'', ''x'')],
        sr_pinned = [\<lparr>pa_address = ''8.8.8.8'', pa_family = 4\<rparr>]\<rparr>])"
  by (simp add: guarded_fetch_def sample_outbound_env_def sample_guarded_request_def sample_url_def
      parse_outbound_http_url_def default_max_redirects_def numeral_eq_Suc pin_address_def url_host_address_def
      starts_with_def sample_hosts sample_pins sample_headers carries_credentials_def
      always_credential_headers_def is_synthetic_dns_hostname_route_def
      hop_headers_def hop_base_headers_def merge_headers_def)


end
