(* ===== verification/EgressPolicy.thy ===== *)
theory EgressPolicy
  imports AddressBlocks
begin

text \<open>
  Which model provider may see a content: \<open>server/src/modules/retrieval/egress/egressPolicy.ts\<close>, with the
  deployment of a provider (\<open>providers/deployment.ts\<close>), the endpoint a runtime binds
  (\<open>runs/adapterProviderRequirement.ts\<close>) and the check of a call (\<open>providers/invocation/invocation.ts\<close>).
  The host name of a URL is the answer of the platform's parser, an argument.
\<close>

section \<open>The policy of a content\<close>

datatype egress_destination = ExternalProvider | LocalProvider | InternalProcess

datatype source_egress_class = InternalOnly | LocalProviderAllowed | ExternalProviderAllowed

record source_egress_policy =
  sg_class :: source_egress_class
  sg_allow_local :: bool
  sg_allow_external :: bool

record egress_policy =
  ep_external_enabled :: bool
  ep_destination :: "egress_destination option"
  ep_source_policies :: "(string \<times> source_egress_policy) list option"
  ep_payload_sources :: "string list"

definition allow_all_egress :: egress_policy where
  "allow_all_egress =
     \<lparr>ep_external_enabled = True, ep_destination = None, ep_source_policies = None, ep_payload_sources = []\<rparr>"

definition source_egress_allowed ::
    "(string \<times> source_egress_policy) list \<Rightarrow> egress_destination \<Rightarrow> string \<Rightarrow> bool" where
  "source_egress_allowed policies destination i \<longleftrightarrow>
     (case map_of policies i of
        None \<Rightarrow> False
      | Some p \<Rightarrow>
          if destination = LocalProvider
          then (sg_class p = LocalProviderAllowed \<or> sg_class p = ExternalProviderAllowed) \<and>
               (sg_allow_local p \<or> sg_allow_external p)
          else if destination = ExternalProvider
          then sg_class p = ExternalProviderAllowed \<and> sg_allow_external p
          else True)"

definition unique_ids :: "string list \<Rightarrow> string list" where
  "unique_ids ids = rev (remdups (rev (filter (\<lambda>i. js_trim i \<noteq> []) ids)))"

text \<open>\<open>retrievalEgressAllowed\<close> for the sources of an object\<close>

definition retrieval_egress_allowed :: "string list \<Rightarrow> egress_policy \<Rightarrow> bool" where
  "retrieval_egress_allowed sources p \<longleftrightarrow>
     (let destination = (case ep_destination p of None \<Rightarrow> ExternalProvider | Some d \<Rightarrow> d)
      in if destination = InternalProcess then True
         else if destination = ExternalProvider \<and> \<not> ep_external_enabled p then False
         else (let ids = unique_ids (sources @ ep_payload_sources p)
               in if ids = [] then True
                  else (case ep_source_policies p of
                          None \<Rightarrow> False
                        | Some policies \<Rightarrow> list_all (source_egress_allowed policies destination) ids)))"

section \<open>Where a provider runs\<close>

datatype provider_deployment = Cloud | TrustedLocal

definition read_deployment :: "jsval \<Rightarrow> provider_deployment" where
  "read_deployment config =
     (case config of
        JObj kvs \<Rightarrow> if get_prop kvs ''deployment'' = JStr ''trusted_local'' then TrustedLocal else Cloud
      | _ \<Rightarrow> Cloud)"

record egress_subject =
  es_space_id :: string
  es_provider_type :: string
  es_base_url :: "string option"
  es_deployment :: "provider_deployment option"
  es_config_json :: jsval
  es_default_model :: "string option"
  es_model :: "string option"

definition ends_in :: "string \<Rightarrow> string \<Rightarrow> bool" where
  "ends_in p s \<longleftrightarrow> drop (length s - length p) s = p"

definition is_cloud_served_model :: "string \<Rightarrow> string option \<Rightarrow> bool" where
  "is_cloud_served_model provider_type model \<longleftrightarrow>
     given model \<and> provider_type = ''ollama'' \<and>
     (let name = js_lower (js_trim (the model))
      in ends_in ''-cloud'' name \<or> ends_in '':cloud'' name \<or> str_includes ''-cloud:'' name)"

definition non_public_suffixes :: "string list" where
  "non_public_suffixes =
     [''.local'', ''.localhost'', ''.localdomain'', ''.lan'', ''.internal'', ''.home'', ''.home.arpa'', ''.intranet'']"

text \<open>\<open>hostname.toLowerCase().replace(/^\[(.*)\]$/, "$1").replace(/\.$/, "")\<close>\<close>

definition judged_host :: "string \<Rightarrow> string" where
  "judged_host hostname =
     (let host = js_lower hostname;
          host = (if starts_with ''['' host \<and> ends_in '']'' host then butlast (tl host) else host)
      in if ends_in ''.'' host then butlast host else host)"

definition is_instance_network_url :: "(string \<Rightarrow> string option) \<Rightarrow> string option \<Rightarrow> bool" where
  "is_instance_network_url hostname_of url \<longleftrightarrow>
     (if \<not> given url then False
      else (case hostname_of (the url) of
              None \<Rightarrow> False
            | Some h \<Rightarrow>
                (let host = judged_host h
                 in if host = [] then False
                    else if host = ''localhost'' \<or> is_loopback_address (Some host) then True
                    else if parse_ip host \<noteq> None
                    then is_blocked_address (Some host) \<and> \<not> is_synthetic_dns_address (Some host)
                    else if \<not> str_includes ''.'' host then True
                    else list_ex (\<lambda>s. ends_in s host) non_public_suffixes)))"

definition provider_egress_destination ::
    "(string \<Rightarrow> string option) \<Rightarrow> egress_subject \<Rightarrow> string \<Rightarrow> egress_destination" where
  "provider_egress_destination hostname_of s using_space =
     (let deployment = (case es_deployment s of None \<Rightarrow> read_deployment (es_config_json s) | Some d \<Rightarrow> d)
      in if deployment \<noteq> TrustedLocal then ExternalProvider
         else if es_space_id s \<noteq> using_space then ExternalProvider
         else if \<not> is_instance_network_url hostname_of (es_base_url s) then ExternalProvider
         else (let model = (case es_model s of None \<Rightarrow> es_default_model s | Some m \<Rightarrow> Some m)
               in if is_cloud_served_model (es_provider_type s) model then ExternalProvider else LocalProvider))"

text \<open>The check of a provider call: no policy, no restriction.\<close>

definition provider_target_egress_allowed ::
    "(string \<Rightarrow> string option) \<Rightarrow> egress_subject \<Rightarrow> string \<Rightarrow> egress_policy option \<Rightarrow> string option \<Rightarrow> bool" where
  "provider_target_egress_allowed hostname_of target space policy model \<longleftrightarrow>
     (case policy of
        None \<Rightarrow> True
      | Some p \<Rightarrow>
          retrieval_egress_allowed (ep_payload_sources p)
            (p\<lparr>ep_destination := Some (provider_egress_destination hostname_of (target\<lparr>es_model := model\<rparr>) space)\<rparr>))"

section \<open>The endpoint a runtime binds\<close>

datatype provider_api = ClaudeCompatible | OpenaiCompatible

text \<open>
  The runtimes with a provider of their own are three built-in ones. OpenCode follows the protocol of the
  provider's vendor; agents of the registry run on remote hosts only and take none.
\<close>

definition vendor_provider_api :: "string \<Rightarrow> provider_api option" where
  "vendor_provider_api provider_type =
     (if provider_type \<in> set [''anthropic'', ''minimax''] then Some ClaudeCompatible
      else if provider_type \<in> set [''openai'', ''openrouter'', ''deepseek'', ''ollama'', ''openai_compatible'']
      then Some OpenaiCompatible else None)"

definition adapter_takes_provider :: "string option \<Rightarrow> bool" where
  "adapter_takes_provider runtime \<longleftrightarrow> runtime \<in> set [Some ''claude_code'', Some ''codex_cli'', Some ''opencode'']"

definition base_url_field :: "string option \<Rightarrow> string \<Rightarrow> string option" where
  "base_url_field runtime provider_type =
     (case (if runtime = Some ''claude_code'' then Some ClaudeCompatible
            else if runtime = Some ''codex_cli'' then Some OpenaiCompatible
            else if runtime = Some ''opencode'' then vendor_provider_api provider_type else None) of
        None \<Rightarrow> None
      | Some ClaudeCompatible \<Rightarrow> Some ''claude_compatible_base_url''
      | Some OpenaiCompatible \<Rightarrow> Some ''openai_compatible_base_url'')"

definition runtime_provider_egress_destination ::
    "(string \<Rightarrow> string option) \<Rightarrow> string option \<Rightarrow> egress_subject \<Rightarrow> string \<Rightarrow> egress_destination" where
  "runtime_provider_egress_destination hostname_of runtime s using_space =
     (if \<not> adapter_takes_provider runtime then provider_egress_destination hostname_of s using_space
      else (let config = (case as_record (es_config_json s) of None \<Rightarrow> [] | Some kvs \<Rightarrow> kvs);
                url = (case base_url_field runtime (es_provider_type s) of
                         None \<Rightarrow> []
                       | Some k \<Rightarrow> (case get_prop config k of JStr v \<Rightarrow> js_trim v | _ \<Rightarrow> []))
            in provider_egress_destination hostname_of
                 (s\<lparr>es_base_url := if url = [] then None else Some url\<rparr>) using_space))"

section \<open>What leaves, and where it stays\<close>

text \<open>A host inside the instance's own network\<close>

definition host_inside :: "string \<Rightarrow> bool" where
  "host_inside host \<longleftrightarrow>
     host \<noteq> [] \<and>
     (case parse_ip host of
        Some (V4 a) \<Rightarrow> reserved (V4 a) \<and> \<not> between4 (198, 18, 0, 0) (198, 19, 255, 255) (unat a)
      | Some (V6 a) \<Rightarrow> reserved (V6 a)
      | None \<Rightarrow> host = ''localhost'' \<or> is_short_loopback host \<or> CHR ''.'' \<notin> set host \<or>
                (\<exists>s\<in>set non_public_suffixes. ends_in s host))"

definition runs_inside :: "(string \<Rightarrow> string option) \<Rightarrow> egress_subject \<Rightarrow> string \<Rightarrow> bool" where
  "runs_inside hostname_of s using_space \<longleftrightarrow>
     (case es_deployment s of None \<Rightarrow> read_deployment (es_config_json s) | Some d \<Rightarrow> d) = TrustedLocal \<and>
     es_space_id s = using_space \<and>
     (\<exists>url h. es_base_url s = Some url \<and> url \<noteq> [] \<and> hostname_of url = Some h \<and> host_inside (judged_host h)) \<and>
     \<not> is_cloud_served_model (es_provider_type s)
         (case es_model s of None \<Rightarrow> es_default_model s | Some m \<Rightarrow> Some m)"

lemma includes_char: "str_includes [c] s \<longleftrightarrow> c \<in> set s"
  by (induction s) (auto simp: starts_with_def)

lemma localhost_no_ip: "parse_ip ''localhost'' = None"
  by code_simp

lemma synthetic_v4:
  "check_list synthetic_dns_list (V4 w) \<longleftrightarrow> between4 (198, 18, 0, 0) (198, 19, 255, 255) (unat w)"
  by (simp add: check_list_def synthetic_dns_list_def ranges4)

lemma inside_address:
  assumes "parse_ip host = Some a"
  shows "host_inside host \<longleftrightarrow>
    is_loopback_address (Some host) \<or> is_blocked_address (Some host) \<and> \<not> is_synthetic_dns_address (Some host)"
proof -
  have host: "host \<noteq> []"
    using assms no_empty_ip by auto
  have "reserved a" if "check_list loopback_list a"
    using that by (rule loopback_reserved)
  moreover have "\<not> check_list synthetic_dns_list (V4 w)" if "check_list loopback_list (V4 w)" for w
    using loopback_v4 [OF that] unfolding synthetic_v4 by (simp add: between4_def at4_def)
  ultimately show ?thesis
    unfolding host_inside_def is_loopback_address_def blocked_iff is_synthetic_dns_address_def
    by (cases a) (auto simp: assms host synthetic_v4 [symmetric] simp del: reserved.simps)
qed

lemma instance_network_iff:
  "is_instance_network_url hostname_of url \<longleftrightarrow>
     (\<exists>u h. url = Some u \<and> u \<noteq> [] \<and> hostname_of u = Some h \<and> host_inside (judged_host h))"
proof -
  have inside: "host \<noteq> [] \<Longrightarrow> host_inside host \<longleftrightarrow>
      host = ''localhost'' \<or> is_loopback_address (Some host) \<or>
      (if parse_ip host \<noteq> None then is_blocked_address (Some host) \<and> \<not> is_synthetic_dns_address (Some host)
       else \<not> str_includes ''.'' host \<or> list_ex (\<lambda>s. ends_in s host) non_public_suffixes)" for host
  proof (cases "parse_ip host")
    case None
    then show "host \<noteq> [] \<Longrightarrow> ?thesis"
      by (auto simp: host_inside_def is_loopback_address_def includes_char list_ex_iff)
  next
    case (Some a)
    then show "host \<noteq> [] \<Longrightarrow> ?thesis"
      using localhost_no_ip inside_address [OF Some] by auto
  qed
  show ?thesis
  proof (cases "\<exists>u h. url = Some u \<and> u \<noteq> [] \<and> hostname_of u = Some h \<and> judged_host h \<noteq> []")
    case True
    then obtain u h where u: "url = Some u" "u \<noteq> []" "hostname_of u = Some h" "judged_host h \<noteq> []" by blast
    have "is_instance_network_url hostname_of url \<longleftrightarrow> host_inside (judged_host h)"
      unfolding is_instance_network_url_def inside [OF u(4)] using u(2-4)
      by (simp only: given_def u(1,3) Let_def option.case option.sel option.simps if_False simp_thms) argo
    then show ?thesis using u by simp
  next
    case False
    moreover have "\<not> host_inside []" by (simp add: host_inside_def)
    moreover have "\<not> is_instance_network_url hostname_of url"
    proof (cases "given url")
      case True
      then obtain u where u: "url = Some u" "u \<noteq> []" by (auto simp: given_def)
      with False have "hostname_of u = Some h \<Longrightarrow> judged_host h = []" for h by blast
      then show ?thesis
        by (cases "hostname_of u") (simp_all add: is_instance_network_url_def u Let_def)
    qed (simp add: is_instance_network_url_def)
    ultimately show ?thesis by metis
  qed
qed

lemma destination_iff:
  "provider_egress_destination hostname_of s space =
     (if runs_inside hostname_of s space then LocalProvider else ExternalProvider)"
  unfolding provider_egress_destination_def runs_inside_def instance_network_iff Let_def by auto

lemma set_unique_ids: "set (unique_ids ids) = {i \<in> set ids. js_trim i \<noteq> []}"
  by (simp add: unique_ids_def)

text \<open>The source lets its content go to a provider inside, or outside.\<close>

definition source_permits :: "egress_policy \<Rightarrow> bool \<Rightarrow> string \<Rightarrow> bool" where
  "source_permits p inside i \<longleftrightarrow>
     (\<exists>policies sp. ep_source_policies p = Some policies \<and> map_of policies i = Some sp \<and>
        (sg_class sp = ExternalProviderAllowed \<and> sg_allow_external sp \<or>
         inside \<and> sg_class sp \<noteq> InternalOnly \<and> (sg_allow_local sp \<or> sg_allow_external sp)))"

lemma retrieval_allowed_iff:
  assumes "d \<noteq> InternalProcess"
  shows "retrieval_egress_allowed ids (p\<lparr>ep_destination := Some d\<rparr>) \<longleftrightarrow>
    (d = LocalProvider \<or> ep_external_enabled p) \<and>
    (\<forall>i\<in>{i \<in> set (ids @ ep_payload_sources p). js_trim i \<noteq> []}. source_permits p (d = LocalProvider) i)"
proof -
  have source: "source_egress_allowed policies d i \<longleftrightarrow> source_permits p (d = LocalProvider) i"
    if "ep_source_policies p = Some policies" for policies i
    using that assms
    by (cases d) (auto simp: source_egress_allowed_def source_permits_def split: option.split source_egress_class.splits
        intro: source_egress_class.exhaust)
  have none: "\<not> source_permits p inside i" if "ep_source_policies p = None" for inside i
    using that by (simp add: source_permits_def)
  have "retrieval_egress_allowed ids (p\<lparr>ep_destination := Some d\<rparr>) \<longleftrightarrow>
      (d = LocalProvider \<or> ep_external_enabled p) \<and>
      (\<forall>i\<in>set (unique_ids (ids @ ep_payload_sources p)). source_permits p (d = LocalProvider) i)"
  proof (cases "ep_source_policies p")
    case None
    show ?thesis
      using assms unfolding retrieval_egress_allowed_def
      by (cases d) (simp_all add: Let_def None none)
  next
    case (Some policies)
    show ?thesis
      using assms source [OF Some] unfolding retrieval_egress_allowed_def
      by (cases d) (simp_all add: Let_def Some list_all_iff)
  qed
  then show ?thesis
    unfolding set_unique_ids .
qed


text \<open>A runtime is inside only by the endpoint its own binding reads, never by the provider's base URL.\<close>

lemma runtime_endpoint_inside:
  assumes "runtime_provider_egress_destination hostname_of runtime s space = LocalProvider"
    and "adapter_takes_provider runtime"
  shows "\<exists>k kvs v h. base_url_field runtime (es_provider_type s) = Some k \<and> es_config_json s = JObj kvs \<and>
    get_prop kvs k = JStr v \<and> hostname_of (js_trim v) = Some h \<and> host_inside (judged_host h)"
proof -
  let ?config = "case as_record (es_config_json s) of None \<Rightarrow> [] | Some kvs \<Rightarrow> kvs"
  let ?url = "case base_url_field runtime (es_provider_type s) of
      None \<Rightarrow> [] | Some k \<Rightarrow> (case get_prop ?config k of JStr v \<Rightarrow> js_trim v | _ \<Rightarrow> [])"
  have "runs_inside hostname_of (s\<lparr>es_base_url := if ?url = [] then None else Some ?url\<rparr>) space"
    using assms unfolding runtime_provider_egress_destination_def destination_iff Let_def
    by (simp split: if_splits)
  then obtain h where url: "?url \<noteq> []" "hostname_of ?url = Some h" "host_inside (judged_host h)"
    by (auto simp: runs_inside_def split: if_splits)
  then obtain k v where k: "base_url_field runtime (es_provider_type s) = Some k" "get_prop ?config k = JStr v"
    "?url = js_trim v"
    by (cases "base_url_field runtime (es_provider_type s)") (auto split: jsval.splits)
  then have "?config \<noteq> []" by (auto simp: get_prop_def)
  then obtain kvs where "es_config_json s = JObj kvs"
    by (auto simp: as_record_def split: jsval.splits)
  then show ?thesis using url k by (auto simp: as_record_def)
qed

text \<open>A local provider, and a payload from a source that keeps its content inside\<close>

definition sample_subject :: egress_subject where
  "sample_subject =
     \<lparr>es_space_id = ''s'', es_provider_type = ''ollama'', es_base_url = Some ''http://localhost:11434'',
      es_deployment = None, es_config_json = JObj [(''deployment'', JStr ''trusted_local'')],
      es_default_model = None, es_model = None\<rparr>"

definition sample_egress_policy :: egress_policy where
  "sample_egress_policy =
     \<lparr>ep_external_enabled = False, ep_destination = None,
      ep_source_policies = Some [(''c'', \<lparr>sg_class = LocalProviderAllowed, sg_allow_local = True, sg_allow_external = False\<rparr>)],
      ep_payload_sources = [''c'']\<rparr>"


text \<open>
  Benchmarking addresses are handles of a proxy and judged outside, but not when they are written as
  IPv4-mapped IPv6 addresses.
\<close>

lemma mapped_synthetic_inside:
  "is_instance_network_url (\<lambda>_. Some ''[::ffff:c612:1]'') (Some ''u'')"
  "\<not> is_instance_network_url (\<lambda>_. Some ''198.18.0.1'') (Some ''u'')"
proof -
  have host: "judged_host ''[::ffff:c612:1]'' = ''::ffff:c612:1''" "judged_host ''198.18.0.1'' = ''198.18.0.1''"
    by (simp_all add: judged_host_def js_lower_def js_lower_char_def char_of_def bit_0 starts_with_def ends_in_def)
  have "parse_octets ''::ffff:c612:1'' = None" "parse_hextets ''::ffff:c612:1'' = Some [0, 0, 0, 0, 0, 0xffff, 0xc612, 1]"
    "parse_octets ''198.18.0.1'' = Some [198, 18, 0, 1]"
    by (simp_all add: parse_octets_def parse_octet_def parse_hextets_def parse_groups_def parse_group_def zone_ok_def
        is_digit_def hex_digit_value_def number_of_digits_def Let_def zero_groups full_groups)
  then have ip: "parse_ip ''::ffff:c612:1'' = Some (V6 (hextets [0, 0, 0, 0, 0, 0xffff, 0xc612, 1]))"
    "parse_ip ''198.18.0.1'' = Some (V4 (octets 198 18 0 1))"
    by (simp_all add: parse_ip_def hextets_def octets_def)
  show "is_instance_network_url (\<lambda>_. Some ''[::ffff:c612:1]'') (Some ''u'')"
    "\<not> is_instance_network_url (\<lambda>_. Some ''198.18.0.1'') (Some ''u'')"
    unfolding instance_network_iff
    by (simp_all add: host host_inside_def ip reserved4_def reserved6_def between4_def at4_def between6_def at6_def
        address_values full_groups)
qed

end
