(* ===== verification/FolderPaths.thy ===== *)
theory FolderPaths
  imports Prelude
begin

text \<open>
  Which files of a folder may be read or written: \<open>packages/folder-read/src/pathPolicy.ts\<close>, without the
  redaction of diffs. \<open>resolve\<close> and \<open>relative\<close> of \<open>node:path\<close> are written out for POSIX: a path is
  resolved against the working directory into the names that lead to it from the root.
\<close>

section \<open>Paths\<close>

definition path_step :: "string list \<Rightarrow> string \<Rightarrow> string list" where
  "path_step names s = (if s = [] \<or> s = ''.'' then names else if s = ''..'' then butlast names else names @ [s])"

definition resolve_path :: "string list \<Rightarrow> string \<Rightarrow> string list" where
  "resolve_path cwd p =
     foldl path_step (if starts_with ''/'' p then [] else cwd) (split_on CHR ''/'' p)"

definition path_text :: "string list \<Rightarrow> string" where
  "path_text names = CHR ''/'' # join ''/'' names"

fun common_names :: "string list \<Rightarrow> string list \<Rightarrow> nat" where
  "common_names (x # xs) (y # ys) = (if x = y then Suc (common_names xs ys) else 0)"
| "common_names _ _ = 0"

definition relative_path :: "string list \<Rightarrow> string list \<Rightarrow> string" where
  "relative_path from to =
     (let n = common_names from to
      in join ''/'' (replicate (length from - n) ''..'' @ drop n to))"

section \<open>The lists\<close>

definition forbidden_dir_names :: "string list" where
  "forbidden_dir_names = [''.ssh'', ''.aws'', ''.gcp'', ''.azure'', ''.gnupg'', ''credentials'']"

definition forbidden_dir_sequences :: "string list list" where
  "forbidden_dir_sequences = [[''instance'', ''secrets''], [''config'', ''secrets''], [''.config'', ''gcloud'']]"

definition forbidden_file_names :: "string list" where
  "forbidden_file_names =
     [''.env'', ''id_rsa'', ''id_dsa'', ''id_ecdsa'', ''id_ecdsa_sk'', ''id_ed25519'', ''id_ed25519_sk'',
      ''.npmrc'', ''.netrc'', ''_netrc'', ''.git-credentials'', ''.pgpass'', ''.pypirc'', ''.my.cnf'',
      ''.vault-token'', ''.htpasswd'', ''.s3cfg'', ''.boto'']"

definition forbidden_path_endings :: "string list list" where
  "forbidden_path_endings =
     [[''.docker'', ''config.json''], [''.kube'', ''config''], [''.claude'', ''.credentials.json''],
      [''.codex'', ''auth.json''], [''.config'', ''gh'', ''hosts.yml'']]"

definition allowed_env_template_names :: "string list" where
  "allowed_env_template_names =
     [''.env.example'', ''.env.sample'', ''.env.template'', ''.env.dev.example'', ''.env.test.example'',
      ''.env.prod.example'']"

definition forbidden_file_suffixes :: "string list" where
  "forbidden_file_suffixes = [''.pem'', ''.key'', ''.p12'', ''.pfx'', ''.jks'', ''.keystore'']"

definition forbidden_write_suffixes :: "string list" where
  "forbidden_write_suffixes = [''.py'', ''.sh'', ''.bash'', ''.zsh'', ''.fish'']"

section \<open>The policy\<close>

datatype path_refusal =
    Traversal | ForbiddenDir string | ForbiddenSequence "string list" | GitConfig | ForbiddenFile string
  | ForbiddenSuffix string | ForbiddenWrite string | ProtectedGit

record path_input =
  pi_path :: string
  pi_allowed_root :: string
  pi_write :: bool
  pi_protected_folder :: bool
  pi_trusted_patch :: bool
  pi_user_write :: bool

definition is_wire_relative_path :: "string \<Rightarrow> bool" where
  "is_wire_relative_path v \<longleftrightarrow>
     v \<noteq> [] \<and> CHR 0x00 \<notin> set v \<and> CHR 0x5C \<notin> set v \<and> \<not> starts_with ''/'' v \<and>
     \<not> (2 \<le> length v \<and> (let c = (of_char (js_lower_char (hd v)) :: nat) in 97 \<le> c \<and> c \<le> 122) \<and>
        v ! 1 = CHR '':'')"

definition is_inside :: "string list \<Rightarrow> string list \<Rightarrow> bool" where
  "is_inside candidate base \<longleftrightarrow>
     (let rel = relative_path base candidate
      in rel = [] \<or> (\<not> starts_with ''..'' rel \<and> \<not> starts_with ''/'' rel))"

text \<open>\<open>split(/[\\/]+/).filter(Boolean)\<close>\<close>

definition path_parts :: "string \<Rightarrow> string list" where
  "path_parts s =
     filter (\<lambda>p. p \<noteq> []) (split_on CHR ''/'' (map (\<lambda>c. if c = CHR 0x5C then CHR ''/'' else c) s))"

definition file_suffix :: "string \<Rightarrow> string" where
  "file_suffix filename =
     (let ext = rev (takeWhile (\<lambda>c. c \<noteq> CHR ''.'') (rev filename))
      in if CHR ''.'' \<in> set filename \<and> Suc (length ext) < length filename then CHR ''.'' # ext else [])"

definition occurs_at :: "string list \<Rightarrow> string list \<Rightarrow> nat \<Rightarrow> bool" where
  "occurs_at parts pattern i \<longleftrightarrow> take (length pattern) (drop i parts) = pattern"

definition forbidden_sequence :: "string list \<Rightarrow> string list option" where
  "forbidden_sequence lower_parts =
     (case find (\<lambda>sequence. list_ex (occurs_at lower_parts sequence)
                  [0..<Suc (length lower_parts) - length sequence]) forbidden_dir_sequences of
        Some sequence \<Rightarrow> Some sequence
      | None \<Rightarrow>
          find (\<lambda>ending. length ending \<le> length lower_parts \<and>
                  occurs_at lower_parts ending (length lower_parts - length ending)) forbidden_path_endings)"

definition last_part :: "string list \<Rightarrow> string" where
  "last_part lower_parts = (if lower_parts = [] then [] else last lower_parts)"

text \<open>What no read passes, by the names below the root in lower case\<close>

definition credential_refusal :: "string list \<Rightarrow> path_refusal option" where
  "credential_refusal lower_parts =
     (let filename = last_part lower_parts; suffix = file_suffix filename
      in case find (\<lambda>p. p \<in> set forbidden_dir_names) lower_parts of
           Some p \<Rightarrow> Some (ForbiddenDir p)
         | None \<Rightarrow>
             (case forbidden_sequence lower_parts of
                Some sequence \<Rightarrow> Some (ForbiddenSequence sequence)
              | None \<Rightarrow>
                  if 2 \<le> length lower_parts \<and> last (butlast lower_parts) = ''.git'' \<and> filename = ''config''
                  then Some GitConfig
                  else if filename \<in> set forbidden_file_names then Some (ForbiddenFile filename)
                  else if starts_with ''.env.'' filename \<and> filename \<notin> set allowed_env_template_names
                  then Some (ForbiddenFile filename)
                  else if suffix \<in> set forbidden_file_suffixes then Some (ForbiddenSuffix suffix)
                  else None))"

definition validate_path :: "string list \<Rightarrow> path_input \<Rightarrow> path_refusal + string" where
  "validate_path cwd inp =
     (let base = resolve_path cwd (pi_allowed_root inp); candidate = resolve_path cwd (pi_path inp)
      in if \<not> is_inside candidate base then Inl Traversal
         else (let lower_parts = map js_lower (path_parts (relative_path base candidate));
                   suffix = file_suffix (last_part lower_parts)
               in case credential_refusal lower_parts of
                    Some r \<Rightarrow> Inl r
                  | None \<Rightarrow>
                      if pi_write inp \<and> \<not> pi_trusted_patch inp \<and> \<not> pi_user_write inp \<and>
                         suffix \<in> set forbidden_write_suffixes
                      then Inl (ForbiddenWrite suffix)
                      else if pi_protected_folder inp \<and> ''.git'' \<in> set lower_parts then Inl ProtectedGit
                      else Inr (path_text candidate)))"

section \<open>The audit hint\<close>

text \<open>\<open>P\<close> of the rest of the text behind the start or a slash\<close>

fun at_part_start :: "(string \<Rightarrow> bool) \<Rightarrow> bool \<Rightarrow> string \<Rightarrow> bool" where
  "at_part_start P here [] \<longleftrightarrow> here \<and> P []"
| "at_part_start P here (c # s) \<longleftrightarrow> here \<and> P (c # s) \<or> at_part_start P (c = CHR ''/'') s"

definition looks_secret_from :: "string \<Rightarrow> bool" where
  "looks_secret_from s \<longleftrightarrow>
     (starts_with ''.env'' s \<and> (length s = 4 \<or> s ! 4 = CHR ''.'')) \<or>
     (starts_with ''secret.'' s \<and> 7 < length s \<and> CHR ''/'' \<notin> set (drop 7 s)) \<or>
     (starts_with ''secrets.'' s \<and> 8 < length s \<and> CHR ''/'' \<notin> set (drop 8 s)) \<or>
     starts_with ''.ssh/'' s \<or> starts_with ''.aws/'' s \<or> starts_with ''config/secrets/'' s"

definition looks_secret_like_path :: "string option \<Rightarrow> bool" where
  "looks_secret_like_path path \<longleftrightarrow>
     (case path of
        None \<Rightarrow> False
      | Some p \<Rightarrow>
          p \<noteq> [] \<and>
          (at_part_start looks_secret_from True (js_lower p) \<or>
           (let lower_parts = map js_lower (path_parts p); filename = last_part lower_parts
            in list_ex (\<lambda>part. part \<in> set forbidden_dir_names) lower_parts \<or>
               filename \<in> set forbidden_file_names \<or>
               file_suffix filename \<in> set forbidden_file_suffixes \<or>
               forbidden_sequence lower_parts \<noteq> None)))"

definition diff_lines :: "string \<Rightarrow> string list" where
  "diff_lines diff =
     (let ls = split_on CHR 0x0A diff
      in map (\<lambda>l. if l \<noteq> [] \<and> last l = CHR 0x0D then butlast l else l) (butlast ls) @ [last ls])"

definition diff_touches_secret_like_path :: "string \<Rightarrow> bool" where
  "diff_touches_secret_like_path diff \<longleftrightarrow>
     list_ex (\<lambda>line. (starts_with ''diff --git '' line \<or> starts_with ''+++ '' line \<or> starts_with ''--- '' line) \<and>
                looks_secret_like_path (Some line)) (diff_lines diff)"

section \<open>Paths as names\<close>

definition name_ok :: "string \<Rightarrow> bool" where
  "name_ok s \<longleftrightarrow> s \<notin> {[], ''.'', ''..''} \<and> CHR ''/'' \<notin> set s"

lemma split_on_parts: "p \<in> set (split_on c s) \<Longrightarrow> c \<notin> set p"
proof (induction s arbitrary: p)
  case (Cons d s)
  then show ?case by (auto split: if_splits list.splits)
qed simp

lemma path_steps_ok:
  "\<forall>n\<in>set names. name_ok n \<Longrightarrow> \<forall>s\<in>set ss. CHR ''/'' \<notin> set s \<Longrightarrow>
   \<forall>n\<in>set (foldl path_step names ss). name_ok n"
proof (induction ss arbitrary: names)
  case (Cons s ss)
  have "\<forall>n\<in>set (path_step names s). name_ok n"
    using Cons.prems by (auto simp: path_step_def name_ok_def dest: in_set_butlastD)
  with Cons show ?case by simp
qed simp

lemma resolve_ok: "\<forall>n\<in>set cwd. name_ok n \<Longrightarrow> \<forall>n\<in>set (resolve_path cwd p). name_ok n"
  unfolding resolve_path_def by (rule path_steps_ok) (auto dest: split_on_parts)

lemma path_steps_names: "\<forall>n\<in>set ss. name_ok n \<Longrightarrow> foldl path_step names ss = names @ ss"
  by (induction ss arbitrary: names) (auto simp: path_step_def name_ok_def)

lemma resolve_path_text: "\<forall>n\<in>set names. name_ok n \<Longrightarrow> resolve_path cwd (path_text names) = names"
proof (cases names)
  case Nil
  then show ?thesis by (simp add: resolve_path_def path_text_def starts_with_def path_step_def)
next
  case (Cons n ns)
  assume ok: "\<forall>n\<in>set names. name_ok n"
  have "split_on CHR ''/'' (path_text names) = [] # names"
    using ok Cons split_on_join [of names "CHR ''/''"] by (auto simp: path_text_def name_ok_def)
  then show ?thesis
    using path_steps_names [OF ok, of "[]"] by (simp add: resolve_path_def path_text_def starts_with_def path_step_def)
qed

lemma common_names_prefix: "common_names (xs @ zs) (xs @ ys) = length xs + common_names zs ys"
  by (induction xs) auto

lemma common_names_full: "common_names xs ys = length xs \<Longrightarrow> \<exists>zs. ys = xs @ zs"
  by (induction xs ys rule: common_names.induct) (auto split: if_splits)

lemma common_names_bound: "common_names xs ys \<le> length xs"
  by (induction xs ys rule: common_names.induct) auto

lemma starts_with_join:
  assumes "\<forall>n\<in>set rel. name_ok n"
  shows "starts_with ''..'' (join ''/'' rel) \<longleftrightarrow> rel \<noteq> [] \<and> starts_with ''..'' (hd rel)"
    and "\<not> starts_with ''/'' (join ''/'' rel)" and "join ''/'' rel = [] \<longleftrightarrow> rel = []"
proof -
  have hd: "\<exists>t. join ''/'' rel = hd rel @ t \<and> (t = [] \<or> hd t = CHR ''/'')" if "rel \<noteq> []"
    using that by (cases rel; cases "tl rel") (auto simp: join_Cons)
  have ok: "rel \<noteq> [] \<Longrightarrow> name_ok (hd rel)"
    using assms by simp
  have "starts_with ''..'' (join ''/'' rel) \<longleftrightarrow> starts_with ''..'' (hd rel)" if nonempty: "rel \<noteq> []"
  proof -
    obtain t where t: "join ''/'' rel = hd rel @ t" "t = [] \<or> hd t = CHR ''/''" using hd [OF nonempty] by blast
    obtain c cs where c: "hd rel = c # cs" using ok [OF nonempty] by (cases "hd rel") (auto simp: name_ok_def)
    show ?thesis
      using ok [OF nonempty] t(2) unfolding t(1) c by (cases cs; cases t) (auto simp: starts_with_def name_ok_def)
  qed
  then show "starts_with ''..'' (join ''/'' rel) \<longleftrightarrow> rel \<noteq> [] \<and> starts_with ''..'' (hd rel)"
    by (cases rel) (auto simp: starts_with_def)
  have "\<exists>c s. join ''/'' rel = c # s \<and> c \<noteq> CHR ''/''" if nonempty: "rel \<noteq> []"
    using hd [OF nonempty] ok [OF nonempty] by (cases "hd rel") (auto simp: name_ok_def)
  then show "\<not> starts_with ''/'' (join ''/'' rel)" "join ''/'' rel = [] \<longleftrightarrow> rel = []"
    by (cases "rel = []"; auto simp: starts_with_def)+
qed

lemma relative_below: "relative_path base (base @ rel) = join ''/'' rel"
  using common_names_prefix [of base "[]" rel] by (simp add: relative_path_def)

lemma inside_iff:
  assumes "\<forall>n\<in>set candidate. name_ok n"
  shows "is_inside candidate base \<longleftrightarrow>
    (\<exists>rel. candidate = base @ rel \<and> (rel = [] \<or> \<not> starts_with ''..'' (hd rel)))"
proof (cases "\<exists>rel. candidate = base @ rel")
  case True
  then obtain rel where rel: "candidate = base @ rel" by blast
  then have ok: "\<forall>n\<in>set rel. name_ok n" using assms by simp
  show ?thesis
    unfolding is_inside_def rel relative_below Let_def using starts_with_join [OF ok] by auto
next
  case False
  then have "common_names base candidate < length base"
    using common_names_full common_names_bound [of base candidate] le_neq_implies_less by blast
  then obtain k where "length base - common_names base candidate = Suc k"
    by (metis Suc_diff_Suc)
  then obtain ss where "relative_path base candidate = join ''/'' (''..'' # ss)"
    by (simp add: relative_path_def)
  moreover have "starts_with ''..'' (join ''/'' (''..'' # ss))" "join ''/'' (''..'' # ss) \<noteq> []"
    by (cases ss; simp add: starts_with_def join_Cons)+
  ultimately show ?thesis
    using False by (simp add: is_inside_def)
qed

lemma path_parts_join: "path_parts (join ''/'' rel) = concat (map path_parts rel)"
proof -
  have app: "split_on c (s @ c # t) = split_on c s @ split_on c t" for c s t
  proof (induction s)
    case (Cons d s)
    then show ?case using split_on_nonempty by (cases "split_on c s") auto
  qed simp
  have "path_parts (n @ CHR ''/'' # s) = path_parts n @ path_parts s" for n s
    by (simp add: path_parts_def app)
  then show ?thesis
  proof (induction rel)
    case (Cons n rel)
    then show ?case by (cases "rel = []") (auto simp: join_Cons path_parts_def)
  qed (simp add: path_parts_def)
qed

section \<open>What passes\<close>

text \<open>Names below the root, in lower case, that lead to no credential store\<close>

definition readable_names :: "string list \<Rightarrow> bool" where
  "readable_names names \<longleftrightarrow>
     set names \<inter> set forbidden_dir_names = {} \<and>
     (\<forall>q\<in>set forbidden_dir_sequences. \<not> sublist q names) \<and>
     (\<forall>q\<in>set ([''.git'', ''config''] # forbidden_path_endings). \<not> suffix q names) \<and>
     (\<forall>f. suffix [f] names \<longrightarrow>
        f \<notin> set forbidden_file_names \<and> file_suffix f \<notin> set forbidden_file_suffixes \<and>
        (starts_with ''.env.'' f \<longrightarrow> f \<in> set allowed_env_template_names))"

lemma occurs_anywhere_iff:
  "list_ex (occurs_at parts q) [0..<Suc (length parts) - length q] \<longleftrightarrow> sublist q parts"
proof
  assume "list_ex (occurs_at parts q) [0..<Suc (length parts) - length q]"
  then obtain i where "take (length q) (drop i parts) = q" by (auto simp: list_ex_iff occurs_at_def)
  moreover have "parts = take i parts @ take (length q) (drop i parts) @ drop (length q) (drop i parts)"
    by (metis append_take_drop_id)
  ultimately show "sublist q parts" by (metis sublist_def)
next
  assume "sublist q parts"
  then obtain us vs where parts: "parts = us @ q @ vs" by (auto simp: sublist_def)
  then show "list_ex (occurs_at parts q) [0..<Suc (length parts) - length q]"
    by (auto simp: list_ex_iff occurs_at_def intro!: bexI [of _ "length us"])
qed

lemma occurs_last_iff:
  "length q \<le> length parts \<and> occurs_at parts q (length parts - length q) \<longleftrightarrow> suffix q parts"
proof
  assume "length q \<le> length parts \<and> occurs_at parts q (length parts - length q)"
  then have "drop (length parts - length q) parts = q" by (simp add: occurs_at_def)
  then show "suffix q parts" by (metis suffix_drop)
next
  assume "suffix q parts"
  then show "length q \<le> length parts \<and> occurs_at parts q (length parts - length q)"
    by (auto simp: suffix_def occurs_at_def)
qed

lemma forbidden_sequence_none:
  "forbidden_sequence names = None \<longleftrightarrow>
     (\<forall>q\<in>set forbidden_dir_sequences. \<not> sublist q names) \<and> (\<forall>q\<in>set forbidden_path_endings. \<not> suffix q names)"
  unfolding forbidden_sequence_def occurs_anywhere_iff occurs_last_iff
  by (auto simp: find_None_iff dest: find_SomeD split: option.split)

lemma last_two: "2 \<le> length names \<and> last (butlast names) = a \<and> last_part names = b \<longleftrightarrow> suffix [a, b] names"
proof (cases names rule: rev_cases)
  case (snoc xs x)
  then show ?thesis
    by (cases xs rule: rev_cases) (auto simp: last_part_def suffix_def butlast_append)
qed simp

lemma last_one: "suffix [f] names \<longleftrightarrow> names \<noteq> [] \<and> last_part names = f"
  by (cases names rule: rev_cases) (auto simp: last_part_def suffix_def)

lemma credential_refusal_none: "credential_refusal names = None \<longleftrightarrow> readable_names names"
proof -
  have empty: "[] \<notin> set forbidden_file_names" "file_suffix [] \<notin> set forbidden_file_suffixes" "\<not> starts_with ''.env.'' []"
    by code_simp+
  have git: "2 \<le> length names \<and> last (butlast names) = ''.git'' \<and> last_part names = ''config'' \<longleftrightarrow>
      suffix [''.git'', ''config''] names"
    by (rule last_two)
  have dirs: "find (\<lambda>p. p \<in> set forbidden_dir_names) names = None \<longleftrightarrow> set names \<inter> set forbidden_dir_names = {}"
    by (auto simp: find_None_iff)
  show ?thesis
  proof (cases "names = []")
    case True
    have "last_part names = []" using True by (simp add: last_part_def)
    moreover have "find (\<lambda>p. p \<in> set forbidden_dir_names) names = None" using True by simp
    ultimately show ?thesis
      unfolding credential_refusal_def Let_def git readable_names_def last_one dirs [symmetric]
      using empty True forbidden_sequence_none [of names] by (auto split: option.splits)
  next
    case False
    then show ?thesis
      unfolding credential_refusal_def Let_def git readable_names_def last_one dirs [symmetric]
      using forbidden_sequence_none [of names] by (auto split: option.splits)
  qed
qed

text \<open>
  C12. A path is accepted exactly when it leads below the root, by names that step back nowhere, through no
  credential directory, to no credential file in any spelling of its case, and, for an agent that writes, to
  no script; in a protected folder, not through \<open>.git\<close>. The accepted path is the one that is judged: judged
  again, wherever the process stands then, it is accepted as it is.
\<close>

theorem validate_path_iff:
  assumes "\<forall>n\<in>set cwd. name_ok n"
  shows "(validate_path cwd inp = Inr p \<longleftrightarrow>
      (\<exists>rel. resolve_path cwd (pi_path inp) = resolve_path cwd (pi_allowed_root inp) @ rel \<and>
         p = path_text (resolve_path cwd (pi_path inp)) \<and>
         (\<forall>n\<in>set rel. name_ok n) \<and> (rel = [] \<or> \<not> starts_with ''..'' (hd rel)) \<and>
         (let names = map js_lower (concat (map path_parts rel))
          in readable_names names \<and>
             (pi_write inp \<and> \<not> pi_trusted_patch inp \<and> \<not> pi_user_write inp \<longrightarrow>
                (\<forall>f. suffix [f] names \<longrightarrow> file_suffix f \<notin> set forbidden_write_suffixes)) \<and>
             (pi_protected_folder inp \<longrightarrow> ''.git'' \<notin> set names)))) \<and>
    (validate_path cwd inp = Inr p \<longrightarrow> starts_with ''/'' (pi_allowed_root inp) \<longrightarrow>
       validate_path cwd' (inp\<lparr>pi_path := p\<rparr>) = Inr p)"
proof -
  let ?base = "resolve_path cwd (pi_allowed_root inp)" and ?names = "resolve_path cwd (pi_path inp)"
  have ok: "\<forall>n\<in>set ?names. name_ok n"
    using assms by (rule resolve_ok)
  define passes where "passes names \<longleftrightarrow>
      readable_names names \<and>
      (pi_write inp \<and> \<not> pi_trusted_patch inp \<and> \<not> pi_user_write inp \<longrightarrow>
         (\<forall>f. suffix [f] names \<longrightarrow> file_suffix f \<notin> set forbidden_write_suffixes)) \<and>
      (pi_protected_folder inp \<longrightarrow> ''.git'' \<notin> set names)" for names
  have script: "(\<forall>f. suffix [f] names \<longrightarrow> file_suffix f \<notin> set forbidden_write_suffixes) \<longleftrightarrow>
      file_suffix (last_part names) \<notin> set forbidden_write_suffixes" for names
  proof -
    have "file_suffix [] \<notin> set forbidden_write_suffixes" by code_simp
    then show ?thesis by (cases "names = []") (auto simp: last_one last_part_def)
  qed
  have judged: "validate_path c (inp\<lparr>pi_path := q\<rparr>) = Inr r \<longleftrightarrow>
      r = path_text ns \<and> (\<exists>rel. ns = resolve_path c (pi_allowed_root inp) @ rel \<and>
        (rel = [] \<or> \<not> starts_with ''..'' (hd rel)) \<and> passes (map js_lower (concat (map path_parts rel))))"
    if q: "resolve_path c q = ns" and ns: "\<forall>n\<in>set ns. name_ok n" for c q r ns
  proof (cases "is_inside ns (resolve_path c (pi_allowed_root inp))")
    case False
    then show ?thesis
      using q inside_iff [OF ns] by (auto simp: validate_path_def Let_def)
  next
    case True
    then obtain rel where rel: "ns = resolve_path c (pi_allowed_root inp) @ rel" "rel = [] \<or> \<not> starts_with ''..'' (hd rel)"
      using inside_iff [OF ns] by blast
    let ?low = "map js_lower (concat (map path_parts rel))"
    have "validate_path c (inp\<lparr>pi_path := q\<rparr>) = Inr r \<longleftrightarrow> r = path_text ns \<and> passes ?low"
    proof (cases "credential_refusal ?low")
      case None
      then show ?thesis
        using q True rel(1) credential_refusal_none [of ?low]
        unfolding validate_path_def passes_def script Let_def
        by (simp add: relative_below path_parts_join) blast
    next
      case (Some e)
      then show ?thesis
        using q True rel(1) credential_refusal_none [of ?low]
        unfolding validate_path_def passes_def Let_def
        by (simp add: relative_below path_parts_join)
    qed
    then show ?thesis
      using rel by auto
  qed
  have first: "validate_path cwd inp = Inr p \<longleftrightarrow>
      p = path_text ?names \<and> (\<exists>rel. ?names = ?base @ rel \<and>
        (rel = [] \<or> \<not> starts_with ''..'' (hd rel)) \<and> passes (map js_lower (concat (map path_parts rel))))"
    using judged [OF refl ok] by simp
  have again: "validate_path cwd' (inp\<lparr>pi_path := p\<rparr>) = Inr p"
    if "validate_path cwd inp = Inr p" "starts_with ''/'' (pi_allowed_root inp)"
  proof -
    have "resolve_path cwd' (pi_allowed_root inp) = ?base"
      using that(2) by (simp add: resolve_path_def)
    moreover have "resolve_path cwd' p = ?names"
      using first that(1) resolve_path_text [OF ok] by simp
    ultimately show ?thesis
      using judged [OF _ ok, of cwd' p p] first that(1) by simp
  qed
  have rel_ok: "\<forall>n\<in>set rel. name_ok n" if "?names = ?base @ rel" for rel
    using ok that by simp
  have once: "P \<and> (\<exists>rel. A rel \<and> B rel \<and> C rel) \<longleftrightarrow> (\<exists>rel. A rel \<and> P \<and> N rel \<and> B rel \<and> C rel)"
    if "\<And>rel. A rel \<Longrightarrow> N rel" for P and A B C N :: "string list \<Rightarrow> bool"
    using that by blast
  have "validate_path cwd inp = Inr p \<longleftrightarrow>
      (\<exists>rel. ?names = ?base @ rel \<and> p = path_text ?names \<and> (\<forall>n\<in>set rel. name_ok n) \<and>
        (rel = [] \<or> \<not> starts_with ''..'' (hd rel)) \<and> passes (map js_lower (concat (map path_parts rel))))"
    unfolding first by (rule once) (rule rel_ok)
  then show ?thesis
    using again unfolding passes_def Let_def by (intro conjI impI)
qed

definition sample_path_input :: "string \<Rightarrow> path_input" where
  "sample_path_input p =
     \<lparr>pi_path = p, pi_allowed_root = ''/w'', pi_write = False, pi_protected_folder = False,
      pi_trusted_patch = False, pi_user_write = False\<rparr>"

lemma sample_paths:
  "resolve_path [''h''] ''/w'' = [''w'']" "resolve_path [''h''] ''/w/b/../a'' = [''w'', ''a'']"
  "resolve_path [''h''] ''/w/a/../../x'' = [''x'']"
  by (simp_all add: resolve_path_def starts_with_def path_step_def)

lemma validate_path_iff_witness:
  "validate_path [''h''] (sample_path_input ''/w/b/../a'') = Inr ''/w/a'' \<and>
   validate_path [''h''] (sample_path_input ''/w/a/../../x'') \<noteq> Inr ''/x''"
proof -
  have ok: "\<forall>n\<in>set [''h'']. name_ok n" by (simp add: name_ok_def)
  have "readable_names [''a'']" unfolding credential_refusal_none [symmetric] by code_simp
  moreover have "map js_lower (concat (map path_parts [''a''])) = [''a'']" by code_simp
  ultimately have "validate_path [''h''] (sample_path_input ''/w/b/../a'') = Inr ''/w/a''"
    unfolding validate_path_iff [OF ok, THEN conjunct1]
    by (intro exI [of _ "[''a'']"])
      (simp add: sample_path_input_def sample_paths path_text_def join_Cons name_ok_def starts_with_def)
  moreover have "validate_path [''h''] (sample_path_input ''/w/a/../../x'') \<noteq> Inr ''/x''"
    using validate_path_iff [OF ok, of "sample_path_input ''/w/a/../../x''" "''/x''"]
    by (simp add: sample_path_input_def sample_paths)
  ultimately show ?thesis ..
qed

section \<open>What the audit hint sees\<close>

lemma starts_withE:
  assumes "starts_with p s" obtains t where "s = p @ t"
  using assms append_take_drop_id [of "length p" s] unfolding starts_with_def by metis

lemma at_part_start_here: "P s \<Longrightarrow> at_part_start P True s"
  by (cases s) auto

lemma at_part_start_later: "P v \<Longrightarrow> at_part_start P here (u @ CHR ''/'' # v)"
proof (induction u arbitrary: here)
  case Nil
  then show ?case using at_part_start_here [of P v] by simp
qed simp

lemma at_last_part: "ss \<noteq> [] \<Longrightarrow> P (last ss) \<Longrightarrow> at_part_start P True (join ''/'' ss)"
proof (cases ss rule: rev_cases)
  case (snoc us f)
  have join_last: "us \<noteq> [] \<Longrightarrow> join ''/'' (us @ [f]) = join ''/'' us @ CHR ''/'' # f"
  proof (induction us)
    case (Cons u us)
    then show ?case by (cases us) (simp_all add: join_Cons)
  qed simp
  assume "P (last ss)"
  then show ?thesis
    using snoc join_last by (cases "us = []") (auto intro: at_part_start_here at_part_start_later)
qed simp

lemma js_lower_join: "js_lower (join ''/'' ss) = join ''/'' (map js_lower ss)"
proof (induction ss)
  case (Cons x ss)
  have "js_lower_char CHR ''/'' = CHR ''/''" by code_simp
  then show ?case using Cons by (cases ss) (simp_all add: join_Cons js_lower_def)
qed (simp add: js_lower_def)

lemma path_parts_name: "n \<noteq> [] \<Longrightarrow> CHR ''/'' \<notin> set n \<Longrightarrow> CHR 0x5C \<notin> set n \<Longrightarrow> path_parts n = [n]"
proof -
  assume n: "n \<noteq> []" "CHR ''/'' \<notin> set n" "CHR 0x5C \<notin> set n"
  then have "map (\<lambda>c. if c = CHR 0x5C then CHR ''/'' else c) n = n"
    by (intro map_idI) auto
  with n show ?thesis by (simp add: path_parts_def split_on_none)
qed

text \<open>
  The audit hint is raised for every relative path that the policy refuses as a credential store, except
  the configuration of a repository. For that one the hint is silent.
\<close>

theorem secret_hint_covers:
  assumes "names \<noteq> []" and "\<forall>n\<in>set names. n \<noteq> [] \<and> CHR ''/'' \<notin> set n \<and> CHR 0x5C \<notin> set n"
    and "credential_refusal (map js_lower names) \<notin> {None, Some GitConfig}"
  shows "looks_secret_like_path (Some (join ''/'' names))"
proof -
  let ?low = "map js_lower names"
  have "concat (map path_parts names) = concat (map (\<lambda>n. [n]) names)"
    using assms(2) path_parts_name by (intro arg_cong [of _ _ concat] map_cong) auto
  then have parts: "map js_lower (path_parts (join ''/'' names)) = ?low"
    by (simp add: path_parts_join)
  have nonempty: "join ''/'' names \<noteq> []"
    using assms(1,2) by (cases names; cases "tl names") (auto simp: join_Cons)
  have last: "last_part ?low = last ?low" "?low \<noteq> []"
    using assms(1) by (simp_all add: last_part_def)
  have env: "at_part_start looks_secret_from True (js_lower (join ''/'' names))"
    if dot: "starts_with ''.env.'' (last_part ?low)"
  proof -
    obtain t where "last ?low = ''.env.'' @ t"
      using dot unfolding last(1) by (rule starts_withE)
    then have "looks_secret_from (last ?low)"
      unfolding looks_secret_from_def starts_with_def by simp
    then show ?thesis
      unfolding js_lower_join using last(2) by (intro at_last_part)
  qed
  have dirs: "list_ex (\<lambda>part. part \<in> set forbidden_dir_names) ?low" if "find (\<lambda>p. p \<in> set forbidden_dir_names) ?low = Some d" for d
    using find_SomeD [OF that] unfolding list_ex_iff by blast
  show ?thesis
    unfolding looks_secret_like_path_def option.case Let_def parts
    using assms(3) nonempty env dirs unfolding credential_refusal_def Let_def
    by (auto split: option.splits if_splits)
qed

lemma secret_hint_covers_witness: "looks_secret_like_path (Some ''a/.ENV.local'')"
proof -
  have "credential_refusal (map js_lower [''a'', ''.ENV.local'']) = Some (ForbiddenFile ''.env.local'')"
    by code_simp
  then show ?thesis
    using secret_hint_covers [of "[''a'', ''.ENV.local'']"] by (simp add: join_Cons)
qed

lemma git_config_unseen:
  "credential_refusal [''.git'', ''config''] = Some GitConfig \<and> \<not> looks_secret_like_path (Some ''.git/config'')"
  by code_simp

end
