(* ===== verification/LocationLease.thy ===== *)
theory LocationLease
  imports Prelude "HOL-Library.Char_ord" "HOL-Library.List_Lexorder"
begin

text \<open>
  One execution lease per WorkspaceLocation, \<open>packages/host-daemon/src/locationLease.ts\<close>: a
  first-in-first-out reader-writer lock per key, and launch attempts that take several leases in
  sorted order, waiting in each queue in turn.

  \<open>acquireLocationLeases\<close> is an async function. Its local state is the record \<open>attempt\<close>; it runs
  without interruption up to an \<open>await\<close>, so it is cut there: \<open>start_attempt\<close> is the code up to the
  first \<open>await\<close>, \<open>resume_attempt\<close> the code from one \<open>await\<close> to the next or to the end. The field
  \<open>at_pc\<close> says which promise the attempt awaits: one not yet resolved (\<open>Waiting\<close>), one resolved to
  "acquired" (\<open>Granted\<close>) or one resolved to "cancelled" (\<open>Aborted\<close>).

  A waiter is found again in its queue by identity in the code, by its launch id here: an attempt is
  in at most one queue at a time.
\<close>

section \<open>State\<close>

datatype lease_mode = Exclusive | Shared

record waiter =
  wt_launch :: string
  wt_mode :: lease_mode

record location_lease =
  le_mode :: lease_mode
  le_holders :: "string list"
  le_queue :: "waiter list"

datatype attempt_pc = Waiting string | Granted string | Aborted string

text \<open>\<open>at_held\<close> and \<open>at_rest\<close> are the loop's \<open>held\<close> and the ids it has not reached.\<close>

record attempt =
  at_run :: string
  at_launch :: string
  at_ids :: "string list"
  at_exclusive :: "string list"
  at_cancelled :: bool
  at_notified :: bool
  at_pc :: attempt_pc
  at_held :: "string list"
  at_rest :: "string list"

text \<open>\<open>leases\<close>, and \<open>acquiring\<close> in insertion order.\<close>

record lease_state =
  ls_leases :: "string \<rightharpoonup> location_lease"
  ls_acquiring :: "attempt list"

datatype lease_outcome = Acquired | Cancelled

definition wanted_mode :: "attempt \<Rightarrow> string \<Rightarrow> lease_mode" where
  "wanted_mode a i = (if i \<in> set (at_exclusive a) then Exclusive else Shared)"

definition set_lease :: "string \<Rightarrow> location_lease option \<Rightarrow> lease_state \<Rightarrow> lease_state" where
  "set_lease i le s = s\<lparr>ls_leases := (ls_leases s)(i := le)\<rparr>"

text \<open>The fields of one attempt object change in place.\<close>

definition update_attempt :: "string \<Rightarrow> (attempt \<Rightarrow> attempt) \<Rightarrow> lease_state \<Rightarrow> lease_state" where
  "update_attempt l f s =
     s\<lparr>ls_acquiring := map (\<lambda>a. if at_launch a = l then f a else a) (ls_acquiring s)\<rparr>"

definition drop_attempt :: "string \<Rightarrow> lease_state \<Rightarrow> lease_state" where
  "drop_attempt l s = s\<lparr>ls_acquiring := filter (\<lambda>a. at_launch a \<noteq> l) (ls_acquiring s)\<rparr>"

text \<open>\<open>Set.add\<close>\<close>

definition set_add :: "'a \<Rightarrow> 'a list \<Rightarrow> 'a list" where
  "set_add x xs = (if x \<in> set xs then xs else xs @ [x])"

section \<open>Handing a lease on\<close>

text \<open>
  The loop of \<open>admitWaiting\<close> over one lease: the new mode, holders and queue, and the launches
  granted, in order.
\<close>

fun admit_queue ::
    "lease_mode \<Rightarrow> string list \<Rightarrow> waiter list \<Rightarrow> lease_mode \<times> string list \<times> waiter list \<times> string list"
where
  "admit_queue m hs [] = (m, hs, [], [])"
| "admit_queue m hs (w # q) =
     (if wt_mode w = Exclusive
      then if hs \<noteq> [] then (m, hs, w # q, [])
           else (Exclusive, set_add (wt_launch w) hs, q, [wt_launch w])
      else if hs \<noteq> [] \<and> m = Exclusive then (m, hs, w # q, [])
      else (case admit_queue Shared (set_add (wt_launch w) hs) q of
              (m', hs', q', g) \<Rightarrow> (m', hs', q', wt_launch w # g)))"

definition grant :: "string \<Rightarrow> string \<Rightarrow> lease_state \<Rightarrow> lease_state" where
  "grant i l s = update_attempt l (\<lambda>a. a\<lparr>at_pc := Granted i\<rparr>) s"

definition admit_waiting :: "string \<Rightarrow> lease_state \<Rightarrow> lease_state" where
  "admit_waiting i s =
     (case ls_leases s i of
        None \<Rightarrow> s
      | Some le \<Rightarrow>
          (case admit_queue (le_mode le) (le_holders le) (le_queue le) of
             (m, hs, q, g) \<Rightarrow>
               fold (grant i) g
                 (set_lease i
                    (if q = [] \<and> hs = [] then None
                     else Some \<lparr>le_mode = m, le_holders = hs, le_queue = q\<rparr>) s)))"

section \<open>Release\<close>

definition release_one :: "string \<Rightarrow> string \<Rightarrow> lease_state \<Rightarrow> lease_state" where
  "release_one l i s =
     (case ls_leases s i of
        None \<Rightarrow> s
      | Some le \<Rightarrow>
          if l \<notin> set (le_holders le) then s
          else admit_waiting i
                 (set_lease i (Some (le\<lparr>le_holders := filter (\<lambda>h. h \<noteq> l) (le_holders le)\<rparr>)) s))"

definition release_location_leases :: "string list \<Rightarrow> string \<Rightarrow> lease_state \<Rightarrow> lease_state" where
  "release_location_leases ids l s = fold (release_one l) ids s"

section \<open>Acquiring\<close>

text \<open>\<open>acquireOne\<close> for the attempt \<open>a\<close>, whose fields it updates in \<open>acquiring\<close>.\<close>

definition acquire_one :: "string \<Rightarrow> attempt \<Rightarrow> lease_state \<Rightarrow> lease_state" where
  "acquire_one i a s =
     (let l = at_launch a; mode = wanted_mode a i;
          granted = update_attempt l (\<lambda>_. a\<lparr>at_pc := Granted i\<rparr>)
      in case ls_leases s i of
           None \<Rightarrow>
             granted (set_lease i (Some \<lparr>le_mode = mode, le_holders = [l], le_queue = []\<rparr>) s)
         | Some le \<Rightarrow>
             if mode = Shared \<and> le_mode le = Shared \<and> le_queue le = []
             then granted (set_lease i (Some (le\<lparr>le_holders := set_add l (le_holders le)\<rparr>)) s)
             else update_attempt l (\<lambda>_. a\<lparr>at_pc := Waiting i, at_notified := True\<rparr>)
                    (set_lease i (Some (le\<lparr>le_queue := le_queue le @
                                            [\<lparr>wt_launch = l, wt_mode = mode\<rparr>]\<rparr>)) s))"

text \<open>After the loop, with the \<open>finally\<close> clause.\<close>

definition finish_attempt :: "attempt \<Rightarrow> lease_state \<Rightarrow> lease_state \<times> lease_outcome option" where
  "finish_attempt a s =
     (if at_cancelled a \<or> length (at_held a) \<noteq> length (at_ids a)
      then (drop_attempt (at_launch a) (release_location_leases (at_held a) (at_launch a) s),
            Some Cancelled)
      else (drop_attempt (at_launch a) s, Some Acquired))"

text \<open>The head of the loop: leave it, or ask for the next lease and await.\<close>

definition loop_head :: "attempt \<Rightarrow> lease_state \<Rightarrow> lease_state \<times> lease_outcome option" where
  "loop_head a s =
     (case at_rest a of
        [] \<Rightarrow> finish_attempt a s
      | i # rest \<Rightarrow>
          if at_cancelled a then finish_attempt a s
          else (acquire_one i (a\<lparr>at_rest := rest\<rparr>) s, None))"

definition start_attempt ::
    "string \<Rightarrow> string \<Rightarrow> string list \<Rightarrow> string list \<Rightarrow> lease_state \<Rightarrow> lease_state \<times> lease_outcome option"
where
  "start_attempt run l location_ids shared_ids s =
     (let ids = sort (remdups (location_ids @ shared_ids));
          a = \<lparr>at_run = run, at_launch = l, at_ids = ids, at_exclusive = location_ids,
               at_cancelled = False, at_notified = False, at_pc = Granted [], at_held = [],
               at_rest = ids\<rparr>
      in loop_head a (s\<lparr>ls_acquiring := ls_acquiring s @ [a]\<rparr>))"

definition find_attempt :: "string \<Rightarrow> lease_state \<Rightarrow> attempt option" where
  "find_attempt l s = find (\<lambda>a. at_launch a = l) (ls_acquiring s)"

definition resume_attempt :: "string \<Rightarrow> lease_state \<Rightarrow> lease_state \<times> lease_outcome option" where
  "resume_attempt l s =
     (case find_attempt l s of
        None \<Rightarrow> (s, None)
      | Some a \<Rightarrow>
          (case at_pc a of
             Waiting i \<Rightarrow> (s, None)
           | Aborted i \<Rightarrow> finish_attempt a s
           | Granted i \<Rightarrow> loop_head (a\<lparr>at_held := at_held a @ [i]\<rparr>) s))"

section \<open>Taking a lease without waiting\<close>

definition is_lease_busy :: "string \<Rightarrow> lease_state \<Rightarrow> bool" where
  "is_lease_busy key s \<longleftrightarrow>
     ls_leases s key \<noteq> None \<or> list_ex (\<lambda>a. key \<in> set (at_ids a)) (ls_acquiring s)"

definition try_acquire_lease :: "string \<Rightarrow> string \<Rightarrow> lease_state \<Rightarrow> bool \<times> lease_state" where
  "try_acquire_lease key holder s =
     (if is_lease_busy key s then (False, s)
      else (True, set_lease key
              (Some \<lparr>le_mode = Exclusive, le_holders = [holder], le_queue = []\<rparr>) s))"

section \<open>Cancelling\<close>

text \<open>\<open>attempt.cancelled = true; attempt.cancelWait?.()\<close>\<close>

definition cancel_one :: "string \<Rightarrow> lease_state \<Rightarrow> lease_state" where
  "cancel_one l s =
     (case find_attempt l s of
        None \<Rightarrow> s
      | Some a \<Rightarrow>
          (case at_pc a of
             Waiting i \<Rightarrow>
               (let s' = update_attempt l (\<lambda>a. a\<lparr>at_cancelled := True, at_pc := Aborted i\<rparr>) s
                in case ls_leases s i of
                     None \<Rightarrow> s'
                   | Some le \<Rightarrow>
                       (let s'' = set_lease i (Some (le\<lparr>le_queue :=
                                    filter (\<lambda>w. wt_launch w \<noteq> l) (le_queue le)\<rparr>)) s'
                        in if map wt_launch (take 1 (le_queue le)) = [l] then admit_waiting i s''
                           else s''))
           | _ \<Rightarrow> update_attempt l (\<lambda>a. a\<lparr>at_cancelled := True\<rparr>) s))"

definition cancel_lease_waits :: "string \<Rightarrow> string option \<Rightarrow> lease_state \<Rightarrow> bool \<times> lease_state" where
  "cancel_lease_waits run launch s =
     (let hit = filter (\<lambda>a. at_run a = run \<and>
                  (case launch of None \<Rightarrow> True | Some l \<Rightarrow> l = [] \<or> at_launch a = l))
                  (ls_acquiring s)
      in (hit \<noteq> [], fold cancel_one (map at_launch hit) s))"

definition cancel_all_lease_waits :: "lease_state \<Rightarrow> lease_state" where
  "cancel_all_lease_waits s = fold cancel_one (map at_launch (ls_acquiring s)) s"

definition has_lease_waiters :: "lease_state \<Rightarrow> bool" where
  "has_lease_waiters s \<longleftrightarrow> ls_acquiring s \<noteq> []"

section \<open>Looking attempts and leases up\<close>

named_theorems lease_simps \<open>lookups after the elementary changes of the state\<close>

lemma find_attempt_launch: "find_attempt l s = Some a \<Longrightarrow> at_launch a = l"
  by (auto simp: find_attempt_def find_Some_iff)

lemma leases_set_lease [lease_simps]: "ls_leases (set_lease i x s) = (ls_leases s)(i := x)"
  by (simp add: set_lease_def)

lemma find_set_lease [lease_simps]: "find_attempt l (set_lease i x s) = find_attempt l s"
  by (simp add: set_lease_def find_attempt_def)

lemma leases_update_attempt [lease_simps]: "ls_leases (update_attempt l f s) = ls_leases s"
  by (simp add: update_attempt_def)

lemma find_map_attempt:
  assumes "\<And>a. at_launch a = l \<Longrightarrow> at_launch (f a) = l"
  shows "find (\<lambda>a. at_launch a = l') (map (\<lambda>a. if at_launch a = l then f a else a) as) =
         (if l' = l then map_option f (find (\<lambda>a. at_launch a = l') as)
          else find (\<lambda>a. at_launch a = l') as)"
  using assms by (induction as) auto

lemma find_update_attempt:
  "(\<And>a. at_launch a = l \<Longrightarrow> at_launch (f a) = l) \<Longrightarrow>
   find_attempt l' (update_attempt l f s) =
     (if l' = l then map_option f (find_attempt l' s) else find_attempt l' s)"
  by (simp add: find_attempt_def update_attempt_def find_map_attempt)

lemma leases_grant [lease_simps]: "ls_leases (grant i l s) = ls_leases s"
  by (simp add: grant_def lease_simps)

lemma find_grant [lease_simps]:
  "find_attempt l' (grant i l s) =
     (if l' = l then map_option (\<lambda>a. a\<lparr>at_pc := Granted i\<rparr>) (find_attempt l' s)
      else find_attempt l' s)"
  by (simp add: grant_def find_update_attempt)

lemma leases_drop [lease_simps]: "ls_leases (drop_attempt l s) = ls_leases s"
  by (simp add: drop_attempt_def)

lemma find_drop [lease_simps]:
  "find_attempt l' (drop_attempt l s) = (if l' = l then None else find_attempt l' s)"
proof -
  have "find (\<lambda>a. at_launch a = l') (filter (\<lambda>a. at_launch a \<noteq> l) as) =
      (if l' = l then None else find (\<lambda>a. at_launch a = l') as)" for as
    by (induction as) auto
  from this [of "ls_acquiring s"] show ?thesis by (simp add: find_attempt_def drop_attempt_def)
qed

lemma leases_grants [lease_simps]: "ls_leases (fold (grant i) g s) = ls_leases s"
  by (induction g arbitrary: s) (simp_all add: lease_simps)

lemma find_grants [lease_simps]:
  "find_attempt l (fold (grant i) g s) =
     (if l \<in> set g then map_option (\<lambda>a. a\<lparr>at_pc := Granted i\<rparr>) (find_attempt l s)
      else find_attempt l s)"
  by (induction g arbitrary: s)
     (auto simp: lease_simps option.map_comp comp_def)

text \<open>Dropping an attempt commutes with everything that happens to the leases.\<close>

lemma drop_update: "(\<And>a. at_launch (f a) = at_launch a) \<Longrightarrow>
   drop_attempt l (update_attempt l' f s) = update_attempt l' f (drop_attempt l s)"
proof -
  assume f: "\<And>a. at_launch (f a) = at_launch a"
  have "filter (\<lambda>a. at_launch a \<noteq> l) (map (\<lambda>a. if at_launch a = l' then f a else a) as)
      = map (\<lambda>a. if at_launch a = l' then f a else a) (filter (\<lambda>a. at_launch a \<noteq> l) as)" for as
    using f by (induction as) auto
  then show ?thesis by (simp add: drop_attempt_def update_attempt_def)
qed

lemma drop_set_lease: "drop_attempt l (set_lease i x s) = set_lease i x (drop_attempt l s)"
  by (simp add: drop_attempt_def set_lease_def)

lemma drop_grants: "drop_attempt l (fold (grant i) g s) = fold (grant i) g (drop_attempt l s)"
  by (induction g arbitrary: s) (simp_all add: grant_def drop_update)

lemma drop_admit: "drop_attempt l (admit_waiting i s) = admit_waiting i (drop_attempt l s)"
  by (simp add: admit_waiting_def lease_simps drop_grants drop_set_lease split: option.split prod.split)

lemma drop_release_one: "drop_attempt l (release_one l' i s) = release_one l' i (drop_attempt l s)"
  by (simp add: release_one_def lease_simps drop_admit drop_set_lease split: option.split)

lemma drop_release:
  "drop_attempt l (release_location_leases ids l' s)
     = release_location_leases ids l' (drop_attempt l s)"
  unfolding release_location_leases_def
  by (induction ids arbitrary: s) (simp_all add: drop_release_one)

section \<open>The invariant\<close>

fun pc_id :: "attempt_pc \<Rightarrow> string" where
  "pc_id (Waiting i) = i" | "pc_id (Granted i) = i" | "pc_id (Aborted i) = i"

definition granted_ids :: "attempt \<Rightarrow> string list" where
  "granted_ids a = at_held a @ (case at_pc a of Granted i \<Rightarrow> [i] | _ \<Rightarrow> [])"

text \<open>An attempt's ids in order: held, awaited, still to ask for.\<close>

definition attempt_form :: "attempt \<Rightarrow> bool" where
  "attempt_form a \<longleftrightarrow>
     sorted_wrt (<) (at_ids a) \<and> at_ids a = at_held a @ pc_id (at_pc a) # at_rest a \<and>
     (\<forall>i. at_pc a = Aborted i \<longrightarrow> at_cancelled a)"

definition holder_of :: "string \<Rightarrow> attempt \<Rightarrow> lease_state \<Rightarrow> bool" where
  "holder_of i a s \<longleftrightarrow>
     (\<exists>le. ls_leases s i = Some le \<and> at_launch a \<in> set (le_holders le) \<and>
        le_mode le = wanted_mode a i)"

definition attempt_linked :: "lease_state \<Rightarrow> attempt \<Rightarrow> bool" where
  "attempt_linked s a \<longleftrightarrow>
     attempt_form a \<and> (\<forall>i\<in>set (granted_ids a). holder_of i a s) \<and>
     (\<forall>i. at_pc a = Waiting i \<longrightarrow>
        (\<exists>le. ls_leases s i = Some le \<and>
           \<lparr>wt_launch = at_launch a, wt_mode = wanted_mode a i\<rparr> \<in> set (le_queue le)))"

definition lease_linked :: "lease_state \<Rightarrow> string \<Rightarrow> location_lease \<Rightarrow> bool" where
  "lease_linked s i le \<longleftrightarrow>
     distinct (le_holders le) \<and> distinct (map wt_launch (le_queue le)) \<and>
     (le_mode le = Exclusive \<longrightarrow> length (le_holders le) \<le> 1) \<and>
     (\<forall>w\<in>set (le_queue le). \<exists>a. find_attempt (wt_launch w) s = Some a \<and>
        at_pc a = Waiting i \<and> wt_mode w = wanted_mode a i) \<and>
     (\<forall>h\<in>set (le_holders le). \<forall>a. find_attempt h s = Some a \<longrightarrow> i \<in> set (granted_ids a))"

definition linked :: "lease_state \<Rightarrow> bool" where
  "linked s \<longleftrightarrow>
     (\<forall>l a. find_attempt l s = Some a \<longrightarrow> attempt_linked s a) \<and>
     (\<forall>i le. ls_leases s i = Some le \<longrightarrow> lease_linked s i le)"

text \<open>No lease is kept without a holder, and the front of a queue cannot be admitted.\<close>

definition lease_settled :: "location_lease \<Rightarrow> bool" where
  "lease_settled le \<longleftrightarrow>
     le_holders le \<noteq> [] \<and>
     (\<forall>w q. le_queue le = w # q \<longrightarrow> wt_mode w = Exclusive \<or> le_mode le = Exclusive)"

definition settled_but :: "string set \<Rightarrow> lease_state \<Rightarrow> bool" where
  "settled_but X s \<longleftrightarrow> (\<forall>i le. i \<notin> X \<longrightarrow> ls_leases s i = Some le \<longrightarrow> lease_settled le)"

definition lease_inv :: "lease_state \<Rightarrow> bool" where
  "lease_inv s \<longleftrightarrow> linked s \<and> settled_but {} s"

lemma linkedD:
  "linked s \<Longrightarrow> find_attempt l s = Some a \<Longrightarrow> attempt_linked s a"
  "linked s \<Longrightarrow> ls_leases s i = Some le \<Longrightarrow> lease_linked s i le"
  by (simp_all add: linked_def)

lemma attempt_form_fresh:
  assumes "attempt_form a"
  shows "pc_id (at_pc a) \<notin> set (at_held a)" "pc_id (at_pc a) \<notin> set (at_rest a)"
    "\<And>i. i \<in> set (at_held a) \<Longrightarrow> i < pc_id (at_pc a)"
  using assms by (auto simp: attempt_form_def sorted_wrt_append)

text \<open>A waiting attempt holds what it waits for in no lease, so queues and holders are disjoint.\<close>

lemma queue_not_holder:
  assumes "linked s" and "ls_leases s i = Some le" and "w \<in> set (le_queue le)"
  shows "wt_launch w \<notin> set (le_holders le)"
proof
  assume h: "wt_launch w \<in> set (le_holders le)"
  obtain a where a: "find_attempt (wt_launch w) s = Some a" "at_pc a = Waiting i"
    using linkedD(2) [OF assms(1,2)] assms(3) by (auto simp: lease_linked_def)
  have "i \<in> set (granted_ids a)"
    using linkedD(2) [OF assms(1,2)] h a(1) by (auto simp: lease_linked_def)
  then show False
    using a attempt_form_fresh(1) [of a] linkedD(1) [OF assms(1) a(1)]
    by (simp add: granted_ids_def attempt_linked_def)
qed

lemma waiterD:
  assumes "linked s" and "ls_leases s i = Some le" and "w \<in> set (le_queue le)"
  shows "\<exists>a. find_attempt (wt_launch w) s = Some a \<and> at_pc a = Waiting i \<and>
    wt_mode w = wanted_mode a i"
proof -
  have "\<forall>w\<in>set (le_queue le). \<exists>a. find_attempt (wt_launch w) s = Some a \<and>
      at_pc a = Waiting i \<and> wt_mode w = wanted_mode a i"
    using linkedD(2) [OF assms(1,2)] unfolding lease_linked_def by blast
  with assms(3) show ?thesis by (rule bspec [rotated])
qed

lemma waiting_id_unique:
  "linked s \<Longrightarrow> ls_leases s i = Some le \<Longrightarrow> w \<in> set (le_queue le) \<Longrightarrow>
   find_attempt (wt_launch w) s = Some a \<Longrightarrow> at_pc a = Waiting i \<and> wt_mode w = wanted_mode a i"
  by (drule (1) linkedD(2)) (auto simp: lease_linked_def)

section \<open>Admission\<close>

lemma set_add_not_Nil [simp]: "set_add x xs \<noteq> []"
  by (auto simp: set_add_def)

lemma set_add_new: "x \<notin> set xs \<Longrightarrow> set_add x xs = xs @ [x]"
  by (simp add: set_add_def)

lemma lease_mode_not: "m \<noteq> Exclusive \<longleftrightarrow> m = Shared"
  by (cases m) auto

lemma admit_queue_mode:
  "admit_queue m hs q = (m', hs', q', g) \<Longrightarrow> hs \<noteq> [] \<Longrightarrow> m' = m"
  by (induction m hs q arbitrary: m' hs' q' g rule: admit_queue.induct)
     (auto simp: lease_mode_not split: if_splits prod.splits)

text \<open>
  Admission grants a prefix of the queue, in order, all in the resulting mode.
\<close>

lemma admit_queue_prefix:
  assumes "admit_queue m hs q = (m', hs', q', g)"
    and "distinct (map wt_launch q)" and "\<And>w. w \<in> set q \<Longrightarrow> wt_launch w \<notin> set hs"
  shows "\<exists>ws. q = ws @ q' \<and> g = map wt_launch ws \<and> hs' = hs @ g \<and> (\<forall>w\<in>set ws. wt_mode w = m')"
  using assms
proof (induction m hs q arbitrary: m' hs' q' g rule: admit_queue.induct)
  case (1 m hs)
  then show ?case by simp
next
  case (2 m hs w q)
  note prems = "2.prems"
  show ?case
  proof (cases "wt_mode w = Exclusive \<or> hs \<noteq> [] \<and> m = Exclusive")
    case True
    then show ?thesis
      using prems by (auto simp: set_add_def split: if_splits intro: exI [of _ "[w]"])
  next
    case False
    obtain m1 hs1 q1 g1 where rec: "admit_queue Shared (set_add (wt_launch w) hs) q = (m1, hs1, q1, g1)"
      by (metis prod_cases4)
    have add: "set_add (wt_launch w) hs = hs @ [wt_launch w]"
      using prems(3) [of w] by (simp add: set_add_new)
    have m1: "m1 = Shared"
      using admit_queue_mode [OF rec] by simp
    have "\<exists>ws. q = ws @ q1 \<and> g1 = map wt_launch ws \<and> hs1 = set_add (wt_launch w) hs @ g1 \<and>
        (\<forall>w\<in>set ws. wt_mode w = m1)"
    proof (rule "2.IH" [OF _ _ rec])
      show "wt_mode w \<noteq> Exclusive" "\<not> (hs \<noteq> [] \<and> m = Exclusive)" using False by auto
      show "distinct (map wt_launch q)" using prems(2) by simp
      show "wt_launch w' \<notin> set (set_add (wt_launch w) hs)" if "w' \<in> set q" for w'
        using that prems(2,3) by (auto simp: add) (metis imageI)
    qed
    then obtain ws where ws: "q = ws @ q1" "g1 = map wt_launch ws" "hs1 = hs @ wt_launch w # g1"
        "\<forall>w\<in>set ws. wt_mode w = m1"
      using add by auto
    have res: "m' = m1" "hs' = hs1" "q' = q1" "g = wt_launch w # g1"
      using prems(1) False rec by auto
    show ?thesis
      by (rule exI [of _ "w # ws"]) (use ws res m1 False in \<open>auto simp: lease_mode_not\<close>)
  qed
qed

lemma admit_queue_exclusive:
  "admit_queue m hs q = (m', hs', q', g) \<Longrightarrow> (m = Exclusive \<longrightarrow> length hs \<le> 1) \<Longrightarrow>
   m' = Exclusive \<Longrightarrow> length hs' \<le> 1"
  by (induction m hs q arbitrary: m' hs' q' g rule: admit_queue.induct)
     (auto simp: set_add_def split: if_splits prod.splits)

lemma admit_queue_blocked:
  "admit_queue m hs q = (m', hs', w # q', g) \<Longrightarrow>
   hs' \<noteq> [] \<and> (wt_mode w = Exclusive \<or> m' = Exclusive)"
  by (induction m hs q arbitrary: m' hs' w q' g rule: admit_queue.induct)
     (auto split: if_splits prod.splits)

lemma attempt_linked_cong:
  assumes "attempt_linked s a"
    and "\<And>i. i \<in> set (granted_ids a) \<Longrightarrow> holder_of i a s \<Longrightarrow> holder_of i a s'"
    and "\<And>i le. at_pc a = Waiting i \<Longrightarrow> ls_leases s i = Some le \<Longrightarrow>
           \<lparr>wt_launch = at_launch a, wt_mode = wanted_mode a i\<rparr> \<in> set (le_queue le) \<Longrightarrow>
           \<exists>le'. ls_leases s' i = Some le' \<and>
             \<lparr>wt_launch = at_launch a, wt_mode = wanted_mode a i\<rparr> \<in> set (le_queue le')"
  shows "attempt_linked s' a"
  using assms unfolding attempt_linked_def by blast

lemma granted_ids_pc:
  "granted_ids (a\<lparr>at_pc := Granted i\<rparr>) = at_held a @ [i]"
  by (simp add: granted_ids_def)

lemma wanted_mode_pc [simp]: "wanted_mode (a\<lparr>at_pc := p\<rparr>) i = wanted_mode a i"
  by (simp add: wanted_mode_def)

lemma attempt_form_granted:
  "attempt_form a \<Longrightarrow> at_pc a = Waiting i \<Longrightarrow> attempt_form (a\<lparr>at_pc := Granted i\<rparr>)"
  by (cases a) (auto simp: attempt_form_def)

text \<open>One lease after the loop of \<open>admitWaiting\<close>.\<close>

definition admitted_lease :: "lease_mode \<Rightarrow> string list \<Rightarrow> waiter list \<Rightarrow> location_lease option" where
  "admitted_lease m hs q =
     (if q = [] \<and> hs = [] then None else Some \<lparr>le_mode = m, le_holders = hs, le_queue = q\<rparr>)"

lemma admit_waiting_eq:
  "ls_leases s i = Some le \<Longrightarrow>
   admit_queue (le_mode le) (le_holders le) (le_queue le) = (m, hs, q, g) \<Longrightarrow>
   admit_waiting i s = fold (grant i) g (set_lease i (admitted_lease m hs q) s)"
  by (simp add: admit_waiting_def admitted_lease_def)

lemma admitted_lease_Some:
  "admitted_lease m hs q = Some le \<longleftrightarrow>
   (q \<noteq> [] \<or> hs \<noteq> []) \<and> le = \<lparr>le_mode = m, le_holders = hs, le_queue = q\<rparr>"
  by (auto simp: admitted_lease_def)

lemma admit_attempts:
  assumes linked: "linked s" and lease: "ls_leases s i = Some le"
    and run: "admit_queue (le_mode le) (le_holders le) (le_queue le) = (m, hs, q, g)"
    and queue: "le_queue le = ws @ q" and gr: "g = map wt_launch ws"
    and hs: "hs = le_holders le @ g" and mode: "\<forall>w\<in>set ws. wt_mode w = m"
    and find: "find_attempt l (admit_waiting i s) = Some a"
  shows "attempt_linked (admit_waiting i s) a"
proof -
  note after = admit_waiting_eq [OF lease run]
  have kept: "x \<in> set (le_holders le) \<Longrightarrow> m = le_mode le" for x
    using admit_queue_mode [OF run] by (cases "le_holders le") auto
  have holder: "holder_of j b s \<Longrightarrow> holder_of j b (admit_waiting i s)" for j b
    using lease kept
    by (auto simp: holder_of_def after lease_simps admitted_lease_Some hs split: if_splits)
  show ?thesis
  proof (cases "l \<in> set g")
    case True
    then obtain w where w: "w \<in> set ws" "wt_launch w = l" using gr by auto
    then obtain b where b: "find_attempt l s = Some b" "at_pc b = Waiting i"
        "wt_mode w = wanted_mode b i"
      using waiterD [OF linked lease, of w] queue by auto
    have a: "a = b\<lparr>at_pc := Granted i\<rparr>"
      using find True b(1) by (simp add: after lease_simps)
    have lb: "attempt_linked s b" by (rule linkedD(1) [OF linked b(1)])
    have "holder_of i a (admit_waiting i s)"
      using w mode b(3) True find_attempt_launch [OF b(1)]
      by (auto simp: holder_of_def after lease_simps admitted_lease_Some hs a wanted_mode_def)
    moreover have "holder_of j a (admit_waiting i s)" if "j \<in> set (at_held b)" for j
    proof -
      have "holder_of j b s"
        using that lb by (simp add: attempt_linked_def granted_ids_def)
      from holder [OF this] show ?thesis by (simp add: holder_of_def a)
    qed
    ultimately show ?thesis
      using lb b(2) by (auto simp: attempt_linked_def a granted_ids_pc attempt_form_granted)
  next
    case False
    then have b: "find_attempt l s = Some a"
      using find by (simp add: after lease_simps)
    show ?thesis
    proof (rule attempt_linked_cong [OF linkedD(1) [OF linked b]])
      show "holder_of j a (admit_waiting i s)" if "holder_of j a s" for j
        using that by (rule holder)
      fix j le'
      assume j: "ls_leases s j = Some le'"
        and w: "\<lparr>wt_launch = at_launch a, wt_mode = wanted_mode a j\<rparr> \<in> set (le_queue le')"
      have "at_launch a \<notin> set g" using False find_attempt_launch [OF b] by simp
      then have "\<lparr>wt_launch = at_launch a, wt_mode = wanted_mode a j\<rparr> \<notin> set ws"
        using gr by force
      then show "\<exists>le''. ls_leases (admit_waiting i s) j = Some le'' \<and>
          \<lparr>wt_launch = at_launch a, wt_mode = wanted_mode a j\<rparr> \<in> set (le_queue le'')"
        using j w queue lease
        by (cases "j = i") (auto simp: after lease_simps admitted_lease_Some)
    qed
  qed
qed

lemma admit_leases:
  assumes linked: "linked s" and lease: "ls_leases s i = Some le"
    and run: "admit_queue (le_mode le) (le_holders le) (le_queue le) = (m, hs, q, g)"
    and queue: "le_queue le = ws @ q" and gr: "g = map wt_launch ws"
    and hs: "hs = le_holders le @ g"
    and new: "ls_leases (admit_waiting i s) j = Some le'"
  shows "lease_linked (admit_waiting i s) j le'"
proof -
  note after = admit_waiting_eq [OF lease run]
  note ll = linkedD(2) [OF linked lease]
  have disj: "w \<in> set (le_queue le) \<Longrightarrow> wt_launch w \<notin> set (le_holders le)" for w
    by (rule queue_not_holder [OF linked lease])
  have waits: "\<exists>b. find_attempt h s = Some b \<and> at_pc b = Waiting i" if "h \<in> set g" for h
    using that ll queue gr by (auto simp: lease_linked_def)
  show ?thesis
  proof (cases "j = i")
    case True
    then have le': "le' = \<lparr>le_mode = m, le_holders = hs, le_queue = q\<rparr>"
      using new by (simp add: after lease_simps admitted_lease_Some)
    have "distinct hs"
      using ll disj queue gr hs by (auto simp: lease_linked_def)
    moreover have "m = Exclusive \<longrightarrow> length hs \<le> 1"
      using admit_queue_exclusive [OF run] ll by (auto simp: lease_linked_def)
    moreover have "\<exists>a. find_attempt (wt_launch w) (admit_waiting i s) = Some a \<and>
        at_pc a = Waiting i \<and> wt_mode w = wanted_mode a i" if "w \<in> set q" for w
    proof -
      have "wt_launch w \<notin> set g"
        using that ll queue gr by (auto simp: lease_linked_def)
      then show ?thesis
        using that ll queue by (auto simp: lease_linked_def after lease_simps)
    qed
    moreover have "i \<in> set (granted_ids a)"
      if "h \<in> set hs" "find_attempt h (admit_waiting i s) = Some a" for h a
      using that ll hs by (auto simp: lease_linked_def after lease_simps granted_ids_pc split: if_splits)
    ultimately show ?thesis
      using ll queue True by (auto simp: lease_linked_def le')
  next
    case False
    then have old: "ls_leases s j = Some le'"
      using new by (simp add: after lease_simps)
    note lj = linkedD(2) [OF linked old]
    have "\<exists>a. find_attempt (wt_launch w) (admit_waiting i s) = Some a \<and>
        at_pc a = Waiting j \<and> wt_mode w = wanted_mode a j" if "w \<in> set (le_queue le')" for w
    proof -
      have "wt_launch w \<notin> set g"
        using waits [of "wt_launch w"] waiting_id_unique [OF linked old that] False by auto
      then show ?thesis
        using that lj by (auto simp: lease_linked_def after lease_simps)
    qed
    moreover have "j \<in> set (granted_ids a)"
      if h: "h \<in> set (le_holders le')" and f: "find_attempt h (admit_waiting i s) = Some a" for h a
    proof (cases "h \<in> set g")
      case True
      then obtain b where b: "find_attempt h s = Some b" "at_pc b = Waiting i" using waits by blast
      then have "j \<in> set (at_held b)"
        using lj h by (auto simp: lease_linked_def granted_ids_def)
      then show ?thesis
        using f True b(1) by (simp add: after lease_simps granted_ids_def split: if_splits) auto
    next
      case False
      then show ?thesis using lj h f by (auto simp: lease_linked_def after lease_simps)
    qed
    ultimately show ?thesis using lj by (auto simp: lease_linked_def)
  qed
qed

lemma admit_inv:
  assumes "linked s" and "settled_but {i} s"
  shows "lease_inv (admit_waiting i s)"
proof (cases "ls_leases s i")
  case None
  then have "settled_but {} s"
    using assms(2) unfolding settled_but_def by (metis insert_iff option.distinct(1) singletonD)
  with None assms(1) show ?thesis by (simp add: lease_inv_def admit_waiting_def)
next
  case (Some le)
  obtain m hs q g where run: "admit_queue (le_mode le) (le_holders le) (le_queue le) = (m, hs, q, g)"
    by (metis prod_cases4)
  have "distinct (map wt_launch (le_queue le))"
    using linkedD(2) [OF assms(1) Some] by (simp add: lease_linked_def)
  then obtain ws where ws: "le_queue le = ws @ q" "g = map wt_launch ws" "hs = le_holders le @ g"
      "\<forall>w\<in>set ws. wt_mode w = m"
    using admit_queue_prefix [OF run] queue_not_holder [OF assms(1) Some] by blast
  have "linked (admit_waiting i s)"
    unfolding linked_def
    using admit_attempts [OF assms(1) Some run ws] admit_leases [OF assms(1) Some run ws(1,2,3)]
    by blast
  moreover have "lease_settled \<lparr>le_mode = m, le_holders = hs, le_queue = q\<rparr>" if "q \<noteq> [] \<or> hs \<noteq> []"
    using that admit_queue_blocked [of "le_mode le" "le_holders le" "le_queue le" m hs _ _ g] run
    by (cases q) (auto simp: lease_settled_def)
  then have "settled_but {} (admit_waiting i s)"
    using assms(2)
    by (auto simp: settled_but_def admit_waiting_eq [OF Some run] lease_simps admitted_lease_Some
        split: if_splits)
  ultimately show ?thesis by (simp add: lease_inv_def)
qed

section \<open>Release\<close>

text \<open>Changing one lease whose queue stays, when no attempt loses a hold.\<close>

lemma linked_set_lease:
  assumes "linked s" and "ls_leases s i = None \<or> (\<exists>le0. ls_leases s i = Some le0 \<and>
      set (le_queue le0) \<subseteq> set (le_queue le) \<and>
      (\<forall>h a. find_attempt h s = Some a \<longrightarrow> h \<in> set (le_holders le0) \<longrightarrow>
         h \<in> set (le_holders le) \<and> le_mode le = le_mode le0))"
    and "lease_linked s i le"
  shows "linked (set_lease i (Some le) s)"
  unfolding linked_def
proof (intro conjI allI impI)
  fix l a assume "find_attempt l (set_lease i (Some le) s) = Some a"
  then have a: "find_attempt l s = Some a" by (simp add: lease_simps)
  show "attempt_linked (set_lease i (Some le) s) a"
    by (rule attempt_linked_cong [OF linkedD(1) [OF assms(1) a]])
       (use assms(2) a find_attempt_launch [OF a] in
         \<open>auto simp: holder_of_def lease_simps split: if_splits\<close>)
next
  fix j le' assume "ls_leases (set_lease i (Some le) s) j = Some le'"
  then show "lease_linked (set_lease i (Some le) s) j le'"
    using linkedD(2) [OF assms(1), of j le'] assms(3)
    by (auto simp: lease_linked_def lease_simps split: if_splits)
qed

lemma release_one_inv:
  assumes inv: "lease_inv s" and l: "find_attempt l s = None"
  shows "lease_inv (release_one l i s)"
proof (cases "ls_leases s i")
  case None
  with inv show ?thesis by (simp add: release_one_def)
next
  case (Some le)
  let ?le = "le\<lparr>le_holders := filter (\<lambda>h. h \<noteq> l) (le_holders le)\<rparr>"
  have linked: "linked s" using inv by (simp add: lease_inv_def)
  have ll: "lease_linked s i le" by (rule linkedD(2) [OF linked Some])
  have "length (filter (\<lambda>h. h \<noteq> l) (le_holders le)) \<le> length (le_holders le)" by simp
  then have "lease_linked s i ?le"
    using ll by (auto simp: lease_linked_def simp del: length_filter_le)
  then have "linked (set_lease i (Some ?le) s)"
    using Some l by (intro linked_set_lease [OF linked]) auto
  moreover have "settled_but {i} (set_lease i (Some ?le) s)"
    using inv by (auto simp: lease_inv_def settled_but_def lease_simps split: if_splits)
  ultimately show ?thesis
    using Some inv by (simp add: release_one_def admit_inv)
qed

lemma find_admit_None: "find_attempt l s = None \<Longrightarrow> find_attempt l (admit_waiting i s) = None"
  by (auto simp: admit_waiting_def lease_simps split: option.split prod.split)

lemma find_release_None:
  "find_attempt l s = None \<Longrightarrow> find_attempt l (release_location_leases ids l' s) = None"
  unfolding release_location_leases_def
  by (induction ids arbitrary: s)
     (auto simp: release_one_def lease_simps find_admit_None split: option.split)

lemma release_inv:
  "lease_inv s \<Longrightarrow> find_attempt l s = None \<Longrightarrow> lease_inv (release_location_leases ids l s)"
proof (induction ids arbitrary: s)
  case Nil
  then show ?case by (simp add: release_location_leases_def)
next
  case (Cons i ids)
  have "find_attempt l (release_one l i s) = None"
    using Cons.prems(2) find_release_None [of l s "[i]" l]
    by (simp add: release_location_leases_def)
  with Cons show ?case
    using release_one_inv [OF Cons.prems] by (simp add: release_location_leases_def)
qed

section \<open>Acquiring\<close>

text \<open>An attempt that is in no queue can be taken out of the state.\<close>

lemma drop_inv:
  assumes "lease_inv s" and "\<And>a i. find_attempt l s = Some a \<Longrightarrow> at_pc a \<noteq> Waiting i"
  shows "lease_inv (drop_attempt l s)"
  unfolding lease_inv_def linked_def
proof (intro conjI allI impI)
  have linked: "linked s" using assms(1) by (simp add: lease_inv_def)
  fix l' a assume "find_attempt l' (drop_attempt l s) = Some a"
  then have "find_attempt l' s = Some a" by (simp add: lease_simps split: if_splits)
  from linkedD(1) [OF linked this] show "attempt_linked (drop_attempt l s) a"
    by (rule attempt_linked_cong) (auto simp: holder_of_def lease_simps)
next
  have linked: "linked s" using assms(1) by (simp add: lease_inv_def)
  fix i le assume "ls_leases (drop_attempt l s) i = Some le"
  then have lease: "ls_leases s i = Some le" by (simp add: lease_simps)
  have "wt_launch w \<noteq> l" if "w \<in> set (le_queue le)" for w
    using waiterD [OF linked lease that] assms(2) by auto
  then show "lease_linked (drop_attempt l s) i le"
    using linkedD(2) [OF linked lease] by (auto simp: lease_linked_def lease_simps)
next
  show "settled_but {} (drop_attempt l s)"
    using assms(1) by (simp add: lease_inv_def settled_but_def lease_simps)
qed

lemma finish_inv:
  assumes "lease_inv (drop_attempt (at_launch a) s)"
  shows "lease_inv (fst (finish_attempt a s))"
  using assms release_inv [OF assms, of "at_launch a" "at_held a"]
  by (simp add: finish_attempt_def drop_release lease_simps)

text \<open>
  The attempt about to ask for \<open>i\<close>: it holds what it lists as held, in the wanted mode, and nothing
  else; \<open>i\<close> comes next.
\<close>

definition ready_for :: "string \<Rightarrow> attempt \<Rightarrow> lease_state \<Rightarrow> bool" where
  "ready_for i a s \<longleftrightarrow>
     sorted_wrt (<) (at_ids a) \<and> at_ids a = at_held a @ i # at_rest a \<and>
     (\<forall>j\<in>set (at_held a). holder_of j a s) \<and>
     (\<forall>j le. ls_leases s j = Some le \<longrightarrow> at_launch a \<in> set (le_holders le) \<longrightarrow> j \<in> set (at_held a))"

lemma linked_update:
  assumes rest: "linked (drop_attempt l s)" and some: "find_attempt l s \<noteq> None"
    and l: "at_launch a = l"
    and la: "attempt_linked (update_attempt l (\<lambda>_. a) s) a"
    and holders: "\<And>i le. ls_leases s i = Some le \<Longrightarrow> l \<in> set (le_holders le) \<Longrightarrow>
                   i \<in> set (granted_ids a)"
  shows "linked (update_attempt l (\<lambda>_. a) s)"
  unfolding linked_def
proof (intro conjI allI impI)
  fix l' b assume b: "find_attempt l' (update_attempt l (\<lambda>_. a) s) = Some b"
  show "attempt_linked (update_attempt l (\<lambda>_. a) s) b"
  proof (cases "l' = l")
    case True
    then have "b = a" using b l by (auto simp: find_update_attempt)
    with la show ?thesis by simp
  next
    case False
    then have "find_attempt l' (drop_attempt l s) = Some b"
      using b l by (simp add: find_update_attempt lease_simps)
    from linkedD(1) [OF rest this] show ?thesis
      by (rule attempt_linked_cong) (auto simp: holder_of_def lease_simps)
  qed
next
  fix i le assume "ls_leases (update_attempt l (\<lambda>_. a) s) i = Some le"
  then have lease: "ls_leases s i = Some le" by (simp add: lease_simps)
  have ll: "lease_linked (drop_attempt l s) i le"
    by (rule linkedD(2) [OF rest]) (simp add: lease lease_simps)
  show "lease_linked (update_attempt l (\<lambda>_. a) s) i le"
    using ll holders [OF lease] l
    by (fastforce simp: lease_linked_def find_update_attempt lease_simps)
qed

lemma attempt_form_ready:
  "ready_for i a s \<Longrightarrow> (\<And>j. p \<noteq> Aborted j) \<Longrightarrow> pc_id p = i \<Longrightarrow>
   attempt_form (a\<lparr>at_pc := p, at_notified := n\<rparr>)"
  by (cases a) (auto simp: attempt_form_def ready_for_def)

lemma ready_not_held: "ready_for i a s \<Longrightarrow> i \<notin> set (at_held a)"
  by (auto simp: ready_for_def sorted_wrt_append)

lemma granted_step:
  assumes inv: "lease_inv (drop_attempt l s)" and some: "find_attempt l s \<noteq> None"
    and l: "at_launch a = l" and ready: "ready_for i a s"
    and le: "lease_settled le" "lease_linked (drop_attempt l s) i le" "l \<in> set (le_holders le)"
      "le_mode le = wanted_mode a i" "le_queue le = []"
    and old: "ls_leases s i = None \<or> (\<exists>le0. ls_leases s i = Some le0 \<and> le_queue le0 = [] \<and>
        le_holders le = set_add l (le_holders le0) \<and> le_mode le = le_mode le0)"
  shows "lease_inv (update_attempt l (\<lambda>_. a\<lparr>at_pc := Granted i\<rparr>) (set_lease i (Some le) s))"
proof -
  let ?s = "set_lease i (Some le) s" and ?a = "a\<lparr>at_pc := Granted i\<rparr>"
  have linked: "linked (drop_attempt l s)" using inv by (simp add: lease_inv_def)
  have "linked (drop_attempt l ?s)"
    unfolding drop_set_lease using old le(2)
    by (intro linked_set_lease [OF linked]) (auto simp: lease_simps set_add_def)
  moreover have "attempt_linked (update_attempt l (\<lambda>_. ?a) ?s) ?a"
  proof -
    have "holder_of j ?a (update_attempt l (\<lambda>_. ?a) ?s)" if "j \<in> set (at_held a)" for j
      using that ready ready_not_held [OF ready]
      by (auto simp: ready_for_def holder_of_def lease_simps)
    moreover have "holder_of i ?a (update_attempt l (\<lambda>_. ?a) ?s)"
      using le l by (simp add: holder_of_def lease_simps)
    moreover have "attempt_form ?a"
      using attempt_form_ready [OF ready, of "Granted i" "at_notified a"] by (cases a) simp
    ultimately show ?thesis by (auto simp: attempt_linked_def granted_ids_pc)
  qed
  moreover have "j \<in> set (granted_ids ?a)"
    if "ls_leases ?s j = Some le'" "l \<in> set (le_holders le')" for j le'
    using that ready l by (auto simp: ready_for_def granted_ids_pc lease_simps split: if_splits)
  ultimately have "linked (update_attempt l (\<lambda>_. ?a) ?s)"
    using some l by (intro linked_update) (auto simp: lease_simps)
  then show ?thesis
    using inv le(1) by (auto simp: lease_inv_def settled_but_def lease_simps)
qed

lemma waiting_step:
  assumes inv: "lease_inv (drop_attempt l s)" and some: "find_attempt l s \<noteq> None"
    and l: "at_launch a = l" and ready: "ready_for i a s"
    and lease: "ls_leases s i = Some le"
    and blocked: "\<not> (wanted_mode a i = Shared \<and> le_mode le = Shared \<and> le_queue le = [])"
  shows "lease_inv (update_attempt l (\<lambda>_. a\<lparr>at_pc := Waiting i, at_notified := True\<rparr>)
           (set_lease i (Some (le\<lparr>le_queue := le_queue le @
              [\<lparr>wt_launch = l, wt_mode = wanted_mode a i\<rparr>]\<rparr>)) s))"
    (is "lease_inv (update_attempt l (\<lambda>_. ?a) (set_lease i (Some ?le) s))")
proof -
  let ?s = "set_lease i (Some ?le) s"
  let ?s' = "update_attempt l (\<lambda>_. ?a) ?s"
  have linked: "linked (drop_attempt l s)" using inv by (simp add: lease_inv_def)
  have drop: "ls_leases (drop_attempt l s) j = ls_leases s j" for j by (simp add: lease_simps)
  have find: "find_attempt l' ?s' = (if l' = l then Some ?a else find_attempt l' (drop_attempt l s))"
    for l' using some l by (auto simp: find_update_attempt lease_simps)
  have not_l: "wt_launch w \<noteq> l"
    if "ls_leases s j = Some le'" "w \<in> set (le_queue le')" for j le' w
    using waiterD [OF linked _ that(2), of j] that(1) by (auto simp: drop lease_simps split: if_splits)
  have wm: "wanted_mode ?a j = wanted_mode a j" for j
    by (simp add: wanted_mode_def)
  have holder: "holder_of j b s \<Longrightarrow> holder_of j b ?s'" for j b
    using lease by (auto simp: holder_of_def lease_simps)
  have "attempt_linked ?s' ?a"
  proof -
    have "attempt_form ?a" using attempt_form_ready [OF ready, of "Waiting i" True] by simp
    moreover have "holder_of j ?a ?s'" if "j \<in> set (at_held a)" for j
    proof -
      have "holder_of j a ?s'" using that ready by (intro holder) (simp add: ready_for_def)
      then show ?thesis by (simp add: holder_of_def wanted_mode_def)
    qed
    ultimately show ?thesis
      using l by (simp add: attempt_linked_def granted_ids_def lease_simps wanted_mode_def)
  qed
  moreover have "attempt_linked ?s' b" if "find_attempt l' (drop_attempt l s) = Some b" for l' b
  proof (rule attempt_linked_cong [OF linkedD(1) [OF linked that]])
    show "holder_of j b ?s'" if "holder_of j b (drop_attempt l s)" for j
      using that by (intro holder) (simp add: holder_of_def drop)
  qed (use lease in \<open>auto simp: lease_simps\<close>)
  moreover have "lease_linked ?s' j le'" if new: "ls_leases ?s' j = Some le'" for j le'
  proof -
    obtain le0 where le0: "ls_leases s j = Some le0" "le_holders le' = le_holders le0"
        "le_mode le' = le_mode le0" "le_queue le' = le_queue le0 @
           (if j = i then [\<lparr>wt_launch = l, wt_mode = wanted_mode a i\<rparr>] else [])"
      using new lease by (auto simp: lease_simps split: if_splits)
    have ll: "lease_linked (drop_attempt l s) j le0"
      by (rule linkedD(2) [OF linked]) (simp add: drop le0)
    have "distinct (map wt_launch (le_queue le'))"
      using ll not_l [OF le0(1)] by (auto simp: le0(4) lease_linked_def)
    moreover have "\<exists>b. find_attempt (wt_launch w) ?s' = Some b \<and> at_pc b = Waiting j \<and>
        wt_mode w = wanted_mode b j" if "w \<in> set (le_queue le')" for w
    proof (cases "w \<in> set (le_queue le0)")
      case True
      then show ?thesis
        using waiterD [OF linked _ True, of j] le0(1) not_l [OF le0(1) True] by (simp add: drop find)
    next
      case False
      then show ?thesis
        using that by (auto simp: le0(4) find wm split: if_splits)
    qed
    moreover have "j \<in> set (granted_ids b)"
      if "h \<in> set (le_holders le')" "find_attempt h ?s' = Some b" for h b
    proof (cases "h = l")
      case True
      then have "b = ?a" using that(2) by (simp add: find)
      moreover have "j \<in> set (at_held a)"
        using ready that(1) le0(1,2) True l unfolding ready_for_def by metis
      ultimately show ?thesis by (simp add: granted_ids_def)
    next
      case False
      then show ?thesis using that ll le0(2) by (simp add: find lease_linked_def)
    qed
    ultimately show ?thesis using ll by (auto simp: lease_linked_def le0(2,3))
  qed
  ultimately have "linked ?s'"
    unfolding linked_def find by (auto split: if_splits)
  moreover have "settled_but {} ?s'"
  proof -
    have "lease_settled le" using inv lease by (simp add: lease_inv_def settled_but_def drop)
    then have "lease_settled ?le"
      using blocked
      by (cases "le_queue le"; cases "wanted_mode a i"; cases "le_mode le") (auto simp: lease_settled_def)
    then show ?thesis
      using inv by (auto simp: lease_inv_def settled_but_def lease_simps)
  qed
  ultimately show ?thesis by (simp add: lease_inv_def)
qed

lemma acquire_one_inv:
  assumes inv: "lease_inv (drop_attempt l s)" and some: "find_attempt l s \<noteq> None"
    and l: "at_launch a = l" and ready: "ready_for i a s"
  shows "lease_inv (acquire_one i a s)"
proof (cases "ls_leases s i")
  case None
  let ?le = "\<lparr>le_mode = wanted_mode a i, le_holders = [l], le_queue = []\<rparr>"
  have "lease_inv (update_attempt l (\<lambda>_. a\<lparr>at_pc := Granted i\<rparr>) (set_lease i (Some ?le) s))"
    using None by (intro granted_step [OF inv some l ready])
      (auto simp: lease_settled_def lease_linked_def lease_simps)
  then show ?thesis using None l by (simp add: acquire_one_def Let_def)
next
  case (Some le)
  have linked: "linked (drop_attempt l s)" using inv by (simp add: lease_inv_def)
  have ll: "lease_linked (drop_attempt l s) i le"
    by (rule linkedD(2) [OF linked]) (simp add: Some lease_simps)
  show ?thesis
  proof (cases "wanted_mode a i = Shared \<and> le_mode le = Shared \<and> le_queue le = []")
    case True
    let ?le = "le\<lparr>le_holders := set_add l (le_holders le)\<rparr>"
    have "lease_inv (update_attempt l (\<lambda>_. a\<lparr>at_pc := Granted i\<rparr>) (set_lease i (Some ?le) s))"
      using True ll Some
      by (intro granted_step [OF inv some l ready])
         (auto simp: lease_settled_def lease_linked_def lease_simps set_add_def)
    then show ?thesis using True Some l by (simp add: acquire_one_def Let_def)
  next
    case False
    have "acquire_one i a s = update_attempt l (\<lambda>_. a\<lparr>at_pc := Waiting i, at_notified := True\<rparr>)
           (set_lease i (Some (le\<lparr>le_queue := le_queue le @
              [\<lparr>wt_launch = l, wt_mode = wanted_mode a i\<rparr>]\<rparr>)) s)"
      using Some l unfolding acquire_one_def Let_def by (simp only: if_not_P [OF False] option.simps)
    then show ?thesis using waiting_step [OF inv some l ready Some False] by simp
  qed
qed

section \<open>Every event keeps the invariant\<close>

lemma loop_head_inv:
  assumes inv: "lease_inv (drop_attempt (at_launch a) s)" and some: "find_attempt (at_launch a) s \<noteq> None"
    and ready: "\<And>i rest. at_rest a = i # rest \<Longrightarrow> ready_for i (a\<lparr>at_rest := rest\<rparr>) s"
  shows "lease_inv (fst (loop_head a s))"
  using finish_inv [OF inv] acquire_one_inv [of "at_launch a" s "a\<lparr>at_rest := _\<rparr>"] assms
  by (simp add: loop_head_def split: list.split)

lemma resume_ready:
  assumes "lease_inv s" and a: "find_attempt l s = Some a" and pc: "at_pc a = Granted i"
    and rest: "at_rest a = j # rest"
  shows "ready_for j (a\<lparr>at_held := at_held a @ [i], at_rest := rest\<rparr>) s"
proof -
  have linked: "linked s" using assms(1) by (simp add: lease_inv_def)
  have la: "attempt_linked s a" by (rule linkedD(1) [OF linked a])
  have "k \<in> set (at_held a @ [i])"
    if "ls_leases s k = Some le" "at_launch a \<in> set (le_holders le)" for k le
    using linkedD(2) [OF linked that(1)] that(2) a find_attempt_launch [OF a] pc
    by (auto simp: lease_linked_def granted_ids_def)
  then show ?thesis
    using la pc rest
    by (auto simp: ready_for_def attempt_linked_def attempt_form_def granted_ids_def holder_of_def
        wanted_mode_def)
qed

lemma resume_inv:
  assumes inv: "lease_inv s"
  shows "lease_inv (fst (resume_attempt l s))"
proof (cases "find_attempt l s")
  case None
  with inv show ?thesis by (simp add: resume_attempt_def)
next
  case (Some a)
  note l = find_attempt_launch [OF Some]
  show ?thesis
  proof (cases "at_pc a")
    case (Waiting i)
    with Some inv show ?thesis by (simp add: resume_attempt_def)
  next
    case (Aborted i)
    have "lease_inv (drop_attempt l s)"
      using Some Aborted by (intro drop_inv [OF inv]) auto
    with Some Aborted show ?thesis using finish_inv [of a s] l by (simp add: resume_attempt_def)
  next
    case (Granted i)
    have "lease_inv (drop_attempt l s)"
      using Some Granted by (intro drop_inv [OF inv]) auto
    then have "lease_inv (fst (loop_head (a\<lparr>at_held := at_held a @ [i]\<rparr>) s))"
      using resume_ready [OF inv Some Granted] Some l
      by (intro loop_head_inv) simp_all
    with Some Granted show ?thesis by (simp add: resume_attempt_def)
  qed
qed

text \<open>A launch id not seen in any lease and not acquiring.\<close>

definition fresh_launch :: "string \<Rightarrow> lease_state \<Rightarrow> bool" where
  "fresh_launch l s \<longleftrightarrow>
     find_attempt l s = None \<and> (\<forall>i le. ls_leases s i = Some le \<longrightarrow> l \<notin> set (le_holders le))"

lemma find_append:
  "find_attempt l (s\<lparr>ls_acquiring := ls_acquiring s @ [a]\<rparr>) =
     (case find_attempt l s of Some b \<Rightarrow> Some b | None \<Rightarrow> if at_launch a = l then Some a else None)"
proof -
  have "find P (xs @ [x]) = (case find P xs of Some b \<Rightarrow> Some b | None \<Rightarrow> if P x then Some x else None)"
    for P :: "attempt \<Rightarrow> bool" and xs x
    by (induction xs) auto
  then show ?thesis by (simp add: find_attempt_def)
qed

lemma drop_append_fresh:
  "find_attempt l s = None \<Longrightarrow> at_launch a = l \<Longrightarrow>
   drop_attempt l (s\<lparr>ls_acquiring := ls_acquiring s @ [a]\<rparr>) = s"
proof -
  assume none: "find_attempt l s = None" and l: "at_launch a = l"
  have "find (\<lambda>a. at_launch a = l) as = None \<Longrightarrow> filter (\<lambda>a. at_launch a \<noteq> l) as = as" for as
    by (induction as) (auto split: if_splits)
  then have "filter (\<lambda>a. at_launch a \<noteq> l) (ls_acquiring s) = ls_acquiring s"
    using none by (simp add: find_attempt_def)
  with l show "drop_attempt l (s\<lparr>ls_acquiring := ls_acquiring s @ [a]\<rparr>) = s"
    by (simp add: drop_attempt_def)
qed

lemma strict_sort_remdups: "sorted_wrt (<) (sort (remdups (xs :: string list)))"
  by (simp add: strict_sorted_iff)

lemma start_inv:
  assumes inv: "lease_inv s" and fresh: "fresh_launch l s"
  shows "lease_inv (fst (start_attempt run l xs ys s))"
proof -
  let ?ids = "sort (remdups (xs @ ys))"
  let ?a = "\<lparr>at_run = run, at_launch = l, at_ids = ?ids, at_exclusive = xs, at_cancelled = False,
    at_notified = False, at_pc = Granted [], at_held = [], at_rest = ?ids\<rparr>"
  let ?s = "s\<lparr>ls_acquiring := ls_acquiring s @ [?a]\<rparr>"
  have none: "find_attempt l s = None" using fresh by (simp add: fresh_launch_def)
  have "lease_inv (fst (loop_head ?a ?s))"
  proof (rule loop_head_inv)
    show "lease_inv (drop_attempt (at_launch ?a) ?s)"
      using inv drop_append_fresh [OF none, of ?a] by simp
    show "find_attempt (at_launch ?a) ?s \<noteq> None" by (simp add: find_append none)
    show "ready_for i (?a\<lparr>at_rest := rest\<rparr>) ?s" if "at_rest ?a = i # rest" for i rest
    proof -
      have ids: "?ids = i # rest" using that by simp
      have "sorted_wrt (<) (i # rest)" using strict_sort_remdups [of "xs @ ys"] ids by metis
      then show ?thesis using fresh ids by (auto simp: ready_for_def fresh_launch_def)
    qed
  qed
  then show ?thesis by (simp add: start_attempt_def Let_def)
qed

lemma try_acquire_inv:
  assumes inv: "lease_inv s" and h: "find_attempt h s = None"
  shows "lease_inv (snd (try_acquire_lease key h s))"
proof (cases "is_lease_busy key s")
  case True
  with inv show ?thesis by (simp add: try_acquire_lease_def)
next
  case False
  let ?le = "\<lparr>le_mode = Exclusive, le_holders = [h], le_queue = []\<rparr>"
  have linked: "linked s" using inv by (simp add: lease_inv_def)
  have "linked (set_lease key (Some ?le) s)"
    using False h by (intro linked_set_lease [OF linked]) (auto simp: is_lease_busy_def lease_linked_def)
  then show ?thesis
    using False inv
    by (auto simp: try_acquire_lease_def lease_inv_def settled_but_def lease_simps lease_settled_def)
qed

section \<open>Cancelling\<close>

lemma linked_flag:
  assumes linked: "linked s" and f: "\<And>a. at_launch a = l \<Longrightarrow> at_launch (f a) = l"
    and same: "\<And>a i. find_attempt l s = Some a \<Longrightarrow> attempt_form a \<Longrightarrow> attempt_form (f a) \<and>
      at_pc (f a) = at_pc a \<and> at_held (f a) = at_held a \<and> wanted_mode (f a) i = wanted_mode a i"
  shows "linked (update_attempt l f s)"
  unfolding linked_def
proof (intro conjI allI impI)
  fix l' b assume b: "find_attempt l' (update_attempt l f s) = Some b"
  show "attempt_linked (update_attempt l f s) b"
  proof (cases "l' = l")
    case True
    then obtain a where a: "find_attempt l s = Some a" "b = f a"
      using b f by (auto simp: find_update_attempt)
    have la: "attempt_linked s a" by (rule linkedD(1) [OF linked a(1)])
    then have "attempt_form a" by (simp add: attempt_linked_def)
    note eq = same [OF a(1) this]
    have "granted_ids b = granted_ids a" using eq by (simp add: granted_ids_def a(2))
    then show ?thesis
      using la eq f find_attempt_launch [OF a(1)] a(2)
      by (simp add: attempt_linked_def holder_of_def lease_simps)
  next
    case False
    then have "find_attempt l' s = Some b" using b f by (simp add: find_update_attempt)
    from linkedD(1) [OF linked this] show ?thesis
      by (simp add: attempt_linked_def holder_of_def lease_simps)
  qed
next
  fix i le assume "ls_leases (update_attempt l f s) i = Some le"
  then have lease: "ls_leases s i = Some le" by (simp add: lease_simps)
  have form: "find_attempt l s = Some a \<Longrightarrow> attempt_form a" for a
    using linkedD(1) [OF linked] by (auto simp: attempt_linked_def)
  have gr: "find_attempt l s = Some a \<Longrightarrow> granted_ids (f a) = granted_ids a" for a
    using same [of a] form [of a] by (simp add: granted_ids_def)
  have "\<exists>a. find_attempt (wt_launch w) (update_attempt l f s) = Some a \<and>
      at_pc a = Waiting i \<and> wt_mode w = wanted_mode a i" if w: "w \<in> set (le_queue le)" for w
  proof -
    obtain a where "find_attempt (wt_launch w) s = Some a" "at_pc a = Waiting i"
        "wt_mode w = wanted_mode a i"
      using waiterD [OF linked lease w] by blast
    then show ?thesis using same [of a i] form f by (auto simp: find_update_attempt)
  qed
  moreover have "i \<in> set (granted_ids b)"
    if "h \<in> set (le_holders le)" "find_attempt h (update_attempt l f s) = Some b" for h b
    using linkedD(2) [OF linked lease] that f gr
    by (auto simp: lease_linked_def find_update_attempt split: if_splits)
  ultimately show "lease_linked (update_attempt l f s) i le"
    using linkedD(2) [OF linked lease] by (simp add: lease_linked_def)
qed

lemma cancel_unlinks:
  assumes linked: "linked s" and a: "find_attempt l s = Some a" and pc: "at_pc a = Waiting i"
    and lease: "ls_leases s i = Some le"
  shows "linked (set_lease i (Some (le\<lparr>le_queue := filter (\<lambda>w. wt_launch w \<noteq> l) (le_queue le)\<rparr>))
           (update_attempt l (\<lambda>a. a\<lparr>at_cancelled := True, at_pc := Aborted i\<rparr>) s))"
    (is "linked (set_lease i (Some ?le) (update_attempt l ?f s))")
proof -
  let ?s = "set_lease i (Some ?le) (update_attempt l ?f s)"
  note la = linkedD(1) [OF linked a]
  have find: "find_attempt l' ?s = (if l' = l then Some (?f a) else find_attempt l' s)" for l'
    using a by (simp add: lease_simps find_update_attempt)
  have holder: "holder_of j b s \<Longrightarrow> holder_of j b ?s" for j b
    using lease by (auto simp: holder_of_def lease_simps)
  have "attempt_linked ?s (?f a)"
  proof -
    have "attempt_form (?f a)"
      using la pc by (cases a) (auto simp: attempt_linked_def attempt_form_def)
    moreover have "holder_of j (?f a) ?s" if "j \<in> set (at_held a)" for j
    proof -
      have "holder_of j a s" using la that by (simp add: attempt_linked_def granted_ids_def)
      from holder [OF this] show ?thesis by (simp add: holder_of_def wanted_mode_def)
    qed
    ultimately show ?thesis by (simp add: attempt_linked_def granted_ids_def)
  qed
  moreover have "attempt_linked ?s b" if "l' \<noteq> l" "find_attempt l' s = Some b" for l' b
  proof (rule attempt_linked_cong [OF linkedD(1) [OF linked that(2)]])
    show "holder_of j b ?s" if "holder_of j b s" for j using that by (rule holder)
  qed (use lease that find_attempt_launch [OF that(2)] in \<open>auto simp: lease_simps\<close>)
  moreover have "lease_linked ?s j le'" if new: "ls_leases ?s j = Some le'" for j le'
  proof -
    obtain le0 where le0: "ls_leases s j = Some le0" "le_holders le' = le_holders le0"
        "le_mode le' = le_mode le0"
        "le_queue le' = (if j = i then filter (\<lambda>w. wt_launch w \<noteq> l) (le_queue le0) else le_queue le0)"
      using new lease by (auto simp: lease_simps split: if_splits)
    note ll = linkedD(2) [OF linked le0(1)]
    have "\<exists>b. find_attempt (wt_launch w) ?s = Some b \<and> at_pc b = Waiting j \<and>
        wt_mode w = wanted_mode b j" if w: "w \<in> set (le_queue le')" for w
    proof -
      have "w \<in> set (le_queue le0)" using w by (auto simp: le0(4) split: if_splits)
      from waiterD [OF linked le0(1) this] show ?thesis
        using w a pc by (auto simp: find le0(4) split: if_splits)
    qed
    moreover have "j \<in> set (granted_ids b)"
      if "h \<in> set (le_holders le')" "find_attempt h ?s = Some b" for h b
      using that ll le0(2) a pc
      by (auto simp: find lease_linked_def granted_ids_def split: if_splits)
    moreover have "distinct (map wt_launch (le_queue le'))"
      using ll by (simp add: le0(4) lease_linked_def distinct_map_filter)
    ultimately show ?thesis using ll by (simp add: lease_linked_def le0(2,3))
  qed
  ultimately show ?thesis unfolding linked_def find by (auto split: if_splits)
qed

lemma cancel_one_inv:
  assumes inv: "lease_inv s"
  shows "lease_inv (cancel_one l s)"
proof (cases "find_attempt l s")
  case None
  with inv show ?thesis by (simp add: cancel_one_def)
next
  case (Some a)
  have linked: "linked s" using inv by (simp add: lease_inv_def)
  note la = linkedD(1) [OF linked Some]
  have flag: "lease_inv (update_attempt l (\<lambda>a. a\<lparr>at_cancelled := True\<rparr>) s)"
  proof -
    have "attempt_form a \<Longrightarrow> attempt_form (a\<lparr>at_cancelled := True\<rparr>)" for a
      by (cases a) (auto simp: attempt_form_def)
    then have "linked (update_attempt l (\<lambda>a. a\<lparr>at_cancelled := True\<rparr>) s)"
      by (intro linked_flag [OF linked]) (simp_all add: wanted_mode_def)
    then show ?thesis using inv by (simp add: lease_inv_def settled_but_def lease_simps)
  qed
  show ?thesis
  proof (cases "at_pc a")
    case (Waiting i)
    obtain le where lease: "ls_leases s i = Some le"
        and w: "\<lparr>wt_launch = at_launch a, wt_mode = wanted_mode a i\<rparr> \<in> set (le_queue le)"
      using la Waiting by (auto simp: attempt_linked_def)
    let ?le = "le\<lparr>le_queue := filter (\<lambda>w. wt_launch w \<noteq> l) (le_queue le)\<rparr>"
    let ?s = "set_lease i (Some ?le)
        (update_attempt l (\<lambda>a. a\<lparr>at_cancelled := True, at_pc := Aborted i\<rparr>) s)"
    have linked': "linked ?s" by (rule cancel_unlinks [OF linked Some Waiting lease])
    have but: "settled_but {i} ?s"
      using inv by (auto simp: lease_inv_def settled_but_def lease_simps)
    have eq: "cancel_one l s = (if map wt_launch (take 1 (le_queue le)) = [l] then admit_waiting i ?s
        else ?s)"
      using Some Waiting lease by (simp add: cancel_one_def Let_def lease_simps)
    show ?thesis
    proof (cases "map wt_launch (take 1 (le_queue le)) = [l]")
      case True
      then show ?thesis unfolding eq using admit_inv [OF linked' but] by simp
    next
      case False
      then obtain w' q where q: "le_queue le = w' # q" "wt_launch w' \<noteq> l"
        using w by (cases "le_queue le") auto
      have "lease_settled le" using inv lease by (simp add: lease_inv_def settled_but_def)
      then have "lease_settled ?le" using q by (simp add: lease_settled_def)
      then have "settled_but {} ?s"
        using inv by (auto simp: lease_inv_def settled_but_def lease_simps)
      then show ?thesis unfolding eq using False linked' by (simp add: lease_inv_def)
    qed
  next
    case (Granted i)
    with Some flag show ?thesis by (simp add: cancel_one_def)
  next
    case (Aborted i)
    with Some flag show ?thesis by (simp add: cancel_one_def)
  qed
qed

lemma cancels_inv: "lease_inv s \<Longrightarrow> lease_inv (fold cancel_one ls s)"
  by (induction ls arbitrary: s) (simp_all add: cancel_one_inv)

section \<open>Arrival order\<close>

definition queued :: "string \<Rightarrow> lease_state \<Rightarrow> string list" where
  "queued i s = (case ls_leases s i of None \<Rightarrow> [] | Some le \<Rightarrow> map wt_launch (le_queue le))"

definition holds_lease :: "string \<Rightarrow> string \<Rightarrow> lease_state \<Rightarrow> bool" where
  "holds_lease l i s \<longleftrightarrow> (\<exists>le. ls_leases s i = Some le \<and> l \<in> set (le_holders le))"

definition before :: "'a list \<Rightarrow> 'a \<Rightarrow> 'a \<Rightarrow> bool" where
  "before xs x y \<longleftrightarrow> (\<exists>us vs. xs = us @ vs \<and> x \<in> set us \<and> y \<in> set vs)"

text \<open>\<open>x\<close> still waits ahead of \<open>y\<close>, or \<open>x\<close> waits no more, or \<open>y\<close> gave up.\<close>

definition in_order :: "string \<Rightarrow> string \<Rightarrow> string \<Rightarrow> lease_state \<Rightarrow> bool" where
  "in_order i x y s \<longleftrightarrow>
     before (queued i s) x y \<or> x \<notin> set (queued i s) \<or> (y \<notin> set (queued i s) \<and> \<not> holds_lease y i s)"

lemma before_append: "before xs x y \<Longrightarrow> before (xs @ ys) x y"
  unfolding before_def by (metis append.assoc Un_iff set_append)

lemma before_filter: "before xs x y \<Longrightarrow> P x \<Longrightarrow> P y \<Longrightarrow> before (filter P xs) x y"
  unfolding before_def by (metis (mono_tags, lifting) filter_append mem_Collect_eq set_filter)

lemma before_in: "before xs x y \<Longrightarrow> x \<in> set xs" "before xs x y \<Longrightarrow> y \<in> set xs"
  by (auto simp: before_def)

lemma before_suffix:
  assumes "before (ws @ q) x y" and "x \<notin> set ws"
  shows "before q x y"
proof -
  obtain us vs where uv: "ws @ q = us @ vs" "x \<in> set us" "y \<in> set vs"
    using assms(1) by (auto simp: before_def)
  then obtain zs where "us = ws @ zs \<and> q = zs @ vs \<or> ws = us @ zs \<and> zs @ q = vs"
    by (auto simp: append_eq_append_conv2)
  then show ?thesis using uv(2,3) assms(2) unfolding before_def by fastforce
qed

lemma admit_in_order:
  assumes linked: "linked s" and ord: "in_order i x y s"
  shows "in_order i x y (admit_waiting j s)"
proof (cases "ls_leases s j")
  case None
  with ord show ?thesis by (simp add: admit_waiting_def)
next
  case (Some le)
  obtain m hs q g where run: "admit_queue (le_mode le) (le_holders le) (le_queue le) = (m, hs, q, g)"
    by (metis prod_cases4)
  have dist: "distinct (map wt_launch (le_queue le))"
    using linkedD(2) [OF linked Some] by (simp add: lease_linked_def)
  then obtain ws where ws: "le_queue le = ws @ q" "g = map wt_launch ws" "hs = le_holders le @ g"
    using admit_queue_prefix [OF run] queue_not_holder [OF linked Some] by blast
  note after = admit_waiting_eq [OF Some run]
  show ?thesis
  proof (cases "i = j")
    case False
    then have "queued i (admit_waiting j s) = queued i s"
      "holds_lease y i (admit_waiting j s) = holds_lease y i s"
      by (simp_all add: queued_def holds_lease_def after lease_simps)
    with ord show ?thesis by (simp add: in_order_def)
  next
    case True
    have q: "queued i s = map wt_launch ws @ map wt_launch q"
      "queued i (admit_waiting j s) = map wt_launch q"
      using True Some ws(1) by (auto simp: queued_def after lease_simps admitted_lease_def)
    have h: "holds_lease y i (admit_waiting j s) \<longleftrightarrow> holds_lease y i s \<or> y \<in> set g"
      using True Some ws(3)
      by (auto simp: holds_lease_def after lease_simps admitted_lease_def)
    show ?thesis
    proof (cases "x \<in> set (map wt_launch ws)")
      case True
      then have "x \<notin> set (map wt_launch q)" using dist ws(1) by auto
      then show ?thesis by (simp add: in_order_def q)
    next
      case False
      then show ?thesis
        using ord before_suffix [of "map wt_launch ws" "map wt_launch q" x y] ws(2)
        by (auto simp: in_order_def q h)
    qed
  qed
qed

lemma release_linked:
  assumes "linked s" and "ls_leases s i = Some le" and "find_attempt l s = None"
  shows "linked (set_lease i (Some (le\<lparr>le_holders := filter (\<lambda>h. h \<noteq> l) (le_holders le)\<rparr>)) s)"
proof (rule linked_set_lease [OF assms(1)])
  have "length (filter (\<lambda>h. h \<noteq> l) (le_holders le)) \<le> length (le_holders le)" by simp
  then show "lease_linked s i (le\<lparr>le_holders := filter (\<lambda>h. h \<noteq> l) (le_holders le)\<rparr>)"
    using linkedD(2) [OF assms(1,2)] by (auto simp: lease_linked_def simp del: length_filter_le)
qed (use assms in auto)

lemma release_one_in_order:
  assumes "linked s" and "find_attempt l s = None" and "in_order i x y s"
  shows "in_order i x y (release_one l j s)"
proof (cases "ls_leases s j")
  case None
  with assms show ?thesis by (simp add: release_one_def)
next
  case (Some le)
  let ?s = "set_lease j (Some (le\<lparr>le_holders := filter (\<lambda>h. h \<noteq> l) (le_holders le)\<rparr>)) s"
  have "in_order i x y ?s"
    using assms(3) Some by (auto simp: in_order_def queued_def holds_lease_def lease_simps)
  then have "in_order i x y (admit_waiting j ?s)"
    by (rule admit_in_order [OF release_linked [OF assms(1) Some assms(2)]])
  with Some assms(3) show ?thesis by (simp add: release_one_def)
qed

lemma release_in_order:
  "lease_inv s \<Longrightarrow> find_attempt l s = None \<Longrightarrow> in_order i x y s \<Longrightarrow>
   in_order i x y (release_location_leases ids l s)"
proof (induction ids arbitrary: s)
  case Nil
  then show ?case by (simp add: release_location_leases_def)
next
  case (Cons j ids)
  have "in_order i x y (release_one l j s)"
    using Cons.prems by (intro release_one_in_order) (simp_all add: lease_inv_def)
  moreover have "find_attempt l (release_one l j s) = None"
    using Cons.prems(2) find_release_None [of l s "[j]" l] by (simp add: release_location_leases_def)
  ultimately show ?case
    using Cons.IH [OF release_one_inv [OF Cons.prems(1,2), of j]]
    by (simp add: release_location_leases_def)
qed

lemma cancel_one_in_order:
  assumes inv: "lease_inv s" and ord: "in_order i x y s"
  shows "in_order i x y (cancel_one l s)"
proof (cases "find_attempt l s")
  case None
  with ord show ?thesis by (simp add: cancel_one_def)
next
  case (Some a)
  have linked: "linked s" using inv by (simp add: lease_inv_def)
  have flag: "in_order i x y (update_attempt l f s)" for f
    using ord by (simp add: in_order_def queued_def holds_lease_def lease_simps)
  show ?thesis
  proof (cases "at_pc a")
    case (Waiting j)
    obtain le where lease: "ls_leases s j = Some le"
      using linkedD(1) [OF linked Some] Waiting by (auto simp: attempt_linked_def)
    let ?le = "le\<lparr>le_queue := filter (\<lambda>w. wt_launch w \<noteq> l) (le_queue le)\<rparr>"
    let ?s = "set_lease j (Some ?le)
        (update_attempt l (\<lambda>a. a\<lparr>at_cancelled := True, at_pc := Aborted j\<rparr>) s)"
    have q: "queued i ?s = (if i = j then filter (\<lambda>h. h \<noteq> l) (queued i s) else queued i s)"
      using lease by (simp add: queued_def lease_simps filter_map comp_def)
    have h: "holds_lease z k ?s = holds_lease z k s" for z k
      using lease by (auto simp: holds_lease_def lease_simps)
    have not_holder: "y \<in> set (queued i s) \<Longrightarrow> \<not> holds_lease y i s"
      using queue_not_holder [OF linked]
      by (auto simp: queued_def holds_lease_def split: option.splits)
    have "in_order i x y ?s"
      using ord before_filter [of "queued i s" x y "\<lambda>h. h \<noteq> l"] not_holder before_in [of "queued i s" x y]
      by (cases "x = l"; cases "y = l") (auto simp: in_order_def q h)
    then show ?thesis
      using admit_in_order [OF cancel_unlinks [OF linked Some Waiting lease]] Some Waiting lease
      by (simp add: cancel_one_def Let_def lease_simps)
  next
    case (Granted j)
    with Some flag show ?thesis by (simp add: cancel_one_def)
  next
    case (Aborted j)
    with Some flag show ?thesis by (simp add: cancel_one_def)
  qed
qed

lemma cancels_in_order:
  "lease_inv s \<Longrightarrow> in_order i x y s \<Longrightarrow> in_order i x y (fold cancel_one ls s)"
  by (induction ls arbitrary: s) (simp_all add: cancel_one_inv cancel_one_in_order)

lemma acquire_before:
  "before (queued i s) x y \<Longrightarrow> before (queued i (acquire_one j a s)) x y"
  by (auto simp: acquire_one_def Let_def queued_def lease_simps before_append
      split: option.splits if_splits)

section \<open>Runs of the daemon\<close>

text \<open>
  One event is one synchronous piece of JavaScript. The guards are what the callers in
  \<open>execution.ts\<close>, \<open>taskMerge.ts\<close> and \<open>taskWorktree.ts\<close> keep to: launch ids are not reused while
  in use, a release comes after the acquisition, and the holder of a try-lease is no launch attempt.
\<close>

datatype lease_event =
    Start string string "string list" "string list"
  | Resume string
  | Release "string list" string
  | TryTake string string
  | CancelWaits string "string option"
  | CancelAll

fun lease_exec :: "lease_event \<Rightarrow> lease_state \<Rightarrow> lease_state \<times> lease_outcome option" where
  "lease_exec (Start run l xs ys) s = start_attempt run l xs ys s"
| "lease_exec (Resume l) s = resume_attempt l s"
| "lease_exec (Release ids l) s = (release_location_leases ids l s, None)"
| "lease_exec (TryTake key h) s = (snd (try_acquire_lease key h s), None)"
| "lease_exec (CancelWaits run lo) s = (snd (cancel_lease_waits run lo s), None)"
| "lease_exec CancelAll s = (cancel_all_lease_waits s, None)"

inductive lease_step :: "lease_state \<Rightarrow> lease_event \<Rightarrow> lease_outcome option \<Rightarrow> lease_state \<Rightarrow> bool" where
  start: "fresh_launch l s \<Longrightarrow> lease_exec (Start run l xs ys) s = (s', r) \<Longrightarrow>
    lease_step s (Start run l xs ys) r s'"
| resume: "lease_exec (Resume l) s = (s', r) \<Longrightarrow> lease_step s (Resume l) r s'"
| release: "find_attempt l s = None \<Longrightarrow> lease_exec (Release ids l) s = (s', r) \<Longrightarrow>
    lease_step s (Release ids l) r s'"
| try_take: "find_attempt h s = None \<Longrightarrow> lease_exec (TryTake key h) s = (s', r) \<Longrightarrow>
    lease_step s (TryTake key h) r s'"
| cancel_waits: "lease_exec (CancelWaits run lo) s = (s', r) \<Longrightarrow>
    lease_step s (CancelWaits run lo) r s'"
| cancel_all: "lease_exec CancelAll s = (s', r) \<Longrightarrow> lease_step s CancelAll r s'"

inductive_cases lease_stepE: "lease_step s e r s'"
lemmas lease_step_cases =
  lease_stepE [consumes 1, case_names start resume release try_take cancel_waits cancel_all]
inductive_cases resume_stepE: "lease_step s (Resume l) r s'"

definition no_leases :: lease_state where
  "no_leases = \<lparr>ls_leases = Map.empty, ls_acquiring = []\<rparr>"

inductive lease_reach :: "lease_state \<Rightarrow> bool" where
  init: "lease_reach no_leases"
| step: "lease_reach s \<Longrightarrow> lease_step s e r s' \<Longrightarrow> lease_reach s'"

lemma no_leases_inv: "lease_inv no_leases"
  by (simp add: no_leases_def lease_inv_def linked_def settled_but_def find_attempt_def)

lemma lease_step_inv:
  assumes "lease_step s e r s'" and "lease_inv s"
  shows "lease_inv s'"
  using assms(1)
proof (cases rule: lease_step_cases)
  case (start l run xs ys)
  then show ?thesis using start_inv [OF assms(2), of l run xs ys] by simp
next
  case (resume l)
  then show ?thesis using resume_inv [OF assms(2), of l] by simp
next
  case (release l ids)
  then show ?thesis using release_inv [OF assms(2)] by auto
next
  case (try_take h key)
  then show ?thesis using try_acquire_inv [OF assms(2)] by auto
next
  case (cancel_waits run lo)
  then show ?thesis using cancels_inv [OF assms(2)] by (auto simp: cancel_lease_waits_def Let_def)
next
  case cancel_all
  then show ?thesis using cancels_inv [OF assms(2)] by (auto simp: cancel_all_lease_waits_def)
qed

lemma lease_reach_inv: "lease_reach s \<Longrightarrow> lease_inv s"
  by (induction rule: lease_reach.induct) (auto simp: no_leases_inv intro: lease_step_inv)

lemma drop_in_order: "in_order i x y (drop_attempt l s) = in_order i x y s"
  by (simp add: in_order_def queued_def holds_lease_def lease_simps)

lemma finish_in_order:
  assumes inv: "lease_inv (drop_attempt (at_launch a) s)" and ord: "in_order i x y s"
  shows "in_order i x y (fst (finish_attempt a s))"
  using release_in_order [OF inv, of "at_launch a" i x y "at_held a"] ord
  by (simp add: finish_attempt_def drop_release drop_in_order lease_simps)

lemma loop_head_in_order:
  assumes "lease_inv (drop_attempt (at_launch a) s)" and "before (queued i s) x y"
  shows "in_order i x y (fst (loop_head a s))"
proof -
  have "in_order i x y s" using assms(2) by (simp add: in_order_def)
  then show ?thesis
    using finish_in_order [OF assms(1), of i x y] acquire_before [OF assms(2)]
    by (auto simp: loop_head_def in_order_def split: list.split)
qed

lemma queued_append [simp]: "queued i (s\<lparr>ls_acquiring := as\<rparr>) = queued i s"
  by (simp add: queued_def)

lemma lease_step_in_order:
  assumes "lease_step s e r s'" and inv: "lease_inv s" and before: "before (queued i s) x y"
  shows "in_order i x y s'"
  using assms(1)
proof (cases rule: lease_step_cases)
  case (start l run xs ys)
  let ?ids = "sort (remdups (xs @ ys))"
  let ?a = "\<lparr>at_run = run, at_launch = l, at_ids = ?ids, at_exclusive = xs, at_cancelled = False,
    at_notified = False, at_pc = Granted [], at_held = [], at_rest = ?ids\<rparr>"
  have "find_attempt l s = None" using start by (simp add: fresh_launch_def)
  then have "lease_inv (drop_attempt (at_launch ?a) (s\<lparr>ls_acquiring := ls_acquiring s @ [?a]\<rparr>))"
    using inv drop_append_fresh [of l s ?a] by simp
  from loop_head_in_order [OF this, of i x y] show ?thesis
    using before start by (simp add: start_attempt_def Let_def)
next
  case (resume l)
  show ?thesis
  proof (cases "find_attempt l s")
    case None
    then show ?thesis using resume before by (auto simp: resume_attempt_def in_order_def)
  next
    case (Some a)
    note l = find_attempt_launch [OF Some]
    have drop: "lease_inv (drop_attempt l s)" if "\<And>i. at_pc a \<noteq> Waiting i"
      using that Some by (intro drop_inv [OF inv]) auto
    show ?thesis
    proof (cases "at_pc a")
      case (Waiting j)
      with Some show ?thesis using resume before by (auto simp: resume_attempt_def in_order_def)
    next
      case (Aborted j)
      with Some l show ?thesis
        using resume finish_in_order [of a s i x y] drop before
        by (simp add: resume_attempt_def in_order_def)
    next
      case (Granted j)
      with Some l show ?thesis
        using resume loop_head_in_order [of "a\<lparr>at_held := at_held a @ [j]\<rparr>" s i x y] drop before
        by (simp add: resume_attempt_def)
    qed
  qed
next
  case (release l ids)
  then show ?thesis
    using release_in_order [OF inv, of l i x y ids] before by (simp add: in_order_def)
next
  case (try_take h key)
  then show ?thesis
    using before by (auto simp: try_acquire_lease_def is_lease_busy_def in_order_def queued_def
        lease_simps split: if_splits)
next
  case (cancel_waits run lo)
  then show ?thesis
    using cancels_in_order [OF inv] before
    by (auto simp: cancel_lease_waits_def Let_def in_order_def)
next
  case cancel_all
  then show ?thesis
    using cancels_in_order [OF inv] before by (auto simp: cancel_all_lease_waits_def in_order_def)
qed

section \<open>What the answers mean\<close>

lemma release_one_holds:
  assumes "linked s" and "find_attempt l s = None"
  shows "holds_lease l j (release_one l i s) \<longleftrightarrow> holds_lease l j s \<and> j \<noteq> i"
proof (cases "ls_leases s i")
  case None
  then show ?thesis by (auto simp: release_one_def holds_lease_def)
next
  case (Some le)
  let ?le = "le\<lparr>le_holders := filter (\<lambda>h. h \<noteq> l) (le_holders le)\<rparr>"
  let ?s = "set_lease i (Some ?le) s"
  have linked: "linked ?s" by (rule release_linked [OF assms(1) Some assms(2)])
  obtain m hs q g where run: "admit_queue (le_mode ?le) (le_holders ?le) (le_queue ?le) = (m, hs, q, g)"
    by (metis prod_cases4)
  have lease: "ls_leases ?s i = Some ?le" by (simp add: lease_simps)
  have "distinct (map wt_launch (le_queue ?le))"
    using linkedD(2) [OF linked lease] by (simp add: lease_linked_def)
  then obtain ws where ws: "le_queue le = ws @ q" "g = map wt_launch ws" "hs = le_holders ?le @ g"
    using admit_queue_prefix [OF run] queue_not_holder [OF linked lease] by auto
  have "l \<notin> set g"
    using waiterD [OF assms(1) Some] assms(2) ws(1,2) by fastforce
  then have "l \<notin> set hs" using ws(3) by simp
  then show ?thesis
    using Some by (auto simp: release_one_def holds_lease_def admit_waiting_eq [OF lease run]
        lease_simps admitted_lease_def split: if_splits)
qed

lemma release_holds:
  "lease_inv s \<Longrightarrow> find_attempt l s = None \<Longrightarrow>
   holds_lease l j (release_location_leases ids l s) \<longleftrightarrow> holds_lease l j s \<and> j \<notin> set ids"
proof (induction ids arbitrary: s)
  case Nil
  then show ?case by (simp add: release_location_leases_def)
next
  case (Cons i ids)
  have "find_attempt l (release_one l i s) = None"
    using Cons.prems(2) find_release_None [of l s "[i]" l] by (simp add: release_location_leases_def)
  then show ?case
    using Cons.IH [OF release_one_inv [OF Cons.prems, of i]] Cons.prems
      release_one_holds [of s l j i]
    by (auto simp: release_location_leases_def lease_inv_def)
qed

lemma holder_of_holds: "holder_of i a s \<Longrightarrow> holds_lease (at_launch a) i s"
  by (auto simp: holder_of_def holds_lease_def)

lemma queued_attempt:
  assumes "linked s" and "l \<in> set (queued i s)"
  shows "\<exists>a. find_attempt l s = Some a \<and> at_pc a = Waiting i"
proof -
  obtain le where "ls_leases s i = Some le" "l \<in> wt_launch ` set (le_queue le)"
    using assms(2) by (cases "ls_leases s i") (auto simp: queued_def)
  then obtain w where le: "ls_leases s i = Some le" "w \<in> set (le_queue le)" "l = wt_launch w"
    by blast
  from waiterD [OF assms(1) le(1,2)] le(3) show ?thesis by auto
qed

lemma finish_cancelled:
  assumes inv: "lease_inv s" and a: "find_attempt l s = Some a" and pc: "\<And>i. at_pc a \<noteq> Waiting i"
    and held: "at_launch b = l" "\<And>i. i \<in> set (granted_ids a) \<Longrightarrow> i \<in> set (at_held b)"
    and fin: "finish_attempt b s = (s', Some Cancelled)"
  shows "\<not> holds_lease l i s' \<and> l \<notin> set (queued i s')"
proof -
  have drop: "lease_inv (drop_attempt l s)" using a pc by (intro drop_inv [OF inv]) auto
  have s': "s' = release_location_leases (at_held b) l (drop_attempt l s)"
    using fin held(1) by (auto simp: finish_attempt_def drop_release split: if_splits)
  have none: "find_attempt l (drop_attempt l s) = None" by (simp add: lease_simps)
  have "i \<in> set (at_held b)" if h: "holds_lease l i (drop_attempt l s)"
  proof -
    obtain le where "ls_leases s i = Some le" "l \<in> set (le_holders le)"
      using h by (auto simp: holds_lease_def lease_simps)
    then have "i \<in> set (granted_ids a)"
      using inv a by (auto simp: lease_inv_def linked_def lease_linked_def)
    then show ?thesis by (rule held(2))
  qed
  then have "\<not> holds_lease l i s'"
    unfolding s' using release_holds [OF drop none] by blast
  moreover have "linked s'" "find_attempt l s' = None"
    using release_inv [OF drop none] find_release_None [OF none] by (simp_all add: s' lease_inv_def)
  ultimately show ?thesis using queued_attempt by fastforce
qed

lemma resume_acquired:
  assumes inv: "lease_inv s" and a: "find_attempt l s = Some a"
    and run: "resume_attempt l s = (s', Some Acquired)" and i: "i \<in> set (at_ids a)"
  shows "holder_of i a s'"
proof -
  have la: "attempt_linked s a" using inv a by (simp add: lease_inv_def linked_def)
  obtain j where pc: "at_pc a = Granted j"
    using run a la by (cases "at_pc a")
      (auto simp: resume_attempt_def finish_attempt_def attempt_linked_def attempt_form_def)
  have "at_rest a = []" "s' = drop_attempt l s"
    using run a pc find_attempt_launch [OF a]
    by (auto simp: resume_attempt_def loop_head_def finish_attempt_def split: list.splits if_splits)
  moreover have "i \<in> set (granted_ids a)"
    using i la pc \<open>at_rest a = []\<close>
    by (auto simp: attempt_linked_def attempt_form_def granted_ids_def)
  ultimately show ?thesis
    using la by (auto simp: attempt_linked_def holder_of_def lease_simps)
qed

lemma resume_cancelled:
  assumes inv: "lease_inv s" and a: "find_attempt l s = Some a"
    and run: "resume_attempt l s = (s', Some Cancelled)"
  shows "\<not> holds_lease l i s' \<and> l \<notin> set (queued i s')"
proof (cases "at_pc a")
  case (Waiting j)
  with run a show ?thesis by (simp add: resume_attempt_def)
next
  case (Aborted j)
  then have "finish_attempt a s = (s', Some Cancelled)" using run a by (simp add: resume_attempt_def)
  then show ?thesis
    using Aborted find_attempt_launch [OF a]
    by (intro finish_cancelled [OF inv a]) (auto simp: granted_ids_def)
next
  case (Granted j)
  let ?b = "a\<lparr>at_held := at_held a @ [j]\<rparr>"
  have "finish_attempt ?b s = (s', Some Cancelled)"
    using run a Granted
    by (auto simp: resume_attempt_def loop_head_def split: list.splits if_splits)
  then show ?thesis
    using Granted find_attempt_launch [OF a]
    by (intro finish_cancelled [OF inv a]) (auto simp: granted_ids_def)
qed

lemma find_attempt_mem: "find_attempt l s = Some a \<Longrightarrow> a \<in> set (ls_acquiring s)"
  by (auto simp: find_attempt_def find_Some_iff)

lemma waiting_ids_finite: "finite {i. \<exists>l a. find_attempt l s = Some a \<and> at_pc a = Waiting i}"
  (is "finite ?W")
proof (rule finite_subset)
  show "?W \<subseteq> (\<lambda>a. pc_id (at_pc a)) ` set (ls_acquiring s)"
  proof
    fix i assume "i \<in> ?W"
    then obtain l a where a: "find_attempt l s = Some a" "at_pc a = Waiting i" by blast
    then have "i = pc_id (at_pc a)" by simp
    then show "i \<in> (\<lambda>a. pc_id (at_pc a)) ` set (ls_acquiring s)"
      using find_attempt_mem [OF a(1)] by blast
  qed
qed simp

section \<open>Properties\<close>

text \<open>
  C21. Exclusion and no forgotten waiters: in every reachable state a lease has at least one holder,
  one taken exclusively has exactly one, and while somebody waits, the waiter at the front could not
  be let in: it wants the lease exclusively, or an exclusive holder is in.
\<close>

theorem lease_exclusion:
  assumes "lease_reach s" and "ls_leases s i = Some le"
  shows "le_holders le \<noteq> [] \<and> distinct (le_holders le) \<and>
    (le_mode le = Exclusive \<longrightarrow> length (le_holders le) = 1) \<and>
    (\<forall>w q. le_queue le = w # q \<longrightarrow> wt_mode w = Exclusive \<or> le_mode le = Exclusive)"
proof -
  have "lease_inv s" by (rule lease_reach_inv [OF assms(1)])
  then have "lease_settled le" "lease_linked s i le"
    using assms(2) by (auto simp: lease_inv_def settled_but_def linked_def)
  then show ?thesis
    by (cases "le_holders le") (auto simp: lease_settled_def lease_linked_def)
qed

definition two_runs :: lease_state where
  "two_runs = fst (lease_exec (Start ''r2'' ''b'' [''x''] [])
     (fst (lease_exec (Start ''r1'' ''a'' [''x''] []) no_leases)))"

lemma two_runs_reach: "lease_reach two_runs"
proof -
  let ?s1 = "fst (lease_exec (Start ''r1'' ''a'' [''x''] []) no_leases)"
  have s1: "lease_reach ?s1"
  proof (rule lease_reach.step [OF lease_reach.init])
    show "lease_step no_leases (Start ''r1'' ''a'' [''x''] [])
        (snd (lease_exec (Start ''r1'' ''a'' [''x''] []) no_leases)) ?s1"
      by (rule lease_step.start) (simp_all add: fresh_launch_def no_leases_def find_attempt_def)
  qed
  show ?thesis
  proof (rule lease_reach.step [OF s1])
    show "lease_step ?s1 (Start ''r2'' ''b'' [''x''] [])
        (snd (lease_exec (Start ''r2'' ''b'' [''x''] []) ?s1)) two_runs"
      unfolding two_runs_def
      by (rule lease_step.start)
         (auto simp: fresh_launch_def no_leases_def find_attempt_def start_attempt_def Let_def
           loop_head_def acquire_one_def set_lease_def update_attempt_def)
  qed
qed

lemma two_runs_leases:
  "ls_leases two_runs ''x'' = Some \<lparr>le_mode = Exclusive, le_holders = [''a''],
     le_queue = [\<lparr>wt_launch = ''b'', wt_mode = Exclusive\<rparr>]\<rparr>"
  by (simp add: two_runs_def no_leases_def start_attempt_def Let_def loop_head_def acquire_one_def
      set_lease_def update_attempt_def wanted_mode_def)

lemma lease_exclusion_witness:
  "length (le_holders (the (ls_leases two_runs ''x''))) = 1"
  using lease_exclusion [OF two_runs_reach two_runs_leases] two_runs_leases by simp

text \<open>
  C23. What \<open>acquireLocationLeases\<close> answers is true: after "acquired" the attempt holds every lease
  it asked for, in the mode it asked for and alone where that is exclusive; after "cancelled" it
  holds none and waits in no queue.
\<close>

theorem lease_answers:
  assumes "lease_reach s" and "lease_step s (Resume l) (Some r) s'" and "find_attempt l s = Some a"
  shows "case r of
      Acquired \<Rightarrow> (\<forall>i\<in>set (at_ids a). \<exists>le. ls_leases s' i = Some le \<and> l \<in> set (le_holders le) \<and>
        le_mode le = wanted_mode a i \<and> (wanted_mode a i = Exclusive \<longrightarrow> le_holders le = [l]))
    | Cancelled \<Rightarrow> (\<forall>i. \<not> holds_lease l i s' \<and> l \<notin> set (queued i s'))"
proof -
  have inv: "lease_inv s" by (rule lease_reach_inv [OF assms(1)])
  have run: "resume_attempt l s = (s', Some r)"
    using assms(2) by (rule resume_stepE) simp
  show ?thesis
  proof (cases r)
    case Cancelled
    then show ?thesis using resume_cancelled [OF inv assms(3)] run by simp
  next
    case Acquired
    have inv': "lease_inv s'" by (rule lease_step_inv [OF assms(2) inv])
    have "\<exists>le. ls_leases s' i = Some le \<and> l \<in> set (le_holders le) \<and>
        le_mode le = wanted_mode a i \<and> (wanted_mode a i = Exclusive \<longrightarrow> le_holders le = [l])"
      if i: "i \<in> set (at_ids a)" for i
    proof -
      obtain le where le: "ls_leases s' i = Some le" "l \<in> set (le_holders le)"
          "le_mode le = wanted_mode a i"
        using resume_acquired [OF inv assms(3) run [unfolded Acquired] i]
          find_attempt_launch [OF assms(3)] by (auto simp: holder_of_def)
      have "lease_linked s' i le" using inv' le(1) by (simp add: lease_inv_def linked_def)
      then have "le_mode le = Exclusive \<Longrightarrow> le_holders le = [l]"
        using le(2) by (cases "le_holders le") (auto simp: lease_linked_def)
      with le show ?thesis by auto
    qed
    with Acquired show ?thesis by simp
  qed
qed

lemma lease_answers_witness:
  "\<exists>a s'. find_attempt ''a'' two_runs = Some a \<and>
     resume_attempt ''a'' two_runs = (s', Some Acquired) \<and>
     (\<forall>i\<in>set (at_ids a). \<exists>le. ls_leases s' i = Some le \<and> le_holders le = [''a''])"
proof -
  obtain a s' where a: "find_attempt ''a'' two_runs = Some a" "at_exclusive a = [''x'']"
      "at_ids a = [''x'']" and run: "resume_attempt ''a'' two_runs = (s', Some Acquired)"
    by (simp add: two_runs_def no_leases_def start_attempt_def Let_def loop_head_def
        acquire_one_def set_lease_def update_attempt_def wanted_mode_def find_attempt_def
        resume_attempt_def finish_attempt_def)
  have "lease_step two_runs (Resume ''a'') (Some Acquired) s'"
    by (rule lease_step.resume) (simp add: run)
  from lease_answers [OF two_runs_reach this a(1)] a run show ?thesis
    by (auto simp: wanted_mode_def)
qed

text \<open>
  C22. Attempts never block each other for good: in every reachable state with an attempt under way,
  some attempt can continue now, or some lease is held by a run that has finished acquiring. Sorted
  acquisition excludes a cycle of attempts waiting for one another.
\<close>

theorem lease_no_deadlock:
  assumes "lease_reach s" and "find_attempt l s \<noteq> None"
  shows "(\<exists>l a. find_attempt l s = Some a \<and> (\<forall>i. at_pc a \<noteq> Waiting i)) \<or>
    (\<exists>h i. holds_lease h i s \<and> find_attempt h s = None)"
proof (rule ccontr)
  assume stuck: "\<not> ?thesis"
  have inv: "lease_inv s" by (rule lease_reach_inv [OF assms(1)])
  then have linked: "linked s" by (simp add: lease_inv_def)
  let ?W = "{i. \<exists>l a. find_attempt l s = Some a \<and> at_pc a = Waiting i}"
  have "?W \<noteq> {}" using assms(2) stuck by blast
  then obtain i where i: "i \<in> ?W" "\<And>j. j \<in> ?W \<Longrightarrow> j \<le> i"
    using Max_in [OF waiting_ids_finite] Max_ge [OF waiting_ids_finite] by blast
  then obtain l a where a: "find_attempt l s = Some a" "at_pc a = Waiting i" by blast
  then obtain le where le: "ls_leases s i = Some le"
    using linkedD(1) [OF linked a(1)] by (auto simp: attempt_linked_def)
  have "lease_settled le" using inv le by (simp add: lease_inv_def settled_but_def)
  then obtain h where h: "h \<in> set (le_holders le)"
    by (cases "le_holders le") (auto simp: lease_settled_def)
  then have "holds_lease h i s" using le by (auto simp: holds_lease_def)
  then obtain b where "find_attempt h s = Some b"
    using stuck by (cases "find_attempt h s") auto
  then obtain j where b: "find_attempt h s = Some b" "at_pc b = Waiting j"
    using stuck by blast
  have "i \<in> set (at_held b)"
    using linkedD(2) [OF linked le] h b by (auto simp: lease_linked_def granted_ids_def)
  then have "i < j"
    using linkedD(1) [OF linked b(1)] b(2) attempt_form_fresh(3) [of b i]
    by (simp add: attempt_linked_def)
  then show False using i(2) [of j] b by force
qed

lemma lease_no_deadlock_witness:
  "\<exists>l a. find_attempt l two_runs = Some a \<and> (\<forall>i. at_pc a \<noteq> Waiting i) \<or>
     (\<exists>h i. holds_lease h i two_runs \<and> find_attempt h two_runs = None)"
proof -
  have "find_attempt ''b'' two_runs \<noteq> None"
    by (simp add: two_runs_def no_leases_def start_attempt_def Let_def loop_head_def
        acquire_one_def set_lease_def update_attempt_def wanted_mode_def find_attempt_def)
  from lease_no_deadlock [OF two_runs_reach this] show ?thesis by blast
qed

text \<open>
  Nobody is overtaken: whatever event comes next, a launch \<open>x\<close> that waits ahead of \<open>y\<close> still waits
  ahead of it, or waits no more, or \<open>y\<close> gave up without the lease. A reader cannot pass a writer
  that came first.
\<close>

theorem lease_arrival_order:
  assumes "lease_reach s" and "lease_step s e r s'" and "before (queued i s) x y"
  shows "before (queued i s') x y \<or> x \<notin> set (queued i s')
    \<or> (y \<notin> set (queued i s') \<and> \<not> holds_lease y i s')"
  using lease_step_in_order [OF assms(2) lease_reach_inv [OF assms(1)] assms(3)]
  by (simp add: in_order_def)

definition three_runs :: lease_state where
  "three_runs = fst (lease_exec (Start ''r3'' ''c'' [] [''x'']) two_runs)"

lemma three_runs_reach: "lease_reach three_runs"
proof (rule lease_reach.step [OF two_runs_reach])
  show "lease_step two_runs (Start ''r3'' ''c'' [] [''x''])
      (snd (lease_exec (Start ''r3'' ''c'' [] [''x'']) two_runs)) three_runs"
    unfolding three_runs_def
    by (rule lease_step.start)
       (auto simp: two_runs_def fresh_launch_def no_leases_def find_attempt_def start_attempt_def
         Let_def loop_head_def acquire_one_def set_lease_def update_attempt_def wanted_mode_def
         split: if_splits)
qed

lemma three_runs_queue: "queued ''x'' three_runs = [''b'', ''c'']"
  by (simp add: three_runs_def two_runs_def no_leases_def start_attempt_def Let_def loop_head_def
      acquire_one_def set_lease_def update_attempt_def wanted_mode_def queued_def)

lemma lease_arrival_order_witness:
  "before (queued ''x'' (cancel_all_lease_waits three_runs)) ''b'' ''c''
   \<or> ''b'' \<notin> set (queued ''x'' (cancel_all_lease_waits three_runs))
   \<or> \<not> holds_lease ''c'' ''x'' (cancel_all_lease_waits three_runs)"
proof -
  have "lease_step three_runs CancelAll None (cancel_all_lease_waits three_runs)"
    by (rule lease_step.cancel_all) simp
  moreover have "before (queued ''x'' three_runs) ''b'' ''c''"
    unfolding three_runs_queue before_def by (rule exI [of _ "[''b'']"]) simp
  ultimately show ?thesis using lease_arrival_order [OF three_runs_reach] by blast
qed

end
