(* ===== verification/ToolCalls.thy ===== *)
theory ToolCalls
  imports Prelude
begin

text \<open>
  Correlation of the tool calls of an ACP runtime: \<open>server/src/modules/runtimeAdapters/acpToolCallLifecycle.ts\<close>.
  A runtime reports that a tool call started or changed, with its id or without; every report gets a
  correlation id, and an update is told when nothing before it stands for the same call. The
  closure's four variables are a record.
\<close>

section \<open>State\<close>

record tool_calls =
  tc_known :: "string list"
  tc_aliases :: "(string \<times> string) list"
  tc_open :: "(string \<times> string option) list"
  tc_sequence :: nat

definition no_tool_calls :: tool_calls where
  "no_tool_calls = \<lparr>tc_known = [], tc_aliases = [], tc_open = [], tc_sequence = 0\<rparr>"

record tool_observation =
  to_call_id :: string
  to_missing_start :: bool

definition is_terminal_status :: "string option \<Rightarrow> bool" where
  "is_terminal_status status \<longleftrightarrow> status \<in> {Some ''completed'', Some ''failed'', Some ''succeeded''}"

definition anonymous_id :: "nat \<Rightarrow> string" where
  "anonymous_id n = ''rainver:acp:anonymous:'' @ nat_text n"

lemma anonymous_id_inj: "inj anonymous_id"
  using nat_text_inj by (auto simp: anonymous_id_def inj_def)

lemma finite_anonymous: "finite {m. n < m \<and> anonymous_id m \<in> set known}"
  by (rule finite_subset [OF _ finite_vimageI [OF finite_set [of known] anonymous_id_inj]]) auto

text \<open>The loop of \<open>syntheticId\<close>: the next number whose id is not known\<close>

function next_anonymous :: "string list \<Rightarrow> nat \<Rightarrow> nat" where
  "next_anonymous known n =
     (if anonymous_id (Suc n) \<in> set known then next_anonymous known (Suc n) else Suc n)"
  by pat_completeness auto

termination
proof (relation "measure (\<lambda>(known, n). card {m. n < m \<and> anonymous_id m \<in> set known})")
  show "((known, Suc n), known, n) \<in> measure (\<lambda>(known, n). card {m. n < m \<and> anonymous_id m \<in> set known})"
    if "anonymous_id (Suc n) \<in> set known" for known n
    using that finite_anonymous [of n known] by (auto intro!: psubset_card_mono)
qed simp

declare next_anonymous.simps [simp del]

definition synthetic_id :: "tool_calls \<Rightarrow> string \<times> tool_calls" where
  "synthetic_id s =
     (let n = next_anonymous (tc_known s) (tc_sequence s)
      in (anonymous_id n, s\<lparr>tc_sequence := n, tc_known := List.insert (anonymous_id n) (tc_known s)\<rparr>))"

text \<open>The newest open call of that name; else the only one, or the newest where that is allowed\<close>

definition matching_anonymous_call :: "(string \<times> string option) list \<Rightarrow> string option \<Rightarrow> bool \<Rightarrow> nat option" where
  "matching_anonymous_call calls name allow_newest_fallback =
     (case (if given name then find (\<lambda>i. snd (calls ! i) = name) (rev [0..<length calls]) else None) of
        Some i \<Rightarrow> Some i
      | None \<Rightarrow>
          if calls \<noteq> [] \<and> (length calls = 1 \<or> allow_newest_fallback) then Some (length calls - 1) else None)"

definition splice_out :: "nat \<Rightarrow> 'a list \<Rightarrow> 'a list" where
  "splice_out i xs = take i xs @ drop (Suc i) xs"

fun drop_call :: "string \<Rightarrow> (string \<times> string option) list \<Rightarrow> (string \<times> string option) list" where
  "drop_call i [] = []"
| "drop_call i (c # cs) = (if fst c = i then cs else c # drop_call i cs)"

definition close_anonymous_call ::
    "(string \<times> string option) list \<Rightarrow> string \<Rightarrow> string option \<Rightarrow> (string \<times> string option) list" where
  "close_anonymous_call calls i status = (if is_terminal_status status then drop_call i calls else calls)"

definition know :: "string \<Rightarrow> tool_calls \<Rightarrow> tool_calls" where
  "know i s = s\<lparr>tc_known := List.insert i (tc_known s)\<rparr>"

section \<open>Reports\<close>

text \<open>A report of an aliased call, which may close it\<close>

definition report_alias :: "string \<Rightarrow> string option \<Rightarrow> tool_calls \<Rightarrow> tool_observation \<times> tool_calls" where
  "report_alias i status s =
     (\<lparr>to_call_id = i, to_missing_start = False\<rparr>,
      s\<lparr>tc_open := close_anonymous_call (tc_open s) i status\<rparr>)"

text \<open>A call without an id that nothing open stands for: a new one, open unless it has ended already\<close>

definition open_anonymous ::
    "string option \<Rightarrow> string option \<Rightarrow> bool \<Rightarrow> tool_calls \<Rightarrow> tool_observation \<times> tool_calls" where
  "open_anonymous name status missing s =
     (let (i, s') = synthetic_id s
      in (\<lparr>to_call_id = i, to_missing_start = missing\<rparr>,
          if is_terminal_status status then s' else s'\<lparr>tc_open := tc_open s' @ [(i, name)]\<rparr>))"

definition started ::
    "string option \<Rightarrow> string option \<Rightarrow> string option \<Rightarrow> tool_calls \<Rightarrow> tool_observation \<times> tool_calls" where
  "started call_id name status s =
     (if given call_id
      then (let i = the call_id
            in if given (map_of (tc_aliases s) i)
               then report_alias (the (map_of (tc_aliases s) i)) status s
               else (\<lparr>to_call_id = i, to_missing_start = False\<rparr>, know i s))
      else open_anonymous name status False s)"

definition updated ::
    "string option \<Rightarrow> string option \<Rightarrow> string option \<Rightarrow> tool_calls \<Rightarrow> tool_observation \<times> tool_calls" where
  "updated call_id name status s =
     (if given call_id
      then (let i = the call_id
            in if given (map_of (tc_aliases s) i)
               then report_alias (the (map_of (tc_aliases s) i)) status s
               else (case (if i \<in> set (tc_known s) then None
                           else matching_anonymous_call (tc_open s) name False) of
                       Some k \<Rightarrow>
                         (let j = fst (tc_open s ! k);
                              s' = know i (s\<lparr>tc_aliases := AList.update i j (tc_aliases s)\<rparr>)
                          in (\<lparr>to_call_id = j, to_missing_start = False\<rparr>,
                              if is_terminal_status status
                              then s'\<lparr>tc_open := splice_out k (tc_open s')\<rparr> else s'))
                     | None \<Rightarrow>
                         (\<lparr>to_call_id = i, to_missing_start = i \<notin> set (tc_known s)\<rparr>, know i s)))
      else (case matching_anonymous_call (tc_open s) name True of
              None \<Rightarrow> open_anonymous name status True s
            | Some k \<Rightarrow>
                (let (j, n) = tc_open s ! k;
                     calls = (tc_open s)[k := (j, if n = None \<and> given name then name else n)]
                 in (\<lparr>to_call_id = j, to_missing_start = False\<rparr>,
                     s\<lparr>tc_open := if is_terminal_status status then splice_out k calls else calls\<rparr>))))"

text \<open>A stream of reports and what is observed of it\<close>

datatype tool_report =
    is_start: Started (report_id: "string option") (report_name: "string option") (report_status: "string option")
  | Updated (report_id: "string option") (report_name: "string option") (report_status: "string option")

fun tool_step :: "tool_report \<Rightarrow> tool_calls \<Rightarrow> tool_observation \<times> tool_calls" where
  "tool_step (Started i n st) s = started i n st s"
| "tool_step (Updated i n st) s = updated i n st s"

fun observe_from :: "tool_calls \<Rightarrow> tool_report list \<Rightarrow> tool_observation list" where
  "observe_from s [] = []"
| "observe_from s (r # rs) = (let (ob, s') = tool_step r s in ob # observe_from s' rs)"

definition observe :: "tool_report list \<Rightarrow> tool_observation list" where
  "observe rs = observe_from no_tool_calls rs"

section \<open>What a state knows of the reports before it\<close>

text \<open>
  The ids known are those observed and those that stand for another call; what stands for another, and
  what is open, was observed; and a supplied id keeps the call it was first observed as.
\<close>

definition call_of :: "tool_calls \<Rightarrow> string \<Rightarrow> string" where
  "call_of s i = (case map_of (tc_aliases s) i of None \<Rightarrow> i | Some j \<Rightarrow> j)"

definition seen :: "(tool_report \<times> tool_observation) list \<Rightarrow> string set" where
  "seen past = to_call_id ` snd ` set past"

definition supplied :: "(tool_report \<times> tool_observation) list \<Rightarrow> string set" where
  "supplied past = {i. Some i \<in> report_id ` fst ` set past}"

definition open_ids :: "(string \<times> string option) list \<Rightarrow> string set" where
  "open_ids calls = fst ` set calls"

lemma seen_snoc [simp]: "seen (past @ [(r, ob)]) = insert (to_call_id ob) (seen past)"
  by (simp add: seen_def)

lemma supplied_snoc [simp]: "supplied (past @ [(r, ob)]) = set_option (report_id r) \<union> supplied past"
  by (auto simp: supplied_def)

definition calls_inv :: "tool_calls \<Rightarrow> (tool_report \<times> tool_observation) list \<Rightarrow> bool" where
  "calls_inv s past \<longleftrightarrow>
     set (tc_known s) = seen past \<union> dom (map_of (tc_aliases s)) \<and>
     ran (map_of (tc_aliases s)) \<subseteq> seen past \<and> dom (map_of (tc_aliases s)) \<subseteq> supplied past \<and>
     open_ids (tc_open s) \<subseteq> seen past \<and>
     (\<forall>(r, ob)\<in>set past. to_call_id ob \<noteq> [] \<and>
        (given (report_id r) \<longrightarrow> the (report_id r) \<in> set (tc_known s) \<and>
           to_call_id ob = call_of s (the (report_id r))))"

lemma calls_invD:
  assumes "calls_inv s past"
  shows "set (tc_known s) = seen past \<union> dom (map_of (tc_aliases s))"
    and "map_of (tc_aliases s) i = Some j \<Longrightarrow> j \<in> seen past"
    and "c \<in> set (tc_open s) \<Longrightarrow> fst c \<in> seen past"
    and "[] \<notin> seen past"
    and "map_of (tc_aliases s) i = Some j \<Longrightarrow> i \<in> supplied past"
  using assms by (auto simp: calls_inv_def seen_def open_ids_def intro: ranI)

lemma alias_nonempty: "calls_inv s past \<Longrightarrow> map_of (tc_aliases s) i = Some j \<Longrightarrow> j \<noteq> []"
  using calls_invD(2,4) by metis

lemma inv_same_aliases:
  assumes "calls_inv s past" and "j \<noteq> []" and "tc_aliases s' = tc_aliases s"
    and "set (tc_known s') = insert j (set (tc_known s))"
    and "open_ids (tc_open s') \<subseteq> insert j (open_ids (tc_open s))"
    and "given (report_id r) \<Longrightarrow> the (report_id r) \<in> set (tc_known s') \<and> j = call_of s (the (report_id r))"
  shows "calls_inv s' (past @ [(r, \<lparr>to_call_id = j, to_missing_start = m\<rparr>)])"
proof -
  have same: "call_of s' = call_of s"
    by (simp add: call_of_def fun_eq_iff assms(3))
  show ?thesis
    unfolding calls_inv_def seen_snoc assms(3) same using assms(1,2,4-6)
    by (auto simp: calls_inv_def)
qed

lemma inv_new_alias:
  assumes inv: "calls_inv s past" and j: "j \<in> seen past" and i: "i \<notin> set (tc_known s)" "report_id r = Some i"
    and s': "tc_aliases s' = AList.update i j (tc_aliases s)" "set (tc_known s') = insert i (set (tc_known s))"
      "open_ids (tc_open s') \<subseteq> open_ids (tc_open s)"
  shows "calls_inv s' (past @ [(r, \<lparr>to_call_id = j, to_missing_start = m\<rparr>)])"
proof -
  have old: "map_of (tc_aliases s) i = None"
    using calls_invD(1) [OF inv] i by auto
  have "ran (map_of (tc_aliases s')) = insert j (ran (map_of (tc_aliases s)))"
    using old by (simp add: s' update_conv')
  moreover have "call_of s' k = call_of s k" if "k \<in> set (tc_known s)" for k
    using that i by (auto simp: call_of_def s' update_conv')
  moreover have "call_of s' i = j"
    by (simp add: call_of_def s' update_conv')
  moreover have "dom (map_of (tc_aliases s')) = insert i (dom (map_of (tc_aliases s)))"
    by (simp add: s' update_conv')
  moreover have "seen (past @ [(r, \<lparr>to_call_id = j, to_missing_start = m\<rparr>)]) = seen past"
    using j by auto
  moreover have "j \<noteq> []"
    using j calls_invD(4) [OF inv] by metis
  ultimately show ?thesis
    using inv s' i j by (auto simp: calls_inv_def)
qed

lemma splice_subset: "set (splice_out k xs) \<subseteq> set xs"
  by (auto simp: splice_out_def dest: in_set_takeD in_set_dropD)

lemma drop_call_subset: "set (drop_call i cs) \<subseteq> set cs"
  by (induction cs) auto

lemma close_subset: "set (close_anonymous_call cs i st) \<subseteq> set cs"
  using drop_call_subset by (auto simp: close_anonymous_call_def)

lemma matching_in_range: "matching_anonymous_call cs name a = Some k \<Longrightarrow> k < length cs"
  by (auto simp: matching_anonymous_call_def dest!: find_SomeD split: option.splits if_splits)

lemma next_anonymous_fresh: "anonymous_id (next_anonymous known n) \<notin> set known"
  by (induction known n rule: next_anonymous.induct) (subst next_anonymous.simps, simp)

lemma anonymous_id_nonempty [simp]: "anonymous_id n \<noteq> []"
  by (simp add: anonymous_id_def)

text \<open>What a step observes, next to the invariant it keeps\<close>

definition step_ok :: "(tool_report \<times> tool_observation) list \<Rightarrow> tool_report \<Rightarrow> tool_observation \<times> tool_calls \<Rightarrow> bool" where
  "step_ok past r out \<longleftrightarrow>
     (case out of (ob, s') \<Rightarrow>
        calls_inv s' (past @ [(r, ob)]) \<and> to_call_id ob \<noteq> [] \<and>
        (to_missing_start ob \<longleftrightarrow> \<not> is_start r \<and> to_call_id ob \<notin> seen past) \<and>
        (is_start r \<and> \<not> given (report_id r) \<longrightarrow> to_call_id ob \<notin> seen past) \<and>
        (is_start r \<and> given (report_id r) \<longrightarrow>
           the (report_id r) \<in> supplied past \<or> to_call_id ob = the (report_id r)))"

lemma alias_step:
  assumes inv: "calls_inv s past" and i: "report_id r = Some i" "i \<noteq> []" "map_of (tc_aliases s) i = Some j"
  shows "step_ok past r (report_alias j status s)"
proof -
  have j: "j \<in> seen past" "j \<noteq> []"
    using calls_invD(2) [OF inv] alias_nonempty [OF inv] i(3) by auto
  then have known: "j \<in> set (tc_known s)" "i \<in> set (tc_known s)"
    using calls_invD(1) [OF inv] i(3) by auto
  have "calls_inv (snd (report_alias j status s)) (past @ [(r, fst (report_alias j status s))])"
    unfolding report_alias_def fst_conv snd_conv
    using image_mono [OF close_subset, of fst "tc_open s" j status, folded open_ids_def]
    by (intro inv_same_aliases [OF inv]) (use i j known in \<open>auto simp: call_of_def\<close>)
  then show ?thesis
    using j calls_invD(5) [OF inv i(3)] by (simp add: step_ok_def report_alias_def given_def i)
qed

lemma known_step:
  assumes inv: "calls_inv s past" and i: "report_id r = Some i" "i \<noteq> []" "map_of (tc_aliases s) i = None"
    and m: "m \<longleftrightarrow> \<not> is_start r \<and> i \<notin> set (tc_known s)"
  shows "step_ok past r (\<lparr>to_call_id = i, to_missing_start = m\<rparr>, know i s)"
proof -
  have "calls_inv (know i s) (past @ [(r, \<lparr>to_call_id = i, to_missing_start = m\<rparr>)])"
    by (intro inv_same_aliases [OF inv]) (use i in \<open>auto simp: know_def call_of_def\<close>)
  moreover have "i \<in> set (tc_known s) \<longleftrightarrow> i \<in> seen past"
    using calls_invD(1) [OF inv] i(3) by auto
  ultimately show ?thesis
    using i m by (simp add: step_ok_def given_def)
qed

lemma open_step:
  assumes inv: "calls_inv s past" and "\<not> given (report_id r)" and m: "m \<longleftrightarrow> \<not> is_start r"
  shows "step_ok past r (open_anonymous name status m s)"
proof -
  let ?i = "anonymous_id (next_anonymous (tc_known s) (tc_sequence s))"
  obtain ob s' where out: "open_anonymous name status m s = (ob, s')" by fastforce
  then have ob: "ob = \<lparr>to_call_id = ?i, to_missing_start = m\<rparr>"
    by (auto simp: open_anonymous_def synthetic_id_def Let_def)
  have "calls_inv s' (past @ [(r, ob)])"
    unfolding ob using out assms(2)
    by (intro inv_same_aliases [OF inv])
      (auto simp: open_anonymous_def synthetic_id_def Let_def open_ids_def split: if_splits)
  moreover have "?i \<notin> seen past"
    using next_anonymous_fresh calls_invD(1) [OF inv] by blast
  ultimately show ?thesis
    unfolding step_ok_def out prod.case using m assms(2) by (simp add: ob)
qed

lemma started_step: "calls_inv s past \<Longrightarrow> step_ok past (Started i name status) (started i name status s)"
  using alias_step [where r = "Started i name status"] known_step [where r = "Started i name status" and m = False]
    open_step [where r = "Started i name status" and m = False]
  by (cases i) (auto simp: started_def given_def dest: alias_nonempty split: option.split)

text \<open>An update of a call that is open without an id\<close>

lemma open_call_step:
  assumes inv: "calls_inv s past" and k: "k < length (tc_open s)" and r: "\<not> is_start r" "\<not> given (report_id r)"
    and s': "tc_aliases s' = tc_aliases s" "tc_known s' = tc_known s"
      "open_ids (tc_open s') \<subseteq> open_ids (tc_open s)"
  shows "step_ok past r (\<lparr>to_call_id = fst (tc_open s ! k), to_missing_start = False\<rparr>, s')"
proof -
  have j: "fst (tc_open s ! k) \<in> seen past"
    using calls_invD(3) [OF inv] k by auto
  then have "fst (tc_open s ! k) \<noteq> []" "fst (tc_open s ! k) \<in> set (tc_known s)"
    using calls_invD(1,4) [OF inv] by auto
  moreover from this have "calls_inv s' (past @ [(r, \<lparr>to_call_id = fst (tc_open s ! k), to_missing_start = False\<rparr>)])"
    by (intro inv_same_aliases [OF inv]) (use r s' in auto)
  ultimately show ?thesis
    using j r by (simp add: step_ok_def)
qed

lemma new_alias_step:
  assumes inv: "calls_inv s past" and k: "k < length (tc_open s)"
    and r: "\<not> is_start r" "report_id r = Some i" "i \<noteq> []" "i \<notin> set (tc_known s)"
    and s': "tc_aliases s' = AList.update i (fst (tc_open s ! k)) (tc_aliases s)"
      "set (tc_known s') = insert i (set (tc_known s))" "open_ids (tc_open s') \<subseteq> open_ids (tc_open s)"
  shows "step_ok past r (\<lparr>to_call_id = fst (tc_open s ! k), to_missing_start = False\<rparr>, s')"
proof -
  have j: "fst (tc_open s ! k) \<in> seen past"
    using calls_invD(3) [OF inv] k by auto
  moreover have "fst (tc_open s ! k) \<noteq> []"
    using j calls_invD(4) [OF inv] by metis
  moreover have "calls_inv s' (past @ [(r, \<lparr>to_call_id = fst (tc_open s ! k), to_missing_start = False\<rparr>)])"
    by (rule inv_new_alias [OF inv j r(4,2) s'])
  ultimately show ?thesis
    using r by (simp add: step_ok_def)
qed

lemma updated_step:
  assumes inv: "calls_inv s past"
  shows "step_ok past (Updated i name status) (updated i name status s)"
proof (cases "given i")
  case True
  then obtain x where x: "i = Some x" "x \<noteq> []" by (auto simp: given_def)
  note known = known_step [OF inv, of "Updated i name status" x "x \<notin> set (tc_known s)"]
  show ?thesis
  proof (cases "map_of (tc_aliases s) x")
    case (Some j)
    then show ?thesis
      using alias_step [OF inv, of "Updated i name status" x j status] alias_nonempty [OF inv] x
      by (simp add: updated_def given_def)
  next
    case None
    then show ?thesis
    proof (cases "if x \<in> set (tc_known s) then None else matching_anonymous_call (tc_open s) name False")
      case None
      with \<open>map_of (tc_aliases s) x = None\<close> known x show ?thesis
        by (simp add: updated_def given_def)
    next
      case (Some k)
      then have k: "k < length (tc_open s)" "x \<notin> set (tc_known s)" "matching_anonymous_call (tc_open s) name False = Some k"
        using matching_in_range by (auto split: if_splits)
      have "open_ids (splice_out k (tc_open s)) \<subseteq> open_ids (tc_open s)"
        unfolding open_ids_def by (intro image_mono splice_subset)
      with \<open>map_of (tc_aliases s) x = None\<close> k x show ?thesis
        unfolding updated_def by (auto simp: given_def Let_def know_def intro!: new_alias_step [OF inv])
    qed
  qed
next
  case False
  show ?thesis
  proof (cases "matching_anonymous_call (tc_open s) name True")
    case None
    then show ?thesis
      using open_step [OF inv, of "Updated i name status" True] False by (simp add: updated_def)
  next
    case (Some k)
    have k: "k < length (tc_open s)" using Some by (rule matching_in_range)
    obtain j n where c: "tc_open s ! k = (j, n)" by fastforce
    have "open_ids ((tc_open s)[k := (j, m)]) \<subseteq> open_ids (tc_open s)" for m
      using set_update_subset_insert [of "tc_open s" k "(j, m)"] c k nth_mem [OF k] unfolding open_ids_def by force
    moreover have "open_ids (splice_out k cs) \<subseteq> open_ids cs" for cs :: "(string \<times> string option) list"
      unfolding open_ids_def by (intro image_mono splice_subset)
    ultimately have "open_ids (if is_terminal_status status then splice_out k ((tc_open s)[k := (j, m)])
        else (tc_open s)[k := (j, m)]) \<subseteq> open_ids (tc_open s)" for m
      by (cases "is_terminal_status status") (simp_all, metis order.trans)
    then show ?thesis
      using open_call_step [OF inv k, of "Updated i name status"] Some False
      by (simp add: updated_def Let_def c)
  qed
qed


lemma tool_step_ok: "calls_inv s past \<Longrightarrow> step_ok past r (tool_step r s)"
  by (cases r) (simp_all add: started_step updated_step)

section \<open>What is observed of a stream\<close>

lemma length_observe_from [simp]: "length (observe_from s rs) = length rs"
  by (induction rs arbitrary: s) (auto simp: Let_def split: prod.split)

lemma observe_from_snoc:
  "\<exists>s'. (calls_inv s past \<longrightarrow> calls_inv s' (past @ zip rs (observe_from s rs))) \<and>
        (\<forall>r. observe_from s (rs @ [r]) = observe_from s rs @ [fst (tool_step r s')])"
proof (induction rs arbitrary: s past)
  case Nil
  show ?case by (auto simp: Let_def split: prod.split intro!: exI [of _ s])
next
  case (Cons r rs)
  obtain ob s1 where step: "tool_step r s = (ob, s1)" by fastforce
  obtain s' where s': "calls_inv s1 (past @ [(r, ob)]) \<longrightarrow> calls_inv s' ((past @ [(r, ob)]) @ zip rs (observe_from s1 rs))"
    "\<forall>r. observe_from s1 (rs @ [r]) = observe_from s1 rs @ [fst (tool_step r s')]"
    using Cons.IH by blast
  have "calls_inv s1 (past @ [(r, ob)])" if "calls_inv s past"
    using tool_step_ok [OF that, of r] step by (simp add: step_ok_def)
  then show ?case
    using s' step by (intro exI [of _ s']) simp
qed

text \<open>Every report of a stream is observed in a state that knows the reports before it.\<close>

lemma calls_inv_start: "calls_inv no_tool_calls []"
  by (simp add: calls_inv_def no_tool_calls_def seen_def open_ids_def)

lemma observed_state:
  assumes "k < length rs"
  obtains s where "calls_inv s (zip (take k rs) (take k (observe rs)))" and "observe rs ! k = fst (tool_step (rs ! k) s)"
proof -
  obtain s where s: "calls_inv s (zip (take k rs) (observe (take k rs)))"
    "\<forall>r. observe (take k rs @ [r]) = observe (take k rs) @ [fst (tool_step r s)]"
    using observe_from_snoc [of no_tool_calls "[]" "take k rs"] calls_inv_start by (auto simp: observe_def)
  have app: "\<exists>os. observe (xs @ ys) = observe xs @ os" for xs ys
  proof (induction ys rule: rev_induct)
    case (snoc y ys)
    then show ?case
      using observe_from_snoc [of no_tool_calls "[]" "xs @ ys"] by (fastforce simp: observe_def)
  qed simp
  have "take (Suc k) rs = take k rs @ [rs ! k]"
    using assms by (rule take_Suc_conv_app_nth)
  moreover obtain os where "observe rs = observe (take (Suc k) rs) @ os"
    using app [of "take (Suc k) rs" "drop (Suc k) rs"] append_take_drop_id [of "Suc k" rs] by auto
  ultimately have os: "observe rs = observe (take k rs) @ [fst (tool_step (rs ! k) s)] @ os"
    using s(2) by simp
  have len: "length (observe (take k rs)) = k"
    using assms by (simp add: observe_def)
  show ?thesis
    by (rule that [of s]) (use s os len in \<open>simp_all add: nth_append\<close>)
qed

lemma observed:
  assumes "k < length rs"
  defines "past \<equiv> zip (take k rs) (take k (observe rs))"
  obtains s' where "calls_inv s' (past @ [(rs ! k, observe rs ! k)])"
    and "to_call_id (observe rs ! k) \<noteq> []"
    and "to_missing_start (observe rs ! k) \<longleftrightarrow> \<not> is_start (rs ! k) \<and> to_call_id (observe rs ! k) \<notin> seen past"
    and "is_start (rs ! k) \<and> \<not> given (report_id (rs ! k)) \<Longrightarrow> to_call_id (observe rs ! k) \<notin> seen past"
    and "is_start (rs ! k) \<and> given (report_id (rs ! k)) \<Longrightarrow>
      the (report_id (rs ! k)) \<in> supplied past \<or> to_call_id (observe rs ! k) = the (report_id (rs ! k))"
proof -
  obtain s where s: "calls_inv s past" "observe rs ! k = fst (tool_step (rs ! k) s)"
    using observed_state [OF assms(1)] unfolding past_def .
  obtain ob s' where "tool_step (rs ! k) s = (ob, s')" by fastforce
  with tool_step_ok [OF s(1), of "rs ! k"] s(2) that show thesis
    by (auto simp: step_ok_def)
qed

lemma seen_past: "k \<le> length rs \<Longrightarrow> seen (zip (take k rs) (take k (observe rs))) = to_call_id ` set (take k (observe rs))"
proof -
  assume "k \<le> length rs"
  then have "map snd (zip (take k rs) (take k (observe rs))) = take k (observe rs)"
    by (intro map_snd_zip) (simp add: observe_def)
  then show ?thesis
    by (metis seen_def list.set_map)
qed

text \<open>
  C18. Whatever a runtime reports, every report gets a non-empty call id; a report says that its start is
  missing exactly when it is an update and no earlier report was observed under its call id, so a log that
  inserts a start there has one start before every update of a call.
\<close>

theorem missing_start_iff:
  assumes "k < length rs"
  shows "to_call_id (observe rs ! k) \<noteq> [] \<and>
    (to_missing_start (observe rs ! k) \<longleftrightarrow>
       \<not> is_start (rs ! k) \<and> to_call_id (observe rs ! k) \<notin> to_call_id ` set (take k (observe rs)))"
  using observed [OF assms] seen_past [of k rs] assms by (metis less_imp_le)

text \<open>
  A supplied id keeps its call: all reports with the same id are observed under the same call id. A start
  with an id that no earlier report supplied is observed under that very id, and a start without an id under
  a call id no earlier report has.
\<close>

theorem call_ids_stable:
  assumes "i < j" and "j < length rs"
  shows "(given (report_id (rs ! j)) \<and> report_id (rs ! i) = report_id (rs ! j) \<longrightarrow>
            to_call_id (observe rs ! i) = to_call_id (observe rs ! j)) \<and>
         (is_start (rs ! j) \<and> given (report_id (rs ! j)) \<and> report_id (rs ! j) \<notin> report_id ` set (take j rs) \<longrightarrow>
            to_call_id (observe rs ! j) = the (report_id (rs ! j))) \<and>
         (is_start (rs ! j) \<and> \<not> given (report_id (rs ! j)) \<longrightarrow>
            to_call_id (observe rs ! j) \<noteq> to_call_id (observe rs ! i))"
proof -
  let ?past = "zip (take j rs) (take j (observe rs))"
  obtain s' where s': "calls_inv s' (?past @ [(rs ! j, observe rs ! j)])"
    and fresh: "is_start (rs ! j) \<and> \<not> given (report_id (rs ! j)) \<Longrightarrow> to_call_id (observe rs ! j) \<notin> seen ?past"
    and own: "is_start (rs ! j) \<and> given (report_id (rs ! j)) \<Longrightarrow>
      the (report_id (rs ! j)) \<in> supplied ?past \<or> to_call_id (observe rs ! j) = the (report_id (rs ! j))"
    by (rule observed [OF assms(2)], rule that) simp_all
  have len: "length (observe rs) = length rs" by (simp add: observe_def)
  have at: "(rs ! i, observe rs ! i) \<in> set ?past"
    using assms len by (auto simp: set_zip intro!: exI [of _ i])
  then have same: "given (report_id (rs ! i)) \<Longrightarrow> to_call_id (observe rs ! i) = call_of s' (the (report_id (rs ! i)))"
    "given (report_id (rs ! j)) \<Longrightarrow> to_call_id (observe rs ! j) = call_of s' (the (report_id (rs ! j)))"
    using s' unfolding calls_inv_def by fastforce+
  have 1: "to_call_id (observe rs ! i) = to_call_id (observe rs ! j)"
    if "given (report_id (rs ! j))" "report_id (rs ! i) = report_id (rs ! j)"
    using same that by metis
  have "report_id (rs ! j) \<in> report_id ` set (take j rs)"
    if "given (report_id (rs ! j))" "the (report_id (rs ! j)) \<in> supplied ?past"
    using that by (force simp: supplied_def given_def dest: set_zip_leftD)
  then have 2: "to_call_id (observe rs ! j) = the (report_id (rs ! j))"
    if "is_start (rs ! j)" "given (report_id (rs ! j))" "report_id (rs ! j) \<notin> report_id ` set (take j rs)"
    using own that by blast
  have "to_call_id (observe rs ! i) \<in> seen ?past"
    using at by (force simp: seen_def)
  then have 3: "to_call_id (observe rs ! j) \<noteq> to_call_id (observe rs ! i)"
    if "is_start (rs ! j)" "\<not> given (report_id (rs ! j))"
    using fresh that by metis
  show ?thesis
    using 1 2 3 by blast
qed

text \<open>An agent attached late: an update without a start, then the same call with its id\<close>

definition sample_reports :: "tool_report list" where
  "sample_reports =
     [Updated (Some ''a'') (Some ''bash'') None, Started None (Some ''grep'') None,
      Updated (Some ''b'') (Some ''grep'') (Some ''completed''), Updated (Some ''a'') None (Some ''failed'')]"

lemma first_anonymous:
  "anonymous_id (Suc 0) = ''rainver:acp:anonymous:1''" "next_anonymous [''a''] 0 = Suc 0"
proof -
  show one: "anonymous_id (Suc 0) = ''rainver:acp:anonymous:1''"
    by (simp add: anonymous_id_def nat_text.simps digit_char_def char_of_def bit_0)
  show "next_anonymous [''a''] 0 = Suc 0"
    by (subst next_anonymous.simps) (simp add: one)
qed

lemma sample_observed:
  "observe sample_reports =
     [\<lparr>to_call_id = ''a'', to_missing_start = True\<rparr>,
      \<lparr>to_call_id = ''rainver:acp:anonymous:1'', to_missing_start = False\<rparr>,
      \<lparr>to_call_id = ''rainver:acp:anonymous:1'', to_missing_start = False\<rparr>,
      \<lparr>to_call_id = ''a'', to_missing_start = False\<rparr>]"
  by (simp add: observe_def sample_reports_def no_tool_calls_def updated_def started_def given_def know_def Let_def
      matching_anonymous_call_def open_anonymous_def synthetic_id_def first_anonymous
      is_terminal_status_def splice_out_def)

lemma missing_start_iff_witness:
  "to_missing_start (observe sample_reports ! 0) \<and> \<not> to_missing_start (observe sample_reports ! 2)"
  using missing_start_iff [of 0 sample_reports] missing_start_iff [of 2 sample_reports]
  by (simp add: sample_observed)

lemma call_ids_stable_witness:
  "to_call_id (observe sample_reports ! 0) = to_call_id (observe sample_reports ! 3)"
  using call_ids_stable [of 0 3 sample_reports] by (simp add: sample_reports_def given_def)

text \<open>
  Two calls with ids of their own are one when each is first reported by an update while a call without
  an id is open: what stands for one of them is not set aside for the other.
\<close>

lemma two_ids_one_call:
  "map to_call_id (observe [Started None (Some ''grep'') None, Updated (Some ''b'') (Some ''grep'') None,
     Updated (Some ''c'') (Some ''bash'') None]) = replicate 3 ''rainver:acp:anonymous:1''"
proof -
  have "next_anonymous [] 0 = Suc 0"
    by (simp add: next_anonymous.simps)
  then show ?thesis
    by (simp add: observe_def no_tool_calls_def updated_def started_def given_def know_def Let_def
        matching_anonymous_call_def open_anonymous_def synthetic_id_def first_anonymous
        is_terminal_status_def numeral_eq_Suc)
qed

end
