(* ===== verification/MessagePath.thy ===== *)
theory MessagePath
  imports Prelude
begin

text \<open>
  The visible path of a conversation: \<open>server/src/modules/sessions/messagePath.ts\<close> and the append of
  \<open>sessions/repository.ts\<close>. Messages form a tree; instead of walking it, a query compares the branch paths
  and depths that every message carries. The messages of one session are a list of rows.
\<close>

section \<open>Rows and queries\<close>

record message_row =
  mr_id :: string
  mr_parent_message_id :: "string option"
  mr_path_depth :: nat
  mr_branch_path :: string
  mr_assistant_run :: "string option"

definition root_branch_path :: string where
  "root_branch_path = ''/''"

text \<open>
  The last depth that a head shares with a branch: the head's own on its branch, else the number in the
  first segment of its path beyond the branch
\<close>

definition fork_ceiling :: "message_row \<Rightarrow> message_row \<Rightarrow> nat" where
  "fork_ceiling h m =
     (let segment = takeWhile (\<lambda>c. c \<noteq> CHR ''/'') (drop (length (mr_branch_path m)) (mr_branch_path h));
          depth = takeWhile (\<lambda>c. c \<noteq> CHR '':'') segment
      in if depth = [] then mr_path_depth h else digits_value depth)"

text \<open>\<open>visibleMessagePathSql\<close>, for the row of the head\<close>

definition visible_message :: "message_row \<Rightarrow> message_row \<Rightarrow> bool" where
  "visible_message h m \<longleftrightarrow>
     mr_path_depth m \<le> mr_path_depth h \<and> starts_with (mr_branch_path m) (mr_branch_path h) \<and>
     mr_path_depth m \<le> fork_ceiling h m"

definition child_branch_path :: "string \<Rightarrow> bool \<Rightarrow> string \<Rightarrow> nat \<Rightarrow> string" where
  "child_branch_path parent_branch parent_is_tip child_id parent_depth =
     (if parent_is_tip then parent_branch else parent_branch @ nat_text parent_depth @ '':'' @ child_id @ ''/'')"

section \<open>A conversation\<close>

record conversation =
  cv_messages :: "message_row list"
  cv_head :: "string option"

definition no_messages :: conversation where
  "no_messages = \<lparr>cv_messages = [], cv_head = None\<rparr>"

definition message_of :: "message_row list \<Rightarrow> string \<Rightarrow> message_row option" where
  "message_of rows i = find (\<lambda>r. mr_id r = i) rows"

definition add_message ::
  "string \<Rightarrow> string option \<Rightarrow> string option \<Rightarrow> nat \<Rightarrow> string \<Rightarrow> conversation \<Rightarrow> conversation" where
  "add_message i run parent depth branch cv =
     \<lparr>cv_messages = cv_messages cv @
        [\<lparr>mr_id = i, mr_parent_message_id = parent, mr_path_depth = depth, mr_branch_path = branch,
          mr_assistant_run = run\<rparr>],
      cv_head = Some i\<rparr>"

text \<open>The place of a message behind the head, as a statement reads it that sees some rows\<close>

definition next_position :: "message_row list \<Rightarrow> string option \<Rightarrow> nat \<times> string" where
  "next_position seen head =
     (case (case head of None \<Rightarrow> None | Some h \<Rightarrow> message_of seen h) of
        None \<Rightarrow> (0, root_branch_path)
      | Some h \<Rightarrow> (mr_path_depth h + 1, mr_branch_path h))"

text \<open>\<open>insertAttributedMessage\<close>: behind the head, on its branch; the run is that of an assistant's reply\<close>

definition append_message :: "string \<Rightarrow> string option \<Rightarrow> conversation \<Rightarrow> conversation" where
  "append_message i run cv =
     (case next_position (cv_messages cv) (cv_head cv) of
        (depth, branch) \<Rightarrow> add_message i run (cv_head cv) depth branch cv)"

text \<open>\<open>addAssistantMessageForRun\<close>: the message that answers the run, new or the one that is there\<close>

definition reply_of_run :: "message_row list \<Rightarrow> string \<Rightarrow> message_row option" where
  "reply_of_run rows run = find (\<lambda>r. mr_assistant_run r = Some run) rows"

definition add_assistant_message_for_run :: "string \<Rightarrow> string \<Rightarrow> conversation \<Rightarrow> string \<times> conversation" where
  "add_assistant_message_for_run i run cv =
     (case reply_of_run (cv_messages cv) run of
        Some r \<Rightarrow> (mr_id r, cv)
      | None \<Rightarrow> (i, append_message i (Some run) cv))"

text \<open>A reply to any message, with the branch that \<open>childBranchPath\<close> gives it\<close>

definition is_tip :: "message_row list \<Rightarrow> message_row \<Rightarrow> bool" where
  "is_tip rows r \<longleftrightarrow>
     list_all (\<lambda>m. mr_branch_path m = mr_branch_path r \<longrightarrow> mr_path_depth m \<le> mr_path_depth r) rows"

definition reply_message :: "string \<Rightarrow> string \<Rightarrow> conversation \<Rightarrow> conversation" where
  "reply_message parent i cv =
     (case message_of (cv_messages cv) parent of
        None \<Rightarrow> cv
      | Some p \<Rightarrow>
          add_message i None (Some parent) (mr_path_depth p + 1)
            (child_branch_path (mr_branch_path p) (is_tip (cv_messages cv) p) i (mr_path_depth p)) cv)"

datatype conversation_op = Append string | Finish string string | Reply string string

fun conversation_step :: "conversation_op \<Rightarrow> conversation \<Rightarrow> conversation" where
  "conversation_step (Append i) cv = append_message i None cv"
| "conversation_step (Finish i run) cv = snd (add_assistant_message_for_run i run cv)"
| "conversation_step (Reply parent i) cv = reply_message parent i cv"

definition conversation_after :: "conversation_op list \<Rightarrow> conversation" where
  "conversation_after ops = fold conversation_step ops no_messages"

section \<open>Concurrent appends\<close>

text \<open>
  An append waits for the lock of the session and then reads the head; its statement may have been started earlier
  and sees only the first messages. The unique index on branch and depth rejects a place that is taken.
\<close>

datatype append_error = Position_taken | Other_error

definition append_attempt :: "nat \<Rightarrow> string \<Rightarrow> conversation \<Rightarrow> append_error + conversation" where
  "append_attempt seen i cv =
     (case next_position (take seen (cv_messages cv)) (cv_head cv) of
        (depth, branch) \<Rightarrow>
          if list_ex (\<lambda>r. mr_branch_path r = branch \<and> mr_path_depth r = depth) (cv_messages cv) then Inl Position_taken
          else Inr (add_message i None (cv_head cv) depth branch cv))"

text \<open>\<open>withBranchPositionRetry\<close>, for what each attempt answers\<close>

function retry_from :: "nat \<Rightarrow> (nat \<Rightarrow> append_error + 'a) \<Rightarrow> append_error + 'a" where
  "retry_from tries attempt =
     (case attempt tries of
        Inr v \<Rightarrow> Inr v
      | Inl e \<Rightarrow> if tries \<ge> 8 \<or> e \<noteq> Position_taken then Inl e else retry_from (tries + 1) attempt)"
  by pat_completeness auto
termination by (relation "measure (\<lambda>(tries, _). 8 - tries)") auto

declare retry_from.simps [simp del]

definition with_branch_position_retry :: "(nat \<Rightarrow> append_error + 'a) \<Rightarrow> append_error + 'a" where
  "with_branch_position_retry attempt = retry_from 1 attempt"

section \<open>Branch paths as lists of forks\<close>

definition branch_text :: "(nat \<times> string) list \<Rightarrow> string" where
  "branch_text forks = CHR ''/'' # concat (map (\<lambda>(d, i). nat_text d @ '':'' @ i @ ''/'') forks)"

definition id_ok :: "string \<Rightarrow> bool" where
  "id_ok i \<longleftrightarrow> CHR ''/'' \<notin> set i"

abbreviation fork_text :: "nat \<times> string \<Rightarrow> string" where
  "fork_text f \<equiv> (case f of (d, i) \<Rightarrow> nat_text d @ '':'' @ i @ ''/'')"

lemma nat_text_plain: "c \<in> set (nat_text n) \<Longrightarrow> c \<noteq> CHR ''/'' \<and> c \<noteq> CHR '':''"
  using nat_text_digits [of n] by (auto simp: list_all_iff is_digit_def)

lemma fork_segment:
  assumes "id_ok i"
  shows "takeWhile (\<lambda>c. c \<noteq> CHR ''/'') (fork_text (d, i) @ s) = nat_text d @ '':'' @ i"
    and "takeWhile (\<lambda>c. c \<noteq> CHR '':'') (nat_text d @ '':'' @ i) = nat_text d"
  using assms nat_text_plain [of _ d] by (auto simp: id_ok_def takeWhile_append2 intro!: takeWhile_append2 [THEN trans])

lemma fork_text_inj:
  assumes "id_ok i" "id_ok j" and "fork_text (d, i) @ s = fork_text (e, j) @ t"
  shows "d = e \<and> i = j \<and> s = t"
proof -
  have seg: "nat_text d @ '':'' @ i = nat_text e @ '':'' @ j"
    using fork_segment(1) [OF assms(1), of d s] fork_segment(1) [OF assms(2), of e t] unfolding assms(3) by metis
  then have "nat_text d = nat_text e"
    using fork_segment(2) [OF assms(1), of d] fork_segment(2) [OF assms(2), of e] by metis
  with seg assms(3) show ?thesis
    using nat_text_inj by (auto dest: injD)
qed


definition forks_ok :: "(nat \<times> string) list \<Rightarrow> bool" where
  "forks_ok us \<longleftrightarrow> (\<forall>f\<in>set us. id_ok (snd f))"

lemma forks_ok_simps [simp]:
  "forks_ok []" "forks_ok (f # us) \<longleftrightarrow> id_ok (snd f) \<and> forks_ok us"
  "forks_ok (us @ vs) \<longleftrightarrow> forks_ok us \<and> forks_ok vs"
  by (auto simp: forks_ok_def)

lemma fork_texts_prefix:
  "forks_ok vs \<Longrightarrow> forks_ok us \<Longrightarrow>
   concat (map fork_text vs) @ t = concat (map fork_text us) \<Longrightarrow> \<exists>ws. us = vs @ ws \<and> t = concat (map fork_text ws)"
proof (induction vs arbitrary: us)
  case Nil
  then show ?case by simp
next
  case (Cons v vs)
  obtain d i where v: "v = (d, i)" by (cases v)
  from Cons.prems v obtain u us' where us: "us = u # us'" by (cases us) auto
  obtain e j where u: "u = (e, j)" by (cases u)
  have "fork_text (d, i) @ (concat (map fork_text vs) @ t) = fork_text (e, j) @ concat (map fork_text us')"
    using Cons.prems(3) unfolding us u v by simp
  from fork_text_inj [OF _ _ this] Cons.prems u v us
  have eq: "d = e" "i = j" "concat (map fork_text vs) @ t = concat (map fork_text us')" by auto
  with Cons.IH [of us'] Cons.prems us show ?case using u v by auto
qed

lemma branch_text_prefix:
  assumes "forks_ok us" "forks_ok vs"
  shows "starts_with (branch_text vs) (branch_text us) \<longleftrightarrow> (\<exists>ws. us = vs @ ws)"
proof
  assume "starts_with (branch_text vs) (branch_text us)"
  then obtain t where "branch_text us = branch_text vs @ t"
    by (metis starts_with_def append_take_drop_id)
  then have "concat (map fork_text vs) @ t = concat (map fork_text us)" by (simp add: branch_text_def)
  from fork_texts_prefix [OF assms(2,1) this] show "\<exists>ws. us = vs @ ws" by blast
next
  assume "\<exists>ws. us = vs @ ws"
  then show "starts_with (branch_text vs) (branch_text us)"
    by (auto simp: branch_text_def starts_with_def)
qed

lemma branch_text_inj:
  "forks_ok us \<Longrightarrow> forks_ok vs \<Longrightarrow> branch_text us = branch_text vs \<longleftrightarrow> us = vs"
  using fork_texts_prefix [of vs us "[]"] fork_texts_prefix [of us vs "[]"] by (auto simp: branch_text_def)

lemma fork_ceiling_forks:
  assumes "forks_ok (vs @ ws)" "mr_branch_path m = branch_text vs" "mr_branch_path h = branch_text (vs @ ws)"
  shows "fork_ceiling h m = (case ws of [] \<Rightarrow> mr_path_depth h | f # _ \<Rightarrow> fst f)"
proof -
  have rest: "drop (length (mr_branch_path m)) (mr_branch_path h) = concat (map fork_text ws)"
    unfolding assms(2,3) by (simp add: branch_text_def)
  show ?thesis
  proof (cases ws)
    case Nil
    then show ?thesis unfolding fork_ceiling_def rest by simp
  next
    case (Cons f fs)
    obtain d i where f: "f = (d, i)" by (cases f)
    from assms(1) Cons f have i: "id_ok i" by simp
    have "concat (map fork_text ws) = fork_text (d, i) @ concat (map fork_text fs)" unfolding Cons f by simp
    then show ?thesis unfolding fork_ceiling_def rest Cons f
      by (simp only: fork_segment [OF i] Let_def nat_text_nonempty if_False digits_value_nat_text list.case fst_conv)
  qed
qed

text \<open>What the query compares, on the forks of the two branches\<close>

lemma visible_forks:
  assumes "forks_ok us" "forks_ok vs" "mr_branch_path h = branch_text us" "mr_branch_path m = branch_text vs"
  shows "visible_message h m \<longleftrightarrow>
    mr_path_depth m \<le> mr_path_depth h \<and>
    (\<exists>ws. us = vs @ ws \<and> (\<forall>f fs. ws = f # fs \<longrightarrow> mr_path_depth m \<le> fst f))"
proof (cases "\<exists>ws. us = vs @ ws")
  case True
  then obtain ws where ws: "us = vs @ ws" ..
  have "fork_ceiling h m = (case ws of [] \<Rightarrow> mr_path_depth h | f # _ \<Rightarrow> fst f)"
    using fork_ceiling_forks assms ws by metis
  then show ?thesis
    using branch_text_prefix [OF assms(1,2)] ws assms(3,4)
    by (cases ws) (auto simp: visible_message_def)
next
  case False
  then show ?thesis using branch_text_prefix [OF assms(1,2)] assms(3,4) by (auto simp: visible_message_def)
qed

section \<open>The tree of the messages\<close>

text \<open>The messages that following the parents reaches: what a recursive query would return\<close>

inductive on_path :: "message_row list \<Rightarrow> message_row \<Rightarrow> message_row \<Rightarrow> bool" for rows where
  on_path_self: "h \<in> set rows \<Longrightarrow> on_path rows h h"
| on_path_parent: "h \<in> set rows \<Longrightarrow> p \<in> set rows \<Longrightarrow> mr_parent_message_id h = Some (mr_id p) \<Longrightarrow>
    on_path rows p m \<Longrightarrow> on_path rows h m"

text \<open>A row lies on a branch all of whose forks are below it and leave branches that reach them\<close>

definition lies_on :: "message_row list \<Rightarrow> message_row \<Rightarrow> (nat \<times> string) list \<Rightarrow> bool" where
  "lies_on rows r us \<longleftrightarrow>
     mr_branch_path r = branch_text us \<and>
     (\<forall>f\<in>set us. fst f < mr_path_depth r \<and> snd f \<in> mr_id ` set rows) \<and>
     (\<forall>us1 f us2. us = us1 @ f # us2 \<longrightarrow>
        (\<exists>q\<in>set rows. mr_branch_path q = branch_text us1 \<and> fst f \<le> mr_path_depth q))"

definition message_tree :: "message_row list \<Rightarrow> bool" where
  "message_tree rows \<longleftrightarrow>
     distinct (map mr_id rows) \<and>
     (\<forall>r\<in>set rows. id_ok (mr_id r) \<and> (\<exists>us. lies_on rows r us) \<and>
        (\<forall>i. mr_parent_message_id r = Some i \<longrightarrow> i \<in> mr_id ` set rows))"

definition child_of :: "message_row list \<Rightarrow> message_row \<Rightarrow> message_row \<Rightarrow> bool" where
  "child_of rows p n \<longleftrightarrow>
     p \<in> set rows \<and> mr_id n \<notin> mr_id ` set rows \<and> id_ok (mr_id n) \<and>
     mr_parent_message_id n = Some (mr_id p) \<and> mr_path_depth n = mr_path_depth p + 1 \<and>
     mr_branch_path n = child_branch_path (mr_branch_path p) (is_tip rows p) (mr_id n) (mr_path_depth p)"

lemma lies_on_mono: "lies_on rows r us \<Longrightarrow> set rows \<subseteq> set rows' \<Longrightarrow> lies_on rows' r us"
  unfolding lies_on_def by blast

lemma is_tip_iff:
  "is_tip rows r \<longleftrightarrow> (\<forall>m\<in>set rows. mr_branch_path m = mr_branch_path r \<longrightarrow> mr_path_depth m \<le> mr_path_depth r)"
  by (simp add: is_tip_def list_all_iff)

lemma tree_row:
  assumes "message_tree rows" "r \<in> set rows"
  obtains us where "lies_on rows r us" "forks_ok us" "mr_branch_path r = branch_text us"
proof -
  from assms obtain us where us: "lies_on rows r us" unfolding message_tree_def by blast
  then have "forks_ok us" using assms(1) unfolding lies_on_def message_tree_def forks_ok_def by fastforce
  with us that show thesis unfolding lies_on_def by blast
qed

lemma lies_on_below: "lies_on rows r us \<Longrightarrow> f \<in> set us \<Longrightarrow> fst f < mr_path_depth r"
  unfolding lies_on_def by blast

lemma lies_on_known: "lies_on rows r us \<Longrightarrow> f \<in> set us \<Longrightarrow> snd f \<in> mr_id ` set rows"
  unfolding lies_on_def by blast

lemma lies_on_left:
  "lies_on rows r (us1 @ f # us2) \<Longrightarrow> \<exists>q\<in>set rows. mr_branch_path q = branch_text us1 \<and> fst f \<le> mr_path_depth q"
  unfolding lies_on_def by blast

text \<open>The branch of a child: its parent's, or its parent's and one fork more\<close>

lemma child_branch:
  assumes "child_of rows p n" "mr_branch_path p = branch_text us"
  shows "mr_branch_path n = branch_text (us @ (if is_tip rows p then [] else [(mr_path_depth p, mr_id n)]))"
  using assms by (simp add: child_of_def child_branch_path_def branch_text_def)

lemma child_lies_on:
  assumes "message_tree rows" "child_of rows p n" "lies_on rows p us"
  shows "lies_on (rows @ [n]) n (us @ (if is_tip rows p then [] else [(mr_path_depth p, mr_id n)]))"
proof -
  from assms(3) have p: "mr_branch_path p = branch_text us" by (simp add: lies_on_def)
  from assms(2) have p_in: "p \<in> set rows" and depth: "mr_path_depth n = mr_path_depth p + 1"
    by (auto simp: child_of_def)
  have below: "\<forall>f\<in>set us. fst f < mr_path_depth n \<and> snd f \<in> mr_id ` set (rows @ [n])"
    using lies_on_below [OF assms(3)] lies_on_known [OF assms(3)] depth by fastforce
  have left: "\<exists>q\<in>set (rows @ [n]). mr_branch_path q = branch_text us1 \<and> fst f \<le> mr_path_depth q"
    if split: "us @ (if is_tip rows p then [] else [(mr_path_depth p, mr_id n)]) = us1 @ f # us2" for us1 f us2
  proof (cases "\<exists>us3. us = us1 @ f # us3")
    case True
    then show ?thesis using lies_on_left assms(3) by fastforce
  next
    case False
    with split have "us1 = us" "f = (mr_path_depth p, mr_id n)"
      by (auto simp: append_eq_append_conv2 append_eq_Cons_conv Cons_eq_append_conv split: if_splits)
    with p p_in show ?thesis by auto
  qed
  show ?thesis
    unfolding lies_on_def using child_branch [OF assms(2) p] below left depth by auto
qed

lemma message_tree_child:
  assumes tree: "message_tree rows" and child: "child_of rows p n"
  shows "message_tree (rows @ [n])"
proof -
  from child have "p \<in> set rows" by (simp add: child_of_def)
  with tree obtain us where us: "lies_on rows p us" by (rule tree_row)
  have old: "\<exists>us. lies_on (rows @ [n]) r us" if "r \<in> set rows" for r
    using tree_row [OF tree that] lies_on_mono [of rows r _ "rows @ [n]"] by (metis Un_upper1 set_append)
  show ?thesis
    using tree child old child_lies_on [OF tree child us]
    unfolding message_tree_def child_of_def by auto
qed

text \<open>A new message sees itself and what its parent sees; no older message sees it\<close>

lemma child_sees:
  assumes tree: "message_tree rows" and child: "child_of rows p n" and m: "m \<in> set rows"
  shows "visible_message n m \<longleftrightarrow> visible_message p m"
proof -
  from child have p_in: "p \<in> set rows" and depth: "mr_path_depth n = mr_path_depth p + 1"
    and n: "id_ok (mr_id n)" "mr_id n \<notin> mr_id ` set rows" by (auto simp: child_of_def)
  from tree p_in obtain us where us: "lies_on rows p us" "forks_ok us" "mr_branch_path p = branch_text us"
    by (rule tree_row)
  from tree m obtain vs where vs: "lies_on rows m vs" "forks_ok vs" "mr_branch_path m = branch_text vs"
    by (rule tree_row)
  define new where "new = (if is_tip rows p then [] else [(mr_path_depth p, mr_id n)])"
  have ok: "forks_ok (us @ new)" using us(2) n(1) by (simp add: new_def)
  have branch: "mr_branch_path n = branch_text (us @ new)"
    using child_branch [OF child us(3)] by (simp add: new_def)
  have own: "mr_path_depth m \<le> mr_path_depth p" if "is_tip rows p" "us = vs"
    using that m us(3) vs(3) by (auto simp: is_tip_iff)
  have fresh: "us @ new \<noteq> vs @ []" if "\<not> is_tip rows p"
  proof
    assume "us @ new = vs @ []"
    then have "(mr_path_depth p, mr_id n) \<in> set vs" using that by (auto simp: new_def)
    with lies_on_known [OF vs(1)] n(2) show False by force
  qed
  show ?thesis
    unfolding visible_forks [OF ok vs(2) branch vs(3)] visible_forks [OF us(2) vs(2) us(3) vs(3)]
  proof (intro iffI; elim conjE exE)
    fix ws
    assume eq: "us @ new = vs @ ws" and low: "\<forall>f fs. ws = f # fs \<longrightarrow> mr_path_depth m \<le> fst f"
    have inner: "mr_path_depth m \<le> mr_path_depth p" if "us = vs @ f # fs" "mr_path_depth m \<le> fst f" for f fs
      using lies_on_below [OF us(1), of f] that by auto
    show "mr_path_depth m \<le> mr_path_depth p \<and>
        (\<exists>ws. us = vs @ ws \<and> (\<forall>f fs. ws = f # fs \<longrightarrow> mr_path_depth m \<le> fst f))"
    proof (cases "is_tip rows p")
      case True
      with eq have eq': "us = vs @ ws" by (simp add: new_def)
      then have "mr_path_depth m \<le> mr_path_depth p" using own [OF True] inner low by (cases ws) auto
      with eq' low show ?thesis by blast
    next
      case False
      with eq fresh obtain ws' where ws: "ws = ws' @ [(mr_path_depth p, mr_id n)]" and eq': "us = vs @ ws'"
        by (cases ws rule: rev_cases) (auto simp: new_def)
      show ?thesis
      proof (cases ws')
        case Nil
        with ws low eq' show ?thesis by simp
      next
        case (Cons f fs)
        with ws low have "mr_path_depth m \<le> fst f" by simp
        with inner eq' Cons show ?thesis by auto
      qed
    qed
  next
    fix ws
    assume eq: "us = vs @ ws" and low: "\<forall>f fs. ws = f # fs \<longrightarrow> mr_path_depth m \<le> fst f"
      and le: "mr_path_depth m \<le> mr_path_depth p"
    have "\<forall>f fs. ws @ new = f # fs \<longrightarrow> mr_path_depth m \<le> fst f"
      using low le by (cases ws) (auto simp: new_def)
    then show "mr_path_depth m \<le> mr_path_depth n \<and>
        (\<exists>ws. us @ new = vs @ ws \<and> (\<forall>f fs. ws = f # fs \<longrightarrow> mr_path_depth m \<le> fst f))"
      using eq le depth by (intro conjI exI [of _ "ws @ new"]) auto
  qed
qed

lemma old_blind:
  assumes tree: "message_tree rows" and child: "child_of rows p n" and h: "h \<in> set rows"
  shows "\<not> visible_message h n"
proof
  assume sees: "visible_message h n"
  from child have p_in: "p \<in> set rows" and depth: "mr_path_depth n = mr_path_depth p + 1"
    and n: "id_ok (mr_id n)" "mr_id n \<notin> mr_id ` set rows" by (auto simp: child_of_def)
  from tree p_in obtain us where us: "forks_ok us" "mr_branch_path p = branch_text us" by (rule tree_row)
  from tree h obtain vs where vs: "lies_on rows h vs" "forks_ok vs" "mr_branch_path h = branch_text vs"
    by (rule tree_row)
  define new where "new = (if is_tip rows p then [] else [(mr_path_depth p, mr_id n)])"
  have ok: "forks_ok (us @ new)" using us(1) n(1) by (simp add: new_def)
  have branch: "mr_branch_path n = branch_text (us @ new)"
    using child_branch [OF child us(2)] by (simp add: new_def)
  from sees obtain ws where ws: "vs = (us @ new) @ ws" "\<forall>f fs. ws = f # fs \<longrightarrow> mr_path_depth n \<le> fst f"
    and le: "mr_path_depth n \<le> mr_path_depth h"
    unfolding visible_forks [OF vs(2) ok vs(3) branch] by blast
  show False
  proof (cases "is_tip rows p")
    case False
    then have "(mr_path_depth p, mr_id n) \<in> set vs" using ws(1) by (simp add: new_def)
    with lies_on_known [OF vs(1)] n(2) show False by force
  next
    case True
    then have low: "mr_path_depth q \<le> mr_path_depth p" if "q \<in> set rows" "mr_branch_path q = branch_text us" for q
      using that us(2) by (simp add: is_tip_iff)
    show False
    proof (cases ws)
      case Nil
      with ws(1) True vs(3) h low [of h] le depth show False by (simp add: new_def)
    next
      case (Cons f fs)
      with ws(1) True vs(1) have "lies_on rows h (us @ f # fs)" by (simp add: new_def)
      from lies_on_left [OF this] low have "fst f \<le> mr_path_depth p" by fastforce
      with ws(2) Cons depth show False by fastforce
    qed
  qed
qed

lemma sees_itself: "visible_message n n"
  by (simp add: visible_message_def starts_with_def fork_ceiling_def)

text \<open>The path along the parents grows the same way\<close>

lemma on_path_member: "on_path rows h m \<Longrightarrow> h \<in> set rows \<and> m \<in> set rows"
  by (induction rule: on_path.induct) auto

lemma on_path_mono: "on_path rows h m \<Longrightarrow> set rows \<subseteq> set rows' \<Longrightarrow> on_path rows' h m"
  by (induction rule: on_path.induct) (auto intro: on_path.intros)

lemma on_path_old:
  assumes "message_tree rows" "mr_id n \<notin> mr_id ` set rows"
  shows "on_path (rows @ [n]) h m \<Longrightarrow> h \<in> set rows \<Longrightarrow> on_path rows h m"
proof (induction rule: on_path.induct)
  case (on_path_self h)
  then show ?case by (blast intro: on_path.on_path_self)
next
  case (on_path_parent h p m)
  have "mr_id p \<in> mr_id ` set rows"
    using assms(1) on_path_parent.prems on_path_parent.hyps(3) unfolding message_tree_def by blast
  with assms(2) on_path_parent.hyps(2) have "p \<in> set rows" by auto
  with on_path_parent show ?case by (blast intro: on_path.on_path_parent)
qed

lemma set_snoc: "set (rows @ [n]) = insert n (set rows)"
  by simp

lemma on_path_child:
  assumes tree: "message_tree rows" and child: "child_of rows p n"
  shows "on_path (rows @ [n]) n m \<longleftrightarrow> m = n \<or> on_path rows p m"
proof
  assume "on_path (rows @ [n]) n m"
  then show "m = n \<or> on_path rows p m"
  proof (cases rule: on_path.cases)
    case on_path_self
    then show ?thesis by simp
  next
    case (on_path_parent q)
    with child have id: "mr_id q = mr_id p" and n: "mr_id n \<notin> mr_id ` set rows" and p: "p \<in> set rows"
      by (auto simp: child_of_def)
    then have "q \<noteq> n" by auto
    with on_path_parent have q: "q \<in> set rows" by auto
    with id p tree have "q = p" unfolding message_tree_def by (auto dest: inj_onD simp: distinct_map)
    with on_path_old [OF tree n on_path_parent(4)] p show ?thesis by blast
  qed
next
  assume "m = n \<or> on_path rows p m"
  then show "on_path (rows @ [n]) n m"
    using child on_path_mono [of rows p m "rows @ [n]", unfolded set_snoc, OF _ subset_insertI]
    by (auto simp: child_of_def intro: on_path.intros)
qed

section \<open>Every conversation\<close>

text \<open>The query finds the path, and one message on each of its depths\<close>

definition paths_agree :: "message_row list \<Rightarrow> bool" where
  "paths_agree rows \<longleftrightarrow>
     (\<forall>h\<in>set rows. \<forall>m\<in>set rows. visible_message h m \<longleftrightarrow> on_path rows h m) \<and>
     (\<forall>h\<in>set rows. \<forall>k\<le>mr_path_depth h. \<exists>!m. m \<in> set rows \<and> visible_message h m \<and> mr_path_depth m = k)"

lemma paths_agree_child:
  assumes tree: "message_tree rows" and child: "child_of rows p n" and agree: "paths_agree rows"
  shows "paths_agree (rows @ [n])"
proof -
  from child have p: "p \<in> set rows" and n: "mr_id n \<notin> mr_id ` set rows"
    and depth: "mr_path_depth n = mr_path_depth p + 1" by (auto simp: child_of_def)
  have new: "n \<notin> set rows" using n by auto
  have same: "visible_message h m \<longleftrightarrow> on_path (rows @ [n]) h m"
    if "h \<in> set (rows @ [n])" "m \<in> set (rows @ [n])" for h m
  proof (cases "h = n")
    case True
    with that agree p show ?thesis
      using on_path_child [OF tree child] child_sees [OF tree child] sees_itself
      unfolding paths_agree_def by auto
  next
    case False
    with that have h: "h \<in> set rows" by auto
    have "on_path (rows @ [n]) h m \<longleftrightarrow> on_path rows h m"
      using on_path_old [OF tree n] on_path_mono h by (metis Un_upper1 set_append)
    with h that agree old_blind [OF tree child h] new show ?thesis
      using on_path_member unfolding paths_agree_def by auto
  qed
  have one: "\<exists>!m. m \<in> set (rows @ [n]) \<and> visible_message h m \<and> mr_path_depth m = k"
    if h: "h \<in> set (rows @ [n])" and k: "k \<le> mr_path_depth h" for h k
  proof (cases "h = n")
    case False
    with h have h: "h \<in> set rows" by auto
    with agree k have "\<exists>!m. m \<in> set rows \<and> visible_message h m \<and> mr_path_depth m = k"
      unfolding paths_agree_def by blast
    with old_blind [OF tree child h] show ?thesis by (metis rotate1.simps(2) set_ConsD set_rotate1 Un_iff set_append)
  next
    case True
    have sees: "m \<in> set (rows @ [n]) \<and> visible_message n m \<longleftrightarrow> m = n \<or> m \<in> set rows \<and> visible_message p m" for m
      using child_sees [OF tree child] sees_itself by auto
    show ?thesis
    proof (cases "k = mr_path_depth n")
      case True
      have "mr_path_depth m \<le> mr_path_depth p" if "visible_message p m" for m
        using that by (simp add: visible_message_def)
      with True \<open>h = n\<close> sees depth show ?thesis by (intro ex1I [of _ n]) fastforce+
    next
      case False
      with k \<open>h = n\<close> depth have "k \<le> mr_path_depth p" by simp
      with agree p have "\<exists>!m. m \<in> set rows \<and> visible_message p m \<and> mr_path_depth m = k"
        unfolding paths_agree_def by blast
      with sees False \<open>h = n\<close> show ?thesis by metis
    qed
  qed
  from same one show ?thesis unfolding paths_agree_def by blast
qed

lemma message_tree_first:
  fixes run :: "string option"
  assumes "id_ok i"
  defines "r \<equiv> \<lparr>mr_id = i, mr_parent_message_id = None, mr_path_depth = 0, mr_branch_path = root_branch_path,
    mr_assistant_run = run\<rparr>"
  shows "message_tree [r] \<and> paths_agree [r] \<and> is_tip [r] r"
proof -
  have "branch_text [] = root_branch_path" by (simp add: branch_text_def root_branch_path_def)
  then have lies: "lies_on [r] r []" by (simp add: lies_on_def r_def)
  have "on_path [r] r r" by (rule on_path_self) simp
  with assms(1) lies sees_itself show ?thesis
    by (auto simp: message_tree_def paths_agree_def is_tip_def r_def)
qed

definition conversation_ok :: "conversation \<Rightarrow> bool" where
  "conversation_ok cv \<longleftrightarrow>
     message_tree (cv_messages cv) \<and> paths_agree (cv_messages cv) \<and>
     (case cv_head cv of
        None \<Rightarrow> cv_messages cv = []
      | Some i \<Rightarrow> (\<exists>h\<in>set (cv_messages cv). mr_id h = i \<and> is_tip (cv_messages cv) h))"

lemma child_is_tip:
  assumes tree: "message_tree rows" and child: "child_of rows p n"
  shows "is_tip (rows @ [n]) n"
proof -
  from child have p: "p \<in> set rows" and n: "mr_id n \<notin> mr_id ` set rows"
    and depth: "mr_path_depth n = mr_path_depth p + 1" by (auto simp: child_of_def)
  have "mr_path_depth m \<le> mr_path_depth n" if m: "m \<in> set rows" and eq: "mr_branch_path m = mr_branch_path n" for m
  proof (cases "is_tip rows p")
    case True
    with child eq m show ?thesis by (auto simp: child_of_def child_branch_path_def is_tip_iff)
  next
    case False
    from tree p obtain us where us: "forks_ok us" "mr_branch_path p = branch_text us" by (rule tree_row)
    from tree m obtain vs where vs: "lies_on rows m vs" "forks_ok vs" "mr_branch_path m = branch_text vs" by (rule tree_row)
    have ok: "forks_ok (us @ [(mr_path_depth p, mr_id n)])" using us(1) child by (simp add: child_of_def)
    have "branch_text vs = branch_text (us @ [(mr_path_depth p, mr_id n)])"
      using child_branch [OF child us(2)] False eq vs(3) by simp
    then have "vs = us @ [(mr_path_depth p, mr_id n)]" using branch_text_inj [OF vs(2) ok] by simp
    then have "(mr_path_depth p, mr_id n) \<in> set vs" by simp
    from lies_on_known [OF vs(1) this] n have False by simp
    then show ?thesis ..
  qed
  then show ?thesis by (auto simp: is_tip_iff)
qed

lemma add_child_ok:
  assumes "conversation_ok cv" "p \<in> set (cv_messages cv)" "mr_id p = q" "id_ok i" "i \<notin> mr_id ` set (cv_messages cv)"
    and "b = child_branch_path (mr_branch_path p) (is_tip (cv_messages cv) p) i (mr_path_depth p)"
  shows "conversation_ok (add_message i run (Some q) (mr_path_depth p + 1) b cv)"
proof -
  define n where "n = \<lparr>mr_id = i, mr_parent_message_id = Some q, mr_path_depth = mr_path_depth p + 1, mr_branch_path = b,
    mr_assistant_run = run\<rparr>"
  have child: "child_of (cv_messages cv) p n" using assms by (simp add: child_of_def n_def)
  from assms(1) have tree: "message_tree (cv_messages cv)" and agree: "paths_agree (cv_messages cv)"
    by (auto simp: conversation_ok_def)
  have "add_message i run (Some q) (mr_path_depth p + 1) b cv = \<lparr>cv_messages = cv_messages cv @ [n], cv_head = Some i\<rparr>"
    by (simp add: add_message_def n_def)
  moreover have "mr_id n = i" by (simp add: n_def)
  ultimately show ?thesis
    using message_tree_child [OF tree child] paths_agree_child [OF tree child agree] child_is_tip [OF tree child]
    by (simp add: conversation_ok_def)
qed

fun op_id :: "conversation_op \<Rightarrow> string" where
  "op_id (Append i) = i"
| "op_id (Finish i run) = i"
| "op_id (Reply parent i) = i"

lemma message_of_SomeD: "message_of rows i = Some r \<Longrightarrow> r \<in> set rows \<and> mr_id r = i"
  unfolding message_of_def by (auto dest: find_SomeD)

lemma message_of_known:
  assumes "message_tree rows" "r \<in> set rows"
  shows "message_of rows (mr_id r) = Some r"
proof (cases "message_of rows (mr_id r)")
  case None
  with assms(2) show ?thesis by (auto simp: message_of_def find_None_iff)
next
  case (Some q)
  with message_of_SomeD [OF Some] assms show ?thesis
    unfolding message_tree_def by (auto dest: inj_onD simp: distinct_map)
qed

lemma next_position_head:
  assumes "conversation_ok cv" "h \<in> set (cv_messages cv)" "cv_head cv = Some (mr_id h)"
  shows "next_position (cv_messages cv) (cv_head cv) = (mr_path_depth h + 1, mr_branch_path h)"
  using message_of_known [of "cv_messages cv" h] assms by (simp add: next_position_def conversation_ok_def)

lemma append_message_ok:
  assumes ok: "conversation_ok cv" and i: "id_ok i" "i \<notin> mr_id ` set (cv_messages cv)"
  shows "conversation_ok (append_message i run cv)"
proof (cases "cv_head cv")
  case None
  with ok have "cv_messages cv = []" by (simp add: conversation_ok_def)
  with None i(1) message_tree_first [of i run] show ?thesis
    by (simp add: append_message_def next_position_def add_message_def conversation_ok_def)
next
  case (Some q)
  with ok obtain h where h: "h \<in> set (cv_messages cv)" "mr_id h = q" "is_tip (cv_messages cv) h"
    by (auto simp: conversation_ok_def)
  with next_position_head [OF ok h(1)] Some
  have "append_message i run cv = add_message i run (Some q) (mr_path_depth h + 1) (mr_branch_path h) cv"
    by (simp add: append_message_def)
  with add_child_ok [OF ok h(1,2) i] h(3) show ?thesis by (simp add: child_branch_path_def)
qed

lemma conversation_step_ok:
  assumes ok: "conversation_ok cv" and i: "id_ok (op_id op)" "op_id op \<notin> mr_id ` set (cv_messages cv)"
  shows "conversation_ok (conversation_step op cv)"
proof (cases op)
  case (Reply parent j)
  show ?thesis
  proof (cases "message_of (cv_messages cv) parent")
    case None
    with ok Reply show ?thesis by (simp add: reply_message_def)
  next
    case (Some p)
    from message_of_SomeD [OF Some] add_child_ok [OF ok, of p parent j] i Some Reply show ?thesis
      by (simp add: reply_message_def)
  qed
next
  case (Append j)
  with append_message_ok [OF ok] i show ?thesis by simp
next
  case (Finish j run)
  with append_message_ok [OF ok] ok i show ?thesis
    by (simp add: add_assistant_message_for_run_def split: option.split)
qed

lemma step_ids: "mr_id ` set (cv_messages (conversation_step op cv)) \<subseteq> insert (op_id op) (mr_id ` set (cv_messages cv))"
  by (cases op)
    (auto simp: append_message_def add_assistant_message_for_run_def reply_message_def add_message_def
      split: option.splits prod.splits)

lemma conversation_fold_ok:
  "conversation_ok cv \<Longrightarrow> list_all (\<lambda>op. id_ok (op_id op)) ops \<Longrightarrow> distinct (map op_id ops) \<Longrightarrow>
   \<forall>op\<in>set ops. op_id op \<notin> mr_id ` set (cv_messages cv) \<Longrightarrow> conversation_ok (fold conversation_step ops cv)"
proof (induction ops arbitrary: cv)
  case Nil
  then show ?case by simp
next
  case (Cons op ops)
  have "conversation_ok (conversation_step op cv)" using Cons.prems by (intro conversation_step_ok) auto
  moreover have "\<forall>op'\<in>set ops. op_id op' \<notin> mr_id ` set (cv_messages (conversation_step op cv))"
  proof
    fix op' assume op': "op' \<in> set ops"
    with Cons.prems(3) have "op_id op' \<noteq> op_id op" by (auto simp: image_iff)
    moreover from op' Cons.prems(4) have "op_id op' \<notin> mr_id ` set (cv_messages cv)" by simp
    ultimately show "op_id op' \<notin> mr_id ` set (cv_messages (conversation_step op cv))"
      using step_ids [of op cv] by blast
  qed
  ultimately show ?case using Cons by simp
qed

lemma conversation_after_ok:
  assumes "list_all (\<lambda>op. id_ok (op_id op)) ops" "distinct (map op_id ops)"
  shows "conversation_ok (conversation_after ops)"
proof -
  have "conversation_ok no_messages"
    by (simp add: conversation_ok_def no_messages_def message_tree_def paths_agree_def)
  then show ?thesis unfolding conversation_after_def
    using assms by (intro conversation_fold_ok) (auto simp: no_messages_def)
qed

section \<open>What an attempt does\<close>

definition sees_head :: "nat \<Rightarrow> conversation \<Rightarrow> bool" where
  "sees_head seen cv \<longleftrightarrow>
     (case cv_head cv of None \<Rightarrow> True | Some h \<Rightarrow> h \<in> mr_id ` set (take seen (cv_messages cv)))"

lemma first_position_taken:
  assumes ok: "conversation_ok cv" and head: "cv_head cv \<noteq> None"
  shows "\<exists>r\<in>set (cv_messages cv). mr_branch_path r = root_branch_path \<and> mr_path_depth r = 0"
proof -
  from ok head obtain h where h: "h \<in> set (cv_messages cv)" by (auto simp: conversation_ok_def)
  from ok have tree: "message_tree (cv_messages cv)" and agree: "paths_agree (cv_messages cv)"
    by (simp_all add: conversation_ok_def)
  from agree h obtain m where m: "m \<in> set (cv_messages cv)" "mr_path_depth m = 0"
    unfolding paths_agree_def by blast
  from tree m(1) obtain us where us: "lies_on (cv_messages cv) m us" "mr_branch_path m = branch_text us"
    by (rule tree_row)
  with lies_on_below [OF us(1)] m(2) have "us = []" by (cases us) auto
  with us(2) m show ?thesis by (auto simp: branch_text_def root_branch_path_def)
qed

lemma append_attempt_iff:
  assumes ok: "conversation_ok cv"
  shows "append_attempt seen i cv = (if sees_head seen cv then Inr (append_message i None cv) else Inl Position_taken)"
proof (cases "cv_head cv")
  case None
  with ok have "cv_messages cv = []" by (simp add: conversation_ok_def)
  with None show ?thesis
    by (simp add: append_attempt_def sees_head_def append_message_def next_position_def)
next
  case (Some q)
  with ok obtain h where h: "h \<in> set (cv_messages cv)" "mr_id h = q" and tip: "is_tip (cv_messages cv) h"
    by (auto simp: conversation_ok_def)
  show ?thesis
  proof (cases "sees_head seen cv")
    case False
    with Some have "message_of (take seen (cv_messages cv)) q = None"
      by (auto simp: sees_head_def message_of_def find_None_iff)
    with False first_position_taken [OF ok] Some show ?thesis
      by (simp add: append_attempt_def next_position_def list_ex_iff)
  next
    case True
    with Some have "message_of (take seen (cv_messages cv)) q \<noteq> None"
      by (auto simp: sees_head_def message_of_def find_None_iff)
    then obtain r where r: "message_of (take seen (cv_messages cv)) q = Some r" by blast
    then have "r \<in> set (cv_messages cv)" "mr_id r = q" using message_of_SomeD in_set_takeD by fastforce+
    with h ok have "r = h"
      by (auto simp: conversation_ok_def message_tree_def distinct_map dest: inj_onD)
    with r Some have seen: "next_position (take seen (cv_messages cv)) (cv_head cv) = (mr_path_depth h + 1, mr_branch_path h)"
      by (simp add: next_position_def)
    have "\<not> list_ex (\<lambda>r. mr_branch_path r = mr_branch_path h \<and> mr_path_depth r = mr_path_depth h + 1) (cv_messages cv)"
      using tip by (fastforce simp: list_ex_iff is_tip_iff)
    with True seen next_position_head [OF ok h(1)] h(2) Some show ?thesis
      by (simp add: append_attempt_def append_message_def)
  qed
qed

lemma retry_from_result:
  "tries \<le> 8 \<Longrightarrow>
   (case retry_from tries attempt of
      Inr v \<Rightarrow> (\<exists>k. tries \<le> k \<and> k \<le> 8 \<and> attempt k = Inr v)
    | Inl e \<Rightarrow> (\<exists>k. tries \<le> k \<and> k \<le> 8 \<and> attempt k = Inl e \<and> (k = 8 \<or> e \<noteq> Position_taken) \<and>
        (\<forall>j. tries \<le> j \<longrightarrow> j < k \<longrightarrow> attempt j = Inl Position_taken)))"
proof (induction tries attempt rule: retry_from.induct)
  case (1 tries attempt)
  show ?case
  proof (cases "attempt tries")
    case (Inr v)
    then show ?thesis using 1(2) by (subst retry_from.simps) auto
  next
    case (Inl e)
    show ?thesis
    proof (cases "tries \<ge> 8 \<or> e \<noteq> Position_taken")
      case True
      with Inl 1(2) show ?thesis by (subst retry_from.simps) auto
    next
      case False
      with 1(1) [OF Inl False] have IH: "case retry_from (tries + 1) attempt of
          Inr v \<Rightarrow> (\<exists>k. tries + 1 \<le> k \<and> k \<le> 8 \<and> attempt k = Inr v)
        | Inl e \<Rightarrow> (\<exists>k. tries + 1 \<le> k \<and> k \<le> 8 \<and> attempt k = Inl e \<and> (k = 8 \<or> e \<noteq> Position_taken) \<and>
            (\<forall>j. tries + 1 \<le> j \<longrightarrow> j < k \<longrightarrow> attempt j = Inl Position_taken))" by simp
      from Inl False have step: "retry_from tries attempt = retry_from (tries + 1) attempt"
        by (subst retry_from.simps) simp
      have first: "attempt tries = Inl Position_taken" using Inl False by simp
      show ?thesis
      proof (cases "retry_from (tries + 1) attempt")
        case (Inr v)
        with IH show ?thesis unfolding step by (auto dest: Suc_leD)
      next
        case (Inl e')
        with IH obtain k where k: "tries + 1 \<le> k" "k \<le> 8" "attempt k = Inl e'" "k = 8 \<or> e' \<noteq> Position_taken"
          and before: "\<forall>j. tries + 1 \<le> j \<longrightarrow> j < k \<longrightarrow> attempt j = Inl Position_taken" by auto
        have "\<forall>j. tries \<le> j \<longrightarrow> j < k \<longrightarrow> attempt j = Inl Position_taken"
          using before first by (metis Suc_eq_plus1 Suc_leI le_neq_implies_less)
        with k Inl show ?thesis unfolding step by (auto dest: Suc_leD)
      qed
    qed
  qed
qed

section \<open>Properties\<close>

text \<open>Three messages, a reply to the second, and one behind the reply\<close>

definition forked_rows :: "message_row list" where
  "forked_rows =
    [\<lparr>mr_id = ''a'', mr_parent_message_id = None, mr_path_depth = 0, mr_branch_path = ''/'', mr_assistant_run = None\<rparr>,
     \<lparr>mr_id = ''b'', mr_parent_message_id = Some ''a'', mr_path_depth = 1, mr_branch_path = ''/'', mr_assistant_run = None\<rparr>,
     \<lparr>mr_id = ''c'', mr_parent_message_id = Some ''b'', mr_path_depth = 2, mr_branch_path = ''/'', mr_assistant_run = None\<rparr>,
     \<lparr>mr_id = ''d'', mr_parent_message_id = Some ''b'', mr_path_depth = 2, mr_branch_path = ''/1:d/'', mr_assistant_run = None\<rparr>,
     \<lparr>mr_id = ''e'', mr_parent_message_id = Some ''d'', mr_path_depth = 3, mr_branch_path = ''/1:d/'', mr_assistant_run = None\<rparr>]"

definition forked_ops :: "conversation_op list" where
  "forked_ops = [Append ''a'', Append ''b'', Append ''c'', Reply ''b'' ''d'', Append ''e'']"

lemma forked_conversation: "cv_messages (conversation_after forked_ops) = forked_rows"
  by code_simp

lemma forked_ops_fresh: "list_all (\<lambda>op. id_ok (op_id op)) forked_ops" "distinct (map op_id forked_ops)"
  by code_simp+

text \<open>
  C19. In every conversation built by appends and replies with fresh ids, the query for a head returns exactly the
  messages that following the parents from it reaches: comparing branch paths and depths is the walk.
\<close>
theorem visible_iff_on_path:
  assumes "list_all (\<lambda>op. id_ok (op_id op)) ops" "distinct (map op_id ops)"
    and "h \<in> set (cv_messages (conversation_after ops))" "m \<in> set (cv_messages (conversation_after ops))"
  shows "visible_message h m \<longleftrightarrow> on_path (cv_messages (conversation_after ops)) h m"
  using conversation_after_ok [OF assms(1,2)] assms(3,4) by (auto simp: conversation_ok_def paths_agree_def)

theorem visible_iff_on_path_witness:
  "on_path forked_rows (forked_rows ! 4) (forked_rows ! 1) \<and> \<not> on_path forked_rows (forked_rows ! 4) (forked_rows ! 2)"
proof
  have "visible_message (forked_rows ! 4) (forked_rows ! 1)" by code_simp
  then show "on_path forked_rows (forked_rows ! 4) (forked_rows ! 1)"
    using visible_iff_on_path [OF forked_ops_fresh, of "forked_rows ! 4" "forked_rows ! 1"]
    by (simp add: forked_conversation) (simp add: forked_rows_def)
  have "\<not> visible_message (forked_rows ! 4) (forked_rows ! 2)" by code_simp
  then show "\<not> on_path forked_rows (forked_rows ! 4) (forked_rows ! 2)"
    using visible_iff_on_path [OF forked_ops_fresh, of "forked_rows ! 4" "forked_rows ! 2"]
    by (simp add: forked_conversation) (simp add: forked_rows_def)
qed

text \<open>
  The transcript that a head sees has no gap and no second message at a place: for each depth up to the head's
  exactly one message of the conversation is visible.
\<close>
theorem one_message_per_depth:
  assumes "list_all (\<lambda>op. id_ok (op_id op)) ops" "distinct (map op_id ops)"
    and "h \<in> set (cv_messages (conversation_after ops))" "k \<le> mr_path_depth h"
  shows "\<exists>!m. m \<in> set (cv_messages (conversation_after ops)) \<and> visible_message h m \<and> mr_path_depth m = k"
  using conversation_after_ok [OF assms(1,2)] assms(3,4) by (auto simp: conversation_ok_def paths_agree_def)

theorem one_message_per_depth_witness:
  "\<exists>!m. m \<in> set forked_rows \<and> visible_message (forked_rows ! 4) m \<and> mr_path_depth m = 2"
proof -
  have "forked_rows ! 4 \<in> set forked_rows" "2 \<le> mr_path_depth (forked_rows ! 4)"
    by (simp_all add: forked_rows_def)
  then show ?thesis
    using one_message_per_depth [OF forked_ops_fresh, of "forked_rows ! 4" 2] by (simp only: forked_conversation)
qed

text \<open>
  C20. Concurrent appends never break the path: whatever each of the up to eight attempts sees of the conversation
  that it meets, the message is put exactly where an append behind the current head puts it, or nothing is
  written because no attempt saw the head.
\<close>
theorem concurrent_append_exact:
  assumes "\<And>k. list_all (\<lambda>op. id_ok (op_id op)) (history k)" "\<And>k. distinct (map op_id (history k))"
  shows "case with_branch_position_retry (\<lambda>k. append_attempt (seen k) i (conversation_after (history k))) of
      Inr cv \<Rightarrow> (\<exists>k. 1 \<le> k \<and> k \<le> 8 \<and> sees_head (seen k) (conversation_after (history k)) \<and>
        cv = append_message i None (conversation_after (history k)))
    | Inl e \<Rightarrow> e = Position_taken \<and>
        (\<forall>k. 1 \<le> k \<longrightarrow> k \<le> 8 \<longrightarrow> \<not> sees_head (seen k) (conversation_after (history k)))"
proof -
  let ?attempt = "\<lambda>k. append_attempt (seen k) i (conversation_after (history k))"
  have attempt: "?attempt k = (if sees_head (seen k) (conversation_after (history k))
      then Inr (append_message i None (conversation_after (history k))) else Inl Position_taken)" for k
    by (rule append_attempt_iff [OF conversation_after_ok [OF assms]])
  note result = retry_from_result [of 1 ?attempt, folded with_branch_position_retry_def, simplified]
  show ?thesis
  proof (cases "with_branch_position_retry ?attempt")
    case (Inr cv)
    with result obtain k where "1 \<le> k" "k \<le> 8" "?attempt k = Inr cv" by auto
    with attempt [of k] Inr show ?thesis by (auto split: if_splits)
  next
    case (Inl e)
    with result obtain k where k: "k \<le> 8" "?attempt k = Inl e" "k = 8 \<or> e \<noteq> Position_taken"
      and before: "\<forall>j. Suc 0 \<le> j \<longrightarrow> j < k \<longrightarrow> ?attempt j = Inl Position_taken" by auto
    from k(2) attempt [of k] have e: "e = Position_taken" by (auto split: if_splits)
    have "\<not> sees_head (seen j) (conversation_after (history j))" if "1 \<le> j" "j \<le> 8" for j
    proof -
      from k e that before have "?attempt j = Inl Position_taken" by (cases "j = 8") auto
      with attempt [of j] show ?thesis by (auto split: if_splits)
    qed
    with Inl e show ?thesis by simp
  qed
qed

text \<open>The first attempt was started before the last message came, the second after it\<close>

theorem concurrent_append_exact_witness:
  "(case with_branch_position_retry (\<lambda>k. append_attempt (if k = 1 then 4 else 5) ''f'' (conversation_after forked_ops)) of
      Inr cv \<Rightarrow> (\<exists>k::nat. 1 \<le> k \<and> k \<le> 8 \<and> sees_head (if k = 1 then 4 else 5) (conversation_after forked_ops) \<and>
        cv = append_message ''f'' None (conversation_after forked_ops))
    | Inl e \<Rightarrow> e = Position_taken \<and>
        (\<forall>k::nat. 1 \<le> k \<longrightarrow> k \<le> 8 \<longrightarrow> \<not> sees_head (if k = 1 then 4 else 5) (conversation_after forked_ops))) \<and>
   \<not> sees_head 4 (conversation_after forked_ops) \<and> sees_head 5 (conversation_after forked_ops)"
proof (intro conjI)
  show "\<not> sees_head 4 (conversation_after forked_ops)" "sees_head 5 (conversation_after forked_ops)" by code_simp+
qed (rule concurrent_append_exact
    [where history = "\<lambda>_. forked_ops" and seen = "\<lambda>k. if k = 1 then 4 else 5", OF forked_ops_fresh])

text \<open>The unique index on branch and depth holds throughout, replies included\<close>

lemma positions_unique:
  assumes ok: "conversation_ok cv" and rows: "r \<in> set (cv_messages cv)" "q \<in> set (cv_messages cv)"
    and same: "mr_branch_path r = mr_branch_path q" "mr_path_depth r = mr_path_depth q"
  shows "r = q"
proof -
  have "visible_message r q"
    using same by (simp add: visible_message_def starts_with_def fork_ceiling_def)
  moreover from ok rows(1) have "\<exists>!m. m \<in> set (cv_messages cv) \<and> visible_message r m \<and> mr_path_depth m = mr_path_depth r"
    unfolding conversation_ok_def paths_agree_def by blast
  ultimately show ?thesis using rows same(2) sees_itself [of r] by metis
qed

text \<open>A run that is finished again answers with its first message and writes nothing\<close>

lemma find_append_eq: "find P (xs @ ys) = (case find P xs of None \<Rightarrow> find P ys | Some x \<Rightarrow> Some x)"
  by (induction xs) auto

lemma finish_run_once:
  assumes "add_assistant_message_for_run i run cv = (k, cv')"
  shows "add_assistant_message_for_run j run cv' = (k, cv')"
proof (cases "reply_of_run (cv_messages cv) run")
  case (Some r)
  with assms show ?thesis by (auto simp: add_assistant_message_for_run_def)
next
  case None
  with assms show ?thesis
    by (auto simp: add_assistant_message_for_run_def append_message_def add_message_def reply_of_run_def
      find_append_eq split: prod.splits option.splits)
qed

text \<open>
  Prefix and depth alone, which the comments at the top of the file and at the column name as the whole condition,
  also admit a message that stayed behind on the branch that was left
\<close>

lemma prefix_and_depth_not_enough:
  "let h = forked_rows ! 4; m = forked_rows ! 2
   in starts_with (mr_branch_path m) (mr_branch_path h) \<and> mr_path_depth m \<le> mr_path_depth h \<and> \<not> visible_message h m"
  by code_simp

end
