(* ===== verification/StructuredOutput.thy ===== *)
theory StructuredOutput
  imports Prelude
begin

text \<open>
  Structured output of a model: \<open>server/src/modules/runs/structuredOutputValidation.ts\<close>. The engine of regular
  expressions (\<open>None\<close> for a pattern that does not compile) and \<open>Number(text)\<close> are arguments.
\<close>

section \<open>Types of values\<close>

definition is_record :: "jsval \<Rightarrow> bool" where
  "is_record v \<longleftrightarrow> as_record v \<noteq> None"

definition js_integer :: "jsnum \<Rightarrow> bool" where
  "js_integer n \<longleftrightarrow> (case n of Fin r \<Rightarrow> of_int (floor r) = r | _ \<Rightarrow> False)"

definition js_number_finite :: "jsnum \<Rightarrow> bool" where
  "js_number_finite n \<longleftrightarrow> (case n of Fin r \<Rightarrow> True | _ \<Rightarrow> False)"

text \<open>\<open><\<close> between numbers\<close>

fun js_less :: "jsnum \<Rightarrow> jsnum \<Rightarrow> bool" where
  "js_less (Fin a) (Fin b) \<longleftrightarrow> a < b"
| "js_less (Fin a) PosInf \<longleftrightarrow> True"
| "js_less NegInf (Fin b) \<longleftrightarrow> True"
| "js_less NegInf PosInf \<longleftrightarrow> True"
| "js_less _ _ \<longleftrightarrow> False"

definition matches_type :: "jsval \<Rightarrow> string \<Rightarrow> bool" where
  "matches_type v t =
     (if t = ''null'' then v = JNull
      else if t = ''array'' then (case v of JArr _ \<Rightarrow> True | _ \<Rightarrow> False)
      else if t = ''object'' then is_record v
      else if t = ''integer'' then (case v of JNum n \<Rightarrow> js_integer n | _ \<Rightarrow> False)
      else if t = ''number'' then (case v of JNum n \<Rightarrow> js_number_finite n | _ \<Rightarrow> False)
      else if t = ''boolean'' then (case v of JBool _ \<Rightarrow> True | _ \<Rightarrow> False)
      else if t = ''string'' then (case v of JStr _ \<Rightarrow> True | _ \<Rightarrow> False)
      else True)"

text \<open>\<open>Array.isArray(v) ? v : []\<close>, and its records\<close>

definition items_of :: "jsval \<Rightarrow> jsval list" where
  "items_of v = (case v of JArr xs \<Rightarrow> xs | _ \<Rightarrow> [])"

definition records_of :: "jsval \<Rightarrow> jsobj list" where
  "records_of v = List.map_filter as_record (items_of v)"

definition record_or_empty :: "jsval \<Rightarrow> jsobj" where
  "record_or_empty v = (case as_record v of None \<Rightarrow> [] | Some kvs \<Rightarrow> kvs)"

section \<open>Validation\<close>

text \<open>The messages on the value itself: its type, then its own constraints\<close>

definition type_error :: "jsval \<Rightarrow> jsobj \<Rightarrow> string \<Rightarrow> string option" where
  "type_error v schema path =
     (case get_prop schema ''type'' of
        JStr t \<Rightarrow> if matches_type v t then None else Some (path @ '':type:'' @ t)
      | JArr ts \<Rightarrow>
          if list_ex (\<lambda>c. case c of JStr t \<Rightarrow> matches_type v t | _ \<Rightarrow> False) ts then None
          else Some (path @ '':type'')
      | _ \<Rightarrow> None)"

definition error_if :: "bool \<Rightarrow> string \<Rightarrow> string list" where
  "error_if b e = (if b then [e] else [])"

definition below_limit :: "jsobj \<Rightarrow> string \<Rightarrow> jsnum option \<Rightarrow> bool" where
  "below_limit schema k n =
     (case (get_prop schema k, n) of (JNum l, Some m) \<Rightarrow> js_less m l | _ \<Rightarrow> False)"

definition above_limit :: "jsobj \<Rightarrow> string \<Rightarrow> jsnum option \<Rightarrow> bool" where
  "above_limit schema k n =
     (case (get_prop schema k, n) of (JNum l, Some m) \<Rightarrow> js_less l m | _ \<Rightarrow> False)"

definition text_length :: "jsval \<Rightarrow> jsnum option" where
  "text_length v = (case v of JStr s \<Rightarrow> Some (Fin (of_nat (length s))) | _ \<Rightarrow> None)"

definition number_value :: "jsval \<Rightarrow> jsnum option" where
  "number_value v = (case v of JNum n \<Rightarrow> Some n | _ \<Rightarrow> None)"

definition item_count :: "jsval \<Rightarrow> jsnum option" where
  "item_count v = (case v of JArr xs \<Rightarrow> Some (Fin (of_nat (length xs))) | _ \<Rightarrow> None)"

definition pattern_errors :: "(string \<Rightarrow> string \<Rightarrow> bool option) \<Rightarrow> jsval \<Rightarrow> jsobj \<Rightarrow> string \<Rightarrow> string list" where
  "pattern_errors rx v schema path =
     (case (get_prop schema ''pattern'', v) of
        (JStr p, JStr s) \<Rightarrow>
          (case rx p s of
             None \<Rightarrow> [path @ '':invalidPattern'']
           | Some matched \<Rightarrow> error_if (\<not> matched) (path @ '':pattern''))
      | _ \<Rightarrow> [])"

definition own_errors :: "(string \<Rightarrow> string \<Rightarrow> bool option) \<Rightarrow> jsval \<Rightarrow> jsobj \<Rightarrow> string \<Rightarrow> string list" where
  "own_errors rx v schema path =
     (case get_prop schema ''enum'' of
        JArr cs \<Rightarrow> error_if (\<not> list_ex (\<lambda>c. js_same c v) cs) (path @ '':enum'')
      | _ \<Rightarrow> []) @
     error_if (has_prop schema ''const'' \<and> \<not> js_same (get_prop schema ''const'') v) (path @ '':const'') @
     error_if (below_limit schema ''minLength'' (text_length v)) (path @ '':minLength'') @
     error_if (above_limit schema ''maxLength'' (text_length v)) (path @ '':maxLength'') @
     pattern_errors rx v schema path @
     error_if (below_limit schema ''minimum'' (number_value v)) (path @ '':minimum'') @
     error_if (above_limit schema ''maximum'' (number_value v)) (path @ '':maximum'') @
     error_if (below_limit schema ''minItems'' (item_count v)) (path @ '':minItems'') @
     error_if (above_limit schema ''maxItems'' (item_count v)) (path @ '':maxItems'')"

definition required_errors :: "jsobj \<Rightarrow> jsobj \<Rightarrow> string \<Rightarrow> string list" where
  "required_errors kvs schema path =
     concat (map (\<lambda>c. case c of JStr k \<Rightarrow> error_if (\<not> has_prop kvs k) (path @ ''.'' @ k @ '':required'') | _ \<Rightarrow> [])
       (items_of (get_prop schema ''required'')))"

definition additional_errors :: "jsobj \<Rightarrow> jsobj \<Rightarrow> string \<Rightarrow> string list" where
  "additional_errors kvs schema path =
     (if is_false (get_prop schema ''additionalProperties'')
      then concat (map (\<lambda>(k, _). error_if (\<not> has_prop (record_or_empty (get_prop schema ''properties'')) k)
        (path @ ''.'' @ k @ '':additionalProperties'')) kvs)
      else [])"

text \<open>The size of a schema, on which the recursion of the module descends\<close>

lemma size_get_prop: "get_prop kvs k = v \<Longrightarrow> v \<noteq> JUndef \<Longrightarrow> size v < size (JObj kvs)"
proof -
  assume "get_prop kvs k = v" "v \<noteq> JUndef"
  then have "(k, v) \<in> set kvs" by (auto simp: get_prop_def dest: map_of_SomeD split: option.splits)
  then show ?thesis by (induction kvs) auto
qed

lemma size_element: "x \<in> set xs \<Longrightarrow> size x < size (JArr xs)"
  by (induction xs) auto

lemma size_items: "x \<in> set (items_of v) \<Longrightarrow> size x < size v"
  using size_element by (cases v) (auto simp: items_of_def)

lemma as_record_Some [simp]: "as_record v = Some kvs \<longleftrightarrow> v = JObj kvs"
  by (cases v) (auto simp: as_record_def)

lemma records_of_iff: "kvs \<in> set (records_of v) \<longleftrightarrow> JObj kvs \<in> set (items_of v)"
  by (auto simp: records_of_def List.map_filter_def) (auto simp: as_record_def image_iff split: jsval.splits)

lemma size_prop_record: "get_prop kvs k = JObj o' \<Longrightarrow> size (JObj o') < size (JObj kvs)"
  using size_get_prop by fastforce

lemma size_prop_flipped: "JObj o' = get_prop kvs k \<Longrightarrow> size (get_prop kvs k) < size (JObj kvs)"
  using size_prop_record by metis

lemma size_grandchild:
  "get_prop schema k = JObj props \<Longrightarrow> get_prop props k' = JObj child \<Longrightarrow> size (JObj child) < size (JObj schema)"
  using size_prop_record less_trans by blast

lemma size_alternative: "alt \<in> set (records_of (get_prop schema k)) \<Longrightarrow> size (JObj alt) < size (JObj schema)"
proof -
  assume "alt \<in> set (records_of (get_prop schema k))"
  then have alt: "size (JObj alt) < size (get_prop schema k)" using size_items records_of_iff by blast
  then have "get_prop schema k \<noteq> JUndef" by (cases "get_prop schema k") auto
  with alt show ?thesis using size_get_prop less_trans by blast
qed

lemma size_child:
  "get_prop schema ''properties'' = JObj props \<Longrightarrow> (k, JObj child) \<in> set props \<Longrightarrow> size (JObj child) < size (JObj schema)"
proof -
  assume "get_prop schema ''properties'' = JObj props" and child: "(k, JObj child) \<in> set props"
  then have "size (JObj props) < size (JObj schema)" using size_prop_record by blast
  moreover have "size (JObj child) < size (JObj props)" using child by (induction props) auto
  ultimately show ?thesis by simp
qed

function validate_schema ::
  "(string \<Rightarrow> string \<Rightarrow> bool option) \<Rightarrow> jsval \<Rightarrow> jsobj \<Rightarrow> string \<Rightarrow> string list" where
  "validate_schema rx v schema path =
     (let alternatives = records_of (get_prop schema ''anyOf'');
          branches = map (\<lambda>alternative. validate_schema rx v alternative path) alternatives
      in if alternatives \<noteq> [] \<and> list_all (\<lambda>es. es \<noteq> []) branches
         then [path @ '':anyOf('' @
           join ''; '' (map (\<lambda>(i, es). nat_text i @ ''='' @ hd es) (List.enumerate 0 branches)) @ '')'']
         else case type_error v schema path of
             Some e \<Rightarrow> [e]
           | None \<Rightarrow>
               own_errors rx v schema path @
               (case (v, get_prop schema ''items'') of
                  (JArr xs, JObj items) \<Rightarrow>
                    concat (map (\<lambda>(i, x). validate_schema rx x items (path @ ''['' @ nat_text i @ '']''))
                      (List.enumerate 0 xs))
                | _ \<Rightarrow> []) @
               (case v of
                  JObj kvs \<Rightarrow>
                    required_errors kvs schema path @
                    (case get_prop schema ''properties'' of
                       JObj props \<Rightarrow>
                         concat (map (\<lambda>(k, child).
                             case child of
                               JObj c \<Rightarrow>
                                 if has_prop kvs k then validate_schema rx (get_prop kvs k) c (path @ ''.'' @ k) else []
                             | _ \<Rightarrow> []) props)
                     | _ \<Rightarrow> []) @
                    additional_errors kvs schema path
                | _ \<Rightarrow> []))"
  by pat_completeness auto
termination
  by (relation "measure (\<lambda>(rx, v, schema, path). size (JObj schema))")
    (auto simp del: jsval.size simp: size_alternative size_prop_record size_prop_flipped size_child [OF sym])

declare validate_schema.simps [simp del]

definition validate_structured_output ::
  "(string \<Rightarrow> string \<Rightarrow> bool option) \<Rightarrow> jsval \<Rightarrow> jsobj \<Rightarrow> string option" where
  "validate_structured_output rx v schema =
     (case validate_schema rx v schema ''$'' of [] \<Rightarrow> None | e # _ \<Rightarrow> Some e)"

definition validate_alternative :: "(string \<Rightarrow> string \<Rightarrow> bool option) \<Rightarrow> jsval \<Rightarrow> jsobj \<Rightarrow> bool" where
  "validate_alternative rx v schema \<longleftrightarrow> validate_schema rx v schema ''$'' = []"

section \<open>Near misses of null\<close>

definition is_near_miss_null :: "jsval \<Rightarrow> bool" where
  "is_near_miss_null v \<longleftrightarrow>
     (case v of
        JStr s \<Rightarrow> js_lower (js_trim s) \<in> {[], ''null'', ''none''}
      | JObj kvs \<Rightarrow> list_all (\<lambda>(_, w). w = JNull) kvs
      | _ \<Rightarrow> False)"

text \<open>The loops that rebuild an array or a record when one of its parts changed\<close>

definition rebuilt_array :: "(jsval \<times> bool) list \<Rightarrow> jsval \<Rightarrow> jsval \<times> bool" where
  "rebuilt_array rs v = (if list_ex snd rs then (JArr (map fst rs), True) else (v, False))"

definition rebuilt_record :: "(string \<times> jsval \<times> bool) list \<Rightarrow> jsval \<Rightarrow> jsval \<times> bool" where
  "rebuilt_record rs v =
     (if list_ex (\<lambda>(_, _, changed). changed) rs then (JObj (map (\<lambda>(k, w, _). (k, w)) rs), True) else (v, False))"

function normalize_nullable_near_misses ::
  "(string \<Rightarrow> string \<Rightarrow> bool option) \<Rightarrow> jsval \<Rightarrow> jsobj \<Rightarrow> jsval \<times> bool" where
  "normalize_nullable_near_misses rx v schema =
     (let any_of = records_of (get_prop schema ''anyOf'')
      in if any_of \<noteq> []
         then if list_ex (validate_alternative rx v) any_of then (v, False)
           else if list_ex (\<lambda>alternative. get_prop alternative ''type'' = JStr ''null'') any_of \<and> is_near_miss_null v
           then (JNull, True)
           else (v, False)
         else case (v, get_prop schema ''items'', get_prop schema ''properties'') of
             (JArr xs, JObj items, _) \<Rightarrow> rebuilt_array (map (\<lambda>x. normalize_nullable_near_misses rx x items) xs) v
           | (JObj kvs, _, JObj props) \<Rightarrow>
               rebuilt_record (map (\<lambda>(k, x).
                 (k, case get_prop props k of
                       JObj child \<Rightarrow> normalize_nullable_near_misses rx x child
                     | _ \<Rightarrow> (x, False))) kvs) v
           | _ \<Rightarrow> (v, False))"
  by pat_completeness auto
termination
  by (relation "measure (\<lambda>(rx, v, schema). size (JObj schema))")
    (auto simp del: jsval.size simp: size_alternative size_prop_record size_prop_flipped
      intro: less_trans [OF size_prop_record size_prop_record [OF sym]])

declare normalize_nullable_near_misses.simps [simp del]

section \<open>Shapes of gateways\<close>

definition expected_types :: "jsobj \<Rightarrow> string list" where
  "expected_types schema =
     (case get_prop schema ''type'' of
        JStr t \<Rightarrow> [t]
      | JArr ts \<Rightarrow> List.map_filter (\<lambda>t. case t of JStr s \<Rightarrow> Some s | _ \<Rightarrow> None) ts
      | _ \<Rightarrow> [])"

definition gateway_scalar :: "(string \<Rightarrow> jsnum) \<Rightarrow> string \<Rightarrow> string list \<Rightarrow> jsval \<times> bool" where
  "gateway_scalar number_of s expected =
     (let trimmed = js_trim s
      in if (''integer'' \<in> set expected \<or> ''number'' \<in> set expected) \<and> trimmed \<noteq> [] \<and>
            js_number_finite (number_of trimmed) \<and>
            (''integer'' \<notin> set expected \<or> js_integer (number_of trimmed))
         then (JNum (number_of trimmed), True)
         else if ''boolean'' \<in> set expected \<and> (trimmed = ''true'' \<or> trimmed = ''false'')
         then (JBool (trimmed = ''true''), True)
         else (JStr s, False))"

text \<open>The single text of a record, and the elements of a record that stands for an array\<close>

definition wrapped_text :: "jsobj \<Rightarrow> string option" where
  "wrapped_text kvs = (case kvs of [(_, JStr s)] \<Rightarrow> Some s | _ \<Rightarrow> None)"

definition wrapped_items :: "jsobj \<Rightarrow> jsval list option" where
  "wrapped_items kvs =
     (case kvs of
        [(k, inner)] \<Rightarrow> if k = ''item'' then Some (case inner of JArr xs \<Rightarrow> xs | _ \<Rightarrow> [inner]) else None
      | _ \<Rightarrow> None)"

lemma size_wrapped_items: "wrapped_items kvs = Some xs \<Longrightarrow> size (JArr xs) < size (JObj kvs)"
  by (auto simp: wrapped_items_def split: list.splits if_splits prod.splits jsval.splits)

function normalize_gateway_shapes :: "(string \<Rightarrow> jsnum) \<Rightarrow> jsval \<Rightarrow> jsobj \<Rightarrow> jsval \<times> bool" where
  "normalize_gateway_shapes number_of v schema =
     (let expected = expected_types schema
      in case v of
          JStr s \<Rightarrow> gateway_scalar number_of s expected
        | JArr xs \<Rightarrow>
            (case get_prop schema ''items'' of
               JObj items \<Rightarrow> rebuilt_array (map (\<lambda>x. normalize_gateway_shapes number_of x items) xs) v
             | _ \<Rightarrow> (v, False))
        | JObj kvs \<Rightarrow>
            (case (if ''string'' \<in> set expected then wrapped_text kvs else None) of
               Some s \<Rightarrow> (JStr s, True)
             | None \<Rightarrow>
                 (case (if ''array'' \<in> set expected then wrapped_items kvs else None) of
                    Some xs \<Rightarrow> (fst (normalize_gateway_shapes number_of (JArr xs) schema), True)
                  | None \<Rightarrow>
                      (case get_prop schema ''properties'' of
                         JObj props \<Rightarrow>
                           rebuilt_record (map (\<lambda>(k, x).
                             (k, case get_prop props k of
                                   JObj child \<Rightarrow> normalize_gateway_shapes number_of x child
                                 | _ \<Rightarrow> (x, False))) kvs) v
                       | _ \<Rightarrow> (v, False))))
        | _ \<Rightarrow> (v, False))"
  by pat_completeness auto
termination
  by (relation "measures [\<lambda>(number_of, v, schema). size (JObj schema), \<lambda>(number_of, v, schema). size v]")
    (auto simp del: jsval.size simp: size_prop_record size_prop_flipped size_wrapped_items
      dest: size_grandchild split: if_splits)

declare normalize_gateway_shapes.simps [simp del]

section \<open>Conforming values\<close>

text \<open>What a schema says, constraint by constraint\<close>

definition type_ok :: "jsval \<Rightarrow> jsobj \<Rightarrow> bool" where
  "type_ok v schema \<longleftrightarrow>
     (case get_prop schema ''type'' of
        JStr t \<Rightarrow> matches_type v t
      | JArr ts \<Rightarrow> \<exists>t. JStr t \<in> set ts \<and> matches_type v t
      | _ \<Rightarrow> True)"

definition own_ok :: "(string \<Rightarrow> string \<Rightarrow> bool option) \<Rightarrow> jsval \<Rightarrow> jsobj \<Rightarrow> bool" where
  "own_ok rx v schema \<longleftrightarrow>
     (\<forall>cs. get_prop schema ''enum'' = JArr cs \<longrightarrow> (\<exists>c\<in>set cs. js_same c v)) \<and>
     (has_prop schema ''const'' \<longrightarrow> js_same (get_prop schema ''const'') v) \<and>
     (\<forall>s. v = JStr s \<longrightarrow>
        (\<forall>l. get_prop schema ''minLength'' = JNum l \<longrightarrow> \<not> js_less (Fin (of_nat (length s))) l) \<and>
        (\<forall>l. get_prop schema ''maxLength'' = JNum l \<longrightarrow> \<not> js_less l (Fin (of_nat (length s)))) \<and>
        (\<forall>p. get_prop schema ''pattern'' = JStr p \<longrightarrow> rx p s = Some True)) \<and>
     (\<forall>n. v = JNum n \<longrightarrow>
        (\<forall>l. get_prop schema ''minimum'' = JNum l \<longrightarrow> \<not> js_less n l) \<and>
        (\<forall>l. get_prop schema ''maximum'' = JNum l \<longrightarrow> \<not> js_less l n)) \<and>
     (\<forall>xs. v = JArr xs \<longrightarrow>
        (\<forall>l. get_prop schema ''minItems'' = JNum l \<longrightarrow> \<not> js_less (Fin (of_nat (length xs))) l) \<and>
        (\<forall>l. get_prop schema ''maxItems'' = JNum l \<longrightarrow> \<not> js_less l (Fin (of_nat (length xs)))))"

definition keys_ok :: "jsobj \<Rightarrow> jsobj \<Rightarrow> bool" where
  "keys_ok kvs schema \<longleftrightarrow>
     (\<forall>ks k. get_prop schema ''required'' = JArr ks \<longrightarrow> JStr k \<in> set ks \<longrightarrow> has_prop kvs k) \<and>
     (get_prop schema ''additionalProperties'' = JBool False \<longrightarrow>
        (\<forall>(k, _)\<in>set kvs. has_prop (record_or_empty (get_prop schema ''properties'')) k))"

inductive conforms :: "(string \<Rightarrow> string \<Rightarrow> bool option) \<Rightarrow> jsval \<Rightarrow> jsobj \<Rightarrow> bool" for rx where
  "records_of (get_prop schema ''anyOf'') = [] \<or>
     (\<exists>alternative\<in>set (records_of (get_prop schema ''anyOf'')). conforms rx v alternative) \<Longrightarrow>
   type_ok v schema \<Longrightarrow> own_ok rx v schema \<Longrightarrow>
   (\<And>xs items x. v = JArr xs \<Longrightarrow> get_prop schema ''items'' = JObj items \<Longrightarrow> x \<in> set xs \<Longrightarrow> conforms rx x items) \<Longrightarrow>
   (\<And>kvs. v = JObj kvs \<Longrightarrow> keys_ok kvs schema) \<Longrightarrow>
   (\<And>kvs props k child. v = JObj kvs \<Longrightarrow> get_prop schema ''properties'' = JObj props \<Longrightarrow>
      (k, JObj child) \<in> set props \<Longrightarrow> has_prop kvs k \<Longrightarrow> conforms rx (get_prop kvs k) child) \<Longrightarrow>
   conforms rx v schema"

inductive_simps conforms_iff: "conforms rx v schema"


lemma type_error_iff: "type_error v schema path = None \<longleftrightarrow> type_ok v schema"
  unfolding type_error_def type_ok_def
proof (cases "get_prop schema ''type''")
  case (JArr ts)
  have "list_ex (\<lambda>c. case c of JStr t \<Rightarrow> matches_type v t | _ \<Rightarrow> False) ts \<longleftrightarrow> (\<exists>t. JStr t \<in> set ts \<and> matches_type v t)"
    by (induction ts) (auto split: jsval.splits)
  with JArr show "((case get_prop schema ''type'' of
        JStr t \<Rightarrow> if matches_type v t then None else Some (path @ '':type:'' @ t)
      | JArr ts \<Rightarrow>
          if list_ex (\<lambda>c. case c of JStr t \<Rightarrow> matches_type v t | _ \<Rightarrow> False) ts then None
          else Some (path @ '':type'')
      | _ \<Rightarrow> None) = None) = (case get_prop schema ''type'' of
        JStr t \<Rightarrow> matches_type v t
      | JArr ts \<Rightarrow> \<exists>t. JStr t \<in> set ts \<and> matches_type v t
      | _ \<Rightarrow> True)" by simp
qed simp_all

lemma error_if_iff [simp]: "error_if b e = [] \<longleftrightarrow> \<not> b"
  by (simp add: error_if_def)

lemma below_limit_iff:
  "below_limit schema k n \<longleftrightarrow> (\<exists>l m. get_prop schema k = JNum l \<and> n = Some m \<and> js_less m l)"
  unfolding below_limit_def by (cases "get_prop schema k"; cases n) simp_all

lemma above_limit_iff:
  "above_limit schema k n \<longleftrightarrow> (\<exists>l m. get_prop schema k = JNum l \<and> n = Some m \<and> js_less l m)"
  unfolding above_limit_def by (cases "get_prop schema k"; cases n) simp_all

lemma measured_iff:
  "text_length v = Some m \<longleftrightarrow> (\<exists>s. v = JStr s \<and> m = Fin (of_nat (length s)))"
  "number_value v = Some m \<longleftrightarrow> v = JNum m"
  "item_count v = Some m \<longleftrightarrow> (\<exists>xs. v = JArr xs \<and> m = Fin (of_nat (length xs)))"
  by (cases v; auto simp: text_length_def number_value_def item_count_def)+

lemma pattern_errors_iff:
  "pattern_errors rx v schema path = [] \<longleftrightarrow>
     (\<forall>p s. get_prop schema ''pattern'' = JStr p \<longrightarrow> v = JStr s \<longrightarrow> rx p s = Some True)"
  unfolding pattern_errors_def by (cases "get_prop schema ''pattern''"; cases v) (auto split: option.split)

lemma enum_errors_iff:
  "(case get_prop schema ''enum'' of
      JArr cs \<Rightarrow> error_if (\<not> list_ex (\<lambda>c. js_same c v) cs) e
    | _ \<Rightarrow> []) = [] \<longleftrightarrow> (\<forall>cs. get_prop schema ''enum'' = JArr cs \<longrightarrow> (\<exists>c\<in>set cs. js_same c v))"
  by (cases "get_prop schema ''enum''") (simp_all add: list_ex_iff)

lemma own_errors_iff: "own_errors rx v schema path = [] \<longleftrightarrow> own_ok rx v schema"
  unfolding own_errors_def own_ok_def append_is_Nil_conv enum_errors_iff pattern_errors_iff error_if_iff
    below_limit_iff above_limit_iff measured_iff
  by blast

lemma key_errors_iff:
  "required_errors kvs schema path = [] \<and> additional_errors kvs schema path = [] \<longleftrightarrow> keys_ok kvs schema"
proof -
  have "concat (map (\<lambda>c. case c of JStr k \<Rightarrow> error_if (\<not> has_prop kvs k) (path @ ''.'' @ k @ '':required'') | _ \<Rightarrow> []) ks) = [] \<longleftrightarrow>
      (\<forall>k. JStr k \<in> set ks \<longrightarrow> has_prop kvs k)" for ks
    by (induction ks) (auto split: jsval.splits)
  then have "required_errors kvs schema path = [] \<longleftrightarrow>
      (\<forall>ks k. get_prop schema ''required'' = JArr ks \<longrightarrow> JStr k \<in> set ks \<longrightarrow> has_prop kvs k)"
    unfolding required_errors_def items_of_def by (cases "get_prop schema ''required''") simp_all
  moreover have "additional_errors kvs schema path = [] \<longleftrightarrow>
      (get_prop schema ''additionalProperties'' = JBool False \<longrightarrow>
        (\<forall>(k, _)\<in>set kvs. has_prop (record_or_empty (get_prop schema ''properties'')) k))"
    unfolding additional_errors_def is_false_def by auto
  ultimately show ?thesis unfolding keys_ok_def by blast
qed

lemma enumerate_all: "(\<forall>(i, x)\<in>set (List.enumerate n xs). P x) \<longleftrightarrow> (\<forall>x\<in>set xs. P x)"
  by (induction xs arbitrary: n) auto

text \<open>The validator reports nothing exactly on the conforming values, under every path\<close>

theorem validate_schema_iff: "validate_schema rx v schema path = [] \<longleftrightarrow> conforms rx v schema"
proof (induction rx v schema path rule: validate_schema.induct)
  case (1 rx v schema path)
  let ?alternatives = "records_of (get_prop schema ''anyOf'')"
  let ?branches = "map (\<lambda>alternative. validate_schema rx v alternative path) ?alternatives"
  have alternatives: "\<not> list_all (\<lambda>es. es \<noteq> []) ?branches \<longleftrightarrow> (\<exists>alternative\<in>set ?alternatives. conforms rx v alternative)"
    using 1(1) [OF refl] by (auto simp: list_all_iff)
  show ?case
  proof (cases "?alternatives \<noteq> [] \<and> list_all (\<lambda>es. es \<noteq> []) ?branches")
    case True
    then show ?thesis using alternatives
      by (subst validate_schema.simps, subst conforms_iff) auto
  next
    case any_of: False
    show ?thesis
    proof (cases "type_error v schema path")
      case (Some e)
      then have "\<not> type_ok v schema" using type_error_iff [of v schema path] by simp
      with Some any_of show ?thesis by (subst validate_schema.simps, subst conforms_iff) (simp add: Let_def)
    next
      case None

      define item_errors where "item_errors = (case (v, get_prop schema ''items'') of
          (JArr xs, JObj items) \<Rightarrow>
            concat (map (\<lambda>(i, x). validate_schema rx x items (path @ ''['' @ nat_text i @ '']''))
              (List.enumerate 0 xs))
        | _ \<Rightarrow> [])"
      define record_errors where "record_errors = (case v of
          JObj kvs \<Rightarrow>
            required_errors kvs schema path @
            (case get_prop schema ''properties'' of
               JObj props \<Rightarrow>
                 concat (map (\<lambda>(k, child).
                     case child of
                       JObj c \<Rightarrow>
                         if has_prop kvs k then validate_schema rx (get_prop kvs k) c (path @ ''.'' @ k) else []
                     | _ \<Rightarrow> []) props)
             | _ \<Rightarrow> []) @
            additional_errors kvs schema path
        | _ \<Rightarrow> [])"
      have unfolded: "validate_schema rx v schema path = own_errors rx v schema path @ item_errors @ record_errors"
        unfolding item_errors_def record_errors_def using any_of None
        by (subst validate_schema.simps) (simp only: Let_def if_False option.case)
      have items: "item_errors = [] \<longleftrightarrow>
          (\<forall>xs items x. v = JArr xs \<longrightarrow> get_prop schema ''items'' = JObj items \<longrightarrow> x \<in> set xs \<longrightarrow> conforms rx x items)"
      proof (cases "\<exists>xs items. v = JArr xs \<and> get_prop schema ''items'' = JObj items")
        case True
        then obtain xs its where v: "v = JArr xs" and its: "get_prop schema ''items'' = JObj its" by blast
        have "validate_schema rx x its (path @ ''['' @ nat_text i @ '']'') = [] \<longleftrightarrow> conforms rx x its"
          if "(i, x) \<in> set (List.enumerate 0 xs)" for i x
          by (rule 1(2) [OF refl refl any_of None _ v its that refl]) (simp add: its)
        then have "item_errors = [] \<longleftrightarrow> (\<forall>(i, x)\<in>set (List.enumerate 0 xs). conforms rx x its)"
          unfolding item_errors_def v its by auto
        also have "\<dots> \<longleftrightarrow> (\<forall>x\<in>set xs. conforms rx x its)"
          by (rule enumerate_all)
        finally show ?thesis using v its by auto
      next
        case False
        then show ?thesis unfolding item_errors_def by (auto split: jsval.split)
      qed
      have records: "record_errors = [] \<longleftrightarrow>
          (\<forall>kvs. v = JObj kvs \<longrightarrow> keys_ok kvs schema) \<and>
          (\<forall>kvs props k child. v = JObj kvs \<longrightarrow> get_prop schema ''properties'' = JObj props \<longrightarrow>
            (k, JObj child) \<in> set props \<longrightarrow> has_prop kvs k \<longrightarrow> conforms rx (get_prop kvs k) child)"
      proof (cases "\<exists>kvs. v = JObj kvs")
        case True
        then obtain kvs where v: "v = JObj kvs" ..
        have props: "(case get_prop schema ''properties'' of
               JObj props \<Rightarrow>
                 concat (map (\<lambda>(k, child).
                     case child of
                       JObj c \<Rightarrow>
                         if has_prop kvs k then validate_schema rx (get_prop kvs k) c (path @ ''.'' @ k) else []
                     | _ \<Rightarrow> []) props)
             | _ \<Rightarrow> []) = [] \<longleftrightarrow>
            (\<forall>props k child. get_prop schema ''properties'' = JObj props \<longrightarrow>
              (k, JObj child) \<in> set props \<longrightarrow> has_prop kvs k \<longrightarrow> conforms rx (get_prop kvs k) child)"
        proof (cases "get_prop schema ''properties''")
          case (JObj props)
          have "validate_schema rx (get_prop kvs k) child (path @ ''.'' @ k) = [] \<longleftrightarrow> conforms rx (get_prop kvs k) child"
            if "(k, JObj child) \<in> set props" "has_prop kvs k" for k child
            by (rule 1(3) [OF refl refl any_of None v JObj that(1) refl refl that(2)])
          then show ?thesis unfolding JObj by (fastforce split: jsval.splits)
        qed simp_all
        show ?thesis unfolding record_errors_def v
          using props key_errors_iff [of kvs schema path] by auto
      next
        case False
        then show ?thesis unfolding record_errors_def by (auto split: jsval.split)
      qed
      have "?alternatives = [] \<or> (\<exists>alternative\<in>set ?alternatives. conforms rx v alternative)"
        using any_of alternatives by blast
      moreover have "type_ok v schema" using None type_error_iff by blast
      ultimately show ?thesis
        unfolding unfolded append_is_Nil_conv items records own_errors_iff
        by (subst conforms_iff) blast
    qed
  qed
qed

lemma validate_alternative_iff: "validate_alternative rx v schema \<longleftrightarrow> conforms rx v schema"
  by (simp add: validate_alternative_def validate_schema_iff)

lemma validate_structured_output_iff: "validate_structured_output rx v schema = None \<longleftrightarrow> conforms rx v schema"
  using validate_schema_iff [of rx v schema] by (auto simp: validate_structured_output_def split: list.split)

section \<open>What the normalizations leave\<close>

lemma conforms_items:
  "conforms rx (JArr xs) schema \<Longrightarrow> get_prop schema ''items'' = JObj items \<Longrightarrow> x \<in> set xs \<Longrightarrow> conforms rx x items"
  by (subst (asm) conforms_iff) blast

lemma conforms_property:
  assumes "conforms rx (JObj kvs) schema" "distinct (map fst kvs)" "get_prop schema ''properties'' = JObj props"
    and "(k, x) \<in> set kvs" "get_prop props k = JObj child"
  shows "conforms rx x child"
proof -
  have "(k, JObj child) \<in> set props" "get_prop kvs k = x" "has_prop kvs k"
    using assms(2,4,5) by (auto simp: get_prop_def has_prop_def dest: map_of_SomeD split: option.splits)
  with assms(1,3) show ?thesis by (subst (asm) conforms_iff) blast
qed

lemma conforms_type: "conforms rx v schema \<Longrightarrow> type_ok v schema"
  by (subst (asm) conforms_iff) blast

lemma conforms_any_of:
  "conforms rx v schema \<Longrightarrow> records_of (get_prop schema ''anyOf'') \<noteq> [] \<Longrightarrow>
   list_ex (validate_alternative rx v) (records_of (get_prop schema ''anyOf''))"
  by (subst (asm) conforms_iff) (auto simp: list_ex_iff validate_alternative_iff)

text \<open>The records of a JavaScript value have each key once\<close>

fun keys_once :: "jsval \<Rightarrow> bool" where
  "keys_once (JArr xs) \<longleftrightarrow> (\<forall>x\<in>set xs. keys_once x)"
| "keys_once (JObj kvs) \<longleftrightarrow> distinct (map fst kvs) \<and> (\<forall>kv\<in>set kvs. keys_once (snd kv))"
| "keys_once _ \<longleftrightarrow> True"

lemma rebuilt_array_unchanged: "\<forall>x\<in>set xs. f x = (x, False) \<Longrightarrow> rebuilt_array (map f xs) v = (v, False)"
  by (auto simp: rebuilt_array_def list_ex_iff)

lemma rebuilt_record_unchanged:
  "\<forall>(k, x)\<in>set kvs. f k x = (x, False) \<Longrightarrow> rebuilt_record (map (\<lambda>(k, x). (k, f k x)) kvs) v = (v, False)"
  by (fastforce simp: rebuilt_record_def list_ex_iff)

theorem valid_not_nulled:
  "conforms rx v schema \<Longrightarrow> keys_once v \<Longrightarrow> normalize_nullable_near_misses rx v schema = (v, False)"
proof (induction rx v schema rule: normalize_nullable_near_misses.induct)
  case (1 rx v schema)
  show ?case
  proof (cases "records_of (get_prop schema ''anyOf'') = []")
    case False
    with conforms_any_of [OF 1(3)] show ?thesis
      by (subst normalize_nullable_near_misses.simps) (simp add: Let_def)
  next
    case none: True
    consider (items) xs items where "v = JArr xs" "get_prop schema ''items'' = JObj items"
      | (properties) kvs props where "v = JObj kvs" "get_prop schema ''properties'' = JObj props"
      | (other) "\<And>xs items. v = JArr xs \<Longrightarrow> get_prop schema ''items'' \<noteq> JObj items"
          "\<And>kvs props. v = JObj kvs \<Longrightarrow> get_prop schema ''properties'' \<noteq> JObj props" by blast
    then show ?thesis
    proof cases
      case items
      have "\<forall>x\<in>set xs. normalize_nullable_near_misses rx x items = (x, False)"
        using 1(1) [OF refl _ refl items(1) refl items(2)] conforms_items 1(3,4) items none by auto
      from rebuilt_array_unchanged [OF this] items none show ?thesis
        by (subst normalize_nullable_near_misses.simps) simp
    next
      case properties
      let ?part = "\<lambda>k x. case get_prop props k of JObj child \<Rightarrow> normalize_nullable_near_misses rx x child | _ \<Rightarrow> (x, False)"
      have "?part k x = (x, False)" if "(k, x) \<in> set kvs" for k x
      proof (cases "get_prop props k")
        case (JObj child)
        have "keys_once x" "conforms rx x child"
          using 1(4) that conforms_property [OF _ _ properties(2) that JObj] 1(3) properties(1) by auto
        with 1(2) [OF refl _ refl properties(1) refl properties(2) that refl JObj] none JObj show ?thesis by simp
      qed simp_all
      then have "rebuilt_record (map (\<lambda>(k, x). (k, ?part k x)) kvs) v = (v, False)"
        by (intro rebuilt_record_unchanged) auto
      with properties none show ?thesis
        by (subst normalize_nullable_near_misses.simps) (simp split: jsval.split)
    next
      case other
      then show ?thesis using none
        by (subst normalize_nullable_near_misses.simps) (auto split: jsval.splits)
    qed
  qed
qed

lemma rebuilt_flag: "snd (rebuilt_array rs v) \<or> rebuilt_array rs v = (v, False)"
  "snd (rebuilt_record ps v) \<or> rebuilt_record ps v = (v, False)"
  by (auto simp: rebuilt_array_def rebuilt_record_def)

lemma nullable_flag:
  "snd (normalize_nullable_near_misses rx v schema) \<or> normalize_nullable_near_misses rx v schema = (v, False)"
  by (subst (1 2) normalize_nullable_near_misses.simps)
    (simp add: Let_def rebuilt_flag split: jsval.split)

text \<open>A second run finds nothing more\<close>

theorem nullable_idempotent:
  "normalize_nullable_near_misses rx (fst (normalize_nullable_near_misses rx v schema)) schema =
     (fst (normalize_nullable_near_misses rx v schema), False)"
proof (induction rx v schema rule: normalize_nullable_near_misses.induct)
  case (1 rx v schema)
  show ?case
  proof (cases "snd (normalize_nullable_near_misses rx v schema)")
    case False
    with nullable_flag [of rx v schema] show ?thesis by simp
  next
    case changed: True
    show ?thesis
    proof (cases "records_of (get_prop schema ''anyOf'') = []")
      case False
      with changed have "normalize_nullable_near_misses rx v schema = (JNull, True)"
        by (subst (asm) normalize_nullable_near_misses.simps, subst normalize_nullable_near_misses.simps)
          (auto simp: Let_def split: if_splits)
      moreover have "normalize_nullable_near_misses rx JNull schema = (JNull, False)"
        using False by (subst normalize_nullable_near_misses.simps) (simp add: Let_def is_near_miss_null_def)
      ultimately show ?thesis by simp
    next
      case none: True
      consider (items) xs items where "v = JArr xs" "get_prop schema ''items'' = JObj items"
        | (properties) kvs props where "v = JObj kvs" "get_prop schema ''properties'' = JObj props"
        | (other) "\<And>xs items. v = JArr xs \<Longrightarrow> get_prop schema ''items'' \<noteq> JObj items"
            "\<And>kvs props. v = JObj kvs \<Longrightarrow> get_prop schema ''properties'' \<noteq> JObj props" by blast
      then show ?thesis
      proof cases
        case items
        let ?run = "\<lambda>x. normalize_nullable_near_misses rx x items"
        have run: "normalize_nullable_near_misses rx (JArr ys) schema = rebuilt_array (map ?run ys) (JArr ys)" for ys
          using items(2) none by (subst normalize_nullable_near_misses.simps) simp
        have "?run (fst (?run x)) = (fst (?run x), False)" if "x \<in> set xs" for x
          using 1(1) [OF refl _ refl items(1) refl items(2) that] none by simp
        then have again: "\<forall>y\<in>set (map (\<lambda>x. fst (?run x)) xs). ?run y = (y, False)" by auto
        from changed have "normalize_nullable_near_misses rx v schema = (JArr (map (\<lambda>x. fst (?run x)) xs), True)"
          unfolding items(1) run by (auto simp: rebuilt_array_def comp_def split: if_splits)
        then show ?thesis using run rebuilt_array_unchanged [OF again] by simp
      next
        case properties
        let ?part = "\<lambda>k x. case get_prop props k of JObj child \<Rightarrow> normalize_nullable_near_misses rx x child | _ \<Rightarrow> (x, False)"
        have run: "normalize_nullable_near_misses rx (JObj ps) schema = rebuilt_record (map (\<lambda>(k, x). (k, ?part k x)) ps) (JObj ps)" for ps
          using properties(2) none by (subst normalize_nullable_near_misses.simps) (simp split: jsval.split)
        have "?part k (fst (?part k x)) = (fst (?part k x), False)" if "(k, x) \<in> set kvs" for k x
          using 1(2) [OF refl _ refl properties(1) refl properties(2) that refl] none
          by (cases "get_prop props k") simp_all
        then have again: "\<forall>(k, y)\<in>set (map (\<lambda>(k, x). (k, fst (?part k x))) kvs). ?part k y = (y, False)" by auto
        have "map (\<lambda>(k, w, _). (k, w)) (map (\<lambda>(k, x). (k, ?part k x)) kvs) = map (\<lambda>(k, x). (k, fst (?part k x))) kvs"
          by (auto simp: case_prod_beta)
        moreover from changed have "normalize_nullable_near_misses rx v schema =
            (JObj (map (\<lambda>(k, w, _). (k, w)) (map (\<lambda>(k, x). (k, ?part k x)) kvs)), True)"
          unfolding properties(1) run rebuilt_record_def by (simp split: if_splits)
        ultimately have "normalize_nullable_near_misses rx v schema = (JObj (map (\<lambda>(k, x). (k, fst (?part k x))) kvs), True)"
          by simp
        then show ?thesis using run rebuilt_record_unchanged [OF again] by simp
      next
        case other
        then have "normalize_nullable_near_misses rx v schema = (v, False)" using none
          by (subst normalize_nullable_near_misses.simps) (auto split: jsval.splits)
        with changed show ?thesis by simp
      qed
    qed
  qed
qed

section \<open>What the gateway repair leaves\<close>

text \<open>A schema in which no type that a repair produces is joined with another\<close>

definition one_type :: "jsobj \<Rightarrow> bool" where
  "one_type schema \<longleftrightarrow> length (expected_types schema) \<le> 1"

inductive plain_types :: "jsobj \<Rightarrow> bool" where
  "one_type schema \<Longrightarrow>
   (\<And>items. get_prop schema ''items'' = JObj items \<Longrightarrow> plain_types items) \<Longrightarrow>
   (\<And>props k child. get_prop schema ''properties'' = JObj props \<Longrightarrow> get_prop props k = JObj child \<Longrightarrow> plain_types child) \<Longrightarrow>
   plain_types schema"

lemma expected_type_matches:
  assumes "type_ok v schema" "one_type schema" "t \<in> set (expected_types schema)"
  shows "matches_type v t"
proof (cases "get_prop schema ''type''")
  case (JArr ts)
  with assms(1) obtain u where u: "JStr u \<in> set ts" "matches_type v u" by (auto simp: type_ok_def)
  then have "u \<in> set (expected_types schema)" using JArr
    by (force simp: expected_types_def List.map_filter_def)
  with assms(2,3) have "u = t" unfolding one_type_def
    by (metis One_nat_def le_Suc_eq le_zero_eq length_0_conv length_Suc_conv list.set(1,2) empty_iff insertE)
  with u show ?thesis by simp
next
  case (JStr u)
  with assms show ?thesis by (simp add: type_ok_def expected_types_def)
qed (use assms in \<open>simp_all add: expected_types_def\<close>)

theorem valid_not_repaired:
  "conforms rx v schema \<Longrightarrow> keys_once v \<Longrightarrow> plain_types schema \<Longrightarrow>
   normalize_gateway_shapes number_of v schema = (v, False)"
proof (induction number_of v schema rule: normalize_gateway_shapes.induct)
  case (1 number_of v schema)
  from 1(6) have one: "one_type schema" by (rule plain_types.cases) blast
  have type: "t \<in> set (expected_types schema) \<Longrightarrow> matches_type v t" for t
    using expected_type_matches conforms_type [OF 1(4)] one by blast
  show ?case
  proof (cases v)
    case (JStr s)
    have "''integer'' \<notin> set (expected_types schema)" "''number'' \<notin> set (expected_types schema)"
      "''boolean'' \<notin> set (expected_types schema)"
      using type [of "''integer''"] type [of "''number''"] type [of "''boolean''"] JStr by (auto simp: matches_type_def)
    then show ?thesis using JStr
      by (subst normalize_gateway_shapes.simps) (simp add: gateway_scalar_def Let_def)
  next
    case (JArr xs)
    show ?thesis
    proof (cases "get_prop schema ''items''")
      case (JObj items)
      have "plain_types items" using 1(6) JObj by (auto elim: plain_types.cases)
      then have "\<forall>x\<in>set xs. normalize_gateway_shapes number_of x items = (x, False)"
        using 1(1) [OF refl JArr JObj] conforms_items [OF _ JObj] 1(4,5) JArr by auto
      from rebuilt_array_unchanged [OF this] JObj JArr show ?thesis
        by (subst normalize_gateway_shapes.simps) simp
    qed (use JArr in \<open>subst normalize_gateway_shapes.simps, simp\<close>)+
  next
    case (JObj kvs)
    have not: "''string'' \<notin> set (expected_types schema)" "''array'' \<notin> set (expected_types schema)"
      using type [of "''string''"] type [of "''array''"] JObj by (auto simp: matches_type_def)
    show ?thesis
    proof (cases "get_prop schema ''properties''")
      case props: (JObj props)
      let ?part = "\<lambda>k x. case get_prop props k of JObj child \<Rightarrow> normalize_gateway_shapes number_of x child | _ \<Rightarrow> (x, False)"
      have "?part k x = (x, False)" if "(k, x) \<in> set kvs" for k x
      proof (cases "get_prop props k")
        case child: (JObj child)
        have "keys_once x" "conforms rx x child" "plain_types child"
          using 1(5,6) that conforms_property [OF _ _ props that child] 1(4) JObj props child
          by (auto elim: plain_types.cases)
        with 1(2) [OF refl JObj _ _ props that refl child] not child show ?thesis by simp
      qed simp_all
      then have "rebuilt_record (map (\<lambda>(k, x). (k, ?part k x)) kvs) v = (v, False)"
        by (intro rebuilt_record_unchanged) auto
      with props JObj not show ?thesis
        by (subst normalize_gateway_shapes.simps) simp
    qed (use JObj not in \<open>subst normalize_gateway_shapes.simps, simp\<close>)+
  qed (subst normalize_gateway_shapes.simps, simp)+
qed

text \<open>Where a schema joins string with integer, a valid text of digits becomes a number\<close>

lemma joined_type_repaired:
  "let schema = [(''type'', JArr [JStr ''string'', JStr ''integer''])]
   in conforms rx (JStr ''4'') schema \<and>
      normalize_gateway_shapes (\<lambda>_. Fin 4) (JStr ''4'') schema = (JNum (Fin 4), True)"
proof -
  have "conforms rx (JStr ''4'') [(''type'', JArr [JStr ''string'', JStr ''integer''])]"
    by (subst conforms_iff) (auto simp: records_of_def items_of_def List.map_filter_def type_ok_def own_ok_def
      matches_type_def has_prop_def get_prop_def)
  moreover have "js_trim ''4'' = ''4''" by code_simp
  ultimately show ?thesis
    by (subst normalize_gateway_shapes.simps)
      (simp add: gateway_scalar_def expected_types_def get_prop_def List.map_filter_def js_number_finite_def js_integer_def)
qed

section \<open>Properties\<close>


text \<open>An empty text in a slot that admits texts and null\<close>

definition text_or_null :: jsobj where
  "text_or_null = [(''anyOf'', JArr [JObj [(''type'', JStr ''null'')], JObj [(''type'', JStr ''string'')]])]"

lemma empty_text_conforms: "conforms rx (JStr []) text_or_null"
proof -
  have "conforms rx (JStr []) [(''type'', JStr ''string'')]"
    by (subst conforms_iff) (auto simp: records_of_def items_of_def List.map_filter_def type_ok_def own_ok_def
      matches_type_def has_prop_def get_prop_def)
  then show ?thesis
    by (subst conforms_iff) (auto simp: text_or_null_def records_of_def items_of_def List.map_filter_def type_ok_def
      own_ok_def has_prop_def get_prop_def as_record_def)
qed


end
