(* ===== verification/StructuredExtraction.thy ===== *)
theory StructuredExtraction
  imports StructuredOutput
begin

text \<open>
  How a structured output is taken out of what a provider answers:
  \<open>server/src/modules/providers/invocation/invocation.ts\<close>, from \<open>structuredOutputCandidates\<close> to
  \<open>structuredOutputFromText\<close>. \<open>JSON.parse\<close> is an argument (\<open>None\<close> where it throws); the regular
  expressions are written out as functions on texts. Diagnostics are left out.
\<close>

section \<open>Text nodes\<close>

text \<open>\<open>{"$text": s}\<close>\<close>

definition text_node :: "jsobj \<Rightarrow> string option" where
  "text_node kvs = (case kvs of [(k, JStr s)] \<Rightarrow> if k = ''$text'' then Some s else None | _ \<Rightarrow> None)"

lemma size_value: "(k, x) \<in> set kvs \<Longrightarrow> size x < size (JObj kvs)"
  by (induction kvs) auto

text \<open>\<open>unwrapTextNodes\<close>; a unit of fuel is spent where a parsed text is unwrapped in turn\<close>

function unwrap_text_nodes :: "(string \<Rightarrow> jsval option) \<Rightarrow> nat \<Rightarrow> jsval \<Rightarrow> (jsval \<times> bool) option" where
  "unwrap_text_nodes parse fuel v =
     (case v of
        JArr xs \<Rightarrow> map_option (\<lambda>rs. rebuilt_array rs v) (those (map (\<lambda>x. unwrap_text_nodes parse fuel x) xs))
      | JObj kvs \<Rightarrow>
          (case text_node kvs of
             Some s \<Rightarrow>
               (case parse s of
                  None \<Rightarrow> Some (JStr s, True)
                | Some w \<Rightarrow>
                    (case fuel of
                       0 \<Rightarrow> None
                     | Suc n \<Rightarrow> map_option (\<lambda>r. (fst r, True)) (unwrap_text_nodes parse n w)))
           | None \<Rightarrow>
               map_option (\<lambda>rs. rebuilt_record rs v)
                 (those (map (\<lambda>(k, x). map_option (\<lambda>r. (k, r)) (unwrap_text_nodes parse fuel x)) kvs)))
      | _ \<Rightarrow> Some (v, False))"
  by pat_completeness auto
termination
  by (relation "measures [\<lambda>(parse, fuel, v). fuel, \<lambda>(parse, fuel, v). size v]")
    (auto simp del: jsval.size intro: size_value size_element)

declare unwrap_text_nodes.simps [simp del]

section \<open>The value of an answer\<close>

datatype extraction_error = Schema_mismatch | Invalid_json

definition record_list :: "jsval \<times> bool \<Rightarrow> jsobj list" where
  "record_list r = (case r of (JObj kvs, True) \<Rightarrow> [kvs] | _ \<Rightarrow> [])"

text \<open>\<open>expand\<close>: what unwrapping, nulling and the gateway repair make of a record, as far as they change it\<close>

definition expand_candidate ::
  "(string \<Rightarrow> jsval option) \<Rightarrow> (string \<Rightarrow> string \<Rightarrow> bool option) \<Rightarrow> (string \<Rightarrow> jsnum) \<Rightarrow> nat \<Rightarrow> jsobj \<Rightarrow>
   jsobj \<Rightarrow> jsobj list option" where
  "expand_candidate parse rx number_of fuel schema candidate =
     map_option (\<lambda>unwrapped.
       let base = (case unwrapped of (JObj kvs, True) \<Rightarrow> JObj kvs | _ \<Rightarrow> JObj candidate);
           null_normalized = normalize_nullable_near_misses rx base schema;
           gateway_base = (case null_normalized of (JObj kvs, True) \<Rightarrow> JObj kvs | _ \<Rightarrow> base);
           gateway_normalized = normalize_gateway_shapes number_of gateway_base schema
       in record_list unwrapped @ record_list null_normalized @ record_list gateway_normalized)
       (unwrap_text_nodes parse fuel (JObj candidate))"

text \<open>The records inside of single-key wrappers, at most two levels deep\<close>

fun peel :: "nat \<Rightarrow> jsobj \<Rightarrow> jsobj list" where
  "peel 0 wrapper = []"
| "peel (Suc depth) wrapper = (case wrapper of [(_, JObj inner)] \<Rightarrow> inner # peel depth inner | _ \<Rightarrow> [])"

definition attempts ::
  "(string \<Rightarrow> jsval option) \<Rightarrow> (string \<Rightarrow> string \<Rightarrow> bool option) \<Rightarrow> (string \<Rightarrow> jsnum) \<Rightarrow> nat \<Rightarrow> jsobj \<Rightarrow>
   jsobj \<Rightarrow> jsobj list option" where
  "attempts parse rx number_of fuel schema v =
     map_option concat
       (those (expand_candidate parse rx number_of fuel schema v #
          map (\<lambda>inner. map_option (\<lambda>more. inner # more) (expand_candidate parse rx number_of fuel schema inner))
            (peel 2 v)))"

definition structured_output_from_value ::
  "(string \<Rightarrow> jsval option) \<Rightarrow> (string \<Rightarrow> string \<Rightarrow> bool option) \<Rightarrow> (string \<Rightarrow> jsnum) \<Rightarrow> nat \<Rightarrow> jsobj \<Rightarrow>
   jsval \<Rightarrow> (extraction_error + jsobj) option" where
  "structured_output_from_value parse rx number_of fuel schema value =
     (case value of
        JObj kvs \<Rightarrow>
          if validate_structured_output rx value schema = None then Some (Inr kvs)
          else map_option (\<lambda>ats.
            case find (\<lambda>attempt. validate_structured_output rx (JObj attempt) schema = None) ats of
              Some attempt \<Rightarrow> Inr attempt
            | None \<Rightarrow> Inl Schema_mismatch)
            (attempts parse rx number_of fuel schema kvs)
      | _ \<Rightarrow> Some (Inl Schema_mismatch))"

section \<open>The end of a balanced text\<close>

text \<open>\<open>balancedJsonEnd\<close>, from behind the opening bracket: the stack, whether in a string, whether escaped\<close>

fun balanced_scan :: "string \<Rightarrow> bool \<Rightarrow> bool \<Rightarrow> nat \<Rightarrow> string \<Rightarrow> nat option" where
  "balanced_scan stack in_string escaped index [] = None"
| "balanced_scan stack in_string escaped index (c # s) =
     (if in_string then
        if escaped then balanced_scan stack True False (index + 1) s
        else if c = CHR 0x5C then balanced_scan stack True True (index + 1) s
        else if c = CHR 0x22 then balanced_scan stack False False (index + 1) s
        else balanced_scan stack True False (index + 1) s
      else if c = CHR 0x22 then balanced_scan stack True escaped (index + 1) s
      else if c = CHR ''{'' \<or> c = CHR ''['' then balanced_scan (c # stack) False escaped (index + 1) s
      else if c \<noteq> CHR ''}'' \<and> c \<noteq> CHR '']'' then balanced_scan stack False escaped (index + 1) s
      else
        (case stack of
           [] \<Rightarrow> None
         | opening # rest \<Rightarrow>
             if opening \<noteq> (if c = CHR ''}'' then CHR ''{'' else CHR ''['') then None
             else if rest = [] then Some (index + 1)
             else balanced_scan rest False escaped (index + 1) s))"

definition balanced_json_end :: "string \<Rightarrow> nat \<Rightarrow> nat option" where
  "balanced_json_end t start =
     (case drop start t of
        [] \<Rightarrow> None
      | opening # s \<Rightarrow>
          if opening \<noteq> CHR ''{'' \<and> opening \<noteq> CHR ''['' then None
          else balanced_scan [opening] False False (start + 1) s)"

definition slice_at :: "string \<Rightarrow> nat \<Rightarrow> string option" where
  "slice_at t start =
     (case balanced_json_end t start of
        None \<Rightarrow> None
      | Some e \<Rightarrow> Some (js_trim (drop start (take e t))))"

definition balanced_json_slices :: "string \<Rightarrow> string list" where
  "balanced_json_slices t =
     fold (\<lambda>start slices.
         case slice_at t start of
           None \<Rightarrow> slices
         | Some s \<Rightarrow> if s \<noteq> [] \<and> s \<notin> set slices then slices @ [s] else slices)
       [0..<length t] []"

section \<open>Candidates\<close>

datatype normalization = Plain_text | Reasoning_envelope | Json_fence | Embedded_json_fence | Json_slice

text \<open>The text behind a prefix, the case of the letters ignored\<close>

definition after_prefix :: "string \<Rightarrow> string \<Rightarrow> string option" where
  "after_prefix p s = (if js_lower (take (length p) s) = p then Some (drop (length p) s) else None)"

definition after_either :: "string \<Rightarrow> string \<Rightarrow> string \<Rightarrow> string option" where
  "after_either p q s = (case after_prefix p s of Some r \<Rightarrow> Some r | None \<Rightarrow> after_prefix q s)"

text \<open>What stands before and behind the first place where a pattern matches\<close>

fun first_match :: "(string \<Rightarrow> string option) \<Rightarrow> string \<Rightarrow> (string \<times> string) option" where
  "first_match m s =
     (case m s of
        Some r \<Rightarrow> Some ([], r)
      | None \<Rightarrow> (case s of [] \<Rightarrow> None | c # s' \<Rightarrow> map_option (\<lambda>(a, b). (c # a, b)) (first_match m s')))"

declare first_match.simps [simp del]

text \<open>\<open>replace(/^<think(?:ing)?>[\s\S]*?<\/think(?:ing)?>\s*/i, "").trim()\<close>\<close>

definition without_reasoning :: "string \<Rightarrow> string" where
  "without_reasoning s =
     (case after_either ''<think>'' ''<thinking>'' s of
        None \<Rightarrow> js_trim s
      | Some r \<Rightarrow>
          (case first_match (after_either ''</think>'' ''</thinking>'') r of
             None \<Rightarrow> js_trim s
           | Some (_, rest) \<Rightarrow> js_trim rest))"

definition fence :: string where
  "fence = replicate 3 (CHR 0x60)"

text \<open>Behind a fence, and behind the word \<open>json\<close> that may follow it\<close>

definition after_fence :: "string \<Rightarrow> string option" where
  "after_fence s =
     (case after_prefix fence s of
        None \<Rightarrow> None
      | Some r \<Rightarrow> (case after_prefix ''json'' r of Some r' \<Rightarrow> Some r' | None \<Rightarrow> Some r))"

text \<open>A text that is a fence as a whole, and the first fence inside of a text\<close>

definition fenced :: "string \<Rightarrow> string option" where
  "fenced s =
     (case after_fence s of
        None \<Rightarrow> None
      | Some r \<Rightarrow>
          if 3 \<le> length r \<and> drop (length r - 3) r = fence then Some (js_trim (take (length r - 3) r)) else None)"

definition embedded_fence :: "string \<Rightarrow> string option" where
  "embedded_fence s =
     (case first_match after_fence s of
        None \<Rightarrow> None
      | Some (_, r) \<Rightarrow> map_option (\<lambda>(inside, _). js_trim inside) (first_match (after_prefix fence) r))"

definition structured_output_candidates :: "string \<Rightarrow> (string \<times> normalization) list" where
  "structured_output_candidates t =
     (let trimmed = js_trim t;
          base = without_reasoning trimmed;
          first = (base, if base = trimmed then Plain_text else Reasoning_envelope);
          fences = (case fenced base of
              Some s \<Rightarrow> [(s, Json_fence)]
            | None \<Rightarrow> (case embedded_fence base of Some s \<Rightarrow> [(s, Embedded_json_fence)] | None \<Rightarrow> []));
          candidates = first # fences
      in fold (\<lambda>s cs. if s \<in> fst ` set cs then cs else cs @ [(s, Json_slice)]) (balanced_json_slices base) candidates)"

section \<open>The answer\<close>

text \<open>The loop over the candidates, with the first schema error so far\<close>

fun try_candidates ::
  "(string \<Rightarrow> jsval option) \<Rightarrow> (string \<Rightarrow> string \<Rightarrow> bool option) \<Rightarrow> (string \<Rightarrow> jsnum) \<Rightarrow> nat \<Rightarrow> jsobj \<Rightarrow>
   extraction_error option \<Rightarrow> string list \<Rightarrow> (extraction_error + jsobj) option" where
  "try_candidates parse rx number_of fuel schema first_error [] =
     Some (Inl (case first_error of Some e \<Rightarrow> e | None \<Rightarrow> Invalid_json))"
| "try_candidates parse rx number_of fuel schema first_error (c # cs) =
     (case parse c of
        None \<Rightarrow> try_candidates parse rx number_of fuel schema first_error cs
      | Some value \<Rightarrow>
          (case structured_output_from_value parse rx number_of fuel schema value of
             None \<Rightarrow> None
           | Some (Inr r) \<Rightarrow> Some (Inr r)
           | Some (Inl e) \<Rightarrow>
               try_candidates parse rx number_of fuel schema
                 (case first_error of Some e' \<Rightarrow> Some e' | None \<Rightarrow> Some e) cs))"

definition structured_output_from_text ::
  "(string \<Rightarrow> jsval option) \<Rightarrow> (string \<Rightarrow> string \<Rightarrow> bool option) \<Rightarrow> (string \<Rightarrow> jsnum) \<Rightarrow> nat \<Rightarrow> jsobj \<Rightarrow>
   jsval \<Rightarrow> (extraction_error + jsobj) option" where
  "structured_output_from_text parse rx number_of fuel schema answer =
     (case answer of
        JStr t \<Rightarrow>
          try_candidates parse rx number_of fuel schema None (map fst (structured_output_candidates t))
      | _ \<Rightarrow> structured_output_from_value parse rx number_of fuel schema answer)"

section \<open>Enough fuel\<close>

text \<open>
  What is relied on of \<open>JSON.parse\<close>: a string in a document is shorter than the document, by its quotes if nothing
  else
\<close>

fun longest_text :: "jsval \<Rightarrow> nat" where
  "longest_text (JStr s) = length s"
| "longest_text (JArr xs) = foldr (\<lambda>x n. max (longest_text x) n) xs 0"
| "longest_text (JObj kvs) = foldr (\<lambda>kv n. max (longest_text (snd kv)) n) kvs 0"
| "longest_text _ = 0"

definition parse_law :: "(string \<Rightarrow> jsval option) \<Rightarrow> bool" where
  "parse_law parse \<longleftrightarrow> (\<forall>s w. parse s = Some w \<longrightarrow> longest_text w < length s)"

lemma longest_part:
  "longest_text (JArr xs) \<le> n \<longleftrightarrow> (\<forall>x\<in>set xs. longest_text x \<le> n)"
  "longest_text (JObj kvs) \<le> n \<longleftrightarrow> (\<forall>(k, x)\<in>set kvs. longest_text x \<le> n)"
  by (induction xs, simp_all, induction kvs, auto)

lemma those_defined: "(\<forall>x\<in>set xs. x \<noteq> None) \<Longrightarrow> those xs \<noteq> None"
  by (induction xs) (auto split: option.split)

lemma text_node_text: "text_node kvs = Some s \<Longrightarrow> longest_text (JObj kvs) = length s"
  by (auto simp: text_node_def split: list.splits jsval.splits if_splits)

lemma unwrap_defined:
  "parse_law parse \<Longrightarrow> longest_text v \<le> fuel \<Longrightarrow> unwrap_text_nodes parse fuel v \<noteq> None"
proof (induction parse fuel v rule: unwrap_text_nodes.induct)
  case (1 parse fuel v)
  show ?case
  proof (cases v)
    case (JArr xs)
    have "unwrap_text_nodes parse fuel x \<noteq> None" if "x \<in> set xs" for x
      using 1(1) [OF JArr that] 1(4,5) that unfolding JArr longest_part by blast
    then have "those (map (\<lambda>x. unwrap_text_nodes parse fuel x) xs) \<noteq> None"
      by (intro those_defined) auto
    then show ?thesis using JArr by (subst unwrap_text_nodes.simps) simp
  next
    case (JObj kvs)
    show ?thesis
    proof (cases "text_node kvs")
      case None
      have "unwrap_text_nodes parse fuel x \<noteq> None" if "(k, x) \<in> set kvs" for k x
        using 1(2) [OF JObj None that refl] 1(4,5) that unfolding JObj longest_part by blast
      then have "those (map (\<lambda>(k, x). map_option (\<lambda>r. (k, r)) (unwrap_text_nodes parse fuel x)) kvs) \<noteq> None"
        by (intro those_defined) auto
      then show ?thesis using JObj None by (subst unwrap_text_nodes.simps) simp
    next
      case (Some s)
      show ?thesis
      proof (cases "parse s")
        case None
        then show ?thesis using JObj Some by (subst unwrap_text_nodes.simps) simp
      next
        case parsed: (Some w)
        have "length s \<le> fuel" using 1(5) text_node_text [OF Some] unfolding JObj by simp
        moreover have "longest_text w < length s" using 1(4) parsed unfolding parse_law_def by blast
        ultimately obtain n where n: "fuel = Suc n" "longest_text w \<le> n" by (cases fuel) auto
        have "unwrap_text_nodes parse n w \<noteq> None" by (rule 1(3) [OF JObj Some parsed n(1) 1(4) n(2)])
        then show ?thesis using JObj Some parsed n(1) by (subst unwrap_text_nodes.simps) simp
      qed
    qed
  qed (subst unwrap_text_nodes.simps, simp)+
qed

lemma peel_part: "inner \<in> set (peel d kvs) \<Longrightarrow> longest_text (JObj inner) \<le> longest_text (JObj kvs)"
proof (induction d kvs rule: peel.induct)
  case (2 d wrapper)
  then show ?case by (auto split: list.splits jsval.splits)
qed simp

lemma attempts_defined:
  assumes "parse_law parse" "longest_text (JObj kvs) \<le> fuel"
  shows "attempts parse rx number_of fuel schema kvs \<noteq> None"
proof -
  have expand: "expand_candidate parse rx number_of fuel schema c \<noteq> None" if "longest_text (JObj c) \<le> fuel" for c
    using unwrap_defined [OF assms(1) that] by (simp add: expand_candidate_def)
  have "expand_candidate parse rx number_of fuel schema inner \<noteq> None" if "inner \<in> set (peel 2 kvs)" for inner
    using expand peel_part [OF that] assms(2) by (meson le_trans)
  then show ?thesis unfolding attempts_def using expand [OF assms(2)]
    by (simp only: option.map_disc_iff) (intro those_defined, auto)
qed

lemma from_value_defined:
  "parse_law parse \<Longrightarrow> longest_text v \<le> fuel \<Longrightarrow>
   structured_output_from_value parse rx number_of fuel schema v \<noteq> None"
  using attempts_defined by (auto simp: structured_output_from_value_def split: jsval.split)

section \<open>The contract gate\<close>

lemma from_value_sound:
  assumes "structured_output_from_value parse rx number_of fuel schema v = Some (Inr r)"
  shows "conforms rx (JObj r) schema"
proof -
  from assms obtain kvs where v: "v = JObj kvs" by (cases v) (auto simp: structured_output_from_value_def)
  show ?thesis
  proof (cases "validate_structured_output rx v schema = None")
    case True
    with assms v have "r = kvs" by (simp add: structured_output_from_value_def)
    with True v show ?thesis by (simp add: validate_structured_output_iff)
  next
    case False
    with assms v obtain ats where
      "find (\<lambda>attempt. validate_structured_output rx (JObj attempt) schema = None) ats = Some r"
      by (auto simp: structured_output_from_value_def split: option.splits)
    from find_SomeD [OF this] show ?thesis using validate_structured_output_iff by blast
  qed
qed

lemma from_value_valid:
  "conforms rx (JObj kvs) schema \<Longrightarrow> structured_output_from_value parse rx number_of fuel schema (JObj kvs) = Some (Inr kvs)"
  by (simp add: structured_output_from_value_def validate_structured_output_iff)

lemma candidates_result:
  assumes "parse_law parse" "\<forall>c\<in>set cs. length c \<le> fuel"
  shows "\<exists>answer. try_candidates parse rx number_of fuel schema first_error cs = Some answer \<and>
    (case answer of
       Inr r \<Rightarrow> conforms rx (JObj r) schema
     | Inl _ \<Rightarrow> \<forall>c\<in>set cs. \<forall>kvs. parse c = Some (JObj kvs) \<longrightarrow> \<not> conforms rx (JObj kvs) schema)"
  using assms(2)
proof (induction cs arbitrary: first_error)
  case (Cons c cs)
  then have IH: "\<exists>answer. try_candidates parse rx number_of fuel schema e cs = Some answer \<and>
    (case answer of
       Inr r \<Rightarrow> conforms rx (JObj r) schema
     | Inl _ \<Rightarrow> \<forall>c\<in>set cs. \<forall>kvs. parse c = Some (JObj kvs) \<longrightarrow> \<not> conforms rx (JObj kvs) schema)" for e by simp
  show ?case
  proof (cases "parse c")
    case None
    with IH [of first_error] show ?thesis by (fastforce split: sum.splits)
  next
    case (Some v)
    then have "longest_text v \<le> fuel" using assms(1) Cons.prems unfolding parse_law_def by fastforce
    then obtain x where x: "structured_output_from_value parse rx number_of fuel schema v = Some x"
      using from_value_defined [OF assms(1)] by blast
    show ?thesis
    proof (cases x)
      case (Inr r)
      with x Some from_value_sound show ?thesis by auto
    next
      case (Inl e)
      with x from_value_valid have "\<not> conforms rx (JObj kvs) schema" if "v = JObj kvs" for kvs using that by fastforce
      with IH [of "case first_error of Some e' \<Rightarrow> Some e' | None \<Rightarrow> Some e"] x Some Inl
      show ?thesis by (auto split: sum.splits)
    qed
  qed
qed simp

section \<open>Balanced texts\<close>

text \<open>The grammar that the scan recognizes: behind a quote up to the closing one, and nested brackets\<close>

inductive literal_rest :: "string \<Rightarrow> bool" where
  quoted_end: "literal_rest [CHR 0x22]"
| quoted_escape: "literal_rest s \<Longrightarrow> literal_rest (CHR 0x5C # c # s)"
| quoted_char: "c \<noteq> CHR 0x22 \<Longrightarrow> c \<noteq> CHR 0x5C \<Longrightarrow> literal_rest s \<Longrightarrow> literal_rest (c # s)"

definition is_opening :: "char \<Rightarrow> bool" where
  "is_opening c \<longleftrightarrow> c = CHR ''{'' \<or> c = CHR ''[''"

definition closing_of :: "char \<Rightarrow> char" where
  "closing_of c = (if c = CHR ''{'' then CHR ''}'' else CHR '']'')"

inductive balanced :: "string \<Rightarrow> bool" where
  balanced_nil: "balanced []"
| balanced_char: "c \<notin> {CHR 0x22, CHR ''{'', CHR ''}'', CHR ''['', CHR '']''} \<Longrightarrow> balanced s \<Longrightarrow> balanced (c # s)"
| balanced_string: "literal_rest q \<Longrightarrow> balanced s \<Longrightarrow> balanced (CHR 0x22 # q @ s)"
| balanced_nest: "is_opening c \<Longrightarrow> balanced s \<Longrightarrow> balanced t \<Longrightarrow> balanced (c # s @ closing_of c # t)"

text \<open>A text that closes a stack of brackets\<close>

inductive closes :: "string \<Rightarrow> string \<Rightarrow> bool" where
  closes_nil: "closes [] []"
| closes_top: "balanced b \<Longrightarrow> closes stack s \<Longrightarrow> closes (c # stack) (b @ closing_of c # s)"

inductive_cases closes_ConsE: "closes (c # stack) u"
inductive_cases closes_NilE: "closes [] u"

lemma scan_quoted:
  "literal_rest q \<Longrightarrow> balanced_scan stack True False i (q @ rest) = balanced_scan stack False False (i + length q) rest"
  by (induction arbitrary: i rule: literal_rest.induct) auto

lemma scan_closing:
  "is_opening c \<Longrightarrow> balanced_scan (c # stack) False False i (closing_of c # rest) =
     (if stack = [] then Some (i + 1) else balanced_scan stack False False (i + 1) rest)"
  by (auto simp: is_opening_def closing_of_def)

lemma scan_balanced:
  "balanced b \<Longrightarrow> stack \<noteq> [] \<Longrightarrow>
   balanced_scan stack False False i (b @ rest) = balanced_scan stack False False (i + length b) rest"
proof (induction arbitrary: stack i rest rule: balanced.induct)
  case (balanced_string q s)
  then show ?case using scan_quoted [of q stack "i + 1" "s @ rest"] by (simp add: add.assoc)
next
  case (balanced_nest c s t)
  have "balanced_scan stack False False i ((c # s @ closing_of c # t) @ rest) =
      balanced_scan (c # stack) False False (i + 1) (s @ closing_of c # t @ rest)"
    using balanced_nest.hyps(1) by (auto simp: is_opening_def)
  also have "\<dots> = balanced_scan (c # stack) False False (i + 1 + length s) (closing_of c # t @ rest)"
    by (rule balanced_nest.IH(1)) simp
  also have "\<dots> = balanced_scan stack False False (i + 1 + length s + 1) (t @ rest)"
    using scan_closing [OF balanced_nest.hyps(1)] balanced_nest.prems by simp
  also have "\<dots> = balanced_scan stack False False (i + 1 + length s + 1 + length t) rest"
    by (rule balanced_nest.IH(2)) (rule balanced_nest.prems)
  finally show ?case by (simp add: add.commute add.left_commute)
qed auto

lemma scan_in_string:
  "balanced_scan stack True escaped i s = Some e \<Longrightarrow>
   \<exists>q r. s = q @ r \<and> (if escaped then \<exists>c q'. q = c # q' \<and> literal_rest q' else literal_rest q) \<and>
     balanced_scan stack False False (i + length q) r = Some e"
proof (induction s arbitrary: escaped i)
  case Nil
  then show ?case by simp
next
  case (Cons c s)
  show ?case
  proof (cases escaped)
    case True
    with Cons.prems have "balanced_scan stack True False (i + 1) s = Some e" by simp
    from Cons.IH [OF this] obtain q r where "s = q @ r" "literal_rest q"
      "balanced_scan stack False False (i + 1 + length q) r = Some e" by auto
    then show ?thesis using True by (intro exI [of _ "c # q"] exI [of _ r]) simp
  next
    case plain: False
    show ?thesis
    proof (cases "c = CHR 0x22")
      case True
      with plain Cons.prems show ?thesis
        by (intro exI [of _ "[c]"] exI [of _ s]) (auto intro: quoted_end)
    next
      case no_quote: False
      show ?thesis
      proof (cases "c = CHR 0x5C")
        case True
        with plain Cons.prems have "balanced_scan stack True True (i + 1) s = Some e" by simp
        from Cons.IH [OF this] obtain d q r where "s = (d # q) @ r" "literal_rest q"
          "balanced_scan stack False False (i + 1 + length (d # q)) r = Some e" by auto
        then show ?thesis using True plain by (intro exI [of _ "c # d # q"] exI [of _ r]) (simp add: quoted_escape)
      next
        case False
        with plain no_quote Cons.prems have "balanced_scan stack True False (i + 1) s = Some e" by simp
        from Cons.IH [OF this] obtain q r where "s = q @ r" "literal_rest q"
          "balanced_scan stack False False (i + 1 + length q) r = Some e" by auto
        then show ?thesis using False no_quote plain by (intro exI [of _ "c # q"] exI [of _ r]) (simp add: quoted_char)
      qed
    qed
  qed
qed

lemma closes_extend:
  "closes (o' # stack) u \<Longrightarrow> c \<notin> {CHR 0x22, CHR ''{'', CHR ''}'', CHR ''['', CHR '']''} \<Longrightarrow> closes (o' # stack) (c # u)"
  by (erule closes_ConsE) (metis append_Cons balanced_char closes_top)

lemma closes_string: "closes (o' # stack) u \<Longrightarrow> literal_rest q \<Longrightarrow> closes (o' # stack) (CHR 0x22 # q @ u)"
  by (erule closes_ConsE) (metis append_Cons append_assoc balanced_string closes_top)

lemma closes_nest: "closes (c # o' # stack) u \<Longrightarrow> is_opening c \<Longrightarrow> closes (o' # stack) (c # u)"
proof (erule closes_ConsE)
  fix b s
  assume c: "is_opening c" and u: "u = b @ closing_of c # s" and b: "balanced b" and s: "closes (o' # stack) s"
  from s obtain b' s' where s': "s = b' @ closing_of o' # s'" "balanced b'" "closes stack s'" by (rule closes_ConsE)
  have "closes (o' # stack) ((c # b @ closing_of c # b') @ closing_of o' # s')"
    using balanced_nest [OF c b s'(2)] s'(3) by (rule closes_top)
  then show "closes (o' # stack) (c # u)" using u s'(1) by simp
qed

lemma closes_close: "closes stack u \<Longrightarrow> closes (o' # stack) (closing_of o' # u)"
  using closes_top [OF balanced_nil] by simp

lemma scan_sound:
  "balanced_scan (o' # stack) False False i s = Some e \<Longrightarrow> list_all is_opening (o' # stack) \<Longrightarrow>
   \<exists>u r. s = u @ r \<and> closes (o' # stack) u \<and> e = i + length u"
proof (induction "length s" arbitrary: o' stack i s rule: less_induct)
  case less
  then obtain c s' where s: "s = c # s'" by (cases s) auto
  consider (quote) "c = CHR 0x22" | (opens) "is_opening c" | (shuts) "c = CHR ''}'' \<or> c = CHR '']''"
    | (other) "c \<notin> {CHR 0x22, CHR ''{'', CHR ''}'', CHR ''['', CHR '']''}"
    unfolding is_opening_def by blast
  then show ?case
  proof cases
    case quote
    with less.prems(1) s have "balanced_scan (o' # stack) True False (i + 1) s' = Some e" by simp
    from scan_in_string [OF this] obtain q r where q: "s' = q @ r" "literal_rest q"
      and rest: "balanced_scan (o' # stack) False False (i + 1 + length q) r = Some e" by auto
    from less.hyps [OF _ rest less.prems(2)] s q obtain u r' where "r = u @ r'" "closes (o' # stack) u"
      "e = i + 1 + length q + length u" by auto
    then show ?thesis using s q quote closes_string
      by (intro exI [of _ "c # q @ u"] exI [of _ r']) auto
  next
    case opens
    with less.prems(1) s have rest: "balanced_scan (c # o' # stack) False False (i + 1) s' = Some e"
      by (auto simp: is_opening_def)
    from less.hyps [OF _ rest] s less.prems(2) opens obtain u r' where "s' = u @ r'" "closes (c # o' # stack) u"
      "e = i + 1 + length u" by auto
    then show ?thesis using s opens closes_nest
      by (intro exI [of _ "c # u"] exI [of _ r']) auto
  next
    case shuts
    from shuts less.prems s have c: "c = closing_of o'"
      by (auto simp: closing_of_def is_opening_def split: if_splits)
    from less.prems(1) s c have step: "(if stack = [] then Some (i + 1) else balanced_scan stack False False (i + 1) s') = Some e"
      using scan_closing less.prems(2) by simp
    show ?thesis
    proof (cases stack)
      case Nil
      with step s c show ?thesis using closes_close [OF closes_nil]
        by (intro exI [of _ "[c]"] exI [of _ s']) auto
    next
      case (Cons o2 stack2)
      with step have rest: "balanced_scan (o2 # stack2) False False (i + 1) s' = Some e" by simp
      from less.hyps [OF _ rest] s less.prems(2) Cons obtain u r' where "s' = u @ r'" "closes (o2 # stack2) u"
        "e = i + 1 + length u" by auto
      then show ?thesis using s c Cons closes_close
        by (intro exI [of _ "c # u"] exI [of _ r']) auto
    qed
  next
    case other
    with less.prems(1) s have rest: "balanced_scan (o' # stack) False False (i + 1) s' = Some e" by simp
    from less.hyps [OF _ rest less.prems(2)] s obtain u r' where "s' = u @ r'" "closes (o' # stack) u"
      "e = i + 1 + length u" by auto
    then show ?thesis using s other closes_extend
      by (intro exI [of _ "c # u"] exI [of _ r']) auto
  qed
qed

text \<open>The end that is found is that of the balanced text at the place\<close>

theorem balanced_json_end_iff:
  "balanced_json_end t start = Some e \<longleftrightarrow>
     (\<exists>c b rest. drop start t = c # b @ closing_of c # rest \<and> is_opening c \<and> balanced b \<and> e = start + length b + 2)"
proof
  assume end_e: "balanced_json_end t start = Some e"
  then obtain c s where s: "drop start t = c # s" "is_opening c"
    and scan: "balanced_scan [c] False False (start + 1) s = Some e"
    by (auto simp: balanced_json_end_def is_opening_def split: list.splits if_splits)
  from scan_sound [OF scan] s(2) obtain u r where u: "s = u @ r" "closes [c] u" "e = start + 1 + length u" by auto
  from u(2) obtain b s' where "u = b @ closing_of c # s'" "balanced b" "closes [] s'" by (rule closes_ConsE)
  moreover from this(3) have "s' = []" by (rule closes_NilE)
  ultimately show "\<exists>c b rest. drop start t = c # b @ closing_of c # rest \<and> is_opening c \<and> balanced b \<and> e = start + length b + 2"
    using s u by auto
next
  assume "\<exists>c b rest. drop start t = c # b @ closing_of c # rest \<and> is_opening c \<and> balanced b \<and> e = start + length b + 2"
  then obtain c b rest where t: "drop start t = c # b @ closing_of c # rest" "is_opening c" "balanced b"
    and e: "e = start + length b + 2" by blast
  have "balanced_scan [c] False False (start + 1) (b @ closing_of c # rest) = Some e"
    using scan_balanced [OF t(3), of "[c]" "start + 1"] scan_closing [OF t(2), of "[]"] e by simp
  with t(1,2) show "balanced_json_end t start = Some e"
    by (auto simp: balanced_json_end_def is_opening_def)
qed

definition bracketed :: "string \<Rightarrow> bool" where
  "bracketed s \<longleftrightarrow> (\<exists>c b. s = c # b @ [closing_of c] \<and> is_opening c \<and> balanced b)"

lemma bracketed_trimmed: "bracketed s \<Longrightarrow> js_trim s = s \<and> s \<noteq> []"
proof -
  assume "bracketed s"
  then obtain c b where s: "s = c # b @ [closing_of c]" "is_opening c" unfolding bracketed_def by blast
  then have "\<not> js_space c" "\<not> js_space (closing_of c)"
    by (auto simp: is_opening_def closing_of_def js_space_def)
  then show ?thesis using s(1) by (simp add: js_trim_def)
qed

lemma slice_at_iff: "slice_at t start = Some s \<longleftrightarrow> bracketed s \<and> (\<exists>rest. drop start t = s @ rest)"
proof
  assume "slice_at t start = Some s"
  then obtain e where e: "balanced_json_end t start = Some e" and s: "s = js_trim (drop start (take e t))"
    by (auto simp: slice_at_def split: option.splits)
  from e obtain c b rest where t: "drop start t = c # b @ closing_of c # rest" "is_opening c" "balanced b"
    and "e = start + length b + 2" unfolding balanced_json_end_iff by blast
  then have "drop start (take e t) = c # b @ [closing_of c]" by (simp add: drop_take)
  moreover have br: "bracketed (c # b @ [closing_of c])" using t unfolding bracketed_def by blast
  ultimately have "s = c # b @ [closing_of c]" using s bracketed_trimmed by simp
  with br t(1) show "bracketed s \<and> (\<exists>rest. drop start t = s @ rest)" by simp
next
  assume s: "bracketed s \<and> (\<exists>rest. drop start t = s @ rest)"
  then obtain c b rest where cb: "s = c # b @ [closing_of c]" "is_opening c" "balanced b" "drop start t = s @ rest"
    unfolding bracketed_def by blast
  then have "balanced_json_end t start = Some (start + length b + 2)"
    unfolding balanced_json_end_iff by auto
  moreover have "drop start (take (start + length b + 2) t) = s" using cb(1,4) by (simp add: drop_take)
  ultimately show "slice_at t start = Some s" using s bracketed_trimmed by (simp add: slice_at_def)
qed

lemma slices_fold:
  fixes t :: string
  defines "add \<equiv> \<lambda>start slices. case slice_at t start of
      None \<Rightarrow> slices
    | Some s \<Rightarrow> if s \<noteq> [] \<and> s \<notin> set slices then slices @ [s] else slices"
  shows "set (fold add xs slices) = set slices \<union> {s. s \<noteq> [] \<and> (\<exists>x\<in>set xs. slice_at t x = Some s)} \<and>
    (distinct slices \<longrightarrow> distinct (fold add xs slices))"
proof (induction xs arbitrary: slices)
  case (Cons x xs)
  have "set (add x slices) = set slices \<union> {s. s \<noteq> [] \<and> slice_at t x = Some s}"
    "distinct slices \<longrightarrow> distinct (add x slices)"
    by (auto simp: add_def split: option.splits)
  with Cons [of "add x slices"] show ?case by auto
qed simp

lemma slices_iff:
  "distinct (balanced_json_slices t) \<and>
   (s \<in> set (balanced_json_slices t) \<longleftrightarrow> bracketed s \<and> (\<exists>before rest. t = before @ s @ rest))"
proof -
  have "s \<noteq> [] \<and> (\<exists>x\<in>set [0..<length t]. slice_at t x = Some s) \<longleftrightarrow> bracketed s \<and> (\<exists>before rest. t = before @ s @ rest)"
  proof
    assume "s \<noteq> [] \<and> (\<exists>x\<in>set [0..<length t]. slice_at t x = Some s)"
    then obtain x rest where "bracketed s" "drop x t = s @ rest" unfolding slice_at_iff by blast
    then show "bracketed s \<and> (\<exists>before rest. t = before @ s @ rest)" by (metis append_take_drop_id)
  next
    assume s: "bracketed s \<and> (\<exists>before rest. t = before @ s @ rest)"
    then obtain before rest where t: "t = before @ s @ rest" by blast
    then have "drop (length before) t = s @ rest" by simp
    with s have "slice_at t (length before) = Some s" unfolding slice_at_iff by blast
    moreover have "s \<noteq> []" using s bracketed_trimmed by blast
    moreover from this t have "length before < length t" by simp
    ultimately show "s \<noteq> [] \<and> (\<exists>x\<in>set [0..<length t]. slice_at t x = Some s)" by auto
  qed
  then show ?thesis
    using slices_fold [of t "[0..<length t]" "[]"] unfolding balanced_json_slices_def by simp
qed

section \<open>The lengths of the candidates\<close>

lemma js_trim_length: "length (js_trim s) \<le> length s"
  unfolding js_trim_def by (metis length_dropWhile_le length_rev le_trans)

lemma after_prefix_length: "after_prefix p s = Some r \<Longrightarrow> length r \<le> length s"
  by (auto simp: after_prefix_def split: if_splits)

lemma after_either_length: "after_either p q s = Some r \<Longrightarrow> length r \<le> length s"
  by (auto simp: after_either_def dest: after_prefix_length split: option.splits)

lemma after_fence_length: "after_fence s = Some r \<Longrightarrow> length r \<le> length s"
  by (auto simp: after_fence_def dest!: after_prefix_length split: option.splits)

lemma split_first_length:
  assumes shrinks: "\<And>s r. m s = Some r \<Longrightarrow> length r \<le> length s"
  shows "first_match m s = Some (a, b) \<Longrightarrow> length a \<le> length s \<and> length b \<le> length s"
proof (induction s arbitrary: a)
  case Nil
  then have "m [] = Some b" "a = []" by (simp_all add: first_match.simps [of m "[]"] split: option.splits)
  with shrinks show ?case by fastforce
next
  case (Cons c s)
  show ?case
  proof (cases "m (c # s)")
    case None
    with Cons.prems obtain a' where "first_match m s = Some (a', b)" "a = c # a'"
      by (auto simp: first_match.simps [of m "c # s"])
    with Cons.IH show ?thesis by fastforce
  next
    case (Some r)
    with Cons.prems have "r = b" "a = []" by (simp_all add: first_match.simps [of m "c # s"])
    with shrinks [OF Some] show ?thesis by simp
  qed
qed

lemma without_reasoning_length: "length (without_reasoning s) \<le> length s"
proof -
  have "length (js_trim rest) \<le> length s"
    if "after_either ''<think>'' ''<thinking>'' s = Some r"
      "first_match (after_either ''</think>'' ''</thinking>'') r = Some (a, rest)" for r a rest
    using js_trim_length [of rest] split_first_length [OF after_either_length that(2)] after_either_length [OF that(1)]
    by (meson le_trans)
  then show ?thesis using js_trim_length [of s] unfolding without_reasoning_def by (auto split: option.split)
qed

lemma fenced_length: "fenced s = Some r \<Longrightarrow> length r \<le> length s"
proof -
  assume "fenced s = Some r"
  then obtain u where u: "after_fence s = Some u" and r: "r = js_trim (take (length u - 3) u)"
    by (auto simp: fenced_def split: option.splits if_splits)
  have "length r \<le> length u" unfolding r using js_trim_length [of "take (length u - 3) u"] by simp
  with after_fence_length [OF u] show ?thesis by simp
qed

lemma embedded_fence_length: "embedded_fence s = Some r \<Longrightarrow> length r \<le> length s"
proof -
  assume "embedded_fence s = Some r"
  then obtain a u v w where "first_match after_fence s = Some (a, u)" "first_match (after_prefix fence) u = Some (v, w)"
    and r: "r = js_trim v" by (auto simp: embedded_fence_def split: option.splits prod.splits)
  then have "length v \<le> length s"
    using split_first_length [OF after_fence_length] split_first_length [OF after_prefix_length] by (meson le_trans)
  with r js_trim_length [of v] show ?thesis by simp
qed

lemma candidates_add:
  "fst ` set (fold (\<lambda>s cs. if s \<in> fst ` set cs then cs else cs @ [(s, Json_slice)]) slices cs) = fst ` set cs \<union> set slices"
proof (induction slices arbitrary: cs)
  case (Cons s slices)
  then show ?case by (cases "s \<in> fst ` set cs") auto
qed simp

lemma candidate_length: "c \<in> fst ` set (structured_output_candidates t) \<Longrightarrow> length c \<le> length t"
proof -
  assume c: "c \<in> fst ` set (structured_output_candidates t)"
  define base where "base = without_reasoning (js_trim t)"
  have base: "length base \<le> length t"
    unfolding base_def using without_reasoning_length [of "js_trim t"] js_trim_length [of t] by simp
  have "length s \<le> length base" if "s \<in> set (balanced_json_slices base)" for s
    using slices_iff [of base s] that by auto
  with c have "length c \<le> length base"
    unfolding structured_output_candidates_def Let_def candidates_add base_def [symmetric]
    by (auto dest: fenced_length embedded_fence_length [OF sym] split: option.splits)
  with base show ?thesis by simp
qed

section \<open>Properties\<close>

text \<open>The records that an answer offers as it is written, before any repair\<close>

definition offers :: "(string \<Rightarrow> jsval option) \<Rightarrow> jsval \<Rightarrow> jsobj \<Rightarrow> bool" where
  "offers parse answer kvs \<longleftrightarrow>
     (case answer of
        JStr t \<Rightarrow> (\<exists>c\<in>set (map fst (structured_output_candidates t)). parse c = Some (JObj kvs))
      | _ \<Rightarrow> answer = JObj kvs)"

text \<open>
  C13. Taking a structured output from whatever a provider answered comes to an end, with a record that conforms to
  the schema or with an error; and it is an error only if no record that the answer offers conforms. The liberal
  extraction and the repairs let nothing through the schema, and lose nothing that passes it.
\<close>
theorem structured_output_gate:
  assumes "parse_law parse" "longest_text answer \<le> fuel"
  shows "\<exists>result. structured_output_from_text parse rx number_of fuel schema answer = Some result \<and>
    (case result of
       Inr r \<Rightarrow> conforms rx (JObj r) schema
     | Inl _ \<Rightarrow> \<forall>kvs. offers parse answer kvs \<longrightarrow> \<not> conforms rx (JObj kvs) schema)"
proof (cases "\<exists>t. answer = JStr t")
  case True
  then obtain t where t: "answer = JStr t" ..
  have "\<forall>c\<in>set (map fst (structured_output_candidates t)). length c \<le> fuel"
    using candidate_length assms(2) t by fastforce
  from candidates_result [OF assms(1) this] show ?thesis
    unfolding structured_output_from_text_def t by (fastforce simp: offers_def split: sum.splits)
next
  case False
  then have "structured_output_from_text parse rx number_of fuel schema answer =
      structured_output_from_value parse rx number_of fuel schema answer"
    by (cases answer) (simp_all add: structured_output_from_text_def)
  moreover obtain x where x: "structured_output_from_value parse rx number_of fuel schema answer = Some x"
    using from_value_defined [OF assms] by blast
  moreover have "\<not> conforms rx (JObj kvs) schema" if "x = Inl e" "offers parse answer kvs" for e kvs
    using x that False from_value_valid by (cases answer) (auto simp: offers_def)
  ultimately show ?thesis using from_value_sound by (cases x) auto
qed

text \<open>A schema of one number, an answer in prose, and a parser that knows one document\<close>

definition one_document :: "string \<Rightarrow> jsval option" where
  "one_document s = (if s = ''{1}'' then Some (JObj [(''n'', JNum (Fin 1))]) else None)"

theorem structured_output_gate_witness:
  "structured_output_from_text one_document (\<lambda>_ _. None) (\<lambda>_. NaN) 20
     [(''type'', JStr ''object''), (''required'', JArr [JStr ''n''])] (JStr ''Here: {1}, ok'') =
     Some (Inr [(''n'', JNum (Fin 1))]) \<and>
   conforms (\<lambda>_ _. None) (JObj [(''n'', JNum (Fin 1))]) [(''type'', JStr ''object''), (''required'', JArr [JStr ''n''])]"
proof -
  have law: "parse_law one_document" by (auto simp: parse_law_def one_document_def)
  have short: "longest_text (JStr ''Here: {1}, ok'') \<le> 20" by simp
  have "map fst (structured_output_candidates ''Here: {1}, ok'') = [''Here: {1}, ok'', ''{1}'']" by code_simp
  moreover have "conforms (\<lambda>_ _. None) (JObj [(''n'', JNum (Fin 1))]) [(''type'', JStr ''object''), (''required'', JArr [JStr ''n''])]"
    by (subst conforms_iff) (auto simp: records_of_def items_of_def List.map_filter_def type_ok_def own_ok_def
      matches_type_def is_record_def keys_ok_def has_prop_def get_prop_def)
  ultimately have "structured_output_from_text one_document (\<lambda>_ _. None) (\<lambda>_. NaN) 20
      [(''type'', JStr ''object''), (''required'', JArr [JStr ''n''])] (JStr ''Here: {1}, ok'') =
      Some (Inr [(''n'', JNum (Fin 1))])"
    using from_value_valid by (simp add: structured_output_from_text_def one_document_def)
  with structured_output_gate [OF law short, of "\<lambda>_ _. None" "\<lambda>_. NaN"
      "[(''type'', JStr ''object''), (''required'', JArr [JStr ''n''])]"]
  show ?thesis by simp
qed

text \<open>
  C14. The slices that are tried are exactly the parts of the text that are a balanced text in brackets, where a
  bracket inside a string literal does not count, each of them once.
\<close>
theorem balanced_slices_exact:
  "distinct (balanced_json_slices t) \<and>
   (s \<in> set (balanced_json_slices t) \<longleftrightarrow> bracketed s \<and> (\<exists>before rest. t = before @ s @ rest))"
  by (rule slices_iff)

end
