(* ===== verification/TokenEstimate.thy ===== *)
theory TokenEstimate
  imports Prelude
begin

text \<open>
  The token estimate and the cuts to a budget, \<open>server/src/modules/usage/modelCatalog.ts\<close>. A text is
  the list of its code points, what \<open>for (const character of text)\<close> enumerates; the code's slices
  are all at code-point boundaries. A cut with a negative budget throws: \<open>None\<close>.
\<close>

type_synonym codes = "nat list"

section \<open>Binary search\<close>

text \<open>The two searches of the module: the least index with \<open>P\<close>, the greatest index with \<open>P\<close>.\<close>

function search_least :: "(nat \<Rightarrow> bool) \<Rightarrow> nat \<Rightarrow> nat \<Rightarrow> nat" where
  "search_least P low high =
     (if low < high
      then (let middle = (low + high) div 2
            in if P middle then search_least P low middle else search_least P (middle + 1) high)
      else low)"
  by auto
termination by (relation "measure (\<lambda>(_, low, high). high - low)") auto

function search_greatest :: "(nat \<Rightarrow> bool) \<Rightarrow> nat \<Rightarrow> nat \<Rightarrow> nat" where
  "search_greatest P low high =
     (if low < high
      then (let middle = (low + high + 1) div 2
            in if P middle then search_greatest P middle high else search_greatest P low (middle - 1))
      else low)"
  by auto
termination by (relation "measure (\<lambda>(_, low, high). high - low)") auto

declare search_least.simps [simp del] search_greatest.simps [simp del]

lemma search_least_correct:
  assumes "low \<le> high" and "P high" and "\<And>i j. i \<le> j \<Longrightarrow> j \<le> high \<Longrightarrow> P i \<Longrightarrow> P j"
  shows "low \<le> search_least P low high \<and> search_least P low high \<le> high \<and>
    P (search_least P low high) \<and> (\<forall>i. low \<le> i \<longrightarrow> i < search_least P low high \<longrightarrow> \<not> P i)"
  using assms
proof (induction P low high rule: search_least.induct)
  case (1 P low high)
  define m where "m = (low + high) div 2"
  show ?case
  proof (cases "low < high")
    case False
    then have "search_least P low high = low" by (subst search_least.simps) simp
    with "1.prems"(1,2) False show ?thesis by simp
  next
    case less: True
    then have m: "low \<le> m" "m < high" by (auto simp: m_def)
    show ?thesis
    proof (cases "P m")
      case True
      have "low \<le> search_least P low m \<and> search_least P low m \<le> m \<and>
          P (search_least P low m) \<and> (\<forall>i. low \<le> i \<longrightarrow> i < search_least P low m \<longrightarrow> \<not> P i)"
        using "1.prems" m by (intro "1.IH"(1) [OF less m_def True]) (auto intro: True)
      moreover have "search_least P low high = search_least P low m"
        using less True by (subst search_least.simps) (simp add: Let_def m_def)
      ultimately show ?thesis using m by auto
    next
      case False
      have ih: "m + 1 \<le> search_least P (m + 1) high \<and> search_least P (m + 1) high \<le> high \<and>
          P (search_least P (m + 1) high) \<and>
          (\<forall>i. m + 1 \<le> i \<longrightarrow> i < search_least P (m + 1) high \<longrightarrow> \<not> P i)"
        using "1.prems" m by (intro "1.IH"(2) [OF less m_def False]) auto
      have "search_least P low high = search_least P (m + 1) high"
        using less False by (subst search_least.simps) (simp add: Let_def m_def)
      moreover have "\<not> P i" if "i \<le> m" for i
        using "1.prems"(3) [of i m] that m False by auto
      moreover have "low \<le> search_least P (m + 1) high" using ih m by simp
      moreover have "\<not> P i" if "i < search_least P (m + 1) high" for i
        using ih \<open>\<And>i. i \<le> m \<Longrightarrow> \<not> P i\<close> [of i] that by (cases "i \<le> m") simp_all
      ultimately show ?thesis using ih by simp
    qed
  qed
qed

lemma search_greatest_correct:
  assumes "low \<le> high" and "P low" and "\<And>i j. i \<le> j \<Longrightarrow> low \<le> i \<Longrightarrow> P j \<Longrightarrow> P i"
  shows "low \<le> search_greatest P low high \<and> search_greatest P low high \<le> high \<and>
    P (search_greatest P low high) \<and> (\<forall>i. search_greatest P low high < i \<longrightarrow> i \<le> high \<longrightarrow> \<not> P i)"
  using assms
proof (induction P low high rule: search_greatest.induct)
  case (1 P low high)
  define m where "m = (low + high + 1) div 2"
  show ?case
  proof (cases "low < high")
    case False
    then have "search_greatest P low high = low" by (subst search_greatest.simps) simp
    with "1.prems"(1,2) False show ?thesis by simp
  next
    case less: True
    then have m: "low < m" "m \<le> high" by (auto simp: m_def)
    show ?thesis
    proof (cases "P m")
      case True
      have "m \<le> search_greatest P m high \<and> search_greatest P m high \<le> high \<and>
          P (search_greatest P m high) \<and>
          (\<forall>i. search_greatest P m high < i \<longrightarrow> i \<le> high \<longrightarrow> \<not> P i)"
        using "1.prems" m by (intro "1.IH"(1) [OF less m_def True]) (auto intro: True)
      moreover have "search_greatest P low high = search_greatest P m high"
        using less True by (subst search_greatest.simps) (simp add: Let_def m_def)
      ultimately show ?thesis using m by auto
    next
      case False
      have ih: "low \<le> search_greatest P low (m - 1) \<and> search_greatest P low (m - 1) \<le> m - 1 \<and>
          P (search_greatest P low (m - 1)) \<and>
          (\<forall>i. search_greatest P low (m - 1) < i \<longrightarrow> i \<le> m - 1 \<longrightarrow> \<not> P i)"
        using "1.prems" m by (intro "1.IH"(2) [OF less m_def False]) auto
      have eq: "search_greatest P low high = search_greatest P low (m - 1)"
        using less False by (subst search_greatest.simps) (simp add: Let_def m_def)
      have above: "\<not> P i" if "m \<le> i" for i
        using "1.prems"(3) [of m i] that m False by auto
      show ?thesis unfolding eq
      proof (intro conjI allI impI)
        fix i assume "search_greatest P low (m - 1) < i" "i \<le> high"
        then show "\<not> P i" using ih above by (cases "m \<le> i") auto
      qed (use ih m in auto)
    qed
  qed
qed

section \<open>The estimate\<close>

definition is_ascii_digit :: "nat \<Rightarrow> bool" where
  "is_ascii_digit code \<longleftrightarrow> 48 \<le> code \<and> code \<le> 57"

definition is_ascii_alphanumeric :: "nat \<Rightarrow> bool" where
  "is_ascii_alphanumeric code \<longleftrightarrow>
     (48 \<le> code \<and> code \<le> 57) \<or> (65 \<le> code \<and> code \<le> 90) \<or> (97 \<le> code \<and> code \<le> 122)"

definition run_quarters :: "nat \<Rightarrow> bool \<Rightarrow> nat" where
  "run_quarters len has_digit = len * (if has_digit then 3 else 1)"

definition other_quarters :: "nat \<Rightarrow> nat" where
  "other_quarters code = (if code \<ge> 128 then 4 else if code \<le> 32 then 1 else 2)"

text \<open>The loop of \<open>estimateModelTokens\<close>: quarters so far, length of the open run, a digit in it.\<close>

fun estimate_loop :: "codes \<Rightarrow> nat \<Rightarrow> nat \<Rightarrow> bool \<Rightarrow> nat" where
  "estimate_loop [] q run d = q + run_quarters run d"
| "estimate_loop (c # cs) q run d =
     (if is_ascii_alphanumeric c then estimate_loop cs q (run + 1) (d \<or> is_ascii_digit c)
      else estimate_loop cs (q + run_quarters run d + other_quarters c) 0 False)"

text \<open>\<open>Math.ceil(n / 4)\<close>\<close>

definition estimate_model_tokens :: "codes \<Rightarrow> nat" where
  "estimate_model_tokens t = (if t = [] then 0 else (estimate_loop t 0 0 False + 3) div 4)"

section \<open>Cuts\<close>

text \<open>The loop of \<open>trimTextToModelTokens\<close>: how many code points stay.\<close>

fun trim_loop :: "nat \<Rightarrow> codes \<Rightarrow> nat \<Rightarrow> nat \<Rightarrow> bool \<Rightarrow> nat" where
  "trim_loop limit [] settled run d = 0"
| "trim_loop limit (c # cs) settled run d =
     (if is_ascii_alphanumeric c
      then (let digit = (d \<or> is_ascii_digit c)
            in if settled + run_quarters (run + 1) digit > limit then 0
               else Suc (trim_loop limit cs settled (run + 1) digit))
      else (let nxt = settled + run_quarters run d + other_quarters c
            in if nxt > limit then 0 else Suc (trim_loop limit cs nxt 0 False)))"

definition trim_text :: "codes \<Rightarrow> int \<Rightarrow> codes option" where
  "trim_text t maximum =
     (if maximum < 0 then None else Some (take (trim_loop (nat maximum * 4) t 0 0 False) t))"

definition trim_text_from_end :: "codes \<Rightarrow> int \<Rightarrow> codes option" where
  "trim_text_from_end t maximum =
     (if maximum < 0 then None
      else Some (drop (search_least
        (\<lambda>i. estimate_model_tokens (drop i t) \<le> nat maximum) 0 (length t)) t))"

text \<open>\<open>trim\<close> and \<open>trimEnd\<close> over code points: the white space and line terminators of ECMAScript.\<close>

definition is_space :: "nat \<Rightarrow> bool" where
  "is_space c \<longleftrightarrow>
     c \<in> set [9, 10, 11, 12, 13, 32, 160, 5760, 8232, 8233, 8239, 8287, 12288, 65279]
     \<or> (8192 \<le> c \<and> c \<le> 8202)"

definition trim_end :: "codes \<Rightarrow> codes" where
  "trim_end t = rev (dropWhile is_space (rev t))"

definition trim_both :: "codes \<Rightarrow> codes" where
  "trim_both t = trim_end (dropWhile is_space t)"

definition trim_utf8 :: "codes \<Rightarrow> nat \<Rightarrow> (codes \<Rightarrow> nat) \<Rightarrow> codes" where
  "trim_utf8 t max_tokens estimate =
     take (search_greatest (\<lambda>i. estimate (take i t) \<le> max_tokens) 0 (length t)) t"

definition fit_text :: "codes \<Rightarrow> nat \<Rightarrow> codes \<Rightarrow> (codes \<Rightarrow> nat) \<Rightarrow> codes" where
  "fit_text t budget marker estimate =
     (let normalized = trim_both t
      in if estimate normalized \<le> budget then normalized
         else (let suffix = 10 # marker;
                   prefix = trim_utf8 normalized (budget - estimate suffix) estimate
               in trim_both (trim_end prefix @ suffix)))"

section \<open>The estimate grows with the text\<close>

definition quarters :: "codes \<Rightarrow> nat" where
  "quarters t = estimate_loop t 0 0 False"

lemma estimate_le_iff: "estimate_model_tokens t \<le> n \<longleftrightarrow> quarters t \<le> n * 4"
  by (auto simp: estimate_model_tokens_def quarters_def run_quarters_def)

lemma estimate_loop_add: "estimate_loop cs (x + q) run d = x + estimate_loop cs q run d"
  by (induction cs q run d rule: estimate_loop.induct) (simp_all add: add.assoc)

lemma estimate_loop_ge: "q + run_quarters run d \<le> estimate_loop cs q run d"
proof (induction cs q run d rule: estimate_loop.induct)
  case (2 c cs q run d)
  then show ?case by (auto simp: run_quarters_def split: if_splits)
qed simp

lemma estimate_loop_append_ge: "estimate_loop xs q run d \<le> estimate_loop (xs @ ys) q run d"
  by (induction xs q run d rule: estimate_loop.induct) (simp_all add: estimate_loop_ge)

lemma run_quarters_mono: "r \<le> r' \<Longrightarrow> (d \<longrightarrow> d') \<Longrightarrow> run_quarters r d \<le> run_quarters r' d'"
  by (auto simp: run_quarters_def)

lemma estimate_loop_mono:
  "q \<le> q' \<Longrightarrow> r \<le> r' \<Longrightarrow> (d \<longrightarrow> d') \<Longrightarrow> estimate_loop cs q r d \<le> estimate_loop cs q' r' d'"
proof (induction cs arbitrary: q q' r r' d d')
  case Nil
  then show ?case by (simp add: add_mono run_quarters_mono)
next
  case (Cons c cs)
  show ?case
  proof (cases "is_ascii_alphanumeric c")
    case True
    then show ?thesis using Cons by (simp add: Cons.IH)
  next
    case False
    have "q + run_quarters r d + other_quarters c \<le> q' + run_quarters r' d' + other_quarters c"
      using Cons.prems run_quarters_mono [of r r' d d'] by simp
    then show ?thesis using False by (simp add: Cons.IH)
  qed
qed

lemma quarters_prefix: "quarters (take i t) \<le> quarters t"
  using estimate_loop_append_ge [of "take i t" 0 0 False "drop i t"] by (simp add: quarters_def)

lemma quarters_Cons: "quarters t \<le> quarters (c # t)"
  by (auto simp: quarters_def intro: estimate_loop_mono)

lemma quarters_drop: "quarters (drop i t) \<le> quarters t"
proof (induction i arbitrary: t)
  case (Suc i)
  show ?case
  proof (cases t)
    case (Cons c cs)
    then show ?thesis using Suc [of cs] quarters_Cons [of cs c] by simp
  qed simp
qed simp

lemma quarters_take_mono: "i \<le> j \<Longrightarrow> quarters (take i t) \<le> quarters (take j t)"
  using quarters_prefix [of i "take j t"] by (simp add: min_absorb1)

lemma quarters_drop_mono: "i \<le> j \<Longrightarrow> quarters (drop j t) \<le> quarters (drop i t)"
  using quarters_drop [of "j - i" "drop i t"] by simp

text \<open>A run ends at a character that is not alphanumeric, so the estimate adds up there.\<close>

lemma quarters_split:
  assumes "\<not> is_ascii_alphanumeric c"
  shows "quarters (xs @ c # ys) = quarters xs + other_quarters c + quarters ys"
proof -
  have add: "estimate_loop ys x 0 False = x + estimate_loop ys 0 0 False" for x
    using estimate_loop_add [of ys x 0 0 False] by simp
  have "estimate_loop (xs @ c # ys) q r d
      = estimate_loop xs q r d + other_quarters c + estimate_loop ys 0 0 False" for q r d
  proof (induction xs q r d rule: estimate_loop.induct)
    case (1 q r d)
    then show ?case using assms add [of "q + run_quarters r d + other_quarters c"] by simp
  next
    case (2 x xs q r d)
    then show ?case by simp
  qed
  then show ?thesis by (simp add: quarters_def)
qed

section \<open>Properties\<close>

lemma trim_loop_length: "trim_loop limit cs s r d \<le> length cs"
  by (induction limit cs s r d rule: trim_loop.induct) (auto simp: Let_def)

lemma trim_loop_within:
  "s + run_quarters r d \<le> limit \<Longrightarrow>
   estimate_loop (take (trim_loop limit cs s r d) cs) s r d \<le> limit"
  by (induction limit cs s r d rule: trim_loop.induct)
     (auto simp: Let_def run_quarters_def not_less)

lemma trim_loop_longest:
  "trim_loop limit cs s r d < k \<Longrightarrow> k \<le> length cs \<Longrightarrow>
   limit < estimate_loop (take k cs) s r d"
proof (induction limit cs s r d arbitrary: k rule: trim_loop.induct)
  case (1 limit s r d)
  then show ?case by simp
next
  case (2 limit c cs s r d)
  then obtain k' where k: "k = Suc k'" by (cases k) auto
  show ?case
  proof (cases "is_ascii_alphanumeric c")
    case True
    let ?d = "d \<or> is_ascii_digit c"
    show ?thesis
    proof (cases "s + run_quarters (r + 1) ?d > limit")
      case over: True
      have "s + run_quarters (r + 1) ?d \<le> estimate_loop (take k' cs) s (r + 1) ?d"
        by (rule estimate_loop_ge)
      with over True show ?thesis by (simp add: k)
    next
      case False
      with True 2 show ?thesis by (simp add: k Let_def)
    qed
  next
    case False
    let ?n = "s + run_quarters r d + other_quarters c"
    show ?thesis
    proof (cases "?n > limit")
      case over: True
      have "?n \<le> estimate_loop (take k' cs) ?n 0 False"
        using estimate_loop_ge [of ?n 0 False "take k' cs"] by (simp add: run_quarters_def)
      with over False show ?thesis by (simp add: k)
    next
      case in_limit: False
      with False 2 show ?thesis by (simp add: k Let_def)
    qed
  qed
qed

lemma trim_text_facts:
  assumes "trim_text t m = Some u"
  shows "\<exists>n\<le>length t. u = take n t \<and> estimate_model_tokens u \<le> nat m \<and>
    (\<forall>k. n < k \<longrightarrow> k \<le> length t \<longrightarrow> nat m < estimate_model_tokens (take k t))"
proof -
  let ?n = "trim_loop (nat m * 4) t 0 0 False"
  have "u = take ?n t" using assms by (auto simp: trim_text_def split: if_splits)
  moreover have "quarters (take ?n t) \<le> nat m * 4"
    using trim_loop_within [of 0 0 False "nat m * 4" t] by (simp add: quarters_def run_quarters_def)
  moreover have "nat m * 4 < quarters (take k t)" if "?n < k" "k \<le> length t" for k
    using trim_loop_longest [OF that] by (simp add: quarters_def)
  ultimately show ?thesis
    using trim_loop_length [of "nat m * 4" t 0 0 False]
    by (intro exI [of _ ?n]) (auto simp: estimate_le_iff not_le [symmetric])
qed

text \<open>
  C26. \<open>trimTextToModelTokens\<close> throws exactly on a negative budget and otherwise returns the longest
  prefix within the budget; cutting the result again to its own estimate changes nothing.
\<close>

theorem trim_longest_prefix:
  "(trim_text t m = None \<longleftrightarrow> m < 0) \<and>
   (\<forall>u. trim_text t m = Some u \<longrightarrow>
      (\<exists>n\<le>length t. u = take n t \<and> estimate_model_tokens u \<le> nat m \<and>
         (\<forall>k. n < k \<longrightarrow> k \<le> length t \<longrightarrow> nat m < estimate_model_tokens (take k t))) \<and>
      trim_text u (int (estimate_model_tokens u)) = Some u)"
proof (intro conjI allI impI)
  show "trim_text t m = None \<longleftrightarrow> m < 0" by (simp add: trim_text_def)
next
  fix u assume u: "trim_text t m = Some u"
  show "\<exists>n\<le>length t. u = take n t \<and> estimate_model_tokens u \<le> nat m \<and>
      (\<forall>k. n < k \<longrightarrow> k \<le> length t \<longrightarrow> nat m < estimate_model_tokens (take k t))"
    by (rule trim_text_facts [OF u])
  obtain v where v: "trim_text u (int (estimate_model_tokens u)) = Some v"
    by (simp add: trim_text_def)
  from trim_text_facts [OF v] obtain n where n: "n \<le> length u" "v = take n u"
      "\<forall>k. n < k \<longrightarrow> k \<le> length u \<longrightarrow> estimate_model_tokens u < estimate_model_tokens (take k u)"
    by auto
  have "n = length u"
  proof (rule ccontr)
    assume "n \<noteq> length u"
    with n(1) have "n < length u" by simp
    with n(3) [rule_format, of "length u"] show False by simp
  qed
  with n(2) v show "trim_text u (int (estimate_model_tokens u)) = Some u" by simp
qed

lemma trim_longest_prefix_witness:
  "\<exists>u. trim_text [97, 98, 99, 32, 49, 50, 51, 52] 2 = Some u \<and> estimate_model_tokens u \<le> 2"
proof -
  obtain u where u: "trim_text [97, 98, 99, 32, 49, 50, 51, 52] 2 = Some u"
    by (auto simp: trim_text_def)
  from trim_longest_prefix [of "[97, 98, 99, 32, 49, 50, 51, 52]" 2] u show ?thesis by fastforce
qed

lemma search_suffix:
  fixes t :: codes and n :: nat
  assumes "estimate_model_tokens [] \<le> n"
  defines "i \<equiv> search_least (\<lambda>i. estimate_model_tokens (drop i t) \<le> n) 0 (length t)"
  shows "i \<le> length t \<and> estimate_model_tokens (drop i t) \<le> n \<and>
    (\<forall>j<i. n < estimate_model_tokens (drop j t))"
proof -
  have mono: "estimate_model_tokens (drop j t) \<le> n"
    if "k \<le> j" "estimate_model_tokens (drop k t) \<le> n" for k j
    using that quarters_drop_mono [OF that(1), of t] by (simp add: estimate_le_iff)
  have top: "estimate_model_tokens (drop (length t) t) \<le> n" using assms(1) by simp
  from search_least_correct [of 0 "length t" "\<lambda>i. estimate_model_tokens (drop i t) \<le> n",
      OF _ top mono]
  show ?thesis by (auto simp: i_def not_le)
qed

text \<open>
  \<open>trimTextToModelTokensFromEnd\<close> finds by binary search the longest suffix within the budget:
  the estimate only grows as the suffix reaches further back.
\<close>

theorem trim_longest_suffix:
  "(trim_text_from_end t m = None \<longleftrightarrow> m < 0) \<and>
   (\<forall>u. trim_text_from_end t m = Some u \<longrightarrow>
      (\<exists>i\<le>length t. u = drop i t \<and> estimate_model_tokens u \<le> nat m \<and>
         (\<forall>j<i. nat m < estimate_model_tokens (drop j t))))"
proof (intro conjI allI impI)
  show "trim_text_from_end t m = None \<longleftrightarrow> m < 0" by (simp add: trim_text_from_end_def)
next
  fix u assume "trim_text_from_end t m = Some u"
  then have "u = drop (search_least (\<lambda>i. estimate_model_tokens (drop i t) \<le> nat m) 0 (length t)) t"
    by (auto simp: trim_text_from_end_def split: if_splits)
  then show "\<exists>i\<le>length t. u = drop i t \<and> estimate_model_tokens u \<le> nat m \<and>
      (\<forall>j<i. nat m < estimate_model_tokens (drop j t))"
    using search_suffix [of "nat m" t] by (auto simp: estimate_model_tokens_def)
qed

lemma trim_longest_suffix_witness:
  "\<exists>u. trim_text_from_end [97, 98, 99, 32, 49, 50, 51, 52] 2 = Some u \<and>
     estimate_model_tokens u \<le> 2"
proof -
  obtain u where u: "trim_text_from_end [97, 98, 99, 32, 49, 50, 51, 52] 2 = Some u"
    by (auto simp: trim_text_from_end_def)
  from trim_longest_suffix [of "[97, 98, 99, 32, 49, 50, 51, 52]" 2] u show ?thesis by fastforce
qed

text \<open>Trimming white space takes a prefix and a suffix away.\<close>

lemma dropWhile_drop: "\<exists>i. dropWhile P xs = drop i xs"
proof (induction xs)
  case Nil
  then show ?case by simp
next
  case (Cons x xs)
  then obtain i where "dropWhile P xs = drop i xs" by blast
  then show ?case by (cases "P x") (auto intro: exI [of _ "Suc i"] exI [of _ 0])
qed

lemma quarters_trim_end: "quarters (trim_end t) \<le> quarters t"
proof -
  obtain i where "dropWhile is_space (rev t) = drop i (rev t)" using dropWhile_drop by blast
  then have "trim_end t = take (length t - i) t" by (simp add: trim_end_def rev_drop)
  then show ?thesis by (simp add: quarters_prefix)
qed

lemma quarters_trim_both: "quarters (trim_both t) \<le> quarters t"
proof -
  obtain i where "dropWhile is_space t = drop i t" using dropWhile_drop by blast
  then show ?thesis
    using quarters_trim_end [of "drop i t"] quarters_drop [of i t] by (simp add: trim_both_def)
qed

lemma trim_utf8_within:
  "estimate_model_tokens (trim_utf8 t n estimate_model_tokens) \<le> n"
proof -
  have mono: "estimate_model_tokens (take i t) \<le> n"
    if "i \<le> j" "estimate_model_tokens (take j t) \<le> n" for i j
    using that quarters_take_mono [OF that(1), of t] by (simp add: estimate_le_iff)
  have bottom: "estimate_model_tokens (take 0 t) \<le> n" by (simp add: estimate_model_tokens_def)
  from search_greatest_correct [of 0 "length t" "\<lambda>i. estimate_model_tokens (take i t) \<le> n",
      OF _ bottom mono]
  show ?thesis by (simp add: trim_utf8_def)
qed

text \<open>
  \<open>fitTextToTokenBudget\<close> with the shared estimator stays within its budget, as long as the budget
  has room for the marker itself: the line break before the marker ends the last run, so the two
  estimates add up.
\<close>

theorem fit_text_within_budget:
  assumes "estimate_model_tokens (10 # marker) \<le> budget"
  shows "estimate_model_tokens (fit_text t budget marker estimate_model_tokens) \<le> budget"
proof (cases "estimate_model_tokens (trim_both t) \<le> budget")
  case True
  then show ?thesis by (simp add: fit_text_def Let_def)
next
  case False
  let ?s = "10 # marker"
  let ?p = "trim_utf8 (trim_both t) (budget - estimate_model_tokens ?s) estimate_model_tokens"
  have lf: "\<not> is_ascii_alphanumeric 10" by (simp add: is_ascii_alphanumeric_def)
  have "quarters ?s \<le> estimate_model_tokens ?s * 4" by (simp add: estimate_le_iff [symmetric])
  moreover have "quarters ?p \<le> (budget - estimate_model_tokens ?s) * 4"
    using trim_utf8_within by (simp add: estimate_le_iff [symmetric])
  moreover have "quarters (trim_end ?p @ ?s) = quarters (trim_end ?p) + quarters ?s"
    using quarters_split [OF lf, of "trim_end ?p" marker] quarters_split [OF lf, of "[]" marker]
    by (simp add: quarters_def run_quarters_def)
  ultimately have "quarters (trim_end ?p @ ?s) \<le> budget * 4"
    using quarters_trim_end [of ?p] assms by (simp add: diff_mult_distrib)
  then have "quarters (trim_both (trim_end ?p @ ?s)) \<le> budget * 4"
    using quarters_trim_both [of "trim_end ?p @ ?s"] by simp
  with False show ?thesis by (simp add: fit_text_def Let_def estimate_le_iff)
qed

lemma fit_text_within_budget_witness:
  "estimate_model_tokens (fit_text (replicate 20 97) 2 [46] estimate_model_tokens) \<le> 2"
  by (rule fit_text_within_budget) code_simp

lemma quarters_0: "quarters t = 0 \<longleftrightarrow> t = []"
proof (cases t)
  case (Cons c cs)
  have "0 < estimate_loop cs q r d" if "0 < q + run_quarters r d" for q r d
    using estimate_loop_ge [of q r d cs] that by linarith
  then show ?thesis
    by (auto simp: quarters_def Cons run_quarters_def other_quarters_def)
qed (simp add: quarters_def run_quarters_def)

text \<open>Without that room the marker alone is returned, over the budget.\<close>

lemma fit_text_marker_overflow:
  "fit_text [97, 32, 97] 0 [46, 46, 46] estimate_model_tokens = [46, 46, 46] \<and>
   estimate_model_tokens [46, 46, 46] = 2"
proof -
  have "trim_both [97, 32, 97] = [97, 32, 97]" "trim_both [10, 46, 46, 46] = [46, 46, 46]"
    "trim_end [] = []" "estimate_model_tokens [97, 32, 97] = 1"
    "estimate_model_tokens [10, 46, 46, 46] = 2" "estimate_model_tokens [46, 46, 46] = 2"
    by (simp_all add: trim_both_def trim_end_def is_space_def estimate_model_tokens_def
        run_quarters_def other_quarters_def is_ascii_alphanumeric_def is_ascii_digit_def)
  moreover have "trim_utf8 [97, 32, 97] 0 estimate_model_tokens = []"
    using trim_utf8_within [of "[97, 32, 97]" 0] unfolding estimate_le_iff by (simp add: quarters_0)
  ultimately show ?thesis by (simp add: fit_text_def)
qed

end
