(* ===== verification/ConversationWindow.thy ===== *)
theory ConversationWindow
  imports TokenEstimate "HOL-Library.Sublist"
begin

text \<open>
  The messages of a conversation that a model is shown: \<open>server/src/modules/agents/messageContinuityWindow.ts\<close>.
  A text is the list of its code units, on which \<open>length\<close>, \<open>slice\<close> and \<open>trim\<close> work.
\<close>

section \<open>Messages\<close>

record message_out =
  mo_id :: string
  mo_role :: string
  mo_content :: codes

record window_message =
  wm_message_id :: string
  wm_role :: string
  wm_content :: codes
  wm_token_count :: nat
  wm_compacted :: bool
  wm_current :: bool

definition default_conversation_window_tokens :: nat where
  "default_conversation_window_tokens = 6000"

definition default_recent_message_limit :: nat where
  "default_recent_message_limit = 12"

definition min_compacted_message_tokens :: int where
  "min_compacted_message_tokens = 80"

text \<open>\<open>positiveInt\<close>: a value that is no positive integer gives way\<close>

definition positive_int :: "jsnum option \<Rightarrow> nat \<Rightarrow> nat" where
  "positive_int value fallback =
     (case value of
        Some (Fin r) \<Rightarrow> if of_int (floor r) = r \<and> r > 0 then nat (floor r) else fallback
      | _ \<Rightarrow> fallback)"

definition estimate_tokens :: "codes \<Rightarrow> nat" where
  "estimate_tokens t =
     (let trimmed = trim_both t in if trimmed = [] then 0 else max 1 ((length trimmed + 3) div 4))"

definition normalize_window_message :: "message_out \<Rightarrow> bool \<Rightarrow> window_message" where
  "normalize_window_message m current =
     (let content = trim_both (mo_content m)
      in \<lparr>wm_message_id = mo_id m, wm_role = mo_role m, wm_content = content,
          wm_token_count = estimate_tokens content, wm_compacted = False, wm_current = current\<rparr>)"

definition codes_of :: "string \<Rightarrow> codes" where
  "codes_of s = map of_char s"

definition compaction_marker :: codes where
  "compaction_marker = 10 # codes_of ''[... compacted by conversation window budget ...]''"

text \<open>\<open>compactText\<close>: content, tokens, whether it was cut\<close>

definition compact_text :: "codes \<Rightarrow> int \<Rightarrow> codes \<times> nat \<times> bool" where
  "compact_text t max_tokens =
     (let token_count = estimate_tokens t
      in if int token_count \<le> max_tokens then (t, token_count, False)
         else
           let max_chars = nat (max_tokens * 4);
               content_chars = max_chars - length compaction_marker;
               content = trim_end (take content_chars t) @ compaction_marker
           in (content, estimate_tokens content, True))"

definition compact_window_message :: "window_message \<Rightarrow> int \<Rightarrow> window_message" where
  "compact_window_message m max_tokens =
     (case compact_text (wm_content m) max_tokens of
        (content, tokens, compacted) \<Rightarrow>
          m\<lparr>wm_content := content, wm_token_count := tokens, wm_compacted := compacted\<rparr>)"

section \<open>The window\<close>

text \<open>The loop over the candidates, newest first: what is selected, dropped, and which ids were compacted\<close>

fun window_loop ::
  "window_message list \<Rightarrow> int \<Rightarrow> bool \<Rightarrow> window_message list \<times> window_message list \<times> string list" where
  "window_loop [] remaining budget_exhausted = ([], [], [])"
| "window_loop (m # ms) remaining budget_exhausted =
     (if budget_exhausted \<or> remaining \<le> 0
      then (case window_loop ms remaining budget_exhausted of (s, d, c) \<Rightarrow> (s, m # d, c))
      else if int (wm_token_count m) \<le> remaining
      then (case window_loop ms (remaining - int (wm_token_count m)) budget_exhausted of
              (s, d, c) \<Rightarrow> (m # s, d, c))
      else if remaining \<ge> min_compacted_message_tokens
      then (let compacted = compact_window_message m remaining
            in case window_loop ms (remaining - int (wm_token_count compacted)) budget_exhausted of
                 (s, d, c) \<Rightarrow> (compacted # s, d, wm_message_id m # c))
      else (case window_loop ms remaining True of (s, d, c) \<Rightarrow> (s, m # d, c)))"

record conversation_window =
  cw_messages :: "window_message list"
  cw_token_count :: nat
  cw_max_tokens :: nat
  cw_max_recent_messages :: nat
  cw_truncated :: bool
  cw_over_budget :: bool
  cw_dropped_message_ids :: "string list"
  cw_compacted_message_ids :: "string list"
  cw_dropped_for_recent_limit :: nat
  cw_dropped_for_budget :: nat

definition window_history :: "message_out list \<Rightarrow> message_out \<Rightarrow> window_message list" where
  "window_history messages current =
     map (\<lambda>m. normalize_window_message m False)
       (filter (\<lambda>m. trim_both (mo_content m) \<noteq> []) (filter (\<lambda>m. mo_id m \<noteq> mo_id current) messages))"

definition build_chat_conversation_window ::
  "message_out list \<Rightarrow> message_out \<Rightarrow> jsnum option \<Rightarrow> jsnum option \<Rightarrow> conversation_window" where
  "build_chat_conversation_window messages current_message max_tokens_opt max_recent_opt =
     (let max_tokens = positive_int max_tokens_opt default_conversation_window_tokens;
          max_recent = positive_int max_recent_opt default_recent_message_limit;
          current = normalize_window_message current_message True;
          history = window_history messages current_message;
          recent = drop (length history - max_recent) history;
          dropped_by_recent = take (length history - length recent) history
      in case window_loop (rev recent) (int max_tokens - int (wm_token_count current)) False of
           (selected_reversed, dropped_by_budget, compacted_ids) \<Rightarrow>
             let msgs = rev selected_reversed @ [current];
                 dropped = dropped_by_recent @ rev dropped_by_budget;
                 over_budget = wm_token_count current > max_tokens
             in \<lparr>cw_messages = msgs,
                 cw_token_count = sum_list (map wm_token_count msgs),
                 cw_max_tokens = max_tokens,
                 cw_max_recent_messages = max_recent,
                 cw_truncated = (over_budget \<or> compacted_ids \<noteq> [] \<or> dropped \<noteq> [] \<or> dropped_by_recent \<noteq> []),
                 cw_over_budget = over_budget,
                 cw_dropped_message_ids = map wm_message_id dropped,
                 cw_compacted_message_ids = filter (\<lambda>i. i \<noteq> []) compacted_ids,
                 cw_dropped_for_recent_limit = length dropped_by_recent,
                 cw_dropped_for_budget = length dropped_by_budget\<rparr>)"

section \<open>The messages of a provider\<close>

record canonical_message =
  cm_role :: string
  cm_content :: codes

definition normalize_provider_role :: "string \<Rightarrow> string" where
  "normalize_provider_role role = (if role = ''assistant'' then ''assistant'' else ''user'')"

text \<open>The loop that merges turns of one role\<close>

definition merge_turn :: "canonical_message list \<Rightarrow> canonical_message \<Rightarrow> canonical_message list" where
  "merge_turn merged m =
     (if merged \<noteq> [] \<and> cm_role (last merged) = cm_role m
      then butlast merged @ [(last merged)\<lparr>cm_content := cm_content (last merged) @ [10, 10] @ cm_content m\<rparr>]
      else merged @ [m])"

definition normalize_provider_messages :: "canonical_message list \<Rightarrow> canonical_message list" where
  "normalize_provider_messages messages =
     (let non_empty = filter (\<lambda>m. trim_both (cm_content m) \<noteq> []) messages;
          from_first_user = dropWhile (\<lambda>m. cm_role m \<noteq> ''user'') non_empty;
          merged = foldl merge_turn [] from_first_user
      in if merged \<noteq> [] then merged else [\<lparr>cm_role = ''user'', cm_content = []\<rparr>])"

definition conversation_window_to_messages :: "conversation_window \<Rightarrow> canonical_message list" where
  "conversation_window_to_messages w =
     normalize_provider_messages
       (map (\<lambda>m. \<lparr>cm_role = normalize_provider_role (wm_role m), cm_content = wm_content m\<rparr>) (cw_messages w))"

text \<open>\<open>renderConversationWindow\<close>, by lines\<close>

definition render_role_block :: "string \<Rightarrow> codes \<Rightarrow> codes" where
  "render_role_block role content = codes_of role @ codes_of '':'' @ [10] @ content"

definition join_lines :: "codes list \<Rightarrow> codes" where
  "join_lines ls = concat (case ls of [] \<Rightarrow> [] | l # ls' \<Rightarrow> l # map (\<lambda>k. 10 # k) ls')"

definition render_conversation_window :: "conversation_window \<Rightarrow> codes" where
  "render_conversation_window w =
     (let prior = filter (\<lambda>m. \<not> wm_current m) (cw_messages w);
          current = find wm_current (cw_messages w)
      in if prior = [] then (case current of None \<Rightarrow> [] | Some m \<Rightarrow> wm_content m)
         else join_lines
           (codes_of ''[Conversation window - use this for continuity.]'' #
            [[], codes_of ''[Recent session turns]''] @
            map (\<lambda>m. render_role_block (wm_role m) (wm_content m)) prior @
            (case current of
               None \<Rightarrow> []
             | Some m \<Rightarrow> [[], codes_of ''[Current user message]'', render_role_block (wm_role m) (wm_content m)])))"

section \<open>Trimmed texts\<close>

lemma trim_end_length: "length (trim_end t) \<le> length t"
  unfolding trim_end_def by (metis length_dropWhile_le length_rev)

lemma trim_both_length: "length (trim_both t) \<le> length t"
  unfolding trim_both_def using trim_end_length length_dropWhile_le le_trans by blast

lemma trim_end_prefix: "prefix (trim_end t) t"
proof -
  have "t = trim_end t @ rev (takeWhile is_space (rev t))"
    unfolding trim_end_def by (metis rev_append rev_rev_ident takeWhile_dropWhile_id)
  then show ?thesis by (metis prefixI)
qed

lemma trim_end_last: "trim_end t \<noteq> [] \<Longrightarrow> \<not> is_space (last (trim_end t))"
  unfolding trim_end_def by (metis hd_dropWhile last_rev rev_is_Nil_conv)

lemma trim_end_fixed: "t = [] \<or> \<not> is_space (last t) \<Longrightarrow> trim_end t = t"
  unfolding trim_end_def by (cases t rule: rev_cases) auto

lemma trim_both_fixed: "t = [] \<or> \<not> is_space (hd t) \<and> \<not> is_space (last t) \<Longrightarrow> trim_both t = t"
  unfolding trim_both_def by (cases t) (auto simp: trim_end_fixed)

lemma trim_both_idem [simp]: "trim_both (trim_both t) = trim_both t"
proof (cases "trim_both t = []")
  case True
  then show ?thesis by (simp add: trim_both_fixed)
next
  case False
  let ?u = "dropWhile is_space t"
  have last: "\<not> is_space (last (trim_both t))" using False trim_end_last unfolding trim_both_def by blast
  have "prefix (trim_both t) ?u" unfolding trim_both_def by (rule trim_end_prefix)
  then obtain rest where u: "?u = trim_both t @ rest" unfolding prefix_def by blast
  then have "?u \<noteq> []" "hd (trim_both t) = hd ?u" using False by (metis append_is_Nil_conv, simp)
  then have "\<not> is_space (hd (trim_both t))" using hd_dropWhile by metis
  with last show ?thesis by (simp add: trim_both_fixed)
qed

section \<open>What the loop selects\<close>

text \<open>A message as it is shown: itself, or a part of it before the marker\<close>

definition shown :: "window_message \<Rightarrow> window_message \<Rightarrow> bool" where
  "shown m' m \<longleftrightarrow>
     m' = m \<or>
     (\<exists>part. prefix part (wm_content m) \<and>
        m' = m\<lparr>wm_content := part @ compaction_marker, wm_token_count := estimate_tokens (part @ compaction_marker),
          wm_compacted := True\<rparr>)"

definition plain_message :: "window_message \<Rightarrow> bool" where
  "plain_message m \<longleftrightarrow> wm_token_count m = estimate_tokens (wm_content m) \<and> \<not> wm_compacted m"

lemma compaction_marker_length: "length compaction_marker = 50"
  by (simp add: compaction_marker_def codes_of_def)

lemma estimate_tokens_le: "length t \<le> 4 * n \<Longrightarrow> 1 \<le> n \<Longrightarrow> estimate_tokens t \<le> n"
  using trim_both_length [of t] by (auto simp: estimate_tokens_def Let_def)

lemma compact_message_fits:
  assumes "plain_message m" "int (wm_token_count m) > remaining" "remaining \<ge> min_compacted_message_tokens"
  defines "m' \<equiv> compact_window_message m remaining"
  shows "shown m' m \<and> wm_compacted m' \<and> int (wm_token_count m') \<le> remaining"
proof -
  define n where "n = nat (remaining * 4) - length compaction_marker"
  define part where "part = trim_end (take n (wm_content m))"
  have "prefix part (wm_content m)"
    unfolding part_def using trim_end_prefix take_is_prefix prefix_order.trans by blast
  moreover have m': "m' = m\<lparr>wm_content := part @ compaction_marker,
      wm_token_count := estimate_tokens (part @ compaction_marker), wm_compacted := True\<rparr>"
    using assms(1,2) unfolding m'_def part_def n_def
    by (simp add: compact_window_message_def compact_text_def plain_message_def Let_def)
  moreover have "length part \<le> n" unfolding part_def using trim_end_length [of "take n (wm_content m)"] by simp
  then have "length (part @ compaction_marker) \<le> 4 * nat remaining"
    using assms(3) unfolding n_def compaction_marker_length min_compacted_message_tokens_def
    by (simp add: compaction_marker_length)
  then have "estimate_tokens (part @ compaction_marker) \<le> nat remaining"
    using assms(3) by (intro estimate_tokens_le) (auto simp: min_compacted_message_tokens_def)
  ultimately show ?thesis
    using assms(3) unfolding shown_def by (auto simp: min_compacted_message_tokens_def)
qed

lemma window_loop_stop:
  "ex \<or> remaining \<le> 0 \<Longrightarrow> window_loop ms remaining ex = ([], ms, [])"
  by (induction ms) auto

lemma window_loop_result:
  assumes "\<forall>m\<in>set ms. plain_message m" and "window_loop ms remaining ex = (s, d, c)"
  shows "(\<exists>k. d = drop k ms \<and> list_all2 shown s (take k ms)) \<and>
    int (sum_list (map wm_token_count s)) \<le> max 0 remaining \<and>
    c = map wm_message_id (filter wm_compacted s)"
  using assms
proof (induction ms arbitrary: remaining ex s d c)
  case Nil
  then show ?case by simp
next
  case (Cons m ms)
  have plain: "plain_message m" and rest: "\<forall>m\<in>set ms. plain_message m" using Cons.prems(1) by auto
  have keep: ?case if as: "shown m' m" and fits: "int (wm_token_count m') \<le> remaining"
    and loop: "window_loop ms (remaining - int (wm_token_count m')) ex = (s', d', c')"
    and s: "s = m' # s'" "d = d'" "c = (if wm_compacted m' then [wm_message_id m'] else []) @ c'"
  for m' s' d' c'
  proof -
    from Cons.IH [OF rest loop] obtain k where "d' = drop k ms" "list_all2 shown s' (take k ms)"
      and sums: "int (sum_list (map wm_token_count s')) \<le> max 0 (remaining - int (wm_token_count m'))"
      and ids: "c' = map wm_message_id (filter wm_compacted s')" by blast
    with as s have "d = drop (Suc k) (m # ms)" "list_all2 shown s (take (Suc k) (m # ms))" by simp_all
    then show ?thesis using sums fits s ids by (intro conjI exI [of _ "Suc k"]) auto
  qed
  consider (stop) "ex \<or> remaining \<le> 0" | (fit) "\<not> ex" "0 < remaining" "int (wm_token_count m) \<le> remaining"
    | (compact) "\<not> ex" "remaining < int (wm_token_count m)" "min_compacted_message_tokens \<le> remaining" "0 < remaining"
    | (full) "\<not> ex" "0 < remaining" "remaining < int (wm_token_count m)" "remaining < min_compacted_message_tokens"
    by linarith
  then show ?case
  proof cases
    case stop
    with Cons.prems(2) window_loop_stop [OF stop, of "m # ms"] show ?thesis by (auto intro: exI [of _ 0])
  next
    case fit
    obtain s' d' c' where loop: "window_loop ms (remaining - int (wm_token_count m)) ex = (s', d', c')"
      by (cases "window_loop ms (remaining - int (wm_token_count m)) ex")
    show ?thesis
      using fit loop plain Cons.prems(2) by (intro keep [OF _ _ loop]) (auto simp: shown_def plain_message_def)
  next
    case compact
    define m' where "m' = compact_window_message m remaining"
    have m': "shown m' m" "wm_compacted m'" "int (wm_token_count m') \<le> remaining"
      using compact_message_fits [OF plain compact(2,3)] by (simp_all add: m'_def)
    have "wm_message_id m' = wm_message_id m" using m'(1) by (auto simp: shown_def)
    obtain s' d' c' where loop: "window_loop ms (remaining - int (wm_token_count m')) ex = (s', d', c')"
      by (cases "window_loop ms (remaining - int (wm_token_count m')) ex")
    show ?thesis
      using compact loop m' \<open>wm_message_id m' = wm_message_id m\<close> Cons.prems(2)
      by (intro keep [OF m'(1,3) loop]) (auto simp: m'_def Let_def)
  next
    case full
    with Cons.prems(2) window_loop_stop [of True remaining ms] show ?thesis by (auto intro: exI [of _ 0])
  qed
qed

lemma history_plain: "m \<in> set (window_history messages current) \<Longrightarrow> plain_message m"
  by (auto simp: window_history_def normalize_window_message_def plain_message_def Let_def)

lemma shown_compacted: "shown m' m \<Longrightarrow> \<not> wm_compacted m \<Longrightarrow> wm_compacted m' \<longleftrightarrow> m' \<noteq> m"
  by (auto simp: shown_def)

lemma shown_same:
  "list_all2 shown s ms \<Longrightarrow> \<forall>m\<in>set ms. \<not> wm_compacted m \<Longrightarrow> filter wm_compacted s = [] \<longleftrightarrow> s = ms"
proof (induction rule: list_all2_induct)
  case (Cons x xs y ys)
  then show ?case using shown_compacted [of x y] by auto
qed simp

text \<open>The window, in terms of the part of the history that it keeps\<close>

lemma window_parts:
  assumes "w = build_chat_conversation_window messages current max_tokens max_recent"
  shows "\<exists>older kept. window_history messages current = older @ kept \<and> length kept \<le> cw_max_recent_messages w \<and>
    (\<exists>s. cw_messages w = s @ [normalize_window_message current True] \<and> list_all2 shown s kept) \<and>
    cw_dropped_message_ids w = map wm_message_id older \<and>
    (cw_token_count w \<le> cw_max_tokens w \<or> kept = [] \<and> cw_over_budget w) \<and>
    (cw_truncated w \<longleftrightarrow> cw_over_budget w \<or>
       cw_messages w \<noteq> window_history messages current @ [normalize_window_message current True])"
proof -
  define limit where "limit = positive_int max_tokens default_conversation_window_tokens"
  define most where "most = positive_int max_recent default_recent_message_limit"
  define cur where "cur = normalize_window_message current True"
  define history where "history = window_history messages current"
  define recent where "recent = drop (length history - most) history"
  define remaining where "remaining = int limit - int (wm_token_count cur)"
  obtain s d c where loop: "window_loop (rev recent) remaining False = (s, d, c)"
    by (cases "window_loop (rev recent) remaining False")
  have plain: "\<forall>m\<in>set (rev recent). plain_message m"
    using history_plain in_set_dropD by (fastforce simp: recent_def history_def)
  from window_loop_result [OF plain loop] obtain k where d: "d = drop k (rev recent)"
    and s: "list_all2 shown s (take k (rev recent))"
    and sums: "int (sum_list (map wm_token_count s)) \<le> max 0 remaining"
    and c: "c = map wm_message_id (filter wm_compacted s)" by blast
  define kept where "kept = rev (take k (rev recent))"
  define older where "older = take (length history - length recent) history @ rev d"
  have parts: "take (length history - length recent) history @ recent = history"
    by (simp add: recent_def)
  have "rev d @ kept = recent" unfolding d kept_def by (metis append_take_drop_id rev_append rev_rev_ident)
  then have split: "history = older @ kept" using parts by (simp add: older_def)
  have shows_kept: "list_all2 shown (rev s) kept" using s by (simp add: kept_def list_all2_rev1)
  have uncut: "\<forall>m\<in>set history. \<not> wm_compacted m"
    using history_plain by (auto simp: history_def plain_message_def)
  have w: "cw_messages w = rev s @ [cur]" "cw_token_count w = sum_list (map wm_token_count (rev s @ [cur]))"
    "cw_max_tokens w = limit" "cw_max_recent_messages w = most" "cw_over_budget w \<longleftrightarrow> wm_token_count cur > limit"
    "cw_dropped_message_ids w = map wm_message_id older"
    "cw_truncated w \<longleftrightarrow> cw_over_budget w \<or> c \<noteq> [] \<or> older \<noteq> []"
    using loop unfolding assms build_chat_conversation_window_def limit_def most_def cur_def history_def recent_def
      remaining_def older_def by (auto simp: Let_def)
  have few: "length kept \<le> most" by (simp add: kept_def recent_def)
  have within: "cw_token_count w \<le> cw_max_tokens w \<or> kept = [] \<and> cw_over_budget w"
  proof (cases "wm_token_count cur > limit")
    case True
    with window_loop_stop [of False remaining "rev recent"] loop have "s = []" by (simp add: remaining_def)
    with shows_kept True w(5) show ?thesis by simp
  next
    case False
    with sums w(2,3) show ?thesis by (simp add: remaining_def rev_map [symmetric])
  qed
  have cut: "c \<noteq> [] \<or> older \<noteq> [] \<longleftrightarrow> rev s \<noteq> history"
  proof (cases "older = []")
    case True
    with shown_same [OF shows_kept] uncut split c show ?thesis by (auto simp: rev_filter [symmetric])
  next
    case False
    have "length (rev s) \<noteq> length history" using list_all2_lengthD [OF shows_kept] split False by simp
    with False show ?thesis by (metis (no_types))
  qed
  from split few shows_kept within cut w show ?thesis
    unfolding history_def [symmetric] cur_def [symmetric] by auto
qed

section \<open>What a provider gets\<close>

lemma merge_turn_nonempty: "foldl merge_turn ms ns \<noteq> [] \<longleftrightarrow> ms \<noteq> [] \<or> ns \<noteq> []"
  by (induction ns arbitrary: ms) (auto simp: merge_turn_def)

definition turns_alternate :: "canonical_message list \<Rightarrow> bool" where
  "turns_alternate ms \<longleftrightarrow> successively (\<lambda>a b. cm_role a \<noteq> cm_role b) ms"

lemma merge_turn_alternates:
  assumes "turns_alternate ms"
  shows "turns_alternate (merge_turn ms m)"
  using assms unfolding turns_alternate_def merge_turn_def
  by (cases ms rule: rev_cases) (auto simp: successively_append_iff)

lemma merge_turn_facts:
  "merge_turn ms m \<noteq> []"
  "ms \<noteq> [] \<Longrightarrow> cm_role (hd (merge_turn ms m)) = cm_role (hd ms)"
  "cm_role (last (merge_turn ms m)) = cm_role m" "suffix (cm_content m) (cm_content (last (merge_turn ms m)))"
  "cm_role ` set (merge_turn ms m) \<subseteq> insert (cm_role m) (cm_role ` set ms)"
  unfolding merge_turn_def by (cases ms rule: rev_cases; auto simp: suffix_def hd_append)+

lemma merged_alternate: "turns_alternate ms \<Longrightarrow> turns_alternate (foldl merge_turn ms ns)"
  by (induction ns arbitrary: ms) (auto simp: merge_turn_alternates)

lemma merged_first: "ms \<noteq> [] \<Longrightarrow> cm_role (hd (foldl merge_turn ms ns)) = cm_role (hd ms)"
  by (induction ns arbitrary: ms) (auto simp: merge_turn_facts(1,2))

lemma merged_roles: "cm_role ` set (foldl merge_turn ms ns) \<subseteq> cm_role ` set ns \<union> cm_role ` set ms"
proof (induction ns arbitrary: ms)
  case (Cons n ns)
  then show ?case using merge_turn_facts(5) [of ms n] by (simp, blast)
qed simp

lemma provider_messages_shape:
  assumes "cm_role ` set messages \<subseteq> {''user'', ''assistant''}" "out = normalize_provider_messages messages"
  shows "out \<noteq> [] \<and> cm_role (hd out) = ''user'' \<and> turns_alternate out \<and> cm_role ` set out \<subseteq> {''user'', ''assistant''}"
proof -
  define turns where "turns = dropWhile (\<lambda>m. cm_role m \<noteq> ''user'') (filter (\<lambda>m. trim_both (cm_content m) \<noteq> []) messages)"
  have out: "out = (if foldl merge_turn [] turns \<noteq> [] then foldl merge_turn [] turns
      else [\<lparr>cm_role = ''user'', cm_content = []\<rparr>])"
    unfolding assms(2) normalize_provider_messages_def turns_def by (simp add: Let_def)
  show ?thesis
  proof (cases turns)
    case Nil
    then show ?thesis unfolding out by (simp add: turns_alternate_def)
  next
    case (Cons t ts)
    have user: "cm_role t = ''user''" using Cons unfolding turns_def by (auto simp: dropWhile_eq_Cons_conv)
    have "set turns \<subseteq> set messages" unfolding turns_def using set_dropWhileD by fastforce
    then have "cm_role ` set turns \<subseteq> {''user'', ''assistant''}" using assms(1) by blast
    then have roles: "cm_role ` set (foldl merge_turn [] turns) \<subseteq> {''user'', ''assistant''}"
      using merged_roles [of "[]" turns] by auto
    have some: "foldl merge_turn [] turns \<noteq> []" using Cons merge_turn_nonempty by blast
    have "cm_role (hd (foldl merge_turn [] turns)) = ''user''"
      using merged_first [of "[t]" ts] Cons user by (simp add: merge_turn_def)
    with some roles merged_alternate [of "[]" turns] show ?thesis
      unfolding out by (simp add: turns_alternate_def)
  qed
qed

lemma provider_messages_last:
  assumes "trim_both (cm_content m) \<noteq> []" "cm_role m = ''user''" "out = normalize_provider_messages (ms @ [m])"
  shows "cm_role (last out) = ''user'' \<and> suffix (cm_content m) (cm_content (last out))"
proof -
  define turns where "turns = dropWhile (\<lambda>m. cm_role m \<noteq> ''user'') (filter (\<lambda>m. trim_both (cm_content m) \<noteq> []) ms)"
  have "out = merge_turn (foldl merge_turn [] turns) m"
    unfolding assms(3) normalize_provider_messages_def turns_def using assms(1,2) merge_turn_facts(1)
    by (simp add: Let_def dropWhile_append3)
  then show ?thesis using merge_turn_facts(3,4) assms(2) by metis
qed

section \<open>Properties\<close>

text \<open>
  C16. The window shows the newest messages of the history without a gap, each whole or cut before the marker, and the
  current message after them; everything older is reported as dropped. It stays within the token budget and the
  message limit, unless the current message alone exceeds the budget and is then shown alone, and it reports a
  truncation exactly when something of the history is missing or cut or the budget is exceeded.
\<close>
theorem window_recent_within_budget:
  fixes messages current max_tokens max_recent
  defines "w \<equiv> build_chat_conversation_window messages current max_tokens max_recent"
  shows "\<exists>older kept. window_history messages current = older @ kept \<and> length kept \<le> cw_max_recent_messages w \<and>
    (\<exists>s. cw_messages w = s @ [normalize_window_message current True] \<and> list_all2 shown s kept) \<and>
    cw_dropped_message_ids w = map wm_message_id older \<and>
    (cw_token_count w \<le> cw_max_tokens w \<or> kept = [] \<and> cw_over_budget w) \<and>
    (cw_truncated w \<longleftrightarrow> cw_over_budget w \<or>
       cw_messages w \<noteq> window_history messages current @ [normalize_window_message current True])"
  by (rule window_parts) (simp add: w_def)

theorem window_recent_within_budget_witness:
  "let current = \<lparr>mo_id = ''2'', mo_role = ''user'', mo_content = codes_of ''Go on''\<rparr>;
       messages = [\<lparr>mo_id = ''1'', mo_role = ''user'', mo_content = codes_of ''Hi''\<rparr>, current];
       w = build_chat_conversation_window messages current (Some (Fin 1)) None
   in cw_over_budget w \<and> cw_truncated w \<and> cw_dropped_message_ids w = [''1''] \<and>
      (\<exists>older kept. window_history messages current = older @ kept \<and> length kept \<le> cw_max_recent_messages w \<and>
         cw_dropped_message_ids w = map wm_message_id older)"
proof -
  define current where "current = \<lparr>mo_id = ''2'', mo_role = ''user'', mo_content = codes_of ''Go on''\<rparr>"
  define messages where "messages = [\<lparr>mo_id = ''1'', mo_role = ''user'', mo_content = codes_of ''Hi''\<rparr>, current]"
  define w where "w = build_chat_conversation_window messages current (Some (Fin 1)) None"
  have texts: "trim_both (codes_of ''Go on'') = codes_of ''Go on''" "trim_both (codes_of ''Hi'') = codes_of ''Hi''"
    by (simp_all add: codes_of_def trim_both_def trim_end_def is_space_def)
  have filled: "codes_of ''Go on'' \<noteq> []" "codes_of ''Hi'' \<noteq> []" "length (codes_of ''Go on'') = 5"
    by (simp_all add: codes_of_def)
  have over: "cw_over_budget w" "cw_dropped_message_ids w = [''1'']"
    by (simp_all add: w_def messages_def current_def texts filled build_chat_conversation_window_def window_history_def
      normalize_window_message_def positive_int_def default_recent_message_limit_def estimate_tokens_def Let_def)
  with window_recent_within_budget [of messages current "Some (Fin 1)" None]
  have "cw_truncated w \<and> (\<exists>older kept. window_history messages current = older @ kept \<and>
      length kept \<le> cw_max_recent_messages w \<and> cw_dropped_message_ids w = map wm_message_id older)"
    unfolding w_def [symmetric] by blast
  with over show ?thesis unfolding Let_def w_def messages_def current_def by blast
qed

text \<open>
  Whatever the conversation, the messages for a provider start with a user turn, alternate between user and
  assistant and are never empty; and what a person just said ends the last of them.
\<close>
theorem provider_messages_valid:
  fixes messages current max_tokens max_recent
  defines "out \<equiv> conversation_window_to_messages (build_chat_conversation_window messages current max_tokens max_recent)"
  assumes "mo_role current \<noteq> ''assistant''" "trim_both (mo_content current) \<noteq> []"
  shows "out \<noteq> [] \<and> cm_role (hd out) = ''user'' \<and> turns_alternate out \<and>
    cm_role ` set out \<subseteq> {''user'', ''assistant''} \<and>
    cm_role (last out) = ''user'' \<and> suffix (trim_both (mo_content current)) (cm_content (last out))"
proof -
  obtain s where s: "cw_messages (build_chat_conversation_window messages current max_tokens max_recent) =
      s @ [normalize_window_message current True]"
    using window_parts by blast
  define turn where "turn = (\<lambda>m::window_message. \<lparr>cm_role = normalize_provider_role (wm_role m), cm_content = wm_content m\<rparr>)"
  have out: "out = normalize_provider_messages (map turn s @ [turn (normalize_window_message current True)])"
    unfolding out_def conversation_window_to_messages_def s turn_def by simp
  have "cm_role ` set (map turn s @ [turn (normalize_window_message current True)]) \<subseteq> {''user'', ''assistant''}"
    by (auto simp: turn_def normalize_provider_role_def split: if_splits)
  from provider_messages_shape [OF this out] provider_messages_last [OF _ _ out] assms(2,3)
  show ?thesis
    by (auto simp: turn_def normalize_window_message_def normalize_provider_role_def Let_def)
qed

theorem provider_messages_valid_witness:
  "let current = \<lparr>mo_id = ''3'', mo_role = ''user'', mo_content = codes_of ''Go on''\<rparr>;
       out = conversation_window_to_messages (build_chat_conversation_window
         [\<lparr>mo_id = ''1'', mo_role = ''assistant'', mo_content = codes_of ''Hello''\<rparr>,
          \<lparr>mo_id = ''2'', mo_role = ''user'', mo_content = codes_of ''Hi''\<rparr>, current] current None None)
   in turns_alternate out \<and> cm_role (last out) = ''user'' \<and> suffix (trim_both (mo_content current)) (cm_content (last out)) \<and>
     map cm_content out = [codes_of ''Hi'' @ [10, 10] @ codes_of ''Go on'']"
proof -
  define current where "current = \<lparr>mo_id = ''3'', mo_role = ''user'', mo_content = codes_of ''Go on''\<rparr>"
  define messages where "messages = [\<lparr>mo_id = ''1'', mo_role = ''assistant'', mo_content = codes_of ''Hello''\<rparr>,
    \<lparr>mo_id = ''2'', mo_role = ''user'', mo_content = codes_of ''Hi''\<rparr>, current]"
  have texts: "trim_both (codes_of ''Go on'') = codes_of ''Go on''" "trim_both (codes_of ''Hi'') = codes_of ''Hi''"
    "trim_both (codes_of ''Hello'') = codes_of ''Hello''"
    by (simp_all add: codes_of_def trim_both_def trim_end_def is_space_def)
  have filled: "codes_of ''Go on'' \<noteq> []" "codes_of ''Hi'' \<noteq> []" "codes_of ''Hello'' \<noteq> []"
    "length (codes_of ''Go on'') = 5" "length (codes_of ''Hi'') = 2" "length (codes_of ''Hello'') = 5"
    by (simp_all add: codes_of_def)
  have "mo_role current \<noteq> ''assistant''" "trim_both (mo_content current) \<noteq> []"
    by (simp_all add: current_def texts filled)
  note valid = provider_messages_valid [OF this, of messages None None]
  have "map cm_content (conversation_window_to_messages (build_chat_conversation_window messages current None None)) =
      [codes_of ''Hi'' @ [10, 10] @ codes_of ''Go on'']"
    by (simp add: messages_def current_def texts filled build_chat_conversation_window_def window_history_def
      normalize_window_message_def positive_int_def default_conversation_window_tokens_def
      default_recent_message_limit_def estimate_tokens_def conversation_window_to_messages_def
      normalize_provider_messages_def normalize_provider_role_def merge_turn_def)
  with valid show ?thesis unfolding Let_def messages_def current_def by blast
qed

end
