(* ===== verification/ReportReferences.thy ===== *)
theory ReportReferences
  imports Prelude
begin

text \<open>
  The reference ids of a research report: \<open>server/src/modules/projectResearch/reportReferenceNumbering.ts\<close>. The
  evidence of the space that is not deleted is a list of rows.
\<close>

section \<open>Evidence\<close>

record evidence_row =
  er_id :: string
  er_source_item_id :: "string option"

definition hex_char :: "char \<Rightarrow> bool" where
  "hex_char c \<longleftrightarrow> is_digit c \<or> js_lower_char c \<in> set ''abcdef''"

text \<open>\<open>/^[0-9a-f][0-9a-f-]{7,35}$/i\<close>\<close>

definition is_id_prefix :: "string \<Rightarrow> bool" where
  "is_id_prefix token \<longleftrightarrow>
     (case token of
        [] \<Rightarrow> False
      | c # cs \<Rightarrow> hex_char c \<and> 7 \<le> length cs \<and> length cs \<le> 35 \<and> list_all (\<lambda>d. hex_char d \<or> d = CHR ''-'') cs)"

text \<open>The query: at most two rows with the id, or whose id starts with the token\<close>

definition evidence_rows :: "evidence_row list \<Rightarrow> string \<Rightarrow> evidence_row list" where
  "evidence_rows table token =
     take 2 (filter (\<lambda>r. er_id r = token \<or> (is_id_prefix token \<and> starts_with token (er_id r))) table)"

type_synonym evidence_cache = "(string \<times> evidence_row option) list"

definition lookup_evidence ::
  "evidence_row list \<Rightarrow> string \<Rightarrow> evidence_cache \<Rightarrow> evidence_row option \<times> evidence_cache" where
  "lookup_evidence table token cache =
     (case map_of cache token of
        Some row \<Rightarrow> (row, cache)
      | None \<Rightarrow>
          let row = (case evidence_rows table token of [r] \<Rightarrow> Some r | _ \<Rightarrow> None)
          in (row, (token, row) # cache))"

section \<open>Citations\<close>

text \<open>What the first pass records of an entry: its group, its evidence, and the id that replaces the token\<close>

record citation =
  ct_group_key :: string
  ct_evidence_id :: "string option"
  ct_row_id :: "string option"

definition citation_of ::
  "evidence_row list \<Rightarrow> nat \<Rightarrow> jsobj \<Rightarrow> evidence_cache \<Rightarrow> citation \<times> evidence_cache" where
  "citation_of table position entry cache =
     (case string_value (get_prop entry ''evidence_id'') of
        Some token \<Rightarrow>
          (case lookup_evidence table token cache of
             (Some row, cache') \<Rightarrow>
               (\<lparr>ct_group_key = (case er_source_item_id row of
                    Some s \<Rightarrow> if s \<noteq> [] then ''source:'' @ s else ''evidence:'' @ er_id row
                  | None \<Rightarrow> ''evidence:'' @ er_id row),
                 ct_evidence_id = Some (er_id row), ct_row_id = Some (er_id row)\<rparr>, cache')
           | (None, cache') \<Rightarrow>
               (\<lparr>ct_group_key = ''evidence:'' @ token, ct_evidence_id = Some token, ct_row_id = None\<rparr>, cache'))
      | None \<Rightarrow>
          (\<lparr>ct_group_key =
              (case string_value (get_prop entry ''source_item_id'') of
                 Some s \<Rightarrow> ''source:'' @ s
               | None \<Rightarrow>
                   (case string_value (get_prop entry ''doi'') of
                      Some d \<Rightarrow> ''doi:'' @ js_lower d
                    | None \<Rightarrow>
                        (case string_value (get_prop entry ''arxiv_id'') of
                           Some a \<Rightarrow> ''arxiv:'' @ js_lower a
                         | None \<Rightarrow>
                             (case string_value (get_prop entry ''object_id'') of
                                Some ob \<Rightarrow> ''object:'' @ ob
                              | None \<Rightarrow> ''entry:'' @ nat_text position)))),
            ct_evidence_id = None, ct_row_id = None\<rparr>, cache))"

text \<open>The first pass over the references, from a position; a reference that is no record gets no citation\<close>

fun citations_from ::
  "evidence_row list \<Rightarrow> nat \<Rightarrow> evidence_cache \<Rightarrow> jsval list \<Rightarrow> citation option list" where
  "citations_from table position cache [] = []"
| "citations_from table position cache (ref # refs) =
     (case ref of
        JObj entry \<Rightarrow>
          (case citation_of table (position + 1) entry cache of
             (c, cache') \<Rightarrow> Some c # citations_from table (position + 1) cache' refs)
      | _ \<Rightarrow> None # citations_from table (position + 1) cache refs)"

definition item_references :: "jsval \<Rightarrow> jsval list" where
  "item_references item =
     (case item of
        JObj kvs \<Rightarrow> (case get_prop kvs ''references'' of JArr refs \<Rightarrow> refs | _ \<Rightarrow> [])
      | _ \<Rightarrow> [])"

definition section_references :: "jsval \<Rightarrow> jsval list" where
  "section_references sec = (case sec of JArr items \<Rightarrow> concat (map item_references items) | _ \<Rightarrow> [])"

definition report_references :: "jsobj \<Rightarrow> jsval list" where
  "report_references content =
     concat (map (\<lambda>k. section_references (get_prop content k)) [''findings'', ''sources'', ''ideas''])"

section \<open>Groups\<close>

text \<open>The map from group keys to their evidence, in insertion order\<close>

type_synonym reference_groups = "(string \<times> string list) list"

definition add_citation :: "citation \<Rightarrow> reference_groups \<Rightarrow> reference_groups" where
  "add_citation c groups =
     (let groups' = (if map_of groups (ct_group_key c) = None then groups @ [(ct_group_key c, [])] else groups)
      in case ct_evidence_id c of
           None \<Rightarrow> groups'
         | Some e \<Rightarrow>
             map (\<lambda>(k, es). (k, if k = ct_group_key c \<and> e \<notin> set es then es @ [e] else es)) groups')"

definition groups_of :: "citation list \<Rightarrow> reference_groups" where
  "groups_of cs = fold add_citation cs []"

fun index_in :: "'a \<Rightarrow> 'a list \<Rightarrow> nat" where
  "index_in x [] = 0"
| "index_in x (y # ys) = (if x = y then 0 else Suc (index_in x ys))"

text \<open>\<open>letterSuffix\<close>: a, \<dots>, z, aa, ab, \<dots>\<close>

function letter_suffix :: "nat \<Rightarrow> string" where
  "letter_suffix value =
     (if value < 26 then [char_of (97 + value)]
      else letter_suffix (value div 26 - 1) @ [char_of (97 + value mod 26)])"
  by auto
termination by (relation "measure id") auto

declare letter_suffix.simps [simp del]

definition reference_id :: "reference_groups \<Rightarrow> citation \<Rightarrow> string" where
  "reference_id groups c =
     (let evidence_ids = (case map_of groups (ct_group_key c) of Some es \<Rightarrow> es | None \<Rightarrow> []);
          letter = (case ct_evidence_id c of
              Some e \<Rightarrow> if 2 \<le> length evidence_ids then letter_suffix (index_in e evidence_ids) else []
            | None \<Rightarrow> [])
      in ''ref-'' @ nat_text (index_in (ct_group_key c) (map fst groups) + 1) @ letter)"

section \<open>The numbered report\<close>

definition number_reference :: "reference_groups \<Rightarrow> jsval \<times> citation option \<Rightarrow> jsval" where
  "number_reference groups rc =
     (case rc of
        (JObj entry, Some c) \<Rightarrow>
          JObj (set_prop ''reference_id'' (JStr (reference_id groups c))
            (case ct_row_id c of Some i \<Rightarrow> set_prop ''evidence_id'' (JStr i) entry | None \<Rightarrow> entry))
      | (ref, _) \<Rightarrow> ref)"

text \<open>The references are put back where they were taken from, item by item and section by section\<close>

fun number_items :: "reference_groups \<Rightarrow> jsval list \<Rightarrow> citation option list \<Rightarrow> jsval list \<times> citation option list" where
  "number_items groups [] cs = ([], cs)"
| "number_items groups (item # items) cs =
     (let n = length (item_references item);
          item' = (case item of
              JObj kvs \<Rightarrow>
                (case get_prop kvs ''references'' of
                   JArr refs \<Rightarrow>
                     JObj (set_prop ''references'' (JArr (map (number_reference groups) (zip refs (take n cs)))) kvs)
                 | _ \<Rightarrow> item)
            | _ \<Rightarrow> item);
          (items', cs') = number_items groups items (drop n cs)
      in (item' # items', cs'))"

definition number_section ::
  "reference_groups \<Rightarrow> string \<Rightarrow> jsobj \<times> citation option list \<Rightarrow> jsobj \<times> citation option list" where
  "number_section groups k state =
     (case state of
        (content, cs) \<Rightarrow>
          (case get_prop content k of
             JArr items \<Rightarrow>
               (let (items', cs') = number_items groups items cs in (set_prop k (JArr items') content, cs'))
           | _ \<Rightarrow> (content, cs)))"

definition assign_report_reference_ids :: "evidence_row list \<Rightarrow> jsobj \<Rightarrow> jsobj" where
  "assign_report_reference_ids table content =
     (let cs = citations_from table 0 [] (report_references content);
          groups = groups_of (List.map_filter id cs)
      in fst (fold (number_section groups) [''findings'', ''sources'', ''ideas''] (content, cs)))"

section \<open>Letters and numbers\<close>

definition letter_value :: "string \<Rightarrow> nat" where
  "letter_value s = foldl (\<lambda>a c. 26 * a + (of_char c - 96)) 0 s"

lemma letter_code: "n < 26 \<Longrightarrow> (of_char (char_of (97 + n)) :: nat) = 97 + n"
  by (simp add: of_char_of)

lemma letter_value_suffix: "letter_value (letter_suffix n) = n + 1"
proof (induction n rule: letter_suffix.induct)
  case (1 n)
  show ?case
  proof (cases "n < 26")
    case True
    then show ?thesis using letter_code by (subst letter_suffix.simps) (simp add: letter_value_def)
  next
    case False
    have "letter_value (letter_suffix n) = 26 * letter_value (letter_suffix (n div 26 - 1)) + (n mod 26 + 1)"
      using False letter_code [of "n mod 26"] by (subst letter_suffix.simps) (simp add: letter_value_def)
    with 1 False show ?thesis by simp
  qed
qed

lemma letter_suffix_inj: "letter_suffix m = letter_suffix n \<longleftrightarrow> m = n"
  by (metis add_right_cancel letter_value_suffix)

lemma letter_suffix_plain: "list_all (\<lambda>c. \<not> is_digit c) (letter_suffix n) \<and> letter_suffix n \<noteq> []"
proof (induction n rule: letter_suffix.induct)
  case (1 n)
  have "\<not> is_digit (char_of (97 + k))" if "k < 26" for k :: nat
    using letter_code [OF that] by (simp add: is_digit_def)
  with 1 show ?case by (cases "n < 26") (subst letter_suffix.simps, simp)+
qed

lemma letter_suffix_nonempty [simp]: "letter_suffix n \<noteq> []" "[] \<noteq> letter_suffix n"
  using letter_suffix_plain [of n] by auto

lemma numbered_text_inj:
  assumes "list_all (\<lambda>c. \<not> is_digit c) s" "list_all (\<lambda>c. \<not> is_digit c) t"
  shows "nat_text m @ s = nat_text n @ t \<longleftrightarrow> m = n \<and> s = t"
proof -
  have "takeWhile is_digit (nat_text k @ u) = nat_text k" if "list_all (\<lambda>c. \<not> is_digit c) u" for k u
    using that nat_text_digits [of k] by (cases u) (auto simp: list_all_iff takeWhile_append2 takeWhile_tail)
  with assms show ?thesis by (metis nat_text_inj injD same_append_eq)
qed

lemma index_in_inj: "x \<in> set xs \<Longrightarrow> index_in x xs = index_in y xs \<longleftrightarrow> x = y"
  by (induction xs) auto

section \<open>What the groups hold\<close>

definition first_appearances :: "'a list \<Rightarrow> 'a list" where
  "first_appearances xs = rev (remdups (rev xs))"

lemma first_appearances_snoc:
  "first_appearances (xs @ [x]) = (if x \<in> set xs then first_appearances xs else first_appearances xs @ [x])"
  by (simp add: first_appearances_def)

lemma first_appearances_set: "set (first_appearances xs) = set xs" "distinct (first_appearances xs)"
  by (simp_all add: first_appearances_def)

definition evidence_cited :: "citation list \<Rightarrow> string \<Rightarrow> string set" where
  "evidence_cited cs k = {e. \<exists>c\<in>set cs. ct_group_key c = k \<and> ct_evidence_id c = Some e}"

lemma groups_of_snoc: "groups_of (cs @ [c]) = add_citation c (groups_of cs)"
  by (simp add: groups_of_def)

lemma add_citation_keys:
  "map fst (add_citation c groups) =
     (if ct_group_key c \<in> set (map fst groups) then map fst groups else map fst groups @ [ct_group_key c])"
  by (auto simp: add_citation_def Let_def map_of_eq_None_iff comp_def case_prod_beta split: option.split)

lemma groups_of_keys: "map fst (groups_of cs) = first_appearances (map ct_group_key cs)"
proof (induction cs rule: rev_induct)
  case Nil
  then show ?case by (simp add: groups_of_def first_appearances_def)
next
  case (snoc c cs)
  then show ?case
    unfolding groups_of_snoc add_citation_keys map_append list.map first_appearances_snoc
    by (simp only: first_appearances_set(1))
qed

lemma groups_of_evidence:
  "(k, es) \<in> set (groups_of cs) \<Longrightarrow> distinct es \<and> set es = evidence_cited cs k"
proof (induction cs arbitrary: es rule: rev_induct)
  case Nil
  then show ?case by (simp add: groups_of_def)
next
  case (snoc c cs)
  have cited: "evidence_cited (cs @ [c]) k = evidence_cited cs k \<union>
      (if ct_group_key c = k then set_option (ct_evidence_id c) else {})"
    by (auto simp: evidence_cited_def)
  have fresh: "evidence_cited cs (ct_group_key c) = {}" if "map_of (groups_of cs) (ct_group_key c) = None"
  proof -
    have "ct_group_key c \<notin> set (map ct_group_key cs)"
      using that groups_of_keys [of cs] first_appearances_set(1) [of "map ct_group_key cs"]
      by (simp add: map_of_eq_None_iff flip: set_map)
    then show ?thesis unfolding evidence_cited_def by (auto simp: image_iff)
  qed
  define g where "g = (if map_of (groups_of cs) (ct_group_key c) = None
    then groups_of cs @ [(ct_group_key c, [])] else groups_of cs)"
  obtain es0 where "(k, es0) \<in> set g" and es: "es = (case ct_evidence_id c of None \<Rightarrow> es0
      | Some e \<Rightarrow> if k = ct_group_key c \<and> e \<notin> set es0 then es0 @ [e] else es0)"
  proof (cases "ct_evidence_id c")
    case None
    with snoc.prems that [of es] show thesis
      unfolding groups_of_snoc add_citation_def Let_def g_def [symmetric] by simp
  next
    case (Some e)
    with snoc.prems obtain es0 where "(k, es0) \<in> set g" "es = (if k = ct_group_key c \<and> e \<notin> set es0 then es0 @ [e] else es0)"
      unfolding groups_of_snoc add_citation_def Let_def g_def [symmetric] by auto
    with Some that [of es0] show thesis by simp
  qed
  then have es0: "(k, es0) \<in> set (groups_of cs) \<or>
      map_of (groups_of cs) (ct_group_key c) = None \<and> k = ct_group_key c \<and> es0 = []"
    unfolding g_def by (auto split: if_splits)
  have "distinct es0 \<and> set es0 = evidence_cited cs k"
    using es0 snoc.IH fresh by auto
  with es show ?case unfolding cited by (auto split: option.splits if_splits)
qed

lemma group_found:
  assumes "c \<in> set cs"
  obtains es where "map_of (groups_of cs) (ct_group_key c) = Some es" "distinct es"
    "set es = evidence_cited cs (ct_group_key c)"
proof -
  have "ct_group_key c \<in> set (map fst (groups_of cs))"
    unfolding groups_of_keys using assms by (simp add: first_appearances_set)
  then obtain es where es: "map_of (groups_of cs) (ct_group_key c) = Some es"
    by (metis map_of_eq_None_iff not_None_eq set_map)
  then show thesis using groups_of_evidence [OF map_of_SomeD [OF es]] that by blast
qed

lemma reference_id_parts:
  assumes "c \<in> set cs"
  shows "\<exists>es. distinct es \<and> set es = evidence_cited cs (ct_group_key c) \<and>
    map_of (groups_of cs) (ct_group_key c) = Some es \<and>
    reference_id (groups_of cs) c =
      ''ref-'' @ nat_text (index_in (ct_group_key c) (first_appearances (map ct_group_key cs)) + 1) @
      (case ct_evidence_id c of
         Some e \<Rightarrow> if 2 \<le> card (evidence_cited cs (ct_group_key c)) then letter_suffix (index_in e es) else []
       | None \<Rightarrow> [])"
proof -
  obtain es where es: "map_of (groups_of cs) (ct_group_key c) = Some es" "distinct es"
    "set es = evidence_cited cs (ct_group_key c)" using group_found [OF assms] .
  then have "length es = card (evidence_cited cs (ct_group_key c))" using distinct_card by metis
  with es show ?thesis by (intro exI [of _ es]) (simp add: reference_id_def groups_of_keys cong: option.case_cong)
qed

text \<open>Two citations share their id exactly when they cite the same article and the same evidence of it\<close>

lemma reference_id_eq_iff:
  assumes "c \<in> set cs" "d \<in> set cs"
  shows "reference_id (groups_of cs) c = reference_id (groups_of cs) d \<longleftrightarrow>
    ct_group_key c = ct_group_key d \<and>
    (2 \<le> card (evidence_cited cs (ct_group_key c)) \<longrightarrow> ct_evidence_id c = ct_evidence_id d)"
proof -
  obtain es where es: "set es = evidence_cited cs (ct_group_key c)" "map_of (groups_of cs) (ct_group_key c) = Some es"
    and c: "reference_id (groups_of cs) c =
      ''ref-'' @ nat_text (index_in (ct_group_key c) (first_appearances (map ct_group_key cs)) + 1) @
      (case ct_evidence_id c of
         Some e \<Rightarrow> if 2 \<le> card (evidence_cited cs (ct_group_key c)) then letter_suffix (index_in e es) else []
       | None \<Rightarrow> [])" using reference_id_parts [OF assms(1)] by blast
  obtain fs where fs: "set fs = evidence_cited cs (ct_group_key d)" "map_of (groups_of cs) (ct_group_key d) = Some fs"
    and d: "reference_id (groups_of cs) d =
      ''ref-'' @ nat_text (index_in (ct_group_key d) (first_appearances (map ct_group_key cs)) + 1) @
      (case ct_evidence_id d of
         Some e \<Rightarrow> if 2 \<le> card (evidence_cited cs (ct_group_key d)) then letter_suffix (index_in e fs) else []
       | None \<Rightarrow> [])" using reference_id_parts [OF assms(2)] by blast
  have plain: "list_all (\<lambda>c. \<not> is_digit c) (case x of Some e \<Rightarrow> if b then letter_suffix (f e) else [] | None \<Rightarrow> [])"
    for x :: "string option" and b f
    using letter_suffix_plain by (auto split: option.split)
  have group: "index_in (ct_group_key c) (first_appearances (map ct_group_key cs)) =
      index_in (ct_group_key d) (first_appearances (map ct_group_key cs)) \<longleftrightarrow> ct_group_key c = ct_group_key d"
    using assms(1) by (intro index_in_inj) (simp add: first_appearances_set)
  have own: "e \<in> set es" if "ct_evidence_id c = Some e" for e
    using that assms(1) unfolding es(1) evidence_cited_def by blast
  have letters: "(case ct_evidence_id c of
         Some e \<Rightarrow> if 2 \<le> card (evidence_cited cs (ct_group_key c)) then letter_suffix (index_in e es) else []
       | None \<Rightarrow> []) =
      (case ct_evidence_id d of
         Some e \<Rightarrow> if 2 \<le> card (evidence_cited cs (ct_group_key c)) then letter_suffix (index_in e es) else []
       | None \<Rightarrow> []) \<longleftrightarrow>
      (2 \<le> card (evidence_cited cs (ct_group_key c)) \<longrightarrow> ct_evidence_id c = ct_evidence_id d)"
    using own
    by (cases "ct_evidence_id c"; cases "ct_evidence_id d") (auto simp: letter_suffix_inj index_in_inj)
  let ?letters = "\<lambda>x k es. case ct_evidence_id x of
      Some e \<Rightarrow> if 2 \<le> card (evidence_cited cs k) then letter_suffix (index_in e es) else []
    | None \<Rightarrow> []"
  have parts: "reference_id (groups_of cs) c = reference_id (groups_of cs) d \<longleftrightarrow>
      ct_group_key c = ct_group_key d \<and> ?letters c (ct_group_key c) es = ?letters d (ct_group_key d) fs"
    unfolding c d same_append_eq numbered_text_inj [OF plain plain] using group by simp
  show ?thesis
  proof (cases "ct_group_key c = ct_group_key d")
    case True
    with es(2) fs(2) have "fs = es" by simp
    with letters [unfolded True] show ?thesis unfolding parts True by (simp only: simp_thms)
  next
    case False
    then show ?thesis unfolding parts by simp
  qed
qed

section \<open>The cache changes nothing\<close>

definition cache_ok :: "evidence_row list \<Rightarrow> evidence_cache \<Rightarrow> bool" where
  "cache_ok table cache \<longleftrightarrow>
     (\<forall>token row. map_of cache token = Some row \<longrightarrow> row = fst (lookup_evidence table token []))"

lemma lookup_cached:
  "cache_ok table cache \<Longrightarrow>
   fst (lookup_evidence table token cache) = fst (lookup_evidence table token []) \<and>
   cache_ok table (snd (lookup_evidence table token cache))"
  by (auto simp: lookup_evidence_def cache_ok_def Let_def split: option.split)

lemma citation_cached:
  assumes "cache_ok table cache"
  shows "fst (citation_of table position entry cache) = fst (citation_of table position entry []) \<and>
    cache_ok table (snd (citation_of table position entry cache))"
proof (cases "string_value (get_prop entry ''evidence_id'')")
  case None
  with assms show ?thesis by (simp add: citation_of_def)
next
  case (Some token)
  obtain row cache' where cached: "lookup_evidence table token cache = (row, cache')"
    by (cases "lookup_evidence table token cache")
  obtain row' cache'' where fresh: "lookup_evidence table token [] = (row', cache'')"
    by (cases "lookup_evidence table token []")
  have "row = row'" "cache_ok table cache'" using lookup_cached [OF assms, of token] cached fresh by simp_all
  with Some cached fresh show ?thesis by (cases row') (simp_all add: citation_of_def)
qed

definition citation_at :: "evidence_row list \<Rightarrow> nat \<times> jsval \<Rightarrow> citation option" where
  "citation_at table ir =
     (case ir of (i, JObj entry) \<Rightarrow> Some (fst (citation_of table (i + 1) entry [])) | _ \<Rightarrow> None)"

lemma citations_from_map:
  "cache_ok table cache \<Longrightarrow>
   citations_from table position cache refs = map (citation_at table) (List.enumerate position refs)"
proof (induction refs arbitrary: position cache)
  case (Cons ref refs)
  show ?case
  proof (cases ref)
    case (JObj entry)
    obtain c cache' where c: "citation_of table (position + 1) entry cache = (c, cache')"
      by (cases "citation_of table (position + 1) entry cache")
    then have "c = fst (citation_of table (position + 1) entry [])" "cache_ok table cache'"
      using citation_cached [OF Cons.prems, of "position + 1" entry] by simp_all
    with Cons.IH JObj c show ?thesis by (simp add: citation_at_def)
  qed (use Cons in \<open>simp_all add: citation_at_def\<close>)
qed simp

section \<open>Every reference is numbered where it stands\<close>

lemma zip_take_own: "zip xs (take (length xs) ys) = zip xs ys"
  by (induction xs arbitrary: ys) (simp, case_tac ys, simp_all)

lemma number_items_references:
  "length (concat (map item_references items)) \<le> length cs \<Longrightarrow>
   concat (map item_references (fst (number_items groups items cs))) =
     map (number_reference groups) (zip (concat (map item_references items)) cs) \<and>
   snd (number_items groups items cs) = drop (length (concat (map item_references items))) cs"
proof (induction groups items cs rule: number_items.induct)
  case (2 groups item items cs)
  define n where "n = length (item_references item)"
  define item' where "item' = (case item of
      JObj kvs \<Rightarrow>
        (case get_prop kvs ''references'' of
           JArr refs \<Rightarrow> JObj (set_prop ''references'' (JArr (map (number_reference groups) (zip refs (take n cs)))) kvs)
         | _ \<Rightarrow> item)
    | _ \<Rightarrow> item)"
  obtain items' cs' where rest: "number_items groups items (drop n cs) = (items', cs')"
    by (cases "number_items groups items (drop n cs)")
  have step: "number_items groups (item # items) cs = (item' # items', cs')"
    unfolding number_items.simps Let_def item'_def n_def rest [unfolded n_def] by simp
  have own: "item_references item' = map (number_reference groups) (zip (item_references item) (take n cs))"
    by (auto simp: item'_def n_def item_references_def split: jsval.splits)
  have "concat (map item_references items') = map (number_reference groups) (zip (concat (map item_references items)) (drop n cs)) \<and>
      cs' = drop (length (concat (map item_references items))) (drop n cs)"
    using 2 rest by (simp add: n_def item'_def)
  moreover have "zip (item_references item @ concat (map item_references items)) cs =
      zip (item_references item) (take n cs) @ zip (concat (map item_references items)) (drop n cs)"
    by (simp add: zip_append1 n_def)
  ultimately show ?case unfolding step using own by (simp add: n_def add.commute)
qed simp

lemma number_section_references:
  assumes "length (section_references (get_prop content k)) \<le> length cs"
    and "number_section groups k (content, cs) = (content', cs')"
  shows "section_references (get_prop content' k) = map (number_reference groups) (zip (section_references (get_prop content k)) cs)"
    and "cs' = drop (length (section_references (get_prop content k))) cs"
    and "k' \<noteq> k \<Longrightarrow> get_prop content' k' = get_prop content k'"
proof -
  have "section_references (get_prop content' k) = map (number_reference groups) (zip (section_references (get_prop content k)) cs) \<and>
      cs' = drop (length (section_references (get_prop content k))) cs \<and>
      (k' \<noteq> k \<longrightarrow> get_prop content' k' = get_prop content k')"
  proof (cases "get_prop content k")
    case (JArr items)
    obtain items' cs'' where items: "number_items groups items cs = (items', cs'')" by (cases "number_items groups items cs")
    with number_items_references [of items cs groups] assms JArr show ?thesis
      by (auto simp: section_references_def number_section_def)
  qed (use assms(2) in \<open>auto simp: number_section_def section_references_def\<close>)
  then show "section_references (get_prop content' k) = map (number_reference groups) (zip (section_references (get_prop content k)) cs)"
    "cs' = drop (length (section_references (get_prop content k))) cs"
    "k' \<noteq> k \<Longrightarrow> get_prop content' k' = get_prop content k'" by blast+
qed

lemma report_numbered:
  fixes table content
  defines "refs \<equiv> report_references content"
  defines "cs \<equiv> citations_from table 0 [] refs"
  shows "report_references (assign_report_reference_ids table content) =
    map (number_reference (groups_of (List.map_filter id cs))) (zip refs cs)"
proof -
  define groups where "groups = groups_of (List.map_filter id cs)"
  define f s t where "f = section_references (get_prop content ''findings'')"
    and "s = section_references (get_prop content ''sources'')" and "t = section_references (get_prop content ''ideas'')"
  have refs: "refs = f @ s @ t" by (simp add: refs_def report_references_def f_def s_def t_def)
  have "length cs = length refs"
    unfolding cs_def using citations_from_map [of table "[]" 0 refs] by (simp add: cache_ok_def)
  then have len: "length cs = length f + length s + length t" by (simp add: refs)
  obtain c1 cs1 where 1: "number_section groups ''findings'' (content, cs) = (c1, cs1)"
    by (cases "number_section groups ''findings'' (content, cs)")
  obtain c2 cs2 where 2: "number_section groups ''sources'' (c1, cs1) = (c2, cs2)"
    by (cases "number_section groups ''sources'' (c1, cs1)")
  obtain c3 cs3 where 3: "number_section groups ''ideas'' (c2, cs2) = (c3, cs3)"
    by (cases "number_section groups ''ideas'' (c2, cs2)")
  have 4: "assign_report_reference_ids table content = c3"
    using 1 2 3 unfolding assign_report_reference_ids_def Let_def groups_def cs_def refs_def by simp
  have l1: "length (section_references (get_prop content ''findings'')) \<le> length cs" using len by (simp add: f_def)
  note n1 = number_section_references [OF l1 1]
  have s1: "get_prop c1 ''sources'' = get_prop content ''sources''" "get_prop c1 ''ideas'' = get_prop content ''ideas''"
    by (rule n1(3), simp)+
  have l2: "length (section_references (get_prop c1 ''sources'')) \<le> length cs1"
    using len n1(2) s1(1) by (simp add: f_def s_def)
  note n2 = number_section_references [OF l2 2]
  have s2: "get_prop c2 ''ideas'' = get_prop content ''ideas''" "get_prop c2 ''findings'' = get_prop c1 ''findings''"
    using n2(3) [of "''ideas''"] n2(3) [of "''findings''"] s1 by simp_all
  have l3: "length (section_references (get_prop c2 ''ideas'')) \<le> length cs2"
    using len n1(2) n2(2) s1(1) s2(1) by (simp add: f_def s_def t_def)
  note n3 = number_section_references [OF l3 3]
  have s3: "get_prop c3 ''findings'' = get_prop c1 ''findings''" "get_prop c3 ''sources'' = get_prop c2 ''sources''"
    using n3(3) [of "''findings''"] n3(3) [of "''sources''"] s2 by simp_all
  have "report_references c3 = map (number_reference groups) (zip f cs) @ map (number_reference groups) (zip s cs1) @
      map (number_reference groups) (zip t cs2)"
    unfolding report_references_def using s1 s2 s3 n1(1) n2(1) n3(1) by (simp add: f_def s_def t_def)
  also have "\<dots> = map (number_reference groups) (zip refs cs)"
    unfolding refs zip_append1 map_append zip_take_own using n1(2) n2(2) s1(1)
    by (simp add: f_def s_def zip_take_own)
  finally show ?thesis unfolding 4 groups_def .
qed

section \<open>Properties\<close>

definition report_citations :: "evidence_row list \<Rightarrow> jsobj \<Rightarrow> citation list" where
  "report_citations table content =
     List.map_filter id (map (citation_at table) (List.enumerate 0 (report_references content)))"

text \<open>
  C17. In the numbered report every reference stands where it stood, and two references carry the same id exactly
  when they cite the same article and, where the report cites several pieces of its evidence, the same piece.
\<close>
theorem references_identify_citations:
  fixes table content
  defines "refs \<equiv> report_references content"
  defines "out \<equiv> report_references (assign_report_reference_ids table content)"
  assumes "i < length refs" "refs ! i = JObj e" "j < length refs" "refs ! j = JObj f"
  defines "c \<equiv> fst (citation_of table (i + 1) e [])" and "d \<equiv> fst (citation_of table (j + 1) f [])"
  shows "length out = length refs \<and>
    (\<exists>e' f'. out ! i = JObj e' \<and> out ! j = JObj f' \<and>
      (get_prop e' ''reference_id'' = get_prop f' ''reference_id'' \<longleftrightarrow>
        ct_group_key c = ct_group_key d \<and>
        (2 \<le> card (evidence_cited (report_citations table content) (ct_group_key c)) \<longrightarrow>
          ct_evidence_id c = ct_evidence_id d)))"
proof -
  define found where "found = map (citation_at table) (List.enumerate 0 refs)"
  define cs where "cs = report_citations table content"
  have cs: "cs = List.map_filter id found" by (simp add: cs_def report_citations_def found_def refs_def)
  have found: "citations_from table 0 [] refs = found"
    unfolding found_def by (rule citations_from_map) (simp add: cache_ok_def)
  have out: "out = map (number_reference (groups_of cs)) (zip refs found)"
    unfolding out_def cs using report_numbered [of table content] found by (simp add: refs_def)
  have len: "length found = length refs" by (simp add: found_def)
  have at: "found ! i = Some c" "found ! j = Some d"
    using assms(3-6) by (simp_all add: found_def nth_enumerate_eq citation_at_def c_def d_def)
  have mem: "c \<in> set cs" "d \<in> set cs"
    unfolding cs using at assms(3,5) len by (force simp: List.map_filter_def in_set_conv_nth)+
  have "\<exists>e'. out ! k = JObj e' \<and> get_prop e' ''reference_id'' = JStr (reference_id (groups_of cs) x)"
    if "k < length refs" "refs ! k = JObj entry" "found ! k = Some x" for k entry x
    unfolding out using that len by (simp add: number_reference_def)
  from this [OF assms(3,4) at(1)] this [OF assms(5,6) at(2)] obtain e' f' where
    "out ! i = JObj e'" "get_prop e' ''reference_id'' = JStr (reference_id (groups_of cs) c)"
    "out ! j = JObj f'" "get_prop f' ''reference_id'' = JStr (reference_id (groups_of cs) d)" by blast
  with reference_id_eq_iff [OF mem] len show ?thesis unfolding cs_def by (simp add: out)
qed

text \<open>Two pieces of evidence of one article\<close>

definition two_pieces :: "evidence_row list" where
  "two_pieces = [\<lparr>er_id = ''e1'', er_source_item_id = Some ''s''\<rparr>, \<lparr>er_id = ''e2'', er_source_item_id = Some ''s''\<rparr>]"

definition small_report :: jsobj where
  "small_report = [(''findings'', JArr [JObj [(''references'',
     JArr [JObj [(''evidence_id'', JStr ''e1'')], JObj [(''evidence_id'', JStr ''e2'')]])]])]"

lemma small_report_facts:
  "report_references small_report = [JObj [(''evidence_id'', JStr ''e1'')], JObj [(''evidence_id'', JStr ''e2'')]]"
  "fst (citation_of two_pieces (Suc 0) [(''evidence_id'', JStr ''e1'')] []) =
     \<lparr>ct_group_key = ''source:s'', ct_evidence_id = Some ''e1'', ct_row_id = Some ''e1''\<rparr>"
  "fst (citation_of two_pieces (Suc (Suc 0)) [(''evidence_id'', JStr ''e2'')] []) =
     \<lparr>ct_group_key = ''source:s'', ct_evidence_id = Some ''e2'', ct_row_id = Some ''e2''\<rparr>"
  by code_simp+

theorem references_identify_citations_witness:
  "\<exists>e' f'. report_references (assign_report_reference_ids two_pieces small_report) ! 0 = JObj e' \<and>
     report_references (assign_report_reference_ids two_pieces small_report) ! 1 = JObj f' \<and>
     get_prop e' ''reference_id'' \<noteq> get_prop f' ''reference_id''"
proof -
  have "evidence_cited (report_citations two_pieces small_report) ''source:s'' = {''e1'', ''e2''}"
    using small_report_facts(2) small_report_facts(3)
    by (auto simp: report_citations_def small_report_facts(1) citation_at_def List.map_filter_def evidence_cited_def)
  then have "2 \<le> card (evidence_cited (report_citations two_pieces small_report) ''source:s'')" by simp
  with references_identify_citations [of 0 small_report "[(''evidence_id'', JStr ''e1'')]" 1
      "[(''evidence_id'', JStr ''e2'')]" two_pieces] small_report_facts
  show ?thesis by auto
qed

end
