(* ===== verification/ContextPolicy.thy ===== *)
theory ContextPolicy
  imports Prelude
begin

text \<open>
  Runtime context policies, \<open>server/src/modules/policy/runtimeContextPolicyResolver.ts\<close>, with the
  document of \<open>packages/protocol/src/runtimeContext.ts\<close>: the policies of several scopes are
  intersected, preferences that the result forbids are clamped or rejected, and a lower scope may
  not widen a higher one. The resolution hash (SHA-256 of the result) and the typed diff shown to a
  person are left out.
\<close>

section \<open>Documents\<close>

datatype sensitivity = Normal | Sensitive | Restricted | HighlyRestricted

fun sensitivity_rank :: "sensitivity \<Rightarrow> nat" where
  "sensitivity_rank Normal = 0"
| "sensitivity_rank Sensitive = 1"
| "sensitivity_rank Restricted = 2"
| "sensitivity_rank HighlyRestricted = 3"

lemma sensitivity_rank_inj: "sensitivity_rank a = sensitivity_rank b \<Longrightarrow> a = b"
  by (cases a; cases b) auto

lemma sensitivity_rank_le: "sensitivity_rank a \<le> 3"
  by (cases a) auto

text \<open>Every key is optional; \<open>None\<close> is an absent key.\<close>

record ctx_constraints =
  cc_retrieval_domains :: "string list option"
  cc_memory_layers :: "string list option"
  cc_explicit_reference_types :: "string list option"
  cc_pinned_reference_types :: "string list option"
  cc_continuity_modes :: "string list option"
  cc_retrieval_max_candidates :: "nat option"
  cc_explicit_reference_max :: "nat option"
  cc_pinned_reference_max :: "nat option"
  cc_sealed_payload_retention_seconds :: "nat option"
  cc_allow_project_brief :: "bool option"
  cc_allow_project_instructions :: "bool option"
  cc_allow_sealed_payload :: "bool option"
  cc_sensitivity_ceiling :: "sensitivity option"

record ctx_preferences =
  cp_retrieval_enabled :: "bool option"
  cp_retrieval_mode :: "string option"
  cp_include_project_brief :: "bool option"
  cp_include_project_instructions :: "bool option"
  cp_continuity_strategy :: "string option"
  cp_output_reserve_tokens :: "nat option"
  cp_compaction_trigger_tokens :: "nat option"

type_synonym ctx_policy = "ctx_constraints \<times> ctx_preferences"

definition no_constraints :: ctx_constraints where
  "no_constraints =
     \<lparr>cc_retrieval_domains = None, cc_memory_layers = None, cc_explicit_reference_types = None,
      cc_pinned_reference_types = None, cc_continuity_modes = None,
      cc_retrieval_max_candidates = None, cc_explicit_reference_max = None,
      cc_pinned_reference_max = None, cc_sealed_payload_retention_seconds = None,
      cc_allow_project_brief = None, cc_allow_project_instructions = None,
      cc_allow_sealed_payload = None, cc_sensitivity_ceiling = None\<rparr>"

definition no_preferences :: ctx_preferences where
  "no_preferences =
     \<lparr>cp_retrieval_enabled = None, cp_retrieval_mode = None, cp_include_project_brief = None,
      cp_include_project_instructions = None, cp_continuity_strategy = None,
      cp_output_reserve_tokens = None, cp_compaction_trigger_tokens = None\<rparr>"

section \<open>Intersection\<close>

text \<open>One key: an absent key on one side leaves the other side's value.\<close>

definition meet_with :: "('a \<Rightarrow> 'a \<Rightarrow> 'a) \<Rightarrow> 'a option \<Rightarrow> 'a option \<Rightarrow> 'a option" where
  "meet_with f left right =
     (case right of
        None \<Rightarrow> left
      | Some r \<Rightarrow> Some (case left of None \<Rightarrow> r | Some l \<Rightarrow> f l r))"

definition meet_list :: "string list option \<Rightarrow> string list option \<Rightarrow> string list option" where
  "meet_list = meet_with (\<lambda>l r. filter (\<lambda>v. v \<in> set r) l)"

definition meet_max :: "nat option \<Rightarrow> nat option \<Rightarrow> nat option" where
  "meet_max = meet_with min"

definition meet_bool :: "bool option \<Rightarrow> bool option \<Rightarrow> bool option" where
  "meet_bool = meet_with (\<and>)"

definition lower_sensitivity :: "sensitivity \<Rightarrow> sensitivity \<Rightarrow> sensitivity" where
  "lower_sensitivity l r = (if sensitivity_rank l \<le> sensitivity_rank r then l else r)"

definition intersect_constraints :: "ctx_constraints \<Rightarrow> ctx_constraints \<Rightarrow> ctx_constraints" where
  "intersect_constraints c n =
     \<lparr>cc_retrieval_domains = meet_list (cc_retrieval_domains c) (cc_retrieval_domains n),
      cc_memory_layers = meet_list (cc_memory_layers c) (cc_memory_layers n),
      cc_explicit_reference_types =
        meet_list (cc_explicit_reference_types c) (cc_explicit_reference_types n),
      cc_pinned_reference_types =
        meet_list (cc_pinned_reference_types c) (cc_pinned_reference_types n),
      cc_continuity_modes = meet_list (cc_continuity_modes c) (cc_continuity_modes n),
      cc_retrieval_max_candidates =
        meet_max (cc_retrieval_max_candidates c) (cc_retrieval_max_candidates n),
      cc_explicit_reference_max =
        meet_max (cc_explicit_reference_max c) (cc_explicit_reference_max n),
      cc_pinned_reference_max = meet_max (cc_pinned_reference_max c) (cc_pinned_reference_max n),
      cc_sealed_payload_retention_seconds =
        meet_max (cc_sealed_payload_retention_seconds c) (cc_sealed_payload_retention_seconds n),
      cc_allow_project_brief = meet_bool (cc_allow_project_brief c) (cc_allow_project_brief n),
      cc_allow_project_instructions =
        meet_bool (cc_allow_project_instructions c) (cc_allow_project_instructions n),
      cc_allow_sealed_payload = meet_bool (cc_allow_sealed_payload c) (cc_allow_sealed_payload n),
      cc_sensitivity_ceiling =
        meet_with lower_sensitivity (cc_sensitivity_ceiling c) (cc_sensitivity_ceiling n)\<rparr>"

section \<open>Preferences\<close>

text \<open>\<open>{ ...preferences, ...policy.preferences }\<close>\<close>

definition later :: "'a option \<Rightarrow> 'a option \<Rightarrow> 'a option" where
  "later old new = (case new of None \<Rightarrow> old | Some v \<Rightarrow> Some v)"

definition merge_preferences :: "ctx_preferences \<Rightarrow> ctx_preferences \<Rightarrow> ctx_preferences" where
  "merge_preferences p n =
     \<lparr>cp_retrieval_enabled = later (cp_retrieval_enabled p) (cp_retrieval_enabled n),
      cp_retrieval_mode = later (cp_retrieval_mode p) (cp_retrieval_mode n),
      cp_include_project_brief = later (cp_include_project_brief p) (cp_include_project_brief n),
      cp_include_project_instructions =
        later (cp_include_project_instructions p) (cp_include_project_instructions n),
      cp_continuity_strategy = later (cp_continuity_strategy p) (cp_continuity_strategy n),
      cp_output_reserve_tokens = later (cp_output_reserve_tokens p) (cp_output_reserve_tokens n),
      cp_compaction_trigger_tokens =
        later (cp_compaction_trigger_tokens p) (cp_compaction_trigger_tokens n)\<rparr>"

text \<open>The four combinations of a constraint and a preference that exclude each other.\<close>

definition brief_conflict :: "ctx_constraints \<Rightarrow> ctx_preferences \<Rightarrow> bool" where
  "brief_conflict c p \<longleftrightarrow>
     cc_allow_project_brief c = Some False \<and> cp_include_project_brief p = Some True"

definition instructions_conflict :: "ctx_constraints \<Rightarrow> ctx_preferences \<Rightarrow> bool" where
  "instructions_conflict c p \<longleftrightarrow>
     cc_allow_project_instructions c = Some False \<and> cp_include_project_instructions p = Some True"

definition retrieval_conflict :: "ctx_constraints \<Rightarrow> ctx_preferences \<Rightarrow> bool" where
  "retrieval_conflict c p \<longleftrightarrow>
     cc_retrieval_domains c = Some [] \<and> cp_retrieval_enabled p = Some True"

definition continuity_conflict :: "ctx_constraints \<Rightarrow> ctx_preferences \<Rightarrow> bool" where
  "continuity_conflict c p \<longleftrightarrow>
     (case (cp_continuity_strategy p, cc_continuity_modes c) of
        (Some strategy, Some modes) \<Rightarrow> strategy \<notin> set modes
      | _ \<Rightarrow> False)"

definition clamp_preferences :: "ctx_constraints \<Rightarrow> ctx_preferences \<Rightarrow> ctx_preferences" where
  "clamp_preferences c p =
     (let p = (if brief_conflict c p then p\<lparr>cp_include_project_brief := Some False\<rparr> else p);
          p = (if instructions_conflict c p then p\<lparr>cp_include_project_instructions := Some False\<rparr>
               else p);
          p = (if retrieval_conflict c p then p\<lparr>cp_retrieval_enabled := Some False\<rparr> else p);
          p = (if continuity_conflict c p then p\<lparr>cp_continuity_strategy := None\<rparr> else p)
      in p)"

text \<open>\<open>widening(key)\<close> throws an HTTP 409 that names the key.\<close>

datatype ctx_error = Widening string

definition assert_preferences_within :: "ctx_policy \<Rightarrow> ctx_error + unit" where
  "assert_preferences_within policy =
     (case policy of (c, p) \<Rightarrow>
        if brief_conflict c p then Inl (Widening ''allow_project_brief'')
        else if instructions_conflict c p then Inl (Widening ''allow_project_instructions'')
        else if retrieval_conflict c p then Inl (Widening ''retrieval_domains'')
        else if continuity_conflict c p then Inl (Widening ''continuity_modes'')
        else Inr ())"

section \<open>Resolution\<close>

datatype conflict_mode = Clamp | Reject

definition merge_policies :: "ctx_policy list \<Rightarrow> ctx_policy" where
  "merge_policies versions =
     fold (\<lambda>(c, p) (cs, ps). (intersect_constraints cs c, merge_preferences ps p)) versions
       (no_constraints, no_preferences)"

definition resolve_policies :: "conflict_mode \<Rightarrow> ctx_policy list \<Rightarrow> ctx_error + ctx_policy" where
  "resolve_policies mode versions =
     (let (c, p) = merge_policies versions
      in case mode of
           Reject \<Rightarrow> (case assert_preferences_within (c, p) of Inl e \<Rightarrow> Inl e | Inr _ \<Rightarrow> Inr (c, p))
         | Clamp \<Rightarrow> Inr (c, clamp_preferences c p))"

section \<open>No widening\<close>

definition list_widens :: "string list option \<Rightarrow> string list option \<Rightarrow> bool" where
  "list_widens parent child \<longleftrightarrow>
     (case (parent, child) of
        (Some p, Some c) \<Rightarrow> list_ex (\<lambda>v. v \<notin> set p) c
      | _ \<Rightarrow> False)"

definition max_widens :: "nat option \<Rightarrow> nat option \<Rightarrow> bool" where
  "max_widens parent child \<longleftrightarrow>
     (case (parent, child) of (Some p, Some c) \<Rightarrow> c > p | _ \<Rightarrow> False)"

definition bool_widens :: "bool option \<Rightarrow> bool option \<Rightarrow> bool" where
  "bool_widens parent child \<longleftrightarrow> parent = Some False \<and> child = Some True"

definition sensitivity_widens :: "sensitivity option \<Rightarrow> sensitivity option \<Rightarrow> bool" where
  "sensitivity_widens parent child \<longleftrightarrow>
     (case (parent, child) of
        (Some p, Some c) \<Rightarrow> sensitivity_rank c > sensitivity_rank p
      | _ \<Rightarrow> False)"

text \<open>The keys in the order they are checked, with whether the child widens each.\<close>

definition widened_keys :: "ctx_constraints \<Rightarrow> ctx_constraints \<Rightarrow> (string \<times> bool) list" where
  "widened_keys p c =
     [(''retrieval_domains'', list_widens (cc_retrieval_domains p) (cc_retrieval_domains c)),
      (''memory_layers'', list_widens (cc_memory_layers p) (cc_memory_layers c)),
      (''explicit_reference_types'',
        list_widens (cc_explicit_reference_types p) (cc_explicit_reference_types c)),
      (''pinned_reference_types'',
        list_widens (cc_pinned_reference_types p) (cc_pinned_reference_types c)),
      (''continuity_modes'', list_widens (cc_continuity_modes p) (cc_continuity_modes c)),
      (''retrieval_max_candidates'',
        max_widens (cc_retrieval_max_candidates p) (cc_retrieval_max_candidates c)),
      (''explicit_reference_max'',
        max_widens (cc_explicit_reference_max p) (cc_explicit_reference_max c)),
      (''pinned_reference_max'', max_widens (cc_pinned_reference_max p) (cc_pinned_reference_max c)),
      (''sealed_payload_retention_seconds'',
        max_widens (cc_sealed_payload_retention_seconds p) (cc_sealed_payload_retention_seconds c)),
      (''allow_project_brief'',
        bool_widens (cc_allow_project_brief p) (cc_allow_project_brief c)),
      (''allow_project_instructions'',
        bool_widens (cc_allow_project_instructions p) (cc_allow_project_instructions c)),
      (''allow_sealed_payload'',
        bool_widens (cc_allow_sealed_payload p) (cc_allow_sealed_payload c)),
      (''explicit_reference_sensitivity_ceiling'',
        sensitivity_widens (cc_sensitivity_ceiling p) (cc_sensitivity_ceiling c))]"

definition assert_does_not_widen :: "ctx_policy \<Rightarrow> ctx_policy \<Rightarrow> ctx_error + unit" where
  "assert_does_not_widen governing candidate =
     (case find snd (widened_keys (fst governing) (fst candidate)) of
        None \<Rightarrow> Inr ()
      | Some (k, _) \<Rightarrow> Inl (Widening k))"

section \<open>The order of constraints\<close>

text \<open>
  \<open>tighter c p\<close>: wherever \<open>p\<close> constrains, \<open>c\<close> constrains at least as much. The check of the code
  compares only the keys both sides have.
\<close>

definition tighter_key :: "('a \<Rightarrow> 'a \<Rightarrow> bool) \<Rightarrow> 'a option \<Rightarrow> 'a option \<Rightarrow> bool" where
  "tighter_key le c p \<longleftrightarrow> (case p of None \<Rightarrow> True | Some y \<Rightarrow> (case c of None \<Rightarrow> False | Some x \<Rightarrow> le x y))"

definition tighter :: "ctx_constraints \<Rightarrow> ctx_constraints \<Rightarrow> bool" where
  "tighter c p \<longleftrightarrow>
     (let sub = tighter_key (\<lambda>x y. set x \<subseteq> set y); le = tighter_key (\<le>); imp = tighter_key (\<longrightarrow>)
      in sub (cc_retrieval_domains c) (cc_retrieval_domains p) \<and>
         sub (cc_memory_layers c) (cc_memory_layers p) \<and>
         sub (cc_explicit_reference_types c) (cc_explicit_reference_types p) \<and>
         sub (cc_pinned_reference_types c) (cc_pinned_reference_types p) \<and>
         sub (cc_continuity_modes c) (cc_continuity_modes p) \<and>
         le (cc_retrieval_max_candidates c) (cc_retrieval_max_candidates p) \<and>
         le (cc_explicit_reference_max c) (cc_explicit_reference_max p) \<and>
         le (cc_pinned_reference_max c) (cc_pinned_reference_max p) \<and>
         le (cc_sealed_payload_retention_seconds c) (cc_sealed_payload_retention_seconds p) \<and>
         imp (cc_allow_project_brief c) (cc_allow_project_brief p) \<and>
         imp (cc_allow_project_instructions c) (cc_allow_project_instructions p) \<and>
         imp (cc_allow_sealed_payload c) (cc_allow_sealed_payload p) \<and>
         tighter_key (\<lambda>x y. sensitivity_rank x \<le> sensitivity_rank y)
           (cc_sensitivity_ceiling c) (cc_sensitivity_ceiling p))"

text \<open>One key at a time: the intersection is the greatest lower bound.\<close>

locale key_meet =
  fixes le :: "'a \<Rightarrow> 'a \<Rightarrow> bool" and f :: "'a \<Rightarrow> 'a \<Rightarrow> 'a"
  assumes refl: "le x x"
    and trans: "le x y \<Longrightarrow> le y z \<Longrightarrow> le x z"
    and lower1: "le (f x y) x" and lower2: "le (f x y) y"
    and greatest: "le z x \<Longrightarrow> le z y \<Longrightarrow> le z (f x y)"
begin

lemma key_refl: "tighter_key le c c"
  by (simp add: tighter_key_def refl split: option.split)

lemma key_trans: "tighter_key le a b \<Longrightarrow> tighter_key le b c \<Longrightarrow> tighter_key le a c"
  by (auto simp: tighter_key_def intro: trans split: option.splits)

lemma key_lower:
  "tighter_key le (meet_with f c n) c" "tighter_key le (meet_with f c n) n"
  by (auto simp: tighter_key_def meet_with_def refl lower1 lower2 split: option.splits)

lemma key_greatest:
  "tighter_key le z c \<Longrightarrow> tighter_key le z n \<Longrightarrow> tighter_key le z (meet_with f c n)"
  by (auto simp: tighter_key_def meet_with_def greatest split: option.splits)

end

interpretation lists: key_meet "\<lambda>x y. set x \<subseteq> set y" "\<lambda>l r. filter (\<lambda>v. v \<in> set r) l"
  by unfold_locales auto

interpretation maxes: key_meet "(\<le>) :: nat \<Rightarrow> nat \<Rightarrow> bool" min
  by unfold_locales auto

interpretation bools: key_meet "(\<longrightarrow>)" "(\<and>)"
  by unfold_locales auto

text \<open>The ceiling is a choice by reversed rank.\<close>

interpretation lowered: rank_choice "\<lambda>s. 3 - sensitivity_rank s" lower_sensitivity
proof
  fix x y :: sensitivity
  show "3 - sensitivity_rank x = 3 - sensitivity_rank y \<Longrightarrow> x = y"
    by (cases x; cases y) auto
qed (auto simp: lower_sensitivity_def)

interpretation ceilings: key_meet "\<lambda>x y. sensitivity_rank x \<le> sensitivity_rank y" lower_sensitivity
  by unfold_locales (auto simp: lower_sensitivity_def)

lemmas meet_defs = meet_list_def meet_max_def meet_bool_def

lemma tighter_refl: "tighter c c"
  by (simp add: tighter_def Let_def lists.key_refl maxes.key_refl bools.key_refl ceilings.key_refl)

lemma tighter_trans: "tighter a b \<Longrightarrow> tighter b c \<Longrightarrow> tighter a c"
  unfolding tighter_def Let_def
  by (elim conjE, intro conjI)
     (blast intro: lists.key_trans maxes.key_trans bools.key_trans ceilings.key_trans)+

lemma intersect_lower: "tighter (intersect_constraints c n) c" "tighter (intersect_constraints c n) n"
  by (simp_all add: tighter_def Let_def intersect_constraints_def meet_defs lists.key_lower
      maxes.key_lower bools.key_lower ceilings.key_lower)

lemma intersect_greatest:
  "tighter z c \<Longrightarrow> tighter z n \<Longrightarrow> tighter z (intersect_constraints c n)"
  by (simp add: tighter_def Let_def intersect_constraints_def meet_defs lists.key_greatest
      maxes.key_greatest bools.key_greatest ceilings.key_greatest)

lemma no_constraints_top: "tighter c no_constraints"
  by (simp add: tighter_def Let_def no_constraints_def tighter_key_def)

text \<open>What is tighter passes the code's check.\<close>

lemma tighter_key_widens:
  "tighter_key (\<lambda>x y. set x \<subseteq> set y) c p \<Longrightarrow> \<not> list_widens p c"
  "tighter_key (\<le>) n m \<Longrightarrow> \<not> max_widens m n"
  "tighter_key (\<longrightarrow>) a b \<Longrightarrow> \<not> bool_widens b a"
  "tighter_key (\<lambda>x y. sensitivity_rank x \<le> sensitivity_rank y) s t \<Longrightarrow> \<not> sensitivity_widens t s"
  by (auto simp: tighter_key_def list_widens_def max_widens_def bool_widens_def
      sensitivity_widens_def list_ex_iff split: option.splits)

lemma assert_does_not_widen_ok:
  "assert_does_not_widen g c = Inr () \<longleftrightarrow> (\<forall>(k, w)\<in>set (widened_keys (fst g) (fst c)). \<not> w)"
  by (auto simp: assert_does_not_widen_def find_None_iff split: option.splits prod.splits)
     (metis find_None_iff option.distinct(1) prod.sel(2))

lemma tighter_passes:
  "tighter (fst c) (fst g) \<Longrightarrow> assert_does_not_widen g c = Inr ()"
  unfolding assert_does_not_widen_ok tighter_def Let_def widened_keys_def
  by (simp add: tighter_key_widens)

lemma merge_fold_tighter:
  "fold (\<lambda>(c, p) (cs, ps). (intersect_constraints cs c, merge_preferences ps p)) vs acc = (cs, ps) \<Longrightarrow>
   tighter cs (fst acc) \<and> (\<forall>(c, p)\<in>set vs. tighter cs c) \<and>
   (\<forall>z. tighter z (fst acc) \<longrightarrow> (\<forall>(c, p)\<in>set vs. tighter z c) \<longrightarrow> tighter z cs)"
proof (induction vs arbitrary: acc)
  case Nil
  then show ?case by (auto simp: tighter_refl)
next
  case (Cons v vs)
  obtain c p where v: "v = (c, p)" by (cases v)
  obtain cs0 ps0 where acc: "acc = (cs0, ps0)" by (cases acc)
  from Cons.IH [of "(intersect_constraints cs0 c, merge_preferences ps0 p)"] Cons.prems
  have ih: "tighter cs (intersect_constraints cs0 c)" "\<forall>(c, p)\<in>set vs. tighter cs c"
    "\<forall>z. tighter z (intersect_constraints cs0 c) \<longrightarrow> (\<forall>(c, p)\<in>set vs. tighter z c) \<longrightarrow> tighter z cs"
    by (simp_all add: v acc)
  then show ?case
    using intersect_lower [of cs0 c] intersect_greatest by (auto simp: v acc intro: tighter_trans)
qed

section \<open>Clamping\<close>

lemmas conflict_defs =
  brief_conflict_def instructions_conflict_def retrieval_conflict_def continuity_conflict_def

lemma clamp_within: "assert_preferences_within (c, clamp_preferences c p) = Inr ()"
  by (auto simp: assert_preferences_within_def clamp_preferences_def Let_def conflict_defs
      split: option.splits)

lemma clamp_identity:
  "assert_preferences_within (c, p) = Inr () \<Longrightarrow> clamp_preferences c p = p"
  by (simp add: assert_preferences_within_def clamp_preferences_def Let_def split: if_splits)

lemma clamp_only:
  "cp_retrieval_mode (clamp_preferences c p) = cp_retrieval_mode p"
  "cp_output_reserve_tokens (clamp_preferences c p) = cp_output_reserve_tokens p"
  "cp_compaction_trigger_tokens (clamp_preferences c p) = cp_compaction_trigger_tokens p"
  by (simp_all add: clamp_preferences_def Let_def)

section \<open>Properties\<close>

text \<open>
  C27. The constraints of a resolution are the greatest lower bound of those of the contributing
  versions: at least as tight as each on every key, no tighter than needed, and therefore accepted by
  \<open>assertPolicyDoesNotWiden\<close> against each of them.
\<close>

theorem resolved_constraints_meet:
  assumes "resolve_policies mode versions = Inr (c, p)"
  shows "(\<forall>v\<in>set versions. tighter c (fst v) \<and> assert_does_not_widen v (c, p) = Inr ()) \<and>
    (\<forall>z. (\<forall>v\<in>set versions. tighter z (fst v)) \<longrightarrow> tighter z c)"
proof -
  obtain cs ps where run: "merge_policies versions = (cs, ps)" by fastforce
  have c: "c = cs"
    using assms run by (auto simp: resolve_policies_def split: conflict_mode.splits sum.splits)
  have meet: "\<forall>v\<in>set versions. tighter cs (fst v)"
    "\<forall>z. tighter z no_constraints \<longrightarrow> (\<forall>v\<in>set versions. tighter z (fst v)) \<longrightarrow> tighter z cs"
    using merge_fold_tighter [OF run [unfolded merge_policies_def]]
    by (simp_all add: case_prod_beta')
  then show ?thesis
    using tighter_passes no_constraints_top by (auto simp: c)
qed

definition brief_policy :: "bool option \<Rightarrow> bool option \<Rightarrow> ctx_policy" where
  "brief_policy allow wants =
     (no_constraints\<lparr>cc_allow_project_brief := allow, cc_retrieval_max_candidates := Some 5\<rparr>,
      no_preferences\<lparr>cp_include_project_brief := wants\<rparr>)"

lemma resolved_constraints_meet_witness:
  "\<exists>c p. resolve_policies Clamp [brief_policy (Some False) None, brief_policy (Some True) (Some True)]
       = Inr (c, p) \<and>
     assert_does_not_widen (brief_policy (Some False) None) (c, p) = Inr ()"
proof -
  obtain c p where run: "resolve_policies Clamp [brief_policy (Some False) None,
      brief_policy (Some True) (Some True)] = Inr (c, p)"
    by (auto simp: resolve_policies_def merge_policies_def brief_policy_def)
  from resolved_constraints_meet [OF run] run show ?thesis by auto
qed

text \<open>
  Resolution with clamping always succeeds with preferences that the resolved constraints allow,
  and leaves preferences that were already allowed unchanged; with rejection it succeeds exactly on
  those, with the same result.
\<close>

theorem resolution_preferences:
  "\<exists>c p. resolve_policies Clamp versions = Inr (c, p) \<and>
     assert_preferences_within (c, p) = Inr () \<and>
     (\<forall>q. resolve_policies Reject versions = Inr q \<longleftrightarrow>
        q = merge_policies versions \<and> merge_policies versions = (c, p) \<and>
        assert_preferences_within (merge_policies versions) = Inr ())"
proof -
  obtain c p where run: "merge_policies versions = (c, p)" by fastforce
  have "resolve_policies Clamp versions = Inr (c, clamp_preferences c p)"
    by (simp add: resolve_policies_def run)
  moreover have "resolve_policies Reject versions = Inr q \<longleftrightarrow>
        q = (c, p) \<and> (c, p) = (c, clamp_preferences c p) \<and> assert_preferences_within (c, p) = Inr ()"
    for q
    using clamp_identity [of c p]
    by (auto simp: resolve_policies_def run split: sum.splits)
  ultimately show ?thesis using clamp_within [of c p] unfolding run by blast
qed

end
