(* ===== verification/ContentAccess.thy ===== *)
theory ContentAccess
  imports PolicyDecisions
begin

text \<open>
  The effective access level of a content row, \<open>server/src/modules/access/contentAccessPolicy.ts\<close>
  with the types of \<open>contentAccessTypes.ts\<close>: scope gates first, then ownership, then the widest of
  the visibility base, the viewer's grant and the oversight level. Also the oversight level a space
  gives a member (\<open>oversightResolver.ts\<close>) and the rule for handing out roles (\<open>roles.ts\<close>). The rows
  come from the database and are arguments.
\<close>

section \<open>Types\<close>

text \<open>Visibility and level are strings of the database row, read by the predicates below.\<close>

datatype access_decision = NoAccess | Summary | Full

datatype oversight_mode = OverNone | OverSummary | OverContent | OverFull

record access_resource =
  ar_space_id :: string
  ar_owner_user_id :: "string option"
  ar_visibility :: string
  ar_access_level :: string

record access_grant =
  ag_grantee_user_id :: string
  ag_access_level :: string
  ag_revoked_at :: "string option"

record access_context =
  ac_space_id :: string
  ac_user_id :: string
  ac_active_member :: bool
  ac_scope_allowed :: bool
  ac_oversight :: "oversight_mode option"

definition is_content_visibility :: "string \<Rightarrow> bool" where
  "is_content_visibility v \<longleftrightarrow> v \<in> set [''private'', ''space_shared'', ''selected_users'']"

definition is_content_access_level :: "string \<Rightarrow> bool" where
  "is_content_access_level l \<longleftrightarrow> l \<in> set [''full'', ''summary'']"

text \<open>A validated level string as a decision.\<close>

definition level_decision :: "string \<Rightarrow> access_decision" where
  "level_decision l = (if l = ''full'' then Full else Summary)"

text \<open>\<open>bodyWithheld\<close>: anything but full withholds.\<close>

definition body_withheld :: "string \<Rightarrow> bool" where
  "body_withheld level \<longleftrightarrow> level \<noteq> ''full''"

fun access_rank :: "access_decision \<Rightarrow> nat" where
  "access_rank NoAccess = 0" | "access_rank Summary = 1" | "access_rank Full = 2"

section \<open>The decision\<close>

text \<open>\<open>widestAccessDecision\<close>, with its early return.\<close>

fun widest_from :: "access_decision \<Rightarrow> access_decision list \<Rightarrow> access_decision" where
  "widest_from widest [] = widest"
| "widest_from widest (d # ds) =
     (if d = Full then Full
      else widest_from (if d = Summary \<and> widest = NoAccess then Summary else widest) ds)"

definition widest_access_decision :: "access_decision list \<Rightarrow> access_decision" where
  "widest_access_decision ds = widest_from NoAccess ds"

definition oversight_contribution :: "oversight_mode option \<Rightarrow> access_decision" where
  "oversight_contribution mode =
     (if mode = Some OverSummary then Summary
      else if mode = Some OverContent \<or> mode = Some OverFull then Full else NoAccess)"

definition active_grant :: "string \<Rightarrow> access_grant list \<Rightarrow> access_grant option" where
  "active_grant user grants =
     find (\<lambda>g. ag_grantee_user_id g = user \<and>
       (case ag_revoked_at g of None \<Rightarrow> True | Some t \<Rightarrow> t = []) \<and>
       is_content_access_level (ag_access_level g)) grants"

definition member_access_decision ::
    "access_resource \<Rightarrow> string \<Rightarrow> access_grant list \<Rightarrow> access_decision" where
  "member_access_decision r user grants =
     (if ar_visibility r = ''private'' then NoAccess
      else let grant = active_grant user grants
           in if ar_visibility r = ''space_shared''
              then (let base = level_decision (ar_access_level r)
                    in case grant of
                         Some g \<Rightarrow> widest_access_decision [base, level_decision (ag_access_level g)]
                       | None \<Rightarrow> base)
              else (case grant of Some g \<Rightarrow> level_decision (ag_access_level g) | None \<Rightarrow> NoAccess))"

definition decide_content_access ::
    "access_resource \<Rightarrow> access_context \<Rightarrow> access_grant list \<Rightarrow> access_decision" where
  "decide_content_access r ctx grants =
     (if ar_space_id r \<noteq> ac_space_id ctx \<or> \<not> ac_active_member ctx \<or> \<not> ac_scope_allowed ctx
         \<or> \<not> is_content_visibility (ar_visibility r) \<or> \<not> is_content_access_level (ar_access_level r)
      then NoAccess
      else if ar_owner_user_id r = Some (ac_user_id ctx) then Full
      else widest_access_decision
             [member_access_decision r (ac_user_id ctx) grants,
              oversight_contribution (ac_oversight ctx)])"

definition is_content_owner :: "access_resource \<Rightarrow> string option \<Rightarrow> bool" where
  "is_content_owner r user \<longleftrightarrow>
     (case user of None \<Rightarrow> False | Some u \<Rightarrow> u \<noteq> [] \<and> ar_owner_user_id r = Some u)"

section \<open>Widest wins\<close>

definition wider :: "access_decision \<Rightarrow> access_decision \<Rightarrow> access_decision" where
  "wider a b = (if access_rank a < access_rank b then b else a)"

lemma access_rank_inj: "access_rank a = access_rank b \<Longrightarrow> a = b"
  by (cases a; cases b) auto

interpretation widest: rank_choice access_rank wider
  by unfold_locales (auto simp: wider_def intro: access_rank_inj)

lemma wider_full [simp]: "wider d Full = Full" "wider Full d = Full"
  by (cases d; simp add: wider_def)+

lemma wider_no_access [simp]: "wider d NoAccess = d" "wider NoAccess d = d"
  by (cases d; simp add: wider_def)+

lemma wider_fold_full: "fold wider ds Full = Full"
  by (induction ds) simp_all

lemma widest_from_fold: "widest_from w ds = fold wider ds w"
proof (induction ds arbitrary: w)
  case Nil
  then show ?case by simp
next
  case (Cons d ds)
  have "wider d w = (if d = Full then Full else if d = Summary \<and> w = NoAccess then Summary else w)"
    by (cases d; cases w) (auto simp: wider_def)
  then show ?case by (simp add: Cons wider_fold_full)
qed

lemma widest_pair: "widest_access_decision [a, b] = wider a b"
proof -
  have "wider a NoAccess = a" by (cases a) (simp_all add: wider_def)
  then show ?thesis
    by (simp add: widest_access_decision_def widest_from_fold widest.pick_comm)
qed

lemma wider_eq_Full: "wider a b = Full \<longleftrightarrow> a = Full \<or> b = Full"
  by (cases a; cases b) (auto simp: wider_def)

lemma wider_eq_NoAccess: "wider a b = NoAccess \<longleftrightarrow> a = NoAccess \<and> b = NoAccess"
  by (cases a; cases b) (auto simp: wider_def)

section \<open>Oversight of a space\<close>

definition read_oversight_mode :: "string \<Rightarrow> oversight_mode option" where
  "read_oversight_mode s =
     (if s = ''none'' then Some OverNone else if s = ''summary'' then Some OverSummary
      else if s = ''content'' then Some OverContent else if s = ''full'' then Some OverFull
      else None)"

text \<open>The row is the space's mode and the role of the viewer's active membership.\<close>

definition resolve_oversight_level :: "(string \<times> string) option \<Rightarrow> oversight_mode" where
  "resolve_oversight_level row =
     (case row of
        None \<Rightarrow> OverNone
      | Some (mode, role) \<Rightarrow>
          if role \<noteq> ''owner'' \<and> role \<noteq> ''admin'' then OverNone
          else (case read_oversight_mode mode of None \<Rightarrow> OverNone | Some m \<Rightarrow> m))"

section \<open>Handing out roles\<close>

datatype role_refusal = UnknownRole | RoleTooHigh | OnlyOwner

definition role_grant_refusal :: "string list \<Rightarrow> string option \<Rightarrow> string \<Rightarrow> role_refusal option" where
  "role_grant_refusal ladder actor requested =
     (case index_of requested ladder of
        None \<Rightarrow> Some UnknownRole
      | Some r \<Rightarrow>
          (let a = (case actor of None \<Rightarrow> None | Some ar \<Rightarrow> index_of ar ladder)
           in if (case a of None \<Rightarrow> True | Some n \<Rightarrow> n < r) then Some RoleTooHigh
              else if requested = ''owner'' \<and> actor \<noteq> Some ''owner'' then Some OnlyOwner
              else None))"

section \<open>Properties\<close>

text \<open>Through the scope gates.\<close>

definition in_scope :: "access_resource \<Rightarrow> access_context \<Rightarrow> bool" where
  "in_scope r ctx \<longleftrightarrow>
     ar_space_id r = ac_space_id ctx \<and> ac_active_member ctx \<and> ac_scope_allowed ctx \<and>
     is_content_visibility (ar_visibility r) \<and> is_content_access_level (ar_access_level r)"

text \<open>The level of the viewer's grant, when the row's visibility lets grants count.\<close>

definition granted_level :: "access_resource \<Rightarrow> string \<Rightarrow> access_grant list \<Rightarrow> access_decision" where
  "granted_level r user grants =
     (if ar_visibility r = ''private'' then NoAccess
      else case active_grant user grants of
             None \<Rightarrow> NoAccess
           | Some g \<Rightarrow> level_decision (ag_access_level g))"

lemma level_decision_not_NoAccess [simp]: "level_decision l \<noteq> NoAccess"
  by (simp add: level_decision_def)

lemma member_access_value:
  "is_content_visibility (ar_visibility r) \<Longrightarrow>
   member_access_decision r user grants =
     wider (if ar_visibility r = ''space_shared'' then level_decision (ar_access_level r)
            else NoAccess) (granted_level r user grants)"
  by (auto simp: member_access_decision_def granted_level_def Let_def widest_pair
      is_content_visibility_def split: option.split)

text \<open>
  C31. The body of a row (level full) is given to exactly: the owner, a viewer with content or full
  oversight, a grantee of a full grant on a row that is not private, and any member when the row is
  shared at level full; and only inside the scope gates. Nothing at all is given to a viewer who has
  none of these and no summary either.
\<close>

theorem full_access_iff:
  "decide_content_access r ctx grants = Full \<longleftrightarrow>
     in_scope r ctx \<and>
     (ar_owner_user_id r = Some (ac_user_id ctx)
      \<or> ac_oversight ctx \<in> {Some OverContent, Some OverFull}
      \<or> granted_level r (ac_user_id ctx) grants = Full
      \<or> ar_visibility r = ''space_shared'' \<and> ar_access_level r = ''full'')"
proof (cases "in_scope r ctx")
  case False
  then show ?thesis by (auto simp: decide_content_access_def in_scope_def)
next
  case True
  then show ?thesis
    by (auto simp: decide_content_access_def in_scope_def widest_pair wider_eq_Full
        member_access_value oversight_contribution_def level_decision_def)
qed

text \<open>
  A private row is invisible to everybody but its owner and the oversight the space was created
  with: no grant and no shared level opens it.
\<close>

theorem private_row_hidden:
  assumes "ar_visibility r = ''private''" and "ar_owner_user_id r \<noteq> Some (ac_user_id ctx)"
    and "ac_oversight ctx = None \<or> ac_oversight ctx = Some OverNone"
  shows "decide_content_access r ctx grants = NoAccess"
  using assms
  by (auto simp: decide_content_access_def widest_pair member_access_decision_def
      oversight_contribution_def wider_eq_NoAccess)

lemma private_row_hidden_witness:
  "decide_content_access
     \<lparr>ar_space_id = ''s'', ar_owner_user_id = Some ''u'', ar_visibility = ''private'',
      ar_access_level = ''full''\<rparr>
     \<lparr>ac_space_id = ''s'', ac_user_id = ''v'', ac_active_member = True, ac_scope_allowed = True,
      ac_oversight = None\<rparr>
     [\<lparr>ag_grantee_user_id = ''v'', ag_access_level = ''full'', ag_revoked_at = None\<rparr>] = NoAccess"
  by (rule private_row_hidden) simp_all

text \<open>
  A role is handed out exactly when the ladder knows it, the granter's role is at least as high,
  and the granter is an owner if the role is owner; the granter's role is then on the ladder.
\<close>

theorem role_grant_allowed_iff:
  "role_grant_refusal canonical_roles actor requested = None \<longleftrightarrow>
     (\<exists>a n m. actor = Some a \<and> index_of a canonical_roles = Some n \<and>
        index_of requested canonical_roles = Some m \<and> m \<le> n)"
proof -
  have owner: "index_of ''owner'' canonical_roles = Some 4" by code_simp
  have top: "a = ''owner''" if "index_of a canonical_roles = Some n" "4 \<le> n" for a n
    using that by (auto simp: canonical_roles_def split: if_splits)
  show ?thesis
  proof (cases "index_of requested canonical_roles")
    case None
    then show ?thesis by (simp add: role_grant_refusal_def)
  next
    case (Some m)
    show ?thesis
    proof (cases "\<exists>a n. actor = Some a \<and> index_of a canonical_roles = Some n")
      case False
      with Some show ?thesis
        by (cases actor) (auto simp: role_grant_refusal_def Let_def split: option.splits)
    next
      case True
      then obtain a n where a: "actor = Some a" "index_of a canonical_roles = Some n" by blast
      have "n < m" if "requested = ''owner''" "a \<noteq> ''owner''"
        using owner top [OF a(2)] Some that by (cases "4 \<le> n") auto
      with Some a show ?thesis by (auto simp: role_grant_refusal_def Let_def)
    qed
  qed
qed

end
