(* ===== verification/MemoryAccess.thy ===== *)
theory MemoryAccess
  imports ContentAccess
begin

text \<open>
  Who reads a memory, \<open>server/src/modules/memory/memoryReadAuth.ts\<close>: gates of its own around the
  decision on content rows - deleted rows, scopes, an agent's own notes, highly restricted ones. A
  level the database computed already stands in for that decision.
\<close>

section \<open>The decision\<close>

record memory_row =
  me_space_id :: string
  me_deleted_at :: jsval
  me_sensitivity_level :: "string option"
  me_visibility :: "string option"
  me_access_level :: "string option"
  me_effective_access_level :: "string option"
  me_owner_user_id :: "string option"
  me_scope_type :: "string option"
  me_grants :: "access_grant list"

record memory_context =
  mc_user_id :: string
  mc_space_id :: string
  mc_active_member :: "bool option"
  mc_scope_allowed :: "bool option"
  mc_oversight :: "oversight_mode option"

definition memory_resource :: "memory_row \<Rightarrow> access_resource" where
  "memory_resource m =
     \<lparr>ar_space_id = me_space_id m, ar_owner_user_id = me_owner_user_id m,
      ar_visibility = the (me_visibility m), ar_access_level = the (me_access_level m)\<rparr>"

definition memory_viewer :: "memory_context \<Rightarrow> access_context" where
  "memory_viewer ctx =
     \<lparr>ac_space_id = mc_space_id ctx, ac_user_id = mc_user_id ctx,
      ac_active_member = (case mc_active_member ctx of None \<Rightarrow> True | Some b \<Rightarrow> b),
      ac_scope_allowed = (case mc_scope_allowed ctx of None \<Rightarrow> True | Some b \<Rightarrow> b),
      ac_oversight = mc_oversight ctx\<rparr>"

definition valid_level :: "string option \<Rightarrow> bool" where
  "valid_level l \<longleftrightarrow> (case l of None \<Rightarrow> False | Some s \<Rightarrow> is_content_access_level s)"

definition memory_access_decision :: "memory_row \<Rightarrow> memory_context \<Rightarrow> access_decision" where
  "memory_access_decision m ctx =
     (if me_deleted_at m \<noteq> JNull then NoAccess
      else if me_space_id m \<noteq> mc_space_id ctx \<or> mc_active_member ctx = Some False \<or>
              mc_scope_allowed ctx = Some False \<or>
              \<not> (case me_visibility m of None \<Rightarrow> False | Some v \<Rightarrow> is_content_visibility v) \<or>
              \<not> valid_level (me_access_level m)
      then NoAccess
      else if me_scope_type m \<noteq> Some ''user'' \<and> me_scope_type m \<noteq> Some ''project'' \<and>
              me_scope_type m \<noteq> Some ''agent''
      then NoAccess
      else if me_scope_type m = Some ''agent'' \<and> me_visibility m \<noteq> Some ''private'' then NoAccess
      else if me_scope_type m = Some ''agent'' \<and> me_owner_user_id m \<noteq> Some (mc_user_id ctx) then NoAccess
      else (let decision =
              (if valid_level (me_effective_access_level m)
               then level_decision (the (me_effective_access_level m))
               else decide_content_access (memory_resource m) (memory_viewer ctx) (me_grants m))
            in if decision = NoAccess then NoAccess
               else if me_sensitivity_level m = Some ''highly_restricted'' \<and>
                       \<not> is_content_owner (memory_resource m) (Some (mc_user_id ctx)) \<and>
                       mc_oversight ctx \<noteq> Some OverFull
               then NoAccess
               else decision))"

definition can_read_memory :: "memory_row \<Rightarrow> memory_context \<Rightarrow> bool" where
  "can_read_memory m ctx \<longleftrightarrow> memory_access_decision m ctx \<noteq> NoAccess"

definition should_redact_memory_content :: "memory_row \<Rightarrow> string \<Rightarrow> string \<Rightarrow> bool" where
  "should_redact_memory_content m effective_level viewer \<longleftrightarrow>
     \<not> is_content_owner (memory_resource m) (Some viewer) \<and> body_withheld effective_level"

section \<open>Who reads what\<close>

text \<open>A row that is live, well-formed and in the viewer's space and scope\<close>

definition memory_in_scope :: "memory_row \<Rightarrow> memory_context \<Rightarrow> bool" where
  "memory_in_scope m ctx \<longleftrightarrow>
     me_deleted_at m = JNull \<and> me_space_id m = mc_space_id ctx \<and>
     mc_active_member ctx \<noteq> Some False \<and> mc_scope_allowed ctx \<noteq> Some False \<and>
     (\<exists>v l. me_visibility m = Some v \<and> is_content_visibility v \<and>
        me_access_level m = Some l \<and> is_content_access_level l)"

text \<open>A way to the row that the viewer has: ownership, sharing, an active grant, oversight\<close>

definition memory_reached :: "memory_row \<Rightarrow> memory_context \<Rightarrow> bool" where
  "memory_reached m ctx \<longleftrightarrow>
     valid_level (me_effective_access_level m) \<or>
     me_owner_user_id m = Some (mc_user_id ctx) \<or>
     me_visibility m = Some ''space_shared'' \<or>
     (me_visibility m = Some ''selected_users'' \<and> active_grant (mc_user_id ctx) (me_grants m) \<noteq> None) \<or>
     mc_oversight ctx \<in> {Some OverSummary, Some OverContent, Some OverFull}"

lemma decide_no_access_iff:
  assumes "memory_in_scope m ctx"
  shows "decide_content_access (memory_resource m) (memory_viewer ctx) grants = NoAccess \<longleftrightarrow>
    me_owner_user_id m \<noteq> Some (mc_user_id ctx) \<and> me_visibility m \<noteq> Some ''space_shared'' \<and>
    \<not> (me_visibility m = Some ''selected_users'' \<and> active_grant (mc_user_id ctx) grants \<noteq> None) \<and>
    mc_oversight ctx \<notin> {Some OverSummary, Some OverContent, Some OverFull}"
proof -
  obtain v l where v: "me_visibility m = Some v" "is_content_visibility v"
    "me_access_level m = Some l" "is_content_access_level l"
    using assms by (auto simp: memory_in_scope_def)
  have scope: "in_scope (memory_resource m) (memory_viewer ctx)"
    using assms v by (auto simp: in_scope_def memory_resource_def memory_viewer_def memory_in_scope_def split: option.split)
  have member: "member_access_decision (memory_resource m) user grants = NoAccess \<longleftrightarrow>
      v \<noteq> ''space_shared'' \<and> \<not> (v = ''selected_users'' \<and> active_grant user grants \<noteq> None)" for user
    using v by (auto simp: member_access_value memory_resource_def wider_eq_NoAccess granted_level_def
        is_content_visibility_def split: option.split)
  have oversight: "oversight_contribution (mc_oversight ctx) = NoAccess \<longleftrightarrow>
      mc_oversight ctx \<notin> {Some OverSummary, Some OverContent, Some OverFull}"
    by (auto simp: oversight_contribution_def)
  have "decide_content_access (memory_resource m) (memory_viewer ctx) grants = NoAccess \<longleftrightarrow>
      me_owner_user_id m \<noteq> Some (mc_user_id ctx) \<and>
      member_access_decision (memory_resource m) (mc_user_id ctx) grants = NoAccess \<and>
      oversight_contribution (mc_oversight ctx) = NoAccess"
    using scope
    by (simp add: decide_content_access_def in_scope_def widest_pair wider_eq_NoAccess)
      (simp add: memory_resource_def memory_viewer_def)
  then show ?thesis
    unfolding member oversight v(1) by simp
qed

text \<open>
  C11. A memory is readable exactly when it is live, in the viewer's space and scope, reached by ownership,
  sharing, a grant or oversight, and its own gates open: an agent's notes are private and the owner's alone,
  whatever the oversight, and a highly restricted memory takes its owner or full oversight. What a reader gets
  of it, the body included, is the level computed for the row or the decision on content rows, never more.
\<close>

theorem memory_readable_iff:
  "(can_read_memory m ctx \<longleftrightarrow>
      memory_in_scope m ctx \<and> memory_reached m ctx \<and>
      (me_scope_type m \<in> {Some ''user'', Some ''project''} \<or>
       me_scope_type m = Some ''agent'' \<and> me_visibility m = Some ''private'' \<and>
         me_owner_user_id m = Some (mc_user_id ctx)) \<and>
      (me_sensitivity_level m \<noteq> Some ''highly_restricted'' \<or>
       mc_user_id ctx \<noteq> [] \<and> me_owner_user_id m = Some (mc_user_id ctx) \<or> mc_oversight ctx = Some OverFull)) \<and>
   memory_access_decision m ctx \<in>
     {NoAccess, if valid_level (me_effective_access_level m)
                then level_decision (the (me_effective_access_level m))
                else decide_content_access (memory_resource m) (memory_viewer ctx) (me_grants m)}"
proof
  have owner: "is_content_owner (memory_resource m) (Some (mc_user_id ctx)) \<longleftrightarrow>
      mc_user_id ctx \<noteq> [] \<and> me_owner_user_id m = Some (mc_user_id ctx)"
    by (simp add: is_content_owner_def memory_resource_def)
  have scope: "memory_in_scope m ctx \<longleftrightarrow>
      me_deleted_at m = JNull \<and> \<not> (me_space_id m \<noteq> mc_space_id ctx \<or> mc_active_member ctx = Some False \<or>
        mc_scope_allowed ctx = Some False \<or>
        \<not> (case me_visibility m of None \<Rightarrow> False | Some v \<Rightarrow> is_content_visibility v) \<or>
        \<not> valid_level (me_access_level m))"
    by (auto simp: memory_in_scope_def valid_level_def split: option.splits)
  show "can_read_memory m ctx \<longleftrightarrow>
      memory_in_scope m ctx \<and> memory_reached m ctx \<and>
      (me_scope_type m \<in> {Some ''user'', Some ''project''} \<or>
       me_scope_type m = Some ''agent'' \<and> me_visibility m = Some ''private'' \<and>
         me_owner_user_id m = Some (mc_user_id ctx)) \<and>
      (me_sensitivity_level m \<noteq> Some ''highly_restricted'' \<or>
       mc_user_id ctx \<noteq> [] \<and> me_owner_user_id m = Some (mc_user_id ctx) \<or> mc_oversight ctx = Some OverFull)"
  proof (cases "memory_in_scope m ctx")
    case False
    then show ?thesis
      unfolding scope can_read_memory_def memory_access_decision_def by auto
  next
    case True
    define d where "d = (if valid_level (me_effective_access_level m)
        then level_decision (the (me_effective_access_level m))
        else decide_content_access (memory_resource m) (memory_viewer ctx) (me_grants m))"
    have "d \<noteq> NoAccess \<longleftrightarrow> memory_reached m ctx"
      using decide_no_access_iff [OF True, of "me_grants m"] by (auto simp: d_def memory_reached_def)
    with True show ?thesis
      unfolding scope can_read_memory_def memory_access_decision_def d_def [symmetric] owner Let_def by auto
  qed
  show "memory_access_decision m ctx \<in>
     {NoAccess, if valid_level (me_effective_access_level m)
                then level_decision (the (me_effective_access_level m))
                else decide_content_access (memory_resource m) (memory_viewer ctx) (me_grants m)}"
    by (simp add: memory_access_decision_def Let_def)
qed

text \<open>A note of an agent, read by its owner and by a viewer with full oversight\<close>

definition sample_note :: memory_row where
  "sample_note =
     \<lparr>me_space_id = ''s'', me_deleted_at = JNull, me_sensitivity_level = None, me_visibility = Some ''private'',
      me_access_level = Some ''full'', me_effective_access_level = None, me_owner_user_id = Some ''u'',
      me_scope_type = Some ''agent'', me_grants = []\<rparr>"

definition sample_reader :: "string \<Rightarrow> memory_context" where
  "sample_reader user =
     \<lparr>mc_user_id = user, mc_space_id = ''s'', mc_active_member = None, mc_scope_allowed = None,
      mc_oversight = Some OverFull\<rparr>"

lemma memory_readable_iff_witness:
  "can_read_memory sample_note (sample_reader ''u'') \<and> \<not> can_read_memory sample_note (sample_reader ''v'')"
  unfolding memory_readable_iff [THEN conjunct1]
  by (simp add: sample_note_def sample_reader_def memory_in_scope_def memory_reached_def
      is_content_visibility_def is_content_access_level_def)

end
