(* ===== verification/WindowPlanner.thy ===== *)
theory WindowPlanner
  imports TokenEstimate "HOL-Library.Product_Lexorder" "HOL-Library.List_Lexorder"
    "HOL-Library.Multiset"
begin

text \<open>
  The context window planner, \<open>server/src/modules/runtimeContext/windowPlanner.ts\<close>: typed conflicts
  are resolved, items are validated and ordered, required and pinned items are reserved, ranked ones
  fill what is left and are cut or left out.

  The model window is an argument, as \<open>resolveModelWindow\<close> returns it. \<open>localeCompare\<close> orders
  strings by the collation keys of the runtime's locale; the key function \<open>ckey\<close> is an argument.
  Human-readable messages and the catalog version strings of the result are left out.
\<close>

section \<open>Items\<close>

datatype acquisition = AqDirect | AqExplicit | AqRetrieval | AqContinuity | AqRuntimeEvent

datatype selection = SelRequired | SelPinned | SelRanked

datatype semantic_role = DelegatedInstruction | UserInput | ReferenceData

datatype trust = SystemApproved | UserConfirmed | DomainApproved | Derived | ExternalUntrusted

text \<open>
  \<open>ci_text\<close> is \<open>payload.text\<close> when that is a string; \<open>ci_live\<close> is the affirmative revalidation:
  status "live" and a checked-at string.
\<close>

record ctx_item =
  ci_id :: string
  ci_acquisition :: acquisition
  ci_selection :: selection
  ci_rank :: "nat option"
  ci_role :: semantic_role
  ci_trust :: trust
  ci_egress_eligible :: bool
  ci_tokens :: nat
  ci_text :: "codes option"
  ci_trimmed_from :: "nat option"
  ci_live :: bool
  ci_conflict_key :: "string option"

record window_spec =
  ws_context_window :: "nat option"
  ws_default_reserve :: nat
  ws_overhead :: nat

datatype plan_error =
    RequiredContextOverflow "string list"
  | InstructionConflict "string list"
  | InvalidContextItem "string list"
  | NoItemText string

section \<open>Orders\<close>

fun selection_rank :: "selection \<Rightarrow> nat" where
  "selection_rank SelRequired = 0" | "selection_rank SelPinned = 1" | "selection_rank SelRanked = 2"

fun role_order :: "semantic_role \<Rightarrow> nat" where
  "role_order DelegatedInstruction = 0" | "role_order UserInput = 1" | "role_order ReferenceData = 2"

fun trust_order :: "trust \<Rightarrow> nat" where
  "trust_order SystemApproved = 0" | "trust_order DomainApproved = 1"
| "trust_order UserConfirmed = 2" | "trust_order Derived = 3" | "trust_order ExternalUntrusted = 4"

definition max_safe_integer :: nat where
  "max_safe_integer = 9007199254740991"

text \<open>\<open>compareItems\<close> compares these keys component by component.\<close>

type_synonym item_key = "nat \<times> nat \<times> nat \<times> nat \<times> nat list"

definition compare_items :: "(string \<Rightarrow> nat list) \<Rightarrow> ctx_item \<Rightarrow> item_key" where
  "compare_items ckey it =
     (selection_rank (ci_selection it), role_order (ci_role it),
      (case ci_rank it of None \<Rightarrow> max_safe_integer | Some r \<Rightarrow> r),
      (if ci_acquisition it = AqContinuity then 0 else 1), ckey (ci_id it))"

definition compare_authority :: "(string \<Rightarrow> nat list) \<Rightarrow> ctx_item \<Rightarrow> nat \<times> item_key" where
  "compare_authority ckey it = (trust_order (ci_trust it), compare_items ckey it)"

section \<open>Typed conflicts\<close>

definition has_conflict_key :: "ctx_item \<Rightarrow> bool" where
  "has_conflict_key it \<longleftrightarrow> ci_conflict_key it \<noteq> None \<and> ci_conflict_key it \<noteq> Some []"

text \<open>The groups in order of first appearance.\<close>

definition add_to_group ::
    "ctx_item \<Rightarrow> (string \<times> ctx_item list) list \<Rightarrow> (string \<times> ctx_item list) list" where
  "add_to_group it groups =
     (let k = the (ci_conflict_key it)
      in AList.update k ((case map_of groups k of None \<Rightarrow> [] | Some g \<Rightarrow> g) @ [it]) groups)"

definition conflict_groups :: "ctx_item list \<Rightarrow> (string \<times> ctx_item list) list" where
  "conflict_groups items = fold add_to_group (filter has_conflict_key items) []"

definition is_mandatory :: "ctx_item \<Rightarrow> bool" where
  "is_mandatory it \<longleftrightarrow> ci_selection it \<noteq> SelRanked"

text \<open>One group: its items in order, and the ids it suppresses.\<close>

definition resolve_group ::
    "(string \<Rightarrow> nat list) \<Rightarrow> ctx_item list \<Rightarrow> plan_error + (ctx_item list \<times> string list)" where
  "resolve_group ckey members =
     (if length members = 1 then Inr (members, [])
      else let ordered = sort_key (compare_authority ckey) members;
               mandatory = filter is_mandatory ordered
           in if length mandatory > 1 then Inl (InstructionConflict (map ci_id mandatory))
              else let winner = (case mandatory of m # _ \<Rightarrow> m | [] \<Rightarrow> hd ordered)
                   in Inr (ordered, filter (\<lambda>i. i \<noteq> ci_id winner) (map ci_id ordered)))"

fun resolve_groups ::
    "(string \<Rightarrow> nat list) \<Rightarrow> (string \<times> ctx_item list) list \<Rightarrow>
     plan_error + (ctx_item list \<times> string list)" where
  "resolve_groups ckey [] = Inr ([], [])"
| "resolve_groups ckey ((k, g) # gs) =
     (case resolve_group ckey g of
        Inl e \<Rightarrow> Inl e
      | Inr (items, suppr) \<Rightarrow>
          (case resolve_groups ckey gs of
             Inl e \<Rightarrow> Inl e
           | Inr (items', suppr') \<Rightarrow> Inr (items @ items', suppr @ suppr')))"

definition resolve_typed_conflicts ::
    "(string \<Rightarrow> nat list) \<Rightarrow> ctx_item list \<Rightarrow> plan_error + (ctx_item list \<times> string list)" where
  "resolve_typed_conflicts ckey items =
     (case resolve_groups ckey (conflict_groups items) of
        Inl e \<Rightarrow> Inl e
      | Inr (grouped, suppr) \<Rightarrow> Inr (filter (\<lambda>it. \<not> has_conflict_key it) items @ grouped, suppr))"

section \<open>Validation\<close>

fun assert_each :: "string list \<Rightarrow> ctx_item list \<Rightarrow> plan_error + unit" where
  "assert_each ids [] = Inr ()"
| "assert_each ids (it # its) =
     (if ci_id it \<in> set ids then Inl (InvalidContextItem [ci_id it])
      else if \<not> ci_egress_eligible it then Inl (InvalidContextItem [ci_id it])
      else if \<not> ci_live it then Inl (InvalidContextItem [ci_id it])
      else if is_mandatory it \<and> (case ci_text it of None \<Rightarrow> True | Some t \<Rightarrow> trim_both t = [])
      then Inl (InvalidContextItem [ci_id it])
      else assert_each (ci_id it # ids) its)"

definition assert_items :: "ctx_item list \<Rightarrow> string \<Rightarrow> plan_error + unit" where
  "assert_items items current =
     (case assert_each [] items of
        Inl e \<Rightarrow> Inl e
      | Inr _ \<Rightarrow>
          (case find (\<lambda>it. ci_id it = current) items of
             None \<Rightarrow> Inl (InvalidContextItem [current])
           | Some it \<Rightarrow>
               if ci_acquisition it \<noteq> AqDirect \<or> ci_selection it \<noteq> SelRequired \<or> ci_role it \<noteq> UserInput
               then Inl (InvalidContextItem [current]) else Inr ()))"

section \<open>Planning\<close>

datatype window_decision = Included | Trimmed | Blocked

record plan_entry =
  pe_item :: ctx_item
  pe_decision :: window_decision
  pe_reason :: string
  pe_planned :: nat

definition runtime_managed_optional_estimate_budget :: nat where
  "runtime_managed_optional_estimate_budget = 16384"

text \<open>\<open>Math.floor((window - reserve - overhead) * 0.9)\<close>\<close>

definition available_tokens :: "window_spec \<Rightarrow> int \<Rightarrow> int option" where
  "available_tokens spec reserve =
     map_option (\<lambda>w. ((int w - reserve - int (ws_overhead spec)) * 9) div 10) (ws_context_window spec)"

text \<open>\<open>contextItemText\<close> throws when the item has no text.\<close>

definition context_item_text :: "ctx_item \<Rightarrow> plan_error + codes" where
  "context_item_text it =
     (case ci_text it of
        None \<Rightarrow> Inl (NoItemText (ci_id it))
      | Some t \<Rightarrow> if trim_both t = [] then Inl (NoItemText (ci_id it)) else Inr t)"

definition trim_context_text :: "codes \<Rightarrow> acquisition \<Rightarrow> int \<Rightarrow> codes option" where
  "trim_context_text t aq maximum =
     (if aq = AqContinuity then trim_text_from_end t maximum else trim_text t maximum)"

text \<open>The body of the loop for one item.\<close>

definition blocked_entry :: "ctx_item \<Rightarrow> string \<Rightarrow> plan_entry" where
  "blocked_entry it reason =
     \<lparr>pe_item = it, pe_decision = Blocked, pe_reason = reason, pe_planned = 0\<rparr>"

definition included_reason :: "ctx_item \<Rightarrow> string" where
  "included_reason it =
     (case ci_selection it of SelRanked \<Rightarrow> ''ranked_item_fits''
      | SelRequired \<Rightarrow> ''required_item_reserved'' | SelPinned \<Rightarrow> ''pinned_item_reserved'')"

definition plan_item :: "string list \<Rightarrow> ctx_item \<Rightarrow> int \<Rightarrow> plan_error + plan_entry" where
  "plan_item suppr it remaining =
     (if ci_id it \<in> set suppr then Inr (blocked_entry it ''typed_conflict_lower_authority'')
      else if ci_selection it = SelRanked \<and> int (ci_tokens it) > remaining
      then if remaining > 0
           then (case context_item_text it of
                   Inl e \<Rightarrow> Inl e
                 | Inr t \<Rightarrow>
                     (let cut = the (trim_context_text t (ci_acquisition it) remaining);
                          planned = estimate_model_tokens cut
                      in if planned = 0
                         then Inr (blocked_entry it ''ranked_item_cannot_materialize_within_window'')
                         else Inr \<lparr>pe_item = it\<lparr>ci_text := Some cut,
                                                ci_trimmed_from := Some (ci_tokens it),
                                                ci_tokens := planned\<rparr>,
                                    pe_decision = Trimmed,
                                    pe_reason = ''ranked_item_trimmed_to_window'',
                                    pe_planned = planned\<rparr>))
           else Inr (blocked_entry it ''ranked_item_outside_window'')
      else Inr \<lparr>pe_item = it, pe_decision = Included, pe_reason = included_reason it,
                pe_planned = ci_tokens it\<rparr>)"

definition spent :: "plan_entry \<Rightarrow> nat" where
  "spent e = (if pe_decision e = Blocked then 0 else pe_planned e)"

fun plan_loop ::
    "string list \<Rightarrow> bool \<Rightarrow> ctx_item list \<Rightarrow> int \<Rightarrow> plan_error + plan_entry list" where
  "plan_loop suppr bounded [] remaining = Inr []"
| "plan_loop suppr bounded (it # its) remaining =
     (case plan_item suppr it remaining of
        Inl e \<Rightarrow> Inl e
      | Inr e \<Rightarrow>
          (case plan_loop suppr bounded its
                  (if bounded \<or> ci_selection it = SelRanked then remaining - int (spent e)
                   else remaining) of
             Inl err \<Rightarrow> Inl err
           | Inr es \<Rightarrow> Inr (e # es)))"

datatype bucket = CurrentInput | Instructions | CheckpointTail | RetrievalBucket | Attachments | History

definition allocation_bucket :: "string \<Rightarrow> ctx_item \<Rightarrow> bucket" where
  "allocation_bucket current it =
     (if ci_id it = current then CurrentInput
      else if ci_role it = DelegatedInstruction then Instructions
      else if ci_acquisition it = AqContinuity \<or> ci_acquisition it = AqRuntimeEvent then CheckpointTail
      else if ci_acquisition it = AqRetrieval then RetrievalBucket
      else if ci_acquisition it = AqExplicit then Attachments else History)"

definition allocate :: "string list \<Rightarrow> string \<Rightarrow> plan_entry list \<Rightarrow> bucket \<Rightarrow> nat" where
  "allocate suppr current es b =
     fold (\<lambda>e n. if ci_id (pe_item e) \<notin> set suppr \<and> allocation_bucket current (pe_item e) = b
                 then n + spent e else n) es 0"

record window_plan =
  wp_entries :: "plan_entry list"
  wp_reserve :: nat
  wp_planned_prompt_tokens :: nat
  wp_allocations :: "bucket \<Rightarrow> nat"

definition plan_window ::
    "(string \<Rightarrow> nat list) \<Rightarrow> window_spec \<Rightarrow> int option \<Rightarrow> ctx_item list \<Rightarrow> string
     \<Rightarrow> plan_error + window_plan" where
  "plan_window ckey spec output_reserve all_items current =
     (case resolve_typed_conflicts ckey all_items of
        Inl e \<Rightarrow> Inl e
      | Inr (items, suppr) \<Rightarrow>
          (case assert_items items current of
             Inl e \<Rightarrow> Inl e
           | Inr _ \<Rightarrow>
               (let reserve = (case output_reserve of None \<Rightarrow> int (ws_default_reserve spec) | Some r \<Rightarrow> r)
                in if reserve < 0 then Inl (InvalidContextItem [])
                   else let available = available_tokens spec reserve
                        in if (case available of None \<Rightarrow> False | Some a \<Rightarrow> a < 0)
                           then Inl (RequiredContextOverflow [])
                           else let ordered = sort_key (compare_items ckey) items;
                                    mandatory = filter (\<lambda>it. is_mandatory it \<and> ci_id it \<notin> set suppr) ordered;
                                    mandatory_tokens = sum_list (map ci_tokens mandatory)
                                in if (case available of None \<Rightarrow> False
                                       | Some a \<Rightarrow> int mandatory_tokens > a)
                                   then Inl (RequiredContextOverflow (map ci_id mandatory))
                                   else (case plan_loop suppr (available \<noteq> None) ordered
                                           (case available of
                                              None \<Rightarrow> int runtime_managed_optional_estimate_budget
                                            | Some a \<Rightarrow> a) of
                                           Inl e \<Rightarrow> Inl e
                                         | Inr es \<Rightarrow>
                                             Inr \<lparr>wp_entries = es, wp_reserve = nat reserve,
                                                  wp_planned_prompt_tokens = sum_list (map spent es),
                                                  wp_allocations = allocate suppr current es\<rparr>))))"

section \<open>One item\<close>

lemma trim_context_text_within:
  assumes "0 < m"
  shows "int (estimate_model_tokens (the (trim_context_text t aq m))) \<le> m"
proof (cases "aq = AqContinuity")
  case True
  then show ?thesis
    using assms search_suffix [of "nat m" t]
    by (auto simp: trim_context_text_def trim_text_from_end_def estimate_model_tokens_def
        simp flip: nat_le_iff le_nat_iff split: if_splits)
next
  case False
  then obtain u where u: "trim_context_text t aq m = Some u" "trim_text t m = Some u"
    using assms by (auto simp: trim_context_text_def trim_text_def)
  then show ?thesis using trim_text_facts [OF u(2)] assms by auto
qed

text \<open>What one iteration does to an item, and what it spends.\<close>

definition entry_ok :: "string list \<Rightarrow> ctx_item \<Rightarrow> int \<Rightarrow> plan_entry \<Rightarrow> bool" where
  "entry_ok suppr it remaining e \<longleftrightarrow>
     ci_id (pe_item e) = ci_id it \<and> ci_selection (pe_item e) = ci_selection it \<and>
     (pe_decision e = Blocked \<longrightarrow> pe_planned e = 0 \<and> pe_item e = it \<and>
        (ci_id it \<in> set suppr \<or> ci_selection it = SelRanked)) \<and>
     (pe_decision e = Included \<longrightarrow> pe_item e = it) \<and>
     (pe_decision e = Trimmed \<longrightarrow> ci_selection it = SelRanked) \<and>
     (pe_decision e \<noteq> Blocked \<longrightarrow>
        ci_id it \<notin> set suppr \<and> pe_planned e = ci_tokens (pe_item e)) \<and>
     (ci_selection it = SelRanked \<longrightarrow> spent e = 0 \<or> int (spent e) \<le> remaining)"

lemma plan_item_ok: "plan_item suppr it remaining = Inr e \<Longrightarrow> entry_ok suppr it remaining e"
  using trim_context_text_within [of remaining _ "ci_acquisition it"]
  by (auto simp: plan_item_def entry_ok_def spent_def Let_def blocked_entry_def
      split: if_splits sum.splits)

lemma plan_item_mandatory:
  "is_mandatory it \<Longrightarrow> ci_id it \<notin> set suppr \<Longrightarrow>
   plan_item suppr it remaining = Inr \<lparr>pe_item = it, pe_decision = Included,
     pe_reason = included_reason it, pe_planned = ci_tokens it\<rparr>"
  by (simp add: plan_item_def is_mandatory_def)

section \<open>The loop\<close>

lemma plan_loop_entries:
  "plan_loop suppr bounded its remaining = Inr es \<Longrightarrow>
   list_all2 (\<lambda>it e. \<exists>r. entry_ok suppr it r e) its es"
proof (induction suppr bounded its remaining arbitrary: es rule: plan_loop.induct)
  case (1 suppr bounded remaining)
  then show ?case by simp
next
  case (2 suppr bounded it its remaining)
  from "2.prems" show ?case
    by (auto split: sum.splits dest: plan_item_ok "2.IH")
qed

text \<open>Only ranked items: what they spend fits in what remains.\<close>

lemma plan_loop_ranked:
  "plan_loop suppr bounded its remaining = Inr es \<Longrightarrow> \<forall>it\<in>set its. ci_selection it = SelRanked \<Longrightarrow>
   0 \<le> remaining \<Longrightarrow> int (sum_list (map spent es)) \<le> remaining"
proof (induction suppr bounded its remaining arbitrary: es rule: plan_loop.induct)
  case (1 suppr bounded remaining)
  then show ?case by simp
next
  case (2 suppr bounded it its remaining)
  from "2.prems"(1) obtain e es' where e: "plan_item suppr it remaining = Inr e"
      "plan_loop suppr bounded its (remaining - int (spent e)) = Inr es'" "es = e # es'"
    using "2.prems"(2) by (auto split: sum.splits)
  have "spent e = 0 \<or> int (spent e) \<le> remaining"
    using plan_item_ok [OF e(1)] "2.prems"(2) by (simp add: entry_ok_def)
  then have "int (sum_list (map spent es')) \<le> remaining - int (spent e)"
    using "2.IH" [OF e(1)] e(2) "2.prems"(2,3) by auto
  then show ?case by (simp add: e(3))
qed

text \<open>Mandatory items first: each is included as it is.\<close>

lemma plan_loop_mandatory:
  "\<forall>it\<in>set ms. is_mandatory it \<and> ci_id it \<notin> set suppr \<Longrightarrow>
   plan_loop suppr bounded (ms @ its) remaining =
     (case plan_loop suppr bounded its
        (if bounded then remaining - int (sum_list (map ci_tokens ms)) else remaining) of
        Inl e \<Rightarrow> Inl e
      | Inr es \<Rightarrow> Inr (map (\<lambda>it. \<lparr>pe_item = it, pe_decision = Included,
                             pe_reason = included_reason it, pe_planned = ci_tokens it\<rparr>) ms @ es))"
proof (induction ms arbitrary: remaining)
  case Nil
  then show ?case by (simp split: sum.split)
next
  case (Cons m ms)
  have "ci_selection m \<noteq> SelRanked" using Cons.prems by (simp add: is_mandatory_def)
  then show ?case
    using Cons by (auto simp: plan_item_mandatory spent_def algebra_simps split: sum.splits)
qed

section \<open>Conflict groups\<close>

lemma update_concat:
  "distinct (map fst gs) \<Longrightarrow>
   mset (concat (map snd (AList.update k ((case map_of gs k of None \<Rightarrow> [] | Some g \<Rightarrow> g) @ [x]) gs)))
     = add_mset x (mset (concat (map snd gs)))"
proof (induction gs)
  case Nil
  then show ?case by simp
next
  case (Cons g gs)
  obtain k' xs where g: "g = (k', xs)" by (cases g)
  show ?case
  proof (cases "k = k'")
    case True
    then show ?thesis by (simp add: g)
  next
    case False
    then show ?thesis using Cons by (simp add: g)
  qed
qed

lemma add_to_group_distinct:
  "distinct (map fst gs) \<Longrightarrow> distinct (map fst (add_to_group it gs))"
  by (simp add: add_to_group_def Let_def distinct_update)

lemma add_to_group_mset:
  "distinct (map fst gs) \<Longrightarrow>
   mset (concat (map snd (add_to_group it gs))) = add_mset it (mset (concat (map snd gs)))"
  by (simp add: add_to_group_def Let_def update_concat)

lemma fold_groups:
  "distinct (map fst gs) \<Longrightarrow>
   distinct (map fst (fold add_to_group items gs)) \<and>
   mset (concat (map snd (fold add_to_group items gs))) = mset items + mset (concat (map snd gs))"
  by (induction items arbitrary: gs) (simp_all add: add_to_group_distinct add_to_group_mset)

lemma conflict_groups_mset:
  "mset (concat (map snd (conflict_groups items))) = mset (filter has_conflict_key items)"
  using fold_groups [of "[]" "filter has_conflict_key items"] by (simp add: conflict_groups_def)

text \<open>Items with the same key end up in one group.\<close>

lemma lookup_add_to_group:
  "map_of (add_to_group it gs) k =
     (if k = the (ci_conflict_key it)
      then Some ((case map_of gs k of None \<Rightarrow> [] | Some g \<Rightarrow> g) @ [it]) else map_of gs k)"
  by (simp add: add_to_group_def Let_def update_conv')

lemma lookup_fold_groups:
  "(case map_of (fold add_to_group items gs) k of None \<Rightarrow> [] | Some g \<Rightarrow> g) =
     (case map_of gs k of None \<Rightarrow> [] | Some g \<Rightarrow> g) @
       filter (\<lambda>it. the (ci_conflict_key it) = k) items"
  by (induction items arbitrary: gs) (auto simp: lookup_add_to_group split: option.split)

lemma same_group:
  assumes "x \<in> set items" and "has_conflict_key x" and "y \<in> set items" and "has_conflict_key y"
    and "ci_conflict_key x = ci_conflict_key y"
  shows "\<exists>g \<in> snd ` set (conflict_groups items). x \<in> set g \<and> y \<in> set g"
proof -
  let ?k = "the (ci_conflict_key x)"
  have eq: "(case map_of (conflict_groups items) ?k of None \<Rightarrow> [] | Some g \<Rightarrow> g)
      = filter (\<lambda>it. the (ci_conflict_key it) = ?k) (filter has_conflict_key items)"
    using lookup_fold_groups [of "filter has_conflict_key items" "[]" ?k]
    by (simp add: conflict_groups_def)
  have mem: "x \<in> set (filter (\<lambda>it. the (ci_conflict_key it) = ?k) (filter has_conflict_key items))"
      "y \<in> set (filter (\<lambda>it. the (ci_conflict_key it) = ?k) (filter has_conflict_key items))"
    using assms by auto
  show ?thesis
  proof (cases "map_of (conflict_groups items) ?k")
    case None
    then have "filter (\<lambda>it. the (ci_conflict_key it) = ?k) (filter has_conflict_key items) = []"
      using eq by simp
    with mem(1) show ?thesis by (simp only: list.set empty_iff)
  next
    case (Some g)
    then have g: "g = filter (\<lambda>it. the (ci_conflict_key it) = ?k) (filter has_conflict_key items)"
      using eq by simp
    have "(?k, g) \<in> set (conflict_groups items)" using Some by (rule map_of_SomeD)
    then have "g \<in> snd ` set (conflict_groups items)" by force
    with mem show ?thesis unfolding g by blast
  qed
qed

lemma resolve_group_facts:
  assumes "resolve_group ckey g = Inr (items, sp)"
  shows "mset items = mset g \<and> (\<forall>i\<in>set sp. \<exists>it\<in>set g. ci_id it = i \<and> \<not> is_mandatory it) \<and>
    (\<forall>x\<in>set g. \<forall>y\<in>set g. ci_id x \<noteq> ci_id y \<longrightarrow> ci_id x \<in> set sp \<or> ci_id y \<in> set sp)"
proof (cases "length g = 1")
  case True
  then show ?thesis using assms by (auto simp: resolve_group_def length_Suc_conv)
next
  case False
  let ?o = "sort_key (compare_authority ckey) g"
  let ?m = "filter is_mandatory ?o"
  let ?w = "case ?m of m # _ \<Rightarrow> m | [] \<Rightarrow> hd ?o"
  have res: "items = ?o" "sp = filter (\<lambda>i. i \<noteq> ci_id ?w) (map ci_id ?o)" "length ?m \<le> 1"
    using assms False by (auto simp: resolve_group_def Let_def split: if_splits)
  have "\<not> is_mandatory it" if it: "it \<in> set ?o" "ci_id it \<noteq> ci_id ?w" for it
  proof
    assume "is_mandatory it"
    then have "it \<in> set ?m" using it(1) by simp
    then have "?m = [it]" using res(3) by (cases ?m) auto
    then show False using it(2) by simp
  qed
  then have "\<forall>i\<in>set sp. \<exists>it\<in>set g. ci_id it = i \<and> \<not> is_mandatory it"
    unfolding res(2) by auto
  moreover have "ci_id x \<in> set sp \<or> ci_id y \<in> set sp"
    if "x \<in> set g" "y \<in> set g" "ci_id x \<noteq> ci_id y" for x y
    using that unfolding res(2) by auto
  ultimately show ?thesis by (simp add: res(1))
qed

lemma resolve_groups_facts:
  "resolve_groups ckey gs = Inr (items, sp) \<Longrightarrow>
   mset items = mset (concat (map snd gs)) \<and>
   (\<forall>i\<in>set sp. \<exists>it\<in>set items. ci_id it = i \<and> \<not> is_mandatory it) \<and>
   (\<forall>g\<in>snd ` set gs. \<forall>x\<in>set g. \<forall>y\<in>set g.
      ci_id x \<noteq> ci_id y \<longrightarrow> ci_id x \<in> set sp \<or> ci_id y \<in> set sp)"
proof (induction ckey gs arbitrary: items sp rule: resolve_groups.induct)
  case (1 ckey)
  then show ?case by simp
next
  case (2 ckey k g gs)
  from "2.prems" obtain i1 s1 i2 s2 where r: "resolve_group ckey g = Inr (i1, s1)"
      "resolve_groups ckey gs = Inr (i2, s2)" "items = i1 @ i2" "sp = s1 @ s2"
    by (auto split: sum.splits)
  note f1 = resolve_group_facts [OF r(1)]
  note f2 = "2.IH" [OF r(1) refl r(2)]
  have set: "set g = set i1" using f1 by (metis mset_eq_setD)
  have pairs: "\<forall>x\<in>set g. \<forall>y\<in>set g. ci_id x \<noteq> ci_id y \<longrightarrow> ci_id x \<in> set s1 \<or> ci_id y \<in> set s1"
    using f1 by (elim conjE) assumption
  have "\<exists>it\<in>set items. ci_id it = i \<and> \<not> is_mandatory it" if "i \<in> set sp" for i
  proof (cases "i \<in> set s1")
    case True
    then obtain it where "it \<in> set g" "ci_id it = i" "\<not> is_mandatory it" using f1 by blast
    then show ?thesis using set by (auto simp: r(3))
  next
    case False
    then have "i \<in> set s2" using that by (simp add: r(4))
    then obtain it where "it \<in> set i2" "ci_id it = i" "\<not> is_mandatory it" using f2 by blast
    then show ?thesis by (auto simp: r(3))
  qed
  moreover have "ci_id x \<in> set sp \<or> ci_id y \<in> set sp"
    if h: "h \<in> snd ` set ((k, g) # gs)" "x \<in> set h" "y \<in> set h" "ci_id x \<noteq> ci_id y" for h x y
  proof (cases "h = g")
    case True
    then show ?thesis using pairs h by (auto simp: r(4))
  next
    case False
    then have "h \<in> snd ` set gs" using h(1) by simp
    then have "ci_id x \<in> set s2 \<or> ci_id y \<in> set s2" using f2 h(2-4) by blast
    then show ?thesis by (auto simp: r(4))
  qed
  moreover have "mset items = mset (concat (map snd ((k, g) # gs)))"
    using f1 f2 by (simp add: r(3))
  ultimately show ?case by blast
qed

lemma resolve_conflicts_facts:
  assumes "resolve_typed_conflicts ckey all = Inr (items, sp)"
  shows "mset items = mset all"
    "\<And>i. i \<in> set sp \<Longrightarrow> \<exists>it\<in>set items. ci_id it = i \<and> \<not> is_mandatory it"
    "\<And>x y. x \<in> set all \<Longrightarrow> y \<in> set all \<Longrightarrow> has_conflict_key x \<Longrightarrow>
       ci_conflict_key x = ci_conflict_key y \<Longrightarrow> ci_id x \<noteq> ci_id y \<Longrightarrow>
       ci_id x \<in> set sp \<or> ci_id y \<in> set sp"
proof -
  obtain grouped where g: "resolve_groups ckey (conflict_groups all) = Inr (grouped, sp)"
      "items = filter (\<lambda>it. \<not> has_conflict_key it) all @ grouped"
    using assms by (auto simp: resolve_typed_conflicts_def split: sum.splits)
  note f = resolve_groups_facts [OF g(1)]
  show "mset items = mset all"
    using f by (simp add: g(2) conflict_groups_mset)
  show "i \<in> set sp \<Longrightarrow> \<exists>it\<in>set items. ci_id it = i \<and> \<not> is_mandatory it" for i
    using f by (auto simp: g(2))
  show "ci_id x \<in> set sp \<or> ci_id y \<in> set sp"
    if xy: "x \<in> set all" "y \<in> set all" "has_conflict_key x" "ci_conflict_key x = ci_conflict_key y"
      "ci_id x \<noteq> ci_id y" for x y
  proof -
    have "has_conflict_key y" using xy by (simp add: has_conflict_key_def)
    then obtain gr where "gr \<in> snd ` set (conflict_groups all)" "x \<in> set gr" "y \<in> set gr"
      using same_group [of x all y] xy by blast
    with f xy(5) show ?thesis by blast
  qed
qed

section \<open>Validation\<close>

lemma assert_each_ok:
  "assert_each ids its = Inr () \<Longrightarrow>
   distinct (map ci_id its) \<and> ci_id ` set its \<inter> set ids = {} \<and>
   (\<forall>it\<in>set its. ci_egress_eligible it \<and> ci_live it)"
  by (induction ids its rule: assert_each.induct) (auto split: if_splits)

lemma assert_items_ok:
  "assert_items items current = Inr () \<Longrightarrow>
   distinct (map ci_id items) \<and> (\<forall>it\<in>set items. ci_egress_eligible it \<and> ci_live it) \<and>
   (\<exists>it\<in>set items. ci_id it = current \<and> ci_selection it = SelRequired)"
proof -
  assume ok: "assert_items items current = Inr ()"
  then have each: "assert_each [] items = Inr ()"
    by (auto simp: assert_items_def split: sum.splits)
  then obtain it where it: "find (\<lambda>it. ci_id it = current) items = Some it"
      "ci_selection it = SelRequired"
    using ok by (auto simp: assert_items_def split: option.splits if_splits)
  have "it \<in> set items \<and> ci_id it = current" using it(1) by (auto simp: find_Some_iff)
  with it(2) assert_each_ok [OF each] show ?thesis by auto
qed

section \<open>Properties\<close>

lemma selection_rank_top: "2 \<le> selection_rank s \<longleftrightarrow> s = SelRanked"
  by (cases s) simp_all

lemma sorted_mandatory_first:
  "\<exists>ms rs. sort_key (compare_items ckey) items = ms @ rs \<and> (\<forall>it\<in>set ms. is_mandatory it) \<and>
     (\<forall>it\<in>set rs. ci_selection it = SelRanked)"
proof -
  let ?o = "sort_key (compare_items ckey) items"
  have sorted: "sorted (map (\<lambda>it. selection_rank (ci_selection it)) ?o)"
  proof -
    have "sorted_wrt (\<lambda>x y. compare_items ckey x \<le> compare_items ckey y) ?o"
      using sorted_sort_key [of "compare_items ckey" items] by (simp add: sorted_map)
    then have "sorted_wrt (\<lambda>x y. selection_rank (ci_selection x) \<le> selection_rank (ci_selection y)) ?o"
      by (rule sorted_wrt_mono_rel [rotated]) (auto simp: compare_items_def)
    then show ?thesis by (simp add: sorted_map)
  qed
  have "\<exists>ms rs. xs = ms @ rs \<and> (\<forall>it\<in>set ms. is_mandatory it) \<and>
      (\<forall>it\<in>set rs. ci_selection it = SelRanked)"
    if "sorted (map (\<lambda>it. selection_rank (ci_selection it)) xs)" for xs
    using that
  proof (induction xs)
    case Nil
    then show ?case by simp
  next
    case (Cons x xs)
    show ?case
    proof (cases "is_mandatory x")
      case True
      obtain ms rs where "xs = ms @ rs" "\<forall>it\<in>set ms. is_mandatory it"
          "\<forall>it\<in>set rs. ci_selection it = SelRanked"
        using Cons by auto
      with True show ?thesis by (intro exI [of _ "x # ms"] exI [of _ rs]) simp
    next
      case False
      then have "\<forall>y\<in>set (x # xs). 2 \<le> selection_rank (ci_selection y)"
        using Cons.prems by (simp add: is_mandatory_def)
      then have "\<forall>y\<in>set (x # xs). ci_selection y = SelRanked"
        by (simp only: selection_rank_top)
      then show ?thesis by (intro exI [of _ "[]"] exI [of _ "x # xs"]) simp
    qed
  qed
  then show ?thesis using sorted by blast
qed

text \<open>What a successful plan went through.\<close>

lemma plan_window_cases:
  assumes "plan_window ckey spec out all current = Inr plan"
  obtains items sp ms rs reserve available es where
    "resolve_typed_conflicts ckey all = Inr (items, sp)" "assert_items items current = Inr ()"
    "0 \<le> reserve" "reserve = (case out of None \<Rightarrow> int (ws_default_reserve spec) | Some r \<Rightarrow> r)"
    "available = available_tokens spec reserve"
    "sort_key (compare_items ckey) items = ms @ rs" "\<forall>it\<in>set ms. is_mandatory it"
    "\<forall>it\<in>set rs. ci_selection it = SelRanked"
    "\<And>a. available = Some a \<Longrightarrow>
       0 \<le> a \<and> int (sum_list (map ci_tokens (filter (\<lambda>it. ci_id it \<notin> set sp) ms))) \<le> a"
    "plan_loop sp (available \<noteq> None) (ms @ rs) (case available of
       None \<Rightarrow> int runtime_managed_optional_estimate_budget | Some a \<Rightarrow> a) = Inr es"
    "wp_entries plan = es" "wp_planned_prompt_tokens plan = sum_list (map spent es)"
    "wp_allocations plan = allocate sp current es" "wp_reserve plan = nat reserve"
proof -
  obtain items sp where conf: "resolve_typed_conflicts ckey all = Inr (items, sp)"
    using assms by (auto simp: plan_window_def split: sum.splits)
  have ok: "assert_items items current = Inr ()"
    using assms conf by (auto simp: plan_window_def split: sum.splits)
  obtain ms rs where split: "sort_key (compare_items ckey) items = ms @ rs"
      "\<forall>it\<in>set ms. is_mandatory it" "\<forall>it\<in>set rs. ci_selection it = SelRanked"
    using sorted_mandatory_first by blast
  have mand: "filter (\<lambda>it. is_mandatory it \<and> ci_id it \<notin> set sp) (ms @ rs)
      = filter (\<lambda>it. ci_id it \<notin> set sp) ms"
    using split(2,3) by (auto simp: is_mandatory_def intro: filter_cong)
  define reserve where "reserve = (case out of None \<Rightarrow> int (ws_default_reserve spec) | Some r \<Rightarrow> r)"
  define available where "available = available_tokens spec reserve"
  have rest: "\<not> reserve < 0" "\<not> (case available of None \<Rightarrow> False | Some a \<Rightarrow> a < 0)"
    "\<not> (case available of None \<Rightarrow> False
        | Some a \<Rightarrow> int (sum_list (map ci_tokens (filter (\<lambda>it. ci_id it \<notin> set sp) ms))) > a)"
    "\<exists>es. plan_loop sp (available \<noteq> None) (ms @ rs) (case available of
       None \<Rightarrow> int runtime_managed_optional_estimate_budget | Some a \<Rightarrow> a) = Inr es \<and>
      plan = \<lparr>wp_entries = es, wp_reserve = nat reserve,
        wp_planned_prompt_tokens = sum_list (map spent es),
        wp_allocations = allocate sp current es\<rparr>"
    using assms conf ok
    unfolding plan_window_def Let_def reserve_def [symmetric] available_def [symmetric]
    by (simp_all only: sum.case prod.case split(1) mand split: if_splits sum.splits) auto
  then obtain es where es: "plan_loop sp (available \<noteq> None) (ms @ rs) (case available of
       None \<Rightarrow> int runtime_managed_optional_estimate_budget | Some a \<Rightarrow> a) = Inr es"
      "plan = \<lparr>wp_entries = es, wp_reserve = nat reserve,
        wp_planned_prompt_tokens = sum_list (map spent es),
        wp_allocations = allocate sp current es\<rparr>"
    by blast
  show thesis
    by (rule that [OF conf ok _ reserve_def available_def split _ es(1)])
       (use rest es(2) in \<open>auto simp: not_less\<close>)
qed

definition included_entry :: "ctx_item \<Rightarrow> plan_entry" where
  "included_entry it = \<lparr>pe_item = it, pe_decision = Included, pe_reason = included_reason it,
     pe_planned = ci_tokens it\<rparr>"

lemma spent_included [simp]: "spent (included_entry it) = ci_tokens it"
  by (simp add: spent_def included_entry_def)

lemma plan_window_shape:
  assumes "plan_window ckey spec out all current = Inr plan"
  obtains items sp ms rs es where
    "resolve_typed_conflicts ckey all = Inr (items, sp)" "assert_items items current = Inr ()"
    "mset (ms @ rs) = mset all" "\<forall>it\<in>set ms. is_mandatory it \<and> ci_id it \<notin> set sp"
    "\<forall>it\<in>set rs. ci_selection it = SelRanked"
    "wp_entries plan = map included_entry ms @ es"
    "list_all2 (\<lambda>it e. \<exists>r. entry_ok sp it r e) rs es"
    "wp_planned_prompt_tokens plan = sum_list (map ci_tokens ms) + sum_list (map spent es)"
    "wp_allocations plan = allocate sp current (wp_entries plan)"
    "\<And>w. ws_context_window spec = Some w \<Longrightarrow>
       int (sum_list (map ci_tokens ms) + sum_list (map spent es))
         \<le> (int w - int (wp_reserve plan) - int (ws_overhead spec)) * 9 div 10"
    "ws_context_window spec = None \<Longrightarrow>
       sum_list (map spent es) \<le> runtime_managed_optional_estimate_budget"
proof (rule plan_window_cases [OF assms])
  fix items sp ms rs reserve available es
  assume conf: "resolve_typed_conflicts ckey all = Inr (items, sp)"
    and ok: "assert_items items current = Inr ()"
    and res: "0 \<le> reserve" and avail: "available = available_tokens spec reserve"
    and split: "sort_key (compare_items ckey) items = ms @ rs" "\<forall>it\<in>set ms. is_mandatory it"
      "\<forall>it\<in>set rs. ci_selection it = SelRanked"
    and bound: "\<And>a. available = Some a \<Longrightarrow>
       0 \<le> a \<and> int (sum_list (map ci_tokens (filter (\<lambda>it. ci_id it \<notin> set sp) ms))) \<le> a"
    and run: "plan_loop sp (available \<noteq> None) (ms @ rs) (case available of
       None \<Rightarrow> int runtime_managed_optional_estimate_budget | Some a \<Rightarrow> a) = Inr es"
    and plan: "wp_entries plan = es" "wp_planned_prompt_tokens plan = sum_list (map spent es)"
      "wp_allocations plan = allocate sp current es" "wp_reserve plan = nat reserve"
  have ms_items: "it \<in> set items" if "it \<in> set ms" for it
    using that split(1) by (metis Un_iff set_append set_sort)
  have unsup: "\<forall>it\<in>set ms. is_mandatory it \<and> ci_id it \<notin> set sp"
  proof (intro ballI conjI notI)
    fix it assume it: "it \<in> set ms"
    then show "is_mandatory it" using split(2) by blast
    assume "ci_id it \<in> set sp"
    then obtain it' where it': "it' \<in> set items" "ci_id it' = ci_id it" "\<not> is_mandatory it'"
      using resolve_conflicts_facts(2) [OF conf] by blast
    have "distinct (map ci_id items)" using assert_items_ok [OF ok] by blast
    then have "it' = it" using it'(1,2) ms_items [OF it] by (auto simp: distinct_map dest: inj_onD)
    with it'(3) it split(2) show False by blast
  qed
  then have all_ms: "filter (\<lambda>it. ci_id it \<notin> set sp) ms = ms" by (auto simp: filter_id_conv)
  define start where "start = (case available of
       None \<Rightarrow> int runtime_managed_optional_estimate_budget | Some a \<Rightarrow> a)"
  define left where "left = (if available \<noteq> None then start - int (sum_list (map ci_tokens ms))
       else start)"
  obtain es' where es': "plan_loop sp (available \<noteq> None) rs left = Inr es'"
      "es = map included_entry ms @ es'"
    using run plan_loop_mandatory [OF unsup, of "available \<noteq> None" rs start]
    by (auto simp: start_def [symmetric] left_def included_entry_def split: sum.splits)
  have "0 \<le> left"
    using bound all_ms by (cases available) (auto simp: left_def start_def)
  then have ranked: "int (sum_list (map spent es')) \<le> left"
    using plan_loop_ranked [OF es'(1) split(3)] by blast
  have "mset (ms @ rs) = mset all"
    using resolve_conflicts_facts(1) [OF conf] split(1) by (metis mset_sort)
  moreover have "list_all2 (\<lambda>it e. \<exists>r. entry_ok sp it r e) rs es'"
    by (rule plan_loop_entries [OF es'(1)])
  moreover have "sum_list (map spent es) = sum_list (map ci_tokens ms) + sum_list (map spent es')"
    by (simp add: es'(2) comp_def)
  moreover have "int (sum_list (map ci_tokens ms) + sum_list (map spent es'))
      \<le> (int w - int (wp_reserve plan) - int (ws_overhead spec)) * 9 div 10"
    if "ws_context_window spec = Some w" for w
    using ranked that res by (simp add: left_def start_def avail available_tokens_def plan(4))
  moreover have "sum_list (map spent es') \<le> runtime_managed_optional_estimate_budget"
    if "ws_context_window spec = None"
    using ranked that by (simp add: left_def start_def avail available_tokens_def)
  ultimately show thesis
    using that [OF conf ok _ unsup split(3)] es'(2) plan by simp
qed

text \<open>The current message and one retrieved hit that has to be cut.\<close>

definition sample_message :: ctx_item where
  "sample_message =
     \<lparr>ci_id = ''m'', ci_acquisition = AqDirect, ci_selection = SelRequired, ci_rank = None,
      ci_role = UserInput, ci_trust = UserConfirmed, ci_egress_eligible = True, ci_tokens = 2,
      ci_text = Some [104, 105], ci_trimmed_from = None, ci_live = True, ci_conflict_key = None\<rparr>"

definition sample_hit :: ctx_item where
  "sample_hit =
     \<lparr>ci_id = ''h'', ci_acquisition = AqRetrieval, ci_selection = SelRanked, ci_rank = Some 1,
      ci_role = ReferenceData, ci_trust = Derived, ci_egress_eligible = True, ci_tokens = 9,
      ci_text = Some [33, 33], ci_trimmed_from = None, ci_live = True, ci_conflict_key = None\<rparr>"

definition sample_window :: window_spec where
  "sample_window = \<lparr>ws_context_window = Some 12, ws_default_reserve = 2, ws_overhead = 0\<rparr>"

lemma sample_plan:
  "\<exists>plan. plan_window (\<lambda>_. []) sample_window None [sample_hit, sample_message] ''m'' = Inr plan
     \<and> wp_planned_prompt_tokens plan = 3"
  by (simp add: plan_window_def resolve_typed_conflicts_def conflict_groups_def has_conflict_key_def
      sample_hit_def sample_message_def sample_window_def assert_items_def is_mandatory_def
      trim_both_def trim_end_def is_space_def available_tokens_def compare_items_def
      plan_item_def context_item_text_def trim_context_text_def trim_text_def
      estimate_model_tokens_def run_quarters_def other_quarters_def is_ascii_alphanumeric_def
      spent_def Let_def)

text \<open>
  C24. A successful plan fits the model window: with a published window, the planned prompt, the output
  reserve and the provider overhead together stay within it (the prompt within nine tenths of what
  the reserve and overhead leave); with an unpublished one, what is left of the prompt after the
  required and pinned items stays within the estimate budget.
\<close>

theorem plan_fits_window:
  assumes "plan_window ckey spec out all current = Inr plan"
  shows "(\<forall>w. ws_context_window spec = Some w \<longrightarrow>
            10 * wp_planned_prompt_tokens plan + 9 * (wp_reserve plan + ws_overhead spec) \<le> 9 * w) \<and>
    (ws_context_window spec = None \<longrightarrow>
       wp_planned_prompt_tokens plan
         \<le> sum_list (map ci_tokens (filter is_mandatory all)) + runtime_managed_optional_estimate_budget)"
proof (rule plan_window_shape [OF assms])
  fix items sp ms rs es
  assume perm: "mset (ms @ rs) = mset all" and ms: "\<forall>it\<in>set ms. is_mandatory it \<and> ci_id it \<notin> set sp"
    and rs: "\<forall>it\<in>set rs. ci_selection it = SelRanked"
    and planned: "wp_planned_prompt_tokens plan = sum_list (map ci_tokens ms) + sum_list (map spent es)"
    and fits: "\<And>w. ws_context_window spec = Some w \<Longrightarrow>
       int (sum_list (map ci_tokens ms) + sum_list (map spent es))
         \<le> (int w - int (wp_reserve plan) - int (ws_overhead spec)) * 9 div 10"
    and optional: "ws_context_window spec = None \<Longrightarrow>
       sum_list (map spent es) \<le> runtime_managed_optional_estimate_budget"
  have "mset (filter is_mandatory all) = mset (filter is_mandatory (ms @ rs))"
    using perm by (metis mset_filter)
  also have "filter is_mandatory (ms @ rs) = ms"
    using ms rs by (auto simp: is_mandatory_def filter_id_conv filter_empty_conv)
  finally have "sum_list (map ci_tokens (filter is_mandatory all)) = sum_list (map ci_tokens ms)"
    by (metis mset_map sum_mset_sum_list)
  moreover have "10 * wp_planned_prompt_tokens plan + 9 * (wp_reserve plan + ws_overhead spec) \<le> 9 * w"
    if "ws_context_window spec = Some w" for w
  proof -
    have div: "10 * x \<le> y" if "x \<le> y div 10" for x y :: int using that by presburger
    have "int (10 * wp_planned_prompt_tokens plan + 9 * (wp_reserve plan + ws_overhead spec))
        \<le> int (9 * w)"
      using div [OF fits [OF that]] by (simp add: planned)
    then show ?thesis by (simp only: of_nat_le_iff)
  qed
  ultimately show ?thesis using optional planned by auto
qed

lemma plan_fits_window_witness:
  "\<exists>plan. plan_window (\<lambda>_. []) sample_window None [sample_hit, sample_message] ''m'' = Inr plan
     \<and> 10 * wp_planned_prompt_tokens plan + 9 * wp_reserve plan \<le> 108"
proof -
  obtain plan where plan: "plan_window (\<lambda>_. []) sample_window None [sample_hit, sample_message] ''m''
      = Inr plan"
    using sample_plan by blast
  from plan_fits_window [OF plan] plan show ?thesis by (auto simp: sample_window_def)
qed

text \<open>
  C25. Nothing that is required or pinned is dropped, cut or blocked by a successful plan: each such item
  of the input has an entry that includes it unchanged with its own estimate. Every other item has
  exactly one entry, included, cut or blocked, and of two items in typed conflict at most one is not
  blocked.
\<close>

theorem plan_keeps_mandatory:
  assumes "plan_window ckey spec out all current = Inr plan"
  shows "(\<forall>it\<in>set all. is_mandatory it \<longrightarrow> included_entry it \<in> set (wp_entries plan)) \<and>
    mset (map (\<lambda>e. ci_id (pe_item e)) (wp_entries plan)) = mset (map ci_id all) \<and>
    distinct (map ci_id all) \<and>
    (\<forall>x\<in>set all. \<forall>y\<in>set all. has_conflict_key x \<and> ci_conflict_key x = ci_conflict_key y \<and>
       ci_id x \<noteq> ci_id y \<longrightarrow>
       (\<exists>e\<in>set (wp_entries plan). ci_id (pe_item e) \<in> {ci_id x, ci_id y} \<and> pe_decision e = Blocked))"
proof (rule plan_window_shape [OF assms])
  fix items sp ms rs es
  assume conf: "resolve_typed_conflicts ckey all = Inr (items, sp)"
    and ok: "assert_items items current = Inr ()"
    and perm: "mset (ms @ rs) = mset all" and ms: "\<forall>it\<in>set ms. is_mandatory it \<and> ci_id it \<notin> set sp"
    and rs: "\<forall>it\<in>set rs. ci_selection it = SelRanked"
    and entries: "wp_entries plan = map included_entry ms @ es"
    and es: "list_all2 (\<lambda>it e. \<exists>r. entry_ok sp it r e) rs es"
  have all_set: "set all = set ms \<union> set rs" using perm by (metis mset_eq_setD set_append)
  have ids: "map (\<lambda>e. ci_id (pe_item e)) es = map ci_id rs"
    using es by (induction rule: list_all2_induct) (auto simp: entry_ok_def)
  have all_ids: "map (\<lambda>e. ci_id (pe_item e)) (wp_entries plan) = map ci_id (ms @ rs)"
    by (simp add: entries ids included_entry_def comp_def)
  have blocked: "\<exists>e\<in>set (wp_entries plan). ci_id (pe_item e) = i \<and> pe_decision e = Blocked"
    if i: "i \<in> set sp" "i \<in> ci_id ` set all" for i
  proof -
    obtain it where it: "it \<in> set rs" "ci_id it = i" using i ms all_set by auto
    then obtain e r where "e \<in> set es" "entry_ok sp it r e"
      using list_all2_left [OF es] by blast
    then show ?thesis using it i(1) by (auto simp: entries entry_ok_def)
  qed
  have "included_entry it \<in> set (wp_entries plan)" if "it \<in> set all" "is_mandatory it" for it
    using that rs all_set by (auto simp: entries is_mandatory_def)
  moreover have "distinct (map ci_id all)"
  proof -
    have "distinct (map ci_id items)" "mset items = mset all"
      using assert_items_ok [OF ok] resolve_conflicts_facts(1) [OF conf] by auto
    then show ?thesis by (metis mset_eq_imp_distinct_iff mset_map)
  qed
  moreover have "mset (map (\<lambda>e. ci_id (pe_item e)) (wp_entries plan)) = mset (map ci_id all)"
    using perm unfolding all_ids by (metis mset_map)
  moreover have "\<exists>e\<in>set (wp_entries plan). ci_id (pe_item e) \<in> {ci_id x, ci_id y} \<and>
      pe_decision e = Blocked"
    if "x \<in> set all" "y \<in> set all" "has_conflict_key x" "ci_conflict_key x = ci_conflict_key y"
      "ci_id x \<noteq> ci_id y" for x y
    using resolve_conflicts_facts(3) [OF conf that] blocked that(1,2) by blast
  ultimately show ?thesis by blast
qed

lemma plan_keeps_mandatory_witness:
  "\<exists>plan. plan_window (\<lambda>_. []) sample_window None [sample_hit, sample_message] ''m'' = Inr plan
     \<and> included_entry sample_message \<in> set (wp_entries plan)"
proof -
  obtain plan where plan: "plan_window (\<lambda>_. []) sample_window None [sample_hit, sample_message] ''m''
      = Inr plan"
    using sample_plan by blast
  have "is_mandatory sample_message" by (simp add: is_mandatory_def sample_message_def)
  with plan_keeps_mandatory [OF plan] plan show ?thesis by auto
qed

end
