(* ===== verification/Router.thy ===== *)
theory Router
  imports Prelude "HOL-Library.Product_Lexorder" "HOL-Library.List_Lexorder"
begin

text \<open>
  The deterministic runtime router, \<open>server/src/modules/routing/router.ts\<close> with the types of
  \<open>routing/types.ts\<close>: hard filters with their reasons, scoring, ordering and the decision, and the
  merging of route hints.

  Scores are exact rationals; the code adds the same eight numbers as doubles. \<open>localeCompare\<close>
  compares the collation keys \<open>ckey\<close>, an argument. Whether a runtime key names a local CLI adapter is
  a lookup in the adapter table of another module and is an argument, \<open>local_cli\<close>.
\<close>

section \<open>Types\<close>

datatype route_risk = RLow | RMedium | RHigh | RCritical

datatype route_trust = TLow | TMedium | THigh

datatype sandbox_level = SbNone | SbDryRun | SbEphemeral | SbReadOnly | SbWorktree | SbOneShotDocker

datatype execution_mode = Live | DryRun

datatype execution_shape = Conversational | StructuredGeneration | AgenticFiles | CodeExecution

record route_hints =
  rh_preferred_runtime_keys :: "string list"
  rh_execution_shape :: "execution_shape option"
  rh_preferred_profile :: "string option"
  rh_required_capabilities :: "string list"
  rh_required_tools :: "string list"
  rh_required_sandbox :: "sandbox_level option"
  rh_execution_mode :: "execution_mode option"
  rh_minimum_trust :: "route_trust option"
  rh_latency_budget_ms :: "rat option"
  rh_cost_budget_usd :: "rat option"
  rh_sources :: "string list"

text \<open>Absent lists are empty: the code reads them with \<open>?? []\<close> or tests their length.\<close>

record route_request =
  rr_runtime_keys :: "string list"
  rr_profile_id :: "string option"
  rr_profile_is_explicit :: bool
  rr_excluded_profiles :: "string list"
  rr_fallback_profiles :: "string list"
  rr_required_capabilities :: "string list"
  rr_required_tools :: "string list"
  rr_required_sandbox :: sandbox_level
  rr_execution_mode :: execution_mode
  rr_risk :: route_risk
  rr_workspace_available :: bool
  rr_hints :: "route_hints option"

text \<open>The fields of \<open>RouteCandidate\<close> that the router reads; an absent flag is \<open>None\<close>.\<close>

record route_candidate =
  ca_profile_id :: string
  ca_runtime_key :: string
  ca_enabled :: bool
  ca_runtime_runnable :: "bool option"
  ca_installation_ready :: "bool option"
  ca_host_dispatch_permitted :: "bool option"
  ca_is_default :: bool
  ca_credential_available :: bool
  ca_capabilities :: "string list"
  ca_tools :: "string list"
  ca_minimum_sandbox :: sandbox_level
  ca_requires_file_access :: bool
  ca_requires_workspace :: bool
  ca_supports_one_shot_docker :: bool
  ca_supports_live :: bool
  ca_supports_dry_run :: bool
  ca_effective_trust :: route_trust
  ca_cost_usd :: "rat option"
  ca_latency_ms :: "rat option"
  ca_pass_rate :: "rat option"

fun trust_rank :: "route_trust \<Rightarrow> nat" where
  "trust_rank TLow = 1" | "trust_rank TMedium = 2" | "trust_rank THigh = 3"

fun sandbox_rank :: "sandbox_level \<Rightarrow> nat" where
  "sandbox_rank SbNone = 0" | "sandbox_rank SbDryRun = 1" | "sandbox_rank SbEphemeral = 2"
| "sandbox_rank SbReadOnly = 3" | "sandbox_rank SbWorktree = 4" | "sandbox_rank SbOneShotDocker = 5"

definition empty_route_hints :: route_hints where
  "empty_route_hints =
     \<lparr>rh_preferred_runtime_keys = [], rh_execution_shape = None, rh_preferred_profile = None,
      rh_required_capabilities = [], rh_required_tools = [], rh_required_sandbox = None,
      rh_execution_mode = None, rh_minimum_trust = None, rh_latency_budget_ms = None,
      rh_cost_budget_usd = None, rh_sources = []\<rparr>"

section \<open>Merging hints\<close>

text \<open>\<open>[...new Set(values)]\<close>: first occurrences, in order.\<close>

fun unique_from :: "string list \<Rightarrow> string list \<Rightarrow> string list" where
  "unique_from seen [] = []"
| "unique_from seen (x # xs) =
     (if x \<in> set seen then unique_from seen xs else x # unique_from (x # seen) xs)"

definition unique :: "string list \<Rightarrow> string list" where
  "unique xs = unique_from [] xs"

definition string_array :: "jsval \<Rightarrow> string list" where
  "string_array v =
     (case v of
        JArr xs \<Rightarrow> map js_str (filter (\<lambda>x. case x of JStr s \<Rightarrow> js_trim s \<noteq> [] | _ \<Rightarrow> False) xs)
      | _ \<Rightarrow> [])"

definition sandbox_value :: "jsval \<Rightarrow> sandbox_level option" where
  "sandbox_value v =
     (case v of
        JStr s \<Rightarrow>
          if s = ''none'' then Some SbNone else if s = ''dry_run'' then Some SbDryRun
          else if s = ''ephemeral'' then Some SbEphemeral else if s = ''read_only'' then Some SbReadOnly
          else if s = ''worktree'' then Some SbWorktree
          else if s = ''one_shot_docker'' then Some SbOneShotDocker else None
      | _ \<Rightarrow> None)"

definition execution_mode_value :: "jsval \<Rightarrow> execution_mode option" where
  "execution_mode_value v =
     (case v of JStr s \<Rightarrow> if s = ''live'' then Some Live else if s = ''dry_run'' then Some DryRun else None
      | _ \<Rightarrow> None)"

definition trust_value :: "jsval \<Rightarrow> route_trust option" where
  "trust_value v =
     (case v of JStr s \<Rightarrow> if s = ''low'' then Some TLow else if s = ''medium'' then Some TMedium
                          else if s = ''high'' then Some THigh else None
      | _ \<Rightarrow> None)"

definition execution_shape_value :: "jsval \<Rightarrow> execution_shape option" where
  "execution_shape_value v =
     (case v of
        JStr s \<Rightarrow>
          if s = ''conversational'' then Some Conversational
          else if s = ''structured_generation'' then Some StructuredGeneration
          else if s = ''agentic_files'' then Some AgenticFiles
          else if s = ''code_execution'' then Some CodeExecution else None
      | _ \<Rightarrow> None)"

text \<open>\<open>new ?? old\<close>\<close>

definition or_keep :: "'a option \<Rightarrow> 'a option \<Rightarrow> 'a option" where
  "or_keep new old = (case new of None \<Rightarrow> old | Some v \<Rightarrow> Some v)"

definition merge_hint_source :: "string \<times> jsval \<Rightarrow> route_hints \<Rightarrow> route_hints" where
  "merge_hint_source src h =
     (case src of (name, raw) \<Rightarrow>
        let value = (case as_record raw of None \<Rightarrow> [] | Some kvs \<Rightarrow> kvs)
        in \<lparr>rh_preferred_runtime_keys = unique (rh_preferred_runtime_keys h @
              string_array (get_prop value ''preferred_runtime_keys'')),
            rh_execution_shape = or_keep (execution_shape_value (get_prop value ''execution_shape''))
              (rh_execution_shape h),
            rh_preferred_profile = or_keep (string_value (get_prop value ''preferred_runtime_profile_id''))
              (rh_preferred_profile h),
            rh_required_capabilities = unique (rh_required_capabilities h @
              string_array (get_prop value ''required_capabilities'')),
            rh_required_tools = unique (rh_required_tools h @
              string_array (get_prop value ''required_tools'')),
            rh_required_sandbox = or_keep (sandbox_value (get_prop value ''required_sandbox_level''))
              (rh_required_sandbox h),
            rh_execution_mode = or_keep (execution_mode_value (get_prop value ''execution_mode''))
              (rh_execution_mode h),
            rh_minimum_trust = or_keep (trust_value (get_prop value ''minimum_trust_level''))
              (rh_minimum_trust h),
            rh_latency_budget_ms = or_keep (js_finite (get_prop value ''latency_budget_ms''))
              (rh_latency_budget_ms h),
            rh_cost_budget_usd = or_keep (js_finite (get_prop value ''cost_budget_usd''))
              (rh_cost_budget_usd h),
            rh_sources = rh_sources h @ [name]\<rparr>)"

definition merge_route_hints :: "(string \<times> jsval) list \<Rightarrow> route_hints" where
  "merge_route_hints sources = fold merge_hint_source sources empty_route_hints"

section \<open>Hard filters\<close>

definition trust_required_for_risk :: "route_risk \<Rightarrow> route_trust" where
  "trust_required_for_risk risk =
     (if risk = RCritical \<or> risk = RHigh then THigh else if risk = RMedium then TMedium else TLow)"

definition stricter_sandbox :: "sandbox_level \<Rightarrow> sandbox_level option \<Rightarrow> sandbox_level" where
  "stricter_sandbox base hint =
     (case hint of None \<Rightarrow> base
      | Some h \<Rightarrow> if sandbox_rank h > sandbox_rank base then h else base)"

definition stricter_trust :: "route_trust \<Rightarrow> route_trust option \<Rightarrow> route_trust" where
  "stricter_trust base hint =
     (case hint of None \<Rightarrow> base
      | Some h \<Rightarrow> if trust_rank h > trust_rank base then h else base)"

definition requires_persistent_workspace ::
    "route_request \<Rightarrow> sandbox_level \<Rightarrow> route_candidate \<Rightarrow> bool" where
  "requires_persistent_workspace req required_sandbox c =
     (if rr_workspace_available req then False
      else if ca_requires_workspace c then True
      else if required_sandbox = SbWorktree then True
      else rr_risk req = RHigh \<and> ca_minimum_sandbox c \<noteq> SbNone)"

definition push_if :: "bool \<Rightarrow> string \<Rightarrow> string list" where
  "push_if b reason = (if b then [reason] else [])"

definition hard_filter_reasons ::
    "(string \<Rightarrow> bool) \<Rightarrow> route_request \<Rightarrow> route_hints \<Rightarrow> route_candidate \<Rightarrow> string list" where
  "hard_filter_reasons local_cli req hints c =
     (let required_capabilities =
            unique (rr_required_capabilities req @ rh_required_capabilities hints);
          required_tools = unique (rr_required_tools req @ rh_required_tools hints);
          shape = rh_execution_shape hints;
          file_shape = (shape = Some AgenticFiles \<or> shape = Some CodeExecution);
          required_sandbox = stricter_sandbox (rr_required_sandbox req) (rh_required_sandbox hints);
          candidate_sandbox =
            (if rr_risk req = RCritical \<and> local_cli (ca_runtime_key c) then SbOneShotDocker
             else required_sandbox);
          sandbox_supported =
            (if candidate_sandbox = SbOneShotDocker then ca_supports_one_shot_docker c
             else sandbox_rank (ca_minimum_sandbox c) \<ge> sandbox_rank candidate_sandbox);
          minimum_trust =
            stricter_trust (trust_required_for_risk (rr_risk req)) (rh_minimum_trust hints);
          mode = (case rh_execution_mode hints of None \<Rightarrow> rr_execution_mode req | Some m \<Rightarrow> m)
      in push_if (\<not> ca_enabled c) ''candidate_disabled''
       @ push_if (ca_runtime_runnable c = Some False) ''runtime_not_runnable''
       @ push_if (ca_installation_ready c = Some False) ''runtime_installation_not_ready''
       @ push_if (ca_host_dispatch_permitted c = Some False) ''execution_host_not_permitted''
       @ push_if (\<not> ca_credential_available c) ''credential_unavailable''
       @ push_if (file_shape \<and> \<not> ca_requires_file_access c) ''execution_shape_incompatible''
       @ push_if (ca_profile_id c \<in> set (rr_excluded_profiles req))
           ''runtime_profile_excluded_for_retry''
       @ push_if (rr_fallback_profiles req \<noteq> [] \<and> ca_profile_id c \<notin> set (rr_fallback_profiles req))
           ''runtime_profile_not_in_fallback_chain''
       @ push_if (rr_runtime_keys req \<noteq> [] \<and> ca_runtime_key c \<notin> set (rr_runtime_keys req))
           ''runtime_not_requested''
       @ push_if (rr_profile_is_explicit req \<and> rr_profile_id req \<noteq> Some (ca_profile_id c))
           ''explicit_profile_not_selected''
       @ push_if (\<not> list_all (\<lambda>x. x \<in> set (ca_capabilities c)) required_capabilities)
           ''required_capability_missing''
       @ push_if (\<not> list_all (\<lambda>x. x \<in> set (ca_tools c)) required_tools) ''required_tool_missing''
       @ push_if (\<not> sandbox_supported) ''sandbox_requirement_not_supported''
       @ push_if (requires_persistent_workspace req required_sandbox c)
           ''workspace_or_file_access_unavailable''
       @ push_if (trust_rank (ca_effective_trust c) < trust_rank minimum_trust) ''trust_level_too_low''
       @ push_if (mode = DryRun \<and> \<not> ca_supports_dry_run c) ''dry_run_unsupported''
       @ push_if (mode = Live \<and> \<not> ca_supports_live c) ''live_execution_unsupported'')"

section \<open>Scores\<close>

definition pass_rate :: "route_candidate \<Rightarrow> rat" where
  "pass_rate c = (case ca_pass_rate c of None \<Rightarrow> 1 / 2 | Some r \<Rightarrow> r)"

text \<open>The trace in the order of its keys.\<close>

definition score_candidate :: "route_request \<Rightarrow> route_hints \<Rightarrow> route_candidate \<Rightarrow> (string \<times> rat) list" where
  "score_candidate req hints c =
     (let preferred = rr_runtime_keys req @ rh_preferred_runtime_keys hints;
          in_budget = (\<lambda>budget estimate. case (budget, estimate) of
                      (Some b, Some e) \<Rightarrow> if e \<le> b then 4 else 0 | _ \<Rightarrow> 0)
      in [(''preference'', (if ca_runtime_key c \<in> set preferred then 20 else 0)),
          (''profile_preference'',
            (if rh_preferred_profile hints = Some (ca_profile_id c)
                \<or> rr_profile_id req = Some (ca_profile_id c) then 25 else 0)),
          (''default_profile'', (if ca_is_default c then 3 else 0)),
          (''verification_pass_rate'', pass_rate c * 20),
          (''cost'', (case ca_cost_usd c of None \<Rightarrow> 0 | Some u \<Rightarrow> max (- 10) (5 - u))),
          (''latency'', (case ca_latency_ms c of None \<Rightarrow> 0 | Some t \<Rightarrow> max (- 10) (5 - t / 1000))),
          (''latency_budget'', in_budget (rh_latency_budget_ms hints) (ca_latency_ms c)),
          (''cost_budget'', in_budget (rh_cost_budget_usd hints) (ca_cost_usd c))])"

record scored_candidate =
  sc_candidate :: route_candidate
  sc_score :: rat
  sc_trace :: "(string \<times> rat) list"

definition score_of :: "route_request \<Rightarrow> route_hints \<Rightarrow> route_candidate \<Rightarrow> scored_candidate" where
  "score_of req hints c =
     (let trace = score_candidate req hints c
      in \<lparr>sc_candidate = c, sc_score = sum_list (map snd trace), sc_trace = trace\<rparr>)"

section \<open>Selection\<close>

record route_rejection =
  rj_profile_id :: string
  rj_runtime_key :: string
  rj_reasons :: "string list"

record route_decision =
  rd_selected :: "scored_candidate option"
  rd_candidates :: "scored_candidate list"
  rd_fallback_chain :: "string list"
  rd_rejected :: "route_rejection list"
  rd_hints :: route_hints

text \<open>Higher score first, then higher pass rate, then the profile id.\<close>

definition scored_key :: "(string \<Rightarrow> nat list) \<Rightarrow> scored_candidate \<Rightarrow> rat \<times> rat \<times> nat list" where
  "scored_key ckey s = (- sc_score s, - pass_rate (sc_candidate s), ckey (ca_profile_id (sc_candidate s)))"

definition select_route ::
    "(string \<Rightarrow> bool) \<Rightarrow> (string \<Rightarrow> nat list) \<Rightarrow> route_request \<Rightarrow> route_candidate list \<Rightarrow> route_decision"
where
  "select_route local_cli ckey req candidates =
     (let hints = (case rr_hints req of None \<Rightarrow> empty_route_hints | Some h \<Rightarrow> h);
          reasons = hard_filter_reasons local_cli req hints;
          rejected = filter (\<lambda>c. reasons c \<noteq> []) candidates;
          scored = sort_key (scored_key ckey)
                     (map (score_of req hints) (filter (\<lambda>c. reasons c = []) candidates))
      in \<lparr>rd_selected = (case scored of [] \<Rightarrow> None | s # _ \<Rightarrow> Some s),
          rd_candidates = scored,
          rd_fallback_chain = map (\<lambda>s. ca_profile_id (sc_candidate s)) scored,
          rd_rejected = map (\<lambda>c. \<lparr>rj_profile_id = ca_profile_id c, rj_runtime_key = ca_runtime_key c,
                                   rj_reasons = reasons c\<rparr>) rejected,
          rd_hints = hints\<rparr>)"

definition candidate_for_persisted_decision :: "route_decision \<Rightarrow> string \<Rightarrow> route_candidate option" where
  "candidate_for_persisted_decision d profile_id =
     map_option sc_candidate
       (find (\<lambda>s. ca_profile_id (sc_candidate s) = profile_id) (rd_candidates d))"

section \<open>Facts\<close>

definition effective_hints :: "route_request \<Rightarrow> route_hints" where
  "effective_hints req = (case rr_hints req of None \<Rightarrow> empty_route_hints | Some h \<Rightarrow> h)"

lemma trust_rank_inj: "trust_rank a = trust_rank b \<Longrightarrow> a = b"
  by (cases a; cases b) auto

lemma sandbox_rank_inj: "sandbox_rank a = sandbox_rank b \<Longrightarrow> a = b"
  by (cases a; cases b) auto

interpretation sandboxes: rank_choice sandbox_rank "\<lambda>b h. stricter_sandbox b (Some h)"
  by unfold_locales (auto simp: stricter_sandbox_def intro: sandbox_rank_inj)

interpretation trusts: rank_choice trust_rank "\<lambda>b h. stricter_trust b (Some h)"
  by unfold_locales (auto simp: stricter_trust_def intro: trust_rank_inj)

lemma set_unique_from: "set (unique_from seen xs) = set xs - set seen"
  by (induction seen xs rule: unique_from.induct) auto

lemma set_unique [simp]: "set (unique xs) = set xs"
  by (simp add: unique_def set_unique_from)

lemma distinct_unique: "distinct (unique xs)"
proof -
  have "distinct (unique_from seen xs)" for seen
    by (induction seen xs rule: unique_from.induct) (auto simp: set_unique_from)
  then show ?thesis by (simp add: unique_def)
qed

lemma push_if_Nil [simp]: "push_if b r = [] \<longleftrightarrow> \<not> b"
  by (simp add: push_if_def)

text \<open>What a candidate that passes the hard filters provides.\<close>

definition admissible :: "(string \<Rightarrow> bool) \<Rightarrow> route_request \<Rightarrow> route_hints \<Rightarrow> route_candidate \<Rightarrow> bool" where
  "admissible local_cli req hints c \<longleftrightarrow>
     ca_enabled c \<and> ca_credential_available c \<and>
     ca_runtime_runnable c \<noteq> Some False \<and> ca_installation_ready c \<noteq> Some False \<and>
     ca_host_dispatch_permitted c \<noteq> Some False \<and>
     ca_profile_id c \<notin> set (rr_excluded_profiles req) \<and>
     (rr_fallback_profiles req = [] \<or> ca_profile_id c \<in> set (rr_fallback_profiles req)) \<and>
     (rr_runtime_keys req = [] \<or> ca_runtime_key c \<in> set (rr_runtime_keys req)) \<and>
     (rr_profile_is_explicit req \<longrightarrow> rr_profile_id req = Some (ca_profile_id c)) \<and>
     set (rr_required_capabilities req) \<union> set (rh_required_capabilities hints) \<subseteq> set (ca_capabilities c) \<and>
     set (rr_required_tools req) \<union> set (rh_required_tools hints) \<subseteq> set (ca_tools c) \<and>
     (rh_execution_shape hints \<in> {Some AgenticFiles, Some CodeExecution} \<longrightarrow> ca_requires_file_access c) \<and>
     trust_rank (trust_required_for_risk (rr_risk req)) \<le> trust_rank (ca_effective_trust c) \<and>
     (\<forall>t. rh_minimum_trust hints = Some t \<longrightarrow> trust_rank t \<le> trust_rank (ca_effective_trust c)) \<and>
     (if rr_risk req = RCritical \<and> local_cli (ca_runtime_key c)
         \<or> stricter_sandbox (rr_required_sandbox req) (rh_required_sandbox hints) = SbOneShotDocker
      then ca_supports_one_shot_docker c
      else sandbox_rank (rr_required_sandbox req) \<le> sandbox_rank (ca_minimum_sandbox c) \<and>
           (\<forall>b. rh_required_sandbox hints = Some b \<longrightarrow> sandbox_rank b \<le> sandbox_rank (ca_minimum_sandbox c))) \<and>
     \<not> requires_persistent_workspace req
          (stricter_sandbox (rr_required_sandbox req) (rh_required_sandbox hints)) c \<and>
     (case rh_execution_mode hints of None \<Rightarrow> rr_execution_mode req | Some m \<Rightarrow> m)
       \<in> (if ca_supports_live c then {Live} else {}) \<union> (if ca_supports_dry_run c then {DryRun} else {})"

lemma no_reasons_iff:
  "hard_filter_reasons local_cli req hints c = [] \<longleftrightarrow> admissible local_cli req hints c"
proof -
  let ?sb = "stricter_sandbox (rr_required_sandbox req) (rh_required_sandbox hints)"
  have sandbox: "sandbox_rank ?sb \<le> sandbox_rank (ca_minimum_sandbox c) \<longleftrightarrow>
      sandbox_rank (rr_required_sandbox req) \<le> sandbox_rank (ca_minimum_sandbox c) \<and>
      (\<forall>b. rh_required_sandbox hints = Some b \<longrightarrow> sandbox_rank b \<le> sandbox_rank (ca_minimum_sandbox c))"
  proof (cases "rh_required_sandbox hints")
    case None
    then show ?thesis by (simp add: stricter_sandbox_def)
  next
    case (Some b)
    then show ?thesis by (simp add: sandboxes.pick_rank)
  qed
  have trust: "trust_rank (stricter_trust r (rh_minimum_trust hints)) \<le> n \<longleftrightarrow>
      trust_rank r \<le> n \<and> (\<forall>t. rh_minimum_trust hints = Some t \<longrightarrow> trust_rank t \<le> n)" for r n
  proof (cases "rh_minimum_trust hints")
    case None
    then show ?thesis by (simp add: stricter_trust_def)
  next
    case (Some t)
    then show ?thesis by (simp add: trusts.pick_rank)
  qed
  have mode: "(m = DryRun \<longrightarrow> ca_supports_dry_run c) \<and> (m = Live \<longrightarrow> ca_supports_live c) \<longleftrightarrow>
      m \<in> (if ca_supports_live c then {Live} else {}) \<union> (if ca_supports_dry_run c then {DryRun} else {})"
    for m by (cases m) auto
  have cand: "(if (if P then SbOneShotDocker else sb) = SbOneShotDocker then D
        else sandbox_rank (if P then SbOneShotDocker else sb) \<le> k) =
      (if P \<or> sb = SbOneShotDocker then D else sandbox_rank sb \<le> k)" for P sb D k
    by simp
  have fset: "list_all (\<lambda>x. x \<in> A) (unique (xs @ ys)) \<longleftrightarrow> set xs \<union> set ys \<subseteq> A" for xs ys and A :: "string set"
    by (auto simp: list_all_iff)
  have shape: "x \<in> {Some AgenticFiles, Some CodeExecution} \<longleftrightarrow>
      x = Some AgenticFiles \<or> x = Some CodeExecution" for x
    by simp
  show ?thesis
    unfolding hard_filter_reasons_def admissible_def Let_def mode [symmetric] sandbox trust
      append_is_Nil_conv push_if_Nil cand fset shape not_less
    by satx
qed

lemma score_of_candidate [simp]: "sc_candidate (score_of req hints c) = c"
  by (simp add: score_of_def Let_def)

lemma select_candidates:
  "set (rd_candidates (select_route local_cli ckey req cs)) =
     score_of req (effective_hints req) ` {c \<in> set cs. admissible local_cli req (effective_hints req) c}"
  by (auto simp: select_route_def Let_def effective_hints_def no_reasons_iff)

lemma selected_first:
  "rd_selected (select_route local_cli ckey req cs) =
     (case rd_candidates (select_route local_cli ckey req cs) of [] \<Rightarrow> None | s # _ \<Rightarrow> Some s)"
  by (simp add: select_route_def Let_def)

lemma select_first:
  assumes "rd_selected (select_route local_cli ckey req cs) = Some s"
    and "t \<in> set (rd_candidates (select_route local_cli ckey req cs))"
  shows "s \<in> set (rd_candidates (select_route local_cli ckey req cs)) \<and> sc_score t \<le> sc_score s"
proof -
  let ?cs = "rd_candidates (select_route local_cli ckey req cs)"
  obtain rest where cs: "?cs = s # rest"
    using assms(1) by (auto simp: select_route_def Let_def split: list.splits)
  have "sorted (map (scored_key ckey) ?cs)"
    by (simp add: select_route_def Let_def)
  then have "scored_key ckey s \<le> scored_key ckey t"
    using assms(2) cs by auto
  then have "sc_score t \<le> sc_score s" by (auto simp: scored_key_def)
  with cs show ?thesis by simp
qed

section \<open>Properties\<close>

text \<open>
  The hard filters give no reason against a candidate exactly when it provides what the request
  and the hints ask for; hints only ever add requirements to those of the request and its risk.
\<close>

theorem hard_filters_iff:
  "hard_filter_reasons local_cli req hints c = [] \<longleftrightarrow> admissible local_cli req hints c"
  by (rule no_reasons_iff)

text \<open>
  C30. The router selects an admissible candidate of the best score exactly when there is an admissible
  one, ranks all of them and no others, and gives every other candidate a rejection with a reason.
\<close>

theorem route_selection_best:
  fixes req defines "h \<equiv> effective_hints req"
  shows "(rd_selected (select_route local_cli ckey req cs) = None \<longleftrightarrow>
            (\<forall>c\<in>set cs. \<not> admissible local_cli req h c)) \<and>
    (\<forall>s. rd_selected (select_route local_cli ckey req cs) = Some s \<longrightarrow>
       sc_candidate s \<in> set cs \<and> admissible local_cli req h (sc_candidate s) \<and>
       s = score_of req h (sc_candidate s) \<and>
       (\<forall>c\<in>set cs. admissible local_cli req h c \<longrightarrow> sc_score (score_of req h c) \<le> sc_score s)) \<and>
    (\<forall>c\<in>set cs. admissible local_cli req h c \<or>
       (\<exists>r\<in>set (rd_rejected (select_route local_cli ckey req cs)).
          rj_profile_id r = ca_profile_id c \<and> rj_reasons r \<noteq> []))"
proof (intro conjI allI impI ballI)
  let ?d = "select_route local_cli ckey req cs"
  have cands: "set (rd_candidates ?d) = score_of req h ` {c \<in> set cs. admissible local_cli req h c}"
    using select_candidates by (simp add: h_def)
  have "rd_selected ?d = None \<longleftrightarrow> set (rd_candidates ?d) = {}"
    unfolding selected_first by (cases "rd_candidates ?d") simp_all
  then show "rd_selected ?d = None \<longleftrightarrow> (\<forall>c\<in>set cs. \<not> admissible local_cli req h c)"
    by (auto simp: cands)
next
  let ?d = "select_route local_cli ckey req cs"
  have cands: "set (rd_candidates ?d) = score_of req h ` {c \<in> set cs. admissible local_cli req h c}"
    using select_candidates by (simp add: h_def)
  fix s assume s: "rd_selected ?d = Some s"
  then have "s \<in> set (rd_candidates ?d)"
    unfolding selected_first by (cases "rd_candidates ?d") simp_all
  then obtain c where c: "c \<in> set cs" "admissible local_cli req h c" "s = score_of req h c"
    by (auto simp: cands)
  show "sc_candidate s \<in> set cs" "admissible local_cli req h (sc_candidate s)"
    "s = score_of req h (sc_candidate s)"
    using c by simp_all
  fix c assume "c \<in> set cs" "admissible local_cli req h c"
  then have "score_of req h c \<in> set (rd_candidates ?d)" by (auto simp: cands)
  then show "sc_score (score_of req h c) \<le> sc_score s" using select_first [OF s] by blast
next
  fix c assume "c \<in> set cs"
  then show "admissible local_cli req h c \<or>
      (\<exists>r\<in>set (rd_rejected (select_route local_cli ckey req cs)).
         rj_profile_id r = ca_profile_id c \<and> rj_reasons r \<noteq> [])"
    by (auto simp: select_route_def Let_def h_def effective_hints_def no_reasons_iff [symmetric])
qed

definition sample_candidate :: "string \<Rightarrow> route_trust \<Rightarrow> route_candidate" where
  "sample_candidate i t =
     \<lparr>ca_profile_id = i, ca_runtime_key = ''claude_code'', ca_enabled = True,
      ca_runtime_runnable = None, ca_installation_ready = Some True,
      ca_host_dispatch_permitted = None, ca_is_default = True, ca_credential_available = True,
      ca_capabilities = [], ca_tools = [], ca_minimum_sandbox = SbWorktree,
      ca_requires_file_access = True, ca_requires_workspace = False,
      ca_supports_one_shot_docker = False, ca_supports_live = True, ca_supports_dry_run = False,
      ca_effective_trust = t, ca_cost_usd = None, ca_latency_ms = None, ca_pass_rate = None\<rparr>"

definition sample_route_request :: route_request where
  "sample_route_request =
     \<lparr>rr_runtime_keys = [], rr_profile_id = None, rr_profile_is_explicit = False,
      rr_excluded_profiles = [], rr_fallback_profiles = [], rr_required_capabilities = [],
      rr_required_tools = [], rr_required_sandbox = SbEphemeral, rr_execution_mode = Live,
      rr_risk = RMedium, rr_workspace_available = True, rr_hints = None\<rparr>"

lemma route_selection_best_witness:
  "\<exists>s. rd_selected (select_route (\<lambda>_. True) (\<lambda>_. []) sample_route_request
     [sample_candidate ''a'' TLow, sample_candidate ''b'' THigh]) = Some s \<and>
     trust_rank TMedium \<le> trust_rank (ca_effective_trust (sc_candidate s))"
proof -
  let ?cs = "[sample_candidate ''a'' TLow, sample_candidate ''b'' THigh]"
  let ?d = "select_route (\<lambda>_. True) (\<lambda>_. []) sample_route_request ?cs"
  have b: "admissible (\<lambda>_. True) sample_route_request (effective_hints sample_route_request)
      (sample_candidate ''b'' THigh)"
    by (simp add: admissible_def sample_route_request_def effective_hints_def empty_route_hints_def
        sample_candidate_def trust_required_for_risk_def stricter_sandbox_def
        requires_persistent_workspace_def)
  then have "rd_selected ?d \<noteq> None"
    using route_selection_best [of "\<lambda>_. True" "\<lambda>_. []" sample_route_request ?cs] by simp
  then obtain s where s: "rd_selected ?d = Some s" by blast
  then have "admissible (\<lambda>_. True) sample_route_request (effective_hints sample_route_request)
      (sc_candidate s)"
    using route_selection_best [of "\<lambda>_. True" "\<lambda>_. []" sample_route_request ?cs] by blast
  then have "trust_rank TMedium \<le> trust_rank (ca_effective_trust (sc_candidate s))"
    by (simp add: admissible_def sample_route_request_def trust_required_for_risk_def)
  with s show ?thesis by blast
qed

lemma merge_hint_source_required:
  "set (rh_required_capabilities h) \<subseteq> set (rh_required_capabilities (merge_hint_source src h))"
  "set (rh_required_tools h) \<subseteq> set (rh_required_tools (merge_hint_source src h))"
  by (auto simp: merge_hint_source_def Let_def split: prod.split)

lemma merge_fold_required:
  "set (rh_required_capabilities h) \<subseteq> set (rh_required_capabilities (fold merge_hint_source srcs h)) \<and>
   set (rh_required_tools h) \<subseteq> set (rh_required_tools (fold merge_hint_source srcs h))"
proof (induction srcs arbitrary: h)
  case Nil
  then show ?case by simp
next
  case (Cons src srcs)
  then show ?case
    using merge_hint_source_required [of h src] by (metis (no_types) fold_simps(2) subset_trans)
qed

text \<open>
  Merging hints never loses a requirement: every capability and tool that a source asks for is in
  the merged hints, so a candidate admitted under them has all of them.
\<close>

theorem merged_hints_require:
  assumes "(name, JObj kvs) \<in> set sources"
  shows "set (string_array (get_prop kvs ''required_capabilities''))
           \<subseteq> set (rh_required_capabilities (merge_route_hints sources)) \<and>
         set (string_array (get_prop kvs ''required_tools''))
           \<subseteq> set (rh_required_tools (merge_route_hints sources))"
proof -
  obtain us vs where sources: "sources = us @ (name, JObj kvs) # vs"
    using assms by (metis split_list)
  let ?h = "merge_hint_source (name, JObj kvs) (fold merge_hint_source us empty_route_hints)"
  have "set (string_array (get_prop kvs ''required_capabilities'')) \<subseteq> set (rh_required_capabilities ?h)"
    "set (string_array (get_prop kvs ''required_tools'')) \<subseteq> set (rh_required_tools ?h)"
    by (auto simp: merge_hint_source_def as_record_def Let_def)
  then show ?thesis
    using merge_fold_required [of ?h vs] by (auto simp: merge_route_hints_def sources)
qed

lemma merged_hints_require_witness:
  "''git'' \<in> set (rh_required_tools (merge_route_hints
     [(''plan'', JObj [(''required_tools'', JArr [JStr ''git''])]), (''task'', JObj [])]))"
proof -
  have "''git'' \<in> set (string_array (get_prop [(''required_tools'', JArr [JStr ''git''])] ''required_tools''))"
    by (simp add: string_array_def js_trim_def js_space_def)
  moreover have "(''plan'', JObj [(''required_tools'', JArr [JStr ''git''])]) \<in> set
      [(''plan'', JObj [(''required_tools'', JArr [JStr ''git''])]), (''task'', JObj [])]"
    by simp
  ultimately show ?thesis using merged_hints_require by blast
qed

end
