(* ===== verification/WorkflowGraph.thy ===== *)
theory WorkflowGraph
  imports Prelude
begin

text \<open>
  The workflow definitions of \<open>packages/protocol/src/workflows.ts\<close>: nodes, input bindings, and the
  checks \<open>superRefine\<close> adds to the shapes, the depth-first search for dependency cycles among them.
  The shapes themselves are the types; the bounds on the number of nodes are an issue like the
  others. The search is defined with fuel and shown never to run out of it.
\<close>

section \<open>Data\<close>

datatype binding_source = OutputText | OutputJson | ArtifactOutput

record input_binding =
  ib_name :: string
  ib_from_node :: string
  ib_source :: binding_source
  ib_json_pointer :: "string option"
  ib_artifact_type :: "string option"
  ib_required :: bool

record workflow_node =
  wn_id :: string
  wn_title :: string
  wn_depends_on :: "string list"
  wn_input_bindings :: "input_binding list"
  wn_capability_id :: "string option"
  wn_prompt_asset_key :: "string option"
  wn_agent_id :: "string option"
  wn_runtime_profile_id :: "string option"
  wn_verification_refs :: "string list"
  wn_approval_required :: bool
  wn_proposal_type :: "string option"
  wn_contract :: jsobj
  wn_metadata :: jsobj
  wn_extra :: jsobj

record workflow_definition =
  wd_workflow_id :: string
  wd_name :: string
  wd_nodes :: "workflow_node list"
  wd_metadata :: jsobj

datatype workflow_issue =
    NodeCountOutOfRange
  | DuplicateNodeId string
  | UnknownDependency string string
  | BindingNotDependency string string
  | DuplicateBinding string string
  | DependencyCycle string
  | BindingNeedsPointer string
  | BindingPointerNotAllowed string
  | BindingNeedsArtifactType string
  | BindingArtifactTypeNotAllowed string

section \<open>Checks of a binding and of the nodes\<close>

definition when_issue :: "bool \<Rightarrow> workflow_issue \<Rightarrow> workflow_issue list" where
  "when_issue c i = (if c then [i] else [])"

lemma when_issue_empty [simp]: "when_issue c i = [] \<longleftrightarrow> \<not> c"
  by (simp add: when_issue_def)

definition absent :: "string option \<Rightarrow> bool" where
  "absent v \<longleftrightarrow> v = None \<or> v = Some []"

definition binding_issues :: "input_binding \<Rightarrow> workflow_issue list" where
  "binding_issues b =
     when_issue (ib_source b = OutputJson \<and> absent (ib_json_pointer b)) (BindingNeedsPointer (ib_name b)) @
     when_issue (ib_source b \<noteq> OutputJson \<and> ib_json_pointer b \<noteq> None)
       (BindingPointerNotAllowed (ib_name b)) @
     when_issue (ib_source b = ArtifactOutput \<and> absent (ib_artifact_type b))
       (BindingNeedsArtifactType (ib_name b)) @
     when_issue (ib_source b \<noteq> ArtifactOutput \<and> ib_artifact_type b \<noteq> None)
       (BindingArtifactTypeNotAllowed (ib_name b))"

fun duplicate_issues :: "string set \<Rightarrow> workflow_node list \<Rightarrow> workflow_issue list" where
  "duplicate_issues ids [] = []"
| "duplicate_issues ids (n # ns) =
     when_issue (wn_id n \<in> ids) (DuplicateNodeId (wn_id n)) @ duplicate_issues (insert (wn_id n) ids) ns"

definition dependency_issues :: "string set \<Rightarrow> workflow_node \<Rightarrow> workflow_issue list" where
  "dependency_issues ids n =
     concat (map (\<lambda>d. when_issue (d = wn_id n \<or> d \<notin> ids) (UnknownDependency (wn_id n) d)) (wn_depends_on n))"

fun node_binding_issues :: "workflow_node \<Rightarrow> string set \<Rightarrow> input_binding list \<Rightarrow> workflow_issue list" where
  "node_binding_issues n names [] = []"
| "node_binding_issues n names (b # bs) =
     when_issue (ib_from_node b \<notin> set (wn_depends_on n)) (BindingNotDependency (wn_id n) (ib_name b)) @
     when_issue (ib_name b \<in> names) (DuplicateBinding (wn_id n) (ib_name b)) @
     node_binding_issues n (insert (ib_name b) names) bs"

section \<open>The search for cycles\<close>

text \<open>Calling a function that may fail on every element of a list, left to right.\<close>

fun each_map :: "('a \<Rightarrow> 's \<Rightarrow> 'e + 'b \<times> 's) \<Rightarrow> 'a list \<Rightarrow> 's \<Rightarrow> 'e + 'b list \<times> 's" where
  "each_map f [] s = Inr ([], s)"
| "each_map f (x # xs) s =
     (case f x s of
        Inl e \<Rightarrow> Inl e
      | Inr (b, s') \<Rightarrow> (case each_map f xs s' of Inl e \<Rightarrow> Inl e | Inr (bs, s'') \<Rightarrow> Inr (b # bs, s'')))"

text \<open>\<open>byId\<close>: a \<open>Map\<close> built from the nodes keeps the last node of an id.\<close>

definition by_id :: "workflow_node list \<Rightarrow> string \<Rightarrow> workflow_node option" where
  "by_id nodes = map_of (rev (map (\<lambda>n. (wn_id n, n)) nodes))"

definition deps_of :: "workflow_node list \<Rightarrow> string \<Rightarrow> string list" where
  "deps_of nodes i = (case by_id nodes i of None \<Rightarrow> [] | Some n \<Rightarrow> wn_depends_on n)"

record visit_state =
  vs_visiting :: "string set"
  vs_visited :: "string set"
  vs_issues :: "workflow_issue list"

datatype fuel_error = OutOfFuel

primrec visit :: "nat \<Rightarrow> workflow_node list \<Rightarrow> string \<Rightarrow> visit_state \<Rightarrow> fuel_error + unit \<times> visit_state"
where
  "visit 0 nodes i s = Inl OutOfFuel"
| "visit (Suc fuel) nodes i s =
     (if i \<in> vs_visited s then Inr ((), s)
      else if i \<in> vs_visiting s then Inr ((), s\<lparr>vs_issues := vs_issues s @ [DependencyCycle i]\<rparr>)
      else (case each_map (visit fuel nodes) (deps_of nodes i)
                   (s\<lparr>vs_visiting := insert i (vs_visiting s)\<rparr>) of
              Inl e \<Rightarrow> Inl e
            | Inr (_, t) \<Rightarrow> Inr ((), t\<lparr>vs_visiting := vs_visiting t - {i},
                                     vs_visited := insert i (vs_visited t)\<rparr>)))"

definition cycle_issues :: "workflow_node list \<Rightarrow> fuel_error + workflow_issue list" where
  "cycle_issues nodes =
     (case each_map (visit (length nodes + 1) nodes) (map wn_id nodes)
             \<lparr>vs_visiting = {}, vs_visited = {}, vs_issues = []\<rparr> of
        Inl e \<Rightarrow> Inl e
      | Inr (_, s) \<Rightarrow> Inr (vs_issues s))"

text \<open>All the issues of a definition.\<close>

definition static_issues :: "workflow_definition \<Rightarrow> workflow_issue list" where
  "static_issues wd =
     (let nodes = wd_nodes wd; ids = set (map wn_id nodes)
      in when_issue (nodes = [] \<or> 30 < length nodes) NodeCountOutOfRange @
         concat (map (\<lambda>n. concat (map binding_issues (wn_input_bindings n))) nodes) @
         duplicate_issues {} nodes @
         concat (map (\<lambda>n. dependency_issues ids n @ node_binding_issues n {} (wn_input_bindings n)) nodes))"

definition workflow_issues :: "workflow_definition \<Rightarrow> fuel_error + workflow_issue list" where
  "workflow_issues wd =
     (case cycle_issues (wd_nodes wd) of Inl e \<Rightarrow> Inl e | Inr cs \<Rightarrow> Inr (static_issues wd @ cs))"

section \<open>The dependency relation\<close>

definition dep_rel :: "workflow_node list \<Rightarrow> (string \<times> string) set" where
  "dep_rel nodes = {(a, b). b \<in> set (deps_of nodes a)}"

definition node_ids :: "workflow_node list \<Rightarrow> string set" where
  "node_ids nodes = set (map wn_id nodes)"

text \<open>Ids all of whose dependency chains end.\<close>

inductive grounded :: "workflow_node list \<Rightarrow> string \<Rightarrow> bool" for nodes :: "workflow_node list" where
  ground: "(\<And>d. d \<in> set (deps_of nodes a) \<Longrightarrow> grounded nodes d) \<Longrightarrow> grounded nodes a"

inductive_cases groundedE: "grounded nodes a"

lemma each_map_rule:
  assumes step: "\<And>x s. x \<in> set xs \<Longrightarrow> P s \<Longrightarrow>
      \<exists>b s'. f x s = Inr (b, s') \<and> P s' \<and> R s s' \<and> Q x b s'"
    and refl: "\<And>s. R s s" and trans: "\<And>s t u. R s t \<Longrightarrow> R t u \<Longrightarrow> R s u"
    and stable: "\<And>x b s t. Q x b s \<Longrightarrow> R s t \<Longrightarrow> Q x b t" and P: "P s"
  shows "\<exists>bs s'. each_map f xs s = Inr (bs, s') \<and> P s' \<and> R s s' \<and> list_all2 (\<lambda>x b. Q x b s') xs bs"
  using step P
proof (induction xs arbitrary: s)
  case Nil
  then show ?case by (simp add: refl)
next
  case (Cons x xs)
  obtain b t where t: "f x s = Inr (b, t)" "P t" "R s t" "Q x b t"
    using Cons.prems(1) [of x s] Cons.prems(2) by auto
  obtain bs u where u: "each_map f xs t = Inr (bs, u)" "P u" "R t u" "list_all2 (\<lambda>x b. Q x b u) xs bs"
    using Cons.IH [of t] Cons.prems(1) t(2) by (metis list.set_intros(2))
  have "R s u" using t(3) u(3) by (rule trans)
  moreover have "Q x b u" using t(4) u(3) by (rule stable)
  ultimately show ?case using t u by auto
qed

lemma deps_of_unknown: "i \<notin> node_ids nodes \<Longrightarrow> deps_of nodes i = []"
proof -
  assume "i \<notin> node_ids nodes"
  then have "map_of (rev (map (\<lambda>n. (wn_id n, n)) nodes)) i = None"
    by (auto simp: map_of_eq_None_iff node_ids_def)
  then show ?thesis by (simp add: deps_of_def by_id_def)
qed

lemma grounded_acyclic: "grounded nodes a \<Longrightarrow> (a, a) \<notin> (dep_rel nodes)\<^sup>+"
proof (induction rule: grounded.induct)
  case (ground a)
  show ?case
  proof
    assume "(a, a) \<in> (dep_rel nodes)\<^sup>+"
    then obtain d where d: "(a, d) \<in> dep_rel nodes" "(d, a) \<in> (dep_rel nodes)\<^sup>*"
      by (meson tranclD)
    then have "(d, d) \<in> (dep_rel nodes)\<^sup>+" by (meson rtrancl_into_trancl1)
    with d(1) ground.IH show False by (simp add: dep_rel_def)
  qed
qed

lemma cycle_at_node: "(x, x) \<in> (dep_rel nodes)\<^sup>+ \<Longrightarrow> x \<in> node_ids nodes"
  by (metis deps_of_unknown dep_rel_def empty_iff list.set(1) mem_Collect_eq old.prod.case tranclD)

definition fuel_left :: "workflow_node list \<Rightarrow> string set \<Rightarrow> nat" where
  "fuel_left nodes V = card (node_ids nodes - V)"

lemma fuel_left_insert:
  "i \<in> node_ids nodes \<Longrightarrow> i \<notin> V \<Longrightarrow> Suc (fuel_left nodes (insert i V)) = fuel_left nodes V"
  unfolding fuel_left_def node_ids_def by (subst Diff_insert) (rule card_Suc_Diff1, simp_all)

lemma fuel_left_start: "fuel_left nodes {} \<le> length nodes"
  unfolding fuel_left_def node_ids_def by (metis Diff_empty card_length length_map)

definition visit_inv :: "workflow_node list \<Rightarrow> string set \<Rightarrow> visit_state \<Rightarrow> bool" where
  "visit_inv nodes V s \<longleftrightarrow>
     vs_visiting s = V \<and>
     (vs_issues s = [] \<longrightarrow> (\<forall>i\<in>vs_visited s. grounded nodes i)) \<and>
     (vs_issues s \<noteq> [] \<longrightarrow> (\<exists>x. (x, x) \<in> (dep_rel nodes)\<^sup>+))"

lemma visit_ok:
  assumes "fuel_left nodes V < fuel" and "visit_inv nodes V s"
    and "\<forall>v\<in>V. (v, i) \<in> (dep_rel nodes)\<^sup>+"
  shows "\<exists>b s'. visit fuel nodes i s = Inr (b, s') \<and> visit_inv nodes V s' \<and>
    (vs_issues s' = [] \<longrightarrow> vs_issues s = []) \<and> (vs_issues s' = [] \<longrightarrow> grounded nodes i)"
  using assms
proof (induction fuel arbitrary: V s i)
  case 0
  then show ?case by simp
next
  case (Suc fuel)
  show ?case
  proof (cases "i \<in> vs_visited s \<or> i \<in> V")
    case True
    with Suc.prems show ?thesis by (auto simp: visit_inv_def)
  next
    case False
    let ?s1 = "s\<lparr>vs_visiting := insert i V\<rparr>"
    let ?P = "visit_inv nodes (insert i V)"
    let ?R = "\<lambda>s t. vs_issues t = [] \<longrightarrow> vs_issues s = []"
    let ?Q = "\<lambda>d (b::unit) t. vs_issues t = [] \<longrightarrow> grounded nodes d"
    have "\<exists>bs t. each_map (visit fuel nodes) (deps_of nodes i) ?s1 = Inr (bs, t) \<and>
        ?P t \<and> ?R ?s1 t \<and> list_all2 (\<lambda>d b. ?Q d b t) (deps_of nodes i) bs"
    proof (rule each_map_rule)
      fix d u
      assume d: "d \<in> set (deps_of nodes i)" and u: "visit_inv nodes (insert i V) u"
      have "i \<in> node_ids nodes" using d deps_of_unknown by fastforce
      then have "fuel_left nodes (insert i V) < fuel"
        using fuel_left_insert [of i nodes V] False Suc.prems(1) by simp
      moreover have "(i, d) \<in> (dep_rel nodes)\<^sup>+" using d by (auto simp: dep_rel_def)
      then have "\<forall>v\<in>insert i V. (v, d) \<in> (dep_rel nodes)\<^sup>+"
        using Suc.prems(3) trancl_trans [of _ i "dep_rel nodes" d] by blast
      ultimately show "\<exists>b t. visit fuel nodes d u = Inr (b, t) \<and> ?P t \<and> ?R u t \<and> ?Q d b t"
        using Suc.IH u by blast
    next
      show "?P ?s1" using Suc.prems(2) by (simp add: visit_inv_def)
    qed auto
    then obtain bs t where t: "each_map (visit fuel nodes) (deps_of nodes i) ?s1 = Inr (bs, t)" "?P t" "?R ?s1 t"
      "list_all2 (\<lambda>d b. ?Q d b t) (deps_of nodes i) bs" by blast
    have g: "grounded nodes i" if "vs_issues t = []"
    proof (rule ground)
      fix d assume "d \<in> set (deps_of nodes i)"
      from list_all2_left [OF t(4) this] that show "grounded nodes d" by simp
    qed
    have "vs_visiting s = V" using Suc.prems(2) by (simp add: visit_inv_def)
    with False t(1) have "visit (Suc fuel) nodes i s =
        Inr ((), t\<lparr>vs_visiting := vs_visiting t - {i}, vs_visited := insert i (vs_visited t)\<rparr>)"
      by simp
    moreover have "visit_inv nodes V (t\<lparr>vs_visiting := vs_visiting t - {i}, vs_visited := insert i (vs_visited t)\<rparr>)"
    proof -
      have "vs_visiting t - {i} = V" using t(2) False by (simp add: visit_inv_def)
      moreover have "\<forall>j\<in>insert i (vs_visited t). grounded nodes j" if "vs_issues t = []"
        using t(2) g [OF that] that by (simp add: visit_inv_def)
      moreover have "\<exists>x. (x, x) \<in> (dep_rel nodes)\<^sup>+" if "vs_issues t \<noteq> []"
        using t(2) that by (simp add: visit_inv_def)
      ultimately show ?thesis by (simp add: visit_inv_def)
    qed
    ultimately show ?thesis using t(3) g by simp
  qed
qed

lemma cycle_issues_total:
  "\<exists>is. cycle_issues nodes = Inr is \<and> (is = [] \<longleftrightarrow> acyclic (dep_rel nodes))"
proof -
  let ?s = "\<lparr>vs_visiting = {}, vs_visited = {}, vs_issues = []\<rparr>"
  have "\<exists>bs t. each_map (visit (length nodes + 1) nodes) (map wn_id nodes) ?s = Inr (bs, t) \<and>
      visit_inv nodes {} t \<and> (vs_issues t = [] \<longrightarrow> vs_issues ?s = []) \<and>
      list_all2 (\<lambda>d b. vs_issues t = [] \<longrightarrow> grounded nodes d) (map wn_id nodes) bs"
  proof (rule each_map_rule)
    fix d u
    assume "visit_inv nodes {} u"
    then show "\<exists>b t. visit (length nodes + 1) nodes d u = Inr (b, t) \<and> visit_inv nodes {} t \<and>
        (vs_issues t = [] \<longrightarrow> vs_issues u = []) \<and> (vs_issues t = [] \<longrightarrow> grounded nodes d)"
      using fuel_left_start [of nodes] by (intro visit_ok) auto
  qed (auto simp: visit_inv_def)
  then obtain bs t where t: "each_map (visit (length nodes + 1) nodes) (map wn_id nodes) ?s = Inr (bs, t)"
    "visit_inv nodes {} t"
    "list_all2 (\<lambda>d b. vs_issues t = [] \<longrightarrow> grounded nodes d) (map wn_id nodes) bs" by blast
  have "acyclic (dep_rel nodes)" if "vs_issues t = []"
  proof -
    have "\<forall>x\<in>node_ids nodes. grounded nodes x"
      using list_all2_left [OF t(3)] that by (simp add: node_ids_def)
    then show ?thesis unfolding acyclic_def using grounded_acyclic cycle_at_node by blast
  qed
  moreover have "\<not> acyclic (dep_rel nodes)" if "vs_issues t \<noteq> []"
    using t(2) that by (auto simp: visit_inv_def acyclic_def)
  moreover have "cycle_issues nodes = Inr (vs_issues t)" unfolding cycle_issues_def t(1) by simp
  ultimately show ?thesis by blast
qed

section \<open>What the checks establish\<close>

lemma duplicate_issues_iff:
  "duplicate_issues ids nodes = [] \<longleftrightarrow>
     distinct (map wn_id nodes) \<and> ids \<inter> set (map wn_id nodes) = {}"
  by (induction nodes arbitrary: ids) auto

lemma dependency_issues_iff:
  "dependency_issues ids n = [] \<longleftrightarrow> set (wn_depends_on n) \<subseteq> ids - {wn_id n}"
  by (auto simp: dependency_issues_def)

lemma node_binding_issues_iff:
  "node_binding_issues n names bs = [] \<longleftrightarrow>
     ib_from_node ` set bs \<subseteq> set (wn_depends_on n) \<and> distinct (map ib_name bs) \<and>
     names \<inter> ib_name ` set bs = {}"
  by (induction bs arbitrary: names) auto

lemma binding_issues_iff:
  "binding_issues b = [] \<longleftrightarrow>
     (ib_source b = OutputJson \<longleftrightarrow> ib_json_pointer b \<noteq> None) \<and>
     (ib_source b = ArtifactOutput \<longleftrightarrow> ib_artifact_type b \<noteq> None) \<and>
     ib_json_pointer b \<noteq> Some [] \<and> ib_artifact_type b \<noteq> Some []"
  by (cases "ib_source b") (auto simp: binding_issues_def absent_def)

text \<open>A definition the execution can rely on.\<close>

definition node_ok :: "workflow_node list \<Rightarrow> workflow_node \<Rightarrow> bool" where
  "node_ok nodes n \<longleftrightarrow>
     set (wn_depends_on n) \<subseteq> node_ids nodes - {wn_id n} \<and>
     ib_from_node ` set (wn_input_bindings n) \<subseteq> set (wn_depends_on n) \<and>
     distinct (map ib_name (wn_input_bindings n)) \<and>
     (\<forall>b\<in>set (wn_input_bindings n).
        (ib_source b = OutputJson \<longleftrightarrow> ib_json_pointer b \<noteq> None) \<and>
        (ib_source b = ArtifactOutput \<longleftrightarrow> ib_artifact_type b \<noteq> None) \<and>
        ib_json_pointer b \<noteq> Some [] \<and> ib_artifact_type b \<noteq> Some [])"

definition workflow_ok :: "workflow_definition \<Rightarrow> bool" where
  "workflow_ok wd \<longleftrightarrow>
     wd_nodes wd \<noteq> [] \<and> length (wd_nodes wd) \<le> 30 \<and>
     distinct (map wn_id (wd_nodes wd)) \<and>
     (\<forall>n\<in>set (wd_nodes wd). node_ok (wd_nodes wd) n) \<and>
     acyclic (dep_rel (wd_nodes wd))"

lemma static_issues_iff:
  "static_issues wd = [] \<longleftrightarrow>
     wd_nodes wd \<noteq> [] \<and> length (wd_nodes wd) \<le> 30 \<and> distinct (map wn_id (wd_nodes wd)) \<and>
     (\<forall>n\<in>set (wd_nodes wd). node_ok (wd_nodes wd) n)"
  unfolding static_issues_def Let_def node_ok_def node_ids_def
  by (simp add: duplicate_issues_iff dependency_issues_iff node_binding_issues_iff binding_issues_iff
      concat_eq_Nil_conv ball_conj_distrib conj_ac not_less)

text \<open>
  C28. Validation of a workflow definition always ends, and it reports no issue exactly when the
  definition has one to thirty nodes with distinct ids, every dependency is another node, every input
  binding reads a direct dependency under its own name with the fields of its source, and the
  dependencies have no cycle.
\<close>

theorem workflow_valid_iff:
  "\<exists>issues. workflow_issues wd = Inr issues \<and> (issues = [] \<longleftrightarrow> workflow_ok wd)"
  using cycle_issues_total [of "wd_nodes wd"] static_issues_iff [of wd]
  by (auto simp: workflow_issues_def workflow_ok_def)

end
