(* ===== verification/RunBudget.thy ===== *)
theory RunBudget
  imports PolicyDecisions
begin

text \<open>
  Budgets of a run contract, \<open>server/src/modules/runs/contractSnapshot.ts\<close>: reading budget sources,
  the legacy flat fields as one more source, the resolution per dimension, the stricter of two risk
  levels, and the workspace access of a contract. The remaining fields of the snapshot are copied
  and are left out.
\<close>

section \<open>Sources\<close>

datatype budget_dimension = MaxRuns | MaxAttempts | MaxCost | MaxDurationSeconds

definition budget_dimensions :: "budget_dimension list" where
  "budget_dimensions = [MaxRuns, MaxAttempts, MaxCost, MaxDurationSeconds]"

record budget_source =
  bs_kind :: string
  bs_id :: jsval
  bs_precedence :: "rat option"
  bs_max_runs :: "rat option"
  bs_max_attempts :: "rat option"
  bs_max_cost :: "rat option"
  bs_max_duration :: "rat option"

fun bs_cap :: "budget_source \<Rightarrow> budget_dimension \<Rightarrow> rat option" where
  "bs_cap b MaxRuns = bs_max_runs b"
| "bs_cap b MaxAttempts = bs_max_attempts b"
| "bs_cap b MaxCost = bs_max_cost b"
| "bs_cap b MaxDurationSeconds = bs_max_duration b"

text \<open>\<open>RunContractSourceKindSchema\<close> without \<open>agent_version\<close>.\<close>

definition source_kinds :: "string list" where
  "source_kinds =
     [''direct'', ''space'', ''task'', ''automation'', ''workflow'', ''delegation'', ''plan'']"

definition is_source_kind :: "jsval \<Rightarrow> bool" where
  "is_source_kind v \<longleftrightarrow> (case v of JStr s \<Rightarrow> s \<in> set source_kinds | _ \<Rightarrow> False)"

definition finite_number_or_null :: "jsval \<Rightarrow> rat option" where
  "finite_number_or_null v = js_finite v"

definition keep_if :: "(rat \<Rightarrow> bool) \<Rightarrow> jsval \<Rightarrow> rat option" where
  "keep_if P v = (case js_finite v of None \<Rightarrow> None | Some r \<Rightarrow> if P r then Some r else None)"

definition non_negative_number_or_null :: "jsval \<Rightarrow> rat option" where
  "non_negative_number_or_null v = keep_if (\<lambda>r. 0 \<le> r) v"

definition positive_number_or_null :: "jsval \<Rightarrow> rat option" where
  "positive_number_or_null v = keep_if (\<lambda>r. 0 < r) v"

definition positive_integer_or_null :: "jsval \<Rightarrow> rat option" where
  "positive_integer_or_null v = keep_if (\<lambda>r. of_int \<lfloor>r\<rfloor> = r \<and> 0 < r) v"

text \<open>The flat fields of an object, with a precedence already read.\<close>

definition read_caps :: "string \<Rightarrow> jsval \<Rightarrow> rat option \<Rightarrow> jsobj \<Rightarrow> budget_source" where
  "read_caps kind i prec kvs =
     \<lparr>bs_kind = kind, bs_id = i, bs_precedence = prec,
      bs_max_runs = positive_integer_or_null (get_prop kvs ''max_runs''),
      bs_max_attempts = positive_integer_or_null (get_prop kvs ''max_attempts''),
      bs_max_cost = non_negative_number_or_null (get_prop kvs ''max_cost''),
      bs_max_duration = positive_number_or_null (get_prop kvs ''max_duration_seconds'')\<rparr>"

definition normalize_budget_source :: "jsval \<Rightarrow> budget_source option" where
  "normalize_budget_source input =
     (case as_record input of
        None \<Rightarrow> None
      | Some kvs \<Rightarrow>
          (let source = (case as_record (get_prop kvs ''source'') of None \<Rightarrow> [] | Some s \<Rightarrow> s)
           in if \<not> truthy (get_prop kvs ''source'') \<or> \<not> is_source_kind (get_prop source ''kind'')
              then None
              else Some (read_caps (js_str (get_prop source ''kind''))
                           (coalesce (get_prop source ''id'') JNull)
                           (map_option (\<lambda>p. max 0 (of_int \<lfloor>p\<rfloor>))
                              (finite_number_or_null (get_prop kvs ''precedence'')))
                           kvs)))"

text \<open>The sources of a contract: the flat fields first, when they say anything.\<close>

definition has_cap :: "budget_source \<Rightarrow> bool" where
  "has_cap b \<longleftrightarrow> list_ex (\<lambda>d. bs_cap b d \<noteq> None) budget_dimensions"

definition normalize_budget_sources :: "jsobj \<Rightarrow> string \<Rightarrow> jsval \<Rightarrow> budget_source list" where
  "normalize_budget_sources input kind i =
     (let explicit = (case get_prop input ''budget_sources'' of
                        JArr xs \<Rightarrow> List.map_filter normalize_budget_source xs | _ \<Rightarrow> []);
          legacy = read_caps kind (coalesce i JNull)
                     (finite_number_or_null (get_prop input ''budget_precedence'')) input
      in if explicit = [] then (if has_cap legacy then [legacy] else [])
         else if \<not> has_cap legacy then explicit
         else legacy # explicit)"

section \<open>Resolution\<close>

text \<open>\<open>reduce\<close>: a later source wins only when its cap is smaller.\<close>

definition strictest :: "budget_dimension \<Rightarrow> budget_source \<Rightarrow> budget_source list \<Rightarrow> budget_source" where
  "strictest d b bs =
     fold (\<lambda>cand cur. if the (bs_cap cand d) < the (bs_cap cur d) then cand else cur) bs b"

definition eligible_sources :: "budget_dimension \<Rightarrow> budget_source list \<Rightarrow> budget_source list" where
  "eligible_sources d sources =
     (let candidates = filter (\<lambda>b. bs_cap b d \<noteq> None) sources;
          explicit = filter (\<lambda>b. bs_precedence b \<noteq> None) candidates
      in if explicit \<noteq> []
         then filter (\<lambda>b. the (bs_precedence b) = Max (set (map (\<lambda>e. the (bs_precedence e)) explicit)))
                explicit
         else candidates)"

definition budget_winner :: "budget_dimension \<Rightarrow> budget_source list \<Rightarrow> budget_source option" where
  "budget_winner d sources =
     (case eligible_sources d sources of [] \<Rightarrow> None | b # bs \<Rightarrow> Some (strictest d b bs))"

datatype budget_mode = ExplicitPrecedence | StrictestOfAll | NoBudget

record budget_resolution =
  br_sources :: "budget_source list"
  br_effective :: "budget_dimension \<Rightarrow> rat option"
  br_mode :: budget_mode
  br_selected :: "budget_dimension \<Rightarrow> (string \<times> jsval) option"
  br_declared :: "((string \<times> jsval) \<times> rat) list"

definition resolve_budget :: "budget_source list \<Rightarrow> budget_resolution" where
  "resolve_budget sources =
     (let declared = filter (\<lambda>b. bs_precedence b \<noteq> None) sources
      in \<lparr>br_sources = sources,
          br_effective = (\<lambda>d. case budget_winner d sources of None \<Rightarrow> None | Some b \<Rightarrow> bs_cap b d),
          br_mode = (if sources = [] then NoBudget
                     else if declared \<noteq> [] then ExplicitPrecedence else StrictestOfAll),
          br_selected = (\<lambda>d. map_option (\<lambda>b. (bs_kind b, bs_id b)) (budget_winner d sources)),
          br_declared = map (\<lambda>b. ((bs_kind b, bs_id b), the (bs_precedence b))) declared\<rparr>)"

definition resolve_budget_sources :: "jsval list \<Rightarrow> budget_resolution" where
  "resolve_budget_sources sources = resolve_budget (List.map_filter normalize_budget_source sources)"

text \<open>\<open>budgetSourcesFromPolicy\<close>: the records whose source kind it lists.\<close>

definition budget_sources_from_policy :: "jsval \<Rightarrow> jsval list" where
  "budget_sources_from_policy v =
     (case v of
        JArr xs \<Rightarrow>
          filter (\<lambda>x. case as_record x of None \<Rightarrow> False
                  | Some kvs \<Rightarrow> (case as_record (get_prop kvs ''source'') of None \<Rightarrow> False
                      | Some s \<Rightarrow> js_str (get_prop s ''kind'') \<in>
                          set [''direct'', ''task'', ''automation'', ''workflow'', ''delegation'', ''plan'',
                               ''agent_version''])) xs
      | _ \<Rightarrow> [])"

section \<open>Risk and workspace access\<close>

definition stricter_risk_level :: "string option \<Rightarrow> string option \<Rightarrow> string option" where
  "stricter_risk_level left right =
     (if left = None \<or> left = Some [] then right
      else if right = None \<or> right = Some [] then left
      else case (index_of (the left) [''low'', ''medium'', ''high'', ''critical''],
                 index_of (the right) [''low'', ''medium'', ''high'', ''critical'']) of
             (Some l, Some r) \<Rightarrow> Some ([''low'', ''medium'', ''high'', ''critical''] ! max l r)
           | _ \<Rightarrow> Some ''critical'')"

text \<open>Whether a run may write its workspace.\<close>

definition contract_workspace_write :: "jsval \<Rightarrow> bool" where
  "contract_workspace_write contract \<longleftrightarrow>
     get_prop (case as_record contract of None \<Rightarrow> [] | Some kvs \<Rightarrow> kvs) ''workspace_access''
       \<noteq> JStr ''read''"

section \<open>Facts\<close>

lemma strictest_least:
  "strictest d b bs \<in> set (b # bs) \<and>
   (\<forall>x\<in>set (b # bs). the (bs_cap (strictest d b bs) d) \<le> the (bs_cap x d))"
proof (induction bs arbitrary: b)
  case Nil
  then show ?case by (simp add: strictest_def)
next
  case (Cons c bs)
  let ?n = "if the (bs_cap c d) < the (bs_cap b d) then c else b"
  have "strictest d b (c # bs) = strictest d ?n bs" by (simp add: strictest_def)
  then show ?case using Cons [of ?n] by (auto split: if_splits)
qed

lemma eligible_caps: "x \<in> set (eligible_sources d sources) \<Longrightarrow> x \<in> set sources \<and> bs_cap x d \<noteq> None"
  by (auto simp: eligible_sources_def Let_def split: if_splits)

lemma eligible_nonempty:
  assumes "b \<in> set sources" and "bs_cap b d \<noteq> None"
  shows "eligible_sources d sources \<noteq> []"
proof (cases "filter (\<lambda>b. bs_precedence b \<noteq> None) (filter (\<lambda>b. bs_cap b d \<noteq> None) sources) = []")
  case True
  then have "eligible_sources d sources = filter (\<lambda>b. bs_cap b d \<noteq> None) sources"
    by (simp only: eligible_sources_def Let_def) simp
  with assms show ?thesis by (auto simp: filter_empty_conv)
next
  case False
  let ?e = "filter (\<lambda>b. bs_precedence b \<noteq> None) (filter (\<lambda>b. bs_cap b d \<noteq> None) sources)"
  let ?m = "Max (set (map (\<lambda>e. the (bs_precedence e)) ?e))"
  have "?m \<in> set (map (\<lambda>e. the (bs_precedence e)) ?e)"
    using False by (intro Max_in [OF finite_set]) (simp only: set_empty map_is_Nil_conv not_False_eq_True)
  then obtain x where "x \<in> set ?e" "the (bs_precedence x) = ?m"
    by (metis (no_types, lifting) imageE list.set_map)
  then have "x \<in> set (filter (\<lambda>b. the (bs_precedence b) = ?m) ?e)"
    by (simp only: set_filter) simp
  moreover have "eligible_sources d sources = filter (\<lambda>b. the (bs_precedence b) = ?m) ?e"
    using False by (simp only: eligible_sources_def Let_def) simp
  ultimately show ?thesis by (metis empty_iff list.set(1))
qed

text \<open>Whether the resolution lets a source count in a dimension.\<close>

definition outranked :: "budget_dimension \<Rightarrow> budget_source list \<Rightarrow> budget_source \<Rightarrow> bool" where
  "outranked d sources b \<longleftrightarrow>
     (\<exists>c\<in>set sources. bs_cap c d \<noteq> None \<and>
        (case (bs_precedence c, bs_precedence b) of
           (Some p, Some q) \<Rightarrow> q < p | (Some p, None) \<Rightarrow> True | _ \<Rightarrow> False))"

lemma eligible_iff:
  "b \<in> set (eligible_sources d sources) \<longleftrightarrow>
     b \<in> set sources \<and> bs_cap b d \<noteq> None \<and> \<not> outranked d sources b"
proof -
  let ?e = "filter (\<lambda>b. bs_precedence b \<noteq> None) (filter (\<lambda>b. bs_cap b d \<noteq> None) sources)"
  let ?m = "Max ((\<lambda>e. the (bs_precedence e)) ` set ?e)"
  show ?thesis
  proof (cases "?e = []")
    case True
    then have "\<not> outranked d sources b"
      by (auto simp: outranked_def filter_empty_conv split: option.splits)
    with True show ?thesis by (auto simp: eligible_sources_def Let_def)
  next
    case False
    have le: "the (bs_precedence c) \<le> ?m" if "c \<in> set ?e" for c
      using that by (intro Max_ge) auto
    have "?m \<in> (\<lambda>e. the (bs_precedence e)) ` set ?e"
      using False by (intro Max_in finite_imageI finite_set) (simp only: image_is_empty set_empty not_False_eq_True)
    then obtain t where t: "t \<in> set ?e" "the (bs_precedence t) = ?m" by (elim imageE) simp
    have "outranked d sources b \<longleftrightarrow> b \<notin> set ?e \<or> the (bs_precedence b) \<noteq> ?m"
      if b: "b \<in> set sources" "bs_cap b d \<noteq> None"
    proof (cases "bs_precedence b")
      case None
      then have "outranked d sources b"
        unfolding outranked_def using t(1) None by (intro bexI [of _ t]) auto
      with None show ?thesis by simp
    next
      case (Some q)
      then have be: "b \<in> set ?e" using b by simp
      show ?thesis
      proof
        assume "outranked d sources b"
        then obtain c where c: "c \<in> set sources" "bs_cap c d \<noteq> None"
            and o: "case (bs_precedence c, bs_precedence b) of
              (Some p, Some q) \<Rightarrow> q < p | (Some p, None) \<Rightarrow> True | _ \<Rightarrow> False"
          unfolding outranked_def by blast
        obtain p where "bs_precedence c = Some p" "q < p"
          using o Some by (cases "bs_precedence c") simp_all
        with c le [of c] Some show "b \<notin> set ?e \<or> the (bs_precedence b) \<noteq> ?m" by simp
      next
        assume "b \<notin> set ?e \<or> the (bs_precedence b) \<noteq> ?m"
        then have "q \<noteq> ?m" using be Some by (metis option.sel)
        moreover have "q \<le> ?m" using le [OF be] Some by simp
        ultimately have "q < ?m" by (simp only: less_le not_False_eq_True simp_thms)
        then show "outranked d sources b"
          unfolding outranked_def using t Some by (intro bexI [of _ t]) auto
      qed
    qed
    with False show ?thesis by (auto simp: eligible_sources_def Let_def)
  qed
qed

section \<open>Properties\<close>

text \<open>
  Per dimension, the effective budget is the smallest cap among the sources that no other source
  with a cap outranks by precedence, and it is declared exactly when some source declares one: a
  source can never widen a cap set at its own precedence.
\<close>

theorem budget_strictest:
  "case br_effective (resolve_budget sources) d of
     None \<Rightarrow> (\<forall>b\<in>set sources. bs_cap b d = None)
   | Some v \<Rightarrow>
       (\<exists>b\<in>set sources. bs_cap b d = Some v \<and> \<not> outranked d sources b) \<and>
       (\<forall>b\<in>set sources. \<forall>u. bs_cap b d = Some u \<longrightarrow> \<not> outranked d sources b \<longrightarrow> v \<le> u)"
proof (cases "eligible_sources d sources")
  case Nil
  then have "\<forall>b\<in>set sources. bs_cap b d = None" using eligible_nonempty by blast
  with Nil show ?thesis by (simp add: resolve_budget_def Let_def budget_winner_def)
next
  case (Cons b bs)
  let ?w = "strictest d b bs"
  have w: "?w \<in> set (eligible_sources d sources)"
    "\<And>x. x \<in> set (eligible_sources d sources) \<Longrightarrow> the (bs_cap ?w d) \<le> the (bs_cap x d)"
    unfolding Cons using strictest_least [of d b bs] by blast+
  then obtain v where v: "bs_cap ?w d = Some v" using eligible_caps by blast
  have "br_effective (resolve_budget sources) d = Some v"
    by (simp add: resolve_budget_def Let_def budget_winner_def Cons v)
  moreover have "v \<le> u" if "b \<in> set sources" "bs_cap b d = Some u" "\<not> outranked d sources b" for b u
    using w(2) [of b] that eligible_iff [of b d sources] v by simp
  ultimately show ?thesis
    using w(1) v eligible_iff [of ?w d sources] by auto
qed

definition two_budgets :: "budget_source list" where
  "two_budgets =
     [\<lparr>bs_kind = ''task'', bs_id = JNull, bs_precedence = None, bs_max_runs = None,
       bs_max_attempts = None, bs_max_cost = Some 5, bs_max_duration = None\<rparr>,
      \<lparr>bs_kind = ''plan'', bs_id = JNull, bs_precedence = None, bs_max_runs = None,
       bs_max_attempts = None, bs_max_cost = Some 3, bs_max_duration = None\<rparr>]"

lemma budget_strictest_witness:
  "(case br_effective (resolve_budget two_budgets) MaxCost of None \<Rightarrow> False | Some v \<Rightarrow> v \<le> 3)"
  using budget_strictest [of two_budgets MaxCost]
  by (auto simp: two_budgets_def outranked_def split: option.splits)

text \<open>
  The risk of a contract is at least as strict as both declared levels; an unknown level makes it
  critical.
\<close>

theorem contract_risk_strictest:
  assumes "stricter_risk_level left right = Some r" and "left = Some l" and "l \<noteq> []"
    and "right = None \<or> right = Some [] \<or> (\<exists>s. right = Some s \<and> s \<noteq> [])"
  shows "(\<forall>x. risk_of_string l = Some x \<longrightarrow>
            (\<exists>y. risk_of_string r = Some y \<and> risk_rank x \<le> risk_rank y)) \<and>
    (\<forall>s. right = Some s \<longrightarrow> s \<noteq> [] \<longrightarrow>
       (risk_of_string l = None \<or> risk_of_string s = None \<longrightarrow> r = ''critical'') \<and>
       (\<forall>x. risk_of_string s = Some x \<longrightarrow>
          (\<exists>y. risk_of_string r = Some y \<and> risk_rank x \<le> risk_rank y)))"
  using assms
  by (auto simp: stricter_risk_level_def risk_of_string_def max_def split: if_splits option.splits)

lemma contract_risk_strictest_witness:
  "\<exists>x y. risk_of_string ''high'' = Some x \<and> risk_of_string ''high'' = Some y \<and> risk_rank x \<le> risk_rank y"
  using contract_risk_strictest [of "Some ''low''" "Some ''high''" "''high''" "''low''"]
  by (simp add: stricter_risk_level_def risk_of_string_def)

end
