(* ===== verification/PlanGraph.thy ===== *)
theory PlanGraph
  imports WorkflowGraph RunBudget
begin

text \<open>
  Plan graphs, \<open>server/src/modules/plans/graph.ts\<close>: the materialization of a workflow definition with
  the memoized depth of its nodes, the contract of a node, the evaluation of atomicity, the aggregate
  cost and the decision whether a plan may start without a person. The content hash of a node is left
  out; it only names a version.
\<close>

section \<open>Data\<close>

datatype plan_node_kind = Leaf | Integration | ApprovalCheckpoint | Exploratory | ActionNode

record plan_node =
  pn_key :: string
  pn_title :: string
  pn_description :: "string option"
  pn_depends_on :: "string list"
  pn_input_bindings :: "input_binding list"
  pn_kind :: plan_node_kind
  pn_agent_id :: "string option"
  pn_runtime_profile_id :: "string option"
  pn_capability_id :: "string option"
  pn_prompt_asset_key :: "string option"
  pn_verification_refs :: "string list"
  pn_approval_required :: bool
  pn_approval_proposal_type :: "string option"
  pn_action_key :: "string option"
  pn_checkpoint_kind :: "string option"
  pn_contract :: jsobj
  pn_metadata :: jsobj

record plan_graph =
  pg_definition :: workflow_definition
  pg_nodes :: "plan_node list"
  pg_depth :: nat
  pg_roots :: "string list"
  pg_leaves :: "string list"

datatype graph_error =
    SchemaIssues "workflow_issue list"
  | PlanSizeExceeded
  | PlanCycle
  | PlanDepthExceeded
  | InvalidNodeAtomicity string
  | LeafNotExecutable string
  | ActionNotExecutable string
  | PlanOutOfFuel

definition max_nodes :: nat where "max_nodes = 30"
definition max_auto_approve_nodes :: nat where "max_auto_approve_nodes = 8"
definition plan_max_depth :: nat where "plan_max_depth = 3"

section \<open>Nodes\<close>

definition rec_of :: "jsval \<Rightarrow> jsobj" where
  "rec_of v = (case as_record v of None \<Rightarrow> [] | Some r \<Rightarrow> r)"

definition contract_keys :: "string list" where
  "contract_keys =
     [''acceptance_criteria_json'', ''definition_of_done'', ''required_outputs_json'', ''risk_level'',
      ''max_runs'', ''max_attempts'', ''max_cost'', ''max_duration_seconds'', ''budget_precedence'',
      ''route_hints_json'', ''budget_sources'']"

text \<open>The contract fields a node carries beside \<open>contract_json\<close>; the declared object wins.\<close>

definition fill_from :: "jsobj \<Rightarrow> string \<Rightarrow> jsobj \<Rightarrow> jsobj" where
  "fill_from raw key contract =
     (if get_prop contract key = JUndef \<and> get_prop raw key \<noteq> JUndef
      then set_prop key (get_prop raw key) contract else contract)"

definition node_contract :: "workflow_node \<Rightarrow> jsobj" where
  "node_contract n =
     fill_from (wn_metadata n) ''route_hints_json'' (fold (fill_from (wn_extra n)) contract_keys (wn_contract n))"

fun node_kind_of :: "string option \<Rightarrow> plan_node_kind" where
  "node_kind_of (Some s) =
     (if s = ''integration'' then Integration
      else if s = ''approval_checkpoint'' then ApprovalCheckpoint
      else if s = ''exploratory'' then Exploratory
      else if s = ''action'' then ActionNode else Leaf)"
| "node_kind_of None = Leaf"

definition to_plan_node :: "workflow_node \<Rightarrow> plan_node" where
  "to_plan_node n =
     (let metadata = wn_metadata n
      in \<lparr>pn_key = wn_id n, pn_title = wn_title n,
          pn_description = string_value (get_prop metadata ''description''),
          pn_depends_on = wn_depends_on n, pn_input_bindings = wn_input_bindings n,
          pn_kind = (if wn_approval_required n then ApprovalCheckpoint
                     else node_kind_of (string_value (get_prop metadata ''node_kind''))),
          pn_agent_id = wn_agent_id n, pn_runtime_profile_id = wn_runtime_profile_id n,
          pn_capability_id = wn_capability_id n, pn_prompt_asset_key = wn_prompt_asset_key n,
          pn_verification_refs = wn_verification_refs n, pn_approval_required = wn_approval_required n,
          pn_approval_proposal_type = wn_proposal_type n,
          pn_action_key = string_value (get_prop metadata ''action_key''),
          pn_checkpoint_kind = string_value (get_prop metadata ''checkpoint_kind''),
          pn_contract = node_contract n, pn_metadata = metadata\<rparr>)"

section \<open>Materialization\<close>

record depth_state =
  ds_depth :: "(string \<times> nat) list"
  ds_visiting :: "string set"

primrec depth_of :: "nat \<Rightarrow> workflow_node list \<Rightarrow> string \<Rightarrow> depth_state \<Rightarrow> graph_error + nat \<times> depth_state"
where
  "depth_of 0 nodes i s = Inl PlanOutOfFuel"
| "depth_of (Suc fuel) nodes i s =
     (case map_of (ds_depth s) i of
        Some d \<Rightarrow> Inr (d, s)
      | None \<Rightarrow>
          (if i \<in> ds_visiting s then Inl PlanCycle
           else (case each_map (depth_of fuel nodes) (deps_of nodes i)
                        (s\<lparr>ds_visiting := insert i (ds_visiting s)\<rparr>) of
                   Inl e \<Rightarrow> Inl e
                 | Inr (ds, t) \<Rightarrow>
                     (let d = (if deps_of nodes i = [] then 1 else Max (set ds) + 1)
                      in Inr (d, t\<lparr>ds_visiting := ds_visiting t - {i},
                                   ds_depth := ds_depth t @ [(i, d)]\<rparr>)))))"

definition plan_depth :: "workflow_node list \<Rightarrow> graph_error + nat" where
  "plan_depth nodes =
     (case each_map (depth_of (length nodes + 1) nodes) (map wn_id nodes)
             \<lparr>ds_depth = [], ds_visiting = {}\<rparr> of
        Inl e \<Rightarrow> Inl e
      | Inr (_, s) \<Rightarrow> Inr (Max (set (map snd (ds_depth s)))))"

definition blank :: "string option \<Rightarrow> bool" where
  "blank v \<longleftrightarrow> v = None \<or> v = Some []"

definition node_error :: "plan_node \<Rightarrow> graph_error option" where
  "node_error n =
     (if (pn_kind n = Integration \<or> pn_kind n = ApprovalCheckpoint) \<and> pn_depends_on n = []
      then Some (InvalidNodeAtomicity (pn_key n))
      else if (pn_kind n = Leaf \<or> pn_kind n = Exploratory) \<and>
              blank (pn_capability_id n) \<and> blank (pn_prompt_asset_key n) \<and> blank (pn_agent_id n)
      then Some (LeafNotExecutable (pn_key n))
      else if pn_kind n = ActionNode \<and> blank (pn_action_key n)
      then Some (ActionNotExecutable (pn_key n))
      else None)"

fun first_node_error :: "plan_node list \<Rightarrow> graph_error option" where
  "first_node_error [] = None"
| "first_node_error (n # ns) = (case node_error n of Some e \<Rightarrow> Some e | None \<Rightarrow> first_node_error ns)"

definition materialize_plan_graph :: "workflow_definition \<Rightarrow> graph_error + plan_graph" where
  "materialize_plan_graph wd =
     (case workflow_issues wd of
        Inl OutOfFuel \<Rightarrow> Inl PlanOutOfFuel
      | Inr (i # is) \<Rightarrow> Inl (SchemaIssues (i # is))
      | Inr [] \<Rightarrow>
          (if max_nodes < length (wd_nodes wd) then Inl PlanSizeExceeded
           else (case plan_depth (wd_nodes wd) of
                   Inl e \<Rightarrow> Inl e
                 | Inr depth \<Rightarrow>
                     (if plan_max_depth < depth then Inl PlanDepthExceeded
                      else (let nodes = map to_plan_node (wd_nodes wd);
                                depended_on = set (concat (map pn_depends_on nodes))
                            in (case first_node_error nodes of
                                  Some e \<Rightarrow> Inl e
                                | None \<Rightarrow>
                                    Inr \<lparr>pg_definition = wd, pg_nodes = nodes, pg_depth = depth,
                                         pg_roots = map pn_key (filter (\<lambda>n. pn_depends_on n = []) nodes),
                                         pg_leaves = map pn_key
                                           (filter (\<lambda>n. pn_key n \<notin> depended_on) nodes)\<rparr>))))))"

section \<open>Atomicity\<close>

definition string_or :: "jsval \<Rightarrow> jsval \<Rightarrow> string option" where
  "string_or a b = (case string_value a of Some s \<Rightarrow> Some s | None \<Rightarrow> string_value b)"

definition has_non_empty_scope :: "jsval \<Rightarrow> bool" where
  "has_non_empty_scope v \<longleftrightarrow>
     (case v of JStr s \<Rightarrow> js_trim s \<noteq> [] | JArr xs \<Rightarrow> xs \<noteq> [] | _ \<Rightarrow> rec_of v \<noteq> [])"

definition has_checks :: "jsobj \<Rightarrow> bool" where
  "has_checks value \<longleftrightarrow>
     (case get_prop value ''checks'' of
        JArr xs \<Rightarrow> xs \<noteq> []
      | _ \<Rightarrow> truthy (get_prop value ''type'') \<or> truthy (get_prop value ''verifier_type'') \<or>
             truthy (get_prop value ''validation''))"

definition has_independent_verification :: "plan_node \<Rightarrow> bool" where
  "has_independent_verification n \<longleftrightarrow>
     pn_verification_refs n \<noteq> [] \<or>
     (let acceptance = rec_of (get_prop (pn_contract n) ''acceptance_criteria_json'');
          required = get_prop (pn_contract n) ''required_outputs_json''
      in has_checks acceptance \<or> (case required of JArr xs \<Rightarrow> xs \<noteq> [] | _ \<Rightarrow> False) \<or>
         rec_of required \<noteq> [] \<or> has_checks (rec_of required))"

definition positive_integer :: "jsval \<Rightarrow> bool" where
  "positive_integer v \<longleftrightarrow> positive_integer_or_null v \<noteq> None"

definition runtime_delegation_requested :: "plan_node \<Rightarrow> bool" where
  "runtime_delegation_requested n \<longleftrightarrow>
     (let hints = rec_of (get_prop (pn_contract n) ''route_hints_json'')
      in list_ex is_true
           [get_prop (pn_metadata n) ''runtime_delegation'',
            get_prop (pn_metadata n) ''allow_runtime_delegation'',
            get_prop (pn_metadata n) ''delegation_required'',
            get_prop (pn_contract n) ''runtime_delegation'',
            get_prop (pn_contract n) ''allow_runtime_delegation'',
            get_prop (pn_contract n) ''delegation_required'',
            get_prop hints ''runtime_delegation'',
            get_prop hints ''allow_runtime_delegation''])"

definition reason_if :: "bool \<Rightarrow> string \<Rightarrow> string list" where
  "reason_if c r = (if c then [r] else [])"

lemma reason_if_empty [simp]: "reason_if c r = [] \<longleftrightarrow> \<not> c"
  by (simp add: reason_if_def)

definition node_reason :: "plan_node \<Rightarrow> string \<Rightarrow> string" where
  "node_reason n r = ''node_'' @ pn_key n @ r"

definition node_atomicity_reasons :: "plan_node \<Rightarrow> string list" where
  "node_atomicity_reasons n =
     (if pn_kind n = Integration \<or> pn_kind n = ApprovalCheckpoint then []
      else reason_if (\<not> has_independent_verification n) (node_reason n ''_not_independently_verifiable'') @
           reason_if (\<not> positive_integer (get_prop (pn_contract n) ''max_attempts''))
             (node_reason n ''_retry_policy_not_declared'') @
           reason_if (get_prop (pn_metadata n) ''runtime_delegation_allowed'' \<noteq> JBool False)
             (node_reason n ''_runtime_delegation_policy_not_explicit'') @
           reason_if (runtime_delegation_requested n) (node_reason n ''_runtime_delegation_not_allowed''))"

definition filled :: "string option list \<Rightarrow> string list" where
  "filled xs = List.map_filter (\<lambda>v. if blank v then None else v) xs"

text \<open>\<open>[...new Set(reasons)]\<close> keeps the first of equal reasons.\<close>

definition unique_reasons :: "string list \<Rightarrow> string list" where
  "unique_reasons xs = rev (remdups (rev xs))"

definition atomicity_reasons :: "plan_graph \<Rightarrow> string list" where
  "atomicity_reasons g =
     (let metadata = wd_metadata (pg_definition g);
          objective = string_or (get_prop metadata ''primary_objective'') (get_prop metadata ''objective'');
          many = (case get_prop metadata ''objectives'' of JArr xs \<Rightarrow> length xs \<noteq> 1 | _ \<Rightarrow> False);
          scope = coalesce (coalesce (get_prop metadata ''scope_json'') (get_prop metadata ''input_scope_json''))
                    (get_prop metadata ''file_scope'');
          profiles = remdups (filled (map pn_runtime_profile_id (pg_nodes g)));
          providers = remdups (filled (map (\<lambda>n. string_or (get_prop (pn_metadata n) ''model_provider_id'')
                        (get_prop (pn_contract n) ''model_provider_id'')) (pg_nodes g)))
      in reason_if (objective = None \<or> many) ''primary_objective_not_declared'' @
         reason_if (\<not> has_non_empty_scope scope) ''execution_scope_not_declared'' @
         reason_if (1 < length profiles \<or> 1 < length providers) ''single_runtime_model_budget_required'' @
         concat (map node_atomicity_reasons (pg_nodes g)))"

definition evaluate_plan_atomicity :: "plan_graph \<Rightarrow> bool \<times> string list" where
  "evaluate_plan_atomicity g = (atomicity_reasons g = [], unique_reasons (atomicity_reasons g))"

section \<open>Cost\<close>

text \<open>\<open>String(v)\<close>, as far as equality with a source kind can see it.\<close>

fun kind_text :: "jsval \<Rightarrow> string" where
  "kind_text (JStr s) = s"
| "kind_text (JArr [v]) = kind_text v"
| "kind_text _ = []"

definition source_of :: "jsval \<Rightarrow> jsobj" where
  "source_of v = rec_of (get_prop (rec_of v) ''source'')"

definition budget_sources_from_node :: "plan_node \<Rightarrow> jsval list" where
  "budget_sources_from_node n =
     (case get_prop (pn_contract n) ''budget_sources'' of
        JArr xs \<Rightarrow> filter (\<lambda>v. kind_text (get_prop (source_of v) ''kind'') \<in>
                     {''direct'', ''task'', ''automation'', ''workflow'', ''delegation'', ''plan''}) xs
      | _ \<Rightarrow> [])"

definition is_task_source :: "jsval \<Rightarrow> bool" where
  "is_task_source v \<longleftrightarrow> get_prop (source_of v) ''kind'' = JStr ''task''"

definition number_from :: "jsval \<Rightarrow> rat option" where
  "number_from v = keep_if (\<lambda>r. 0 \<le> r) v"

definition local_sources :: "plan_node \<Rightarrow> jsval list" where
  "local_sources n =
     (case number_from (get_prop (pn_contract n) ''max_cost'') of
        None \<Rightarrow> []
      | Some c \<Rightarrow> [JObj [(''source'', JObj [(''kind'', JStr ''task''), (''id'', JStr (pn_key n))]),
                       (''max_cost'', JNum (Fin c))]]) @
     filter is_task_source (budget_sources_from_node n)"

definition local_cost :: "plan_node \<Rightarrow> rat option" where
  "local_cost n = br_effective (resolve_budget_sources (local_sources n)) MaxCost"

definition sum_finite :: "rat option list \<Rightarrow> rat option" where
  "sum_finite values =
     (case List.map_filter id values of [] \<Rightarrow> None | r # rs \<Rightarrow> Some (fold (\<lambda>v acc. acc + v) (r # rs) 0))"

definition aggregate_plan_cost :: "plan_graph \<Rightarrow> jsval list \<Rightarrow> rat option" where
  "aggregate_plan_cost g inherited =
     (let global = br_effective (resolve_budget_sources
            (inherited @ filter (\<lambda>v. \<not> is_task_source v)
               (concat (map budget_sources_from_node (pg_nodes g))))) MaxCost
      in case sum_finite (map local_cost (pg_nodes g)) of
           None \<Rightarrow> global
         | Some l \<Rightarrow> (case global of None \<Rightarrow> Some l | Some c \<Rightarrow> Some (max l c)))"

section \<open>Approval\<close>

datatype approval_mode = AutoApproved | ProposalRequired

record plan_approval =
  pa_mode :: approval_mode
  pa_reasons :: "string list"
  pa_cost :: "rat option"

definition risk_for_node :: "plan_node \<Rightarrow> string option" where
  "risk_for_node n = string_or (get_prop (pn_contract n) ''risk_level'') (get_prop (pn_metadata n) ''risk_level'')"

definition has_permission_bypass :: "plan_node \<Rightarrow> bool" where
  "has_permission_bypass n \<longleftrightarrow>
     is_true (get_prop (pn_metadata n) ''permission_bypass'') \<or>
     is_true (get_prop (pn_contract n) ''permission_bypass'') \<or>
     is_true (get_prop (pn_metadata n) ''permission_bypass_requested'')"

definition capability_risk :: "plan_node \<Rightarrow> string option" where
  "capability_risk n =
     string_or (get_prop (pn_metadata n) ''capability_risk'')
       (get_prop (pn_metadata n) ''required_capability_risk'')"

definition node_approval_reasons :: "plan_node \<Rightarrow> string list" where
  "node_approval_reasons n =
     (case risk_for_node n of
        None \<Rightarrow> [node_reason n ''_risk_not_declared'']
      | Some r \<Rightarrow> reason_if (r \<noteq> ''low'') (node_reason n (''_risk_is_'' @ r))) @
     reason_if (has_permission_bypass n) (node_reason n ''_requests_permission_bypass'') @
     (case capability_risk n of
        None \<Rightarrow> []
      | Some r \<Rightarrow> reason_if (r = ''high'' \<or> r = ''critical'') (node_reason n (''_capability_risk_is_'' @ r))) @
     reason_if (pn_kind n = Exploratory) (node_reason n ''_is_exploratory'')"

definition approval_reasons :: "plan_graph \<Rightarrow> rat option \<Rightarrow> jsval list \<Rightarrow> nat option \<Rightarrow> string list" where
  "approval_reasons g cap sources limit =
     snd (evaluate_plan_atomicity g) @
     reason_if ((case limit of None \<Rightarrow> max_auto_approve_nodes | Some l \<Rightarrow> l) < length (pg_nodes g))
       ''node_count_exceeds_cap'' @
     reason_if (cap = None) ''budget_cap_not_declared'' @
     reason_if (case (aggregate_plan_cost g sources, cap) of (Some a, Some c) \<Rightarrow> c < a | _ \<Rightarrow> False)
       ''aggregate_budget_exceeds_cap'' @
     concat (map node_approval_reasons (pg_nodes g))"

definition decide_plan_approval :: "plan_graph \<Rightarrow> rat option \<Rightarrow> jsval list \<Rightarrow> nat option \<Rightarrow> plan_approval" where
  "decide_plan_approval g cap sources limit =
     (let reasons = approval_reasons g cap sources limit
      in \<lparr>pa_mode = (if reasons = [] then AutoApproved else ProposalRequired),
          pa_reasons = unique_reasons reasons, pa_cost = aggregate_plan_cost g sources\<rparr>)"

section \<open>Dependency chains\<close>

fun dep_chain :: "workflow_node list \<Rightarrow> string list \<Rightarrow> bool" where
  "dep_chain nodes [] = True"
| "dep_chain nodes [a] = True"
| "dep_chain nodes (a # b # xs) \<longleftrightarrow> b \<in> set (deps_of nodes a) \<and> dep_chain nodes (b # xs)"

text \<open>The length of the longest chain from a node.\<close>

definition longest :: "workflow_node list \<Rightarrow> string \<Rightarrow> nat \<Rightarrow> bool" where
  "longest nodes i d \<longleftrightarrow>
     (\<exists>xs. dep_chain nodes (i # xs) \<and> d = Suc (length xs)) \<and>
     (\<forall>xs. dep_chain nodes (i # xs) \<longrightarrow> Suc (length xs) \<le> d)"

text \<open>The length of the longest chain of a definition.\<close>

definition longest_chain :: "workflow_node list \<Rightarrow> nat \<Rightarrow> bool" where
  "longest_chain nodes d \<longleftrightarrow>
     (\<exists>xs. xs \<noteq> [] \<and> hd xs \<in> node_ids nodes \<and> dep_chain nodes xs \<and> length xs = d) \<and>
     (\<forall>xs. xs \<noteq> [] \<longrightarrow> hd xs \<in> node_ids nodes \<longrightarrow> dep_chain nodes xs \<longrightarrow> length xs \<le> d)"

lemma longest_leaf: "deps_of nodes i = [] \<Longrightarrow> longest nodes i 1"
proof -
  assume e: "deps_of nodes i = []"
  have "xs = []" if "dep_chain nodes (i # xs)" for xs
    using that e by (cases xs) simp_all
  then show ?thesis
    unfolding longest_def by (metis One_nat_def dep_chain.simps(2) le_refl list.size(3))
qed

lemma longest_step:
  assumes all: "list_all2 (longest nodes) (deps_of nodes i) ds" and ne: "deps_of nodes i \<noteq> []"
  shows "longest nodes i (Max (set ds) + 1)"
proof -
  have dn: "ds \<noteq> []" using all ne by auto
  have "Max (set ds) \<in> set ds" using dn by simp
  then obtain k where k: "k < length ds" "ds ! k = Max (set ds)" by (auto simp: in_set_conv_nth)
  then have "longest nodes (deps_of nodes i ! k) (Max (set ds))"
    using all by (metis list_all2_nthD2)
  then obtain xs where xs: "dep_chain nodes (deps_of nodes i ! k # xs)" "Max (set ds) = Suc (length xs)"
    by (auto simp: longest_def)
  have "deps_of nodes i ! k \<in> set (deps_of nodes i)" using k(1) all by (simp add: list_all2_conv_all_nth)
  then have "dep_chain nodes (i # deps_of nodes i ! k # xs)" using xs(1) by simp
  then have "\<exists>ys. dep_chain nodes (i # ys) \<and> Max (set ds) + 1 = Suc (length ys)"
    using xs(2) by (intro exI [of _ "deps_of nodes i ! k # xs"]) simp
  moreover have "Suc (length ys) \<le> Max (set ds) + 1" if ys: "dep_chain nodes (i # ys)" for ys
  proof (cases ys)
    case Nil
    then show ?thesis by simp
  next
    case (Cons b zs)
    then have b: "b \<in> set (deps_of nodes i)" "dep_chain nodes (b # zs)" using ys by simp_all
    then obtain j where j: "j < length ds" "deps_of nodes i ! j = b"
      using all by (auto simp: in_set_conv_nth list_all2_conv_all_nth)
    then have "longest nodes b (ds ! j)" using all by (auto simp: list_all2_conv_all_nth)
    then have "Suc (length zs) \<le> ds ! j" using b(2) by (simp add: longest_def)
    also have "\<dots> \<le> Max (set ds)" using j(1) by simp
    finally show ?thesis by (simp add: Cons)
  qed
  ultimately show ?thesis by (simp add: longest_def)
qed

definition depth_inv :: "workflow_node list \<Rightarrow> string set \<Rightarrow> depth_state \<Rightarrow> bool" where
  "depth_inv nodes V s \<longleftrightarrow>
     ds_visiting s = V \<and>
     (\<forall>(j, d)\<in>set (ds_depth s). longest nodes j d \<and> j \<in> node_ids nodes)"

text \<open>Every dependency is a node.\<close>

definition deps_known :: "workflow_node list \<Rightarrow> bool" where
  "deps_known nodes \<longleftrightarrow> (\<forall>i. set (deps_of nodes i) \<subseteq> node_ids nodes)"

lemma depth_ok:
  assumes acyc: "acyclic (dep_rel nodes)" and known: "deps_known nodes"
    and "fuel_left nodes V < fuel" and "depth_inv nodes V s" and "i \<in> node_ids nodes"
    and "\<forall>v\<in>V. (v, i) \<in> (dep_rel nodes)\<^sup>+"
  shows "\<exists>d t. depth_of fuel nodes i s = Inr (d, t) \<and> depth_inv nodes V t \<and>
    set (ds_depth s) \<subseteq> set (ds_depth t) \<and> longest nodes i d \<and> (i, d) \<in> set (ds_depth t)"
  using assms(3-)
proof (induction fuel arbitrary: V s i)
  case 0
  then show ?case by simp
next
  case (Suc fuel)
  have V: "ds_visiting s = V" using Suc.prems(2) by (simp add: depth_inv_def)
  have nV: "i \<notin> V" using Suc.prems(4) acyc by (auto simp: acyclic_def)
  show ?case
  proof (cases "map_of (ds_depth s) i")
    case (Some d)
    then have "(i, d) \<in> set (ds_depth s)" by (rule map_of_SomeD)
    with Some Suc.prems(2) show ?thesis by (auto simp: depth_inv_def)
  next
    case None
    let ?s1 = "s\<lparr>ds_visiting := insert i V\<rparr>"
    let ?R = "\<lambda>a b. set (ds_depth a) \<subseteq> set (ds_depth b)"
    let ?Q = "\<lambda>j d b. longest nodes j d \<and> (j, d) \<in> set (ds_depth b)"
    have "\<exists>ds t. each_map (depth_of fuel nodes) (deps_of nodes i) ?s1 = Inr (ds, t) \<and>
        depth_inv nodes (insert i V) t \<and> ?R ?s1 t \<and> list_all2 (\<lambda>j d. ?Q j d t) (deps_of nodes i) ds"
    proof (rule each_map_rule)
      fix j u
      assume j: "j \<in> set (deps_of nodes i)" and u: "depth_inv nodes (insert i V) u"
      have "fuel_left nodes (insert i V) < fuel"
        using fuel_left_insert [OF Suc.prems(3) nV] Suc.prems(1) by simp
      moreover have "j \<in> node_ids nodes" using j known by (auto simp: deps_known_def)
      moreover have "(i, j) \<in> (dep_rel nodes)\<^sup>+" using j by (auto simp: dep_rel_def)
      then have "\<forall>v\<in>insert i V. (v, j) \<in> (dep_rel nodes)\<^sup>+"
        using Suc.prems(4) trancl_trans [of _ i "dep_rel nodes" j] by blast
      ultimately show "\<exists>d t. depth_of fuel nodes j u = Inr (d, t) \<and> depth_inv nodes (insert i V) t \<and>
          ?R u t \<and> ?Q j d t"
        using Suc.IH [of "insert i V" u j] u by blast
    next
      show "depth_inv nodes (insert i V) ?s1" using Suc.prems(2) by (simp add: depth_inv_def)
    qed auto
    then obtain ds t where t: "each_map (depth_of fuel nodes) (deps_of nodes i) ?s1 = Inr (ds, t)"
      "depth_inv nodes (insert i V) t" "?R ?s1 t" "list_all2 (\<lambda>j d. ?Q j d t) (deps_of nodes i) ds"
      by blast
    define d where "d = (if deps_of nodes i = [] then 1 else Max (set ds) + 1)"
    have l: "longest nodes i d"
    proof (cases "deps_of nodes i = []")
      case True
      then show ?thesis unfolding d_def using longest_leaf [OF True] by simp
    next
      case False
      have "list_all2 (longest nodes) (deps_of nodes i) ds"
        using t(4) by (rule list_all2_mono) simp
      with False show ?thesis unfolding d_def by (simp only: if_False) (rule longest_step)
    qed
    let ?t = "t\<lparr>ds_visiting := ds_visiting t - {i}, ds_depth := ds_depth t @ [(i, d)]\<rparr>"
    have "depth_of (Suc fuel) nodes i s = Inr (d, ?t)"
      using None nV t(1) by (simp add: V d_def Let_def)
    moreover have "depth_inv nodes V ?t"
      using t(2) l nV Suc.prems(3) by (auto simp: depth_inv_def)
    ultimately show ?thesis using t(3) l by auto
  qed
qed

lemma plan_depth_exact:
  assumes "acyclic (dep_rel nodes)" and "deps_known nodes" and "nodes \<noteq> []"
  shows "\<exists>d. plan_depth nodes = Inr d \<and> longest_chain nodes d"
proof -
  let ?s = "\<lparr>ds_depth = [], ds_visiting = {}\<rparr>"
  have "\<exists>ds t. each_map (depth_of (length nodes + 1) nodes) (map wn_id nodes) ?s = Inr (ds, t) \<and>
      depth_inv nodes {} t \<and> set (ds_depth ?s) \<subseteq> set (ds_depth t) \<and>
      list_all2 (\<lambda>i d. longest nodes i d \<and> (i, d) \<in> set (ds_depth t)) (map wn_id nodes) ds"
  proof (rule each_map_rule)
    fix i u
    assume "i \<in> set (map wn_id nodes)" "depth_inv nodes {} u"
    then show "\<exists>d t. depth_of (length nodes + 1) nodes i u = Inr (d, t) \<and> depth_inv nodes {} t \<and>
        set (ds_depth u) \<subseteq> set (ds_depth t) \<and> longest nodes i d \<and> (i, d) \<in> set (ds_depth t)"
      using assms fuel_left_start [of nodes] by (intro depth_ok) (auto simp: node_ids_def)
  qed (auto simp: depth_inv_def)
  then obtain ds t where t: "each_map (depth_of (length nodes + 1) nodes) (map wn_id nodes) ?s = Inr (ds, t)"
    "depth_inv nodes {} t"
    "list_all2 (\<lambda>i d. longest nodes i d \<and> (i, d) \<in> set (ds_depth t)) (map wn_id nodes) ds" by blast
  let ?D = "set (map snd (ds_depth t))"
  have entry: "\<exists>d. longest nodes i d \<and> d \<in> ?D" if "i \<in> node_ids nodes" for i
    using list_all2_left [OF t(3)] that by (force simp: node_ids_def)
  obtain n where "n \<in> set nodes" using assms(3) by (cases nodes) auto
  then have "?D \<noteq> {}" using entry [of "wn_id n"] by (auto simp: node_ids_def)
  then have "Max ?D \<in> ?D" by (intro Max_in) simp_all
  then obtain j where j: "(j, Max ?D) \<in> set (ds_depth t)" by auto
  then have "longest nodes j (Max ?D)" "j \<in> node_ids nodes" using t(2) by (auto simp: depth_inv_def)
  then have "\<exists>xs. xs \<noteq> [] \<and> hd xs \<in> node_ids nodes \<and> dep_chain nodes xs \<and> length xs = Max ?D"
    unfolding longest_def by (metis length_Cons list.discI list.sel(1))
  moreover have "length xs \<le> Max ?D" if xs: "xs \<noteq> []" "hd xs \<in> node_ids nodes" "dep_chain nodes xs" for xs
  proof -
    obtain d where d: "longest nodes (hd xs) d" "d \<in> ?D" using entry xs(2) by blast
    have "length xs \<le> d" using d(1) xs(1,3) by (cases xs) (auto simp: longest_def)
    also have "d \<le> Max ?D" using d(2) by (intro Max_ge) simp_all
    finally show ?thesis .
  qed
  ultimately have "longest_chain nodes (Max ?D)" unfolding longest_chain_def by blast
  moreover have "plan_depth nodes = Inr (Max ?D)" unfolding plan_depth_def t(1) by simp
  ultimately show ?thesis by blast
qed

lemma longest_chain_unique: "longest_chain nodes d \<Longrightarrow> longest_chain nodes d' \<Longrightarrow> d = d'"
  unfolding longest_chain_def by (metis le_antisym)

lemma workflow_ok_known: "workflow_ok wd \<Longrightarrow> deps_known (wd_nodes wd)"
proof -
  assume ok: "workflow_ok wd"
  have "set (deps_of (wd_nodes wd) i) \<subseteq> node_ids (wd_nodes wd)" for i
  proof (cases "by_id (wd_nodes wd) i")
    case None
    then show ?thesis by (simp add: deps_of_def)
  next
    case (Some n)
    then have "n \<in> set (wd_nodes wd)" by (auto simp: by_id_def dest: map_of_SomeD)
    with ok Some show ?thesis by (auto simp: workflow_ok_def node_ok_def deps_of_def)
  qed
  then show ?thesis by (simp add: deps_known_def)
qed

section \<open>What materialization establishes\<close>

lemma first_node_error_None: "first_node_error ns = None \<longleftrightarrow> (\<forall>n\<in>set ns. node_error n = None)"
  by (induction ns) (auto split: option.splits)

lemma first_node_error_Some:
  "first_node_error ns = Some e \<Longrightarrow> \<exists>n\<in>set ns. node_error n = Some e"
  by (induction ns) (auto split: option.splits)

text \<open>What a node needs in order to be executed.\<close>

definition executable_node :: "plan_node \<Rightarrow> bool" where
  "executable_node n \<longleftrightarrow>
     (case pn_kind n of
        Integration \<Rightarrow> pn_depends_on n \<noteq> []
      | ApprovalCheckpoint \<Rightarrow> pn_depends_on n \<noteq> []
      | ActionNode \<Rightarrow> \<not> blank (pn_action_key n)
      | _ \<Rightarrow> \<not> blank (pn_capability_id n) \<or> \<not> blank (pn_prompt_asset_key n) \<or> \<not> blank (pn_agent_id n))"

lemma node_error_None: "node_error n = None \<longleftrightarrow> executable_node n"
  by (cases "pn_kind n") (simp_all add: node_error_def executable_node_def)

lemma materialize_ok:
  assumes "workflow_ok wd"
  obtains d where "longest_chain (wd_nodes wd) d" and "plan_depth (wd_nodes wd) = Inr d"
    and "workflow_issues wd = Inr []" and "length (wd_nodes wd) \<le> max_nodes"
proof -
  obtain d where "plan_depth (wd_nodes wd) = Inr d" "longest_chain (wd_nodes wd) d"
    using plan_depth_exact [of "wd_nodes wd"] workflow_ok_known [OF assms] assms
    by (auto simp: workflow_ok_def)
  moreover have "workflow_issues wd = Inr []"
    using cycle_issues_total [of "wd_nodes wd"] static_issues_iff [of wd] assms
    by (auto simp: workflow_issues_def workflow_ok_def)
  moreover have "length (wd_nodes wd) \<le> max_nodes" using assms by (simp add: workflow_ok_def max_nodes_def)
  ultimately show thesis using that by blast
qed

lemma materialize_bad:
  assumes "\<not> workflow_ok wd"
  obtains i "is" where "workflow_issues wd = Inr (i # is)"
  using cycle_issues_total [of "wd_nodes wd"] static_issues_iff [of wd] assms
  by (auto simp: workflow_issues_def workflow_ok_def neq_Nil_conv)

lemmas materialize_simps = materialize_plan_graph_def Let_def plan_max_depth_def

section \<open>Properties\<close>

text \<open>
  C29. A plan materializes exactly when its definition is valid, no dependency chain is longer than
  three nodes and every node can be executed: joins and checkpoints wait for something, actions name
  their handler, and the other nodes are bound to a capability, a prompt or an agent.
\<close>

theorem plan_materialize_iff:
  "(\<exists>g. materialize_plan_graph wd = Inr g) \<longleftrightarrow>
     workflow_ok wd \<and> (\<exists>d. longest_chain (wd_nodes wd) d \<and> d \<le> 3) \<and>
     list_all (executable_node \<circ> to_plan_node) (wd_nodes wd)"
proof (cases "workflow_ok wd")
  case False
  then obtain i "is" where "workflow_issues wd = Inr (i # is)" by (rule materialize_bad)
  with False show ?thesis by (simp add: materialize_plan_graph_def)
next
  case True
  then obtain d where d: "longest_chain (wd_nodes wd) d" "plan_depth (wd_nodes wd) = Inr d"
    "workflow_issues wd = Inr []" "length (wd_nodes wd) \<le> max_nodes" by (rule materialize_ok)
  have "(\<exists>e. longest_chain (wd_nodes wd) e \<and> e \<le> 3) \<longleftrightarrow> d \<le> 3"
    using d(1) longest_chain_unique by blast
  moreover have "first_node_error (map to_plan_node (wd_nodes wd)) = None \<longleftrightarrow>
      list_all (executable_node \<circ> to_plan_node) (wd_nodes wd)"
    by (simp add: first_node_error_None node_error_None list_all_iff)
  ultimately show ?thesis using d True
    by (auto simp: materialize_simps not_less split: option.splits)
qed

lemma finite_dep_rel: "deps_known nodes \<Longrightarrow> finite (dep_rel nodes)"
proof (rule finite_subset)
  assume k: "deps_known nodes"
  have "a \<in> node_ids nodes" if "b \<in> set (deps_of nodes a)" for a b
    using that deps_of_unknown by fastforce
  then show "dep_rel nodes \<subseteq> node_ids nodes \<times> node_ids nodes"
    using k unfolding dep_rel_def deps_known_def by blast
  show "finite (node_ids nodes \<times> node_ids nodes)" by (simp add: node_ids_def)
qed

lemma by_id_distinct:
  "distinct (map wn_id nodes) \<Longrightarrow> n \<in> set nodes \<Longrightarrow> by_id nodes (wn_id n) = Some n"
  unfolding by_id_def
  by (rule map_of_is_SomeI) (simp_all add: rev_map [symmetric] comp_def flip: rev_map)

lemma deps_of_node:
  "distinct (map wn_id nodes) \<Longrightarrow> n \<in> set nodes \<Longrightarrow> deps_of nodes (wn_id n) = wn_depends_on n"
  by (simp add: deps_of_def by_id_distinct)

lemma root_exists:
  assumes ok: "workflow_ok wd"
  shows "\<exists>n\<in>set (wd_nodes wd). wn_depends_on n = []"
proof -
  let ?ns = "wd_nodes wd"
  obtain n where n: "n \<in> set ?ns" using ok by (cases "wd_nodes wd") (auto simp: workflow_ok_def)
  have "wf ((dep_rel ?ns)\<inverse>)"
    using ok finite_dep_rel [OF workflow_ok_known [OF ok]]
    by (intro finite_acyclic_wf_converse) (simp_all add: workflow_ok_def)
  moreover have "wn_id n \<in> node_ids ?ns" using n by (simp add: node_ids_def)
  ultimately obtain z where z: "z \<in> node_ids ?ns" "\<And>y. (y, z) \<in> (dep_rel ?ns)\<inverse> \<Longrightarrow> y \<notin> node_ids ?ns"
    by (metis wfE_min)
  have "y \<notin> set (deps_of ?ns z)" for y
    using z(2) [of y] workflow_ok_known [OF ok] by (auto simp: deps_known_def dep_rel_def)
  then have "deps_of ?ns z = []" by (cases "deps_of ?ns z") auto
  moreover obtain m where "m \<in> set ?ns" "z = wn_id m" using z(1) by (auto simp: node_ids_def)
  ultimately have "m \<in> set ?ns" "wn_depends_on m = []"
    using ok deps_of_node [of ?ns m] by (simp_all add: workflow_ok_def)
  then show ?thesis by blast
qed

lemma leaf_exists:
  assumes ok: "workflow_ok wd"
  shows "\<exists>n\<in>set (wd_nodes wd). \<forall>m\<in>set (wd_nodes wd). wn_id n \<notin> set (wn_depends_on m)"
proof -
  let ?ns = "wd_nodes wd"
  obtain n where n: "n \<in> set ?ns" using ok by (cases "wd_nodes wd") (auto simp: workflow_ok_def)
  have "wf (dep_rel ?ns)"
    using ok finite_dep_rel [OF workflow_ok_known [OF ok]]
    by (intro finite_acyclic_wf) (simp_all add: workflow_ok_def)
  moreover have "wn_id n \<in> node_ids ?ns" using n by (simp add: node_ids_def)
  ultimately obtain z where z: "z \<in> node_ids ?ns" "\<And>y. (y, z) \<in> dep_rel ?ns \<Longrightarrow> y \<notin> node_ids ?ns"
    by (metis wfE_min)
  obtain m where m: "m \<in> set ?ns" "z = wn_id m" using z(1) by (auto simp: node_ids_def)
  have "wn_id m \<notin> set (wn_depends_on k)" if k: "k \<in> set ?ns" for k
  proof
    assume "wn_id m \<in> set (wn_depends_on k)"
    then have "(wn_id k, z) \<in> dep_rel ?ns"
      using ok k m(2) deps_of_node [of ?ns k] by (simp add: dep_rel_def workflow_ok_def)
    then have "wn_id k \<notin> node_ids ?ns" by (rule z(2))
    with k show False by (simp add: node_ids_def)
  qed
  with m show ?thesis by blast
qed

text \<open>
  A materialized plan keeps the nodes of its definition, its depth is the length of the longest
  dependency chain, at most three, and it has at least one node to start from and one nothing waits
  for.
\<close>

theorem plan_graph_shape:
  assumes "materialize_plan_graph wd = Inr g"
  shows "pg_nodes g = map to_plan_node (wd_nodes wd) \<and> longest_chain (wd_nodes wd) (pg_depth g) \<and>
    pg_depth g \<le> 3 \<and> pg_roots g \<noteq> [] \<and> pg_leaves g \<noteq> []"
proof -
  have ok: "workflow_ok wd"
  proof (rule ccontr)
    assume "\<not> workflow_ok wd"
    then obtain i "is" where "workflow_issues wd = Inr (i # is)" by (rule materialize_bad)
    with assms show False by (simp add: materialize_plan_graph_def)
  qed
  then obtain d where d: "longest_chain (wd_nodes wd) d" "plan_depth (wd_nodes wd) = Inr d"
    "workflow_issues wd = Inr []" "length (wd_nodes wd) \<le> max_nodes" by (rule materialize_ok)
  let ?ns = "map to_plan_node (wd_nodes wd)"
  have g: "d \<le> 3" "g = \<lparr>pg_definition = wd, pg_nodes = ?ns, pg_depth = d,
      pg_roots = map pn_key (filter (\<lambda>n. pn_depends_on n = []) ?ns),
      pg_leaves = map pn_key
        (filter (\<lambda>n. pn_key n \<notin> set (concat (map pn_depends_on ?ns))) ?ns)\<rparr>"
    using assms d by (simp_all add: materialize_simps split: if_splits option.splits)
  have key: "pn_key (to_plan_node n) = wn_id n" "pn_depends_on (to_plan_node n) = wn_depends_on n" for n
    by (simp_all add: to_plan_node_def Let_def)
  have "\<exists>n\<in>set ?ns. pn_depends_on n = []" using root_exists [OF ok] by (auto simp: key)
  moreover have "\<exists>n\<in>set ?ns. pn_key n \<notin> set (concat (map pn_depends_on ?ns))"
    using leaf_exists [OF ok] by (auto simp: key)
  ultimately show ?thesis using d(1) g by (auto simp: filter_empty_conv)
qed

definition sample_node :: "string \<Rightarrow> string list \<Rightarrow> workflow_node" where
  "sample_node i ds =
     \<lparr>wn_id = i, wn_title = ''step'', wn_depends_on = ds, wn_input_bindings = [],
      wn_capability_id = None, wn_prompt_asset_key = None, wn_agent_id = Some ''agent-1'',
      wn_runtime_profile_id = None, wn_verification_refs = [''unit-tests''],
      wn_approval_required = False, wn_proposal_type = None,
      wn_contract = [(''max_attempts'', JNum (Fin 1)), (''risk_level'', JStr ''low''),
                     (''max_cost'', JNum (Fin 2))],
      wn_metadata = [(''runtime_delegation_allowed'', JBool False)], wn_extra = []\<rparr>"

definition two_step_workflow :: workflow_definition where
  "two_step_workflow =
     \<lparr>wd_workflow_id = ''w'', wd_name = ''two steps'',
      wd_nodes = [sample_node ''a'' [], sample_node ''b'' [''a'']],
      wd_metadata = [(''objective'', JStr ''ship''), (''file_scope'', JStr ''src'')]\<rparr>"

definition two_step_plan :: plan_graph where
  "two_step_plan =
     \<lparr>pg_definition = two_step_workflow,
      pg_nodes = map to_plan_node (wd_nodes two_step_workflow), pg_depth = 2,
      pg_roots = [''a''], pg_leaves = [''b'']\<rparr>"

lemma two_step_workflow_materializes: "materialize_plan_graph two_step_workflow = Inr two_step_plan"
  by code_simp

lemma plan_graph_shape_witness:
  "longest_chain (wd_nodes two_step_workflow) 2 \<and> pg_roots two_step_plan = [''a'']"
  using plan_graph_shape [OF two_step_workflow_materializes] by (simp add: two_step_plan_def)

text \<open>
  Of the errors of materialization only four kinds can occur: the issues of an invalid
  definition, too deep a chain, and the two kinds of node errors. The checks of the size and of cycles
  never fail behind the validation, and the fuel is never used up.
\<close>

theorem plan_errors:
  "materialize_plan_graph wd \<noteq> Inl PlanCycle \<and> materialize_plan_graph wd \<noteq> Inl PlanSizeExceeded \<and>
   materialize_plan_graph wd \<noteq> Inl PlanOutOfFuel \<and>
   ((\<exists>is. materialize_plan_graph wd = Inl (SchemaIssues is)) \<longleftrightarrow> \<not> workflow_ok wd) \<and>
   (materialize_plan_graph wd = Inl PlanDepthExceeded \<longleftrightarrow>
      workflow_ok wd \<and> (\<exists>d. longest_chain (wd_nodes wd) d \<and> 3 < d))"
proof (cases "workflow_ok wd")
  case False
  then obtain i "is" where "workflow_issues wd = Inr (i # is)" by (rule materialize_bad)
  with False show ?thesis by (simp add: materialize_plan_graph_def)
next
  case True
  then obtain d where d: "longest_chain (wd_nodes wd) d" "plan_depth (wd_nodes wd) = Inr d"
    "workflow_issues wd = Inr []" "length (wd_nodes wd) \<le> max_nodes" by (rule materialize_ok)
  have "(\<exists>e. longest_chain (wd_nodes wd) e \<and> 3 < e) \<longleftrightarrow> 3 < d"
    using d(1) longest_chain_unique by blast
  moreover have "e \<notin> {PlanCycle, PlanSizeExceeded, PlanOutOfFuel, PlanDepthExceeded} \<and>
      (\<forall>is. e \<noteq> SchemaIssues is)"
    if e: "first_node_error (map to_plan_node (wd_nodes wd)) = Some e" for e
  proof -
    obtain n where "node_error n = Some e" using first_node_error_Some [OF e] by blast
    then show ?thesis by (auto simp: node_error_def split: if_splits)
  qed
  ultimately show ?thesis using d True
    by (auto simp: materialize_simps not_less split: option.splits)
qed

text \<open>A node that may run without a person.\<close>

definition unattended_node :: "plan_node \<Rightarrow> bool" where
  "unattended_node n \<longleftrightarrow>
     risk_for_node n = Some ''low'' \<and> \<not> has_permission_bypass n \<and>
     capability_risk n \<notin> {Some ''high'', Some ''critical''} \<and> pn_kind n \<noteq> Exploratory \<and>
     (pn_kind n \<in> {Integration, ApprovalCheckpoint} \<or>
      has_independent_verification n \<and> positive_integer (get_prop (pn_contract n) ''max_attempts'') \<and>
      get_prop (pn_metadata n) ''runtime_delegation_allowed'' = JBool False \<and>
      \<not> runtime_delegation_requested n)"

lemma unique_reasons_empty [simp]: "unique_reasons xs = [] \<longleftrightarrow> xs = []"
  by (simp add: unique_reasons_def)

lemma node_reasons_empty:
  "node_atomicity_reasons n = [] \<and> node_approval_reasons n = [] \<longleftrightarrow> unattended_node n"
  unfolding node_atomicity_reasons_def node_approval_reasons_def unattended_node_def
  by (cases "risk_for_node n"; cases "capability_risk n") auto

lemma approval_reasons_empty:
  "approval_reasons g cap sources limit = [] \<longleftrightarrow>
     atomicity_reasons g = [] \<and>
     length (pg_nodes g) \<le> (case limit of None \<Rightarrow> max_auto_approve_nodes | Some l \<Rightarrow> l) \<and>
     (\<exists>c. cap = Some c \<and> (\<forall>a. aggregate_plan_cost g sources = Some a \<longrightarrow> a \<le> c)) \<and>
     (\<forall>n\<in>set (pg_nodes g). node_approval_reasons n = [])"
  unfolding approval_reasons_def evaluate_plan_atomicity_def
  by (cases cap; cases "aggregate_plan_cost g sources") (auto simp: not_less)

lemma atomic_nodes: "atomicity_reasons g = [] \<Longrightarrow> n \<in> set (pg_nodes g) \<Longrightarrow> node_atomicity_reasons n = []"
  by (simp add: atomicity_reasons_def Let_def)

lemma br_effective_source:
  assumes "br_effective (resolve_budget bs) d = Some v"
  shows "\<exists>b\<in>set bs. bs_cap b d = Some v"
proof -
  obtain b bs' where e: "eligible_sources d bs = b # bs'"
    using assms by (cases "eligible_sources d bs") (simp_all add: resolve_budget_def Let_def budget_winner_def)
  then have "bs_cap (strictest d b bs') d = Some v"
    using assms by (simp add: resolve_budget_def Let_def budget_winner_def)
  moreover have "strictest d b bs' \<in> set (eligible_sources d bs)" unfolding e using strictest_least by blast
  ultimately show ?thesis using eligible_caps by blast
qed

lemma local_cost_nonneg: "local_cost n = Some v \<Longrightarrow> 0 \<le> v"
proof -
  assume "local_cost n = Some v"
  then obtain b where b: "b \<in> set (List.map_filter normalize_budget_source (local_sources n))"
    "bs_cap b MaxCost = Some v"
    unfolding local_cost_def resolve_budget_sources_def by (metis br_effective_source)
  then obtain x where "normalize_budget_source x = Some b" by (auto simp: List.map_filter_def)
  with b(2) show ?thesis
    by (auto simp: normalize_budget_source_def read_caps_def non_negative_number_or_null_def keep_if_def
        Let_def split: option.splits if_splits)
qed

lemma fold_add: "fold (\<lambda>v acc. acc + v) xs (a::rat) = a + sum_list xs"
  by (induction xs arbitrary: a) (simp_all add: add.assoc)

lemma sum_finite_value:
  "sum_finite vs = (if List.map_filter id vs = [] then None else Some (sum_list (List.map_filter id vs)))"
  by (cases "List.map_filter id vs") (simp_all add: sum_finite_def fold_add)

lemma aggregate_ge:
  assumes "sum_finite (map local_cost (pg_nodes g)) = Some l"
  shows "\<exists>a. aggregate_plan_cost g sources = Some a \<and> l \<le> a"
  using assms unfolding aggregate_plan_cost_def Let_def by (simp split: option.splits)

text \<open>
  A plan starts without a person exactly when nothing of its atomicity is missing, it has no more
  nodes than allowed, its cost is capped and the aggregate is under the cap, and every node is a
  declared low risk without a bypass, without a risky capability, not exploratory and not delegating.
\<close>

theorem auto_approved_iff:
  "pa_mode (decide_plan_approval g cap sources limit) = AutoApproved \<longleftrightarrow>
     fst (evaluate_plan_atomicity g) \<and>
     length (pg_nodes g) \<le> (case limit of None \<Rightarrow> 8 | Some l \<Rightarrow> l) \<and>
     (case cap of None \<Rightarrow> False
      | Some c \<Rightarrow> (case aggregate_plan_cost g sources of None \<Rightarrow> True | Some a \<Rightarrow> a \<le> c)) \<and>
     list_all unattended_node (pg_nodes g)"
proof -
  have "pa_mode (decide_plan_approval g cap sources limit) = AutoApproved \<longleftrightarrow>
      approval_reasons g cap sources limit = []"
    by (simp add: decide_plan_approval_def Let_def)
  also have "\<dots> \<longleftrightarrow> atomicity_reasons g = [] \<and>
      length (pg_nodes g) \<le> (case limit of None \<Rightarrow> 8 | Some l \<Rightarrow> l) \<and>
      (case cap of None \<Rightarrow> False
       | Some c \<Rightarrow> (case aggregate_plan_cost g sources of None \<Rightarrow> True | Some a \<Rightarrow> a \<le> c)) \<and>
      (\<forall>n\<in>set (pg_nodes g). node_approval_reasons n = [])"
    unfolding approval_reasons_empty max_auto_approve_nodes_def
    by (cases cap; cases "aggregate_plan_cost g sources") simp_all
  also have "\<dots> \<longleftrightarrow> atomicity_reasons g = [] \<and>
      length (pg_nodes g) \<le> (case limit of None \<Rightarrow> 8 | Some l \<Rightarrow> l) \<and>
      (case cap of None \<Rightarrow> False
       | Some c \<Rightarrow> (case aggregate_plan_cost g sources of None \<Rightarrow> True | Some a \<Rightarrow> a \<le> c)) \<and>
      (\<forall>n\<in>set (pg_nodes g). unattended_node n)"
    using atomic_nodes node_reasons_empty by blast
  finally show ?thesis by (simp add: evaluate_plan_atomicity_def list_all_iff)
qed

text \<open>
  When a plan starts without a person, the costs its nodes declare for themselves together stay
  under the declared cap, and so does each of them.
\<close>

theorem auto_approved_cost:
  assumes "pa_mode (decide_plan_approval g cap sources limit) = AutoApproved"
    and "n \<in> set (pg_nodes g)" and "local_cost n = Some v"
  shows "\<exists>c. cap = Some c \<and> 0 \<le> v \<and> v \<le> c \<and>
    sum_list (List.map_filter id (map local_cost (pg_nodes g))) \<le> c"
proof -
  let ?L = "List.map_filter id (map local_cost (pg_nodes g))"
  have "approval_reasons g cap sources limit = []"
    using assms(1) by (simp add: decide_plan_approval_def Let_def split: if_splits)
  then obtain c where c: "cap = Some c" "\<forall>a. aggregate_plan_cost g sources = Some a \<longrightarrow> a \<le> c"
    unfolding approval_reasons_empty by blast
  have v: "v \<in> set ?L"
    using assms(2,3) by (force simp: List.map_filter_def)
  have nonneg: "\<forall>x\<in>set ?L. 0 \<le> x" using local_cost_nonneg by (auto simp: List.map_filter_def)
  have "sum_finite (map local_cost (pg_nodes g)) = Some (sum_list ?L)"
    using v by (auto simp: sum_finite_value)
  then obtain a where "aggregate_plan_cost g sources = Some a" "sum_list ?L \<le> a"
    using aggregate_ge by blast
  with c(2) have le: "sum_list ?L \<le> c" by (meson order_trans)
  moreover have "v \<le> sum_list ?L" using v nonneg by (simp add: member_le_sum_list)
  ultimately show ?thesis using c(1) nonneg v by (auto intro: order_trans)
qed

lemma two_step_plan_costs:
  "local_cost (to_plan_node (sample_node ''a'' [])) = Some 2"
  "pa_mode (decide_plan_approval two_step_plan (Some 5) [] None) = AutoApproved"
  by code_simp+

lemma auto_approved_cost_witness: "(2::rat) \<le> 5 \<and> sum_list (List.map_filter id (map local_cost (pg_nodes two_step_plan))) \<le> 5"
  using auto_approved_cost [OF two_step_plan_costs(2) _ two_step_plan_costs(1)]
  by (simp add: two_step_plan_def two_step_workflow_def)

end
