(* ===== verification/FinanceDecimal.thy ===== *)
theory FinanceDecimal
  imports Prelude
begin

text \<open>
  Decimals and amounts of the finance ledger plugin, \<open>domain/decimal.ts\<close> and \<open>domain/amount.ts\<close>: a
  decimal is an unbounded integer coefficient, a scale and its text; an amount is a decimal with a
  commodity symbol. The check of the scale in \<open>decimalFromCoefficient\<close> is the type of scales.
\<close>

section \<open>Texts of numbers\<close>

text \<open>\<open>input.replace(/^0+(?=\d)/, "") || "0"\<close>\<close>

fun drop_zeros :: "string \<Rightarrow> string" where
  "drop_zeros (c # d # s) = (if c = CHR ''0'' \<and> is_digit d then drop_zeros (d # s) else c # d # s)"
| "drop_zeros s = s"

definition strip_leading_zeros :: "string \<Rightarrow> string" where
  "strip_leading_zeros s = (let t = drop_zeros s in if t = [] then ''0'' else t)"

definition pad_start :: "nat \<Rightarrow> char \<Rightarrow> string \<Rightarrow> string" where
  "pad_start n c s = replicate (n - length s) c @ s"

section \<open>Decimals\<close>

record decimal_value =
  dv_decimal :: string
  dv_scale :: nat
  dv_coefficient :: int

definition format_coefficient :: "int \<Rightarrow> nat \<Rightarrow> string" where
  "format_coefficient coefficient scale =
     (let absolute = nat \<bar>coefficient\<bar>; sign = (if coefficient < 0 then ''-'' else [])
      in if scale = 0 then sign @ nat_text absolute
         else (let padded = pad_start (scale + 1) CHR ''0'' (nat_text absolute);
                   whole = strip_leading_zeros (take (length padded - scale) padded);
                   fractional = drop (length padded - scale) padded
               in sign @ whole @ ''.'' @ fractional))"

definition decimal_from_coefficient :: "int \<Rightarrow> nat \<Rightarrow> decimal_value" where
  "decimal_from_coefficient coefficient scale =
     \<lparr>dv_decimal = format_coefficient coefficient scale, dv_scale = scale,
      dv_coefficient = coefficient\<rparr>"

text \<open>\<open>/^[+-]?(?:\d+(?:\.\d*)?|\.\d+)$/\<close>\<close>

definition unsigned_text :: "string \<Rightarrow> string" where
  "unsigned_text s =
     (case s of c # t \<Rightarrow> (if c = CHR ''+'' \<or> c = CHR ''-'' then t else s) | [] \<Rightarrow> [])"

definition is_decimal_text :: "string \<Rightarrow> bool" where
  "is_decimal_text s \<longleftrightarrow>
     (let body = unsigned_text s; whole = takeWhile is_digit body; rest = dropWhile is_digit body
      in if whole \<noteq> []
         then rest = [] \<or> (hd rest = CHR ''.'' \<and> list_all is_digit (tl rest))
         else rest \<noteq> [] \<and> hd rest = CHR ''.'' \<and> tl rest \<noteq> [] \<and> list_all is_digit (tl rest))"

datatype finance_error =
    InvalidDecimal string
  | InvalidSymbol string
  | CurrencyMismatch string string
  | InvalidDate string

definition parse_decimal :: "string \<Rightarrow> finance_error + decimal_value" where
  "parse_decimal input =
     (let raw = js_trim input
      in if \<not> is_decimal_text raw then Inl (InvalidDecimal input)
         else (let negative = starts_with ''-'' raw;
                   unsigned = unsigned_text raw;
                   whole_raw = takeWhile (\<lambda>c. c \<noteq> CHR ''.'') unsigned;
                   fractional_raw =
                     takeWhile (\<lambda>c. c \<noteq> CHR ''.'') (drop 1 (dropWhile (\<lambda>c. c \<noteq> CHR ''.'') unsigned));
                   whole = strip_leading_zeros (if whole_raw = [] then ''0'' else whole_raw);
                   digits = whole @ fractional_raw;
                   coefficient = int (digits_value digits) * (if negative then - 1 else 1)
               in Inr (decimal_from_coefficient coefficient (length fractional_raw))))"

definition scale_coefficient :: "decimal_value \<Rightarrow> nat \<Rightarrow> int" where
  "scale_coefficient v scale = dv_coefficient v * 10 ^ (scale - dv_scale v)"

definition add_decimal :: "decimal_value \<Rightarrow> decimal_value \<Rightarrow> decimal_value" where
  "add_decimal l r =
     (let scale = max (dv_scale l) (dv_scale r)
      in decimal_from_coefficient (scale_coefficient l scale + scale_coefficient r scale) scale)"

definition negate_decimal :: "decimal_value \<Rightarrow> decimal_value" where
  "negate_decimal v = decimal_from_coefficient (- dv_coefficient v) (dv_scale v)"

definition multiply_decimal :: "decimal_value \<Rightarrow> decimal_value \<Rightarrow> decimal_value" where
  "multiply_decimal l r =
     decimal_from_coefficient (dv_coefficient l * dv_coefficient r) (dv_scale l + dv_scale r)"

definition compare_decimal :: "decimal_value \<Rightarrow> decimal_value \<Rightarrow> int" where
  "compare_decimal l r =
     (let scale = max (dv_scale l) (dv_scale r);
          lc = scale_coefficient l scale; rc = scale_coefficient r scale
      in if lc = rc then 0 else if lc < rc then - 1 else 1)"

definition is_zero_decimal :: "decimal_value \<Rightarrow> bool" where
  "is_zero_decimal v \<longleftrightarrow> dv_coefficient v = 0"

definition decimal_equals :: "decimal_value \<Rightarrow> decimal_value \<Rightarrow> bool" where
  "decimal_equals l r \<longleftrightarrow> compare_decimal l r = 0"

section \<open>Amounts\<close>

record amount =
  am_number :: decimal_value
  am_currency :: string

definition is_upper :: "char \<Rightarrow> bool" where
  "is_upper c \<longleftrightarrow> 65 \<le> (of_char c :: nat) \<and> (of_char c :: nat) \<le> 90"

text \<open>\<open>/^[A-Z][A-Z0-9_-]*$/\<close>\<close>

definition is_commodity_symbol :: "string \<Rightarrow> bool" where
  "is_commodity_symbol s \<longleftrightarrow>
     (case s of [] \<Rightarrow> False
      | c # t \<Rightarrow> is_upper c \<and>
          list_all (\<lambda>d. is_upper d \<or> is_digit d \<or> d = CHR ''_'' \<or> d = CHR ''-'') t)"

definition amount_of_decimal :: "decimal_value \<Rightarrow> string \<Rightarrow> finance_error + amount" where
  "amount_of_decimal n currency =
     (if \<not> is_commodity_symbol currency then Inl (InvalidSymbol currency)
      else Inr \<lparr>am_number = n, am_currency = currency\<rparr>)"

definition amount_of :: "string \<Rightarrow> string \<Rightarrow> finance_error + amount" where
  "amount_of number currency =
     (if \<not> is_commodity_symbol currency then Inl (InvalidSymbol currency)
      else (case parse_decimal number of
              Inl e \<Rightarrow> Inl e
            | Inr n \<Rightarrow> Inr \<lparr>am_number = n, am_currency = currency\<rparr>))"

definition amount_add :: "amount \<Rightarrow> amount \<Rightarrow> finance_error + amount" where
  "amount_add a b =
     (if am_currency a \<noteq> am_currency b then Inl (CurrencyMismatch (am_currency a) (am_currency b))
      else amount_of_decimal (add_decimal (am_number a) (am_number b)) (am_currency a))"

definition amount_negate :: "amount \<Rightarrow> finance_error + amount" where
  "amount_negate a = amount_of_decimal (negate_decimal (am_number a)) (am_currency a)"

definition amount_is_zero :: "amount \<Rightarrow> bool" where
  "amount_is_zero a \<longleftrightarrow> is_zero_decimal (am_number a)"

definition amount_compare :: "amount \<Rightarrow> amount \<Rightarrow> finance_error + int" where
  "amount_compare a b =
     (if am_currency a \<noteq> am_currency b then Inl (CurrencyMismatch (am_currency a) (am_currency b))
      else Inr (compare_decimal (am_number a) (am_number b)))"

definition amount_equals :: "amount \<Rightarrow> amount \<Rightarrow> bool" where
  "amount_equals a b \<longleftrightarrow>
     am_currency a = am_currency b \<and> decimal_equals (am_number a) (am_number b)"

definition amount_text :: "amount \<Rightarrow> string" where
  "amount_text a = dv_decimal (am_number a) @ '' '' @ am_currency a"

section \<open>Digits, read and written\<close>

lemma digits_value_append:
  "digits_value (s @ t) = digits_value s * 10 ^ length t + digits_value t"
proof (induction t rule: rev_induct)
  case Nil
  then show ?case by (simp add: digits_value_def)
next
  case (snoc c t)
  have "digits_value (s @ t @ [c]) = 10 * digits_value (s @ t) + digit_value c"
    using digits_value_snoc [of "s @ t" c] by simp
  with snoc show ?case by (simp add: algebra_simps)
qed

lemma digits_value_zeros [simp]: "digits_value (replicate n CHR ''0'' @ s) = digits_value s"
proof -
  have "digits_value (replicate n CHR ''0'') = 0"
    by (induction n) (simp_all add: replicate_append_same [symmetric] digits_value_def digit_value_def)
  then show ?thesis by (simp add: digits_value_append)
qed

lemma digits_value_drop_zeros [simp]: "digits_value (drop_zeros s) = digits_value s"
proof (induction s rule: drop_zeros.induct)
  case (1 c d s)
  then show ?case using digits_value_zeros [of 1 "d # s"] by simp
qed simp_all

lemma drop_zeros_digits: "list_all is_digit s \<Longrightarrow> list_all is_digit (drop_zeros s)"
  by (induction s rule: drop_zeros.induct) auto

lemma drop_zeros_empty [simp]: "drop_zeros s = [] \<longleftrightarrow> s = []"
  by (induction s rule: drop_zeros.induct) auto

lemma drop_zeros_idem [simp]: "drop_zeros (drop_zeros s) = drop_zeros s"
  by (induction s rule: drop_zeros.induct) auto

lemma strip_leading_zeros_simps [simp]:
  "s \<noteq> [] \<Longrightarrow> strip_leading_zeros s = drop_zeros s"
  by (simp add: strip_leading_zeros_def Let_def)

lemma is_digit_ne:
  "is_digit c \<Longrightarrow> c \<noteq> CHR ''.'' \<and> c \<noteq> CHR ''-'' \<and> c \<noteq> CHR ''+'' \<and> \<not> js_space c"
  by (auto simp: is_digit_def js_space_def)

text \<open>A leading zero stays only when it is the whole part.\<close>

lemma drop_zeros_nat_text: "drop_zeros (nat_text n) = nat_text n"
proof -
  have "nat_text n = [digit_char n] \<or> hd (nat_text n) \<noteq> CHR ''0''" for n
  proof (induction n rule: nat_text.induct)
    case (1 n)
    show ?case
    proof (cases "n < 10")
      case True
      then show ?thesis by (subst nat_text.simps) simp
    next
      case False
      then have e: "nat_text n = nat_text (n div 10) @ [digit_char (n mod 10)]"
        by (subst nat_text.simps) simp
      have "hd (nat_text (n div 10)) \<noteq> CHR ''0''"
      proof (cases "n div 10 < 10")
        case True
        have "nat_text (n div 10) = [digit_char (n div 10)]"
          using True by (subst nat_text.simps) simp
        moreover have "digit_char (n div 10) \<noteq> CHR ''0''"
        proof
          assume "digit_char (n div 10) = CHR ''0''"
          then have "(of_char (digit_char (n div 10)) :: nat) = 48" by simp
          with True False show False by simp
        qed
        ultimately show ?thesis by simp
      next
        case False
        then have "nat_text (n div 10) \<noteq> [digit_char (n div 10)]"
          by (subst nat_text.simps) simp
        with 1 \<open>\<not> n < 10\<close> show ?thesis by blast
      qed
      then show ?thesis by (simp add: e)
    qed
  qed
  then have "hd (nat_text n) \<noteq> CHR ''0'' \<or> length (nat_text n) = 1"
    by (metis One_nat_def length_Cons list.size(3))
  then show ?thesis by (cases "nat_text n" rule: drop_zeros.cases) auto
qed

section \<open>Round trip\<close>

lemma js_trim_id:
  assumes "s \<noteq> []" and "\<not> js_space (hd s)" and "\<not> js_space (last s)"
  shows "js_trim s = s"
proof -
  have "dropWhile js_space s = s" using assms(1,2) by (cases s) auto
  moreover have "dropWhile js_space (rev s) = rev s"
    using assms(1,3) by (cases "rev s") (auto simp: last_rev [symmetric] hd_rev)
  ultimately show ?thesis by (simp add: js_trim_def)
qed

text \<open>A text of digits with at most one point, and an optional minus sign, reads as expected.\<close>

lemma takeWhile_digits: "list_all is_digit s \<Longrightarrow> takeWhile (\<lambda>c. c \<noteq> CHR ''.'') s = s"
  using is_digit_ne by (auto simp: list_all_iff takeWhile_eq_all_conv)

lemma dropWhile_digits: "list_all is_digit s \<Longrightarrow> dropWhile (\<lambda>c. c \<noteq> CHR ''.'') s = []"
  using is_digit_ne by (auto simp: list_all_iff)

lemma span_point:
  assumes "list_all is_digit w"
  shows "takeWhile (\<lambda>c. c \<noteq> CHR ''.'') (w @ CHR ''.'' # f) = w"
    and "dropWhile (\<lambda>c. c \<noteq> CHR ''.'') (w @ CHR ''.'' # f) = CHR ''.'' # f"
    and "takeWhile is_digit (w @ CHR ''.'' # f) = w"
    and "dropWhile is_digit (w @ CHR ''.'' # f) = CHR ''.'' # f"
proof -
  have "\<not> is_digit CHR ''.''" by (simp add: is_digit_def)
  moreover have "\<forall>c\<in>set w. c \<noteq> CHR ''.'' \<and> is_digit c"
    using assms is_digit_ne by (auto simp: list_all_iff)
  ultimately show "takeWhile (\<lambda>c. c \<noteq> CHR ''.'') (w @ CHR ''.'' # f) = w"
    "dropWhile (\<lambda>c. c \<noteq> CHR ''.'') (w @ CHR ''.'' # f) = CHR ''.'' # f"
    "takeWhile is_digit (w @ CHR ''.'' # f) = w"
    "dropWhile is_digit (w @ CHR ''.'' # f) = CHR ''.'' # f"
    by (simp_all add: takeWhile_append2 dropWhile_append2)
qed

lemma sign_text:
  assumes "u \<noteq> []" and "is_digit (hd u)" and "is_digit (last u)"
  shows "js_trim ((if b then ''-'' else []) @ u) = (if b then ''-'' else []) @ u"
    and "unsigned_text ((if b then ''-'' else []) @ u) = u"
    and "starts_with ''-'' ((if b then ''-'' else []) @ u) = b"
proof -
  have "\<not> js_space (hd u)" "\<not> js_space (last u)" "hd u \<noteq> CHR ''-''" "hd u \<noteq> CHR ''+''"
    using is_digit_ne assms by blast+
  note u = this
  have m: "\<not> js_space CHR ''-''" by (simp add: js_space_def)
  show "js_trim ((if b then ''-'' else []) @ u) = (if b then ''-'' else []) @ u"
    using u m assms(1) by (intro js_trim_id) auto
  show "unsigned_text ((if b then ''-'' else []) @ u) = u"
    using u assms(1) by (cases u) (auto simp: unsigned_text_def)
  show "starts_with ''-'' ((if b then ''-'' else []) @ u) = b"
    using u assms(1) by (cases u) (auto simp: starts_with_def)
qed

lemma parse_whole:
  assumes "w \<noteq> []" and "list_all is_digit w"
  shows "parse_decimal ((if b then ''-'' else []) @ w) =
    Inr (decimal_from_coefficient (int (digits_value w) * (if b then - 1 else 1)) 0)"
proof -
  have d: "is_digit (hd w)" "is_digit (last w)" using assms by (auto simp: list_all_iff)
  have t: "takeWhile is_digit w = w" "dropWhile is_digit w = []"
    using assms(2) by (auto simp: list_all_iff takeWhile_eq_all_conv)
  show ?thesis
    unfolding parse_decimal_def Let_def is_decimal_text_def sign_text [OF assms(1) d] t
      takeWhile_digits [OF assms(2)] dropWhile_digits [OF assms(2)]
    using assms(1) by simp
qed

lemma parse_point:
  assumes "w \<noteq> []" and "list_all is_digit w" and "f \<noteq> []" and "list_all is_digit f"
  shows "parse_decimal ((if b then ''-'' else []) @ w @ ''.'' @ f) =
    Inr (decimal_from_coefficient (int (digits_value (w @ f)) * (if b then - 1 else 1)) (length f))"
proof -
  let ?u = "w @ CHR ''.'' # f"
  have d: "?u \<noteq> []" "is_digit (hd ?u)" "is_digit (last ?u)" using assms by (auto simp: list_all_iff)
  have v: "digits_value (drop_zeros w @ f) = digits_value (w @ f)" by (simp add: digits_value_append)
  have t: "takeWhile (\<lambda>c. c \<noteq> CHR ''.'') (drop 1 (CHR ''.'' # f)) = f"
    using takeWhile_digits [OF assms(4)] by simp
  have "parse_decimal ((if b then ''-'' else []) @ ?u) =
    Inr (decimal_from_coefficient (int (digits_value (w @ f)) * (if b then - 1 else 1)) (length f))"
    unfolding parse_decimal_def Let_def is_decimal_text_def sign_text [OF d] span_point [OF assms(2)] t
    using assms v by simp
  then show ?thesis by simp
qed

lemma format_parts:
  fixes n k :: nat
  assumes "0 < k"
  defines "p \<equiv> pad_start (k + 1) CHR ''0'' (nat_text n)"
  defines "w \<equiv> take (length p - k) p" and "f \<equiv> drop (length p - k) p"
  shows "w \<noteq> []" "list_all is_digit w" "f \<noteq> []" "list_all is_digit f" "length f = k"
    "digits_value (drop_zeros w @ f) = n"
proof -
  have l: "k < length p" by (auto simp: p_def pad_start_def)
  have d: "list_all is_digit p"
    using nat_text_digits [of n] by (auto simp: p_def pad_start_def list_all_iff is_digit_def)
  show "w \<noteq> []" using l by (auto simp: w_def)
  show "length f = k" using l by (simp add: f_def)
  then show "f \<noteq> []" using assms(1) by auto
  show "list_all is_digit w" "list_all is_digit f"
    using d by (auto simp: w_def f_def list_all_iff dest: in_set_takeD in_set_dropD)
  have "digits_value (drop_zeros w @ f) = digits_value (w @ f)" by (simp add: digits_value_append)
  also have "w @ f = p" by (simp add: w_def f_def)
  finally show "digits_value (drop_zeros w @ f) = n" by (simp add: p_def pad_start_def)
qed

lemma format_split:
  assumes "0 < k"
  obtains w f where "format_coefficient c k = (if c < 0 then ''-'' else []) @ w @ ''.'' @ f"
    and "w \<noteq> []" and "list_all is_digit w" and "f \<noteq> []" and "list_all is_digit f"
    and "length f = k" and "digits_value (w @ f) = nat \<bar>c\<bar>"
proof -
  define p where "p = pad_start (k + 1) CHR ''0'' (nat_text (nat \<bar>c\<bar>))"
  define w where "w = take (length p - k) p"
  define f where "f = drop (length p - k) p"
  note parts = format_parts [OF assms, of "nat \<bar>c\<bar>", folded p_def, folded w_def f_def]
  have "format_coefficient c k = (if c < 0 then ''-'' else []) @ strip_leading_zeros w @ ''.'' @ f"
    using assms by (simp add: format_coefficient_def Let_def p_def w_def f_def)
  then show thesis using parts by (intro that [of "drop_zeros w" f]) (simp_all add: drop_zeros_digits)
qed

lemma parse_format: "parse_decimal (format_coefficient c k) = Inr (decimal_from_coefficient c k)"
proof -
  have c: "int (nat \<bar>c\<bar>) * (if c < 0 then - 1 else 1) = c" by auto
  show ?thesis
  proof (cases "k = 0")
    case True
    have "format_coefficient c k = (if c < 0 then ''-'' else []) @ nat_text (nat \<bar>c\<bar>)"
      unfolding format_coefficient_def Let_def using True by simp
    then show ?thesis
      using parse_whole [OF nat_text_nonempty nat_text_digits, of "c < 0" "nat \<bar>c\<bar>"] c True
      by (simp only: digits_value_nat_text)
  next
    case False
    then obtain w f where wf: "format_coefficient c k = (if c < 0 then ''-'' else []) @ w @ ''.'' @ f"
      "w \<noteq> []" "list_all is_digit w" "f \<noteq> []" "list_all is_digit f" "length f = k"
      "digits_value (w @ f) = nat \<bar>c\<bar>" by (rule format_split [of k c, OF neq0_conv [THEN iffD1]])
    show ?thesis unfolding wf(1) parse_point [OF wf(2-5)] wf(6,7) c ..
  qed
qed

lemma parse_decimal_shape:
  "parse_decimal s = Inr d \<Longrightarrow> d = decimal_from_coefficient (dv_coefficient d) (dv_scale d)"
  by (auto simp: parse_decimal_def Let_def decimal_from_coefficient_def split: if_splits)

section \<open>The number a decimal stands for\<close>

definition dec_value :: "decimal_value \<Rightarrow> rat" where
  "dec_value d = of_int (dv_coefficient d) / 10 ^ dv_scale d"

named_theorems decimal_value_simps \<open>the rational value of every operation on decimals\<close>

lemma dec_value_from [decimal_value_simps]:
  "dec_value (decimal_from_coefficient c k) = of_int c / 10 ^ k"
  by (simp add: dec_value_def decimal_from_coefficient_def)

lemma scale_coefficient_value:
  "dv_scale v \<le> k \<Longrightarrow> of_int (scale_coefficient v k) = dec_value v * 10 ^ k"
proof -
  assume "dv_scale v \<le> k"
  then obtain j where "k = dv_scale v + j" using le_Suc_ex by blast
  then show ?thesis by (simp add: scale_coefficient_def dec_value_def power_add)
qed

lemma add_decimal_value [decimal_value_simps]:
  "dec_value (add_decimal a b) = dec_value a + dec_value b"
  by (simp add: add_decimal_def Let_def dec_value_from scale_coefficient_value add_divide_distrib)

lemma negate_decimal_value [decimal_value_simps]: "dec_value (negate_decimal a) = - dec_value a"
  unfolding negate_decimal_def dec_value_from by (simp add: dec_value_def)

lemma multiply_decimal_value [decimal_value_simps]:
  "dec_value (multiply_decimal a b) = dec_value a * dec_value b"
  unfolding multiply_decimal_def dec_value_from by (simp add: dec_value_def power_add)

lemma is_zero_decimal_value [decimal_value_simps]: "is_zero_decimal a \<longleftrightarrow> dec_value a = 0"
  by (simp add: is_zero_decimal_def dec_value_def)

lemma scaled_le:
  "dv_scale a \<le> k \<Longrightarrow> dv_scale b \<le> k \<Longrightarrow>
   scale_coefficient a k \<le> scale_coefficient b k \<longleftrightarrow> dec_value a \<le> dec_value b"
  using scale_coefficient_value [of a k] scale_coefficient_value [of b k]
  by (metis mult_le_cancel_right_pos of_int_le_iff zero_less_numeral zero_less_power)

lemma compare_decimal_value [decimal_value_simps]:
  "compare_decimal a b = (if dec_value a = dec_value b then 0 else if dec_value a < dec_value b then - 1 else 1)"
  using scaled_le [of a "max (dv_scale a) (dv_scale b)" b] scaled_le [of b "max (dv_scale a) (dv_scale b)" a]
  by (auto simp: compare_decimal_def Let_def)

lemma decimal_equals_value [decimal_value_simps]: "decimal_equals a b \<longleftrightarrow> dec_value a = dec_value b"
  by (simp add: decimal_equals_def compare_decimal_value)

text \<open>
  Reading back the text of a decimal gives the decimal itself, coefficient and scale: every
  decimal the ledger computes or parses survives being written and read.
\<close>

theorem decimal_roundtrip:
  "parse_decimal (dv_decimal (decimal_from_coefficient c k)) = Inr (decimal_from_coefficient c k) \<and>
   (\<forall>s. parse_decimal s = Inr d \<longrightarrow> parse_decimal (dv_decimal d) = Inr d)"
proof (intro conjI allI impI)
  show "parse_decimal (dv_decimal (decimal_from_coefficient c k)) = Inr (decimal_from_coefficient c k)"
    by (simp add: decimal_from_coefficient_def parse_format)
  fix s
  assume "parse_decimal s = Inr d"
  then have d: "d = decimal_from_coefficient (dv_coefficient d) (dv_scale d)" by (rule parse_decimal_shape)
  have "parse_decimal (dv_decimal (decimal_from_coefficient (dv_coefficient d) (dv_scale d))) =
      Inr (decimal_from_coefficient (dv_coefficient d) (dv_scale d))"
    by (simp add: decimal_from_coefficient_def parse_format)
  with d show "parse_decimal (dv_decimal d) = Inr d" by simp
qed

lemma parse_sample: "parse_decimal ''-007.50'' = Inr (decimal_from_coefficient (- 750) 2)"
  using parse_point [of "''007''" "''50''" True]
  by (simp add: is_digit_def digits_value_def digit_value_def numeral_2_eq_2)

lemma decimal_roundtrip_witness:
  "parse_decimal (dv_decimal (decimal_from_coefficient (- 750) 2)) = Inr (decimal_from_coefficient (- 750) 2)"
  using decimal_roundtrip [of 0 0 "decimal_from_coefficient (- 750) 2"] parse_sample by blast

text \<open>
  C32. Decimal arithmetic is exact: addition, negation, multiplication and comparison on coefficients
  and scales are those of the rational numbers the decimals stand for, with no rounding.
\<close>

theorem decimal_arithmetic_exact:
  "dec_value (add_decimal a b) = dec_value a + dec_value b \<and>
   dec_value (negate_decimal a) = - dec_value a \<and>
   dec_value (multiply_decimal a b) = dec_value a * dec_value b \<and>
   (is_zero_decimal a \<longleftrightarrow> dec_value a = 0) \<and> (decimal_equals a b \<longleftrightarrow> dec_value a = dec_value b) \<and>
   compare_decimal a b = (if dec_value a < dec_value b then - 1 else if dec_value a = dec_value b then 0 else 1)"
  by (auto simp: decimal_value_simps)

end
