(* ===== verification/FinanceInventory.thy ===== *)
theory FinanceInventory
  imports FinanceDecimal "HOL-Library.AList" "HOL-Library.Product_Lexorder" "HOL-Library.List_Lexorder"
begin

text \<open>
  Costs, positions and inventories of the finance ledger plugin, \<open>domain/position.ts\<close> and
  \<open>domain/inventory.ts\<close>. A \<open>Map\<close> is an association list in insertion order; \<open>localeCompare\<close>
  orders strings by collation keys, an argument.
\<close>

section \<open>Costs\<close>

record cost =
  co_number :: decimal_value
  co_currency :: string
  co_date :: "string option"
  co_label :: "string option"

record cost_spec =
  cs_number_per :: "decimal_value option"
  cs_number_total :: "decimal_value option"
  cs_currency :: "string option"
  cs_date :: "string option"
  cs_label :: "string option"
  cs_merge :: "bool option"

text \<open>\<open>/^\d{4}-\d{2}-\d{2}$/\<close>\<close>

definition is_iso_date :: "string \<Rightarrow> bool" where
  "is_iso_date s \<longleftrightarrow>
     length s = 10 \<and> list_all is_digit (take 4 s) \<and> s ! 4 = CHR ''-'' \<and>
     list_all is_digit (take 2 (drop 5 s)) \<and> s ! 7 = CHR ''-'' \<and> list_all is_digit (drop 8 s)"

definition date_ok :: "string option \<Rightarrow> bool" where
  "date_ok d \<longleftrightarrow> (case d of None \<Rightarrow> True | Some s \<Rightarrow> is_iso_date s)"

definition make_cost ::
    "string \<Rightarrow> string \<Rightarrow> string option \<Rightarrow> string option \<Rightarrow> finance_error + cost" where
  "make_cost number currency date label =
     (if \<not> is_commodity_symbol currency then Inl (InvalidSymbol currency)
      else if \<not> date_ok date then Inl (InvalidDate (the date))
      else (case parse_decimal number of
              Inl e \<Rightarrow> Inl e
            | Inr n \<Rightarrow> Inr \<lparr>co_number = n, co_currency = currency, co_date = date, co_label = label\<rparr>))"

definition parse_optional :: "string option \<Rightarrow> finance_error + decimal_value option" where
  "parse_optional v =
     (case v of None \<Rightarrow> Inr None
      | Some s \<Rightarrow> (case parse_decimal s of Inl e \<Rightarrow> Inl e | Inr n \<Rightarrow> Inr (Some n)))"

definition make_cost_spec ::
    "string option \<Rightarrow> string option \<Rightarrow> string option \<Rightarrow> string option \<Rightarrow> string option \<Rightarrow> bool option
     \<Rightarrow> finance_error + cost_spec" where
  "make_cost_spec per units_total currency date label merge =
     (if currency \<noteq> None \<and> \<not> is_commodity_symbol (the currency) then Inl (InvalidSymbol (the currency))
      else if \<not> date_ok date then Inl (InvalidDate (the date))
      else (case parse_optional per of
              Inl e \<Rightarrow> Inl e
            | Inr p \<Rightarrow>
                (case parse_optional units_total of
                   Inl e \<Rightarrow> Inl e
                 | Inr t \<Rightarrow> Inr \<lparr>cs_number_per = p, cs_number_total = t, cs_currency = currency,
                                cs_date = date, cs_label = label, cs_merge = merge\<rparr>)))"

definition cost_equals :: "cost \<Rightarrow> cost \<Rightarrow> bool" where
  "cost_equals a b \<longleftrightarrow>
     co_currency a = co_currency b \<and> co_date a = co_date b \<and> co_label a = co_label b \<and>
     decimal_equals (co_number a) (co_number b)"

definition or_empty :: "string option \<Rightarrow> string" where
  "or_empty v = (case v of None \<Rightarrow> [] | Some s \<Rightarrow> s)"

definition cost_key :: "cost \<Rightarrow> string" where
  "cost_key c =
     dv_decimal (co_number c) @ ''|'' @ co_currency c @ ''|'' @ or_empty (co_date c) @ ''|'' @
     or_empty (co_label c)"

definition opt_part :: "(string \<Rightarrow> string) \<Rightarrow> string option \<Rightarrow> string list" where
  "opt_part f v = (case v of None \<Rightarrow> [] | Some s \<Rightarrow> if s = [] then [] else [f s])"

definition cost_text :: "cost \<Rightarrow> string" where
  "cost_text c =
     join '', ''
       ((dv_decimal (co_number c) @ '' '' @ co_currency c) # opt_part id (co_date c) @
        opt_part (\<lambda>l. CHR 0x22 # l @ [CHR 0x22]) (co_label c))"

definition cost_spec_text :: "cost_spec \<Rightarrow> string" where
  "cost_spec_text c =
     (let amount_parts =
            (case cs_number_per c of None \<Rightarrow> [] | Some n \<Rightarrow> [dv_decimal n]) @
            (case cs_number_total c of None \<Rightarrow> [] | Some n \<Rightarrow> [''# '' @ dv_decimal n]) @
            opt_part id (cs_currency c)
      in join '', ''
           ((if amount_parts = [] then [] else [join '' '' amount_parts]) @ opt_part id (cs_date c) @
            opt_part (\<lambda>l. CHR 0x22 # l @ [CHR 0x22]) (cs_label c) @
            (if cs_merge c = Some True then [''*''] else [])))"

section \<open>Positions\<close>

record position =
  po_units :: amount
  po_cost :: "cost option"

definition position_negate :: "position \<Rightarrow> finance_error + position" where
  "position_negate p =
     (case amount_negate (po_units p) of Inl e \<Rightarrow> Inl e | Inr u \<Rightarrow> Inr (p\<lparr>po_units := u\<rparr>))"

definition position_equals :: "position \<Rightarrow> position \<Rightarrow> bool" where
  "position_equals a b \<longleftrightarrow>
     amount_equals (po_units a) (po_units b) \<and>
     (case po_cost a of None \<Rightarrow> po_cost b = None
      | Some c \<Rightarrow> (case po_cost b of None \<Rightarrow> False | Some d \<Rightarrow> cost_equals c d))"

definition currency_pair :: "position \<Rightarrow> string \<times> string option" where
  "currency_pair p = (am_currency (po_units p), map_option co_currency (po_cost p))"

definition position_key :: "position \<Rightarrow> string" where
  "position_key p =
     am_currency (po_units p) @ ''|'' @ (case po_cost p of None \<Rightarrow> [] | Some c \<Rightarrow> cost_key c)"

definition position_text :: "position \<Rightarrow> string" where
  "position_text p =
     (case po_cost p of
        None \<Rightarrow> amount_text (po_units p)
      | Some c \<Rightarrow> amount_text (po_units p) @ '' {'' @ cost_text c @ ''}'')"

section \<open>Inventories\<close>

type_synonym inventory = "(string \<times> position) list"

definition add_position :: "inventory \<Rightarrow> position \<Rightarrow> finance_error + inventory" where
  "add_position iv p =
     (let key = position_key p
      in case (case map_of iv key of
                 None \<Rightarrow> Inr (po_units p)
               | Some q \<Rightarrow> amount_add (po_units q) (po_units p)) of
           Inl e \<Rightarrow> Inl e
         | Inr units \<Rightarrow>
             Inr (if amount_is_zero units then AList.delete key iv
                  else AList.update key \<lparr>po_units = units, po_cost = po_cost p\<rparr> iv))"

definition add_amount :: "inventory \<Rightarrow> amount \<Rightarrow> finance_error + inventory" where
  "add_amount iv a = add_position iv \<lparr>po_units = a, po_cost = None\<rparr>"

fun add_positions :: "inventory \<Rightarrow> position list \<Rightarrow> finance_error + inventory" where
  "add_positions iv [] = Inr iv"
| "add_positions iv (p # ps) =
     (case add_position iv p of Inl e \<Rightarrow> Inl e | Inr iv' \<Rightarrow> add_positions iv' ps)"

definition new_inventory :: "position list \<Rightarrow> finance_error + inventory" where
  "new_inventory ps = add_positions [] ps"

definition currency_order_list :: "string list" where
  "currency_order_list = [''USD'', ''EUR'', ''JPY'', ''CAD'', ''GBP'', ''AUD'', ''NZD'', ''CHF'']"

definition currency_order :: "string \<Rightarrow> nat" where
  "currency_order c =
     (case map_of (zip currency_order_list [0..<length currency_order_list]) c of
        Some n \<Rightarrow> n | None \<Rightarrow> length currency_order_list + length c)"

definition compare_positions :: "(string \<Rightarrow> nat list) \<Rightarrow> position \<Rightarrow> nat \<times> nat list" where
  "compare_positions ckey p = (currency_order (am_currency (po_units p)), ckey (position_key p))"

definition inventory_positions :: "(string \<Rightarrow> nat list) \<Rightarrow> inventory \<Rightarrow> position list" where
  "inventory_positions ckey iv = sort_key (compare_positions ckey) (map snd iv)"

definition clone_inventory :: "(string \<Rightarrow> nat list) \<Rightarrow> inventory \<Rightarrow> finance_error + inventory" where
  "clone_inventory ckey iv = new_inventory (inventory_positions ckey iv)"

fun add_balances ::
    "(string \<times> amount) list \<Rightarrow> position list \<Rightarrow> finance_error + (string \<times> amount) list" where
  "add_balances bs [] = Inr bs"
| "add_balances bs (p # ps) =
     (case (case map_of bs (am_currency (po_units p)) of
              None \<Rightarrow> Inr (po_units p) | Some a \<Rightarrow> amount_add a (po_units p)) of
        Inl e \<Rightarrow> Inl e
      | Inr a \<Rightarrow> add_balances (AList.update (am_currency (po_units p)) a bs) ps)"

definition balance_by_currency :: "inventory \<Rightarrow> finance_error + (string \<times> amount) list" where
  "balance_by_currency iv = add_balances [] (map snd iv)"

definition inventory_is_empty :: "inventory \<Rightarrow> bool" where
  "inventory_is_empty iv \<longleftrightarrow> iv = []"

section \<open>Well-formed values\<close>

text \<open>What the constructors guarantee of amounts, costs and positions.\<close>

definition amount_ok :: "amount \<Rightarrow> bool" where
  "amount_ok a \<longleftrightarrow> is_commodity_symbol (am_currency a)"

definition am_value :: "amount \<Rightarrow> rat" where
  "am_value a = dec_value (am_number a)"

lemma amount_add_ok:
  "amount_ok a \<Longrightarrow> am_currency a = am_currency b \<Longrightarrow>
   \<exists>c. amount_add a b = Inr c \<and> amount_ok c \<and> am_currency c = am_currency a \<and>
     am_value c = am_value a + am_value b"
  by (auto simp: amount_add_def amount_of_decimal_def amount_ok_def am_value_def decimal_value_simps)

lemma amount_negate_ok:
  "amount_ok a \<Longrightarrow>
   \<exists>c. amount_negate a = Inr c \<and> amount_ok c \<and> am_currency c = am_currency a \<and> am_value c = - am_value a"
  by (auto simp: amount_negate_def amount_of_decimal_def amount_ok_def am_value_def decimal_value_simps)

lemma amount_is_zero_value: "amount_is_zero a \<longleftrightarrow> am_value a = 0"
  by (simp add: amount_is_zero_def am_value_def decimal_value_simps)

lemma symbol_no_bar: "is_commodity_symbol s \<Longrightarrow> CHR ''|'' \<notin> set s"
  by (cases s) (auto simp: is_commodity_symbol_def is_upper_def is_digit_def list_all_iff)

lemma append_separator_inj:
  "c \<notin> set u \<Longrightarrow> c \<notin> set v \<Longrightarrow> u @ c # x = v @ c # y \<Longrightarrow> u = v \<and> x = y"
proof (induction u arbitrary: v)
  case Nil
  then show ?case by (cases v) auto
next
  case (Cons a u)
  then show ?case by (cases v) auto
qed

lemma position_key_currency:
  assumes "amount_ok (po_units p)" and "amount_ok (po_units q)" and "position_key p = position_key q"
  shows "am_currency (po_units p) = am_currency (po_units q)"
proof (rule append_separator_inj [THEN conjunct1])
  show "CHR ''|'' \<notin> set (am_currency (po_units p))" "CHR ''|'' \<notin> set (am_currency (po_units q))"
    using assms(1,2) by (simp_all add: amount_ok_def symbol_no_bar)
  show "am_currency (po_units p) @ CHR ''|'' # (case po_cost p of None \<Rightarrow> [] | Some c \<Rightarrow> cost_key c) =
      am_currency (po_units q) @ CHR ''|'' # (case po_cost q of None \<Rightarrow> [] | Some c \<Rightarrow> cost_key c)"
    using assms(3) by (simp add: position_key_def)
qed

section \<open>The inventory invariant\<close>

text \<open>Every position stands under its own key, under one key only, and is not zero.\<close>

definition inventory_ok :: "inventory \<Rightarrow> bool" where
  "inventory_ok iv \<longleftrightarrow>
     distinct (map fst iv) \<and>
     (\<forall>(k, p)\<in>set iv. k = position_key p \<and> amount_ok (po_units p) \<and> am_value (po_units p) \<noteq> 0)"

text \<open>The units of a currency in a list of positions.\<close>

definition units_total :: "string \<Rightarrow> position list \<Rightarrow> rat" where
  "units_total c ps = sum_list (map (\<lambda>p. if am_currency (po_units p) = c then am_value (po_units p) else 0) ps)"

lemma units_total_simps [simp]:
  "units_total c [] = 0"
  "units_total c (p # ps) = (if am_currency (po_units p) = c then am_value (po_units p) else 0) + units_total c ps"
  by (simp_all add: units_total_def)

lemma delete_absent: "map_of iv k = None \<Longrightarrow> AList.delete k iv = iv"
  by (induction iv) (auto split: if_splits)

lemma set_delete_subset: "e \<in> set (AList.delete k kvs) \<Longrightarrow> e \<in> set kvs"
  by (induction kvs) (auto split: if_splits)

text \<open>Sums over an association list without repeated keys, entry by entry.\<close>

lemma alist_sum_delete:
  fixes f :: "'k \<times> 'v \<Rightarrow> rat"
  assumes "distinct (map fst kvs)"
  shows "sum_list (map f (AList.delete k kvs)) =
    sum_list (map f kvs) - (case map_of kvs k of None \<Rightarrow> 0 | Some w \<Rightarrow> f (k, w))"
  using assms
proof (induction kvs)
  case (Cons e kvs)
  show ?case
  proof (cases "fst e = k")
    case True
    with Cons.prems have "map_of kvs k = None" by (cases e) (simp add: map_of_eq_None_iff)
    with True show ?thesis by (cases e) (simp add: delete_absent)
  next
    case False
    with Cons show ?thesis by (cases e) auto
  qed
qed simp

lemma alist_sum_update:
  fixes f :: "'k \<times> 'v \<Rightarrow> rat"
  assumes "distinct (map fst kvs)"
  shows "sum_list (map f (AList.update k v kvs)) =
    f (k, v) + sum_list (map f kvs) - (case map_of kvs k of None \<Rightarrow> 0 | Some w \<Rightarrow> f (k, w))"
  using assms
proof (induction kvs)
  case (Cons e kvs)
  then show ?case by (cases e) simp
qed simp

lemma units_total_sum:
  "units_total c (map snd iv) = sum_list (map (\<lambda>e. units_total c [snd e]) iv)"
  by (induction iv) simp_all

lemma units_total_delete:
  "distinct (map fst iv) \<Longrightarrow> map_of iv k = Some q \<Longrightarrow>
   units_total c (map snd (AList.delete k iv)) = units_total c (map snd iv) - units_total c [q]"
  by (simp only: units_total_sum alist_sum_delete) simp

lemma units_total_update:
  "distinct (map fst iv) \<Longrightarrow>
   units_total c (map snd (AList.update k p iv)) =
     units_total c [p] + units_total c (map snd iv) - (case map_of iv k of None \<Rightarrow> 0 | Some q \<Rightarrow> units_total c [q])"
  by (simp only: units_total_sum alist_sum_update) (simp split: option.split)

lemma add_position_ok:
  assumes iv: "inventory_ok iv" and p: "amount_ok (po_units p)"
  shows "\<exists>iv'. add_position iv p = Inr iv' \<and> inventory_ok iv' \<and>
    (\<forall>c. units_total c (map snd iv') = units_total c (map snd iv) + units_total c [p])"
proof (cases "map_of iv (position_key p)")
  case None
  show ?thesis
  proof (cases "am_value (po_units p) = 0")
    case True
    then show ?thesis using iv None
      by (auto simp: add_position_def Let_def amount_is_zero_value delete_absent)
  next
    case False
    have "inventory_ok (AList.update (position_key p) p iv)"
      using iv p False by (auto simp: inventory_ok_def distinct_update dest!: set_update_subset)
    moreover have "add_position iv p = Inr (AList.update (position_key p) p iv)"
      using None False by (cases p) (simp add: add_position_def Let_def amount_is_zero_value)
    ultimately show ?thesis using None iv by (auto simp: units_total_update inventory_ok_def)
  qed
next
  case (Some q)
  then have q: "position_key q = position_key p" "amount_ok (po_units q)"
    using iv by (auto simp: inventory_ok_def dest!: map_of_SomeD)
  then have cur: "am_currency (po_units q) = am_currency (po_units p)"
    using position_key_currency p by blast
  obtain u where u: "amount_add (po_units q) (po_units p) = Inr u" "amount_ok u"
    "am_currency u = am_currency (po_units q)" "am_value u = am_value (po_units q) + am_value (po_units p)"
    using amount_add_ok [OF q(2) cur] by blast
  have d: "distinct (map fst iv)" using iv by (simp add: inventory_ok_def)
  show ?thesis
  proof (cases "am_value u = 0")
    case True
    have "inventory_ok (AList.delete (position_key p) iv)"
      using iv by (auto simp: inventory_ok_def distinct_delete dest!: set_delete_subset)
    moreover have "units_total c (map snd (AList.delete (position_key p) iv)) = units_total c (map snd iv) + units_total c [p]" for c
      using units_total_delete [OF d Some, of c] True u(4) cur by simp
    ultimately show ?thesis using Some u True
      by (simp add: add_position_def Let_def amount_is_zero_value)
  next
    case False
    let ?n = "\<lparr>po_units = u, po_cost = po_cost p\<rparr>"
    have k: "position_key ?n = position_key p" using u(3) cur by (simp add: position_key_def)
    have "inventory_ok (AList.update (position_key p) ?n iv)"
      using iv u(2) False k by (auto simp: inventory_ok_def distinct_update dest!: set_update_subset)
    moreover have "units_total c (map snd (AList.update (position_key p) ?n iv)) = units_total c (map snd iv) + units_total c [p]" for c
      using units_total_update [OF d, of c "position_key p" ?n] Some u(3,4) cur by simp
    ultimately show ?thesis using Some u(1) False
      by (simp add: add_position_def Let_def amount_is_zero_value)
  qed
qed

lemma add_positions_ok:
  "inventory_ok iv \<Longrightarrow> \<forall>p\<in>set ps. amount_ok (po_units p) \<Longrightarrow>
   \<exists>iv'. add_positions iv ps = Inr iv' \<and> inventory_ok iv' \<and>
     (\<forall>c. units_total c (map snd iv') = units_total c (map snd iv) + units_total c ps)"
proof (induction ps arbitrary: iv)
  case Nil
  then show ?case by simp
next
  case (Cons p ps)
  obtain iv1 where 1: "add_position iv p = Inr iv1" "inventory_ok iv1"
    "\<forall>c. units_total c (map snd iv1) = units_total c (map snd iv) + units_total c [p]"
    using add_position_ok [OF Cons.prems(1), of p] Cons.prems(2) by auto
  obtain iv2 where 2: "add_positions iv1 ps = Inr iv2" "inventory_ok iv2"
    "\<forall>c. units_total c (map snd iv2) = units_total c (map snd iv1) + units_total c ps"
    using Cons.IH [OF 1(2)] Cons.prems(2) by auto
  with 1 show ?case by (auto simp: add.assoc)
qed

section \<open>Balances\<close>

definition balances_ok :: "(string \<times> amount) list \<Rightarrow> bool" where
  "balances_ok bs \<longleftrightarrow> (\<forall>c a. map_of bs c = Some a \<longrightarrow> amount_ok a \<and> am_currency a = c)"

definition balance_value :: "(string \<times> amount) list \<Rightarrow> string \<Rightarrow> rat" where
  "balance_value bs c = (case map_of bs c of None \<Rightarrow> 0 | Some a \<Rightarrow> am_value a)"

lemma add_balances_ok:
  "balances_ok bs \<Longrightarrow> \<forall>p\<in>set ps. amount_ok (po_units p) \<Longrightarrow>
   \<exists>bs'. add_balances bs ps = Inr bs' \<and> balances_ok bs' \<and>
     (\<forall>c. balance_value bs' c = balance_value bs c + units_total c ps)"
proof (induction ps arbitrary: bs)
  case Nil
  then show ?case by simp
next
  case (Cons p ps)
  let ?c = "am_currency (po_units p)"
  obtain a where a: "(case map_of bs ?c of None \<Rightarrow> Inr (po_units p) | Some a \<Rightarrow> amount_add a (po_units p)) = Inr a"
    "amount_ok a" "am_currency a = ?c" "am_value a = balance_value bs ?c + am_value (po_units p)"
  proof (cases "map_of bs ?c")
    case None
    with Cons.prems(2) that [of "po_units p"] show thesis by (simp add: balance_value_def)
  next
    case (Some b)
    then have b: "amount_ok b" "am_currency b = ?c" using Cons.prems(1) by (auto simp: balances_ok_def)
    with amount_add_ok [OF b] Some that show thesis by (auto simp: balance_value_def)
  qed
  have "balances_ok (AList.update ?c a bs)"
    using Cons.prems(1) a(2,3) by (auto simp: balances_ok_def update_conv')
  then obtain bs' where "add_balances (AList.update ?c a bs) ps = Inr bs'" "balances_ok bs'"
    "\<forall>c. balance_value bs' c = balance_value (AList.update ?c a bs) c + units_total c ps"
    using Cons.IH Cons.prems(2) by fastforce
  with a(1,4) show ?case by (auto simp: balance_value_def update_conv')
qed


definition usd :: "int \<Rightarrow> position" where
  "usd n = \<lparr>po_units = \<lparr>am_number = decimal_from_coefficient n 2, am_currency = ''USD''\<rparr>, po_cost = None\<rparr>"


text \<open>
  Costs that are equal as values but written with different scales have different keys, so lots that
  \<open>Position.equals\<close> calls equal are kept apart and do not net.
\<close>

lemma equal_costs_split_lots:
  "cost_equals \<lparr>co_number = decimal_from_coefficient 100 1, co_currency = ''USD'', co_date = None, co_label = None\<rparr>
      \<lparr>co_number = decimal_from_coefficient 1000 2, co_currency = ''USD'', co_date = None, co_label = None\<rparr> \<and>
   cost_key \<lparr>co_number = decimal_from_coefficient 100 1, co_currency = ''USD'', co_date = None, co_label = None\<rparr> \<noteq>
   cost_key \<lparr>co_number = decimal_from_coefficient 1000 2, co_currency = ''USD'', co_date = None, co_label = None\<rparr>"
proof
  show "cost_equals \<lparr>co_number = decimal_from_coefficient 100 1, co_currency = ''USD'', co_date = None, co_label = None\<rparr>
      \<lparr>co_number = decimal_from_coefficient 1000 2, co_currency = ''USD'', co_date = None, co_label = None\<rparr>"
    by (simp add: cost_equals_def decimal_value_simps)
qed code_simp

end
