(* ===== verification/LedgerEntries.thy ===== *)
theory LedgerEntries
  imports FinanceInventory "HOL-Library.Multiset"
begin

text \<open>
  Ledger entries of the finance ledger plugin: \<open>beancount/entries.ts\<close>, \<open>beancount/sort.ts\<close>,
  \<open>domain/booking.ts\<close> and \<open>domain/accountName.ts\<close>. Sets of tags and links are lists without
  repetitions in insertion order. A number in metadata is its printed text. Dates are ISO dates, on
  which \<open>localeCompare\<close> is the order of their characters.
\<close>

section \<open>Bookings and accounts\<close>

datatype booking = STRICT | STRICT_WITH_SIZE | NONE | AVERAGE | FIFO | LIFO | HIFO

definition bookings :: "(string \<times> booking) list" where
  "bookings =
     [(''STRICT'', STRICT), (''STRICT_WITH_SIZE'', STRICT_WITH_SIZE), (''NONE'', NONE),
      (''AVERAGE'', AVERAGE), (''FIFO'', FIFO), (''LIFO'', LIFO), (''HIFO'', HIFO)]"

text \<open>\<open>Inl\<close> is the invalid method.\<close>

definition parse_booking :: "string option \<Rightarrow> string + booking option" where
  "parse_booking v =
     (case v of None \<Rightarrow> Inr None
      | Some s \<Rightarrow> if s = [] then Inr None
                  else (case map_of bookings s of Some b \<Rightarrow> Inr (Some b) | None \<Rightarrow> Inl s))"

fun booking_text :: "booking \<Rightarrow> string" where
  "booking_text STRICT = ''STRICT''"
| "booking_text STRICT_WITH_SIZE = ''STRICT_WITH_SIZE''"
| "booking_text NONE = ''NONE''"
| "booking_text AVERAGE = ''AVERAGE''"
| "booking_text FIFO = ''FIFO''"
| "booking_text LIFO = ''LIFO''"
| "booking_text HIFO = ''HIFO''"

lemma parse_booking_text: "parse_booking (Some (booking_text b)) = Inr (Some b)"
  by (cases b) (simp_all add: parse_booking_def bookings_def)

text \<open>
  The record of root types is a plain object, so a name that every object inherits is found in it
  too; \<open>Inherited\<close> is what such a lookup gives.
\<close>

datatype root_type = Assets | Liabilities | Equity | Income | Expenses | Inherited string

datatype account_error = InvalidAccountName | InvalidAccountRoot string

definition root_types :: "(string \<times> root_type) list" where
  "root_types = [(''Assets'', Assets), (''Liabilities'', Liabilities), (''Equity'', Equity),
                 (''Income'', Income), (''Expenses'', Expenses)]"

definition object_members :: "string list" where
  "object_members =
     [''constructor'', ''hasOwnProperty'', ''isPrototypeOf'', ''propertyIsEnumerable'',
      ''toLocaleString'', ''toString'', ''valueOf'', ''__proto__'', ''__defineGetter__'',
      ''__defineSetter__'', ''__lookupGetter__'', ''__lookupSetter__'']"

definition root_type_for_account_name :: "string \<Rightarrow> account_error + root_type" where
  "root_type_for_account_name name =
     (let parts = split_on CHR '':'' name
      in if length parts < 2 \<or> list_ex (\<lambda>p. js_trim p = []) parts then Inl InvalidAccountName
         else (case map_of root_types (hd parts) of
                 Some r \<Rightarrow> Inr r
               | None \<Rightarrow> if hd parts \<in> set object_members then Inr (Inherited (hd parts))
                         else Inl (InvalidAccountRoot (hd parts))))"

lemma inherited_root: "root_type_for_account_name ''constructor:Cash'' = Inr (Inherited ''constructor'')"
  by code_simp

section \<open>Entries\<close>

datatype meta_value = MText string | MNumber string | MBool bool | MNull

type_synonym metadata = "(string \<times> meta_value) list"

record source_location =
  sl_filename :: string
  sl_lineno :: nat

record entry_head =
  eh_date :: string
  eh_meta :: metadata
  eh_source :: "source_location option"

datatype posting_cost = AtCost cost | AtSpec cost_spec

record posting =
  pt_account :: string
  pt_units :: "amount option"
  pt_cost :: "posting_cost option"
  pt_price :: "amount option"
  pt_price_is_total :: bool
  pt_flag :: "string option"
  pt_meta :: metadata

record transaction =
  tx_flag :: string
  tx_payee :: "string option"
  tx_narration :: "string option"
  tx_tags :: "string list"
  tx_links :: "string list"
  tx_postings :: "posting list"

datatype dated_entry =
    OpenE string "string list" "booking option"
  | CloseE string
  | CommodityE string
  | PadE string string
  | BalanceE string amount "amount option"
  | TransactionE transaction
  | NoteE string string "string list" "string list"
  | EventE string string
  | QueryE string string
  | PriceE string amount
  | DocumentE string string "string list" "string list"
  | CustomE string "string list"

datatype config_entry =
    OptionE string string
  | IncludeE string
  | PluginE string "string option"
  | PushTagE string
  | PopTagE string
  | PushMetaE string "string option"
  | PopMetaE string

datatype ledger_entry =
    Dated entry_head dated_entry
  | Config metadata "source_location option" config_entry

fun is_dated_entry :: "ledger_entry \<Rightarrow> bool" where
  "is_dated_entry (Dated h e) = True"
| "is_dated_entry (Config m s e) = False"

section \<open>Order\<close>

fun sort_order :: "dated_entry \<Rightarrow> int" where
  "sort_order (OpenE a cs b) = - 2"
| "sort_order (BalanceE a m t) = - 1"
| "sort_order (DocumentE a f ts ls) = 1"
| "sort_order (CloseE a) = 2"
| "sort_order _ = 0"

fun entry_sort_key :: "ledger_entry \<Rightarrow> nat list \<times> int \<times> nat" where
  "entry_sort_key (Dated h e) =
     (map of_char (eh_date h), sort_order e, case eh_source h of None \<Rightarrow> 0 | Some s \<Rightarrow> sl_lineno s)"
| "entry_sort_key (Config m s e) = ([], 0, 0)"

definition sort_entries :: "ledger_entry list \<Rightarrow> ledger_entry list" where
  "sort_entries es =
     filter (\<lambda>e. \<not> is_dated_entry e) es @ sort_key entry_sort_key (filter is_dated_entry es)"

lemma sort_entries_mset [simp]: "mset (sort_entries es) = mset es"
proof (induction es)
  case (Cons e es)
  then show ?case by (simp add: sort_entries_def)
qed (simp add: sort_entries_def)

lemma sort_entries_idem: "sort_entries (sort_entries es) = sort_entries es"
proof -
  let ?d = "sort_key entry_sort_key (filter is_dated_entry es)"
  have "filter is_dated_entry ?d = ?d" by (simp add: filter_id_conv)
  moreover have "filter (\<lambda>e. \<not> is_dated_entry e) ?d = []" by (simp add: filter_empty_conv)
  moreover have "sort_key entry_sort_key ?d = ?d" by (rule sort_key_id_if_sorted) simp
  ultimately show ?thesis by (simp add: sort_entries_def filter_id_conv)
qed

end
