(* ===== verification/LedgerValidation.thy ===== *)
theory LedgerValidation
  imports LedgerEntries
begin

text \<open>
  Interpolation, padding and validation of the finance ledger plugin, \<open>beancount/validation.ts\<close>.
  Amounts of different commodities do not add, so every sum may fail; the errors of validation carry
  their code, what they are about and the source, not the message for a person.
\<close>

section \<open>Weights\<close>

definition zero_amount :: "string \<Rightarrow> finance_error + amount" where
  "zero_amount currency = amount_of ''0'' currency"

text \<open>\<open>negative ? negateDecimal(n) : n\<close>, by the sign of the units\<close>

definition with_sign_of :: "amount \<Rightarrow> decimal_value \<Rightarrow> decimal_value" where
  "with_sign_of units n = (if dv_coefficient (am_number units) < 0 then negate_decimal n else n)"

definition with_scale :: "finance_error + amount \<Rightarrow> nat \<Rightarrow> finance_error + (amount \<times> nat) option" where
  "with_scale a scale = (case a of Inl e \<Rightarrow> Inl e | Inr m \<Rightarrow> Inr (Some (m, scale)))"

definition posting_weight :: "posting \<Rightarrow> amount \<Rightarrow> finance_error + (amount \<times> nat) option" where
  "posting_weight p units =
     (case pt_cost p of
        Some (AtCost c) \<Rightarrow>
          with_scale (amount_of_decimal (multiply_decimal (am_number units) (co_number c)) (co_currency c))
            (dv_scale (co_number c))
      | Some (AtSpec spec) \<Rightarrow>
          (case (cs_currency spec, cs_number_per spec, cs_number_total spec) of
             (Some cur, Some per, _) \<Rightarrow>
               if cur = [] then Inr None
               else with_scale (amount_of_decimal (multiply_decimal (am_number units) per) cur) (dv_scale per)
           | (Some cur, None, Some tot) \<Rightarrow>
               if cur = [] then Inr None
               else with_scale (amount_of_decimal (with_sign_of units tot) cur) (dv_scale tot)
           | _ \<Rightarrow> Inr None)
      | None \<Rightarrow>
          (case pt_price p of
             Some price \<Rightarrow>
               if pt_price_is_total p
               then with_scale (amount_of_decimal (with_sign_of units (am_number price)) (am_currency price))
                      (dv_scale (am_number price))
               else with_scale (amount_of_decimal (multiply_decimal (am_number units) (am_number price))
                      (am_currency price)) (dv_scale (am_number price))
           | None \<Rightarrow> Inr (Some (units, dv_scale (am_number units)))))"

section \<open>Balance of a transaction\<close>

definition diff_within_tolerance :: "amount \<Rightarrow> amount option \<Rightarrow> finance_error + bool" where
  "diff_within_tolerance diff tolerance =
     (if amount_is_zero diff then Inr True
      else (case tolerance of
              None \<Rightarrow> Inr False
            | Some t \<Rightarrow>
                (case zero_amount (am_currency diff) of
                   Inl e \<Rightarrow> Inl e
                 | Inr z \<Rightarrow>
                     (case amount_compare diff z of
                        Inl e \<Rightarrow> Inl e
                      | Inr c \<Rightarrow>
                          (case (if c < 0 then amount_negate diff else Inr diff) of
                             Inl e \<Rightarrow> Inl e
                           | Inr a \<Rightarrow> Inr (compare_decimal (am_number a) (am_number t) \<le> 0))))))"

definition balancing_tolerance :: "string \<Rightarrow> nat \<Rightarrow> finance_error + amount option" where
  "balancing_tolerance currency scale =
     (if scale = 0 then Inr None
      else (case amount_of (''0.'' @ replicate scale CHR ''0'' @ ''5'') currency of
              Inl e \<Rightarrow> Inl e | Inr a \<Rightarrow> Inr (Some a)))"

datatype balance_problem =
    TransactionIncomplete
  | UnsupportedCostSpec string
  | TransactionUnbalanced amount

type_synonym residuals = "(string \<times> amount) list"

text \<open>The loop over the postings; a problem found here is the only one reported.\<close>

fun weigh_postings ::
    "residuals \<Rightarrow> (string \<times> nat) list \<Rightarrow> posting list \<Rightarrow>
     finance_error + (balance_problem + residuals \<times> (string \<times> nat) list)" where
  "weigh_postings res scales [] = Inr (Inr (res, scales))"
| "weigh_postings res scales (p # ps) =
     (case pt_units p of
        None \<Rightarrow> Inr (Inl TransactionIncomplete)
      | Some units \<Rightarrow>
          (case posting_weight p units of
             Inl e \<Rightarrow> Inl e
           | Inr None \<Rightarrow> Inr (Inl (UnsupportedCostSpec (pt_account p)))
           | Inr (Some (w, scale)) \<Rightarrow>
               (case (case map_of res (am_currency w) of None \<Rightarrow> Inr w | Some cur \<Rightarrow> amount_add cur w) of
                  Inl e \<Rightarrow> Inl e
                | Inr r \<Rightarrow>
                    weigh_postings (AList.update (am_currency w) r res)
                      (if 0 < scale
                       then AList.update (am_currency w)
                              (case map_of scales (am_currency w) of
                                 None \<Rightarrow> scale | Some k \<Rightarrow> min k scale) scales
                       else scales)
                      ps)))"

fun unbalanced :: "(string \<times> nat) list \<Rightarrow> residuals \<Rightarrow> finance_error + balance_problem list" where
  "unbalanced scales [] = Inr []"
| "unbalanced scales ((currency, a) # res) =
     (case balancing_tolerance currency (case map_of scales currency of None \<Rightarrow> 0 | Some k \<Rightarrow> k) of
        Inl e \<Rightarrow> Inl e
      | Inr tol \<Rightarrow>
          (case diff_within_tolerance a tol of
             Inl e \<Rightarrow> Inl e
           | Inr ok \<Rightarrow>
               (case unbalanced scales res of
                  Inl e \<Rightarrow> Inl e
                | Inr ps \<Rightarrow> Inr (if ok then ps else TransactionUnbalanced a # ps))))"

definition transaction_balance_errors :: "posting list \<Rightarrow> finance_error + balance_problem list" where
  "transaction_balance_errors ps =
     (case weigh_postings [] [] ps of
        Inl e \<Rightarrow> Inl e
      | Inr (Inl problem) \<Rightarrow> Inr [problem]
      | Inr (Inr (res, scales)) \<Rightarrow> unbalanced scales res)"

section \<open>Interpolation\<close>

text \<open>The weights of the postings other than the incomplete one; \<open>None\<close> when one cannot be weighed.\<close>

fun other_weights :: "posting list \<Rightarrow> finance_error + amount list option" where
  "other_weights [] = Inr (Some [])"
| "other_weights (p # ps) =
     (case pt_units p of
        None \<Rightarrow> other_weights ps
      | Some units \<Rightarrow>
          (case posting_weight p units of
             Inl e \<Rightarrow> Inl e
           | Inr None \<Rightarrow> Inr None
           | Inr (Some (w, _)) \<Rightarrow>
               (case other_weights ps of
                  Inl e \<Rightarrow> Inl e
                | Inr None \<Rightarrow> Inr None
                | Inr (Some ws) \<Rightarrow> Inr (Some (w # ws)))))"

fun sum_amounts :: "amount \<Rightarrow> amount list \<Rightarrow> finance_error + amount" where
  "sum_amounts s [] = Inr s"
| "sum_amounts s (a # as) = (case amount_add s a of Inl e \<Rightarrow> Inl e | Inr s' \<Rightarrow> sum_amounts s' as)"

definition fill_posting :: "amount \<Rightarrow> posting \<Rightarrow> posting" where
  "fill_posting a p =
     (if pt_units p = None
      then p\<lparr>pt_units := Some a, pt_meta := AList.update ''interpolated'' (MBool True) (pt_meta p)\<rparr>
      else p)"

definition interpolate_transaction :: "transaction \<Rightarrow> finance_error + transaction" where
  "interpolate_transaction t =
     (case filter (\<lambda>p. pt_units p = None) (tx_postings t) of
        [target] \<Rightarrow>
          if pt_cost target \<noteq> None \<or> pt_price target \<noteq> None then Inr t
          else (case other_weights (tx_postings t) of
                  Inl e \<Rightarrow> Inl e
                | Inr None \<Rightarrow> Inr t
                | Inr (Some []) \<Rightarrow> Inr t
                | Inr (Some (w # ws)) \<Rightarrow>
                    if am_currency w = [] \<or> list_ex (\<lambda>a. am_currency a \<noteq> am_currency w) (w # ws) then Inr t
                    else (case zero_amount (am_currency w) of
                            Inl e \<Rightarrow> Inl e
                          | Inr z \<Rightarrow>
                              (case sum_amounts z (w # ws) of
                                 Inl e \<Rightarrow> Inl e
                               | Inr residual \<Rightarrow>
                                   (case amount_negate residual of
                                      Inl e \<Rightarrow> Inl e
                                    | Inr replacement \<Rightarrow>
                                        Inr (t\<lparr>tx_postings :=
                                               map (fill_posting replacement) (tx_postings t)\<rparr>)))))
      | _ \<Rightarrow> Inr t)"

fun interpolate_entries :: "ledger_entry list \<Rightarrow> finance_error + ledger_entry list" where
  "interpolate_entries [] = Inr []"
| "interpolate_entries (e # es) =
     (case (case e of
              Dated h (TransactionE t) \<Rightarrow>
                (case interpolate_transaction t of
                   Inl err \<Rightarrow> Inl err | Inr t' \<Rightarrow> Inr (Dated h (TransactionE t')))
            | _ \<Rightarrow> Inr e) of
        Inl err \<Rightarrow> Inl err
      | Inr e' \<Rightarrow> (case interpolate_entries es of Inl err \<Rightarrow> Inl err | Inr es' \<Rightarrow> Inr (e' # es')))"

section \<open>Running balances\<close>

definition balance_key :: "string \<Rightarrow> string \<Rightarrow> string" where
  "balance_key account currency = account @ ''|'' @ currency"

fun apply_postings :: "residuals \<Rightarrow> posting list \<Rightarrow> finance_error + residuals" where
  "apply_postings bal [] = Inr bal"
| "apply_postings bal (p # ps) =
     (case pt_units p of
        None \<Rightarrow> apply_postings bal ps
      | Some u \<Rightarrow>
          (let key = balance_key (pt_account p) (am_currency u)
           in case (case map_of bal key of None \<Rightarrow> Inr u | Some cur \<Rightarrow> amount_add cur u) of
                Inl e \<Rightarrow> Inl e
              | Inr a \<Rightarrow> apply_postings (AList.update key a bal) ps))"

definition part :: "nat \<Rightarrow> string \<Rightarrow> string" where
  "part i key = (let ps = split_on CHR ''|'' key in if i < length ps then ps ! i else [])"

definition in_subtree :: "string \<Rightarrow> string \<Rightarrow> bool" where
  "in_subtree account a \<longleftrightarrow> a = account \<or> starts_with (account @ '':'') a"

fun sum_subtree :: "string \<Rightarrow> string \<Rightarrow> amount \<Rightarrow> residuals \<Rightarrow> finance_error + amount" where
  "sum_subtree account currency acc [] = Inr acc"
| "sum_subtree account currency acc ((key, a) # bal) =
     (if part 1 key = currency \<and> in_subtree account (part 0 key)
      then (case amount_add acc a of
              Inl e \<Rightarrow> Inl e | Inr s \<Rightarrow> sum_subtree account currency s bal)
      else sum_subtree account currency acc bal)"

definition subtree_balance :: "residuals \<Rightarrow> string \<Rightarrow> string \<Rightarrow> finance_error + amount" where
  "subtree_balance bal account currency =
     (case zero_amount currency of Inl e \<Rightarrow> Inl e | Inr z \<Rightarrow> sum_subtree account currency z bal)"

section \<open>Padding\<close>

record pad_state =
  ps_result :: "ledger_entry list"
  ps_balances :: residuals
  ps_pending :: "string \<rightharpoonup> entry_head \<times> string"

definition plain_posting :: "string \<Rightarrow> amount \<Rightarrow> posting" where
  "plain_posting account units =
     \<lparr>pt_account = account, pt_units = Some units, pt_cost = None, pt_price = None,
      pt_price_is_total = False, pt_flag = None, pt_meta = []\<rparr>"

definition pad_transaction :: "string \<Rightarrow> string \<Rightarrow> amount \<Rightarrow> amount \<Rightarrow> transaction" where
  "pad_transaction account source diff neg =
     \<lparr>tx_flag = ''P'', tx_payee = None, tx_narration = Some (''Pad '' @ account), tx_tags = [],
      tx_links = [], tx_postings = [plain_posting account diff, plain_posting source neg]\<rparr>"

definition pad_head :: "entry_head \<Rightarrow> entry_head" where
  "pad_head h =
     \<lparr>eh_date = eh_date h, eh_meta = [(''generated_by'', MText ''finance_ledger_pad'')],
      eh_source = eh_source h\<rparr>"

definition push_result :: "ledger_entry \<Rightarrow> pad_state \<Rightarrow> pad_state" where
  "push_result e s = s\<lparr>ps_result := ps_result s @ [e]\<rparr>"

definition pad_balance :: "entry_head \<Rightarrow> string \<Rightarrow> amount \<Rightarrow> pad_state \<Rightarrow> finance_error + pad_state" where
  "pad_balance h account expected s =
     (case subtree_balance (ps_balances s) account (am_currency expected) of
        Inl e \<Rightarrow> Inl e
      | Inr actual \<Rightarrow>
          (case amount_negate actual of
             Inl e \<Rightarrow> Inl e
           | Inr n \<Rightarrow>
               (case amount_add expected n of
                  Inl e \<Rightarrow> Inl e
                | Inr diff \<Rightarrow>
                    (case ps_pending s account of
                       None \<Rightarrow> Inr s
                     | Some (ph, source) \<Rightarrow>
                         if amount_is_zero diff then Inr s
                         else (case amount_negate diff of
                                 Inl e \<Rightarrow> Inl e
                               | Inr neg \<Rightarrow>
                                   (let t = pad_transaction account source diff neg
                                    in case apply_postings (ps_balances s) (tx_postings t) of
                                         Inl e \<Rightarrow> Inl e
                                       | Inr bal \<Rightarrow>
                                           Inr (push_result (Dated (pad_head ph) (TransactionE t))
                                             (s\<lparr>ps_balances := bal,
                                                ps_pending := (ps_pending s)(account := None)\<rparr>))))))))"

fun pad_step :: "ledger_entry \<Rightarrow> pad_state \<Rightarrow> finance_error + pad_state" where
  "pad_step (Dated h (PadE account source)) s =
     Inr (push_result (Dated h (PadE account source))
            (s\<lparr>ps_pending := (ps_pending s)(account \<mapsto> (h, source))\<rparr>))"
| "pad_step (Dated h (BalanceE account expected tol)) s =
     (case pad_balance h account expected s of
        Inl e \<Rightarrow> Inl e | Inr s' \<Rightarrow> Inr (push_result (Dated h (BalanceE account expected tol)) s'))"
| "pad_step (Dated h (TransactionE t)) s =
     (case apply_postings (ps_balances s) (tx_postings t) of
        Inl e \<Rightarrow> Inl e
      | Inr bal \<Rightarrow> Inr (push_result (Dated h (TransactionE t)) (s\<lparr>ps_balances := bal\<rparr>)))"
| "pad_step e s = Inr (push_result e s)"

fun pad_steps :: "ledger_entry list \<Rightarrow> pad_state \<Rightarrow> finance_error + pad_state" where
  "pad_steps [] s = Inr s"
| "pad_steps (e # es) s = (case pad_step e s of Inl err \<Rightarrow> Inl err | Inr s' \<Rightarrow> pad_steps es s')"

definition apply_pad_directives :: "ledger_entry list \<Rightarrow> finance_error + ledger_entry list" where
  "apply_pad_directives es =
     (case pad_steps (sort_entries es) \<lparr>ps_result = [], ps_balances = [], ps_pending = Map.empty\<rparr> of
        Inl e \<Rightarrow> Inl e
      | Inr s \<Rightarrow> Inr (sort_entries (ps_result s)))"

definition transform_entries :: "ledger_entry list \<Rightarrow> finance_error + ledger_entry list" where
  "transform_entries es =
     (case interpolate_entries es of Inl e \<Rightarrow> Inl e | Inr es' \<Rightarrow> apply_pad_directives es')"

section \<open>Validation\<close>

datatype error_code =
    DuplicateOpen | CloseUnopened | CloseBeforeOpen | DuplicateClose | DuplicateCommodity
  | InactiveAccount string | UnknownAccount string | PostingsMin | InvalidFlag
  | CurrencyConstraint string string | BalanceProblem balance_problem | InvalidDocumentPath
  | DuplicateBalance | BalanceAssertionFailed

type_synonym ledger_error = "error_code \<times> source_location option"

record validation_state =
  va_open :: "string \<rightharpoonup> string \<times> string list"
  va_closed :: "string set"
  va_active :: "string set"
  va_commodities :: "string set"
  va_asserted :: "string \<rightharpoonup> amount"
  va_balances :: residuals

definition valid_flags :: "string list" where
  "valid_flags = map (\<lambda>c. [c]) ''*!&#?%PSTCURM''"

definition is_valid_flag :: "string \<Rightarrow> bool" where
  "is_valid_flag f \<longleftrightarrow> f \<in> set valid_flags"

fun referenced_accounts :: "dated_entry \<Rightarrow> string list" where
  "referenced_accounts (TransactionE t) = map pt_account (tx_postings t)"
| "referenced_accounts (BalanceE a m t) = [a]"
| "referenced_accounts (NoteE a c ts ls) = [a]"
| "referenced_accounts (DocumentE a f ts ls) = [a]"
| "referenced_accounts (PadE a s) = [a, s]"
| "referenced_accounts _ = []"

text \<open>The first complaint about a posting's flag or commodity ends the check of the transaction.\<close>

definition posting_error :: "(string \<rightharpoonup> string \<times> string list) \<Rightarrow> posting \<Rightarrow> error_code option" where
  "posting_error opn p =
     (if pt_flag p \<noteq> None \<and> \<not> is_valid_flag (the (pt_flag p)) then Some InvalidFlag
      else (case pt_units p of
              None \<Rightarrow> None
            | Some u \<Rightarrow>
                (case opn (pt_account p) of
                   Some (_, currencies) \<Rightarrow>
                     if currencies \<noteq> [] \<and> am_currency u \<notin> set currencies
                     then Some (CurrencyConstraint (am_currency u) (pt_account p)) else None
                 | None \<Rightarrow> None)))"

definition validate_transaction ::
    "transaction \<Rightarrow> (string \<rightharpoonup> string \<times> string list) \<Rightarrow> finance_error + error_code list" where
  "validate_transaction t opn =
     (if length (tx_postings t) < 2 then Inr [PostingsMin]
      else if \<not> is_valid_flag (tx_flag t) then Inr [InvalidFlag]
      else (case first_some (map (\<lambda>p (_::unit). posting_error opn p) (tx_postings t)) () of
              Some c \<Rightarrow> Inr [c]
            | None \<Rightarrow> (case transaction_balance_errors (tx_postings t) of
                         Inl e \<Rightarrow> Inl e | Inr ps \<Rightarrow> Inr (map BalanceProblem ps))))"

definition inferred_balance_tolerance :: "amount \<Rightarrow> finance_error + amount option" where
  "inferred_balance_tolerance a =
     (let scale = dv_scale (am_number a)
      in if scale = 0 then Inr None
         else (case amount_of (''0.'' @ replicate (scale - 1) CHR ''0'' @ ''1'') (am_currency a) of
                 Inl e \<Rightarrow> Inl e | Inr t \<Rightarrow> Inr (Some t)))"

definition validate_balance ::
    "entry_head \<Rightarrow> string \<Rightarrow> amount \<Rightarrow> amount option \<Rightarrow> validation_state \<Rightarrow>
     finance_error + error_code list \<times> validation_state" where
  "validate_balance h account expected tol s =
     (let key = account @ ''|'' @ am_currency expected @ ''|'' @ eh_date h;
          dup = (case va_asserted s key of Some prev \<Rightarrow> \<not> amount_equals prev expected | None \<Rightarrow> False);
          s' = s\<lparr>va_asserted := (va_asserted s)(key \<mapsto> expected)\<rparr>
      in case subtree_balance (va_balances s) account (am_currency expected) of
           Inl e \<Rightarrow> Inl e
         | Inr actual \<Rightarrow>
             (case amount_negate expected of
                Inl e \<Rightarrow> Inl e
              | Inr n \<Rightarrow>
                  (case amount_add actual n of
                     Inl e \<Rightarrow> Inl e
                   | Inr diff \<Rightarrow>
                       (case (case tol of Some t \<Rightarrow> Inr (Some t)
                              | None \<Rightarrow> inferred_balance_tolerance expected) of
                          Inl e \<Rightarrow> Inl e
                        | Inr t \<Rightarrow>
                            (case diff_within_tolerance diff t of
                               Inl e \<Rightarrow> Inl e
                             | Inr ok \<Rightarrow>
                                 Inr ((if dup then [DuplicateBalance] else []) @
                                      (if ok then [] else [BalanceAssertionFailed]), s'))))))"

fun validate_entry ::
    "ledger_entry \<Rightarrow> validation_state \<Rightarrow> finance_error + error_code list \<times> validation_state" where
  "validate_entry (Config m src e) s = Inr ([], s)"
| "validate_entry (Dated h (OpenE account currencies b)) s =
     Inr (if va_open s account \<noteq> None then ([DuplicateOpen], s)
          else ([], s\<lparr>va_open := (va_open s)(account \<mapsto> (eh_date h, currencies)),
                     va_active := insert account (va_active s)\<rparr>))"
| "validate_entry (Dated h (CloseE account)) s =
     Inr ((case va_open s account of
             None \<Rightarrow> [CloseUnopened]
           | Some (d, _) \<Rightarrow>
               if (map of_char (eh_date h) :: nat list) < map of_char d then [CloseBeforeOpen] else []) @
          (if account \<in> va_closed s then [DuplicateClose] else []),
          s\<lparr>va_closed := insert account (va_closed s), va_active := va_active s - {account}\<rparr>)"
| "validate_entry (Dated h e) s =
     (let (dup, s1) = (case e of
             CommodityE c \<Rightarrow> (if c \<in> va_commodities s then [DuplicateCommodity] else [],
                             s\<lparr>va_commodities := insert c (va_commodities s)\<rparr>)
           | _ \<Rightarrow> ([], s));
          refs = map (\<lambda>a. if va_open s a \<noteq> None then InactiveAccount a else UnknownAccount a)
                   (filter (\<lambda>a. a \<notin> va_active s) (referenced_accounts e))
      in case e of
           TransactionE t \<Rightarrow>
             (case validate_transaction t (va_open s) of
                Inl err \<Rightarrow> Inl err
              | Inr es \<Rightarrow>
                  (case apply_postings (va_balances s) (tx_postings t) of
                     Inl err \<Rightarrow> Inl err
                   | Inr bal \<Rightarrow> Inr (refs @ es, s\<lparr>va_balances := bal\<rparr>)))
         | BalanceE account expected tol \<Rightarrow>
             (case validate_balance h account expected tol s of
                Inl err \<Rightarrow> Inl err | Inr (es, s') \<Rightarrow> Inr (refs @ es, s'))
         | DocumentE account filename ts ls \<Rightarrow>
             Inr (refs @ (if js_trim filename = [] then [InvalidDocumentPath] else []), s1)
         | _ \<Rightarrow> Inr (dup @ refs, s1))"

fun entry_source :: "ledger_entry \<Rightarrow> source_location option" where
  "entry_source (Dated h e) = eh_source h"
| "entry_source (Config m s e) = s"

fun validate_loop ::
    "ledger_entry list \<Rightarrow> validation_state \<Rightarrow> finance_error + ledger_error list \<times> validation_state" where
  "validate_loop [] s = Inr ([], s)"
| "validate_loop (e # es) s =
     (case validate_entry e s of
        Inl err \<Rightarrow> Inl err
      | Inr (cs, s') \<Rightarrow>
          (case validate_loop es s' of
             Inl err \<Rightarrow> Inl err
           | Inr (errs, s'') \<Rightarrow> Inr (map (\<lambda>c. (c, entry_source e)) cs @ errs, s'')))"

definition initial_validation :: validation_state where
  "initial_validation =
     \<lparr>va_open = Map.empty, va_closed = {}, va_active = {}, va_commodities = {},
      va_asserted = Map.empty, va_balances = []\<rparr>"

definition validate_entries :: "ledger_entry list \<Rightarrow> finance_error + ledger_error list" where
  "validate_entries es =
     (case validate_loop (sort_entries es) initial_validation of
        Inl e \<Rightarrow> Inl e | Inr (errs, _) \<Rightarrow> Inr errs)"

end
