(* ===== verification/LedgerProperties.thy ===== *)
theory LedgerProperties
  imports LedgerValidation
begin

text \<open>
  What the ledger's arithmetic amounts to: transactions balance by weight up to a tolerance,
  interpolated postings balance exactly, running balances are the sums of the postings, and a pad
  meets the assertion it is for.
\<close>

section \<open>Well-formed postings\<close>

definition posting_ok :: "posting \<Rightarrow> bool" where
  "posting_ok p \<longleftrightarrow>
     (case pt_units p of None \<Rightarrow> True | Some u \<Rightarrow> amount_ok u) \<and>
     (case pt_cost p of
        None \<Rightarrow> True
      | Some (AtCost c) \<Rightarrow> is_commodity_symbol (co_currency c)
      | Some (AtSpec s) \<Rightarrow> (case cs_currency s of None \<Rightarrow> True | Some cur \<Rightarrow> is_commodity_symbol cur)) \<and>
     (case pt_price p of None \<Rightarrow> True | Some a \<Rightarrow> amount_ok a)"

text \<open>The weight of a posting, when it has one.\<close>

definition weight :: "posting \<Rightarrow> (amount \<times> nat) option" where
  "weight p =
     (case pt_units p of
        None \<Rightarrow> None
      | Some u \<Rightarrow> (case posting_weight p u of Inl e \<Rightarrow> None | Inr w \<Rightarrow> w))"

lemma amount_of_decimal_ok:
  "is_commodity_symbol c \<Longrightarrow> amount_of_decimal n c = Inr \<lparr>am_number = n, am_currency = c\<rparr>"
  by (simp add: amount_of_decimal_def)

lemma posting_weight_total:
  assumes "posting_ok p" and "pt_units p = Some u"
  shows "posting_weight p u = Inr (weight p) \<and> (\<forall>m k. weight p = Some (m, k) \<longrightarrow> amount_ok m)"
proof -
  have "\<exists>w. posting_weight p u = Inr w \<and> (\<forall>m k. w = Some (m, k) \<longrightarrow> amount_ok m)"
    using assms
    by (auto simp: posting_weight_def posting_ok_def amount_of_decimal_ok with_scale_def amount_ok_def
        split: option.splits posting_cost.splits)
  then show ?thesis using assms(2) by (auto simp: weight_def)
qed

lemma zero_amount_ok:
  assumes "is_commodity_symbol c"
  shows "\<exists>z. zero_amount c = Inr z \<and> amount_ok z \<and> am_currency z = c \<and> am_value z = 0"
proof -
  have "parse_decimal ''0'' = Inr (decimal_from_coefficient 0 0)"
    using parse_whole [of "''0''" False] by (simp add: is_digit_def digits_value_def digit_value_def)
  then show ?thesis
    using assms by (simp add: zero_amount_def amount_of_def amount_ok_def am_value_def decimal_value_simps)
qed

text \<open>\<open>0.\<close>, zeros and one more digit.\<close>

lemma small_amount:
  assumes "is_commodity_symbol c" and "is_digit d"
  shows "\<exists>t. amount_of (''0.'' @ replicate k CHR ''0'' @ [d]) c = Inr t \<and>
    dec_value (am_number t) = of_nat (digit_value d) / 10 ^ (k + 1)"
proof -
  have z: "is_digit CHR ''0''" by (simp add: is_digit_def)
  have v: "digits_value (''0'' @ replicate k CHR ''0'' @ [d]) = digit_value d"
    using digits_value_zeros [of "Suc k" "[d]"] by (simp add: digits_value_def)
  have "parse_decimal ((if False then ''-'' else []) @ ''0'' @ ''.'' @ (replicate k CHR ''0'' @ [d])) =
      Inr (decimal_from_coefficient (int (digits_value (''0'' @ replicate k CHR ''0'' @ [d])) *
        (if False then - 1 else 1)) (length (replicate k CHR ''0'' @ [d])))"
    using z assms(2) by (intro parse_point) (auto simp: list_all_iff)
  then have "parse_decimal (''0.'' @ replicate k CHR ''0'' @ [d]) =
      Inr (decimal_from_coefficient (int (digit_value d)) (k + 1))"
    unfolding v by simp
  then show ?thesis using assms(1) by (simp add: amount_of_def decimal_value_simps)
qed

definition tolerance_value :: "amount option \<Rightarrow> rat" where
  "tolerance_value t = (case t of None \<Rightarrow> 0 | Some a \<Rightarrow> dec_value (am_number a))"

lemma balancing_tolerance_ok:
  assumes "is_commodity_symbol c"
  shows "\<exists>t. balancing_tolerance c k = Inr t \<and>
    tolerance_value t = (if k = 0 then 0 else 5 / 10 ^ (k + 1))"
proof -
  obtain a where "amount_of (''0.'' @ replicate k CHR ''0'' @ ''5'') c = Inr a"
    "dec_value (am_number a) = 5 / 10 ^ (k + 1)"
    using small_amount [OF assms, of "CHR ''5''" k] by (auto simp: is_digit_def digit_value_def)
  then show ?thesis by (simp add: balancing_tolerance_def tolerance_value_def)
qed

lemma inferred_tolerance_ok:
  assumes "amount_ok a"
  shows "\<exists>t. inferred_balance_tolerance a = Inr t \<and>
    tolerance_value t = (if dv_scale (am_number a) = 0 then 0 else 1 / 10 ^ dv_scale (am_number a))"
proof -
  obtain t where "amount_of (''0.'' @ replicate (dv_scale (am_number a) - 1) CHR ''0'' @ ''1'') (am_currency a) = Inr t"
    "dec_value (am_number t) = 1 / 10 ^ (dv_scale (am_number a) - 1 + 1)"
    using small_amount [of "am_currency a" "CHR ''1''" "dv_scale (am_number a) - 1"] assms
    by (auto simp: is_digit_def digit_value_def amount_ok_def)
  then show ?thesis
    by (cases "dv_scale (am_number a)")
      (simp_all add: inferred_balance_tolerance_def tolerance_value_def Let_def)
qed

lemma diff_within_tolerance_ok:
  assumes a: "amount_ok a"
  shows "diff_within_tolerance a t = Inr (am_value a = 0 \<or> \<bar>am_value a\<bar> \<le> tolerance_value t)"
proof -
  obtain z where z: "zero_amount (am_currency a) = Inr z" "am_currency z = am_currency a" "am_value z = 0"
    using zero_amount_ok a by (auto simp: amount_ok_def)
  have cmp: "amount_compare a z = Inr (if am_value a = 0 then 0 else if am_value a < 0 then - 1 else 1)"
    using z(2,3) by (simp add: amount_compare_def decimal_value_simps am_value_def)
  obtain n where "amount_negate a = Inr n" "am_value n = - am_value a" using amount_negate_ok [OF a] by blast
  with z(1) cmp show ?thesis
    by (cases t) (auto simp: diff_within_tolerance_def amount_is_zero_value tolerance_value_def
        am_value_def decimal_value_simps)
qed

section \<open>Balance by weight\<close>

fun residual :: "string \<Rightarrow> posting list \<Rightarrow> rat" where
  "residual c [] = 0"
| "residual c (p # ps) =
     (case weight p of
        None \<Rightarrow> 0 | Some (m, k) \<Rightarrow> if am_currency m = c then am_value m else 0) + residual c ps"

text \<open>The coarsest precision above whole units among the weights of a commodity.\<close>

fun coarsest :: "string \<Rightarrow> posting list \<Rightarrow> nat option" where
  "coarsest c [] = None"
| "coarsest c (p # ps) =
     (case weight p of
        Some (m, k) \<Rightarrow>
          if am_currency m = c \<and> 0 < k
          then Some (case coarsest c ps of None \<Rightarrow> k | Some j \<Rightarrow> min k j) else coarsest c ps
      | None \<Rightarrow> coarsest c ps)"

definition tolerance_of :: "string \<Rightarrow> posting list \<Rightarrow> rat" where
  "tolerance_of c ps = (case coarsest c ps of None \<Rightarrow> 0 | Some k \<Rightarrow> 5 / 10 ^ (k + 1))"

definition min_option :: "nat option \<Rightarrow> nat option \<Rightarrow> nat option" where
  "min_option a b =
     (case a of None \<Rightarrow> b | Some j \<Rightarrow> Some (case b of None \<Rightarrow> j | Some k \<Rightarrow> min j k))"

lemma coarsest_pos: "coarsest c ps = Some k \<Longrightarrow> 0 < k"
  by (induction ps arbitrary: k) (auto split: option.splits if_splits)

definition weighed ::
    "residuals \<Rightarrow> (string \<times> nat) list \<Rightarrow> posting list \<Rightarrow> residuals \<Rightarrow> (string \<times> nat) list \<Rightarrow> bool" where
  "weighed res scales ps res' scales' \<longleftrightarrow>
     balances_ok res' \<and> distinct (map fst res') \<and>
     (\<forall>c. balance_value res' c = balance_value res c + residual c ps) \<and>
     (\<forall>c. map_of scales' c = min_option (map_of scales c) (coarsest c ps))"

lemma weigh_postings_ok:
  "\<forall>p\<in>set ps. posting_ok p \<Longrightarrow> \<forall>p\<in>set ps. weight p \<noteq> None \<Longrightarrow> balances_ok res \<Longrightarrow>
   distinct (map fst res) \<Longrightarrow>
   \<exists>res' scales'. weigh_postings res scales ps = Inr (Inr (res', scales')) \<and>
     weighed res scales ps res' scales'"
proof (induction ps arbitrary: res scales)
  case Nil
  then show ?case by (auto simp: weighed_def min_option_def split: option.splits)
next
  case (Cons p ps)
  obtain m k where w: "weight p = Some (m, k)" using Cons.prems(2) by auto
  then obtain u where u: "pt_units p = Some u" by (auto simp: weight_def split: option.splits)
  have pw: "posting_weight p u = Inr (Some (m, k))" "amount_ok m"
    using posting_weight_total [of p u] Cons.prems(1) u w by auto
  let ?c = "am_currency m"
  obtain r where r: "(case map_of res ?c of None \<Rightarrow> Inr m | Some cur \<Rightarrow> amount_add cur m) = Inr r"
    "amount_ok r" "am_currency r = ?c" "am_value r = balance_value res ?c + am_value m"
  proof (cases "map_of res ?c")
    case None
    with pw(2) that [of m] show thesis by (simp add: balance_value_def)
  next
    case (Some b)
    then have b: "amount_ok b" "am_currency b = ?c" using Cons.prems(3) by (auto simp: balances_ok_def)
    with amount_add_ok [OF b] Some that show thesis by (auto simp: balance_value_def)
  qed
  let ?res = "AList.update ?c r res"
  let ?sc = "if 0 < k then AList.update ?c (case map_of scales ?c of None \<Rightarrow> k | Some j \<Rightarrow> min j k) scales else scales"
  have "balances_ok ?res" using Cons.prems(3) r(2,3) by (auto simp: balances_ok_def update_conv')
  moreover have "distinct (map fst ?res)" using Cons.prems(4) by (rule distinct_update)
  ultimately obtain res' scales' where ih: "weigh_postings ?res ?sc ps = Inr (Inr (res', scales'))"
    "weighed ?res ?sc ps res' scales'"
    using Cons.IH [of ?res ?sc] Cons.prems(1,2) by auto
  have "weigh_postings res scales (p # ps) = Inr (Inr (res', scales'))"
    using u pw(1) r(1) ih(1) by simp
  moreover have "weighed res scales (p # ps) res' scales'"
    unfolding weighed_def
  proof (intro conjI allI)
    show "balances_ok res'" "distinct (map fst res')" using ih(2) by (simp_all add: weighed_def)
    fix c
    show "balance_value res' c = balance_value res c + residual c (p # ps)"
      using ih(2) w r(4) by (auto simp: weighed_def balance_value_def update_conv')
    have "map_of scales' c = min_option (map_of ?sc c) (coarsest c ps)" using ih(2) by (simp add: weighed_def)
    then show "map_of scales' c = min_option (map_of scales c) (coarsest c (p # ps))"
      using w by (auto simp: update_conv' min_option_def min.assoc split: option.splits)
  qed
  ultimately show ?case by blast
qed

lemma weigh_postings_problem:
  "\<forall>p\<in>set ps. posting_ok p \<Longrightarrow> \<exists>p\<in>set ps. weight p = None \<Longrightarrow> balances_ok res \<Longrightarrow>
   \<exists>problem. weigh_postings res scales ps = Inr (Inl problem)"
proof (induction ps arbitrary: res scales)
  case Nil
  then show ?case by simp
next
  case (Cons p ps)
  show ?case
  proof (cases "pt_units p")
    case None
    then show ?thesis by simp
  next
    case (Some u)
    have pw: "posting_weight p u = Inr (weight p)" "\<forall>m k. weight p = Some (m, k) \<longrightarrow> amount_ok m"
      using posting_weight_total [of p u] Cons.prems(1) Some by auto
    show ?thesis
    proof (cases "weight p")
      case None
      with Some pw show ?thesis by simp
    next
      case w: (Some mk)
      obtain m k where mk: "mk = (m, k)" by (cases mk)
      have m: "amount_ok m" using pw(2) w mk by simp
      obtain r where r: "(case map_of res (am_currency m) of None \<Rightarrow> Inr m | Some cur \<Rightarrow> amount_add cur m) = Inr r"
        "amount_ok r" "am_currency r = am_currency m"
      proof (cases "map_of res (am_currency m)")
        case None
        with m that [of m] show thesis by simp
      next
        case (Some b)
        then have b: "amount_ok b" "am_currency b = am_currency m"
          using Cons.prems(3) by (auto simp: balances_ok_def)
        with amount_add_ok [OF b] Some that show thesis by auto
      qed
      have "balances_ok (AList.update (am_currency m) r res)"
        using Cons.prems(3) r(2,3) by (auto simp: balances_ok_def update_conv')
      moreover have "\<exists>q\<in>set ps. weight q = None" using Cons.prems(2) w by auto
      ultimately show ?thesis using Cons.IH Cons.prems(1) Some pw(1) w mk r(1) by simp
    qed
  qed
qed

lemma unbalanced_ok:
  "\<forall>(c, a)\<in>set res. amount_ok a \<and> am_currency a = c \<Longrightarrow>
   \<exists>ps. unbalanced scales res = Inr ps \<and>
     (ps = [] \<longleftrightarrow> (\<forall>(c, a)\<in>set res. \<bar>am_value a\<bar> \<le>
        (case map_of scales c of None \<Rightarrow> 0 | Some k \<Rightarrow> if k = 0 then 0 else 5 / 10 ^ (k + 1))))"
proof (induction res)
  case Nil
  then show ?case by simp
next
  case (Cons e res)
  obtain c a where e: "e = (c, a)" by (cases e)
  let ?k = "case map_of scales c of None \<Rightarrow> 0 | Some k \<Rightarrow> k"
  have a: "amount_ok a" "am_currency a = c" using Cons.prems e by auto
  then obtain t where t: "balancing_tolerance c ?k = Inr t"
    "tolerance_value t = (if ?k = 0 then 0 else 5 / 10 ^ (?k + 1))"
    using balancing_tolerance_ok [of c ?k] by (auto simp: amount_ok_def)
  have "0 \<le> tolerance_value t" using t(2) by simp
  then have d: "diff_within_tolerance a t = Inr (\<bar>am_value a\<bar> \<le> tolerance_value t)"
    using diff_within_tolerance_ok [OF a(1), of t] by auto
  obtain ps where ps: "unbalanced scales res = Inr ps"
    "ps = [] \<longleftrightarrow> (\<forall>(c, a)\<in>set res. \<bar>am_value a\<bar> \<le>
        (case map_of scales c of None \<Rightarrow> 0 | Some k \<Rightarrow> if k = 0 then 0 else 5 / 10 ^ (k + 1)))"
    using Cons.IH Cons.prems by auto
  have tv: "tolerance_value t = (case map_of scales c of None \<Rightarrow> 0 | Some k \<Rightarrow> if k = 0 then 0 else 5 / 10 ^ (k + 1))"
    using t(2) by (cases "map_of scales c") simp_all
  have "unbalanced scales (e # res) = Inr (if \<bar>am_value a\<bar> \<le> tolerance_value t then ps else TransactionUnbalanced a # ps)"
    using e t(1) d ps(1) by simp
  with ps(2) tv e show ?case by simp
qed

lemma balance_check:
  assumes "\<forall>p\<in>set ps. posting_ok p"
  shows "\<exists>problems. transaction_balance_errors ps = Inr problems \<and>
    (problems = [] \<longleftrightarrow>
       (\<forall>p\<in>set ps. weight p \<noteq> None) \<and> (\<forall>c. \<bar>residual c ps\<bar> \<le> tolerance_of c ps))"
proof (cases "\<forall>p\<in>set ps. weight p \<noteq> None")
  case False
  then have "\<exists>p\<in>set ps. weight p = None" by metis
  moreover have "balances_ok []" by (simp add: balances_ok_def)
  ultimately obtain problem where "weigh_postings [] [] ps = Inr (Inl problem)"
    using weigh_postings_problem [OF assms] by blast
  with False show ?thesis by (simp add: transaction_balance_errors_def)
next
  case True
  obtain res scales where w: "weigh_postings [] [] ps = Inr (Inr (res, scales))"
    "weighed [] [] ps res scales"
    using weigh_postings_ok [OF assms True, of "[]" "[]"] by (auto simp: balances_ok_def)
  have d: "distinct (map fst res)" "balances_ok res"
    and v: "\<And>c. balance_value res c = residual c ps" and s: "\<And>c. map_of scales c = coarsest c ps"
    using w(2) by (simp_all add: weighed_def balance_value_def min_option_def)
  have entry: "map_of res c = Some a" if "(c, a) \<in> set res" for c a
    using that d(1) by simp
  then have "\<forall>(c, a)\<in>set res. amount_ok a \<and> am_currency a = c"
    using d(2) by (auto simp: balances_ok_def)
  from unbalanced_ok [OF this, of scales] obtain problems where p: "unbalanced scales res = Inr problems"
    "problems = [] \<longleftrightarrow> (\<forall>(c, a)\<in>set res. \<bar>am_value a\<bar> \<le>
        (case map_of scales c of None \<Rightarrow> 0 | Some k \<Rightarrow> if k = 0 then 0 else 5 / 10 ^ (k + 1)))"
    by blast
  have tol: "(case map_of scales c of None \<Rightarrow> 0 | Some k \<Rightarrow> if k = 0 then 0 else 5 / 10 ^ (k + 1)) = tolerance_of c ps"
    for c using coarsest_pos [of c ps] by (auto simp: s tolerance_of_def split: option.splits)
  have "(\<forall>(c, a)\<in>set res. \<bar>am_value a\<bar> \<le> tolerance_of c ps) \<longleftrightarrow> (\<forall>c. \<bar>residual c ps\<bar> \<le> tolerance_of c ps)"
  proof
    assume all: "\<forall>(c, a)\<in>set res. \<bar>am_value a\<bar> \<le> tolerance_of c ps"
    show "\<forall>c. \<bar>residual c ps\<bar> \<le> tolerance_of c ps"
    proof
      fix c
      show "\<bar>residual c ps\<bar> \<le> tolerance_of c ps"
      proof (cases "map_of res c")
        case None
        then have "residual c ps = 0" using v [of c] by (simp add: balance_value_def)
        moreover have "0 \<le> tolerance_of c ps" by (simp add: tolerance_of_def split: option.split)
        ultimately show ?thesis by simp
      next
        case (Some a)
        then have "(c, a) \<in> set res" by (rule map_of_SomeD)
        with all Some v [of c] show ?thesis by (auto simp: balance_value_def)
      qed
    qed
  next
    assume all: "\<forall>c. \<bar>residual c ps\<bar> \<le> tolerance_of c ps"
    have "\<bar>am_value a\<bar> \<le> tolerance_of c ps" if "(c, a) \<in> set res" for c a
      using entry [OF that] all v [of c] by (simp add: balance_value_def)
    then show "\<forall>(c, a)\<in>set res. \<bar>am_value a\<bar> \<le> tolerance_of c ps" by blast
  qed
  then show ?thesis using True w(1) p by (simp add: transaction_balance_errors_def tol)
qed


text \<open>
  C34. A list of postings passes the balance check exactly when every posting can be weighed and, per
  commodity, the weights sum to zero up to half a unit of the coarsest precision in use; whole
  amounts must balance exactly. Errors of addition never occur.
\<close>

theorem transaction_balanced_iff:
  assumes "\<forall>p\<in>set ps. posting_ok p"
  shows "\<exists>problems. transaction_balance_errors ps = Inr problems \<and>
    (problems = [] \<longleftrightarrow>
       (\<forall>p\<in>set ps. weight p \<noteq> None) \<and> (\<forall>c. \<bar>residual c ps\<bar> \<le> tolerance_of c ps))"
  using assms by (rule balance_check)

text \<open>10.00 and -10.0 balance, 10.00 and -9.01 do not.\<close>

definition usd_amount :: "int \<Rightarrow> nat \<Rightarrow> amount" where
  "usd_amount n k = \<lparr>am_number = decimal_from_coefficient n k, am_currency = ''USD''\<rparr>"

lemma usd_amount_ok [simp]:
  "amount_ok (usd_amount n k)" "am_currency (usd_amount n k) = ''USD''" "am_value (usd_amount n k) = of_int n / 10 ^ k"
  "dv_scale (am_number (usd_amount n k)) = k"
  by (simp_all add: usd_amount_def amount_ok_def is_commodity_symbol_def is_upper_def am_value_def
      decimal_value_simps) (simp add: decimal_from_coefficient_def)

lemma plain_posting_simps [simp]:
  "pt_units (plain_posting a u) = Some u" "pt_account (plain_posting a u) = a"
  "posting_ok (plain_posting a u) \<longleftrightarrow> amount_ok u" "weight (plain_posting a u) = Some (u, dv_scale (am_number u))"
  by (simp_all add: plain_posting_def posting_ok_def weight_def posting_weight_def)

lemma transaction_balanced_iff_witness:
  "\<exists>p1 p2. transaction_balance_errors [plain_posting ''Assets:A'' (usd_amount 1000 2), plain_posting ''Income:B'' (usd_amount (- 100) 1)] = Inr p1 \<and>
     p1 = [] \<and>
     transaction_balance_errors [plain_posting ''Assets:A'' (usd_amount 1000 2), plain_posting ''Income:B'' (usd_amount (- 901) 2)] = Inr p2 \<and>
     p2 \<noteq> []"
proof -
  let ?p = "plain_posting ''Assets:A'' (usd_amount 1000 2)"
  have "\<exists>q. transaction_balance_errors [?p, plain_posting ''Income:B'' (usd_amount (- 100) 1)] = Inr q \<and> q = []"
    using transaction_balanced_iff [of "[?p, plain_posting ''Income:B'' (usd_amount (- 100) 1)]"]
    by (auto simp: tolerance_of_def)
  moreover have "\<exists>q. transaction_balance_errors [?p, plain_posting ''Income:B'' (usd_amount (- 901) 2)] = Inr q \<and> q \<noteq> []"
    using transaction_balanced_iff [of "[?p, plain_posting ''Income:B'' (usd_amount (- 901) 2)]"]
    by (auto simp: tolerance_of_def dest: spec [of _ "''USD''"])
  ultimately show ?thesis by blast
qed

section \<open>Interpolation\<close>

definition posting_weights :: "posting list \<Rightarrow> amount list" where
  "posting_weights ps = List.map_filter (\<lambda>p. map_option fst (weight p)) ps"

lemma posting_weights_simps [simp]:
  "posting_weights [] = []"
  "posting_weights (p # ps) = (case weight p of None \<Rightarrow> [] | Some (m, k) \<Rightarrow> [m]) @ posting_weights ps"
  by (auto simp: posting_weights_def List.map_filter_simps split: option.splits)

lemma residual_weights:
  "residual c ps = sum_list (map (\<lambda>a. if am_currency a = c then am_value a else 0) (posting_weights ps))"
  by (induction ps) (auto split: option.splits)

lemma weight_incomplete [simp]: "pt_units p = None \<Longrightarrow> weight p = None"
  by (simp add: weight_def)

lemma other_weights_ok:
  "\<forall>p\<in>set ps. posting_ok p \<Longrightarrow>
   other_weights ps =
     Inr (if \<exists>p\<in>set ps. pt_units p \<noteq> None \<and> weight p = None then None else Some (posting_weights ps))"
proof (induction ps)
  case (Cons p ps)
  show ?case
  proof (cases "pt_units p")
    case None
    then have "weight p = None" by simp
    with None Cons show ?thesis by (simp del: not_None_eq)
  next
    case (Some u)
    then have "posting_weight p u = Inr (weight p)" using posting_weight_total [of p u] Cons.prems by simp
    with Some Cons show ?thesis by (auto split: option.splits)
  qed
qed simp

lemma posting_weights_ok:
  "\<forall>p\<in>set ps. posting_ok p \<Longrightarrow> a \<in> set (posting_weights ps) \<Longrightarrow> amount_ok a"
proof (induction ps)
  case (Cons p ps)
  have "amount_ok m" if w: "weight p = Some (m, k)" for m k
  proof -
    obtain u where "pt_units p = Some u" using w by (auto simp: weight_def split: option.splits)
    with posting_weight_total [of p u] Cons.prems(1) w show ?thesis by simp
  qed
  with Cons show ?case by (cases "weight p") auto
qed simp

lemma sum_amounts_ok:
  "amount_ok s \<Longrightarrow> \<forall>a\<in>set as. am_currency a = am_currency s \<Longrightarrow>
   \<exists>r. sum_amounts s as = Inr r \<and> amount_ok r \<and> am_currency r = am_currency s \<and>
     am_value r = am_value s + sum_list (map am_value as)"
proof (induction as arbitrary: s)
  case (Cons a as)
  then obtain s' where "amount_add s a = Inr s'" "amount_ok s'" "am_currency s' = am_currency s"
    "am_value s' = am_value s + am_value a"
    using amount_add_ok [of s a] by auto
  with Cons.IH [of s'] Cons.prems show ?case by (auto simp: add.assoc)
qed simp

lemma weight_fill:
  "pt_cost p = None \<Longrightarrow> pt_price p = None \<Longrightarrow> pt_units p = None \<Longrightarrow>
   weight (fill_posting r p) = Some (r, dv_scale (am_number r))"
  by (simp add: fill_posting_def weight_def posting_weight_def)

lemma fill_posting_present: "pt_units p = Some u \<Longrightarrow> fill_posting r p = p"
  by (simp add: fill_posting_def)

lemma residual_fill:
  "\<forall>p\<in>set ps. pt_units p = None \<longrightarrow> pt_cost p = None \<and> pt_price p = None \<Longrightarrow>
   residual c (map (fill_posting r) ps) =
     residual c ps + of_nat (length (filter (\<lambda>p. pt_units p = None) ps)) * (if am_currency r = c then am_value r else 0)"
proof (induction ps)
  case (Cons p ps)
  show ?case
  proof (cases "pt_units p")
    case None
    then have "weight p = None" by (simp add: weight_def)
    with None Cons show ?thesis by (simp add: weight_fill algebra_simps)
  next
    case (Some u)
    with Cons show ?thesis by (simp add: fill_posting_present)
  qed
qed simp

text \<open>
  The one posting without units can be filled when it has no cost or price of its own and the others
  weigh in one commodity.
\<close>

definition fillable :: "posting list \<Rightarrow> bool" where
  "fillable ps \<longleftrightarrow>
     (case filter (\<lambda>p. pt_units p = None) ps of
        [target] \<Rightarrow>
          pt_cost target = None \<and> pt_price target = None \<and>
          (\<forall>p\<in>set ps. pt_units p \<noteq> None \<longrightarrow> weight p \<noteq> None) \<and>
          (case posting_weights ps of
             [] \<Rightarrow> False | w # _ \<Rightarrow> \<forall>a\<in>set (posting_weights ps). am_currency a = am_currency w)
      | _ \<Rightarrow> False)"

lemma fillable_cases:
  assumes "fillable ps"
  obtains target w ws where "filter (\<lambda>p. pt_units p = None) ps = [target]"
    "pt_cost target = None" "pt_price target = None"
    "\<And>p. p \<in> set ps \<Longrightarrow> pt_units p = None \<Longrightarrow> p = target"
    "\<forall>p\<in>set ps. pt_units p \<noteq> None \<longrightarrow> weight p \<noteq> None"
    "posting_weights ps = w # ws" "\<forall>a\<in>set (w # ws). am_currency a = am_currency w"
proof -
  obtain target where target: "filter (\<lambda>p. pt_units p = None) ps = [target]"
    "pt_cost target = None" "pt_price target = None"
    and all: "\<forall>p\<in>set ps. pt_units p \<noteq> None \<longrightarrow> weight p \<noteq> None"
    and one: "case posting_weights ps of
      [] \<Rightarrow> False | w # _ \<Rightarrow> \<forall>a\<in>set (posting_weights ps). am_currency a = am_currency w"
    using assms unfolding fillable_def
    by (cases "filter (\<lambda>p. pt_units p = None) ps" rule: remdups_adj.cases) (simp_all del: not_None_eq)
  obtain w ws where ws: "posting_weights ps = w # ws"
    using one by (cases "posting_weights ps") simp_all
  have "p = target" if "p \<in> set ps" "pt_units p = None" for p
  proof -
    have "p \<in> set (filter (\<lambda>p. pt_units p = None) ps)" using that by simp
    then show ?thesis unfolding target(1) by simp
  qed
  then show thesis using that target all ws one by simp
qed

lemma sum_of_commodity:
  "\<forall>a\<in>set as. am_currency a = c \<Longrightarrow>
   sum_list (map (\<lambda>a. if am_currency a = d then am_value a else 0) as) = (if d = c then sum_list (map am_value as) else 0)"
  by (induction as) auto

lemma interpolate_skip:
  assumes "\<forall>p\<in>set (tx_postings t). posting_ok p" and "\<not> fillable (tx_postings t)"
  shows "interpolate_transaction t = Inr t"
proof (cases "filter (\<lambda>p. pt_units p = None) (tx_postings t)")
  case Nil
  then show ?thesis by (simp add: interpolate_transaction_def)
next
  case (Cons target rest)
  note ow = other_weights_ok [OF assms(1)]
  show ?thesis
  proof (cases "rest = [] \<and> pt_cost target = None \<and> pt_price target = None \<and>
      \<not> (\<exists>p\<in>set (tx_postings t). pt_units p \<noteq> None \<and> weight p = None)")
    case True
    then have "\<forall>p\<in>set (tx_postings t). pt_units p \<noteq> None \<longrightarrow> weight p \<noteq> None" by metis
    then have "\<not> (case posting_weights (tx_postings t) of
        [] \<Rightarrow> False | w # _ \<Rightarrow> \<forall>a\<in>set (posting_weights (tx_postings t)). am_currency a = am_currency w)"
      using assms(2) Cons True unfolding fillable_def by (simp del: not_None_eq)
    with ow True Cons show ?thesis
      by (auto simp del: not_None_eq simp: interpolate_transaction_def list_ex_iff split: list.splits)
  next
    case False
    with ow Cons show ?thesis
      by (auto simp del: not_None_eq simp: interpolate_transaction_def split: list.splits)
  qed
qed

lemma interpolation_step:
  "filter (\<lambda>p. pt_units p = None) (tx_postings t) = [target] \<Longrightarrow>
   pt_cost target = None \<Longrightarrow> pt_price target = None \<Longrightarrow>
   other_weights (tx_postings t) = Inr (Some (w # ws)) \<Longrightarrow> am_currency w \<noteq> [] \<Longrightarrow>
   \<not> list_ex (\<lambda>a. am_currency a \<noteq> am_currency w) (w # ws) \<Longrightarrow>
   zero_amount (am_currency w) = Inr z \<Longrightarrow> sum_amounts z (w # ws) = Inr s \<Longrightarrow> amount_negate s = Inr r \<Longrightarrow>
   interpolate_transaction t = Inr (t\<lparr>tx_postings := map (fill_posting r) (tx_postings t)\<rparr>)"
  unfolding interpolate_transaction_def by (erule ssubst) (simp del: sum_amounts.simps)

lemma interpolate_fill:
  assumes ok: "\<forall>p\<in>set (tx_postings t). posting_ok p" and f: "fillable (tx_postings t)"
  shows "\<exists>r. amount_ok r \<and>
    interpolate_transaction t = Inr (t\<lparr>tx_postings := map (fill_posting r) (tx_postings t)\<rparr>) \<and>
    (\<forall>c. residual c (map (fill_posting r) (tx_postings t)) = 0)"
proof -
  let ?ps = "tx_postings t"
  obtain target w ws where target: "filter (\<lambda>p. pt_units p = None) ?ps = [target]"
      "pt_cost target = None" "pt_price target = None"
    and only: "\<And>p. p \<in> set ?ps \<Longrightarrow> pt_units p = None \<Longrightarrow> p = target"
    and all: "\<forall>p\<in>set ?ps. pt_units p \<noteq> None \<longrightarrow> weight p \<noteq> None"
    and w: "posting_weights ?ps = w # ws" "\<forall>a\<in>set (w # ws). am_currency a = am_currency w"
    by (rule fillable_cases [OF f]) (rule that)
  have same: "\<not> list_ex (\<lambda>a. am_currency a \<noteq> am_currency w) (w # ws)"
    using w(2) by (simp add: list_ex_iff)
  have ow: "other_weights ?ps = Inr (Some (w # ws))"
    using other_weights_ok [OF ok] all w(1) by (simp del: not_None_eq) metis
  have "amount_ok w" using posting_weights_ok [OF ok] w(1) by simp
  then have sym: "is_commodity_symbol (am_currency w)" by (simp add: amount_ok_def)
  then have nonempty: "am_currency w \<noteq> []" by (auto simp: is_commodity_symbol_def)
  obtain z where z: "zero_amount (am_currency w) = Inr z" "amount_ok z" "am_currency z = am_currency w" "am_value z = 0"
    using zero_amount_ok [OF sym] by blast
  obtain s where s: "sum_amounts z (w # ws) = Inr s" "amount_ok s" "am_currency s = am_currency w"
    "am_value s = sum_list (map am_value (w # ws))"
    using sum_amounts_ok [OF z(2), of "w # ws"] w(2) unfolding z(3,4) add_0 by blast
  obtain r where r: "amount_negate s = Inr r" "amount_ok r" "am_currency r = am_currency w"
    "am_value r = - sum_list (map am_value (w # ws))"
    using amount_negate_ok [OF s(2)] s(3,4) by auto
  have "interpolate_transaction t = Inr (t\<lparr>tx_postings := map (fill_posting r) ?ps\<rparr>)"
    by (rule interpolation_step [OF target ow nonempty same z(1) s(1) r(1)])
  moreover have "residual c (map (fill_posting r) ?ps) = 0" for c
  proof -
    have "residual c (map (fill_posting r) ?ps) = residual c ?ps + (if am_currency r = c then am_value r else 0)"
    proof -
      have "\<forall>p\<in>set ?ps. pt_units p = None \<longrightarrow> pt_cost p = None \<and> pt_price p = None"
        using only target(2,3) by blast
      from residual_fill [OF this, of c r] show ?thesis using target(1) by simp
    qed
    also have "residual c ?ps = (if c = am_currency w then sum_list (map am_value (w # ws)) else 0)"
      unfolding residual_weights w(1) by (rule sum_of_commodity [OF w(2)])
    finally show ?thesis using r(3,4) by simp
  qed
  ultimately show ?thesis using r(2) by blast
qed

lemma fillable_weighs:
  assumes "fillable ps" and p: "p \<in> set ps"
  shows "weight (fill_posting r p) \<noteq> None"
  using assms(1)
proof (rule fillable_cases)
  fix target
  assume t: "pt_cost target = None" "pt_price target = None"
    and only: "\<And>p. p \<in> set ps \<Longrightarrow> pt_units p = None \<Longrightarrow> p = target"
    and all: "\<forall>p\<in>set ps. pt_units p \<noteq> None \<longrightarrow> weight p \<noteq> None"
  show "weight (fill_posting r p) \<noteq> None"
  proof (cases "pt_units p")
    case None
    with p t only [of p] show ?thesis by (simp add: weight_fill)
  next
    case (Some u)
    with all p show ?thesis by (simp add: fill_posting_present del: not_None_eq)
  qed
qed

lemma posting_ok_fill: "posting_ok p \<Longrightarrow> amount_ok r \<Longrightarrow> posting_ok (fill_posting r p)"
  by (simp add: posting_ok_def fill_posting_def)

text \<open>
  C35. Interpolation balances: of a transaction whose single posting without units can be inferred,
  every posting gets units, no account changes, the weights sum to exactly zero in every commodity
  and the balance check passes; any other transaction is left as it is, and no sum ever fails.
\<close>

theorem interpolation_balances:
  assumes "\<forall>p\<in>set (tx_postings t). posting_ok p"
  shows "\<exists>t'. interpolate_transaction t = Inr t' \<and>
    (if fillable (tx_postings t)
     then map pt_account (tx_postings t') = map pt_account (tx_postings t) \<and>
          (\<forall>p\<in>set (tx_postings t'). pt_units p \<noteq> None) \<and>
          (\<forall>c. residual c (tx_postings t') = 0) \<and>
          transaction_balance_errors (tx_postings t') = Inr []
     else t' = t)"
proof (cases "fillable (tx_postings t)")
  case False
  with interpolate_skip [OF assms] show ?thesis by simp
next
  case True
  let ?ps = "tx_postings t"
  obtain r where r: "amount_ok r" and t': "interpolate_transaction t = Inr (t\<lparr>tx_postings := map (fill_posting r) ?ps\<rparr>)"
    and zero: "\<forall>c. residual c (map (fill_posting r) ?ps) = 0"
    using interpolate_fill [OF assms True] by blast
  let ?qs = "map (fill_posting r) ?ps"
  have acct: "map pt_account ?qs = map pt_account ?ps" by (simp add: fill_posting_def)
  have units: "\<forall>p\<in>set ?qs. pt_units p \<noteq> None" by (auto simp: fill_posting_def)
  have weighed: "\<forall>p\<in>set ?qs. weight p \<noteq> None" using fillable_weighs [OF True] by auto
  have ok: "\<forall>p\<in>set ?qs. posting_ok p" using assms r by (auto intro: posting_ok_fill)
  have "0 \<le> tolerance_of c ?qs" for c by (simp add: tolerance_of_def split: option.split)
  with balance_check [OF ok] weighed zero have "transaction_balance_errors ?qs = Inr []"
    by (metis abs_zero)
  with t' acct units zero True show ?thesis by simp
qed

definition incomplete_posting :: "string \<Rightarrow> posting" where
  "incomplete_posting a = (plain_posting a (usd_amount 0 0))\<lparr>pt_units := None\<rparr>"

definition groceries :: transaction where
  "groceries =
     \<lparr>tx_flag = ''*'', tx_payee = None, tx_narration = None, tx_tags = [], tx_links = [],
      tx_postings = [plain_posting ''Expenses:Food'' (usd_amount 1250 2), incomplete_posting ''Assets:Cash'']\<rparr>"

lemma interpolation_balances_witness:
  "\<exists>t'. interpolate_transaction groceries = Inr t' \<and> t' \<noteq> groceries \<and>
     transaction_balance_errors (tx_postings t') = Inr []"
proof -
  let ?ps = "[plain_posting ''Expenses:Food'' (usd_amount 1250 2), incomplete_posting ''Assets:Cash'']"
  have i: "pt_units (incomplete_posting a) = None" "pt_cost (incomplete_posting a) = None"
    "pt_price (incomplete_posting a) = None" for a
    by (simp_all add: incomplete_posting_def plain_posting_def)
  have "tx_postings groceries = ?ps" by (simp add: groceries_def)
  moreover have "\<forall>p\<in>set ?ps. posting_ok p" using i by (simp add: posting_ok_def [of "incomplete_posting _"])
  moreover have "fillable ?ps" using i by (simp add: fillable_def)
  ultimately obtain t' where t': "interpolate_transaction groceries = Inr t'"
    "\<forall>p\<in>set (tx_postings t'). pt_units p \<noteq> None" "transaction_balance_errors (tx_postings t') = Inr []"
    using interpolation_balances [of groceries] by auto
  moreover have "t' \<noteq> groceries" using t'(2) i by (auto simp: groceries_def)
  ultimately show ?thesis by blast
qed

end
