(* ===== verification/LedgerBalances.thy ===== *)
theory LedgerBalances
  imports LedgerProperties
begin

text \<open>
  Running balances of the ledger, pads and balance assertions (\<open>beancount/validation.ts\<close>) against the
  postings they summarise. The code keeps one amount per text key \<open>account|currency\<close> and splits the
  key again; account names without a bar are what makes that exact.
\<close>

section \<open>Balances summarise postings\<close>

definition account_ok :: "string \<Rightarrow> bool" where
  "account_ok a \<longleftrightarrow> CHR ''|'' \<notin> set a"

lemma part_balance_key:
  "account_ok a \<Longrightarrow> is_commodity_symbol c \<Longrightarrow> part 0 (balance_key a c) = a \<and> part 1 (balance_key a c) = c"
  using symbol_no_bar [of c]
  by (simp add: part_def balance_key_def account_ok_def split_on_append split_on_none)

definition balances_keyed :: "residuals \<Rightarrow> bool" where
  "balances_keyed bal \<longleftrightarrow>
     distinct (map fst bal) \<and>
     (\<forall>(k, a)\<in>set bal. amount_ok a \<and> (\<exists>acct. account_ok acct \<and> k = balance_key acct (am_currency a)))"

text \<open>What a balance contributes to the total of a subtree in a commodity.\<close>

definition share :: "string \<Rightarrow> string \<Rightarrow> string \<times> amount \<Rightarrow> rat" where
  "share account c e = (if part 1 (fst e) = c \<and> in_subtree account (part 0 (fst e)) then am_value (snd e) else 0)"

definition kept_total :: "string \<Rightarrow> string \<Rightarrow> residuals \<Rightarrow> rat" where
  "kept_total account c bal = sum_list (map (share account c) bal)"

text \<open>The same total, from the postings.\<close>

definition posted :: "string \<Rightarrow> string \<Rightarrow> posting \<Rightarrow> rat" where
  "posted account c p =
     (case pt_units p of
        None \<Rightarrow> 0
      | Some u \<Rightarrow> if am_currency u = c \<and> in_subtree account (pt_account p) then am_value u else 0)"

definition posted_total :: "string \<Rightarrow> string \<Rightarrow> posting list \<Rightarrow> rat" where
  "posted_total account c ps = sum_list (map (posted account c) ps)"

lemma posted_total_simps [simp]:
  "posted_total account c [] = 0"
  "posted_total account c (p # ps) = posted account c p + posted_total account c ps"
  "posted_total account c (ps @ qs) = posted_total account c ps + posted_total account c qs"
  by (simp_all add: posted_total_def)

definition keepable :: "posting \<Rightarrow> bool" where
  "keepable p \<longleftrightarrow> posting_ok p \<and> account_ok (pt_account p)"

lemma balances_keyed_lookup:
  assumes "balances_keyed bal" and "account_ok acct" and "is_commodity_symbol c"
    and "map_of bal (balance_key acct c) = Some a"
  shows "amount_ok a \<and> am_currency a = c"
proof -
  have "(balance_key acct c, a) \<in> set bal" using assms(4) by (rule map_of_SomeD)
  then obtain acct' where a: "amount_ok a" "account_ok acct'" "balance_key acct c = balance_key acct' (am_currency a)"
    using assms(1) by (auto simp: balances_keyed_def)
  have "c = am_currency a"
    using part_balance_key [OF assms(2,3)] part_balance_key [OF a(2), of "am_currency a"] a by (simp add: amount_ok_def)
  with a(1) show ?thesis by simp
qed

lemma apply_posting_ok:
  assumes bal: "balances_keyed bal" and p: "keepable p" and u: "pt_units p = Some u"
  shows "\<exists>a. (case map_of bal (balance_key (pt_account p) (am_currency u)) of
        None \<Rightarrow> Inr u | Some cur \<Rightarrow> amount_add cur u) = Inr a \<and>
    balances_keyed (AList.update (balance_key (pt_account p) (am_currency u)) a bal) \<and>
    (\<forall>account c. kept_total account c (AList.update (balance_key (pt_account p) (am_currency u)) a bal) =
       kept_total account c bal + posted account c p)"
proof -
  let ?k = "balance_key (pt_account p) (am_currency u)"
  have ok: "account_ok (pt_account p)" "amount_ok u" "is_commodity_symbol (am_currency u)"
    using p u by (auto simp: keepable_def posting_ok_def amount_ok_def)
  obtain a where a: "(case map_of bal ?k of None \<Rightarrow> Inr u | Some cur \<Rightarrow> amount_add cur u) = Inr a"
    "amount_ok a" "am_currency a = am_currency u"
    "am_value a = (case map_of bal ?k of None \<Rightarrow> 0 | Some b \<Rightarrow> am_value b) + am_value u"
  proof (cases "map_of bal ?k")
    case None
    with ok that [of u] show thesis by simp
  next
    case (Some b)
    then have b: "amount_ok b" "am_currency b = am_currency u"
      using balances_keyed_lookup [OF bal ok(1,3)] by auto
    with amount_add_ok [OF b] Some that show thesis by auto
  qed
  have d: "distinct (map fst bal)" using bal by (simp add: balances_keyed_def)
  have "balances_keyed (AList.update ?k a bal)"
    unfolding balances_keyed_def
  proof (intro conjI ballI)
    show "distinct (map fst (AList.update ?k a bal))" using d by (rule distinct_update)
    fix e assume "e \<in> set (AList.update ?k a bal)"
    then have "e = (?k, a) \<or> e \<in> set bal" by (rule set_update_subset)
    then show "case e of (k, a) \<Rightarrow> amount_ok a \<and> (\<exists>acct. account_ok acct \<and> k = balance_key acct (am_currency a))"
      using bal a(2,3) ok(1) by (auto simp: balances_keyed_def)
  qed
  moreover have "kept_total account c (AList.update ?k a bal) = kept_total account c bal + posted account c p" for account c
    using part_balance_key [OF ok(1,3)] a(4) u
    by (cases "map_of bal ?k") (auto simp: kept_total_def alist_sum_update [OF d] share_def posted_def)
  ultimately show ?thesis using a(1) by blast
qed

lemma apply_postings_ok:
  "\<forall>p\<in>set ps. keepable p \<Longrightarrow> balances_keyed bal \<Longrightarrow>
   \<exists>bal'. apply_postings bal ps = Inr bal' \<and> balances_keyed bal' \<and>
     (\<forall>account c. kept_total account c bal' = kept_total account c bal + posted_total account c ps)"
proof (induction ps arbitrary: bal)
  case (Cons p ps)
  show ?case
  proof (cases "pt_units p")
    case None
    with Cons show ?thesis by (simp add: posted_def)
  next
    case (Some u)
    obtain a where a: "(case map_of bal (balance_key (pt_account p) (am_currency u)) of
        None \<Rightarrow> Inr u | Some cur \<Rightarrow> amount_add cur u) = Inr a"
      "balances_keyed (AList.update (balance_key (pt_account p) (am_currency u)) a bal)"
      "\<forall>account c. kept_total account c (AList.update (balance_key (pt_account p) (am_currency u)) a bal) =
         kept_total account c bal + posted account c p"
      using apply_posting_ok [OF Cons.prems(2) _ Some] Cons.prems(1) by auto
    from Cons.IH [OF _ a(2)] Cons.prems(1) Some a(1,3) show ?thesis by (auto simp: Let_def add.assoc)
  qed
qed simp

lemma balances_keyed_Nil [simp]: "balances_keyed []" "kept_total account c [] = 0"
  by (simp_all add: balances_keyed_def kept_total_def)

lemma sum_subtree_ok:
  "\<forall>(k, a)\<in>set bal. amount_ok a \<and> (\<exists>acct. account_ok acct \<and> k = balance_key acct (am_currency a)) \<Longrightarrow>
   amount_ok acc \<Longrightarrow> am_currency acc = c \<Longrightarrow>
   \<exists>r. sum_subtree account c acc bal = Inr r \<and> amount_ok r \<and> am_currency r = c \<and>
     am_value r = am_value acc + kept_total account c bal"
proof (induction bal arbitrary: acc)
  case Nil
  then show ?case by simp
next
  case (Cons e bal)
  obtain k a where e: "e = (k, a)" by (cases e)
  show ?case
  proof (cases "part 1 k = c \<and> in_subtree account (part 0 k)")
    case False
    with Cons e show ?thesis by (auto simp: kept_total_def share_def)
  next
    case True
    obtain acct where a: "amount_ok a" "account_ok acct" "k = balance_key acct (am_currency a)"
      using Cons.prems(1) e by auto
    then have "am_currency a = c" using part_balance_key True by (auto simp: amount_ok_def)
    then obtain s where s: "amount_add acc a = Inr s" "amount_ok s" "am_currency s = c"
      "am_value s = am_value acc + am_value a"
      using amount_add_ok [of acc a] Cons.prems(2,3) by auto
    from Cons.IH [OF _ s(2,3)] Cons.prems(1) e True s(1,4) show ?thesis
      by (auto simp: kept_total_def share_def add.assoc)
  qed
qed

lemma subtree_balance_ok:
  assumes "balances_keyed bal" and "is_commodity_symbol c"
  shows "\<exists>r. subtree_balance bal account c = Inr r \<and> amount_ok r \<and> am_currency r = c \<and>
    am_value r = kept_total account c bal"
proof -
  obtain z where z: "zero_amount c = Inr z" "amount_ok z" "am_currency z = c" "am_value z = 0"
    using zero_amount_ok [OF assms(2)] by blast
  have "\<forall>(k, a)\<in>set bal. amount_ok a \<and> (\<exists>acct. account_ok acct \<and> k = balance_key acct (am_currency a))"
    using assms(1) by (simp add: balances_keyed_def)
  from sum_subtree_ok [OF this z(2,3), of account] z(1,4) show ?thesis by (auto simp: subtree_balance_def)
qed

section \<open>Assertions\<close>

fun entry_keepable :: "ledger_entry \<Rightarrow> bool" where
  "entry_keepable (Dated h (TransactionE t)) \<longleftrightarrow> (\<forall>p\<in>set (tx_postings t). keepable p)"
| "entry_keepable (Dated h (BalanceE account expected tol)) \<longleftrightarrow> amount_ok expected"
| "entry_keepable (Dated h (PadE account source)) \<longleftrightarrow> account_ok account \<and> account_ok source"
| "entry_keepable _ \<longleftrightarrow> True"

fun entry_postings :: "ledger_entry \<Rightarrow> posting list" where
  "entry_postings (Dated h (TransactionE t)) = tx_postings t"
| "entry_postings _ = []"

text \<open>The tolerance of an assertion: as given, or one unit of the last decimal place asserted.\<close>

definition assertion_tolerance :: "amount \<Rightarrow> amount option \<Rightarrow> rat" where
  "assertion_tolerance expected tol =
     (case tol of
        Some t \<Rightarrow> dec_value (am_number t)
      | None \<Rightarrow> if dv_scale (am_number expected) = 0 then 0 else 1 / 10 ^ dv_scale (am_number expected))"

definition assertion_holds :: "posting list \<Rightarrow> string \<Rightarrow> amount \<Rightarrow> amount option \<Rightarrow> bool" where
  "assertion_holds ps account expected tol \<longleftrightarrow>
     (let diff = posted_total account (am_currency expected) ps - am_value expected
      in diff = 0 \<or> \<bar>diff\<bar> \<le> assertion_tolerance expected tol)"

text \<open>The assertions that fail, by source, for entries that follow the given postings.\<close>

fun failed_assertions :: "posting list \<Rightarrow> ledger_entry list \<Rightarrow> source_location option list" where
  "failed_assertions ps [] = []"
| "failed_assertions ps (e # es) =
     (case e of
        Dated h (BalanceE account expected tol) \<Rightarrow>
          if assertion_holds ps account expected tol then [] else [eh_source h]
      | _ \<Rightarrow> []) @ failed_assertions (ps @ entry_postings e) es"

text \<open>The balances kept are those of the postings.\<close>

definition summarises :: "residuals \<Rightarrow> posting list \<Rightarrow> bool" where
  "summarises bal ps \<longleftrightarrow>
     balances_keyed bal \<and> (\<forall>account c. kept_total account c bal = posted_total account c ps)"

lemma summarises_Nil [simp]: "summarises [] []"
  by (simp add: summarises_def)

lemma summarises_apply:
  "summarises bal ps \<Longrightarrow> \<forall>p\<in>set qs. keepable p \<Longrightarrow>
   \<exists>bal'. apply_postings bal qs = Inr bal' \<and> summarises bal' (ps @ qs)"
  using apply_postings_ok [of qs bal] by (auto simp: summarises_def)

lemma summarises_subtree:
  "summarises bal ps \<Longrightarrow> is_commodity_symbol c \<Longrightarrow>
   \<exists>r. subtree_balance bal account c = Inr r \<and> amount_ok r \<and> am_currency r = c \<and>
     am_value r = posted_total account c ps"
  using subtree_balance_ok [of bal c account] by (simp add: summarises_def)

lemma validate_balance_ok:
  assumes "summarises (va_balances s) ps" and "amount_ok expected"
  shows "\<exists>cs s'. validate_balance h account expected tol s = Inr (cs, s') \<and>
    va_balances s' = va_balances s \<and>
    filter (\<lambda>c. c = BalanceAssertionFailed) cs =
      (if assertion_holds ps account expected tol then [] else [BalanceAssertionFailed])"
proof -
  obtain actual where actual: "subtree_balance (va_balances s) account (am_currency expected) = Inr actual"
    "amount_ok actual" "am_currency actual = am_currency expected"
    "am_value actual = posted_total account (am_currency expected) ps"
    using summarises_subtree [OF assms(1)] assms(2) by (auto simp: amount_ok_def)
  obtain n where n: "amount_negate expected = Inr n" "am_currency n = am_currency expected"
    "am_value n = - am_value expected"
    using amount_negate_ok [OF assms(2)] by blast
  obtain diff where diff: "amount_add actual n = Inr diff" "amount_ok diff"
    "am_value diff = posted_total account (am_currency expected) ps - am_value expected"
    using amount_add_ok [OF actual(2), of n] actual(3,4) n(2,3) by auto
  obtain t where t: "(case tol of Some t \<Rightarrow> Inr (Some t) | None \<Rightarrow> inferred_balance_tolerance expected) = Inr t"
    "tolerance_value t = assertion_tolerance expected tol"
    using inferred_tolerance_ok [OF assms(2)]
    by (cases tol) (auto simp: assertion_tolerance_def tolerance_value_def)
  have "diff_within_tolerance diff t = Inr (assertion_holds ps account expected tol)"
    using diff_within_tolerance_ok [OF diff(2), of t] diff(3) t(2) by (simp add: assertion_holds_def Let_def)
  with actual(1) n(1) diff(1) t(1) show ?thesis by (simp add: validate_balance_def Let_def)
qed

lemma posting_error_code: "posting_error opn p \<noteq> Some BalanceAssertionFailed"
  by (simp add: posting_error_def split: option.split prod.split)

lemma validate_transaction_ok:
  assumes "\<forall>p\<in>set (tx_postings t). posting_ok p"
  shows "\<exists>cs. validate_transaction t opn = Inr cs \<and> BalanceAssertionFailed \<notin> set cs"
proof -
  obtain problems where "transaction_balance_errors (tx_postings t) = Inr problems"
    using balance_check [OF assms] by blast
  moreover have "first_some (map (\<lambda>p (_::unit). posting_error opn p) (tx_postings t)) () \<noteq> Some BalanceAssertionFailed"
    using posting_error_code by (auto dest!: first_some_Some)
  ultimately show ?thesis by (auto simp: validate_transaction_def split: option.split)
qed

definition entry_failure :: "posting list \<Rightarrow> ledger_entry \<Rightarrow> error_code list" where
  "entry_failure ps e =
     (case e of
        Dated h (BalanceE account expected tol) \<Rightarrow>
          if assertion_holds ps account expected tol then [] else [BalanceAssertionFailed]
      | _ \<Rightarrow> [])"

lemma no_failure: "BalanceAssertionFailed \<notin> set cs \<Longrightarrow> filter (\<lambda>c. c = BalanceAssertionFailed) cs = []"
  by (auto simp: filter_empty_conv)

lemma inactive_no_failure [simp]:
  "filter (\<lambda>c. c = BalanceAssertionFailed) (map (\<lambda>a. if P a then InactiveAccount a else UnknownAccount a) as) = []"
  by (induction as) auto

lemma validate_entry_ok:
  assumes sum: "summarises (va_balances s) ps" and e: "entry_keepable e"
  shows "\<exists>cs s'. validate_entry e s = Inr (cs, s') \<and> summarises (va_balances s') (ps @ entry_postings e) \<and>
    filter (\<lambda>c. c = BalanceAssertionFailed) cs = entry_failure ps e"
proof (cases e)
  case (Config m src c)
  with sum show ?thesis by (simp add: entry_failure_def)
next
  case (Dated h d)
  show ?thesis
  proof (cases d)
    case (TransactionE t)
    then have ok: "\<forall>p\<in>set (tx_postings t). keepable p" using e Dated by simp
    then have "\<forall>p\<in>set (tx_postings t). posting_ok p" by (simp add: keepable_def)
    with validate_transaction_ok [of t "va_open s"] obtain cs where
      "validate_transaction t (va_open s) = Inr cs" "BalanceAssertionFailed \<notin> set cs" by blast
    moreover obtain bal where "apply_postings (va_balances s) (tx_postings t) = Inr bal"
      "summarises bal (ps @ tx_postings t)"
      using summarises_apply [OF sum ok] by blast
    ultimately show ?thesis using Dated TransactionE by (simp add: entry_failure_def no_failure)
  next
    case (BalanceE account expected tol)
    then have "amount_ok expected" using e Dated by simp
    from validate_balance_ok [OF sum this, of h account tol] Dated BalanceE sum show ?thesis
      by (auto simp: entry_failure_def)
  qed (use sum Dated in \<open>auto simp: entry_failure_def Let_def split: option.splits\<close>)
qed

lemma validate_loop_ok:
  "\<forall>e\<in>set es. entry_keepable e \<Longrightarrow> summarises (va_balances s) ps \<Longrightarrow>
   \<exists>errs s'. validate_loop es s = Inr (errs, s') \<and> summarises (va_balances s') (ps @ concat (map entry_postings es)) \<and>
     map snd (filter (\<lambda>x. fst x = BalanceAssertionFailed) errs) = failed_assertions ps es"
proof (induction es arbitrary: s ps)
  case Nil
  then show ?case by simp
next
  case (Cons e es)
  obtain cs s1 where 1: "validate_entry e s = Inr (cs, s1)" "summarises (va_balances s1) (ps @ entry_postings e)"
    "filter (\<lambda>c. c = BalanceAssertionFailed) cs = entry_failure ps e"
    using validate_entry_ok [OF Cons.prems(2), of e] Cons.prems(1) by auto
  obtain errs s2 where 2: "validate_loop es s1 = Inr (errs, s2)"
    "summarises (va_balances s2) ((ps @ entry_postings e) @ concat (map entry_postings es))"
    "map snd (filter (\<lambda>x. fst x = BalanceAssertionFailed) errs) = failed_assertions (ps @ entry_postings e) es"
    using Cons.IH [OF _ 1(2)] Cons.prems(1) by auto
  have "map snd (filter (\<lambda>x. fst x = BalanceAssertionFailed) (map (\<lambda>c. (c, entry_source e)) cs)) =
      map (\<lambda>_. entry_source e) (entry_failure ps e)"
    unfolding 1(3) [symmetric] by (simp add: filter_map comp_def)
  also have "\<dots> = (case e of
        Dated h (BalanceE account expected tol) \<Rightarrow>
          if assertion_holds ps account expected tol then [] else [eh_source h]
      | _ \<Rightarrow> [])"
    by (auto simp: entry_failure_def split: ledger_entry.split dated_entry.split)
  finally show ?case using 1(1) 2 by simp
qed

lemma sort_entries_set [simp]: "set (sort_entries es) = set es"
  using sort_entries_mset [of es] by (metis set_mset_mset)

text \<open>
  C36. Validation of a ledger whose account names have no bar never fails with an exception, and it
  reports a failed balance assertion exactly for those assertions, in date order, whose amount
  differs by more than the tolerance from the sum of all earlier postings to the account and its
  sub-accounts in that commodity.
\<close>

theorem balance_assertions_iff:
  assumes "\<forall>e\<in>set es. entry_keepable e"
  shows "\<exists>errs. validate_entries es = Inr errs \<and>
    map snd (filter (\<lambda>x. fst x = BalanceAssertionFailed) errs) = failed_assertions [] (sort_entries es)"
proof -
  have "\<forall>e\<in>set (sort_entries es). entry_keepable e" using assms by simp
  from validate_loop_ok [OF this, of initial_validation "[]"]
  obtain errs s where "validate_loop (sort_entries es) initial_validation = Inr (errs, s)"
    "map snd (filter (\<lambda>x. fst x = BalanceAssertionFailed) errs) = failed_assertions [] (sort_entries es)"
    by (auto simp: initial_validation_def)
  then show ?thesis by (simp add: validate_entries_def)
qed

definition sample_head :: "string \<Rightarrow> nat \<Rightarrow> entry_head" where
  "sample_head date line =
     \<lparr>eh_date = date, eh_meta = [], eh_source = Some \<lparr>sl_filename = ''main.bean'', sl_lineno = line\<rparr>\<rparr>"

definition sample_ledger :: "string \<Rightarrow> int \<Rightarrow> ledger_entry list" where
  "sample_ledger account n =
     [Dated (sample_head ''2024-01-01'' 1)
        (TransactionE (groceries\<lparr>tx_postings :=
           [plain_posting account (usd_amount 5 0), plain_posting ''Equity:Start'' (usd_amount (- 5) 0)]\<rparr>)),
      Dated (sample_head ''2024-02-01'' 2) (BalanceE ''Assets:Cash'' (usd_amount n 0) None)]"

lemma sort_sample: "sort_entries (sample_ledger account n) = sample_ledger account n"
  by (simp add: sort_entries_def sample_ledger_def sample_head_def)

lemma failure_reported:
  "map snd (filter (\<lambda>x. fst x = BalanceAssertionFailed) errs) = [] \<longleftrightarrow> BalanceAssertionFailed \<notin> fst ` set errs"
  by (force simp: filter_empty_conv image_iff)

lemma balance_assertions_iff_witness:
  "\<exists>e1 e2. validate_entries (sample_ledger ''Assets:Cash:Till'' 5) = Inr e1 \<and>
     BalanceAssertionFailed \<notin> fst ` set e1 \<and>
     validate_entries (sample_ledger ''Assets:Cashier'' 5) = Inr e2 \<and>
     BalanceAssertionFailed \<in> fst ` set e2"
proof -
  have ok: "\<forall>e\<in>set (sample_ledger account 5). entry_keepable e" if "account_ok account" for account
    using that by (simp add: sample_ledger_def keepable_def) (simp add: account_ok_def)
  have f: "failed_assertions [] (sample_ledger ''Assets:Cash:Till'' 5) = []"
    "failed_assertions [] (sample_ledger ''Assets:Cashier'' 5) \<noteq> []"
    by (simp_all add: sample_ledger_def assertion_holds_def assertion_tolerance_def posted_def
        in_subtree_def starts_with_def)
  have "account_ok ''Assets:Cash:Till''" "account_ok ''Assets:Cashier''" by (simp_all add: account_ok_def)
  from balance_assertions_iff [OF ok [OF this(1)]] balance_assertions_iff [OF ok [OF this(2)]]
  show ?thesis unfolding sort_sample using f failure_reported by metis
qed

text \<open>
  With a bar in an account name the key is split at the wrong place, and a mere assertion on another
  account makes validation fail with an exception: the amounts of two commodities are added.
\<close>

lemma bar_breaks_balances:
  "validate_entries
       [Dated (sample_head ''2024-01-01'' 1)
          (TransactionE (groceries\<lparr>tx_postings :=
             [plain_posting ''Assets:Cash|USD'' \<lparr>am_number = decimal_from_coefficient 5 0, am_currency = ''EUR''\<rparr>,
              plain_posting ''Equity:Start'' \<lparr>am_number = decimal_from_coefficient (- 5) 0, am_currency = ''EUR''\<rparr>]\<rparr>)),
        Dated (sample_head ''2024-02-01'' 2) (BalanceE ''Assets:Cash'' (usd_amount 0 0) None)] =
     Inl (CurrencyMismatch ''USD'' ''EUR'')"
  by code_simp

section \<open>Pads\<close>

abbreviation initial_pad :: pad_state where
  "initial_pad \<equiv> \<lparr>ps_result = [], ps_balances = [], ps_pending = Map.empty\<rparr>"

definition postings_of :: "ledger_entry list \<Rightarrow> posting list" where
  "postings_of es = concat (map entry_postings es)"

lemma postings_of_simps [simp]:
  "postings_of [] = []" "postings_of (e # es) = entry_postings e @ postings_of es"
  "postings_of (es @ fs) = postings_of es @ postings_of fs"
  by (simp_all add: postings_of_def)

definition pad_ok :: "pad_state \<Rightarrow> bool" where
  "pad_ok s \<longleftrightarrow>
     summarises (ps_balances s) (postings_of (ps_result s)) \<and>
     (\<forall>account h source. ps_pending s account = Some (h, source) \<longrightarrow> account_ok account \<and> account_ok source) \<and>
     (\<forall>e\<in>set (ps_result s). entry_keepable e)"

definition mentions_pad :: "entry_head \<Rightarrow> ledger_entry \<Rightarrow> bool" where
  "mentions_pad ph e = (case e of Dated h d \<Rightarrow> eh_date h = eh_date ph | Config _ _ _ \<Rightarrow> False)"

lemma posted_plain:
  "posted account c (plain_posting a u) = (if am_currency u = c \<and> in_subtree account a then am_value u else 0)"
  by (simp add: posted_def)

lemma in_subtree_self [simp]: "in_subtree a a"
  by (simp add: in_subtree_def)

lemma pad_transaction_postings:
  "tx_postings (pad_transaction account source diff neg) = [plain_posting account diff, plain_posting source neg]"
  by (simp add: pad_transaction_def)

lemma pad_balance_ok:
  assumes s: "pad_ok s" and x: "amount_ok expected"
  shows "\<exists>s' mid. pad_balance h account expected s = Inr s' \<and> pad_ok s' \<and>
    ps_result s' = ps_result s @ mid \<and> (\<forall>c. residual c (postings_of mid) = 0) \<and>
    (case ps_pending s account of
       None \<Rightarrow> mid = []
     | Some (ph, source) \<Rightarrow>
         list_all (mentions_pad ph) mid \<and>
         (\<not> in_subtree account source \<longrightarrow>
            posted_total account (am_currency expected) (postings_of (ps_result s')) = am_value expected))"
proof -
  let ?ps = "postings_of (ps_result s)" and ?c = "am_currency expected"
  have sum: "summarises (ps_balances s) ?ps" using s by (simp add: pad_ok_def)
  obtain actual where actual: "subtree_balance (ps_balances s) account ?c = Inr actual" "amount_ok actual"
    "am_currency actual = ?c" "am_value actual = posted_total account ?c ?ps"
    using summarises_subtree [OF sum] x by (auto simp: amount_ok_def)
  obtain n where n: "amount_negate actual = Inr n" "am_currency n = ?c" "am_value n = - am_value actual"
    using amount_negate_ok [OF actual(2)] actual(3) by auto
  obtain diff where diff: "amount_add expected n = Inr diff" "amount_ok diff" "am_currency diff = ?c"
    "am_value diff = am_value expected - posted_total account ?c ?ps"
    using amount_add_ok [OF x, of n] n(2,3) actual(4) by auto
  obtain neg where neg: "amount_negate diff = Inr neg" "amount_ok neg" "am_currency neg = ?c"
    "am_value neg = - am_value diff"
    using amount_negate_ok [OF diff(2)] diff(3) by auto
  show ?thesis
  proof (cases "ps_pending s account")
    case None
    with s actual(1) n(1) diff(1) show ?thesis by (simp add: pad_balance_def)
  next
    case (Some pend)
    obtain ph source where pend: "pend = (ph, source)" by (cases pend)
    have ok: "account_ok account" "account_ok source" using s Some pend by (auto simp: pad_ok_def)
    show ?thesis
    proof (cases "am_value diff = 0")
      case True
      with s actual(1) n(1) diff Some pend show ?thesis
        by (simp add: pad_balance_def amount_is_zero_value)
    next
      case False
      let ?t = "pad_transaction account source diff neg"
      obtain bal where bal: "apply_postings (ps_balances s) (tx_postings ?t) = Inr bal"
        "summarises bal (?ps @ tx_postings ?t)"
        using summarises_apply [OF sum, of "tx_postings ?t"] diff(2) neg(2) ok
        by (auto simp: pad_transaction_postings keepable_def)
      let ?s = "push_result (Dated (pad_head ph) (TransactionE ?t))
        (s\<lparr>ps_balances := bal, ps_pending := (ps_pending s)(account := None)\<rparr>)"
      have "pad_balance h account expected s = Inr ?s"
        using actual(1) n(1) diff(1) neg(1) bal(1) Some pend False
        by (simp add: pad_balance_def amount_is_zero_value Let_def)
      moreover have "entry_keepable (Dated (pad_head ph) (TransactionE ?t))"
        using diff(2) neg(2) ok by (simp add: pad_transaction_postings keepable_def)
      then have "pad_ok ?s" using s bal(2) by (simp add: pad_ok_def push_result_def)
      moreover have "ps_result ?s = ps_result s @ [Dated (pad_head ph) (TransactionE ?t)]"
        by (simp add: push_result_def)
      moreover have "residual c (tx_postings ?t) = 0" for c
        using diff(3) neg(3,4) by (simp add: pad_transaction_postings)
      moreover have "\<not> in_subtree account source \<Longrightarrow>
          posted_total account ?c (postings_of (ps_result ?s)) = am_value expected"
        using diff(3,4) by (simp add: push_result_def pad_transaction_postings posted_plain)
      ultimately show ?thesis using Some pend
        by (simp add: mentions_pad_def pad_head_def)
    qed
  qed
qed

lemma pad_step_ok:
  assumes "pad_ok s" and "entry_keepable e"
  shows "\<exists>s'. pad_step e s = Inr s' \<and> pad_ok s'"
proof (cases e)
  case (Config m src c)
  with assms show ?thesis by (simp add: pad_ok_def push_result_def)
next
  case (Dated h d)
  show ?thesis
  proof (cases d)
    case (TransactionE t)
    then have "\<forall>p\<in>set (tx_postings t). keepable p" using assms(2) Dated by simp
    then obtain bal where "apply_postings (ps_balances s) (tx_postings t) = Inr bal"
      "summarises bal (postings_of (ps_result s) @ tx_postings t)"
      using summarises_apply assms(1) unfolding pad_ok_def by blast
    with assms Dated TransactionE show ?thesis by (simp add: pad_ok_def push_result_def)
  next
    case (BalanceE account expected tol)
    then have "amount_ok expected" using assms(2) Dated by simp
    from pad_balance_ok [OF assms(1) this, of h account] obtain s' where
      "pad_balance h account expected s = Inr s'" "pad_ok s'" by blast
    with assms(2) Dated BalanceE show ?thesis by (simp add: pad_ok_def push_result_def)
  qed (use assms Dated in \<open>simp_all add: pad_ok_def push_result_def\<close>)
qed

lemma pad_steps_ok:
  "\<forall>e\<in>set es. entry_keepable e \<Longrightarrow> pad_ok s \<Longrightarrow> \<exists>s'. pad_steps es s = Inr s' \<and> pad_ok s'"
proof (induction es arbitrary: s)
  case (Cons e es)
  then obtain s1 where "pad_step e s = Inr s1" "pad_ok s1" using pad_step_ok [of s e] by auto
  with Cons show ?case by auto
qed simp


definition padded_ledger :: "ledger_entry list" where
  "padded_ledger = sample_ledger ''Assets:Cash:Till'' 5 @
     [Dated (sample_head ''2024-03-01'' 3) (PadE ''Assets:Cash'' ''Equity:Start'')]"

lemma padded_run:
  "case pad_steps padded_ledger initial_pad of
     Inl e \<Rightarrow> False
   | Inr s \<Rightarrow> ps_pending s ''Assets:Cash'' = Some (sample_head ''2024-03-01'' 3, ''Equity:Start'')"
  by code_simp


end
