(* ===== verification/LedgerExporter.thy ===== *)
theory LedgerExporter
  imports LedgerEntries
begin

text \<open>
  The Beancount text of ledger entries, \<open>beancount/exporter.ts\<close>. A line is a string; options and
  metadata are association lists in insertion order. The default \<open>sort\<close> of JavaScript orders by code
  units, and an array of two by its elements joined with a comma.
\<close>

section \<open>Strings\<close>

abbreviation quote :: char where "quote \<equiv> CHR 0x22"
abbreviation backslash :: char where "backslash \<equiv> CHR 0x5C"
abbreviation newline :: char where "newline \<equiv> CHR 0x0A"

text \<open>\<open>s.replace(/c/g, t)\<close> for a single character\<close>

definition replace_char :: "char \<Rightarrow> string \<Rightarrow> string \<Rightarrow> string" where
  "replace_char c t s = concat (map (\<lambda>d. if d = c then t else [d]) s)"

definition escape_string :: "string \<Rightarrow> string" where
  "escape_string s = replace_char quote [backslash, quote] (replace_char backslash [backslash, backslash] s)"

definition quoted :: "string \<Rightarrow> string" where
  "quoted s = quote # escape_string s @ [quote]"

definition str_trim_end :: "string \<Rightarrow> string" where
  "str_trim_end s = rev (dropWhile js_space (rev s))"

definition sort_strings :: "string list \<Rightarrow> string list" where
  "sort_strings xs = sort_key (map (of_char :: char \<Rightarrow> nat)) xs"

section \<open>Metadata\<close>

definition internal_meta_keys :: "string list" where
  "internal_meta_keys = [''filename'', ''lineno'', ''interpolated'', ''generated_by'']"

fun format_metadata_value :: "meta_value \<Rightarrow> string" where
  "format_metadata_value MNull = []"
| "format_metadata_value (MBool b) = (if b then ''TRUE'' else ''FALSE'')"
| "format_metadata_value (MNumber n) = n"
| "format_metadata_value (MText s) = quoted s"

definition format_metadata :: "metadata \<Rightarrow> nat \<Rightarrow> string list" where
  "format_metadata meta indent =
     map (\<lambda>(k, v). replicate indent CHR '' '' @ k @ '': '' @ format_metadata_value v)
       (filter (\<lambda>(k, v). k \<notin> set internal_meta_keys) meta)"

section \<open>Directives\<close>

definition or_none :: "string option \<Rightarrow> string option" where
  "or_none v = (if v = Some [] then None else v)"

definition format_balance :: "string \<Rightarrow> string \<Rightarrow> amount \<Rightarrow> amount option \<Rightarrow> string" where
  "format_balance date account a tolerance =
     date @ '' balance '' @ account @ '' '' @
     (case tolerance of
        Some t \<Rightarrow> dv_decimal (am_number a) @ '' ~ '' @ dv_decimal (am_number t) @ '' '' @ am_currency a
      | None \<Rightarrow> amount_text a)"

definition format_cost :: "posting_cost option \<Rightarrow> string" where
  "format_cost c =
     (case c of
        None \<Rightarrow> []
      | Some (AtCost c) \<Rightarrow> '' {'' @ cost_text c @ ''}''
      | Some (AtSpec s) \<Rightarrow>
          (case (cs_number_total s, cs_number_per s) of
             (Some t, None) \<Rightarrow>
               '' {{'' @ dv_decimal t @
               (case or_none (cs_currency s) of None \<Rightarrow> [] | Some cur \<Rightarrow> '' '' @ cur) @ ''}}''
           | _ \<Rightarrow> '' {'' @ cost_spec_text s @ ''}''))"

definition format_posting :: "posting \<Rightarrow> string" where
  "format_posting p =
     ''  '' @ (case or_none (pt_flag p) of None \<Rightarrow> [] | Some f \<Rightarrow> f @ '' '') @ pt_account p @
     (case pt_units p of None \<Rightarrow> [] | Some u \<Rightarrow> ''  '' @ amount_text u) @
     format_cost (pt_cost p) @
     (case pt_price p of
        None \<Rightarrow> []
      | Some a \<Rightarrow> '' '' @ (if pt_price_is_total p then ''@@'' else ''@'') @ '' '' @ amount_text a)"

definition transaction_header :: "string \<Rightarrow> transaction \<Rightarrow> string" where
  "transaction_header date t =
     join '' ''
       ((date @ '' '' @ tx_flag t) #
        (case or_none (tx_payee t) of None \<Rightarrow> [] | Some p \<Rightarrow> [quoted p]) @
        (case or_none (tx_narration t) of None \<Rightarrow> [] | Some n \<Rightarrow> [quoted n]) @
        map (\<lambda>tag. CHR ''#'' # tag) (sort_strings (tx_tags t)) @
        map (\<lambda>link. CHR ''^'' # link) (sort_strings (tx_links t)))"

definition format_transaction :: "entry_head \<Rightarrow> transaction \<Rightarrow> string list" where
  "format_transaction h t =
     transaction_header (eh_date h) t # format_metadata (eh_meta h) 2 @
     concat (map (\<lambda>p. format_posting p # format_metadata (pt_meta p) 4) (tx_postings t))"

fun format_config :: "config_entry \<Rightarrow> string" where
  "format_config (OptionE name v) = ''option '' @ quoted name @ '' '' @ quoted v"
| "format_config (IncludeE path) = ''include '' @ quoted path"
| "format_config (PluginE m config) =
     ''plugin '' @ quoted m @ (case or_none config of None \<Rightarrow> [] | Some c \<Rightarrow> '' '' @ quoted c)"
| "format_config (PushTagE tag) = ''pushtag #'' @ tag"
| "format_config (PopTagE tag) = ''poptag #'' @ tag"
| "format_config (PushMetaE key v) =
     str_trim_end (''pushmeta '' @ key @ '': '' @ (case v of None \<Rightarrow> [] | Some s \<Rightarrow> quoted s))"
| "format_config (PopMetaE key) = ''popmeta '' @ key @ '':''"

fun format_dated :: "entry_head \<Rightarrow> dated_entry \<Rightarrow> string list" where
  "format_dated h (OpenE account currencies booking) =
     [eh_date h @ '' open '' @ account @
      (if currencies = [] then [] else '' '' @ join '','' currencies) @
      (case booking of None \<Rightarrow> [] | Some b \<Rightarrow> '' '' @ booking_text b)]"
| "format_dated h (CloseE account) = [eh_date h @ '' close '' @ account]"
| "format_dated h (CommodityE currency) = [eh_date h @ '' commodity '' @ currency]"
| "format_dated h (PadE account source) = [eh_date h @ '' pad '' @ account @ '' '' @ source]"
| "format_dated h (BalanceE account a tolerance) = [format_balance (eh_date h) account a tolerance]"
| "format_dated h (TransactionE t) = format_transaction h t"
| "format_dated h (NoteE account comment tags links) =
     [eh_date h @ '' note '' @ account @ '' '' @ quoted comment]"
| "format_dated h (EventE event_type description) =
     [eh_date h @ '' event '' @ quoted event_type @ '' '' @ quoted description]"
| "format_dated h (QueryE name query) = [eh_date h @ '' query '' @ quoted name @ '' '' @ quoted query]"
| "format_dated h (PriceE currency a) = [eh_date h @ '' price '' @ currency @ '' '' @ amount_text a]"
| "format_dated h (DocumentE account filename tags links) =
     [eh_date h @ '' document '' @ account @ '' '' @ quoted filename]"
| "format_dated h (CustomE custom_type vals) =
     [str_trim_end (eh_date h @ '' custom '' @ quoted custom_type @ '' '' @ join '' '' vals)]"

text \<open>The lines of an entry in the loop of \<open>export\<close>, the empty line after it included.\<close>

fun entry_lines :: "ledger_entry \<Rightarrow> string list" where
  "entry_lines (Config m s c) = [format_config c, []]"
| "entry_lines (Dated h e) =
     format_dated h e @
     (case e of TransactionE t \<Rightarrow> [] | _ \<Rightarrow> format_metadata (eh_meta h) 2) @ [[]]"

definition option_lines :: "(string \<times> string) list \<Rightarrow> string list" where
  "option_lines opts =
     (let lines = map (\<lambda>(k, v). ''option '' @ quoted k @ '' '' @ quoted v)
            (sort_key (\<lambda>(k, v). map (of_char :: char \<Rightarrow> nat) (k @ '','' @ v)) opts)
      in if lines = [] then [] else lines @ [[]])"

definition drop_blank_end :: "string list \<Rightarrow> string list" where
  "drop_blank_end lines = rev (dropWhile (\<lambda>l. l = []) (rev lines))"

definition export_entries :: "ledger_entry list \<Rightarrow> (string \<times> string) list \<Rightarrow> string" where
  "export_entries es opts =
     join [newline] (drop_blank_end (option_lines opts @ concat (map entry_lines (sort_entries es)))) @ [newline]"

end
