(* ===== verification/LedgerImporter.thy ===== *)
theory LedgerImporter
  imports LedgerExporter
begin

text \<open>
  Reading Beancount text, \<open>beancount/importer.ts\<close>. The regular expressions are written out as
  functions; white space is that of \<open>\s\<close>. What makes a line unreadable is a value, and so are the
  errors a file collects while the rest of it is read.
\<close>

section \<open>Regular expressions and strings\<close>

abbreviation not_space :: "char \<Rightarrow> bool" where "not_space c \<equiv> \<not> js_space c"

text \<open>\<open>s.split(/\s+/).filter(Boolean)\<close>\<close>

fun words_of :: "string \<Rightarrow> string list" where
  "words_of [] = []"
| "words_of (c # s) =
     (if js_space c then words_of s
      else (case s of
              [] \<Rightarrow> [[c]]
            | d # _ \<Rightarrow>
                if js_space d then [c] # words_of s
                else (case words_of s of w # ws \<Rightarrow> (c # w) # ws | [] \<Rightarrow> [[c]])))"

definition split_first :: "string \<Rightarrow> string \<times> string" where
  "split_first input =
     (let trimmed = js_trim input
      in (takeWhile not_space trimmed, dropWhile js_space (drop 1 (dropWhile not_space trimmed))))"

text \<open>\<open>input.replace(/\\(["\\])/g, "$1")\<close>\<close>

fun unescape_string :: "string \<Rightarrow> string" where
  "unescape_string (c # d # s) =
     (if c = backslash \<and> (d = quote \<or> d = backslash) then d # unescape_string s
      else c # unescape_string (d # s))"
| "unescape_string s = s"

text \<open>
  \<open>"((?:[^"\\]|\\.)*)"\<close> from behind its opening quote: the content up to the closing quote, and what
  follows. The dot matches neither line feed nor carriage return.
\<close>

fun quoted_content :: "string \<Rightarrow> (string \<times> string) option" where
  "quoted_content [] = None"
| "quoted_content (c # s) =
     (if c = quote then Some ([], s)
      else if c = backslash
      then (case s of
              [] \<Rightarrow> None
            | d # s' \<Rightarrow>
                if d = CHR 0x0A \<or> d = CHR 0x0D then None
                else (case quoted_content s' of
                        None \<Rightarrow> None | Some (m, r) \<Rightarrow> Some (c # d # m, r)))
      else (case quoted_content s of None \<Rightarrow> None | Some (m, r) \<Rightarrow> Some (c # m, r)))"

lemma quoted_content_shorter: "quoted_content s = Some (m, r) \<Longrightarrow> length r < length s"
  by (induction s arbitrary: m r rule: quoted_content.induct)
    (fastforce split: if_splits list.splits option.splits)+

function (sequential) quoted_values :: "string \<Rightarrow> string list" where
  "quoted_values [] = []"
| "quoted_values (c # s) =
     (if c = quote
      then (case quoted_content s of
              None \<Rightarrow> quoted_values s
            | Some (m, r) \<Rightarrow> unescape_string m # quoted_values r)
      else quoted_values s)"
  by pat_completeness auto
termination
  by (relation "measure length") (auto dest: quoted_content_shorter)

definition ends_with :: "char \<Rightarrow> string \<Rightarrow> bool" where
  "ends_with c s \<longleftrightarrow> s \<noteq> [] \<and> last s = c"

definition unquote :: "string \<Rightarrow> string" where
  "unquote s =
     (if s \<noteq> [] \<and> hd s = quote \<and> ends_with quote s then unescape_string (butlast (tl s)) else s)"

text \<open>The loop of \<open>stripComment\<close>, with \<open>quoted\<close> as an argument\<close>

fun cut_comment :: "bool \<Rightarrow> string \<Rightarrow> string" where
  "cut_comment q [] = []"
| "cut_comment q (c # s) =
     (if q \<and> c = backslash then (case s of [] \<Rightarrow> [c] | d # s' \<Rightarrow> c # d # cut_comment q s')
      else if c = quote then c # cut_comment (\<not> q) s
      else if c = CHR '';'' \<and> \<not> q then []
      else c # cut_comment q s)"

definition strip_comment :: "string \<Rightarrow> string" where
  "strip_comment line = cut_comment False line"

definition is_ignorable :: "string \<Rightarrow> bool" where
  "is_ignorable line \<longleftrightarrow> js_trim line = [] \<or> starts_with '';'' (js_trim line)"

definition is_indented :: "string \<Rightarrow> bool" where
  "is_indented line \<longleftrightarrow> line \<noteq> [] \<and> js_space (hd line)"

definition is_lower :: "char \<Rightarrow> bool" where
  "is_lower c \<longleftrightarrow> 97 \<le> (of_char c :: nat) \<and> (of_char c :: nat) \<le> 122"

text \<open>\<open>[A-Za-z0-9_-]\<close>\<close>

definition is_word :: "char \<Rightarrow> bool" where
  "is_word c \<longleftrightarrow> is_lower c \<or> is_upper c \<or> is_digit c \<or> c = CHR ''_'' \<or> c = CHR ''-''"

text \<open>\<open>matchAll(/(?:^|\s)#([A-Za-z0-9_-]+)/g)\<close>; the flag says that the text starts here or white space precedes.\<close>

function (sequential) marked_words :: "char \<Rightarrow> bool \<Rightarrow> string \<Rightarrow> string list" where
  "marked_words mark start [] = []"
| "marked_words mark start (c # s) =
     (if start \<and> c = mark \<and> s \<noteq> [] \<and> is_word (hd s)
      then takeWhile is_word s # marked_words mark False (dropWhile is_word s)
      else marked_words mark (js_space c) s)"
  by pat_completeness auto
termination
  by (relation "measure (\<lambda>(_, _, s). length s)") (auto simp: le_imp_less_Suc length_dropWhile_le)

text \<open>\<open>/^\s+([a-z][A-Za-z0-9_-]*):\s*(.*)$/\<close>: the key and the rest of the line, trimmed.\<close>

definition metadata_line :: "string \<Rightarrow> (string \<times> string) option" where
  "metadata_line line =
     (let body = dropWhile js_space line; key = takeWhile is_word body; rest = dropWhile is_word body;
          raw = dropWhile js_space (drop 1 rest)
      in if is_indented line \<and> key \<noteq> [] \<and> is_lower (hd key) \<and> rest \<noteq> [] \<and> hd rest = CHR '':'' \<and>
            list_all (\<lambda>c. c \<noteq> CHR 0x0A \<and> c \<noteq> CHR 0x0D) raw
         then Some (key, js_trim raw) else None)"

definition parse_metadata_value :: "string \<Rightarrow> meta_value" where
  "parse_metadata_value raw =
     (if raw = [] then MNull
      else if hd raw = quote then MText (unquote raw)
      else if raw = ''TRUE'' then MBool True
      else if raw = ''FALSE'' then MBool False
      else MText raw)"

section \<open>Unreadable lines\<close>

text \<open>
  \<open>ToleranceWithoutNumber\<close>: a tilde at the end of a balance line. There the code goes on with an amount
  whose number is \<open>undefined\<close>, which no operation on decimals takes; the model stops at the line.
\<close>

datatype parse_error =
    OptionNeedsNameAndValue | IncludeNeedsPath | PluginNeedsModule
  | ExpectedDate | UnknownDirective string
  | BalanceNeedsParts | ToleranceNeedsParts | ToleranceWithoutNumber | PriceNeedsParts
  | PostingNeedsAccount | InvalidCostComponent string | InvalidBooking string
  | FinanceError finance_error

text \<open>\<open>parts[i]\<close> as a string where the code expects one; \<open>undefined\<close> prints like this.\<close>

definition part_at :: "nat \<Rightarrow> string list \<Rightarrow> string" where
  "part_at i parts = (if i < length parts then parts ! i else ''undefined'')"

definition amount_at :: "string \<Rightarrow> string \<Rightarrow> parse_error + amount" where
  "amount_at n c = (case amount_of n c of Inl e \<Rightarrow> Inl (FinanceError e) | Inr a \<Rightarrow> Inr a)"

definition assert_symbol :: "string \<Rightarrow> parse_error option" where
  "assert_symbol s = (if is_commodity_symbol s then None else Some (FinanceError (InvalidSymbol s)))"

section \<open>Configuration\<close>

definition drop_prefix :: "string \<Rightarrow> string \<Rightarrow> string option" where
  "drop_prefix p s = (if starts_with p s then Some (drop (length p) s) else None)"

definition drop_hash :: "string \<Rightarrow> string" where
  "drop_hash s = (if s \<noteq> [] \<and> hd s = CHR ''#'' then tl s else s)"

definition drop_colon :: "string \<Rightarrow> string" where
  "drop_colon s = (if ends_with CHR '':'' s then butlast s else s)"

definition parse_config_line :: "string \<Rightarrow> parse_error + config_entry option" where
  "parse_config_line line =
     (case drop_prefix ''option '' line of
        Some r \<Rightarrow> (case quoted_values r of
                     n # v # _ \<Rightarrow> Inr (Some (OptionE n v)) | _ \<Rightarrow> Inl OptionNeedsNameAndValue)
      | None \<Rightarrow>
     (case drop_prefix ''include '' line of
        Some r \<Rightarrow> (case quoted_values r of
                     p # _ \<Rightarrow> if p = [] then Inl IncludeNeedsPath else Inr (Some (IncludeE p))
                   | [] \<Rightarrow> Inl IncludeNeedsPath)
      | None \<Rightarrow>
     (case drop_prefix ''plugin '' line of
        Some r \<Rightarrow> (case quoted_values r of
                     m # vs \<Rightarrow>
                       if m = [] then Inl PluginNeedsModule
                       else Inr (Some (PluginE m (case vs of c # _ \<Rightarrow> Some c | [] \<Rightarrow> None)))
                   | [] \<Rightarrow> Inl PluginNeedsModule)
      | None \<Rightarrow>
     (case drop_prefix ''pushtag '' line of
        Some r \<Rightarrow> Inr (Some (PushTagE (drop_hash r)))
      | None \<Rightarrow>
     (case drop_prefix ''poptag '' line of
        Some r \<Rightarrow> Inr (Some (PopTagE (drop_hash r)))
      | None \<Rightarrow>
     (case drop_prefix ''pushmeta '' line of
        Some r \<Rightarrow> (let (key, v) = split_first r
                   in Inr (Some (PushMetaE (drop_colon key) (Some (unquote (js_trim v))))))
      | None \<Rightarrow>
     (case drop_prefix ''popmeta '' line of
        Some r \<Rightarrow> Inr (Some (PopMetaE (drop_colon r)))
      | None \<Rightarrow> Inr None)))))))"

section \<open>Directives\<close>

definition is_booking_token :: "string \<Rightarrow> bool" where
  "is_booking_token s \<longleftrightarrow> s \<in> fst ` set bookings \<or> s \<in> set object_members"

definition parse_open :: "string \<Rightarrow> parse_error + dated_entry" where
  "parse_open tail =
     (let (account, rest) = split_first tail;
          parts = words_of rest;
          token = find is_booking_token parts;
          currencies = filter (\<lambda>c. c \<noteq> [])
            (map js_trim (concat (map (split_on CHR '','') (filter (\<lambda>p. Some p \<noteq> token) parts))))
      in case first_some (map (\<lambda>c (_::unit). assert_symbol c) currencies) () of
           Some e \<Rightarrow> Inl e
         | None \<Rightarrow>
             (case parse_booking token of
                Inl b \<Rightarrow> Inl (InvalidBooking b) | Inr b \<Rightarrow> Inr (OpenE account currencies b)))"

definition index_of_part :: "(string \<Rightarrow> bool) \<Rightarrow> string list \<Rightarrow> nat option" where
  "index_of_part P parts =
     (let i = length (takeWhile (\<lambda>p. \<not> P p) parts) in if i < length parts then Some i else None)"

definition parse_balance :: "string \<Rightarrow> parse_error + dated_entry" where
  "parse_balance tail =
     (let parts = words_of tail
      in if length parts < 3 then Inl BalanceNeedsParts
         else if parts ! 2 = ''~''
         then (if length parts < 5 then Inl ToleranceNeedsParts
               else (case amount_at (parts ! 1) (parts ! 4) of
                       Inl e \<Rightarrow> Inl e
                     | Inr a \<Rightarrow>
                         (case amount_at (parts ! 3) (parts ! 4) of
                            Inl e \<Rightarrow> Inl e | Inr t \<Rightarrow> Inr (BalanceE (parts ! 0) a (Some t)))))
         else (case amount_at (parts ! 1) (parts ! 2) of
                 Inl e \<Rightarrow> Inl e
               | Inr a \<Rightarrow>
                   (case index_of_part (\<lambda>p. p = ''~'') parts of
                      None \<Rightarrow> Inr (BalanceE (parts ! 0) a None)
                    | Some i \<Rightarrow>
                        if length parts \<le> i + 1 then Inl ToleranceWithoutNumber
                        else (case amount_at (parts ! (i + 1)) (am_currency a) of
                                Inl e \<Rightarrow> Inl e | Inr t \<Rightarrow> Inr (BalanceE (parts ! 0) a (Some t))))))"

definition parse_price :: "string \<Rightarrow> parse_error + dated_entry" where
  "parse_price tail =
     (let parts = words_of tail
      in if length parts < 3 then Inl PriceNeedsParts
         else (case assert_symbol (parts ! 0) of
                 Some e \<Rightarrow> Inl e
               | None \<Rightarrow>
                   (case amount_at (parts ! 1) (parts ! 2) of
                      Inl e \<Rightarrow> Inl e | Inr a \<Rightarrow> Inr (PriceE (parts ! 0) a))))"

text \<open>\<open>new Set(xs)\<close> in insertion order\<close>

definition set_of_list :: "string list \<Rightarrow> string list" where
  "set_of_list xs = rev (remdups (rev xs))"

definition parse_transaction :: "string \<Rightarrow> string \<Rightarrow> transaction" where
  "parse_transaction flag tail =
     (let values = quoted_values tail;
          (payee, narration) =
            (case values of [] \<Rightarrow> (None, None) | [n] \<Rightarrow> (None, Some n) | p # n # _ \<Rightarrow> (Some p, Some n))
      in \<lparr>tx_flag = (if flag = ''txn'' then ''*'' else flag), tx_payee = payee, tx_narration = narration,
          tx_tags = set_of_list (marked_words CHR ''#'' True tail),
          tx_links = set_of_list (marked_words CHR ''^'' True tail), tx_postings = []\<rparr>)"

section \<open>Postings\<close>

text \<open>
  \<open>/\{\{?([^}]*)\}?\}/\<close>: what precedes the first brace, whether it is doubled, the content and what
  follows the closing one.
\<close>

definition cost_match :: "string \<Rightarrow> (string \<times> bool \<times> string \<times> string) option" where
  "cost_match s =
     (let before = takeWhile (\<lambda>c. c \<noteq> CHR ''{'') s; opened = drop 1 (dropWhile (\<lambda>c. c \<noteq> CHR ''{'') s);
          double = starts_with ''{'' opened; body = (if double then tl opened else opened);
          content = takeWhile (\<lambda>c. c \<noteq> CHR ''}'') body; rest = dropWhile (\<lambda>c. c \<noteq> CHR ''}'') body
      in if rest = [] then None
         else Some (before, double, content, drop (if starts_with ''}}'' rest then 2 else 1) rest))"

record cost_fields =
  cf_per :: "string option"
  cf_total :: "string option"
  cf_currency :: "string option"
  cf_date :: "string option"
  cf_label :: "string option"
  cf_merge :: bool

fun cost_tokens :: "bool \<Rightarrow> string list \<Rightarrow> cost_fields \<Rightarrow> parse_error + cost_fields" where
  "cost_tokens is_total [] f = Inr f"
| "cost_tokens is_total (t # ts) f =
     (if t = ''#''
      then (case ts of
              [] \<Rightarrow> Inr (f\<lparr>cf_total := None\<rparr>)
            | n # ts' \<Rightarrow> cost_tokens is_total ts' (f\<lparr>cf_total := Some n\<rparr>))
      else if is_decimal_text t
      then cost_tokens is_total ts (if is_total then f\<lparr>cf_total := Some t\<rparr> else f\<lparr>cf_per := Some t\<rparr>)
      else if is_commodity_symbol t then cost_tokens is_total ts (f\<lparr>cf_currency := Some t\<rparr>)
      else Inl (InvalidCostComponent t))"

definition cost_part :: "bool \<Rightarrow> string \<Rightarrow> cost_fields \<Rightarrow> parse_error + cost_fields" where
  "cost_part is_total part f =
     (if part = ''*'' then Inr (f\<lparr>cf_merge := True\<rparr>)
      else if is_iso_date part then Inr (f\<lparr>cf_date := Some part\<rparr>)
      else if starts_with [quote] part then Inr (f\<lparr>cf_label := Some (unquote part)\<rparr>)
      else cost_tokens is_total (words_of part) f)"

fun cost_parts :: "bool \<Rightarrow> string list \<Rightarrow> cost_fields \<Rightarrow> parse_error + cost_fields" where
  "cost_parts is_total [] f = Inr f"
| "cost_parts is_total (p # ps) f =
     (case cost_part is_total p f of Inl e \<Rightarrow> Inl e | Inr f' \<Rightarrow> cost_parts is_total ps f')"

text \<open>A per-unit number with a commodity and nothing partial is a cost, anything else a specification.\<close>

definition cost_of_fields :: "cost_fields \<Rightarrow> parse_error + posting_cost" where
  "cost_of_fields f =
     (if cf_per f \<noteq> None \<and> cf_currency f \<noteq> None \<and> cf_total f = None \<and> \<not> cf_merge f
      then (case make_cost (the (cf_per f)) (the (cf_currency f)) (cf_date f) (cf_label f) of
              Inl e \<Rightarrow> Inl (FinanceError e) | Inr k \<Rightarrow> Inr (AtCost k))
      else (case make_cost_spec (cf_per f) (cf_total f) (cf_currency f) (cf_date f) (cf_label f)
                    (if cf_merge f then Some True else None) of
              Inl e \<Rightarrow> Inl (FinanceError e) | Inr k \<Rightarrow> Inr (AtSpec k)))"

definition parse_cost :: "string \<Rightarrow> bool \<Rightarrow> parse_error + posting_cost" where
  "parse_cost content is_total =
     (case cost_parts is_total (filter (\<lambda>p. p \<noteq> []) (map js_trim (split_on CHR '','' content)))
             \<lparr>cf_per = None, cf_total = None, cf_currency = None, cf_date = None, cf_label = None,
              cf_merge = False\<rparr> of
        Inl e \<Rightarrow> Inl e
      | Inr f \<Rightarrow> cost_of_fields f)"

definition posting_flags :: "string list" where
  "posting_flags = [''*'', ''!'', ''#'', ''?'']"

text \<open>The words of the line without its cost; squeezing the white space first changes no word.\<close>

definition posting_words :: "string \<Rightarrow> string list" where
  "posting_words stripped =
     (case cost_match stripped of
        None \<Rightarrow> words_of stripped
      | Some (before, _, _, after) \<Rightarrow> words_of (before @ '' '' @ after))"

definition posting_cost_of :: "string \<Rightarrow> parse_error + posting_cost option" where
  "posting_cost_of stripped =
     (case cost_match stripped of
        None \<Rightarrow> Inr None
      | Some (_, double, content, _) \<Rightarrow>
          (case parse_cost (js_trim content) double of Inl e \<Rightarrow> Inl e | Inr c \<Rightarrow> Inr (Some c)))"

definition posting_of_parts ::
    "posting_cost option \<Rightarrow> string option \<Rightarrow> string list \<Rightarrow> parse_error + posting" where
  "posting_of_parts cost flag parts =
     (case parts of
        [] \<Rightarrow> Inl PostingNeedsAccount
      | account # [] \<Rightarrow>
          Inr \<lparr>pt_account = account, pt_units = None, pt_cost = cost, pt_price = None,
               pt_price_is_total = False, pt_flag = flag, pt_meta = []\<rparr>
      | account # parts \<Rightarrow>
          (case amount_at (part_at 0 parts) (part_at 1 parts) of
             Inl e \<Rightarrow> Inl e
           | Inr units \<Rightarrow>
               (case index_of_part (\<lambda>p. p = ''@'' \<or> p = ''@@'') parts of
                  None \<Rightarrow>
                    Inr \<lparr>pt_account = account, pt_units = Some units, pt_cost = cost, pt_price = None,
                         pt_price_is_total = False, pt_flag = flag, pt_meta = []\<rparr>
                | Some i \<Rightarrow>
                    (case amount_at (part_at (i + 1) parts) (part_at (i + 2) parts) of
                       Inl e \<Rightarrow> Inl e
                     | Inr price \<Rightarrow>
                         Inr \<lparr>pt_account = account, pt_units = Some units, pt_cost = cost,
                              pt_price = Some price, pt_price_is_total = (parts ! i = ''@@''),
                              pt_flag = flag, pt_meta = []\<rparr>))))"

definition parse_posting_line :: "string \<Rightarrow> parse_error + posting" where
  "parse_posting_line line =
     (let stripped = js_trim (strip_comment line)
      in case posting_cost_of stripped of
           Inl e \<Rightarrow> Inl e
         | Inr cost \<Rightarrow>
             (case posting_words stripped of
                f # parts \<Rightarrow>
                  if f \<in> set posting_flags then posting_of_parts cost (Some f) parts
                  else posting_of_parts cost None (f # parts)
              | [] \<Rightarrow> posting_of_parts cost None []))"

section \<open>Lines\<close>

definition value_at :: "nat \<Rightarrow> string list \<Rightarrow> string" where
  "value_at i values = (if i < length values then values ! i else [])"

definition parse_dated :: "string \<Rightarrow> string \<Rightarrow> parse_error + dated_entry" where
  "parse_dated directive tail =
     (if directive = ''open'' then parse_open tail
      else if directive = ''close'' then Inr (CloseE (js_trim tail))
      else if directive = ''commodity'' then
        (case assert_symbol (js_trim tail) of Some e \<Rightarrow> Inl e | None \<Rightarrow> Inr (CommodityE (js_trim tail)))
      else if directive = ''pad'' then (let (account, source) = split_first tail in Inr (PadE account source))
      else if directive = ''balance'' then parse_balance tail
      else if directive = ''price'' then parse_price tail
      else if directive = ''note'' then
        (let (account, rest) = split_first tail in Inr (NoteE account (unquote (js_trim rest)) [] []))
      else if directive = ''event'' then
        (let vs = quoted_values tail in Inr (EventE (value_at 0 vs) (value_at 1 vs)))
      else if directive = ''query'' then
        (let vs = quoted_values tail in Inr (QueryE (value_at 0 vs) (value_at 1 vs)))
      else if directive = ''document'' then
        (let (account, rest) = split_first tail in Inr (DocumentE account (unquote (js_trim rest)) [] []))
      else if directive = ''custom'' then
        (let (custom_type, rest) = split_first tail in Inr (CustomE (unquote custom_type) (words_of rest)))
      else if directive \<noteq> ''txn'' \<and> length directive \<noteq> 1 then Inl (UnknownDirective directive)
      else Inr (TransactionE (parse_transaction directive tail)))"

definition parse_top_level_line :: "source_location \<Rightarrow> string \<Rightarrow> parse_error + ledger_entry" where
  "parse_top_level_line source line =
     (let trimmed = js_trim (strip_comment line)
      in case parse_config_line trimmed of
           Inl e \<Rightarrow> Inl e
         | Inr (Some c) \<Rightarrow> Inr (Config [] (Some source) c)
         | Inr None \<Rightarrow>
             (let (date, rest) = split_first trimmed; (directive, tail) = split_first rest
              in if \<not> is_iso_date date then Inl ExpectedDate
                 else (case parse_dated directive tail of
                         Inl e \<Rightarrow> Inl e
                       | Inr d \<Rightarrow> Inr (Dated \<lparr>eh_date = date, eh_meta = [], eh_source = Some source\<rparr> d))))"

section \<open>Files\<close>

datatype import_error = UnexpectedIndentation | ParseFailed parse_error

record import_state =
  im_entries :: "ledger_entry list"
  im_errors :: "(import_error \<times> source_location) list"
  im_options :: "(string \<times> string) list"
  im_tags :: "string list"
  im_meta :: metadata

text \<open>
  The lines of a transaction: metadata goes to the last posting, or to the transaction before the
  first one. An unreadable line ends it with the lines from there on.
\<close>

definition add_metadata :: "string \<Rightarrow> meta_value \<Rightarrow> metadata \<times> posting list \<Rightarrow> metadata \<times> posting list" where
  "add_metadata k v b =
     (case b of
        (meta, []) \<Rightarrow> (AList.update k v meta, [])
      | (meta, ps) \<Rightarrow> (meta, butlast ps @ [(last ps)\<lparr>pt_meta := AList.update k v (pt_meta (last ps))\<rparr>]))"

fun parse_body ::
    "nat \<Rightarrow> string list \<Rightarrow> metadata \<times> posting list \<Rightarrow>
     parse_error \<times> nat \<times> string list + nat \<times> string list \<times> metadata \<times> posting list" where
  "parse_body n [] b = Inr (n, [], b)"
| "parse_body n (l # ls) b =
     (if \<not> is_indented l \<and> \<not> is_ignorable l then Inr (n, l # ls, b)
      else if is_ignorable l then parse_body (n + 1) ls b
      else (case metadata_line (strip_comment l) of
              Some (k, raw) \<Rightarrow> parse_body (n + 1) ls (add_metadata k (parse_metadata_value raw) b)
            | None \<Rightarrow>
                (case parse_posting_line l of
                   Inl e \<Rightarrow> Inl (e, n, l # ls)
                 | Inr p \<Rightarrow> parse_body (n + 1) ls (fst b, snd b @ [p]))))"

lemma parse_body_rest:
  "parse_body n ls b = Inr (n', ls', b') \<Longrightarrow> length ls' \<le> length ls"
  "parse_body n ls b = Inl (e, n', ls') \<Longrightarrow> length ls' \<le> length ls"
  by (induction n ls b rule: parse_body.induct)
    (fastforce intro: le_SucI split: if_splits option.splits sum.splits prod.splits)+

definition set_insert_last :: "string \<Rightarrow> string list \<Rightarrow> string list" where
  "set_insert_last x xs = (if x \<in> set xs then xs else xs @ [x])"

text \<open>What a line that is no transaction does to the state.\<close>

definition register_entry :: "ledger_entry \<Rightarrow> import_state \<Rightarrow> import_state" where
  "register_entry e s =
     (let s = s\<lparr>im_entries := im_entries s @ [e]\<rparr>
      in case e of
           Config _ _ (OptionE name v) \<Rightarrow> s\<lparr>im_options := AList.update name v (im_options s)\<rparr>
         | Config _ _ (PushTagE tag) \<Rightarrow> s\<lparr>im_tags := set_insert_last tag (im_tags s)\<rparr>
         | Config _ _ (PopTagE tag) \<Rightarrow> s\<lparr>im_tags := filter (\<lambda>t. t \<noteq> tag) (im_tags s)\<rparr>
         | Config _ _ (PushMetaE key v) \<Rightarrow>
             s\<lparr>im_meta := AList.update key (case v of None \<Rightarrow> MNull | Some t \<Rightarrow> MText t) (im_meta s)\<rparr>
         | Config _ _ (PopMetaE key) \<Rightarrow> s\<lparr>im_meta := AList.delete key (im_meta s)\<rparr>
         | _ \<Rightarrow> s)"

definition add_error :: "import_error \<Rightarrow> source_location \<Rightarrow> import_state \<Rightarrow> import_state" where
  "add_error e source s = s\<lparr>im_errors := im_errors s @ [(e, source)]\<rparr>"

definition transaction_entry ::
    "entry_head \<Rightarrow> transaction \<Rightarrow> string list \<Rightarrow> metadata \<Rightarrow> posting list \<Rightarrow> ledger_entry" where
  "transaction_entry h t tags meta ps =
     Dated (h\<lparr>eh_meta := meta\<rparr>) (TransactionE (t\<lparr>tx_tags := fold set_insert_last tags (tx_tags t), tx_postings := ps\<rparr>))"

function (sequential) parse_lines ::
    "string \<Rightarrow> nat \<Rightarrow> string list \<Rightarrow> import_state \<Rightarrow> import_state" where
  "parse_lines filename n [] s = s"
| "parse_lines filename n (l # ls) s =
     (let source = \<lparr>sl_filename = filename, sl_lineno = n\<rparr>
      in if is_ignorable l then parse_lines filename (n + 1) ls s
         else if is_indented l then parse_lines filename (n + 1) ls (add_error UnexpectedIndentation source s)
         else (case parse_top_level_line source l of
                 Inl e \<Rightarrow> parse_lines filename (n + 1) ls (add_error (ParseFailed e) source s)
               | Inr (Dated h (TransactionE t)) \<Rightarrow>
                   (case parse_body (n + 1) ls (im_meta s, []) of
                      Inr (n', ls', meta, ps) \<Rightarrow>
                        parse_lines filename n' ls'
                          (s\<lparr>im_entries := im_entries s @ [transaction_entry h t (im_tags s) meta ps]\<rparr>)
                    | Inl (e, n', ls') \<Rightarrow>
                        parse_lines filename (n' + 1) (drop 1 ls') (add_error (ParseFailed e) source s))
               | Inr e \<Rightarrow> parse_lines filename (n + 1) ls (register_entry e s)))"
  by pat_completeness auto
termination
  by (relation "measure (\<lambda>(_, _, ls, _). length ls)")
    (auto dest!: parse_body_rest simp: le_imp_less_Suc)

text \<open>\<open>text.replace(/\r\n/g, "\n")\<close>\<close>

fun unix_lines :: "string \<Rightarrow> string" where
  "unix_lines (c # d # s) =
     (if c = CHR 0x0D \<and> d = CHR 0x0A then CHR 0x0A # unix_lines s else c # unix_lines (d # s))"
| "unix_lines s = s"

definition parse_beancount_text :: "string \<Rightarrow> string \<Rightarrow> import_state" where
  "parse_beancount_text text filename =
     parse_lines filename 1 (split_on newline (unix_lines text))
       \<lparr>im_entries = [], im_errors = [], im_options = [], im_tags = [], im_meta = []\<rparr>"

end
