(* ===== verification/LedgerText.thy ===== *)
theory LedgerText
  imports LedgerImporter
begin

text \<open>
  How the pieces of an exported line read back: quoted strings, words, comments, tags. The simplifier
  rules of the collection \<open>line_simps\<close> take a line apart from the left.
\<close>

named_theorems line_simps \<open>reading a line that was put together from tokens and quoted strings\<close>

section \<open>Escaping\<close>

lemma escape_simps [simp]:
  "escape_string [] = []"
  "escape_string (c # s) =
     (if c = quote then [backslash, quote] else if c = backslash then [backslash, backslash] else [c]) @
     escape_string s"
  by (simp_all add: escape_string_def replace_char_def)

lemma unescape_plain: "c \<noteq> backslash \<Longrightarrow> unescape_string (c # s) = c # unescape_string s"
  by (cases s) simp_all

lemma unescape_escape [simp]: "unescape_string (escape_string s) = s"
  by (induction s) (simp_all add: unescape_plain)

lemma quoted_content_escape [simp]:
  "quoted_content (escape_string s @ quote # r) = Some (escape_string s, r)"
  by (induction s) simp_all

lemma cut_comment_escape:
  "cut_comment True (escape_string s @ quote # r) = escape_string s @ quote # cut_comment False r"
  by (induction s) simp_all

lemma cut_comment_quoted [line_simps]: "cut_comment False (quoted s @ r) = quoted s @ cut_comment False r"
  by (simp add: quoted_def cut_comment_escape)

lemma quoted_shape: "hd (quoted s) = quote" "last (quoted s) = quote" "quoted s \<noteq> []"
  by (simp_all add: quoted_def)

lemma unquote_quoted [simp]: "unquote (quoted s) = s"
  by (simp add: unquote_def quoted_def ends_with_def)

section \<open>Tidy strings and tokens\<close>

definition tidy :: "string \<Rightarrow> bool" where
  "tidy s \<longleftrightarrow> s = [] \<or> (\<not> js_space (hd s) \<and> \<not> js_space (last s))"

text \<open>A word that no comment or quote interrupts.\<close>

definition token :: "string \<Rightarrow> bool" where
  "token s \<longleftrightarrow> s \<noteq> [] \<and> list_all (\<lambda>c. \<not> js_space c \<and> c \<noteq> quote \<and> c \<noteq> CHR '';'') s"

lemma dropWhile_head: "s = [] \<or> \<not> P (hd s) \<Longrightarrow> dropWhile P s = s"
  by (cases s) auto

lemma js_trim_tidy: "tidy s \<Longrightarrow> js_trim s = s"
  by (cases "s = []") (simp_all add: tidy_def js_trim_id, simp add: js_trim_def)

lemma str_trim_end_tidy: "s = [] \<or> \<not> js_space (last s) \<Longrightarrow> str_trim_end s = s"
  by (auto simp: str_trim_end_def dropWhile_head hd_rev)

lemma token_spaceless: "token s \<Longrightarrow> list_all not_space s"
  by (auto simp: token_def list_all_iff)

lemma token_hd_last: "token s \<Longrightarrow> s \<noteq> [] \<and> \<not> js_space (hd s) \<and> \<not> js_space (last s)"
  by (cases s) (auto simp: token_def list_all_iff)

lemma token_tidy [simp]: "token s \<Longrightarrow> tidy s"
  using token_hd_last [of s] by (simp add: tidy_def)

lemma quoted_tidy [simp]: "tidy (quoted s)"
  by (simp add: tidy_def quoted_shape js_space_def)

lemma tidy_append:
  "u \<noteq> [] \<Longrightarrow> \<not> js_space (hd u) \<Longrightarrow> v \<noteq> [] \<Longrightarrow> tidy v \<Longrightarrow> tidy (u @ w @ v)"
  by (simp add: tidy_def)

lemma space_is_space [simp]: "js_space CHR '' ''"
  by (simp add: js_space_def)

lemma cut_comment_plain:
  "list_all (\<lambda>c. c \<noteq> quote \<and> c \<noteq> CHR '';'') u \<Longrightarrow> cut_comment False (u @ r) = u @ cut_comment False r"
  by (induction u) auto

lemma cut_comment_token [line_simps]: "token u \<Longrightarrow> cut_comment False (u @ r) = u @ cut_comment False r"
  by (rule cut_comment_plain) (simp add: token_def list_all_iff)

lemma cut_comment_space [line_simps]: "cut_comment False (CHR '' '' # r) = CHR '' '' # cut_comment False r"
  by simp

lemma cut_comment_end [line_simps]: "token u \<Longrightarrow> cut_comment False u = u"
  using cut_comment_token [of u "[]"] by simp

lemma cut_comment_quoted_end [line_simps]: "cut_comment False (quoted s) = quoted s"
  using cut_comment_quoted [of s "[]"] by simp

section \<open>Words\<close>

lemma words_of_space [line_simps]: "js_space c \<Longrightarrow> words_of (c # r) = words_of r"
  by simp

lemma words_of_nonempty: "s \<noteq> [] \<Longrightarrow> list_all not_space s \<Longrightarrow> words_of s = [s]"
proof (induction s)
  case (Cons c s)
  then show ?case by (cases s) auto
qed simp

lemma words_of_append:
  "u \<noteq> [] \<Longrightarrow> list_all not_space u \<Longrightarrow> js_space c \<Longrightarrow> words_of (u @ c # r) = u # words_of r"
proof (induction u)
  case (Cons d u)
  then show ?case by (cases u) auto
qed simp

lemma words_of_token [line_simps]:
  "token u \<Longrightarrow> words_of u = [u]"
  "token u \<Longrightarrow> words_of (u @ CHR '' '' # r) = u # words_of r"
  using words_of_nonempty [of u] words_of_append [of u "CHR '' ''" r] token_spaceless [of u]
  by (auto simp: token_def)

lemma words_of_join: "\<forall>w\<in>set ws. w \<noteq> [] \<and> list_all not_space w \<Longrightarrow> words_of (join '' '' ws) = ws"
proof (induction ws)
  case (Cons w ws)
  show ?case
  proof (cases ws)
    case Nil
    with Cons.prems show ?thesis by (simp add: join_def words_of_nonempty)
  next
    case (Cons v vs)
    have "join '' '' (w # ws) = w @ CHR '' '' # join '' '' ws" using Cons by (simp add: join_def)
    with Cons.IH Cons.prems show ?thesis by (simp add: words_of_append)
  qed
qed (simp add: join_def)

lemma takeWhile_spaceless:
  "list_all not_space u \<Longrightarrow> takeWhile not_space (u @ CHR '' '' # r) = u"
  "list_all not_space u \<Longrightarrow> dropWhile not_space (u @ CHR '' '' # r) = CHR '' '' # r"
  "list_all not_space u \<Longrightarrow> takeWhile not_space u = u"
  "list_all not_space u \<Longrightarrow> dropWhile not_space u = []"
  by (induction u) auto

lemma split_first_spaceless:
  assumes "u \<noteq> []" and "list_all not_space u"
  shows "split_first u = (u, [])"
    and "r \<noteq> [] \<Longrightarrow> tidy r \<Longrightarrow> split_first (u @ CHR '' '' # r) = (u, r)"
proof -
  have hd: "\<not> js_space (hd u)" "\<not> js_space (last u)" using assms by (auto simp: list_all_iff)
  then have "js_trim u = u" by (intro js_trim_tidy) (simp add: tidy_def)
  with assms show "split_first u = (u, [])" by (simp add: split_first_def takeWhile_spaceless)
  assume r: "r \<noteq> []" "tidy r"
  then have "js_trim (u @ CHR '' '' # r) = u @ CHR '' '' # r"
    using assms(1) hd by (intro js_trim_tidy) (simp add: tidy_def)
  moreover have "dropWhile js_space r = r" using r by (simp add: tidy_def dropWhile_head)
  ultimately show "split_first (u @ CHR '' '' # r) = (u, r)"
    using assms(2) by (simp add: split_first_def takeWhile_spaceless)
qed

lemma split_first_token [line_simps]:
  "token u \<Longrightarrow> split_first u = (u, [])"
  "token u \<Longrightarrow> r \<noteq> [] \<Longrightarrow> tidy r \<Longrightarrow> split_first (u @ CHR '' '' # r) = (u, r)"
  using split_first_spaceless [of u] token_spaceless [of u] by (auto simp: token_def)

lemma split_first_Nil [line_simps]: "split_first [] = ([], [])"
  by (simp add: split_first_def js_trim_def)

section \<open>Quoted values and marked words\<close>

lemma quoted_values_quoted [line_simps]: "quoted_values (quoted s @ r) = s # quoted_values r"
  by (simp add: quoted_def)

lemma quoted_values_quoted_end [line_simps]: "quoted_values (quoted s) = [s]"
  using quoted_values_quoted [of s "[]"] by simp

lemma quoted_values_plain: "list_all (\<lambda>c. c \<noteq> quote) u \<Longrightarrow> quoted_values (u @ r) = quoted_values r"
  by (induction u) auto

lemma marked_words_escape:
  assumes "mark \<noteq> quote" "mark \<noteq> backslash" "\<not> js_space mark"
  shows "marked_words mark start s = [] \<Longrightarrow>
    marked_words mark start (escape_string s @ quote # r) = marked_words mark False r"
proof (induction s arbitrary: start)
  case Nil
  then show ?case using assms by (simp add: js_space_def)
next
  case (Cons c s)
  have sp: "\<not> js_space quote" "\<not> js_space backslash" by (simp_all add: js_space_def)
  have rest: "marked_words mark (js_space c) s = []"
    and no: "\<not> (start \<and> c = mark \<and> s \<noteq> [] \<and> is_word (hd s))"
    using Cons.prems by (auto split: if_splits)
  have ih: "marked_words mark (js_space c) (escape_string s @ quote # r) = marked_words mark False r"
    by (rule Cons.IH [OF rest])
  show ?case
  proof (cases "c = quote \<or> c = backslash")
    case True
    then show ?thesis using ih sp assms by auto
  next
    case False
    have "\<not> is_word quote" "\<not> is_word backslash"
      by (simp_all add: is_word_def is_lower_def is_upper_def is_digit_def)
    then have "\<not> (start \<and> c = mark \<and> is_word (hd (escape_string s @ quote # r)))"
      using no by (cases s) auto
    then have "marked_words mark start (c # escape_string s @ quote # r) =
        marked_words mark (js_space c) (escape_string s @ quote # r)"
      by auto
    with ih False show ?thesis by simp
  qed
qed

lemma marked_words_quoted:
  assumes "mark \<noteq> quote" "mark \<noteq> backslash" "\<not> js_space mark" and "marked_words mark False s = []"
  shows "marked_words mark start (quoted s @ r) = marked_words mark False r"
  using marked_words_escape [OF assms(1-3), of False s r] assms by (simp add: quoted_def js_space_def)

lemma word_not_space: "is_word c \<Longrightarrow> \<not> js_space c"
  by (auto simp: is_word_def is_lower_def is_upper_def is_digit_def js_space_def)

lemma marked_words_plain:
  "\<not> js_space mark \<Longrightarrow> list_all not_space u \<Longrightarrow> marked_words mark False (u @ r) = marked_words mark False r"
  by (induction u) auto

lemma takeWhile_word:
  "list_all is_word w \<Longrightarrow> r = [] \<or> \<not> is_word (hd r) \<Longrightarrow> takeWhile is_word (w @ r) = w \<and> dropWhile is_word (w @ r) = r"
  by (induction w) (cases r; auto)+

lemma marked_words_hit:
  assumes "w \<noteq> []" "list_all is_word w" "r = [] \<or> hd r = CHR '' ''"
  shows "marked_words mark True (mark # w @ r) = w # marked_words mark False r"
proof -
  have "\<not> is_word CHR '' ''" by (simp add: is_word_def is_lower_def is_upper_def is_digit_def)
  then have "takeWhile is_word (w @ r) = w \<and> dropWhile is_word (w @ r) = r"
    using assms by (intro takeWhile_word) auto
  with assms show ?thesis by (cases w) auto
qed

lemma marked_words_miss:
  assumes "m \<noteq> mark" "list_all is_word w" "\<not> js_space m" "\<not> js_space mark"
  shows "marked_words mark True (m # w @ r) = marked_words mark False r"
  using assms marked_words_plain [of mark w r] word_not_space by (simp add: list_all_iff)

end
