(* ===== verification/LedgerRoundtrip.thy ===== *)
theory LedgerRoundtrip
  imports LedgerText
begin

text \<open>
  Every line the exporter writes reads back as what it was written from: single-line directives,
  transaction headers, metadata and postings. Each predicate \<open>..._ok\<close> says which values have a text
  of their own; what lies outside them does not survive, as the last section shows.
\<close>

section \<open>Numbers and names\<close>

definition number_ok :: "decimal_value \<Rightarrow> bool" where
  "number_ok d \<longleftrightarrow> d = decimal_from_coefficient (dv_coefficient d) (dv_scale d)"

definition written_amount :: "amount \<Rightarrow> bool" where
  "written_amount a \<longleftrightarrow> amount_ok a \<and> number_ok (am_number a)"

definition name_ok :: "string \<Rightarrow> bool" where
  "name_ok a \<longleftrightarrow> token a \<and> is_upper (hd a) \<and> list_all (\<lambda>c. c \<noteq> CHR ''{'') a"

text \<open>Characters of numbers, symbols and dates: nothing the reader treats specially.\<close>

definition plain :: "char \<Rightarrow> bool" where
  "plain c \<longleftrightarrow> \<not> js_space c \<and> c \<notin> set [quote, CHR '';'', CHR ''{'', CHR ''}'', CHR '','', CHR '':'', CHR ''~'', CHR ''@'', CHR ''#'']"

lemma plain_class:
  "is_digit c \<Longrightarrow> plain c" "is_upper c \<Longrightarrow> plain c" "plain CHR ''.''" "plain CHR ''-''" "plain CHR ''_''"
  by (auto simp: plain_def is_digit_def is_upper_def js_space_def)

lemma plain_token: "s \<noteq> [] \<Longrightarrow> list_all plain s \<Longrightarrow> token s"
  by (auto simp: token_def list_all_iff plain_def)

lemma digit_not_upper: "is_digit c \<Longrightarrow> \<not> is_upper c"
  by (auto simp: is_digit_def is_upper_def)

lemma number_text:
  assumes "number_ok d"
  obtains b u where "dv_decimal d = (if b then ''-'' else []) @ u" "u \<noteq> []"
    "list_all (\<lambda>c. is_digit c \<or> c = CHR ''.'') u" "is_digit (hd u)" "is_digit (last u)"
proof -
  let ?c = "dv_coefficient d" and ?k = "dv_scale d"
  have t: "dv_decimal d = format_coefficient ?c ?k"
    using assms unfolding number_ok_def decimal_from_coefficient_def by (metis decimal_value.select_convs(1))
  show thesis
  proof (cases "?k = 0")
    case True
    have "dv_decimal d = (if ?c < 0 then ''-'' else []) @ nat_text (nat \<bar>?c\<bar>)"
      unfolding t format_coefficient_def Let_def using True by simp
    moreover have "list_all is_digit (nat_text (nat \<bar>?c\<bar>))" by (rule nat_text_digits)
    ultimately show thesis
      using nat_text_nonempty [of "nat \<bar>?c\<bar>"] by (intro that) (auto simp: list_all_iff)
  next
    case False
    then obtain w f where wf: "format_coefficient ?c ?k = (if ?c < 0 then ''-'' else []) @ w @ ''.'' @ f"
      "w \<noteq> []" "list_all is_digit w" "f \<noteq> []" "list_all is_digit f"
      by (rule format_split [of ?k ?c, OF neq0_conv [THEN iffD1]])
    then show thesis using t by (intro that [of "?c < 0" "w @ ''.'' @ f"]) (auto simp: list_all_iff)
  qed
qed

lemma number_token:
  assumes "number_ok d"
  shows "list_all plain (dv_decimal d)" "token (dv_decimal d)" "\<not> is_upper (hd (dv_decimal d))"
    "is_digit (last (dv_decimal d))"
proof -
  obtain b u where u: "dv_decimal d = (if b then ''-'' else []) @ u" "u \<noteq> []"
    "list_all (\<lambda>c. is_digit c \<or> c = CHR ''.'') u" "is_digit (hd u)" "is_digit (last u)"
    using number_text [OF assms] .
  have "list_all plain u" using u(3) plain_class(1,3) unfolding list_all_iff by metis
  then show p: "list_all plain (dv_decimal d)" using u(1) plain_class(4) by simp
  show "is_digit (last (dv_decimal d))" using u by simp
  have "dv_decimal d \<noteq> []" using u(1,2) by simp
  then show "token (dv_decimal d)" using p by (rule plain_token)
  have "\<not> is_upper CHR ''-''" by (simp add: is_upper_def)
  then show "\<not> is_upper (hd (dv_decimal d))" using u(1,2,4) digit_not_upper by simp
qed

lemma parse_number:
  assumes "number_ok d"
  shows "parse_decimal (dv_decimal d) = Inr d"
proof -
  obtain c k where d: "d = decimal_from_coefficient c k" using assms by (metis number_ok_def)
  then have "dv_decimal d = format_coefficient c k" by (simp add: decimal_from_coefficient_def)
  then show ?thesis using parse_format [of c k] d by simp
qed

lemma number_decimal_text: "number_ok d \<Longrightarrow> is_decimal_text (dv_decimal d)"
  using parse_number [of d] js_trim_tidy [OF token_tidy [OF number_token(2)], of d]
  by (auto simp: parse_decimal_def Let_def split: if_splits)

lemma amount_at_written [line_simps]:
  "written_amount a \<Longrightarrow> amount_at (dv_decimal (am_number a)) (am_currency a) = Inr a"
  by (simp add: amount_at_def amount_of_def parse_number written_amount_def amount_ok_def)

lemma symbol_token:
  assumes "is_commodity_symbol c"
  shows "list_all plain c" "token c" "is_upper (hd c)"
proof -
  obtain h t where c: "c = h # t" "is_upper h"
    "list_all (\<lambda>d. is_upper d \<or> is_digit d \<or> d = CHR ''_'' \<or> d = CHR ''-'') t"
    using assms by (cases c) (auto simp: is_commodity_symbol_def)
  have "list_all plain t" using c(3) plain_class unfolding list_all_iff by metis
  then show p: "list_all plain c" using c(1,2) plain_class(2) by simp
  show "is_upper (hd c)" using c by simp
  show "token c" using p c(1) by (intro plain_token) simp_all
qed

lemma written_currency: "written_amount a \<Longrightarrow> is_commodity_symbol (am_currency a)"
  "written_amount a \<Longrightarrow> number_ok (am_number a)"
  by (simp_all add: written_amount_def amount_ok_def)

lemma amount_text_simps:
  "amount_text a = dv_decimal (am_number a) @ CHR '' '' # am_currency a"
  by (simp add: amount_text_def)

lemma name_token [simp]: "name_ok a \<Longrightarrow> token a"
  by (simp add: name_ok_def)

section \<open>A line with a date\<close>

lemma iso_date_plain:
  assumes d: "is_iso_date d"
  shows "list_all plain d" "d \<noteq> []" "is_digit (hd d)"
proof -
  have "length d = 10" using d by (simp add: is_iso_date_def)
  then obtain a b c e f g h i j k where d10: "d = [a, b, c, e, f, g, h, i, j, k]"
    by (auto simp: length_Suc_conv numeral_eq_Suc)
  have "is_digit a \<and> is_digit b \<and> is_digit c \<and> is_digit e \<and> f = CHR ''-'' \<and> is_digit g \<and>
      is_digit h \<and> i = CHR ''-'' \<and> is_digit j \<and> is_digit k"
    using d unfolding d10 is_iso_date_def by simp
  then show "list_all plain d" "d \<noteq> []" "is_digit (hd d)" unfolding d10 by (simp_all add: plain_class)
qed

lemma iso_date_token: "is_iso_date d \<Longrightarrow> token d \<and> is_digit (hd d)"
  using iso_date_plain [of d] by (simp add: plain_token)

lemma drop_prefix_Cons:
  "drop_prefix (a # p) (c # s) = (if a = c then drop_prefix p s else None)" "drop_prefix [] s = Some s"
  by (simp_all add: drop_prefix_def starts_with_def)

lemma no_config:
  assumes "is_digit (hd s)" and "s \<noteq> []"
  shows "parse_config_line s = Inr None"
proof -
  obtain c t where s: "s = c # t" using assms(2) by (cases s) auto
  have "c \<noteq> CHR ''o''" "c \<noteq> CHR ''i''" "c \<noteq> CHR ''p''" using assms(1) s by (auto simp: is_digit_def)
  then show ?thesis unfolding s parse_config_line_def by (simp add: drop_prefix_Cons)
qed

lemma parse_date_line:
  assumes d: "is_iso_date date" and r: "rest \<noteq> []" "tidy rest" "cut_comment False rest = rest"
    and s: "split_first rest = (directive, tail)"
  shows "parse_top_level_line source (date @ CHR '' '' # rest) =
    (case parse_dated directive tail of
       Inl e \<Rightarrow> Inl e
     | Inr e \<Rightarrow> Inr (Dated \<lparr>eh_date = date, eh_meta = [], eh_source = Some source\<rparr> e))"
proof -
  let ?l = "date @ CHR '' '' # rest"
  have t: "token date" "is_digit (hd date)" using iso_date_token [OF d] by auto
  then have "\<not> js_space (hd date)" "date \<noteq> []" using token_hd_last by auto
  then have "js_trim ?l = ?l" using r(1,2) by (intro js_trim_tidy) (simp add: tidy_def)
  moreover have "strip_comment ?l = ?l" using t r(3) by (simp add: strip_comment_def line_simps)
  moreover have "parse_config_line ?l = Inr None" using t \<open>date \<noteq> []\<close> by (intro no_config) simp_all
  moreover have "split_first ?l = (date, rest)" using t r by (simp add: line_simps)
  ultimately show ?thesis using s d by (simp add: parse_top_level_line_def Let_def)
qed

lemma parse_directive:
  assumes "is_iso_date date" and "token directive" and "tail \<noteq> []" "tidy tail" "cut_comment False tail = tail"
  shows "parse_top_level_line source (date @ CHR '' '' # directive @ CHR '' '' # tail) =
    (case parse_dated directive tail of
       Inl e \<Rightarrow> Inl e
     | Inr e \<Rightarrow> Inr (Dated \<lparr>eh_date = date, eh_meta = [], eh_source = Some source\<rparr> e))"
  using assms token_hd_last [of directive]
  by (intro parse_date_line) (simp_all add: line_simps tidy_def)

section \<open>Single-line directives\<close>

text \<open>
  What an exported directive keeps: the account is a name, texts are arbitrary, a single currency of
  an account is not called like a booking method, and a custom type is one word.
\<close>

fun directive_ok :: "dated_entry \<Rightarrow> bool" where
  "directive_ok (OpenE account currencies booking) \<longleftrightarrow>
     name_ok account \<and> (\<forall>c\<in>set currencies. is_commodity_symbol c) \<and>
     \<not> is_booking_token (join '','' currencies)"
| "directive_ok (CloseE account) \<longleftrightarrow> name_ok account"
| "directive_ok (CommodityE currency) \<longleftrightarrow> is_commodity_symbol currency"
| "directive_ok (PadE account source) \<longleftrightarrow> name_ok account \<and> name_ok source"
| "directive_ok (BalanceE account a tolerance) \<longleftrightarrow>
     name_ok account \<and> written_amount a \<and>
     (case tolerance of None \<Rightarrow> True | Some t \<Rightarrow> written_amount t \<and> am_currency t = am_currency a)"
| "directive_ok (TransactionE t) \<longleftrightarrow> False"
| "directive_ok (NoteE account comment tags links) \<longleftrightarrow> name_ok account \<and> tags = [] \<and> links = []"
| "directive_ok (EventE event_type description) \<longleftrightarrow> True"
| "directive_ok (QueryE name query) \<longleftrightarrow> True"
| "directive_ok (PriceE currency a) \<longleftrightarrow> is_commodity_symbol currency \<and> written_amount a"
| "directive_ok (DocumentE account filename tags links) \<longleftrightarrow> name_ok account \<and> tags = [] \<and> links = []"
| "directive_ok (CustomE custom_type vals) \<longleftrightarrow>
     list_all not_space custom_type \<and> (\<forall>v\<in>set vals. token v)"

lemma join_tidy_parts:
  "vs \<noteq> [] \<Longrightarrow> \<forall>v\<in>set vs. v \<noteq> [] \<and> tidy v \<Longrightarrow> join '' '' vs \<noteq> [] \<and> tidy (join '' '' vs)"
proof (induction vs)
  case (Cons v vs)
  have v: "v \<noteq> [] \<and> \<not> js_space (hd v) \<and> \<not> js_space (last v)" using Cons.prems by (auto simp: tidy_def)
  show ?case
  proof (cases "vs = []")
    case True
    with v show ?thesis by (simp add: tidy_def)
  next
    case False
    with Cons v show ?thesis by (auto simp: join_Cons tidy_def)
  qed
qed simp

lemma join_tidy: "vs \<noteq> [] \<Longrightarrow> \<forall>v\<in>set vs. token v \<Longrightarrow> join '' '' vs \<noteq> [] \<and> tidy (join '' '' vs)"
  by (rule join_tidy_parts) (auto simp: token_def)

lemma directive_words:
  "token ''open''" "token ''close''" "token ''commodity''" "token ''pad''" "token ''balance''"
  "token ''note''" "token ''event''" "token ''query''" "token ''price''" "token ''document''" "token ''custom''"
  by (simp_all add: token_def js_space_def)

lemma tail_tidy:
  "token u \<Longrightarrow> v \<noteq> [] \<Longrightarrow> tidy v \<Longrightarrow> u @ CHR '' '' # v \<noteq> [] \<and> tidy (u @ CHR '' '' # v)"
  "v \<noteq> [] \<Longrightarrow> tidy v \<Longrightarrow> tidy (quoted s @ CHR '' '' # v)"
  using token_hd_last [of u] by (auto simp: tidy_def quoted_shape js_space_def)

lemma token_nonempty: "token u \<Longrightarrow> u \<noteq> []"
  by (simp add: token_def)

lemma quoted_nonempty: "quoted s \<noteq> []"
  by (simp add: quoted_def)

lemmas tail_simps = tail_tidy token_nonempty quoted_nonempty js_trim_tidy number_token symbol_token written_currency

text \<open>Reading the tail of each directive.\<close>

lemma read_note: "name_ok account \<Longrightarrow> parse_dated ''note'' (account @ CHR '' '' # quoted s) = Inr (NoteE account s [] [])"
  by (simp add: parse_dated_def line_simps tail_simps)

lemma read_document:
  "name_ok account \<Longrightarrow> parse_dated ''document'' (account @ CHR '' '' # quoted s) = Inr (DocumentE account s [] [])"
  by (simp add: parse_dated_def line_simps tail_simps)

lemma quoted_pair: "quoted_values (quoted a @ CHR '' '' # quoted b) = [a, b]"
  by (simp add: line_simps)

lemma read_event: "parse_dated ''event'' (quoted a @ CHR '' '' # quoted b) = Inr (EventE a b)"
  by (simp add: parse_dated_def Let_def quoted_pair value_at_def)

lemma read_query: "parse_dated ''query'' (quoted a @ CHR '' '' # quoted b) = Inr (QueryE a b)"
  by (simp add: parse_dated_def Let_def quoted_pair value_at_def)

lemma read_close: "name_ok account \<Longrightarrow> parse_dated ''close'' account = Inr (CloseE account)"
  by (simp add: parse_dated_def tail_simps)

lemma read_commodity: "is_commodity_symbol c \<Longrightarrow> parse_dated ''commodity'' c = Inr (CommodityE c)"
  by (simp add: parse_dated_def tail_simps assert_symbol_def)

lemma read_pad: "name_ok a \<Longrightarrow> name_ok b \<Longrightarrow> parse_dated ''pad'' (a @ CHR '' '' # b) = Inr (PadE a b)"
  by (simp add: parse_dated_def line_simps tail_simps)

lemma read_price:
  "is_commodity_symbol c \<Longrightarrow> written_amount a \<Longrightarrow>
   parse_dated ''price'' (c @ CHR '' '' # amount_text a) = Inr (PriceE c a)"
  by (simp add: parse_dated_def parse_price_def Let_def amount_text_simps line_simps tail_simps assert_symbol_def)

lemma not_tilde: "is_upper (hd s) \<Longrightarrow> s \<noteq> ''~''" "is_digit (last s) \<Longrightarrow> s \<noteq> ''~''"
  by (auto simp: is_upper_def is_digit_def)

lemma read_balance:
  assumes "name_ok account" "written_amount a"
  shows "parse_dated ''balance'' (account @ CHR '' '' # amount_text a) = Inr (BalanceE account a None)"
    and "written_amount t \<Longrightarrow> am_currency t = am_currency a \<Longrightarrow>
      parse_dated ''balance'' (account @ CHR '' '' # dv_decimal (am_number a) @ CHR '' '' # ''~'' @ CHR '' '' #
        dv_decimal (am_number t) @ CHR '' '' # am_currency a) = Inr (BalanceE account a (Some t))"
proof -
  have "is_upper (hd account)" "is_digit (last (dv_decimal (am_number a)))" "is_upper (hd (am_currency a))"
    using assms by (simp_all add: name_ok_def tail_simps)
  then have ne: "account \<noteq> ''~''" "dv_decimal (am_number a) \<noteq> ''~''" "am_currency a \<noteq> ''~''"
    by (simp_all add: not_tilde)
  have "words_of (account @ CHR '' '' # amount_text a) = [account, dv_decimal (am_number a), am_currency a]"
    using assms by (simp add: amount_text_simps line_simps tail_simps)
  with ne assms show "parse_dated ''balance'' (account @ CHR '' '' # amount_text a) = Inr (BalanceE account a None)"
    by (simp add: parse_dated_def parse_balance_def Let_def line_simps index_of_part_def)
  assume t: "written_amount t" "am_currency t = am_currency a"
  have "token ''~''" by (simp add: token_def js_space_def)
  then have "words_of (account @ CHR '' '' # dv_decimal (am_number a) @ CHR '' '' # ''~'' @ CHR '' '' #
      dv_decimal (am_number t) @ CHR '' '' # am_currency a) =
    [account, dv_decimal (am_number a), ''~'', dv_decimal (am_number t), am_currency a]"
    using assms t by (simp only: line_simps tail_simps name_token)
  with assms t amount_at_written [OF t(1)] show "parse_dated ''balance'' (account @ CHR '' '' #
      dv_decimal (am_number a) @ CHR '' '' # ''~'' @ CHR '' '' # dv_decimal (am_number t) @ CHR '' '' # am_currency a) =
    Inr (BalanceE account a (Some t))"
    by (simp add: parse_dated_def parse_balance_def Let_def line_simps)
qed

lemma read_custom:
  assumes "list_all not_space custom_type" and "\<forall>v\<in>set vals. token v"
  shows "parse_dated ''custom'' (if vals = [] then quoted custom_type else quoted custom_type @ CHR '' '' # join '' '' vals) =
    Inr (CustomE custom_type vals)"
proof -
  have q: "quoted custom_type \<noteq> []" "list_all not_space (quoted custom_type)"
  proof -
    have "list_all not_space (escape_string custom_type)"
      using assms(1) by (induction custom_type) (auto simp: js_space_def)
    then show "list_all not_space (quoted custom_type)" by (simp add: quoted_def js_space_def)
  qed (rule quoted_nonempty)
  have w: "words_of (join '' '' vals) = vals"
    using assms(2) by (intro words_of_join) (auto simp: token_def list_all_iff)
  have "join '' '' vals \<noteq> [] \<and> tidy (join '' '' vals)" if "vals \<noteq> []"
    using that assms(2) join_tidy by blast
  then show ?thesis
    using split_first_spaceless [OF q] w by (auto simp: parse_dated_def)
qed

lemma symbol_no_comma: "is_commodity_symbol c \<Longrightarrow> CHR '','' \<notin> set c"
  using symbol_token(1) [of c] by (auto simp: list_all_iff plain_def)

lemma join_symbols_token:
  "cs \<noteq> [] \<Longrightarrow> \<forall>c\<in>set cs. is_commodity_symbol c \<Longrightarrow> token (join '','' cs)"
proof (induction cs)
  case (Cons c cs)
  have c: "token c" using Cons.prems symbol_token(2) by simp
  show ?case
  proof (cases "cs = []")
    case True
    with c show ?thesis by simp
  next
    case False
    with Cons have "token (join '','' cs)" by simp
    with c False show ?thesis by (auto simp: join_Cons token_def js_space_def)
  qed
qed simp

lemma spaced_join: "ws \<noteq> [] \<Longrightarrow> concat (map (\<lambda>w. CHR '' '' # w) ws) = CHR '' '' # join '' '' ws"
proof (induction ws)
  case (Cons w ws)
  then show ?case by (cases "ws = []") (simp_all add: join_Cons)
qed simp

definition currencies_of :: "string list \<Rightarrow> string list" where
  "currencies_of parts = filter (\<lambda>c. c \<noteq> []) (map js_trim (concat (map (split_on CHR '','') parts)))"

lemma currencies_of_join:
  assumes "cs \<noteq> []" "\<forall>c\<in>set cs. is_commodity_symbol c"
  shows "currencies_of [join '','' cs] = cs"
proof -
  have "split_on CHR '','' (join '','' cs) = cs"
    using assms symbol_no_comma by (intro split_on_join) auto
  moreover have "map js_trim cs = cs" using assms(2) by (induction cs) (simp_all add: tail_simps)
  moreover have "filter (\<lambda>c. c \<noteq> []) cs = cs" using assms(2) token_nonempty symbol_token(2) by (induction cs) auto
  ultimately show ?thesis by (simp add: currencies_of_def)
qed

lemma booking_tokens [simp]: "token (booking_text b)" "is_booking_token (booking_text b)"
  by (cases b; simp add: token_def js_space_def is_booking_token_def bookings_def)+

lemma open_parts:
  assumes "split_first tail = (account, rest)" and "words_of rest = ps @ qs"
    and "currencies_of ps = cs" "\<forall>c\<in>set cs. is_commodity_symbol c" "\<forall>p\<in>set ps. \<not> is_booking_token p"
    and "qs = (case b of None \<Rightarrow> [] | Some b \<Rightarrow> [booking_text b])"
  shows "parse_open tail = Inr (OpenE account cs b)"
proof -
  have none: "find is_booking_token ps = None" using assms(5) by (simp add: find_None_iff)
  then have token: "find is_booking_token (ps @ qs) = (case b of None \<Rightarrow> None | Some b \<Rightarrow> Some (booking_text b))"
    using assms(6) by (induction ps) (auto split: option.splits)
  have "booking_text x \<notin> set ps" for x using assms(5) booking_tokens(2) by blast
  then have "filter (\<lambda>p. Some p \<noteq> find is_booking_token (ps @ qs)) (ps @ qs) = ps"
    using assms(6) unfolding token by (auto split: option.splits intro!: filter_True)
  moreover have "first_some (map (\<lambda>c (_::unit). assert_symbol c) cs) () = None"
    using assms(4) by (simp add: first_some_None assert_symbol_def)
  moreover have "parse_booking (find is_booking_token (ps @ qs)) = Inr b"
    unfolding token by (cases b) (simp_all add: parse_booking_text, simp add: parse_booking_def)
  ultimately show ?thesis
    using assms(1-3) by (simp add: parse_open_def Let_def currencies_of_def)
qed

lemma read_open:
  assumes "directive_ok (OpenE account cs b)"
  shows "parse_dated ''open'' (account @ (if cs = [] then [] else '' '' @ join '','' cs) @
    (case b of None \<Rightarrow> [] | Some b \<Rightarrow> '' '' @ booking_text b)) = Inr (OpenE account cs b)"
proof -
  have a: "token account" and cs: "\<forall>c\<in>set cs. is_commodity_symbol c" and nb: "\<not> is_booking_token (join '','' cs)"
    using assms by simp_all
  let ?bt = "case b of None \<Rightarrow> [] | Some b \<Rightarrow> [booking_text b]"
  let ?ps = "if cs = [] then [] else [join '','' cs]"
  have jt: "cs \<noteq> [] \<Longrightarrow> token (join '','' cs)" using join_symbols_token cs by blast
  have "\<forall>w\<in>set (?ps @ ?bt). token w" using jt by (auto split: option.splits)
  then have w: "words_of (join '' '' (?ps @ ?bt)) = ?ps @ ?bt"
    by (intro words_of_join) (auto simp: token_def list_all_iff)
  have split: "split_first (account @ concat (map (\<lambda>w. CHR '' '' # w) (?ps @ ?bt))) = (account, join '' '' (?ps @ ?bt))"
  proof (cases "?ps @ ?bt = []")
    case True
    with a show ?thesis by (simp add: line_simps)
  next
    case False
    with spaced_join [OF False] False a join_tidy [OF False \<open>\<forall>w\<in>set (?ps @ ?bt). token w\<close>] show ?thesis
      by (simp add: line_simps)
  qed
  have "parse_open (account @ concat (map (\<lambda>w. CHR '' '' # w) (?ps @ ?bt))) = Inr (OpenE account cs b)"
    using cs nb currencies_of_join [of cs]
    by (intro open_parts [OF split w]) (auto simp: currencies_of_def)
  then show ?thesis by (cases b) (auto simp: parse_dated_def)
qed

lemma read_back:
  assumes "is_iso_date date" and "token directive" and "tail \<noteq> []" "tidy tail" "cut_comment False tail = tail"
    and "parse_dated directive tail = Inr e"
  shows "parse_top_level_line source (date @ CHR '' '' # directive @ CHR '' '' # tail) =
    Inr (Dated \<lparr>eh_date = date, eh_meta = [], eh_source = Some source\<rparr> e)"
  using parse_directive [OF assms(1-5)] assms(6) by simp

lemma trim_end_space: "x \<noteq> [] \<Longrightarrow> \<not> js_space (last x) \<Longrightarrow> str_trim_end (x @ '' '') = x"
  using str_trim_end_tidy [of x] by (simp add: str_trim_end_def)

lemma custom_line:
  assumes "\<forall>v\<in>set vals. token v"
  shows "str_trim_end (date @ '' custom '' @ quoted t @ '' '' @ join '' '' vals) =
    date @ CHR '' '' # ''custom'' @ CHR '' '' #
      (if vals = [] then quoted t else quoted t @ CHR '' '' # join '' '' vals)"
proof (cases "vals = []")
  case True
  have "str_trim_end ((date @ '' custom '' @ quoted t) @ '' '') = date @ '' custom '' @ quoted t"
    by (rule trim_end_space) (simp_all add: quoted_shape js_space_def)
  with True show ?thesis by simp
next
  case False
  then have "join '' '' vals \<noteq> [] \<and> tidy (join '' '' vals)" using assms by (rule join_tidy)
  then have "\<not> js_space (last (date @ '' custom '' @ quoted t @ '' '' @ join '' '' vals))"
    by (auto simp: tidy_def)
  then have "str_trim_end (date @ '' custom '' @ quoted t @ '' '' @ join '' '' vals) =
      date @ '' custom '' @ quoted t @ '' '' @ join '' '' vals"
    by (intro str_trim_end_tidy) simp
  with False show ?thesis by simp
qed

lemma cut_join: "\<forall>v\<in>set vs. token v \<Longrightarrow> cut_comment False (join '' '' vs) = join '' '' vs"
proof (induction vs)
  case (Cons v vs)
  then show ?case by (cases "vs = []") (simp_all add: join_Cons line_simps)
qed simp

lemma symbol_texts: "written_amount a \<Longrightarrow> token (am_currency a)" "written_amount a \<Longrightarrow> token (dv_decimal (am_number a))"
  by (simp_all add: tail_simps)

lemma open_tail:
  assumes "directive_ok (OpenE account cs b)"
  defines "tail \<equiv> account @ (if cs = [] then [] else '' '' @ join '','' cs) @
    (case b of None \<Rightarrow> [] | Some b \<Rightarrow> '' '' @ booking_text b)"
  shows "tail \<noteq> []" "tidy tail" "cut_comment False tail = tail"
proof -
  have a: "token account" and j: "cs \<noteq> [] \<Longrightarrow> token (join '','' cs)"
    using assms(1) join_symbols_token by auto
  show "tail \<noteq> []" using token_nonempty [OF a] by (simp add: tail_def)
  show "tidy tail" using a j token_hd_last by (auto simp: tail_def tidy_def split: option.split)
  show "cut_comment False tail = tail"
    using a j by (auto simp: tail_def line_simps simp del: cut_comment.simps(2) split: option.split)
qed

text \<open>Every directive but a transaction is one line, and the line reads back as the directive.\<close>

lemma directive_roundtrip:
  assumes d: "is_iso_date (eh_date h)" and e: "directive_ok e"
  shows "\<exists>line. format_dated h e = [line] \<and>
    parse_top_level_line source line =
      Inr (Dated \<lparr>eh_date = eh_date h, eh_meta = [], eh_source = Some source\<rparr> e)"
proof (cases e)
  case (OpenE account cs b)
  note ok = e [unfolded OpenE]
  show ?thesis
    using read_back [OF d directive_words(1) open_tail [OF ok] read_open [OF ok]] OpenE by simp
next
  case (CloseE account)
  then show ?thesis using e read_back [OF d directive_words(2) _ _ _ read_close] by (simp add: line_simps tail_simps)
next
  case (CommodityE c)
  then show ?thesis using e read_back [OF d directive_words(3) _ _ _ read_commodity] by (simp add: line_simps tail_simps)
next
  case (PadE a b)
  then show ?thesis using e read_back [OF d directive_words(4) _ _ _ read_pad] by (simp add: line_simps tail_simps)
next
  case (BalanceE account a tol)
  show ?thesis
  proof (cases tol)
    case None
    with BalanceE e show ?thesis
      using read_back [OF d directive_words(5) _ _ _ read_balance(1)]
      by (simp add: format_balance_def amount_text_simps line_simps tail_simps)
  next
    case (Some t)
    let ?tail = "account @ CHR '' '' # dv_decimal (am_number a) @ CHR '' '' # ''~'' @ CHR '' '' #
        dv_decimal (am_number t) @ CHR '' '' # am_currency a"
    have ok: "name_ok account" "written_amount a" "written_amount t" "am_currency t = am_currency a"
      using Some BalanceE e by simp_all
    then have t: "token account" "token (am_currency a)" by (simp_all add: tail_simps)
    then have "?tail \<noteq> []" "tidy ?tail"
      using token_hd_last [OF t(1)] token_hd_last [OF t(2)] by (auto simp: tidy_def)
    moreover have "token ''~''" by (simp add: token_def js_space_def)
    then have "cut_comment False ?tail = ?tail"
      using ok t symbol_texts by (simp only: line_simps)
    ultimately show ?thesis
      using read_back [OF d directive_words(5) _ _ _ read_balance(2) [OF ok]] Some BalanceE
      by (simp add: format_balance_def)
  qed
next
  case (TransactionE t)
  with e show ?thesis by simp
next
  case (NoteE account comment tags links)
  then show ?thesis using e read_back [OF d directive_words(6) _ _ _ read_note] by (simp add: line_simps tail_simps)
next
  case (EventE a b)
  then show ?thesis using e read_back [OF d directive_words(7) _ _ _ read_event] by (simp add: line_simps tail_simps)
next
  case (QueryE a b)
  then show ?thesis using e read_back [OF d directive_words(8) _ _ _ read_query] by (simp add: line_simps tail_simps)
next
  case (PriceE c a)
  then show ?thesis using e read_back [OF d directive_words(9) _ _ _ read_price]
    by (simp add: amount_text_simps line_simps tail_simps)
next
  case (DocumentE account filename tags links)
  then show ?thesis using e read_back [OF d directive_words(10) _ _ _ read_document] by (simp add: line_simps tail_simps)
next
  case (CustomE t vals)
  then have v: "\<forall>v\<in>set vals. token v" and t: "list_all not_space t" using e by simp_all
  let ?tail = "if vals = [] then quoted t else quoted t @ CHR '' '' # join '' '' vals"
  have "?tail \<noteq> []" "tidy ?tail" "cut_comment False ?tail = ?tail"
    using join_tidy [of vals] v cut_join [OF v] by (auto simp: line_simps tail_simps)
  from read_back [OF d directive_words(11) this read_custom [OF t v]] CustomE show ?thesis
    using custom_line [OF v, of "eh_date h" t] by simp
qed

section \<open>Configuration lines\<close>

fun config_ok :: "config_entry \<Rightarrow> bool" where
  "config_ok (OptionE name v) \<longleftrightarrow> True"
| "config_ok (IncludeE path) \<longleftrightarrow> path \<noteq> []"
| "config_ok (PluginE m config) \<longleftrightarrow> m \<noteq> [] \<and> config \<noteq> Some []"
| "config_ok (PushTagE tag) \<longleftrightarrow> token tag"
| "config_ok (PopTagE tag) \<longleftrightarrow> token tag"
| "config_ok (PushMetaE key v) \<longleftrightarrow> token key \<and> v \<noteq> None"
| "config_ok (PopMetaE key) \<longleftrightarrow> token key"

lemma config_tidy:
  "u \<noteq> [] \<Longrightarrow> \<not> js_space (hd u) \<Longrightarrow> v \<noteq> [] \<Longrightarrow> \<not> js_space (last v) \<Longrightarrow> js_trim (u @ v) = u @ v"
  by (intro js_trim_tidy) (simp add: tidy_def)

lemma config_line_parse:
  assumes "u \<noteq> []" "\<not> js_space (hd u)" "list_all (\<lambda>c. c \<noteq> quote \<and> c \<noteq> CHR '';'') u"
    and "v \<noteq> []" "\<not> js_space (last v)" "cut_comment False v = v" "parse_config_line (u @ v) = Inr (Some c)"
  shows "parse_top_level_line source (u @ v) = Inr (Config [] (Some source) c)"
  using assms cut_comment_plain [of u v] config_tidy [of u v]
  by (simp add: parse_top_level_line_def strip_comment_def Let_def)

lemma quoted_last: "\<not> js_space (last (quoted s))" "\<not> js_space (last (x @ quoted s))"
  by (simp_all add: quoted_shape js_space_def)

lemma config_roundtrip:
  assumes "config_ok c"
  shows "parse_top_level_line source (format_config c) = Inr (Config [] (Some source) c)"
proof (cases c)
  case (OptionE name v)
  have "parse_config_line (''option '' @ quoted name @ CHR '' '' # quoted v) = Inr (Some (OptionE name v))"
    by (simp add: parse_config_line_def drop_prefix_Cons quoted_pair)
  then show ?thesis
    using config_line_parse [of "''option ''" "quoted name @ CHR '' '' # quoted v"] OptionE
    by (simp add: line_simps quoted_shape js_space_def)
next
  case (IncludeE path)
  have "parse_config_line (''include '' @ quoted path) = Inr (Some (IncludeE path))"
    using IncludeE assms by (simp add: parse_config_line_def drop_prefix_Cons line_simps)
  then show ?thesis
    using config_line_parse [of "''include ''" "quoted path"] IncludeE
    by (simp add: line_simps quoted_shape js_space_def)
next
  case (PluginE m config)
  let ?v = "quoted m @ (case or_none config of None \<Rightarrow> [] | Some x \<Rightarrow> CHR '' '' # quoted x)"
  have o: "or_none config = config" using PluginE assms by (simp add: or_none_def)
  have "quoted_values ?v = m # (case config of None \<Rightarrow> [] | Some x \<Rightarrow> [x])"
    unfolding o by (cases config) (simp_all add: line_simps quoted_pair)
  then have "parse_config_line (''plugin '' @ ?v) = Inr (Some (PluginE m config))"
    using PluginE assms by (cases config) (simp_all add: parse_config_line_def drop_prefix_Cons)
  moreover have "cut_comment False ?v = ?v" by (cases "or_none config") (simp_all add: line_simps)
  moreover have "?v \<noteq> []" "\<not> js_space (last ?v)"
    by (cases "or_none config"; simp add: quoted_shape js_space_def)+
  ultimately show ?thesis
    using config_line_parse [of "''plugin ''" ?v] PluginE
    by (cases "or_none config") (simp_all add: js_space_def)
next
  case (PushTagE tag)
  have t: "token tag" using PushTagE assms by simp
  have "parse_config_line (''pushtag #'' @ tag) = Inr (Some (PushTagE tag))"
    by (simp add: parse_config_line_def drop_prefix_Cons drop_hash_def)
  then show ?thesis
    using config_line_parse [of "''pushtag #''" tag] PushTagE t token_hd_last [OF t]
    by (simp add: line_simps js_space_def)
next
  case (PopTagE tag)
  have t: "token tag" using PopTagE assms by simp
  have "parse_config_line (''poptag #'' @ tag) = Inr (Some (PopTagE tag))"
    by (simp add: parse_config_line_def drop_prefix_Cons drop_hash_def)
  then show ?thesis
    using config_line_parse [of "''poptag #''" tag] PopTagE t token_hd_last [OF t]
    by (simp add: line_simps js_space_def)
next
  case (PushMetaE key v)
  then obtain x where x: "v = Some x" and k: "token key" using assms by auto
  then have kc: "token (key @ '':'')" by (auto simp: token_def js_space_def)
  have "split_first ((key @ '':'') @ CHR '' '' # quoted x) = (key @ '':'', quoted x)"
    using kc by (intro split_first_token(2)) (simp_all add: quoted_shape)
  then have "parse_config_line (''pushmeta '' @ key @ '': '' @ quoted x) = Inr (Some (PushMetaE key (Some x)))"
    by (simp add: parse_config_line_def drop_prefix_Cons drop_colon_def ends_with_def tail_simps)
  moreover have "cut_comment False (key @ '': '' @ quoted x) = key @ '': '' @ quoted x"
    using k by (simp add: line_simps)
  ultimately have "parse_top_level_line source (''pushmeta '' @ key @ '': '' @ quoted x) =
      Inr (Config [] (Some source) (PushMetaE key (Some x)))"
    using config_line_parse [of "''pushmeta ''" "key @ '': '' @ quoted x"]
    by (simp add: quoted_shape js_space_def)
  moreover have "str_trim_end (''pushmeta '' @ key @ '': '' @ quoted x) = ''pushmeta '' @ key @ '': '' @ quoted x"
    by (rule str_trim_end_tidy) (simp add: quoted_shape js_space_def)
  ultimately show ?thesis using PushMetaE x by simp
next
  case (PopMetaE key)
  have k: "token key" using PopMetaE assms by simp
  then have kc: "token (key @ '':'')" by (auto simp: token_def js_space_def)
  have "parse_config_line (''popmeta '' @ key @ '':'') = Inr (Some (PopMetaE key))"
    by (simp add: parse_config_line_def drop_prefix_Cons drop_colon_def ends_with_def)
  then show ?thesis
    using config_line_parse [of "''popmeta ''" "key @ '':''"] PopMetaE kc
    by (simp add: line_simps js_space_def)
qed

end
