(* ===== verification/LedgerTransactions.thy ===== *)
theory LedgerTransactions
  imports LedgerRoundtrip
begin

text \<open>
  Transactions read back: the header with its texts, tags and links, metadata lines, and postings with
  units, cost and price.
\<close>

section \<open>Headers\<close>

definition texts_of :: "transaction \<Rightarrow> string list" where
  "texts_of t = (case tx_payee t of None \<Rightarrow> [] | Some p \<Rightarrow> [p]) @ (case tx_narration t of None \<Rightarrow> [] | Some n \<Rightarrow> [n])"

definition unmarked :: "string \<Rightarrow> bool" where
  "unmarked s \<longleftrightarrow> marked_words CHR ''#'' False s = [] \<and> marked_words CHR ''^'' False s = []"

definition tag_ok :: "string \<Rightarrow> bool" where
  "tag_ok w \<longleftrightarrow> w \<noteq> [] \<and> list_all is_word w"

text \<open>
  A payee only together with a narration, no empty texts, no text with a word that looks like a tag
  or a link.
\<close>

definition header_ok :: "transaction \<Rightarrow> bool" where
  "header_ok t \<longleftrightarrow>
     length (tx_flag t) = 1 \<and> token (tx_flag t) \<and>
     tx_payee t \<noteq> Some [] \<and> tx_narration t \<noteq> Some [] \<and> (tx_payee t \<noteq> None \<longrightarrow> tx_narration t \<noteq> None) \<and>
     (\<forall>s\<in>set (texts_of t). unmarked s) \<and>
     distinct (tx_tags t) \<and> (\<forall>w\<in>set (tx_tags t). tag_ok w) \<and>
     distinct (tx_links t) \<and> (\<forall>w\<in>set (tx_links t). tag_ok w)"

definition spaced :: "string list \<Rightarrow> string" where
  "spaced ws = concat (map (\<lambda>w. CHR '' '' # w) ws)"

lemma spaced_simps [simp]:
  "spaced [] = []" "spaced (w # ws) = CHR '' '' # w @ spaced ws" "spaced (ws @ vs) = spaced ws @ spaced vs"
  by (simp_all add: spaced_def)

lemma spaced_start: "spaced ws = [] \<or> hd (spaced ws) = CHR '' ''"
  by (cases ws) simp_all

definition header_parts :: "string list \<Rightarrow> string list \<Rightarrow> string list \<Rightarrow> string list" where
  "header_parts texts tags links =
     map quoted texts @ map (\<lambda>w. CHR ''#'' # w) tags @ map (\<lambda>w. CHR ''^'' # w) links"

lemma word_plain: "is_word c \<Longrightarrow> \<not> js_space c \<and> c \<noteq> quote \<and> c \<noteq> CHR '';''"
  by (auto simp: is_word_def is_lower_def is_upper_def is_digit_def js_space_def)

lemma tag_token: "tag_ok w \<Longrightarrow> token (CHR ''#'' # w) \<and> token (CHR ''^'' # w)"
  using word_plain by (auto simp: tag_ok_def token_def list_all_iff js_space_def)

lemma cut_quoted_parts: "cut_comment False (spaced (map quoted ss) @ r) = spaced (map quoted ss) @ cut_comment False r"
  by (induction ss) (simp_all add: line_simps)

lemma cut_tokens: "\<forall>w\<in>set ws. token w \<Longrightarrow> cut_comment False (spaced ws @ r) = spaced ws @ cut_comment False r"
  by (induction ws) (simp_all add: line_simps)

lemma values_quoted_parts: "quoted_values (spaced (map quoted ss) @ r) = ss @ quoted_values r"
proof (induction ss)
  case (Cons s ss)
  then show ?case by (simp add: quoted_values_quoted)
qed simp

lemma values_tokens: "\<forall>w\<in>set ws. token w \<Longrightarrow> quoted_values (spaced ws) = []"
proof (induction ws)
  case (Cons w ws)
  have "list_all (\<lambda>c. c \<noteq> quote) w" using Cons.prems by (auto simp: token_def list_all_iff)
  from quoted_values_plain [OF this] Cons show ?case by simp
qed simp

lemma marked_texts:
  assumes "mark = CHR ''#'' \<or> mark = CHR ''^''"
  shows "\<forall>s\<in>set ss. unmarked s \<Longrightarrow>
    marked_words mark False (spaced (map quoted ss) @ r) = marked_words mark False r"
proof (induction ss)
  case (Cons s ss)
  have m: "mark \<noteq> quote" "mark \<noteq> backslash" "\<not> js_space mark" "mark \<noteq> CHR '' ''"
    using assms by (auto simp: js_space_def)
  have "marked_words mark False s = []" using Cons.prems assms by (auto simp: unmarked_def)
  from marked_words_quoted [OF m(1-3) this] m Cons show ?case by simp
qed simp

lemma marked_own:
  "\<not> js_space mark \<Longrightarrow> \<forall>w\<in>set ws. tag_ok w \<Longrightarrow> r = [] \<or> hd r = CHR '' '' \<Longrightarrow>
   marked_words mark False (spaced (map (\<lambda>w. mark # w) ws) @ r) = ws @ marked_words mark False r"
proof (induction ws)
  case (Cons w ws)
  let ?r = "spaced (map (\<lambda>w. mark # w) ws) @ r"
  have "?r = [] \<or> hd ?r = CHR '' ''" using Cons.prems(3) spaced_start [of "map (\<lambda>w. mark # w) ws"] by (auto simp: hd_append)
  moreover have "w \<noteq> []" "list_all is_word w" using Cons.prems(2) by (simp_all add: tag_ok_def)
  ultimately have "marked_words mark True (mark # w @ ?r) = w # marked_words mark False ?r"
    by (intro marked_words_hit)
  moreover have "mark \<noteq> CHR '' ''" using Cons.prems(1) by auto
  ultimately show ?case using Cons by simp
qed simp

lemma marked_other:
  "\<not> js_space mark \<Longrightarrow> \<not> js_space m \<Longrightarrow> m \<noteq> mark \<Longrightarrow> \<forall>w\<in>set ws. tag_ok w \<Longrightarrow>
   marked_words mark False (spaced (map (\<lambda>w. m # w) ws) @ r) = marked_words mark False r"
proof (induction ws)
  case (Cons w ws)
  have "mark \<noteq> CHR '' ''" using Cons.prems(1) by auto
  moreover have "list_all is_word w" using Cons.prems(4) by (simp add: tag_ok_def)
  ultimately show ?case using Cons marked_words_miss [of m mark w] by (simp del: marked_words.simps(2) add: marked_words.simps(2) [of mark False "CHR '' ''"])
qed simp

lemma header_parts_read:
  assumes "\<forall>s\<in>set texts. unmarked s" "\<forall>w\<in>set tags. tag_ok w" "\<forall>w\<in>set links. tag_ok w"
  defines "parts \<equiv> header_parts texts tags links"
  shows "cut_comment False (spaced parts) = spaced parts" "quoted_values (spaced parts) = texts"
    "marked_words CHR ''#'' False (spaced parts) = tags" "marked_words CHR ''^'' False (spaced parts) = links"
proof -
  have sp: "\<not> js_space CHR ''#''" "\<not> js_space CHR ''^''" by (simp_all add: js_space_def)
  have tk: "\<forall>w\<in>set (map (\<lambda>w. CHR ''#'' # w) tags @ map (\<lambda>w. CHR ''^'' # w) links). token w"
    using assms(2,3) tag_token by auto
  have p: "spaced parts = spaced (map quoted texts) @ spaced (map (\<lambda>w. CHR ''#'' # w) tags @ map (\<lambda>w. CHR ''^'' # w) links)"
    by (simp add: parts_def header_parts_def)
  show "cut_comment False (spaced parts) = spaced parts"
    unfolding p using cut_tokens [OF tk, of "[]"] by (simp add: cut_quoted_parts del: spaced_simps(3))
  show "quoted_values (spaced parts) = texts"
    unfolding p using values_tokens [OF tk] by (simp add: values_quoted_parts del: spaced_simps(3))
  have "marked_words CHR ''#'' False (spaced (map (\<lambda>w. CHR ''#'' # w) tags) @ spaced (map (\<lambda>w. CHR ''^'' # w) links)) = tags"
    using marked_own [OF sp(1) assms(2) spaced_start] marked_other [OF sp(1) sp(2) _ assms(3), of "[]"] by simp
  then show "marked_words CHR ''#'' False (spaced parts) = tags"
    unfolding p using marked_texts [of "CHR ''#''", OF _ assms(1)] by simp
  have "marked_words CHR ''^'' False (spaced (map (\<lambda>w. CHR ''#'' # w) tags) @ spaced (map (\<lambda>w. CHR ''^'' # w) links)) = links"
    using marked_other [OF sp(2) sp(1) _ assms(2)] marked_own [OF sp(2) assms(3), of "[]"] by simp
  then show "marked_words CHR ''^'' False (spaced parts) = links"
    unfolding p using marked_texts [of "CHR ''^''", OF _ assms(1)] by simp
qed

lemma set_of_list_distinct: "distinct xs \<Longrightarrow> set_of_list xs = xs"
  by (simp add: set_of_list_def distinct_remdups_id)

lemma sort_strings_props [simp]:
  "set (sort_strings xs) = set xs" "distinct (sort_strings xs) = distinct xs"
  by (simp_all add: sort_strings_def)

text \<open>The transaction its header line stands for.\<close>

definition header_of :: "transaction \<Rightarrow> transaction" where
  "header_of t =
     t\<lparr>tx_tags := sort_strings (tx_tags t), tx_links := sort_strings (tx_links t), tx_postings := []\<rparr>"

lemma transaction_header_parts:
  assumes "header_ok t"
  defines "parts \<equiv> header_parts (texts_of t) (sort_strings (tx_tags t)) (sort_strings (tx_links t))"
  shows "transaction_header date t =
    date @ CHR '' '' # (if parts = [] then tx_flag t else tx_flag t @ CHR '' '' # join '' '' parts)"
proof -
  have none: "or_none (tx_payee t) = tx_payee t" "or_none (tx_narration t) = tx_narration t"
    using assms(1) by (auto simp: header_ok_def or_none_def)
  have "transaction_header date t = join '' '' ((date @ '' '' @ tx_flag t) # parts)"
    unfolding transaction_header_def none parts_def header_parts_def texts_of_def
    by (cases "tx_payee t"; cases "tx_narration t") simp_all
  then show ?thesis by (simp add: join_Cons)
qed

lemma read_transaction:
  assumes ok: "header_ok t"
  defines "parts \<equiv> header_parts (texts_of t) (sort_strings (tx_tags t)) (sort_strings (tx_links t))"
  assumes tail: "quoted_values tail = texts_of t"
    "marked_words CHR ''#'' True tail = sort_strings (tx_tags t)"
    "marked_words CHR ''^'' True tail = sort_strings (tx_links t)"
  shows "parse_dated (tx_flag t) tail = Inr (TransactionE (header_of t))"
proof -
  obtain c where c: "tx_flag t = [c]" using ok by (auto simp: header_ok_def length_Suc_conv)
  have p: "(case texts_of t of [] \<Rightarrow> (None, None) | [n] \<Rightarrow> (None, Some n) | p # n # _ \<Rightarrow> (Some p, Some n)) =
      (tx_payee t, tx_narration t)"
    using ok unfolding header_ok_def texts_of_def
    by (cases "tx_payee t"; cases "tx_narration t") simp_all
  have "parse_transaction (tx_flag t) tail = header_of t"
    using ok c p unfolding parse_transaction_def tail Let_def
    by (simp add: header_of_def set_of_list_distinct header_ok_def)
  then show ?thesis using c by (simp add: parse_dated_def)
qed

lemma transaction_header_roundtrip:
  assumes d: "is_iso_date date" and ok: "header_ok t"
  shows "parse_top_level_line source (transaction_header date t) =
    Inr (Dated \<lparr>eh_date = date, eh_meta = [], eh_source = Some source\<rparr> (TransactionE (header_of t)))"
proof -
  let ?parts = "header_parts (texts_of t) (sort_strings (tx_tags t)) (sort_strings (tx_links t))"
  have f: "token (tx_flag t)" using ok by (simp add: header_ok_def)
  have words: "\<forall>s\<in>set (texts_of t). unmarked s" "\<forall>w\<in>set (sort_strings (tx_tags t)). tag_ok w"
    "\<forall>w\<in>set (sort_strings (tx_links t)). tag_ok w"
    using ok by (simp_all add: header_ok_def)
  note parts = header_parts_read [OF words]
  show ?thesis
  proof (cases "?parts = []")
    case True
    then have "parse_dated (tx_flag t) [] = Inr (TransactionE (header_of t))"
      using parts by (intro read_transaction [OF ok]) simp_all
    with True show ?thesis
      unfolding transaction_header_parts [OF ok]
      using f by (simp add: parse_date_line [OF d] line_simps tail_simps)
  next
    case False
    let ?tail = "join '' '' ?parts"
    have sp: "spaced ?parts = CHR '' '' # ?tail" unfolding spaced_def by (rule spaced_join [OF False])
    have "\<forall>v\<in>set ?parts. v \<noteq> [] \<and> tidy v"
      using words tag_token by (auto simp: header_parts_def quoted_nonempty)
    from join_tidy_parts [OF False this] have t: "?tail \<noteq> []" "tidy ?tail" by auto
    have "cut_comment False ?tail = ?tail" "quoted_values ?tail = texts_of t"
      "marked_words CHR ''#'' True ?tail = sort_strings (tx_tags t)"
      "marked_words CHR ''^'' True ?tail = sort_strings (tx_links t)"
      using parts unfolding sp by simp_all
    with t have "parse_dated (tx_flag t) ?tail = Inr (TransactionE (header_of t))"
      by (intro read_transaction [OF ok])
    with False show ?thesis
      unfolding transaction_header_parts [OF ok]
      using read_back [OF d f t \<open>cut_comment False ?tail = ?tail\<close>] by simp
  qed
qed

section \<open>Metadata\<close>

definition one_line :: "string \<Rightarrow> bool" where
  "one_line s \<longleftrightarrow> list_all (\<lambda>c. c \<noteq> CHR 0x0A \<and> c \<noteq> CHR 0x0D) s"

definition meta_ok :: "string \<times> meta_value \<Rightarrow> bool" where
  "meta_ok kv \<longleftrightarrow>
     fst kv \<noteq> [] \<and> is_lower (hd (fst kv)) \<and> list_all is_word (fst kv) \<and>
     (case snd kv of MNumber n \<Rightarrow> False | MText s \<Rightarrow> one_line s | _ \<Rightarrow> True)"

lemma one_line_escape: "one_line s \<Longrightarrow> one_line (quoted s)"
  by (induction s) (auto simp: one_line_def quoted_def)

lemma meta_value_roundtrip:
  assumes "meta_ok (k, v)"
  defines "x \<equiv> format_metadata_value v"
  shows "parse_metadata_value x = v" "tidy x" "one_line x" "cut_comment False x = x"
proof -
  have tok: "token ''TRUE''" "token ''FALSE''" by (simp_all add: token_def js_space_def)
  note x = x_def
  show "parse_metadata_value x = v"
    using assms(1) by (cases v) (auto simp: x meta_ok_def parse_metadata_value_def quoted_shape)
  show "tidy x" using assms(1) tok by (cases v) (auto simp: x meta_ok_def tidy_def [of "[]"])
  show "one_line x" using assms(1) one_line_escape by (cases v) (auto simp: x meta_ok_def one_line_def)
  show "cut_comment False x = x"
    using assms(1) tok by (cases v) (auto simp: x meta_ok_def line_simps simp del: cut_comment.simps(2))
qed

lemma cut_spaces: "cut_comment False (replicate n CHR '' '' @ r) = replicate n CHR '' '' @ cut_comment False r"
  by (induction n) simp_all

lemma metadata_roundtrip:
  assumes ok: "meta_ok (k, v)" and n: "0 < n"
  shows "metadata_line (strip_comment (replicate n CHR '' '' @ k @ '': '' @ format_metadata_value v)) =
    Some (k, format_metadata_value v)"
proof -
  let ?x = "format_metadata_value v" and ?l = "replicate n CHR '' '' @ k @ '': '' @ format_metadata_value v"
  note x = meta_value_roundtrip [OF ok]
  have k: "k \<noteq> []" "is_lower (hd k)" "list_all is_word k" using ok by (simp_all add: meta_ok_def)
  have "list_all (\<lambda>c. c \<noteq> quote \<and> c \<noteq> CHR '';'') (k @ '': '')"
    using k(3) word_plain by (auto simp: list_all_iff)
  from cut_comment_plain [OF this, of ?x] x(4) have strip: "strip_comment ?l = ?l"
    by (simp add: strip_comment_def cut_spaces)
  have "\<not> js_space (hd k)" using k word_plain by (cases k) auto
  then have "dropWhile js_space (replicate m CHR '' '' @ k @ CHR '':'' # CHR '' '' # ?x) = k @ CHR '':'' # CHR '' '' # ?x" for m
    using k(1) by (induction m) (simp_all add: dropWhile_head)
  then have body: "dropWhile js_space ?l = k @ CHR '':'' # CHR '' '' # ?x" by simp
  have "\<not> is_word CHR '':''" by (simp add: is_word_def is_lower_def is_upper_def is_digit_def)
  then have span: "takeWhile is_word (k @ CHR '':'' # CHR '' '' # ?x) = k"
    "dropWhile is_word (k @ CHR '':'' # CHR '' '' # ?x) = CHR '':'' # CHR '' '' # ?x"
    using takeWhile_word [OF k(3), of "CHR '':'' # CHR '' '' # ?x"] by auto
  have raw: "dropWhile js_space ?x = ?x" using x(2) by (auto simp: tidy_def dropWhile_head)
  have "is_indented ?l" using n by (cases n) (simp_all add: is_indented_def)
  then show ?thesis
    unfolding strip metadata_line_def Let_def body span
    using k x(2,3) raw by (simp add: js_trim_tidy one_line_def)
qed

end
