(* ===== verification/LedgerPostings.thy ===== *)
theory LedgerPostings
  imports LedgerTransactions
begin

text \<open>Posting lines read back: account, flag, units, a cost per unit and a price.\<close>

section \<open>Words around a cost\<close>

lemma words_of_split: "words_of (u @ CHR '' '' # v) = words_of u @ words_of v"
proof (induction u rule: words_of.induct)
  case (2 c s)
  show ?case
  proof (cases s)
    case Nil
    then show ?thesis by simp
  next
    case (Cons d t)
    have "words_of s \<noteq> []" if "\<not> js_space d" using that Cons by (auto split: list.splits if_splits)
    then show ?thesis using 2 Cons by (auto split: list.splits)
  qed
qed simp

definition label_ok :: "string \<Rightarrow> bool" where
  "label_ok l \<longleftrightarrow>
     l \<noteq> [] \<and> one_line l \<and> list_all (\<lambda>c. c \<noteq> quote \<and> c \<noteq> backslash \<and> c \<noteq> CHR '','' \<and> c \<noteq> CHR ''}'') l"

definition cost_ok :: "cost \<Rightarrow> bool" where
  "cost_ok c \<longleftrightarrow>
     number_ok (co_number c) \<and> is_commodity_symbol (co_currency c) \<and> date_ok (co_date c) \<and>
     (case co_label c of None \<Rightarrow> True | Some l \<Rightarrow> label_ok l)"

definition cost_pieces :: "cost \<Rightarrow> string list" where
  "cost_pieces c =
     (dv_decimal (co_number c) @ CHR '' '' # co_currency c) #
     (case co_date c of None \<Rightarrow> [] | Some d \<Rightarrow> [d]) @
     (case co_label c of None \<Rightarrow> [] | Some l \<Rightarrow> [quote # l @ [quote]])"

lemma cost_text_pieces: "cost_ok c \<Longrightarrow> cost_text c = join '', '' (cost_pieces c)"
  using iso_date_plain(2)
  by (auto simp: cost_text_def cost_pieces_def cost_ok_def opt_part_def date_ok_def label_ok_def split: option.splits)

text \<open>A piece of a cost: no comma, no closing brace, no white space at its ends.\<close>

definition piece_ok :: "string \<Rightarrow> bool" where
  "piece_ok p \<longleftrightarrow>
     p \<noteq> [] \<and> tidy p \<and> list_all (\<lambda>c. c \<noteq> CHR '','' \<and> c \<noteq> CHR ''}'') p \<and> hd p \<noteq> CHR ''{'' \<and>
     (\<forall>r. cut_comment False (p @ r) = p @ cut_comment False r)"

lemma cut_label:
  "list_all (\<lambda>c. c \<noteq> quote \<and> c \<noteq> backslash) l \<Longrightarrow>
   cut_comment True (l @ quote # r) = l @ quote # cut_comment False r"
  by (induction l) simp_all

lemma plain_piece:
  assumes "p \<noteq> []" "list_all plain p"
  shows "piece_ok p"
proof -
  have t: "token p" using assms by (rule plain_token)
  have "\<forall>c\<in>set p. c \<noteq> CHR '','' \<and> c \<noteq> CHR ''}'' \<and> c \<noteq> CHR ''{''" using assms(2) by (auto simp: list_all_iff plain_def)
  then show ?thesis using t assms(1) by (simp add: piece_ok_def list_all_iff cut_comment_token)
qed

lemma amount_piece:
  assumes "number_ok n" "is_commodity_symbol c"
  shows "piece_ok (dv_decimal n @ CHR '' '' # c)"
proof -
  have p: "piece_ok (dv_decimal n)" "piece_ok c"
    using assms number_token [of n] symbol_token [of c] by (simp_all add: plain_piece token_nonempty)
  then show ?thesis by (auto simp: piece_ok_def tidy_def)
qed

lemma label_piece:
  assumes "label_ok l"
  shows "piece_ok (quote # l @ [quote])"
  unfolding piece_ok_def
proof (intro conjI allI)
  fix r
  have "list_all (\<lambda>c. c \<noteq> quote \<and> c \<noteq> backslash) l" using assms by (auto simp: label_ok_def list_all_iff)
  from cut_label [OF this, of r] show "cut_comment False ((quote # l @ [quote]) @ r) = (quote # l @ [quote]) @ cut_comment False r"
    by simp
qed (use assms in \<open>auto simp: label_ok_def list_all_iff tidy_def js_space_def\<close>)

lemma cost_pieces_ok: "cost_ok c \<Longrightarrow> \<forall>p\<in>set (cost_pieces c). piece_ok p"
  using iso_date_plain plain_piece
  by (auto simp: cost_pieces_def cost_ok_def date_ok_def amount_piece [simplified] label_piece [simplified]
      split: option.splits)


definition pieces_text_ok :: "string \<Rightarrow> bool" where
  "pieces_text_ok s \<longleftrightarrow>
     s \<noteq> [] \<and> tidy s \<and> list_all (\<lambda>c. c \<noteq> CHR ''}'') s \<and> hd s \<noteq> CHR ''{'' \<and>
     (\<forall>r. cut_comment False (s @ r) = s @ cut_comment False r)"

lemma join_pieces_text:
  "ps \<noteq> [] \<Longrightarrow> \<forall>p\<in>set ps. piece_ok p \<Longrightarrow> pieces_text_ok (join '', '' ps)"
proof (induction ps)
  case (Cons p ps)
  have p: "piece_ok p" using Cons.prems by simp
  show ?case
  proof (cases "ps = []")
    case True
    with p show ?thesis by (auto simp: piece_ok_def pieces_text_ok_def list_all_iff)
  next
    case False
    define j where "j = join '', '' ps"
    have j: "j \<noteq> []" "tidy j" "list_all (\<lambda>c. c \<noteq> CHR ''}'') j" "\<And>r. cut_comment False (j @ r) = j @ cut_comment False r"
      using False Cons by (simp_all add: j_def pieces_text_ok_def)
    have q: "p \<noteq> []" "tidy p" "list_all (\<lambda>c. c \<noteq> CHR ''}'') p" "hd p \<noteq> CHR ''{''"
      "\<And>r. cut_comment False (p @ r) = p @ cut_comment False r"
      using p by (simp_all add: piece_ok_def list_all_iff)
    have "pieces_text_ok (p @ '', '' @ j)"
      unfolding pieces_text_ok_def using j q by (simp add: tidy_def)
    with False show ?thesis by (simp add: join_Cons j_def)
  qed
qed simp

lemma trim_space: "js_trim (CHR '' '' # s) = js_trim s"
  by (simp add: js_trim_def)

declare split_on_nonempty [simp]

lemma split_on_space: "map js_trim (split_on CHR '','' (CHR '' '' # s)) = map js_trim (split_on CHR '','' s)"
proof -
  obtain p ps where "split_on CHR '','' s = p # ps" by (cases "split_on CHR '','' s") simp_all
  then show ?thesis by (simp add: trim_space)
qed

lemma split_pieces:
  "ps \<noteq> [] \<Longrightarrow> \<forall>p\<in>set ps. piece_ok p \<Longrightarrow> map js_trim (split_on CHR '','' (join '', '' ps)) = ps"
proof (induction ps)
  case (Cons p ps)
  have p: "CHR '','' \<notin> set p" "js_trim p = p"
    using Cons.prems by (auto simp: piece_ok_def list_all_iff js_trim_tidy)
  show ?case
  proof (cases "ps = []")
    case True
    have "split_on CHR '','' p = [p]" using p(1) by (induction p) auto
    with True p(2) show ?thesis by simp
  next
    case False
    have "split_on CHR '','' (p @ CHR '','' # r) = p # split_on CHR '','' r" for r
      using p(1) by (induction p) auto
    with False Cons p(2) show ?thesis by (simp add: join_Cons split_on_space del: split_on.simps(2))
  qed
qed simp

section \<open>Costs\<close>

lemma symbol_not_decimal: "is_commodity_symbol c \<Longrightarrow> \<not> is_decimal_text c"
proof -
  assume "is_commodity_symbol c"
  then obtain h t where c: "c = h # t" "is_upper h" by (cases c) (auto simp: is_commodity_symbol_def)
  then have "h \<noteq> CHR ''+''" "h \<noteq> CHR ''-''" "h \<noteq> CHR ''.''" "\<not> is_digit h"
    by (auto simp: is_upper_def is_digit_def)
  with c show ?thesis by (simp add: is_decimal_text_def unsigned_text_def)
qed

lemma space_no_date: "\<not> is_iso_date (u @ CHR '' '' # v)"
  using iso_date_token [of "u @ CHR '' '' # v"] by (auto simp: token_def)

lemma quote_no_date: "\<not> is_iso_date (quote # v)"
  using iso_date_token [of "quote # v"] by (auto simp: token_def)

lemma amount_part:
  assumes n: "number_ok n" and c: "is_commodity_symbol c"
  shows "cost_part False (dv_decimal n @ CHR '' '' # c) f = Inr (f\<lparr>cf_per := Some (dv_decimal n), cf_currency := Some c\<rparr>)"
proof -
  have t: "token (dv_decimal n)" "token c" using n c by (simp_all add: tail_simps)
  have "dv_decimal n @ CHR '' '' # c \<noteq> ''*''" using t by (cases "dv_decimal n") (auto simp: token_def)
  moreover have "\<not> starts_with [quote] (dv_decimal n @ CHR '' '' # c)"
    using t by (cases "dv_decimal n") (auto simp: token_def starts_with_def)
  moreover have "words_of (dv_decimal n @ CHR '' '' # c) = [dv_decimal n, c]" using t by (simp add: line_simps)
  moreover have "dv_decimal n \<noteq> ''#''" using number_token(4) [OF n] by (auto simp: is_digit_def)
  moreover have "c \<noteq> ''#''" using symbol_token(3) [OF c] by (auto simp: is_upper_def)
  ultimately show ?thesis
    using number_decimal_text [OF n] symbol_not_decimal [OF c] c space_no_date [of "dv_decimal n" c]
    by (simp add: cost_part_def)
qed

lemma date_part: "is_iso_date d \<Longrightarrow> cost_part False d f = Inr (f\<lparr>cf_date := Some d\<rparr>)"
  by (auto simp: cost_part_def is_iso_date_def)

lemma unescape_plain_text: "list_all (\<lambda>c. c \<noteq> backslash) l \<Longrightarrow> unescape_string l = l"
  by (induction l) (simp_all add: unescape_plain)

lemma label_part: "label_ok l \<Longrightarrow> cost_part False (quote # l @ [quote]) f = Inr (f\<lparr>cf_label := Some l\<rparr>)"
  using quote_no_date [of "l @ [quote]"] unescape_plain_text [of l]
  by (auto simp: cost_part_def starts_with_def unquote_def ends_with_def label_ok_def list_all_iff)

lemma parse_cost_roundtrip:
  assumes "cost_ok c"
  shows "parse_cost (cost_text c) False = Inr (AtCost c)"
proof -
  note ok = assms [unfolded cost_ok_def]
  have ne: "cost_pieces c \<noteq> []" by (simp add: cost_pieces_def)
  note pieces = cost_pieces_ok [OF assms]
  have "map js_trim (split_on CHR '','' (cost_text c)) = cost_pieces c"
    unfolding cost_text_pieces [OF assms] by (rule split_pieces [OF ne pieces])
  moreover have "filter (\<lambda>p. p \<noteq> []) (cost_pieces c) = cost_pieces c"
    using pieces by (intro filter_True) (auto simp: piece_ok_def)
  ultimately have split: "filter (\<lambda>p. p \<noteq> []) (map js_trim (split_on CHR '','' (cost_text c))) = cost_pieces c"
    by simp
  have "cost_parts False (cost_pieces c) f =
      Inr (f\<lparr>cf_per := Some (dv_decimal (co_number c)), cf_currency := Some (co_currency c),
        cf_date := (case co_date c of None \<Rightarrow> cf_date f | d \<Rightarrow> d),
        cf_label := (case co_label c of None \<Rightarrow> cf_label f | l \<Rightarrow> l)\<rparr>)" for f
    using ok unfolding cost_pieces_def
    by (cases "co_date c"; cases "co_label c") (simp_all add: amount_part date_part label_part date_ok_def)
  then show ?thesis
    using ok split unfolding parse_cost_def
    by (cases "co_date c"; cases "co_label c") (simp_all add: cost_of_fields_def make_cost_def parse_number)
qed

section \<open>Posting lines\<close>

definition written_posting :: "posting \<Rightarrow> bool" where
  "written_posting p \<longleftrightarrow>
     name_ok (pt_account p) \<and>
     (case pt_flag p of None \<Rightarrow> True | Some f \<Rightarrow> f \<in> set posting_flags) \<and>
     (case pt_units p of None \<Rightarrow> pt_price p = None | Some u \<Rightarrow> written_amount u) \<and>
     (case pt_cost p of None \<Rightarrow> True | Some (AtCost c) \<Rightarrow> cost_ok c | Some (AtSpec c) \<Rightarrow> False) \<and>
     (case pt_price p of None \<Rightarrow> \<not> pt_price_is_total p | Some a \<Rightarrow> written_amount a)"

definition amount_words :: "amount \<Rightarrow> string list" where
  "amount_words a = [dv_decimal (am_number a), am_currency a]"

text \<open>The words before and after the cost.\<close>

definition front_words :: "posting \<Rightarrow> string list" where
  "front_words p =
     (case pt_flag p of None \<Rightarrow> [] | Some f \<Rightarrow> [f]) @ pt_account p #
     (case pt_units p of None \<Rightarrow> [] | Some u \<Rightarrow> amount_words u)"

definition price_words :: "posting \<Rightarrow> string list" where
  "price_words p =
     (case pt_price p of
        None \<Rightarrow> [] | Some a \<Rightarrow> (if pt_price_is_total p then ''@@'' else ''@'') # amount_words a)"

definition front_text :: "posting \<Rightarrow> string" where
  "front_text p =
     (case pt_flag p of None \<Rightarrow> [] | Some f \<Rightarrow> f @ '' '') @ pt_account p @
     (case pt_units p of None \<Rightarrow> [] | Some u \<Rightarrow> ''  '' @ amount_text u)"

lemma format_posting_texts:
  "written_posting p \<Longrightarrow>
   format_posting p = ''  '' @ front_text p @ format_cost (pt_cost p) @ spaced (price_words p)"
  by (auto simp: format_posting_def front_text_def price_words_def amount_words_def amount_text_simps
      or_none_def written_posting_def posting_flags_def split: option.splits)

lemma flag_token: "f \<in> set posting_flags \<Longrightarrow> token f \<and> list_all (\<lambda>c. c \<noteq> CHR ''{'') f \<and> \<not> is_word (hd f)"
  by (auto simp: posting_flags_def token_def js_space_def is_word_def is_lower_def is_upper_def is_digit_def)

lemma plain_no_brace: "list_all plain s \<Longrightarrow> list_all (\<lambda>c. c \<noteq> CHR ''{'') s"
  by (auto simp: list_all_iff plain_def)

lemma amount_words_ok:
  "written_amount a \<Longrightarrow> \<forall>w\<in>set (amount_words a). token w \<and> list_all (\<lambda>c. c \<noteq> CHR ''{'') w"
  using plain_no_brace by (simp add: amount_words_def tail_simps)

lemma front_words_ok:
  "written_posting p \<Longrightarrow> \<forall>w\<in>set (front_words p). token w \<and> list_all (\<lambda>c. c \<noteq> CHR ''{'') w"
  using flag_token amount_words_ok
  by (auto simp: front_words_def written_posting_def name_ok_def split: option.splits)

lemma at_token: "token ''@''" "token ''@@''"
  by (simp_all add: token_def js_space_def)

lemma price_words_ok:
  "written_posting p \<Longrightarrow> \<forall>w\<in>set (price_words p). token w \<and> list_all (\<lambda>c. c \<noteq> CHR ''{'') w"
  using at_token amount_words_ok by (auto simp: price_words_def written_posting_def split: option.splits)

lemma words_of_spaced: "\<forall>w\<in>set ws. token w \<Longrightarrow> words_of (spaced ws) = ws"
proof (induction ws)
  case (Cons w ws)
  show ?case
  proof (cases ws)
    case Nil
    with Cons.prems show ?thesis by (simp add: line_simps)
  next
    case (Cons v vs)
    with Cons.IH Cons.prems show ?thesis by (simp add: line_simps)
  qed
qed simp

lemma front_text_words: "written_posting p \<Longrightarrow> words_of (front_text p) = front_words p"
  using flag_token
  by (auto simp: front_text_def front_words_def written_posting_def amount_words_def amount_text_simps
      line_simps tail_simps split: option.splits)

lemma front_text_ok:
  assumes "written_posting p"
  shows "front_text p \<noteq> []" "tidy (front_text p)" "list_all (\<lambda>c. c \<noteq> CHR ''{'') (front_text p)"
    "cut_comment False (front_text p @ r) = front_text p @ cut_comment False r"
proof -
  have w: "\<forall>w\<in>set (front_words p). token w \<and> list_all (\<lambda>c. c \<noteq> CHR ''{'') w" using front_words_ok [OF assms] .
  have a: "token (pt_account p)" using w by (simp add: front_words_def)
  show "front_text p \<noteq> []" using token_nonempty [OF a] by (simp add: front_text_def)
  have u: "token (am_currency u)" "token (dv_decimal (am_number u))" if "pt_units p = Some u" for u
    using w that by (simp_all add: front_words_def amount_words_def)
  have f: "token f" if "pt_flag p = Some f" for f using w that by (simp add: front_words_def)
  show "tidy (front_text p)"
    using token_hd_last [OF a] token_hd_last [OF u(1)] token_hd_last [OF f]
    by (auto simp: front_text_def tidy_def amount_text_simps split: option.split)
  show "list_all (\<lambda>c. c \<noteq> CHR ''{'') (front_text p)"
    using w by (auto simp: front_text_def front_words_def amount_words_def amount_text_simps split: option.split)
  show "cut_comment False (front_text p @ r) = front_text p @ cut_comment False r"
    using a u f by (auto simp: front_text_def amount_text_simps line_simps simp del: cut_comment.simps(2) split: option.split)
qed

lemma no_brace_match: "list_all (\<lambda>c. c \<noteq> CHR ''{'') s \<Longrightarrow> cost_match s = None"
proof -
  assume "list_all (\<lambda>c. c \<noteq> CHR ''{'') s"
  then have "dropWhile (\<lambda>c. c \<noteq> CHR ''{'') s = []" by (simp add: list_all_iff)
  note none = this
  show ?thesis unfolding cost_match_def none by (simp add: starts_with_def Let_def)
qed

lemma brace_match:
  assumes "list_all (\<lambda>c. c \<noteq> CHR ''{'') u" and "pieces_text_ok ct" and "v = [] \<or> hd v = CHR '' ''"
  shows "cost_match (u @ CHR ''{'' # ct @ CHR ''}'' # v) = Some (u, False, ct, v)"
proof -
  let ?s = "u @ CHR ''{'' # ct @ CHR ''}'' # v"
  have c: "ct \<noteq> []" "hd ct \<noteq> CHR ''{''" "list_all (\<lambda>c. c \<noteq> CHR ''}'') ct"
    using assms(2) by (simp_all add: pieces_text_ok_def)
  have "takeWhile (\<lambda>c. c \<noteq> CHR ''{'') ?s = u" "dropWhile (\<lambda>c. c \<noteq> CHR ''{'') ?s = CHR ''{'' # ct @ CHR ''}'' # v"
    using assms(1) by (induction u) auto
  moreover have "\<not> starts_with ''{'' (ct @ CHR ''}'' # v)" using c(1,2) by (cases ct) (auto simp: starts_with_def)
  moreover have "takeWhile (\<lambda>c. c \<noteq> CHR ''}'') (ct @ CHR ''}'' # v) = ct"
    "dropWhile (\<lambda>c. c \<noteq> CHR ''}'') (ct @ CHR ''}'' # v) = CHR ''}'' # v"
    using c(3) by (induction ct) auto
  moreover have "\<not> starts_with ''}}'' (CHR ''}'' # v)" using assms(3) by (cases v) (auto simp: starts_with_def)
  ultimately show ?thesis by (simp add: cost_match_def Let_def)
qed

lemma amount_parts:
  assumes "written_amount a"
  shows "amount_at (dv_decimal (am_number a)) (am_currency a) = Inr a"
    "dv_decimal (am_number a) \<noteq> ''@'' \<and> dv_decimal (am_number a) \<noteq> ''@@''"
    "am_currency a \<noteq> ''@'' \<and> am_currency a \<noteq> ''@@''"
proof -
  show "amount_at (dv_decimal (am_number a)) (am_currency a) = Inr a" using assms by (rule amount_at_written)
  have "is_digit (last (dv_decimal (am_number a)))" "is_upper (hd (am_currency a))"
    using assms by (simp_all add: tail_simps)
  then show "dv_decimal (am_number a) \<noteq> ''@'' \<and> dv_decimal (am_number a) \<noteq> ''@@''"
    "am_currency a \<noteq> ''@'' \<and> am_currency a \<noteq> ''@@''"
    by (auto simp: is_digit_def is_upper_def)
qed

lemma parts_roundtrip:
  assumes "written_posting p" and "cost = pt_cost p" "flag = pt_flag p"
  shows "posting_of_parts cost flag
      (pt_account p # (case pt_units p of None \<Rightarrow> [] | Some u \<Rightarrow> amount_words u) @ price_words p) =
    Inr (p\<lparr>pt_meta := []\<rparr>)"
proof (cases "pt_units p")
  case None
  with assms show ?thesis by (cases p) (simp add: posting_of_parts_def price_words_def written_posting_def)
next
  case (Some u)
  then have u: "written_amount u" using assms(1) by (simp add: written_posting_def)
  show ?thesis
  proof (cases "pt_price p")
    case None
    then show ?thesis using Some assms amount_parts [OF u]
      by (cases p) (simp add: posting_of_parts_def price_words_def written_posting_def amount_words_def
          part_at_def index_of_part_def Let_def)
  next
    case price: (Some a)
    then have a: "written_amount a" using assms(1) by (simp add: written_posting_def)
    show ?thesis using Some price assms amount_parts [OF u] amount_parts [OF a]
      by (cases p) (simp add: posting_of_parts_def price_words_def amount_words_def
          part_at_def index_of_part_def Let_def)
  qed
qed

text \<open>A posting line is no metadata line.\<close>

lemma posting_no_metadata:
  assumes "written_posting p" and "hd r = hd (front_text p)" "r \<noteq> []"
  shows "metadata_line (''  '' @ r) = None"
proof -
  have "tidy (front_text p)" "front_text p \<noteq> []" using front_text_ok [OF assms(1)] by simp_all
  then have "\<not> js_space (hd r)" using assms(2) by (simp add: tidy_def)
  then have body: "dropWhile js_space (''  '' @ r) = r" using assms(3) by (simp add: dropWhile_head)
  have "\<not> is_word (hd r) \<or> \<not> is_lower (hd r)"
  proof (cases "pt_flag p")
    case None
    then have "is_upper (hd r)"
      using assms token_nonempty [of "pt_account p"]
      by (simp add: front_text_def written_posting_def name_ok_def)
    then show ?thesis by (auto simp: is_upper_def is_lower_def)
  next
    case (Some f)
    then have "\<not> is_word (hd f)" "f \<noteq> []" using assms(1) flag_token token_nonempty by (auto simp: written_posting_def)
    then show ?thesis using Some assms(2) by (simp add: front_text_def)
  qed
  then have "takeWhile is_word r = [] \<or> \<not> is_lower (hd (takeWhile is_word r))"
    using assms(3) by (cases r) auto
  then show ?thesis unfolding metadata_line_def Let_def body by auto
qed

lemma spaced_last: "\<forall>w\<in>set ws. token w \<Longrightarrow> ws \<noteq> [] \<Longrightarrow> \<not> js_space (last (spaced ws)) \<and> spaced ws \<noteq> []"
proof (induction ws)
  case (Cons w ws)
  then show ?case using token_hd_last [of w] by (cases "ws = []") auto
qed simp

text \<open>
  What a posting line reads as: its comment-free, trimmed text, and its cost and words.
\<close>

lemma posting_line_roundtrip:
  assumes ok: "written_posting p"
  shows "parse_posting_line (format_posting p) = Inr (p\<lparr>pt_meta := []\<rparr>)"
    and "metadata_line (strip_comment (format_posting p)) = None"
proof -
  let ?u = "front_text p" and ?v = "spaced (price_words p)"
  let ?t = "?u @ format_cost (pt_cost p) @ ?v"
  have line: "format_posting p = ''  '' @ ?t" by (rule format_posting_texts [OF ok])
  note u = front_text_ok [OF ok]
  have vt: "\<forall>w\<in>set (price_words p). token w \<and> list_all (\<lambda>c. c \<noteq> CHR ''{'') w" by (rule price_words_ok [OF ok])
  have v: "list_all (\<lambda>c. c \<noteq> CHR ''{'') ?v" using vt by (induction "price_words p" arbitrary: p) (auto simp: spaced_def list_all_iff)
  have vcut: "cut_comment False ?v = ?v" using cut_tokens [of "price_words p" "[]"] vt by simp
  have cost: "pt_cost p = None \<or> (\<exists>c. pt_cost p = Some (AtCost c) \<and> cost_ok c)"
    using ok by (auto simp: written_posting_def split: option.splits posting_cost.splits)
  have ct: "pieces_text_ok (cost_text c)" if "cost_ok c" for c
    unfolding cost_text_pieces [OF that]
    using that by (intro join_pieces_text cost_pieces_ok) (simp_all add: cost_pieces_def)
  have brace: "format_cost (Some (AtCost c)) = CHR '' '' # CHR ''{'' # cost_text c @ ''}''" for c
    by (simp add: format_cost_def)
  have cut: "cut_comment False ?t = ?t"
    using cost
  proof
    assume "pt_cost p = None"
    then show ?thesis using u(4) vcut by (simp add: format_cost_def)
  next
    assume "\<exists>c. pt_cost p = Some (AtCost c) \<and> cost_ok c"
    then obtain c where c: "pt_cost p = Some (AtCost c)" "cost_ok c" by blast
    have "cut_comment False (cost_text c @ r) = cost_text c @ cut_comment False r" for r
      using ct [OF c(2)] by (simp add: pieces_text_ok_def)
    then show ?thesis using u(4) vcut c(1) by (simp add: brace)
  qed
  have last: "\<not> js_space (last ?t)"
  proof (cases "price_words p = []")
    case False
    have "\<forall>w\<in>set (price_words p). token w" using vt by blast
    from spaced_last [OF this False] show ?thesis by auto
  next
    case True
    then show ?thesis using cost u(1,2) by (auto simp: format_cost_def tidy_def brace js_space_def)
  qed
  have "tidy ?t" using u(1,2) last by (auto simp: tidy_def)
  then have trim: "js_trim (strip_comment (format_posting p)) = ?t"
    using cut by (simp add: line strip_comment_def trim_space js_trim_tidy)
  have vw: "words_of ?v = price_words p" using vt by (intro words_of_spaced) blast
  have words: "posting_words ?t = front_words p @ price_words p \<and> posting_cost_of ?t = Inr (pt_cost p)"
    using cost
  proof
    assume n: "pt_cost p = None"
    then have "cost_match ?t = None" using u(3) v by (intro no_brace_match) (simp add: format_cost_def)
    moreover have "words_of (?u @ ?v) = front_words p @ price_words p"
    proof (cases "price_words p")
      case Nil
      then show ?thesis by (simp add: front_text_words [OF ok])
    next
      case (Cons w ws)
      then have "?u @ ?v = ?u @ CHR '' '' # (w @ spaced ws)" by simp
      with vw Cons show ?thesis by (simp add: words_of_split front_text_words [OF ok])
    qed
    ultimately show ?thesis using n by (simp add: posting_words_def posting_cost_of_def format_cost_def)
  next
    assume "\<exists>c. pt_cost p = Some (AtCost c) \<and> cost_ok c"
    then obtain c where c: "pt_cost p = Some (AtCost c)" "cost_ok c" by blast
    have t: "?t = (?u @ '' '') @ CHR ''{'' # cost_text c @ CHR ''}'' # ?v" by (simp add: c(1) brace)
    have "cost_match ?t = Some (?u @ '' '', False, cost_text c, ?v)"
      unfolding t using u(3) ct [OF c(2)] spaced_start by (intro brace_match) auto
    moreover have "words_of ((?u @ '' '') @ '' '' @ ?v) = front_words p @ price_words p"
      using words_of_split [of ?u "CHR '' '' # ?v"] vw by (simp add: front_text_words [OF ok])
    moreover have "js_trim (cost_text c) = cost_text c"
      using ct [OF c(2)] by (simp add: pieces_text_ok_def js_trim_tidy)
    ultimately show ?thesis
      using c parse_cost_roundtrip [OF c(2)] by (simp add: posting_words_def posting_cost_of_def)
  qed
  have account: "pt_account p \<notin> set posting_flags"
    using ok by (auto simp: written_posting_def name_ok_def posting_flags_def is_upper_def)
  have front: "front_words p = (case pt_flag p of None \<Rightarrow> [] | Some f \<Rightarrow> [f]) @ pt_account p #
      (case pt_units p of None \<Rightarrow> [] | Some u \<Rightarrow> amount_words u)" by (rule front_words_def)
  have flag: "\<And>f. pt_flag p = Some f \<Longrightarrow> f \<in> set posting_flags" using ok by (simp add: written_posting_def)
  show "parse_posting_line (format_posting p) = Inr (p\<lparr>pt_meta := []\<rparr>)"
    unfolding parse_posting_line_def Let_def trim
    using words account flag parts_roundtrip [OF ok refl refl] by (cases "pt_flag p") (simp_all add: front)
  have "?t \<noteq> []" "hd ?t = hd ?u" using u(1) by simp_all
  from posting_no_metadata [OF ok this(2,1)] show "metadata_line (strip_comment (format_posting p)) = None"
    using cut by (simp add: line strip_comment_def)
qed

end
