(* ===== verification/LedgerDocument.thy ===== *)
theory LedgerDocument
  imports LedgerPostings
begin

text \<open>
  Whole files: the export of a ledger reads back without errors as the same entries, in the exporter's
  order and with the lines they stand on.
\<close>

section \<open>What survives an export\<close>

definition exported_meta :: "metadata \<Rightarrow> metadata" where
  "exported_meta meta = filter (\<lambda>(k, v). k \<notin> set internal_meta_keys) meta"

definition exported_posting :: "posting \<Rightarrow> posting" where
  "exported_posting p = p\<lparr>pt_meta := exported_meta (pt_meta p)\<rparr>"

definition metadata_ok :: "metadata \<Rightarrow> bool" where
  "metadata_ok meta \<longleftrightarrow>
     distinct (map fst (exported_meta meta)) \<and> (\<forall>kv\<in>set (exported_meta meta). meta_ok kv)"

fun exportable :: "ledger_entry \<Rightarrow> bool" where
  "exportable (Config m s c) \<longleftrightarrow>
     config_ok c \<and> (case c of OptionE _ _ \<Rightarrow> True | IncludeE _ \<Rightarrow> True | PluginE _ _ \<Rightarrow> True | _ \<Rightarrow> False) \<and>
     list_all one_line (entry_lines (Config m s c))"
| "exportable (Dated h e) \<longleftrightarrow>
     is_iso_date (eh_date h) \<and>
     (case e of
        TransactionE t \<Rightarrow>
          header_ok t \<and> metadata_ok (eh_meta h) \<and>
          (\<forall>p\<in>set (tx_postings t). written_posting p \<and> metadata_ok (pt_meta p))
      | _ \<Rightarrow> directive_ok e \<and> exported_meta (eh_meta h) = []) \<and>
     list_all one_line (entry_lines (Dated h e))"

text \<open>The entry read at a place, and all entries of a file from a line on.\<close>

fun read_entry :: "source_location \<Rightarrow> ledger_entry \<Rightarrow> ledger_entry" where
  "read_entry src (Config m s c) = Config [] (Some src) c"
| "read_entry src (Dated h e) =
     Dated \<lparr>eh_date = eh_date h, eh_meta = exported_meta (eh_meta h), eh_source = Some src\<rparr>
       (case e of
          TransactionE t \<Rightarrow> TransactionE ((header_of t)\<lparr>tx_postings := map exported_posting (tx_postings t)\<rparr>)
        | _ \<Rightarrow> e)"

fun placed :: "string \<Rightarrow> nat \<Rightarrow> ledger_entry list \<Rightarrow> ledger_entry list" where
  "placed filename n [] = []"
| "placed filename n (e # es) =
     read_entry \<lparr>sl_filename = filename, sl_lineno = n\<rparr> e # placed filename (n + length (entry_lines e)) es"

section \<open>Kinds of lines\<close>

definition top_level :: "string \<Rightarrow> bool" where
  "top_level l \<longleftrightarrow> \<not> is_indented l \<and> \<not> is_ignorable l"

definition body_line :: "string \<Rightarrow> bool" where
  "body_line l \<longleftrightarrow> is_indented l \<and> \<not> is_ignorable l"

lemma js_trim_head: "\<not> js_space c \<Longrightarrow> \<exists>t. js_trim (c # s) = c # t"
  by (auto simp: js_trim_def dropWhile_append intro: exI [of _ "rev (dropWhile js_space (rev s))"])

lemma not_ignorable: "l \<noteq> [] \<Longrightarrow> \<not> js_space (hd l) \<Longrightarrow> hd l \<noteq> CHR '';'' \<Longrightarrow> \<not> is_ignorable l"
  using js_trim_head [of "hd l" "tl l"] by (cases l) (auto simp: is_ignorable_def starts_with_def)

lemma ignorable_space: "is_ignorable (CHR '' '' # l) = is_ignorable l"
  by (simp add: is_ignorable_def trim_space)

lemma ignorable_spaces: "is_ignorable (replicate n CHR '' '' @ l) = is_ignorable l"
  by (induction n) (simp_all add: ignorable_space)

lemma top_levelI: "l \<noteq> [] \<Longrightarrow> \<not> js_space (hd l) \<Longrightarrow> hd l \<noteq> CHR '';'' \<Longrightarrow> top_level l"
  by (simp add: top_level_def is_indented_def not_ignorable)

lemma body_lineI: "0 < n \<Longrightarrow> l \<noteq> [] \<Longrightarrow> \<not> js_space (hd l) \<Longrightarrow> hd l \<noteq> CHR '';'' \<Longrightarrow> body_line (replicate n CHR '' '' @ l)"
  by (cases n) (simp_all add: body_line_def is_indented_def ignorable_space ignorable_spaces not_ignorable)

lemma empty_ignorable [simp]: "is_ignorable []" "\<not> is_indented []"
  by (simp_all add: is_ignorable_def is_indented_def js_trim_def)

lemma date_top_level: "is_iso_date d \<Longrightarrow> top_level (d @ r)"
  using iso_date_plain [of d] by (intro top_levelI) (auto simp: is_digit_def js_space_def)

lemma config_top_level: "top_level (format_config (OptionE a b))" "top_level (format_config (IncludeE a))"
  "top_level (format_config (PluginE a c))"
  by (rule top_levelI; simp add: js_space_def)+

section \<open>The lines of a transaction\<close>

lemma update_new: "k \<notin> fst ` set kvs \<Longrightarrow> AList.update k v kvs = kvs @ [(k, v)]"
  by (induction kvs) auto

lemma fold_update_new:
  "distinct (map fst (acc @ m)) \<Longrightarrow> fold (\<lambda>(k, v). AList.update k v) m acc = acc @ m"
proof (induction m arbitrary: acc)
  case (Cons e m)
  then have "AList.update (fst e) (snd e) acc = acc @ [e]" by (simp add: update_new)
  with Cons.IH [of "acc @ [e]"] Cons.prems show ?case by (cases e) simp
qed simp

lemma meta_line_body: "meta_ok (k, v) \<Longrightarrow> 0 < n \<Longrightarrow> body_line (replicate n CHR '' '' @ k @ '': '' @ format_metadata_value v)"
  using word_plain by (intro body_lineI) (auto simp: meta_ok_def list_all_iff)

lemma parse_body_step:
  "body_line l \<Longrightarrow> metadata_line (strip_comment l) = Some (k, raw) \<Longrightarrow>
   parse_body n (l # ls) b = parse_body (n + 1) ls (add_metadata k (parse_metadata_value raw) b)"
  "body_line l \<Longrightarrow> metadata_line (strip_comment l) = None \<Longrightarrow> parse_posting_line l = Inr p \<Longrightarrow>
   parse_body n (l # ls) b = parse_body (n + 1) ls (fst b, snd b @ [p])"
  by (simp_all add: body_line_def)

lemma body_metadata:
  "\<forall>kv\<in>set m. meta_ok kv \<Longrightarrow> 0 < i \<Longrightarrow>
   parse_body n (map (\<lambda>(k, v). replicate i CHR '' '' @ k @ '': '' @ format_metadata_value v) m @ r) b =
   parse_body (n + length m) r (fold (\<lambda>(k, v). add_metadata k v) m b)"
proof (induction m arbitrary: n b)
  case (Cons kv m)
  obtain k v where kv: "kv = (k, v)" by (cases kv)
  have ok: "meta_ok (k, v)" using Cons.prems(1) kv by simp
  show ?case
    using Cons kv parse_body_step(1) [OF meta_line_body [OF ok] metadata_roundtrip [OF ok]]
      meta_value_roundtrip(1) [OF ok] by simp
qed simp

lemma add_metadata_head: "fold (\<lambda>(k, v). add_metadata k v) m (meta, []) = (fold (\<lambda>(k, v). AList.update k v) m meta, [])"
  by (induction m arbitrary: meta) (auto simp: add_metadata_def)

lemma add_metadata_posting:
  "fold (\<lambda>(k, v). add_metadata k v) m (meta, ps @ [p]) =
   (meta, ps @ [p\<lparr>pt_meta := fold (\<lambda>(k, v). AList.update k v) m (pt_meta p)\<rparr>])"
proof (induction m arbitrary: p)
  case (Cons kv m)
  obtain k v where kv: "kv = (k, v)" by (cases kv)
  have "add_metadata k v (meta, ps @ [p]) = (meta, ps @ [p\<lparr>pt_meta := AList.update k v (pt_meta p)\<rparr>])"
    by (cases ps) (simp_all add: add_metadata_def)
  with Cons.IH kv show ?case by simp
qed simp

lemma length_format_metadata [simp]: "length (format_metadata meta i) = length (exported_meta meta)"
  by (simp add: format_metadata_def exported_meta_def)

lemma body_format_metadata:
  "metadata_ok meta \<Longrightarrow> 0 < i \<Longrightarrow>
   parse_body n (format_metadata meta i @ r) b =
   parse_body (n + length (exported_meta meta)) r (fold (\<lambda>(k, v). add_metadata k v) (exported_meta meta) b)"
  unfolding format_metadata_def exported_meta_def [symmetric] by (rule body_metadata) (simp_all add: metadata_ok_def)

lemma metadata_ok_fold: "metadata_ok meta \<Longrightarrow> fold (\<lambda>(k, v). AList.update k v) (exported_meta meta) [] = exported_meta meta"
  using fold_update_new [of "[]" "exported_meta meta"] by (simp add: metadata_ok_def)

lemma posting_line_body: "written_posting p \<Longrightarrow> body_line (format_posting p)"
proof -
  assume ok: "written_posting p"
  have u: "front_text p \<noteq> []" "tidy (front_text p)" "\<And>r. cut_comment False (front_text p @ r) = front_text p @ cut_comment False r"
    using front_text_ok [OF ok] by simp_all
  have "hd (front_text p) \<noteq> CHR '';''" using u(1) u(3) [of "[]"] by (cases "front_text p") auto
  then have "body_line (replicate 2 CHR '' '' @ (front_text p @ format_cost (pt_cost p) @ spaced (price_words p)))"
    using u(1,2) by (intro body_lineI) (auto simp: tidy_def)
  then show ?thesis by (simp add: format_posting_texts [OF ok] numeral_2_eq_2)
qed

lemma body_postings:
  "\<forall>p\<in>set ps. written_posting p \<and> metadata_ok (pt_meta p) \<Longrightarrow>
   parse_body n (concat (map (\<lambda>p. format_posting p # format_metadata (pt_meta p) 4) ps) @ r) (meta, qs) =
   parse_body (n + length (concat (map (\<lambda>p. format_posting p # format_metadata (pt_meta p) 4) ps))) r
     (meta, qs @ map exported_posting ps)"
proof (induction ps arbitrary: n qs)
  case (Cons p ps)
  have ok: "written_posting p" "metadata_ok (pt_meta p)" using Cons.prems by simp_all
  have "fold (\<lambda>(k, v). add_metadata k v) (exported_meta (pt_meta p)) (meta, qs @ [p\<lparr>pt_meta := []\<rparr>]) =
      (meta, qs @ [exported_posting p])"
    by (simp add: add_metadata_posting exported_posting_def metadata_ok_fold [OF ok(2)])
  with Cons.IH [of _ "qs @ [exported_posting p]"] Cons.prems show ?case
    using parse_body_step(2) [OF posting_line_body [OF ok(1)] posting_line_roundtrip(2,1) [OF ok(1)]]
    by (simp add: body_format_metadata [OF ok(2)] add.assoc del: parse_body.simps)
qed simp

definition starts_top :: "string list \<Rightarrow> bool" where
  "starts_top ls \<longleftrightarrow> ls = [] \<or> top_level (hd ls)"

lemma parse_body_end: "starts_top r \<Longrightarrow> parse_body n ([] # r) b = Inr (n + 1, r, b)"
  by (cases r) (auto simp: starts_top_def top_level_def)

lemma body_roundtrip:
  assumes "metadata_ok (eh_meta h)" "\<forall>p\<in>set (tx_postings t). written_posting p \<and> metadata_ok (pt_meta p)"
    and "starts_top r"
  shows "parse_body n (tl (format_transaction h t) @ [] # r) ([], []) =
    Inr (n + length (format_transaction h t), r, exported_meta (eh_meta h), map exported_posting (tx_postings t))"
proof -
  have "fold (\<lambda>(k, v). add_metadata k v) (exported_meta (eh_meta h)) ([], []) = (exported_meta (eh_meta h), [])"
    by (simp add: add_metadata_head metadata_ok_fold [OF assms(1)])
  then show ?thesis
    using body_postings [OF assms(2)] parse_body_end [OF assms(3)]
    by (simp add: format_transaction_def body_format_metadata [OF assms(1)] del: parse_body.simps)
qed

section \<open>Files\<close>

definition options_after :: "(string \<times> string) list \<Rightarrow> ledger_entry list \<Rightarrow> (string \<times> string) list" where
  "options_after opts es =
     fold (\<lambda>e os. case e of Config _ _ (OptionE n v) \<Rightarrow> AList.update n v os | _ \<Rightarrow> os) es opts"

lemma options_after_simps [simp]:
  "options_after opts [] = opts"
  "options_after opts (e # es) =
     options_after (case e of Config _ _ (OptionE n v) \<Rightarrow> AList.update n v opts | _ \<Rightarrow> opts) es"
  by (simp_all add: options_after_def)

lemma parse_lines_top:
  assumes "top_level l" and "parse_top_level_line \<lparr>sl_filename = f, sl_lineno = n\<rparr> l = Inr e"
    and "\<And>h t. e \<noteq> Dated h (TransactionE t)"
  shows "parse_lines f n (l # ls) s = parse_lines f (n + 1) ls (register_entry e s)"
  using assms by (cases e) (auto simp: top_level_def Let_def split: dated_entry.split)

lemma parse_lines_blank: "parse_lines f n ([] # ls) s = parse_lines f (n + 1) ls s"
  by simp

lemma directive_top_level:
  assumes "is_iso_date (eh_date h)" "format_dated h e = [line]"
  shows "top_level line"
proof -
  have "\<exists>r. format_dated h e = (eh_date h @ r) # tl (format_dated h e)"
  proof (cases e)
    case (BalanceE account a tol)
    then show ?thesis by (simp add: format_balance_def)
  next
    case (TransactionE t)
    then show ?thesis by (simp add: format_transaction_def transaction_header_def join_def)
  next
    case (CustomE t vals)
    have "str_trim_end ((eh_date h @ '' custom'') @ x) = (eh_date h @ '' custom'') @ str_trim_end x
        \<or> str_trim_end ((eh_date h @ '' custom'') @ x) = eh_date h @ '' custom''" for x
      by (simp add: str_trim_end_def dropWhile_append js_space_def)
    then show ?thesis using CustomE by (metis append.assoc append_Cons append_Nil format_dated.simps(12) list.sel(3))
  qed simp_all
  then obtain r where "line = eh_date h @ r" using assms(2) by auto
  then show ?thesis using date_top_level [OF assms(1)] by simp
qed

lemma exported_none: "exported_meta meta = [] \<Longrightarrow> format_metadata meta n = []"
  by (simp add: format_metadata_def exported_meta_def)

lemma not_transaction_ok: "directive_ok e \<Longrightarrow> e \<noteq> TransactionE t"
  by auto

text \<open>One entry: its lines, whatever follows.\<close>

lemma entry_roundtrip:
  assumes e: "exportable e" and top: "starts_top r" and s: "im_tags s = []" "im_meta s = []"
  shows "parse_lines f n (entry_lines e @ r) s =
    parse_lines f (n + length (entry_lines e)) r
      (s\<lparr>im_entries := im_entries s @ [read_entry \<lparr>sl_filename = f, sl_lineno = n\<rparr> e],
         im_options := options_after (im_options s) [e]\<rparr>)"
proof (cases e)
  case (Config m src c)
  have line: "parse_top_level_line \<lparr>sl_filename = f, sl_lineno = n\<rparr> (format_config c) =
      Inr (Config [] (Some \<lparr>sl_filename = f, sl_lineno = n\<rparr>) c)"
    using e Config by (intro config_roundtrip) simp
  have top: "top_level (format_config c)" using e Config config_top_level by (cases c) auto
  have "parse_lines f n (format_config c # [] # r) s =
      parse_lines f (n + 2) r (register_entry (Config [] (Some \<lparr>sl_filename = f, sl_lineno = n\<rparr>) c) s)"
    using parse_lines_top [OF top line, of "[] # r" s] by (simp add: parse_lines_blank del: parse_lines.simps)
  with e Config show ?thesis by (cases c) (simp_all add: register_entry_def del: parse_lines.simps)
next
  case (Dated h d)
  have date: "is_iso_date (eh_date h)" using e Dated by simp
  show ?thesis
  proof (cases "\<exists>t. d = TransactionE t")
    case True
    then obtain t where d: "d = TransactionE t" by blast
    have ok: "header_ok t" "metadata_ok (eh_meta h)"
      "\<forall>p\<in>set (tx_postings t). written_posting p \<and> metadata_ok (pt_meta p)"
      using e Dated d by simp_all
    let ?src = "\<lparr>sl_filename = f, sl_lineno = n\<rparr>"
    have "\<exists>x. transaction_header (eh_date h) t = eh_date h @ x" using transaction_header_parts [OF ok(1)] by simp
    then have "top_level (transaction_header (eh_date h) t)" using date_top_level [OF date] by auto
    moreover have "format_transaction h t = transaction_header (eh_date h) t # tl (format_transaction h t)"
      by (simp add: format_transaction_def)
    then obtain b where b: "format_transaction h t = transaction_header (eh_date h) t # b" by blast
    have "parse_body (n + 1) (b @ [] # r) ([], []) =
        Inr (n + length (format_transaction h t) + 1, r, exported_meta (eh_meta h), map exported_posting (tx_postings t))"
      using body_roundtrip [OF ok(2,3) top, of "n + 1"] b by simp
    ultimately show ?thesis
      using s transaction_header_roundtrip [OF date ok(1), of ?src] Dated d b
      by (simp add: top_level_def transaction_entry_def)
  next
    case False
    have ok: "directive_ok d" "exported_meta (eh_meta h) = []" using e Dated False by (auto split: dated_entry.splits)
    obtain line where line: "format_dated h d = [line]"
      "parse_top_level_line \<lparr>sl_filename = f, sl_lineno = n\<rparr> line =
        Inr (Dated \<lparr>eh_date = eh_date h, eh_meta = [], eh_source = Some \<lparr>sl_filename = f, sl_lineno = n\<rparr>\<rparr> d)"
      using directive_roundtrip [OF date ok(1)] by blast
    have lines: "entry_lines e = [line, []]"
      using Dated False line(1) exported_none [OF ok(2)] by (cases d) auto
    have "parse_lines f n (line # [] # r) s = parse_lines f (n + 2) r
        (register_entry (Dated \<lparr>eh_date = eh_date h, eh_meta = [], eh_source = Some \<lparr>sl_filename = f, sl_lineno = n\<rparr>\<rparr> d) s)"
      using parse_lines_top [OF directive_top_level [OF date line(1)] line(2)] False parse_lines_blank by simp
    then show ?thesis
      using Dated False ok(2) lines by (cases d) (simp_all add: register_entry_def del: parse_lines.simps)
  qed
qed

lemma entry_starts_top: "exportable e \<Longrightarrow> starts_top (entry_lines e @ r)"
proof (cases e)
  case (Config m src c)
  assume "exportable e"
  then show ?thesis using Config config_top_level by (cases c) (auto simp: starts_top_def)
next
  case (Dated h d)
  assume e: "exportable e"
  then have date: "is_iso_date (eh_date h)" using Dated by simp
  show ?thesis
  proof (cases "\<exists>t. d = TransactionE t")
    case True
    then obtain t where d: "d = TransactionE t" by blast
    then have "\<exists>x. transaction_header (eh_date h) t = eh_date h @ x"
      using e Dated transaction_header_parts by simp
    then show ?thesis using Dated d date_top_level [OF date] by (auto simp: starts_top_def format_transaction_def)
  next
    case False
    then have "directive_ok d" using e Dated by (auto split: dated_entry.splits)
    then obtain line where "format_dated h d = [line]" using directive_roundtrip [OF date] by blast
    then show ?thesis using Dated directive_top_level [OF date] by (simp add: starts_top_def)
  qed
qed

lemma entries_roundtrip:
  "\<forall>e\<in>set es. exportable e \<Longrightarrow> im_tags s = [] \<Longrightarrow> im_meta s = [] \<Longrightarrow>
   parse_lines f n (concat (map entry_lines es)) s =
     s\<lparr>im_entries := im_entries s @ placed f n es, im_options := options_after (im_options s) es\<rparr>"
proof (induction es arbitrary: n s)
  case Nil
  then show ?case by simp
next
  case (Cons e es)
  have top: "starts_top (concat (map entry_lines es))"
  proof (cases es)
    case (Cons e' es')
    then show ?thesis using Cons.prems entry_starts_top [of e'] by simp
  qed (simp add: starts_top_def)
  have e: "exportable e" using Cons.prems by simp
  show ?case
    using Cons.IH Cons.prems entry_roundtrip [OF e top Cons.prems(2,3), of f n] by simp
qed

lemma unix_lines_id: "list_all (\<lambda>c. c \<noteq> CHR 0x0D) s \<Longrightarrow> unix_lines s = s"
  by (induction s rule: unix_lines.induct) auto

lemma one_line_no_return: "one_line l \<Longrightarrow> list_all (\<lambda>c. c \<noteq> CHR 0x0D) l"
  by (auto simp: one_line_def list_all_iff)

lemma one_line_join: "\<forall>l\<in>set ls. one_line l \<Longrightarrow> list_all (\<lambda>c. c \<noteq> CHR 0x0D) (join [newline] ls)"
proof (induction ls)
  case (Cons l ls)
  then show ?case by (cases "ls = []") (simp_all add: join_Cons one_line_no_return)
qed simp

lemma join_snoc: "ls \<noteq> [] \<Longrightarrow> join sep (ls @ [x]) = join sep ls @ sep @ x"
proof (induction ls)
  case (Cons l ls)
  then show ?case by (cases "ls = []") (simp_all add: join_Cons)
qed simp

lemma split_lines:
  assumes "\<forall>l\<in>set ls. one_line l" and "ls \<noteq> []"
  shows "split_on newline (unix_lines (join [newline] ls @ [newline])) = ls @ [[]]"
proof -
  have j: "join [newline] ls @ [newline] = join [newline] (ls @ [[]])" using assms(2) by (simp add: join_snoc)
  have ol: "\<forall>l\<in>set (ls @ [[]]). one_line l" using assms(1) by (simp add: one_line_def)
  have "unix_lines (join [newline] (ls @ [[]])) = join [newline] (ls @ [[]])"
    using one_line_join [OF ol] by (rule unix_lines_id)
  moreover have "split_on newline (join [newline] (ls @ [[]])) = ls @ [[]]"
    using ol by (intro split_on_join) (auto simp: one_line_def list_all_iff)
  ultimately show ?thesis using j by simp
qed

lemma entry_lines_end:
  assumes "exportable e"
  shows "\<exists>ls l. entry_lines e = ls @ [l, []] \<and> l \<noteq> []"
proof (cases e)
  case (Config m src c)
  have "top_level (format_config c)" using assms Config config_top_level by (cases c) auto
  then have "format_config c \<noteq> []" by (auto simp: top_level_def)
  with Config show ?thesis by auto
next
  case (Dated h d)
  let ?ls = "format_dated h d @ (case d of TransactionE t \<Rightarrow> [] | _ \<Rightarrow> format_metadata (eh_meta h) 2)"
  have "?ls \<noteq> []" by (cases d) (simp_all add: format_transaction_def)
  moreover have "\<forall>l\<in>set ?ls. l \<noteq> []"
  proof (cases "\<exists>t. d = TransactionE t")
    case True
    then obtain t where d: "d = TransactionE t" by blast
    have "transaction_header (eh_date h) t \<noteq> []" by (simp add: transaction_header_def join_def)
    moreover have "l \<noteq> []" if "l \<in> set (format_metadata m i)" for l m i
      using that by (auto simp: format_metadata_def)
    ultimately show ?thesis using d by (auto simp: format_transaction_def format_posting_def)
  next
    case False
    have "is_iso_date (eh_date h)" "directive_ok d" "exported_meta (eh_meta h) = []"
      using assms Dated False by (auto split: dated_entry.splits)
    note ok = this
    obtain line where line: "format_dated h d = [line]" using directive_roundtrip [OF ok(1,2)] by blast
    have "(case d of TransactionE t \<Rightarrow> [] | _ \<Rightarrow> format_metadata (eh_meta h) 2) = []"
      using exported_none [OF ok(3)] by (simp split: dated_entry.split)
    then have "?ls = [line]" using line by simp
    moreover have "line \<noteq> []" using directive_top_level [OF ok(1) line] by (auto simp: top_level_def)
    ultimately show ?thesis by simp
  qed
  ultimately obtain ls l where "?ls = ls @ [l]" "l \<noteq> []" by (metis append_butlast_last_id last_in_set)
  with Dated show ?thesis by (intro exI [of _ ls] exI [of _ l]) simp
qed

lemma lines_end:
  "es \<noteq> [] \<Longrightarrow> \<forall>e\<in>set es. exportable e \<Longrightarrow>
   \<exists>ls l. concat (map entry_lines es) = ls @ [l, []] \<and> l \<noteq> []"
proof (induction es)
  case (Cons e es)
  show ?case
  proof (cases "es = []")
    case True
    with Cons.prems entry_lines_end [of e] show ?thesis by simp
  next
    case False
    with Cons obtain ls l where "concat (map entry_lines es) = ls @ [l, []]" "l \<noteq> []" by auto
    then show ?thesis by (intro exI [of _ "entry_lines e @ ls"] exI [of _ l]) simp
  qed
qed simp

lemma one_line_entries: "exportable e \<Longrightarrow> l \<in> set (entry_lines e) \<Longrightarrow> one_line l"
  by (cases e) (auto simp: list_all_iff)

text \<open>
  C38. What is exported is read back: the text of any ledger of exportable entries parses without an
  error into exactly those entries, in the exporter's order, each with the line it stands on; tags
  and links are sorted and metadata internal to the program is gone.
\<close>

theorem export_import_roundtrip:
  assumes "\<forall>e\<in>set es. exportable e"
  shows "im_errors (parse_beancount_text (export_entries es []) filename) = [] \<and>
    im_entries (parse_beancount_text (export_entries es []) filename) = placed filename 1 (sort_entries es)"
proof -
  let ?es = "sort_entries es" and ?s = "\<lparr>im_entries = [], im_errors = [], im_options = [], im_tags = [], im_meta = []\<rparr>"
  let ?l = "concat (map entry_lines ?es)"
  have "set ?es = set es" by (metis set_mset_mset sort_entries_mset)
  then have ok: "\<forall>e\<in>set ?es. exportable e" using assms by simp
  have "parse_beancount_text (export_entries es []) filename = parse_lines filename 1 ?l ?s"
  proof (cases "?es = []")
    case True
    then show ?thesis
      by (simp add: parse_beancount_text_def export_entries_def option_lines_def drop_blank_end_def)
  next
    case False
    then obtain ls l where l: "?l = ls @ [l, []]" "l \<noteq> []" using lines_end ok by blast
    then have "drop_blank_end ?l = ls @ [l]" by (simp add: drop_blank_end_def)
    then have e: "export_entries es [] = join [newline] (ls @ [l]) @ [newline]"
      by (simp add: export_entries_def option_lines_def)
    have "\<forall>x\<in>set ?l. one_line x" using ok one_line_entries by auto
    then have "\<forall>x\<in>set (ls @ [l]). one_line x" unfolding l(1) by simp
    then show ?thesis
      using split_lines [of "ls @ [l]"] unfolding parse_beancount_text_def e l(1) by simp
  qed
  then show ?thesis using entries_roundtrip [OF ok, of ?s filename 1] by simp
qed

definition unread :: "string \<Rightarrow> entry_head" where
  "unread date = \<lparr>eh_date = date, eh_meta = [], eh_source = None\<rparr>"

definition dollars :: "int \<Rightarrow> amount" where
  "dollars n = \<lparr>am_number = decimal_from_coefficient n 2, am_currency = ''USD''\<rparr>"

definition simple_posting :: "string \<Rightarrow> amount option \<Rightarrow> posting" where
  "simple_posting account units =
     \<lparr>pt_account = account, pt_units = units, pt_cost = None, pt_price = None,
      pt_price_is_total = False, pt_flag = None, pt_meta = []\<rparr>"

definition purchase :: "string option \<Rightarrow> string option \<Rightarrow> posting list \<Rightarrow> transaction" where
  "purchase payee narration ps =
     \<lparr>tx_flag = ''*'', tx_payee = payee, tx_narration = narration, tx_tags = [], tx_links = [], tx_postings = ps\<rparr>"

definition small_ledger :: "ledger_entry list" where
  "small_ledger =
     [Dated (unread ''2024-01-01'') (OpenE ''Assets:Cash'' [''USD''] (Some FIFO)),
      Dated (unread ''2024-01-02'')
        (TransactionE (purchase (Some ''Shop'') (Some (CHR 0x22 # '' a quote; no comment''))
           [simple_posting ''Assets:Cash'' (Some (dollars (- 1250))), simple_posting ''Expenses:Food'' None]))]"

lemma small_ledger_exportable: "list_all exportable small_ledger"
  by code_simp

lemma length_placed [simp]: "length (placed f n es) = length es"
  by (induction es arbitrary: n) simp_all

lemma length_sort_entries [simp]: "length (sort_entries es) = length es"
  using sort_entries_mset [of es] by (metis size_mset)

lemma export_import_roundtrip_witness:
  "im_errors (parse_beancount_text (export_entries small_ledger []) ''a.bean'') = [] \<and>
   length (im_entries (parse_beancount_text (export_entries small_ledger []) ''a.bean'')) = 2"
proof -
  have "\<forall>e\<in>set small_ledger. exportable e" using small_ledger_exportable by (simp add: list_all_iff)
  from export_import_roundtrip [OF this, of "''a.bean''"] show ?thesis by (simp add: small_ledger_def)
qed

section \<open>What does not survive\<close>

abbreviation reread :: "ledger_entry \<Rightarrow> import_state" where
  "reread e \<equiv> parse_beancount_text (export_entries [e] []) ''a.bean''"

definition first_line :: "string \<Rightarrow> entry_head" where
  "first_line date = (unread date)\<lparr>eh_source := Some \<lparr>sl_filename = ''a.bean'', sl_lineno = 1\<rparr>\<rparr>"

text \<open>A payee without a narration becomes the narration.\<close>

lemma payee_alone_becomes_narration:
  "im_entries (reread (Dated (unread ''2024-01-01'') (TransactionE (purchase (Some ''Shop'') None [])))) =
    [Dated (first_line ''2024-01-01'') (TransactionE (purchase None (Some ''Shop'') []))]"
  by code_simp

text \<open>A word in a text that looks like a tag becomes a tag.\<close>

lemma text_becomes_tag:
  "im_entries (reread (Dated (unread ''2024-01-01'') (TransactionE (purchase None (Some ''Invoice #42'') [])))) =
    [Dated (first_line ''2024-01-01'') (TransactionE ((purchase None (Some ''Invoice #42'') [])\<lparr>tx_tags := [''42'']\<rparr>))]"
  by code_simp

text \<open>Metadata of a directive other than a transaction is written and then refused.\<close>

lemma directive_metadata_refused:
  "im_errors (reread (Dated ((unread ''2024-01-01'')\<lparr>eh_meta := [(''bank'', MText ''X'')]\<rparr>) (CloseE ''Assets:Cash''))) =
    [(UnexpectedIndentation, \<lparr>sl_filename = ''a.bean'', sl_lineno = 2\<rparr>)]"
  by code_simp

text \<open>A posting flag of the pad transactions loses the whole transaction.\<close>

lemma pad_flag_refused:
  "im_entries (reread (Dated (unread ''2024-01-01'') (TransactionE (purchase None None
     [(simple_posting ''Assets:Cash'' (Some (dollars 100)))\<lparr>pt_flag := Some ''P''\<rparr>])))) = []"
  by code_simp

text \<open>A comment of two lines is cut: the second line is read as an entry.\<close>

lemma newline_breaks_note:
  "im_errors (reread (Dated (unread ''2024-01-01'') (NoteE ''Assets:Cash'' (''a'' @ [newline] @ ''b'') [] []))) =
    [(ParseFailed ExpectedDate, \<lparr>sl_filename = ''a.bean'', sl_lineno = 2\<rparr>)]"
  by code_simp

text \<open>The date of a lot bought at a total cost is not written.\<close>

definition dated_total :: cost_spec where
  "dated_total =
     \<lparr>cs_number_per = None, cs_number_total = Some (decimal_from_coefficient 5 0), cs_currency = Some ''USD'',
      cs_date = Some ''2024-01-01'', cs_label = None, cs_merge = None\<rparr>"

lemma total_cost_loses_date:
  "format_cost (Some (AtSpec dated_total)) = format_cost (Some (AtSpec (dated_total\<lparr>cs_date := None\<rparr>)))"
  by (simp add: format_cost_def dated_total_def)

end
