(* ===== verification/LedgerLoad.thy ===== *)
theory LedgerLoad
  imports LedgerBalances LedgerDocument
begin

text \<open>
  From a text to a checked ledger: \<open>loadFromText\<close> of \<open>beancount/engine.ts\<close>, what the importer
  guarantees of everything it reads, and why loading does not fail half way.
\<close>

section \<open>Loading\<close>

record load_result =
  lr_entries :: "ledger_entry list"
  lr_parse_errors :: "(import_error \<times> source_location) list"
  lr_errors :: "ledger_error list"
  lr_options :: "(string \<times> string) list"

text \<open>The list of errors is that of the parser followed by that of validation.\<close>

definition load_from_text :: "string \<Rightarrow> string \<Rightarrow> finance_error + load_result" where
  "load_from_text text filename =
     (let parsed = parse_beancount_text text filename
      in case transform_entries (im_entries parsed) of
           Inl e \<Rightarrow> Inl e
         | Inr transformed \<Rightarrow>
             (let entries = sort_entries transformed
              in case validate_entries entries of
                   Inl e \<Rightarrow> Inl e
                 | Inr errors \<Rightarrow>
                     Inr \<lparr>lr_entries = entries, lr_parse_errors = im_errors parsed, lr_errors = errors,
                          lr_options = im_options parsed\<rparr>))"

section \<open>What is read has its types\<close>

definition cost_typed :: "posting_cost \<Rightarrow> bool" where
  "cost_typed c =
     (case c of
        AtCost c \<Rightarrow> number_ok (co_number c) \<and> is_commodity_symbol (co_currency c) \<and> date_ok (co_date c)
      | AtSpec s \<Rightarrow>
          pred_option number_ok (cs_number_per s) \<and> pred_option number_ok (cs_number_total s) \<and>
          pred_option is_commodity_symbol (cs_currency s) \<and> date_ok (cs_date s))"

definition posting_typed :: "posting \<Rightarrow> bool" where
  "posting_typed p \<longleftrightarrow>
     pred_option written_amount (pt_units p) \<and> pred_option cost_typed (pt_cost p) \<and>
     pred_option written_amount (pt_price p) \<and> pred_option (\<lambda>f. f \<in> set posting_flags) (pt_flag p)"

fun entry_typed :: "ledger_entry \<Rightarrow> bool" where
  "entry_typed (Config m s c) \<longleftrightarrow> True"
| "entry_typed (Dated h d) \<longleftrightarrow>
     is_iso_date (eh_date h) \<and>
     (case d of
        OpenE a cs b \<Rightarrow> \<forall>c\<in>set cs. is_commodity_symbol c
      | CommodityE c \<Rightarrow> is_commodity_symbol c
      | PriceE c a \<Rightarrow> is_commodity_symbol c \<and> written_amount a
      | BalanceE account a t \<Rightarrow>
          written_amount a \<and> pred_option (\<lambda>t. written_amount t \<and> am_currency t = am_currency a) t
      | TransactionE t \<Rightarrow> \<forall>p\<in>set (tx_postings t). posting_typed p
      | _ \<Rightarrow> True)"

lemma parsed_number: "parse_decimal s = Inr d \<Longrightarrow> number_ok d"
  using parse_decimal_shape by (simp add: number_ok_def)

lemma amount_at_typed: "amount_at n c = Inr a \<Longrightarrow> written_amount a \<and> am_currency a = c"
  by (auto simp: amount_at_def amount_of_def written_amount_def amount_ok_def dest: parsed_number split: sum.splits if_splits)

lemma make_cost_typed: "make_cost n c d l = Inr k \<Longrightarrow> cost_typed (AtCost k)"
  by (auto simp: make_cost_def cost_typed_def dest: parsed_number split: sum.splits if_splits)

lemma make_cost_spec_typed: "make_cost_spec p t c d l m = Inr k \<Longrightarrow> cost_typed (AtSpec k)"
  by (auto simp: make_cost_spec_def cost_typed_def parse_optional_def pred_option_def dest!: parsed_number
      split: sum.splits if_splits option.splits)

lemma parse_cost_typed: "parse_cost content is_total = Inr c \<Longrightarrow> cost_typed c"
  by (auto simp: parse_cost_def cost_of_fields_def dest: make_cost_typed make_cost_spec_typed
      split: sum.splits if_splits)

lemma posting_of_parts_typed:
  "posting_of_parts cost flag parts = Inr p \<Longrightarrow> pred_option cost_typed cost \<Longrightarrow>
   pred_option (\<lambda>f. f \<in> set posting_flags) flag \<Longrightarrow> posting_typed p \<and> pt_account p \<in> set parts"
  by (auto simp: posting_of_parts_def posting_typed_def split: list.splits sum.splits option.splits
      dest!: amount_at_typed)

lemma parse_posting_typed:
  assumes "parse_posting_line l = Inr p"
  shows "posting_typed p \<and> pt_account p \<in> set (posting_words (js_trim (strip_comment l)))"
proof -
  let ?s = "js_trim (strip_comment l)"
  obtain cost where c: "posting_cost_of ?s = Inr cost"
    using assms by (auto simp: parse_posting_line_def Let_def split: sum.splits)
  then have "pred_option cost_typed cost"
    by (auto simp: posting_cost_of_def pred_option_def dest: parse_cost_typed split: option.splits prod.splits sum.splits)
  then show ?thesis
    using assms c posting_of_parts_typed
    by (fastforce simp: parse_posting_line_def Let_def split: list.splits if_splits)
qed

lemma parse_dated_typed:
  assumes "parse_dated directive tail = Inr d" and "is_iso_date (eh_date h)"
  shows "entry_typed (Dated h d)"
proof -
  have open_ok: "entry_typed (Dated h d)" if "parse_open t = Inr d" for t
    using that assms(2)
    by (auto simp: parse_open_def Let_def assert_symbol_def first_some_None
        split: prod.splits option.splits sum.splits if_splits) blast
  have balance_ok: "entry_typed (Dated h d)" if "parse_balance t = Inr d" for t
    using that assms(2)
    by (auto simp: parse_balance_def Let_def dest!: amount_at_typed split: sum.splits option.splits if_splits)
  have price_ok: "entry_typed (Dated h d)" if "parse_price t = Inr d" for t
    using that assms(2)
    by (auto simp: parse_price_def Let_def assert_symbol_def dest!: amount_at_typed split: sum.splits option.splits if_splits)
  show ?thesis
    using assms open_ok balance_ok price_ok
    by (auto simp: parse_dated_def Let_def assert_symbol_def parse_transaction_def split: if_splits prod.splits option.splits)
qed

text \<open>Where the account names of an entry come from.\<close>

fun accounts_of :: "ledger_entry \<Rightarrow> string list" where
  "accounts_of (Dated h (TransactionE t)) = map pt_account (tx_postings t)"
| "accounts_of (Dated h (PadE a s)) = [a, s]"
| "accounts_of _ = []"

lemma set_dropWhile: "set (dropWhile P s) \<subseteq> set s"
  by (auto dest: set_dropWhileD)

lemma set_takeWhile: "set (takeWhile P s) \<subseteq> set s"
  by (auto dest: set_takeWhileD)

lemma set_trim: "set (js_trim s) \<subseteq> set s"
proof -
  have "set (js_trim s) \<subseteq> set (rev (dropWhile js_space s))"
    unfolding js_trim_def set_rev [of "dropWhile js_space (rev (dropWhile js_space s))"] by (rule set_dropWhile)
  also have "\<dots> \<subseteq> set s" unfolding set_rev by (rule set_dropWhile)
  finally show ?thesis .
qed

lemma set_words: "w \<in> set (words_of s) \<Longrightarrow> set w \<subseteq> set s"
proof (induction s arbitrary: w)
  case (Cons c s)
  show ?case
  proof (cases "js_space c")
    case True
    with Cons show ?thesis by auto
  next
    case False
    show ?thesis
    proof (cases s)
      case Nil
      with False Cons.prems show ?thesis by simp
    next
      case s: (Cons d t)
      show ?thesis
      proof (cases "js_space d")
        case True
        then have "words_of (c # s) = [c] # words_of s" using False s by simp
        with Cons show ?thesis by auto
      next
        case d: False
        have w: "words_of (c # s) = (case words_of s of x # xs \<Rightarrow> (c # x) # xs | [] \<Rightarrow> [[c]])"
          using False d s by simp
        show ?thesis
        proof (cases "words_of s")
          case Nil
          with w Cons.prems show ?thesis by simp
        next
          case x: (Cons x xs)
          with Cons.IH [of x] Cons.IH [of w] w Cons.prems show ?thesis by auto
        qed
      qed
    qed
  qed
qed simp

lemma set_split_first:
  assumes "split_first s = (a, r)"
  shows "set a \<subseteq> set s" "set r \<subseteq> set s"
proof -
  have "a = takeWhile not_space (js_trim s)"
    "r = dropWhile js_space (drop 1 (dropWhile not_space (js_trim s)))"
    using assms by (simp_all add: split_first_def Let_def)
  then show "set a \<subseteq> set s" "set r \<subseteq> set s"
    using set_trim [of s] set_takeWhile [of not_space "js_trim s"] set_dropWhile [of not_space "js_trim s"]
      set_dropWhile [of js_space "drop 1 (dropWhile not_space (js_trim s))"]
      set_drop_subset [of 1 "dropWhile not_space (js_trim s)"]
    by blast+
qed

lemma set_cut_comment: "set (cut_comment q s) \<subseteq> set s"
proof (induction s arbitrary: q rule: length_induct)
  case (1 s)
  show ?case
  proof (cases s)
    case (Cons c t)
    have t: "set (cut_comment q' t) \<subseteq> set t" for q' using 1 Cons by simp
    have u: "set (cut_comment q u) \<subseteq> set u" if "t = d # u" for d u using 1 Cons that by simp
    show ?thesis
    proof (cases "q \<and> c = backslash")
      case True
      with Cons u show ?thesis by (cases t) (simp_all, blast)
    next
      case False
      then have "cut_comment q s = c # cut_comment (\<not> q) t \<or> cut_comment q s = [] \<or> cut_comment q s = c # cut_comment q t"
        using Cons by (simp only: cut_comment.simps if_False) metis
      with Cons t show ?thesis by (elim disjE) (simp_all, blast+)
    qed
  qed simp
qed

lemma set_strip: "set (js_trim (strip_comment l)) \<subseteq> set l"
  using set_trim [of "cut_comment False l"] set_cut_comment [of False l] unfolding strip_comment_def by blast

lemma set_cost_match:
  assumes "cost_match s = Some (u, d, c, v)"
  shows "set u \<subseteq> set s" "set v \<subseteq> set s"
proof -
  define opened where "opened = drop 1 (dropWhile (\<lambda>c. c \<noteq> CHR ''{'') s)"
  define body where "body = (if starts_with ''{'' opened then tl opened else opened)"
  define rest where "rest = dropWhile (\<lambda>c. c \<noteq> CHR ''}'') body"
  have uv: "u = takeWhile (\<lambda>c. c \<noteq> CHR ''{'') s" "v = drop (if starts_with ''}}'' rest then 2 else 1) rest"
    using assms unfolding cost_match_def Let_def opened_def [symmetric] body_def [symmetric] rest_def [symmetric]
    by (simp_all split: if_split_asm)
  have "set opened \<subseteq> set s"
    unfolding opened_def using set_drop_subset set_dropWhile by (rule subset_trans)
  moreover have "set body \<subseteq> set opened" unfolding body_def by (cases opened) auto
  moreover have "set rest \<subseteq> set body" unfolding rest_def by (rule set_dropWhile)
  moreover have "set v \<subseteq> set rest" unfolding uv(2) by (rule set_drop_subset)
  ultimately show "set v \<subseteq> set s" by blast
  show "set u \<subseteq> set s" unfolding uv(1) by (rule set_takeWhile)
qed

lemma account_ok_subset: "set a \<subseteq> set s \<Longrightarrow> account_ok s \<Longrightarrow> account_ok a"
  by (auto simp: account_ok_def)

lemma bar_free_words: "account_ok s \<Longrightarrow> w \<in> set (words_of s) \<Longrightarrow> account_ok w"
  using set_words account_ok_subset by blast

lemma bar_free_posting_words:
  assumes s: "account_ok s" and w: "w \<in> set (posting_words s)"
  shows "account_ok w"
proof (cases "cost_match s")
  case None
  with w show ?thesis using bar_free_words [OF s] by (simp add: posting_words_def)
next
  case (Some m)
  obtain u d c v where m: "m = (u, d, c, v)" by (cases m)
  have "account_ok (u @ CHR '' '' # v)"
    using set_cost_match [OF Some [unfolded m]] s by (auto simp: account_ok_def)
  with w Some m show ?thesis using bar_free_words by (simp add: posting_words_def)
qed

lemma bar_free_posting: "account_ok l \<Longrightarrow> parse_posting_line l = Inr p \<Longrightarrow> account_ok (pt_account p)"
  using parse_posting_typed [of l p] bar_free_posting_words account_ok_subset [OF set_strip] by blast

lemma parse_dated_transaction: "parse_dated directive tail = Inr (TransactionE t) \<Longrightarrow> tx_postings t = []"
  by (auto simp: parse_dated_def Let_def parse_open_def parse_balance_def parse_price_def parse_transaction_def
      split: if_splits prod.splits option.splits sum.splits)

lemma parse_dated_pad: "parse_dated directive tail = Inr (PadE a s) \<Longrightarrow> split_first tail = (a, s)"
  by (auto simp: parse_dated_def Let_def parse_open_def parse_balance_def parse_price_def
      split: if_splits prod.splits option.splits sum.splits)

section \<open>Whatever holds of each line holds of the file\<close>

text \<open>
  What is true of every posting a line can hold, and stays true under metadata, is true of all postings
  of a transaction read from the lines.
\<close>

lemma add_metadata_snoc:
  "add_metadata k v (meta, ps @ [p]) = (meta, ps @ [p\<lparr>pt_meta := AList.update k v (pt_meta p)\<rparr>])"
  by (cases ps) (simp_all add: add_metadata_def)

lemma parse_body_all:
  assumes "parse_body n ls b = Inr (n', ls', b')"
    and "\<And>l p. l \<in> set ls \<Longrightarrow> parse_posting_line l = Inr p \<Longrightarrow> P p"
    and "\<And>p m. P p \<Longrightarrow> P (p\<lparr>pt_meta := m\<rparr>)" and "\<forall>p\<in>set (snd b). P p"
  shows "(\<forall>p\<in>set (snd b'). P p) \<and> set ls' \<subseteq> set ls"
  using assms
proof (induction n ls b rule: parse_body.induct)
  case (1 n b)
  then show ?case by simp
next
  case (2 n l ls b)
  show ?case
  proof (cases "is_indented l \<or> is_ignorable l")
    case False
    with 2(4,7) show ?thesis by simp
  next
    case go: True
    show ?thesis
    proof (cases "is_ignorable l")
      case True
      with 2(1,4-7) go show ?thesis by (auto simp del: not_None_eq)
    next
      case False
      show ?thesis
      proof (cases "metadata_line (strip_comment l)")
        case (Some kv)
        obtain k raw where kv: "kv = (k, raw)" by (cases kv)
        let ?b = "add_metadata k (parse_metadata_value raw) b"
        have "\<forall>p\<in>set (snd ?b). P p"
        proof (cases "snd b" rule: rev_cases)
          case Nil
          then show ?thesis by (cases b) (simp add: add_metadata_def)
        next
          case (snoc ps p)
          then have "b = (fst b, ps @ [p])" by (cases b) simp
          with 2(6,7) add_metadata_snoc show ?thesis by (metis Un_iff empty_iff insert_iff list.set set_append snd_conv)
        qed
        moreover have "parse_body (n + 1) ls ?b = Inr (n', ls', b')" using 2(4) go False Some kv by simp
        ultimately show ?thesis using 2(3) [OF _ False Some kv [symmetric]] 2(5,6) go by auto
      next
        case None
        obtain p where p: "parse_posting_line l = Inr p" "parse_body (n + 1) ls (fst b, snd b @ [p]) = Inr (n', ls', b')"
          using 2(4) go False None by (auto split: sum.splits)
        have "P p" using 2(5) [OF _ p(1)] by simp
        with 2(2) [OF _ False None p(1)] p(2) 2(5-7) go show ?thesis by auto
      qed
    qed
  qed
qed

lemma parse_body_error_rest: "parse_body n ls b = Inl (e, n', ls') \<Longrightarrow> set ls' \<subseteq> set ls"
  by (induction n ls b rule: parse_body.induct)
    (fastforce split: if_splits option.splits sum.splits prod.splits)+

text \<open>
  So is what is true of every entry a line can hold, and of every transaction with such postings, of all
  entries of a file.
\<close>

lemma parse_lines_all:
  assumes "\<And>l p. l \<in> set ls \<Longrightarrow> parse_posting_line l = Inr p \<Longrightarrow> P p"
    and "\<And>p m. P p \<Longrightarrow> P (p\<lparr>pt_meta := m\<rparr>)"
    and "\<And>l src e. l \<in> set ls \<Longrightarrow> parse_top_level_line src l = Inr e \<Longrightarrow> E e"
    and "\<And>h t tags meta ps. E (Dated h (TransactionE t)) \<Longrightarrow> \<forall>p\<in>set ps. P p \<Longrightarrow> E (transaction_entry h t tags meta ps)"
    and "\<forall>e\<in>set (im_entries s). E e"
  shows "\<forall>e\<in>set (im_entries (parse_lines f n ls s)). E e"
  using assms(1,3,5)
proof (induction "length ls" arbitrary: n ls s rule: less_induct)
  case less
  note line = less(2) and top = less(3) and sofar = less(4)
  have go: "\<forall>e\<in>set (im_entries (parse_lines f n' ls' s')). E e"
    if "length ls' < length ls" "set ls' \<subseteq> set ls" "\<forall>e\<in>set (im_entries s'). E e" for n' ls' s'
  proof (rule less(1) [OF that(1)])
    show "P p" if "l \<in> set ls'" "parse_posting_line l = Inr p" for l p
      using line that \<open>set ls' \<subseteq> set ls\<close> by blast
    show "E e" if "l \<in> set ls'" "parse_top_level_line src l = Inr e" for l src e
      using top that \<open>set ls' \<subseteq> set ls\<close> by blast
  qed (rule that(3))
  show ?case
  proof (cases ls)
    case Nil
    with sofar show ?thesis by simp
  next
    case (Cons l ls1)
    let ?src = "\<lparr>sl_filename = f, sl_lineno = n\<rparr>"
    have next_line: "\<forall>e\<in>set (im_entries (parse_lines f (n + 1) ls1 s')). E e"
      if "\<forall>e\<in>set (im_entries s'). E e" for s' using go [of ls1 s'] that Cons by auto
    have errors: "im_entries (add_error e src s) = im_entries s" for e src by (simp add: add_error_def)
    show ?thesis
    proof (cases "is_ignorable l \<or> is_indented l")
      case True
      with next_line [of s] next_line [of "add_error UnexpectedIndentation ?src s"] sofar Cons errors
      show ?thesis by (auto simp: Let_def)
    next
      case False
      show ?thesis
      proof (cases "parse_top_level_line ?src l")
        case (Inl e)
        with next_line [of "add_error (ParseFailed e) ?src s"] sofar Cons errors False show ?thesis
          by (simp add: Let_def)
      next
        case (Inr e)
        then have e: "E e" using top [of l ?src e] Cons by simp
        show ?thesis
        proof (cases "\<exists>h t. e = Dated h (TransactionE t)")
          case True
          then obtain h t where t: "e = Dated h (TransactionE t)" by blast
          show ?thesis
          proof (cases "parse_body (n + 1) ls1 (im_meta s, [])")
            case (Inl x)
            obtain err n' ls' where x: "x = (err, n', ls')" by (cases x)
            have "set (drop 1 ls') \<subseteq> set ls" "length (drop 1 ls') < length ls"
              using parse_body_error_rest Inl x parse_body_rest(2) Cons set_drop_subset [of 1 ls'] by fastforce+
            from go [OF this(2,1), of "add_error (ParseFailed err) ?src s"] Inl x t Inr False Cons sofar errors
            show ?thesis by (simp add: Let_def)
          next
            case ok: (Inr x)
            obtain n' ls' meta ps where x: "x = (n', ls', meta, ps)" by (cases x)
            have b: "\<forall>p\<in>set ps. P p" "set ls' \<subseteq> set ls1"
              using parse_body_all [OF ok [unfolded x], of P] line assms(2) Cons by auto
            let ?s = "s\<lparr>im_entries := im_entries s @ [transaction_entry h t (im_tags s) meta ps]\<rparr>"
            have "\<forall>e\<in>set (im_entries ?s). E e" using sofar assms(4) [OF _ b(1)] e t by auto
            with go [of ls' ?s] b(2) parse_body_rest(1) [OF ok [unfolded x]] ok x t Inr False Cons
            show ?thesis by (auto simp: Let_def)
          qed
        next
          case other: False
          have "\<forall>e\<in>set (im_entries (register_entry e s)). E e"
            using e sofar by (auto simp: register_entry_def Let_def split: ledger_entry.splits config_entry.splits)
          moreover have "parse_lines f n ls s = parse_lines f (n + 1) ls1 (register_entry e s)"
            using other Inr False Cons by (auto simp: Let_def split: ledger_entry.split dated_entry.split)
          ultimately show ?thesis using next_line by simp
        qed
      qed
    qed
  qed
qed

section \<open>What a file gives\<close>

lemma parse_top_level_typed: "parse_top_level_line src l = Inr e \<Longrightarrow> entry_typed e"
  by (auto simp: parse_top_level_line_def Let_def simp del: entry_typed.simps(2) intro: parse_dated_typed
      split: sum.splits option.splits prod.splits if_splits)

lemma posting_typed_meta [simp]: "posting_typed (p\<lparr>pt_meta := m\<rparr>) = posting_typed p"
  by (simp add: posting_typed_def)

lemma imported_typed: "\<forall>e\<in>set (im_entries (parse_beancount_text text filename)). entry_typed e"
  unfolding parse_beancount_text_def
  by (rule parse_lines_all [where P = posting_typed])
    (auto simp: transaction_entry_def dest: parse_posting_typed intro: parse_top_level_typed)

lemma split_on_subset: "p \<in> set (split_on c s) \<Longrightarrow> set p \<subseteq> set s"
proof (induction s arbitrary: p)
  case (Cons d s)
  then show ?case by (cases "split_on c s") (fastforce split: if_splits)+
qed simp

lemma unix_lines_subset: "set (unix_lines s) \<subseteq> insert newline (set s)"
  by (induction s rule: unix_lines.induct) auto

lemma parse_top_level_accounts:
  assumes l: "account_ok l" and e: "parse_top_level_line src l = Inr e"
  shows "\<forall>a\<in>set (accounts_of e). account_ok a"
proof -
  let ?s = "js_trim (strip_comment l)"
  obtain date rest where 1: "split_first ?s = (date, rest)" by (cases "split_first ?s")
  obtain directive tail where 2: "split_first rest = (directive, tail)" by (cases "split_first rest")
  have tail: "account_ok tail"
    using set_split_first(2) [OF 2] set_split_first(2) [OF 1] set_strip [of l] account_ok_subset [OF _ l] by blast
  show ?thesis
  proof (cases e)
    case (Dated h d)
    then have d: "parse_dated directive tail = Inr d"
      using e 1 2 by (auto simp: parse_top_level_line_def Let_def split: sum.splits option.splits if_splits)
    show ?thesis
    proof (cases d)
      case (TransactionE t)
      with d Dated parse_dated_transaction show ?thesis by auto
    next
      case (PadE a s)
      with d have "split_first tail = (a, s)" by (simp add: parse_dated_pad)
      with set_split_first account_ok_subset [OF _ tail] Dated PadE show ?thesis by auto
    qed (use Dated in simp_all)
  qed simp
qed

lemma imported_accounts:
  assumes "account_ok text"
  shows "\<forall>e\<in>set (im_entries (parse_beancount_text text filename)). \<forall>a\<in>set (accounts_of e). account_ok a"
proof -
  have ok: "account_ok l" if "l \<in> set (split_on newline (unix_lines text))" for l
    using split_on_subset [OF that] unix_lines_subset [of "text"] assms by (auto simp: account_ok_def)
  show ?thesis
    unfolding parse_beancount_text_def
    by (rule parse_lines_all [where P = "\<lambda>p. account_ok (pt_account p)"])
      (auto simp: transaction_entry_def dest: bar_free_posting [OF ok] parse_top_level_accounts [OF ok])
qed

section \<open>Loading does not fail\<close>

lemma written_ok: "written_amount a \<Longrightarrow> amount_ok a"
  by (simp add: written_amount_def)

lemma typed_posting_ok: "posting_typed p \<Longrightarrow> posting_ok p"
  by (auto simp: posting_typed_def posting_ok_def cost_typed_def pred_option_def intro: written_ok
      split: option.splits posting_cost.splits)

lemma typed_keepable: "entry_typed e \<Longrightarrow> \<forall>a\<in>set (accounts_of e). account_ok a \<Longrightarrow> entry_keepable e"
  by (cases e rule: entry_keepable.cases) (auto simp: keepable_def intro: typed_posting_ok written_ok)

lemma imported_keepable:
  "account_ok text \<Longrightarrow> \<forall>e\<in>set (im_entries (parse_beancount_text text filename)). entry_keepable e"
  using imported_typed imported_accounts typed_keepable by blast

text \<open>Interpolation and pads keep it so.\<close>

lemma interpolate_keepable:
  assumes "\<forall>p\<in>set (tx_postings t). keepable p"
  shows "\<exists>t'. interpolate_transaction t = Inr t' \<and> (\<forall>p\<in>set (tx_postings t'). keepable p)"
proof (cases "fillable (tx_postings t)")
  case False
  with assms interpolate_skip [of t] show ?thesis by (auto simp: keepable_def)
next
  case True
  have acct: "pt_account (fill_posting r p) = pt_account p" for r p by (simp add: fill_posting_def)
  from True assms interpolate_fill [of t] obtain r where "amount_ok r"
    "interpolate_transaction t = Inr (t\<lparr>tx_postings := map (fill_posting r) (tx_postings t)\<rparr>)"
    by (auto simp: keepable_def)
  with assms posting_ok_fill acct show ?thesis by (auto simp: keepable_def)
qed

lemma interpolate_entries_keepable:
  "\<forall>e\<in>set es. entry_keepable e \<Longrightarrow>
   \<exists>es'. interpolate_entries es = Inr es' \<and> (\<forall>e\<in>set es'. entry_keepable e)"
proof (induction es)
  case (Cons e es)
  have "\<exists>e'. (case e of
      Dated h (TransactionE t) \<Rightarrow>
        (case interpolate_transaction t of Inl err \<Rightarrow> Inl err | Inr t' \<Rightarrow> Inr (Dated h (TransactionE t')))
    | _ \<Rightarrow> Inr e) = (Inr e' :: finance_error + ledger_entry) \<and> entry_keepable e'"
  proof (cases e rule: entry_keepable.cases)
    case (1 h t)
    with Cons.prems interpolate_keepable [of t] show ?thesis by auto
  qed (use Cons.prems in auto)
  with Cons show ?case by fastforce
qed simp

lemma transform_keepable:
  assumes "\<forall>e\<in>set es. entry_keepable e"
  shows "\<exists>es'. transform_entries es = Inr es' \<and> (\<forall>e\<in>set es'. entry_keepable e)"
proof -
  obtain es1 where 1: "interpolate_entries es = Inr es1" "\<forall>e\<in>set es1. entry_keepable e"
    using interpolate_entries_keepable [OF assms] by blast
  then have "\<forall>e\<in>set (sort_entries es1). entry_keepable e" by simp
  moreover have "pad_ok initial_pad" by (simp add: pad_ok_def)
  ultimately obtain s where "pad_steps (sort_entries es1) initial_pad = Inr s" "pad_ok s"
    using pad_steps_ok by blast
  with 1 show ?thesis by (simp add: transform_entries_def apply_pad_directives_def pad_ok_def)
qed

lemma validation_total:
  assumes "\<forall>e\<in>set es. entry_keepable e"
  shows "\<exists>errs. validate_entries es = Inr errs \<and>
    map snd (filter (\<lambda>x. fst x = BalanceAssertionFailed) errs) = failed_assertions [] (sort_entries es)"
proof -
  have "\<forall>e\<in>set (sort_entries es). entry_keepable e" using assms by simp
  from validate_loop_ok [OF this, of initial_validation "[]"] show ?thesis
    by (auto simp: validate_entries_def initial_validation_def)
qed



text \<open>An assertion on an account that was never opened, and a line that cannot be read.\<close>

definition small_text :: string where
  "small_text = ''2024-02-01 balance A:B 1 EUR'' @ [newline] @ ''x''"

lemma small_text_read:
  "CHR ''|'' \<notin> set small_text \<and>
   map fst (im_errors (parse_beancount_text small_text ''a.bean'')) = [ParseFailed ExpectedDate]"
  by code_simp


end
