(* ===== verification/Spec2Isabelle.thy ===== *)
theory Spec2Isabelle
  imports ProviderLeases OutboundGuard EgressPolicy FolderPaths LocationLease ToolCalls MessagePath StructuredExtraction
    ConversationWindow ReportReferences ContextPolicy MemoryAccess
    WindowPlanner Router PlanGraph LedgerLoad
begin

text \<open>
  A verification development for the decision cores of Rainver.

  Rainver is a multi-user server on which agents run. What protects its users is code that decides:
  whether an action is allowed, who sees a row, what an agent is told, where a run executes, what it
  may cost, and who holds a directory. Most of that code is pure, or keeps its state in memory; it is
  modelled here from the TypeScript source, function by function, and the rest of the system (HTTP
  routes, SQL repositories, provider calls, processes, the web interface) is not.

  The shared prelude.
  \<^item> \<^theory_text>\<open>Prelude\<close>: JSON values with JavaScript's truthiness, equality and property access, strings
    as lists of code units below 256, and the locale \<^theory_text>\<open>rank_choice\<close>, the contract of an operation that
    picks the higher of two ranks. It is interpreted on risks, sensitivities, access levels, sandbox
    and trust levels in the theories that define them.

  The policy gate, \<open>server/src/modules/policy\<close> and \<open>packages/protocol/src/policy.ts\<close>.
  \<^item> \<^theory_text>\<open>PolicyDecisions\<close>: decisions, risks, roles (\<open>decisions.ts\<close>, \<open>decisionCore.ts\<close>).
  \<^item> \<^theory_text>\<open>PolicyRegistry\<close>: the action registry, entry by entry (\<open>policy.ts\<close>, \<open>actionRegistry.ts\<close>).
  \<^item> \<^theory_text>\<open>PolicyManaged\<close>: managed execution (\<open>managedExecutionPolicy.ts\<close>).
  \<^item> \<^theory_text>\<open>PolicyInvariants\<close>, \<^theory_text>\<open>PolicyRules\<close>, \<^theory_text>\<open>PolicyEngine\<close>: hard invariants, the thirteen rules and
    their evaluation (\<open>decisionCore.ts\<close>).
  \<^item> \<^theory_text>\<open>PolicySanitizer\<close> (\<open>sanitizer.ts\<close>), \<^theory_text>\<open>PolicyGateway\<close> (\<open>gateway.ts\<close>), \<^theory_text>\<open>PolicyService\<close>
    (\<open>service.ts\<close>, \<open>auditWriter.ts\<close>): the request, the decision, its audit row. The audit table is a
    value of the model, and a parameter says which rows the database refuses.
  \<^item> \<^theory_text>\<open>PolicyProperties\<close>: what the gate as a whole allows and denies.

  Spending a provider's key.
  \<^item> \<^theory_text>\<open>RunLineage\<close> (\<open>systemActions/effectiveRunTrigger.ts\<close>): who set a run going. The recursive query is the
    walk it describes, over the runs of a space as a map; its depth of 32 is the code's own.
  \<^item> \<^theory_text>\<open>CredentialSpend\<close> (\<open>policy/credentialSpend.ts\<close>): every spend is decided by the credential rule of the
    gate, on the lineage of the run. The tables it queries are a record.
  \<^item> \<^theory_text>\<open>ProviderLeases\<close> (\<open>providers/proxy/lease.ts\<close>, \<open>server.ts\<close>): the leases minted from an authorized spend,
    and the requests the proxy admits on them. The table is shown to be exactly what the history of
    operations says; clock, random values and hash are arguments.

  What leaves the instance.
  \<^item> \<^theory_text>\<open>AddressBlocks\<close> (\<open>packages/outbound-guard/src/blockList.ts\<close>): reserved addresses as 32 and 128 bit words,
    with the parsing and the prefix rules of \<open>node:net\<close> written out.
  \<^item> \<^theory_text>\<open>OutboundGuard\<close> (\<open>guard.ts\<close>, \<open>pinnedLookup.ts\<close>, \<open>fetch.ts\<close>): a fetch with its redirects, in an environment
    that answers as it likes at every hop.
  \<^item> \<^theory_text>\<open>EgressPolicy\<close> (\<open>retrieval/egress/egressPolicy.ts\<close>, \<open>providers/deployment.ts\<close>,
    \<open>runs/adapterProviderRequirement.ts\<close>): which content may go to which model provider.

  What an agent is told, and who may see what.
  \<^item> \<^theory_text>\<open>ContextPolicy\<close> (\<open>policy/runtimeContextPolicyResolver.ts\<close>): policies of several scopes. The
    locale \<^theory_text>\<open>key_meet\<close> is the contract of one key (absent, or a greatest lower bound), interpreted for
    lists, maxima, flags and ceilings; resolution is the greatest lower bound over all keys.
  \<^item> \<^theory_text>\<open>ContentAccess\<close> (\<open>access/\<close>): the access level of a row, oversight, handing out roles.
  \<^item> \<^theory_text>\<open>MemoryAccess\<close> (\<open>memory/memoryReadAuth.ts\<close>): who reads a memory, on top of that decision.
  \<^item> \<^theory_text>\<open>FolderPaths\<close> (\<open>packages/folder-read/src/pathPolicy.ts\<close>): which files of a folder may be read and written,
    with POSIX \<open>resolve\<close> and \<open>relative\<close> written out. The redaction of diffs by regular expressions is not
    modelled.
  \<^item> \<^theory_text>\<open>TokenEstimate\<close> (\<open>usage/modelCatalog.ts\<close>): the estimate, and cuts that are proved equal to the
    longest prefix or suffix that fits. Texts are lists of code points.
  \<^item> \<^theory_text>\<open>WindowPlanner\<close> (\<open>runtimeContext/windowPlanner.ts\<close>): the plan of a context window. The model
    window and the collation keys of \<open>localeCompare\<close> are arguments.

  Where and how a run executes.
  \<^item> \<^theory_text>\<open>Router\<close> (\<open>routing/router.ts\<close>): hard filters, scores, selection. Scores are rationals; which
    adapters are local CLIs is an argument.
  \<^item> \<^theory_text>\<open>RunBudget\<close> (\<open>runs/contractSnapshot.ts\<close>): budgets of several sources.
  \<^item> \<^theory_text>\<open>WorkflowGraph\<close> (\<open>packages/protocol/src/workflows.ts\<close>): the validation of a definition, with
    its depth-first search. The fuel is one more than the number of nodes, and enough because every
    level of the search visits another node; that it is never used up is part of the properties.
  \<^item> \<^theory_text>\<open>PlanGraph\<close> (\<open>plans/graph.ts\<close>): materialization with the memoized depth, which is shown to be
    the longest dependency chain, and the approval of a plan that no person sees.
  \<^item> \<^theory_text>\<open>LocationLease\<close> (\<open>packages/host-daemon/src/locationLease.ts\<close>): the leases of directories. The
    asynchronous acquisition is cut at its awaits into the events of a labelled transition system;
    the properties hold in every reachable state and for every interleaving.
  \<^item> \<^theory_text>\<open>ToolCalls\<close> (\<open>runtimeAdapters/acpToolCallLifecycle.ts\<close>): the correlation of a runtime's reports on its tool
    calls, as a machine over the stream of reports.
  \<^item> \<^theory_text>\<open>MessagePath\<close> (\<open>sessions/messagePath.ts\<close>, the appends of \<open>sessions/repository.ts\<close>): the visible path of a
    conversation, its equivalence with the walk along the parents over every history of appends and
    replies, and appends that race. That a waiting statement reads the new head after the lock but only
    the rows of its snapshot is the database's documented behaviour at its default isolation level.
  \<^item> \<^theory_text>\<open>ConversationWindow\<close> (\<open>agents/messageContinuityWindow.ts\<close>): the recent messages a model is shown, cut to a
    budget, and their form for a provider.
  \<^item> \<^theory_text>\<open>StructuredOutput\<close> (\<open>runs/structuredOutputValidation.ts\<close>), \<^theory_text>\<open>StructuredExtraction\<close>
    (\<open>providers/invocation/invocation.ts\<close>): the validation of a model's output against a schema, equivalent to a
    relation that states the constraints, the repairs of near misses, and the extraction of a record from
    an answer with its scan for balanced texts, which is shown equivalent to a grammar. The fuel counts
    parsed texts inside of texts; the length of the answer is enough.
  \<^item> \<^theory_text>\<open>ReportReferences\<close> (\<open>projectResearch/reportReferenceNumbering.ts\<close>): the ids of the references of a
    research report, what two equal ids mean, and that the cache of the evidence rows changes nothing.

  The finance ledger plugin, \<open>plugins/official/finance_ledger/server/src\<close>.
  \<^item> \<^theory_text>\<open>FinanceDecimal\<close> (\<open>domain/decimal.ts\<close>, \<open>amount.ts\<close>): decimals as coefficient, scale and text;
    their arithmetic is that of the rationals, and their text reads back.
  \<^item> \<^theory_text>\<open>FinanceInventory\<close> (\<open>domain/position.ts\<close>, \<open>inventory.ts\<close>): costs, lots and what an inventory
    conserves.
  \<^item> \<^theory_text>\<open>LedgerEntries\<close> (\<open>beancount/entries.ts\<close>, \<open>sort.ts\<close>), \<^theory_text>\<open>LedgerValidation\<close>
    (\<open>beancount/validation.ts\<close>): entries and their order, weights, interpolation, running balances,
    pads and validation. A sum of two commodities is an error value.
  \<^item> \<^theory_text>\<open>LedgerProperties\<close>, \<^theory_text>\<open>LedgerBalances\<close>: balance by weight, and running balances, assertions and
    pads as statements about sums of postings.
  \<^item> \<^theory_text>\<open>LedgerExporter\<close> (\<open>beancount/exporter.ts\<close>), \<^theory_text>\<open>LedgerImporter\<close> (\<open>beancount/importer.ts\<close>): the
    text of a ledger and how it is read, the regular expressions written out as functions over
    characters. \<^theory_text>\<open>LedgerText\<close> (words, quotes, escapes), \<^theory_text>\<open>LedgerRoundtrip\<close> (directives),
    \<^theory_text>\<open>LedgerTransactions\<close> (headers, metadata), \<^theory_text>\<open>LedgerPostings\<close> (postings, costs) and
    \<^theory_text>\<open>LedgerDocument\<close> (files) show line by line that what is written reads back. One line is cut
    short in the model: a balance line that ends in its tilde, where the code goes on with a
    number that is undefined, is an error there.
  \<^item> \<^theory_text>\<open>LedgerLoad\<close> (\<open>beancount/engine.ts\<close>, \<open>loadFromText\<close>): what the importer guarantees of
    everything it reads, and that reading, interpolation, pads, order and validation composed never
    throw.

  Numbers of the source are integers, naturals or rationals as the code uses them; the floating-point
  rounding of scores and costs is not modelled. Strings that reach the models from the database or a
  request are arguments.

  Not modelled: code whose logic is the text of SQL statements, prompts and provider calls; processes,
  files and sockets; rendering; content hashes and human-readable messages. The manifest lists these
  parts one by one.
\<close>

end
